(* ===== verification/Go_Prelude.thy ===== *)
theory Go_Prelude
  imports Main "HOL-Library.AList" "HOL-Library.Multiset" "HOL-Library.Char_ord" "HOL-Library.List_Lexorder"
begin

text \<open>
  The prelude of the development: what the Go sources use of the language and of its standard
  library, in the form the component theories share.
  \<^item> instants and durations are integers counting nanoseconds (\<open>gotime\<close> from Go's zero time,
    so that \<open>IsZero\<close> is \<open>= 0\<close>); a difference of instants saturates at the ends of the
    int64 range as \<^verbatim>\<open>Time.Sub\<close> does;
  \<^item> a Go map is an association list whose order stands for the iteration order the runtime
    picks, so that a theorem about every list is a theorem about every iteration order; reading
    is \<^const>\<open>map_of\<close>, writing \<^const>\<open>AList.update\<close>, deleting \<^const>\<open>AList.delete\<close>;
  \<^item> errors are values of \<open>goerror\<close>: a package-level sentinel, a message, or a message
    wrapped around a cause (\<^verbatim>\<open>%w\<close>), with \<^verbatim>\<open>errors.Is\<close> walking the chain;
  \<^item> strings are byte lists with Go's bytewise order, and the functions of package
    \<^verbatim>\<open>strings\<close> the sources call.
  The collections \<open>go_simps\<close> and \<open>go_errors\<close> gather the facts the component proofs share.
\<close>

named_theorems go_simps \<open>rewriting rules for the standard library functions of the model\<close>
named_theorems go_errors \<open>rewriting rules for error values\<close>

section \<open>Instants and durations\<close>

type_synonym gotime = int
type_synonym duration = int

definition max_duration :: duration where
  "max_duration = 2 ^ 63 - 1"

definition min_duration :: duration where
  "min_duration = - (2 ^ 63)"

abbreviation second :: duration where "second \<equiv> 1000000000"
abbreviation minute :: duration where "minute \<equiv> 60000000000"
abbreviation hour :: duration where "hour \<equiv> 3600000000000"

definition time_is_zero :: "gotime \<Rightarrow> bool" where
  "time_is_zero t \<longleftrightarrow> t = 0"

definition time_sub :: "gotime \<Rightarrow> gotime \<Rightarrow> duration" where
  "time_sub a b = max min_duration (min max_duration (a - b))"

definition dur_truncate :: "duration \<Rightarrow> duration \<Rightarrow> duration" where
  \<comment> \<open>\<^verbatim>\<open>Duration.Truncate\<close>: towards zero, to a multiple of m\<close>
  "dur_truncate d m = (if m \<le> 0 then d else sgn d * (\<bar>d\<bar> - \<bar>d\<bar> mod m))"

lemma time_sub_bounds: "min_duration \<le> time_sub a b \<and> time_sub a b \<le> max_duration"
  by (simp add: time_sub_def min_duration_def max_duration_def)

lemma time_sub_exact [go_simps]:
  "min_duration \<le> a - b \<Longrightarrow> a - b \<le> max_duration \<Longrightarrow> time_sub a b = a - b"
  by (simp add: time_sub_def)

lemma time_sub_le: "0 \<le> w \<Longrightarrow> w < max_duration \<Longrightarrow> time_sub a b \<le> w \<longleftrightarrow> a - b \<le> w"
  by (auto simp: time_sub_def min_duration_def max_duration_def)

section \<open>Errors\<close>

datatype goerror = Sentinel string | Plain string | Wrapf string goerror

fun errors_is :: "goerror \<Rightarrow> goerror \<Rightarrow> bool" where
  "errors_is (Wrapf m e) t = (Wrapf m e = t \<or> errors_is e t)"
| "errors_is e t = (e = t)"

lemma errors_is_refl [simp, go_errors]: "errors_is e e"
  by (cases e) simp_all

lemma errors_is_wrap [simp, go_errors]: "errors_is e t \<Longrightarrow> errors_is (Wrapf m e) t"
  by simp

text \<open>Early returns: a step that fails ends the function with its error, possibly wrapped.\<close>

definition go_bind :: "goerror + 'a \<Rightarrow> ('a \<Rightarrow> goerror + 'b) \<Rightarrow> goerror + 'b" where
  "go_bind r f = (case r of Inl e \<Rightarrow> Inl e | Inr x \<Rightarrow> f x)"

definition go_wrap :: "string \<Rightarrow> goerror + 'a \<Rightarrow> goerror + 'a" where
  "go_wrap msg r = map_sum (Wrapf msg) id r"

definition go_require :: "bool \<Rightarrow> goerror \<Rightarrow> goerror + unit" where
  "go_require ok e = (if ok then Inr () else Inl e)"

definition go_some :: "goerror \<Rightarrow> 'a option \<Rightarrow> goerror + 'a" where
  "go_some e x = (case x of None \<Rightarrow> Inl e | Some v \<Rightarrow> Inr v)"

definition go_none :: "goerror option \<Rightarrow> goerror + unit" where
  "go_none err = (case err of None \<Rightarrow> Inr () | Some e \<Rightarrow> Inl e)"

lemmas go_eval = go_bind_def go_wrap_def go_require_def go_some_def go_none_def

lemma go_bind_Inr [go_errors]: "go_bind r f = Inr y \<longleftrightarrow> (\<exists>x. r = Inr x \<and> f x = Inr y)"
  by (simp add: go_bind_def split: sum.splits)

lemma go_steps_Inr [simp, go_errors]:
  "go_wrap msg r = Inr y \<longleftrightarrow> r = Inr y" "go_require ok e = Inr u \<longleftrightarrow> ok" "go_some e x = Inr v \<longleftrightarrow> x = Some v"
  "go_none err = Inr u \<longleftrightarrow> err = None"
  by (cases r; auto simp: go_wrap_def go_require_def go_some_def go_none_def split: option.splits)+

section \<open>Maps\<close>

type_synonym ('k, 'v) gomap = "('k \<times> 'v) list"

definition gomap_wf :: "('k, 'v) gomap \<Rightarrow> bool" where
  "gomap_wf m \<longleftrightarrow> distinct (map fst m)"

lemma gomap_wf_Nil [simp]: "gomap_wf []"
  by (simp add: gomap_wf_def)

lemma gomap_wf_update [simp, intro]: "gomap_wf m \<Longrightarrow> gomap_wf (AList.update k v m)"
  by (simp add: gomap_wf_def distinct_update)

lemma gomap_wf_delete [simp, intro]: "gomap_wf m \<Longrightarrow> gomap_wf (AList.delete k m)"
  by (simp add: gomap_wf_def distinct_delete)

lemma map_of_update [simp, go_simps]:
  "map_of (AList.update k v m) j = (if j = k then Some v else map_of m j)"
  by (simp add: update_conv')

lemma map_of_delete [simp, go_simps]:
  "map_of (AList.delete k m) j = (if j = k then None else map_of m j)"
  by (simp add: delete_conv')

lemma gomap_mem_iff:
  "gomap_wf m \<Longrightarrow> (k, v) \<in> set m \<longleftrightarrow> map_of m k = Some v"
  by (simp add: gomap_wf_def)

lemma length_delete_le: "length (AList.delete k m) \<le> length m"
  by (induction m) auto

lemma length_delete_mem:
  "k \<in> fst ` set m \<Longrightarrow> gomap_wf m \<Longrightarrow> Suc (length (AList.delete k m)) = length m"
proof (induction m)
  case Nil
  then show ?case by simp
next
  case (Cons p m)
  show ?case
  proof (cases "fst p = k")
    case True
    with Cons.prems have "k \<notin> fst ` set m" by (auto simp: gomap_wf_def)
    then have "AList.delete k m = m" by (simp add: delete_id)
    with True show ?thesis by (cases p) simp
  next
    case False
    with Cons show ?thesis by (cases p) (auto simp: gomap_wf_def)
  qed
qed

lemma length_update_new:
  "map_of m k = None \<Longrightarrow> length (AList.update k v m) = Suc (length m)"
  by (induction m) auto

lemma length_update_old:
  "map_of m k = Some w \<Longrightarrow> length (AList.update k v m) = length m"
  by (induction m) (auto split: if_splits)

definition gomap_sum :: "('v \<Rightarrow> 'm::comm_monoid_add) \<Rightarrow> ('k, 'v) gomap \<Rightarrow> 'm" where
  "gomap_sum g m = sum_list (map (\<lambda>(k, v). g v) m)"

lemma gomap_sum_Nil [simp]: "gomap_sum g [] = 0"
  by (simp add: gomap_sum_def)

lemma gomap_sum_update:
  "gomap_wf m \<Longrightarrow>
   gomap_sum g (AList.update k v m) + (case map_of m k of None \<Rightarrow> 0 | Some w \<Rightarrow> g w) = gomap_sum g m + g v"
  by (induction m) (auto simp: gomap_sum_def gomap_wf_def ac_simps split: option.splits)

lemma gomap_sum_new:
  "gomap_wf m \<Longrightarrow> map_of m k = None \<Longrightarrow> gomap_sum g (AList.update k v m) = gomap_sum g m + g v"
  using gomap_sum_update [of m g k v] by simp

lemma gomap_sum_delete:
  "gomap_wf m \<Longrightarrow>
   gomap_sum g (AList.delete k m) + (case map_of m k of None \<Rightarrow> 0 | Some w \<Rightarrow> g w) = gomap_sum g m"
proof (induction m)
  case (Cons a m)
  have "fst a = k \<Longrightarrow> AList.delete k m = m"
    using Cons.prems by (auto simp: gomap_wf_def intro: delete_id)
  with Cons show ?case
    by (cases a) (auto simp: gomap_sum_def gomap_wf_def ac_simps split: option.splits if_splits)
qed simp

text \<open>Maps of slices and maps of booleans, with the zero value of a missing key.\<close>

definition slice_of :: "('k, 'v list) gomap \<Rightarrow> 'k \<Rightarrow> 'v list" where
  "slice_of m k = (case map_of m k of None \<Rightarrow> [] | Some xs \<Rightarrow> xs)"

definition is_true :: "('k, bool) gomap \<Rightarrow> 'k \<Rightarrow> bool" where
  "is_true m k \<longleftrightarrow> map_of m k = Some True"

lemma slice_of_update [simp]: "slice_of (AList.update k xs m) j = (if j = k then xs else slice_of m j)"
  by (simp add: slice_of_def)

lemma slice_of_Nil [simp]: "slice_of [] h = []"
  by (simp add: slice_of_def)

lemma is_true_update [simp]: "is_true (AList.update k True m) i \<longleftrightarrow> i = k \<or> is_true m i"
  by (auto simp: is_true_def)

lemma is_true_Nil [simp]: "\<not> is_true [] k"
  by (simp add: is_true_def)

section \<open>Strings\<close>

text \<open>
  The functions of package \<^verbatim>\<open>strings\<close> the sources call. The model works on bytes, so the
  functions that look at letters or at white space are faithful for ASCII text, which is what the
  modelled components handle (host names, addresses, identifiers, command names).
\<close>

definition has_prefix :: "string \<Rightarrow> string \<Rightarrow> bool" where
  "has_prefix s p = (take (length p) s = p)"

definition trim_prefix :: "string \<Rightarrow> string \<Rightarrow> string" where
  "trim_prefix s p = (if has_prefix s p then drop (length p) s else s)"

definition is_space :: "char \<Rightarrow> bool" where
  "is_space c = (c \<in> {CHR 0x09, CHR 0x0A, CHR 0x0B, CHR 0x0C, CHR 0x0D, CHR 0x20})"

definition trim_right :: "(char \<Rightarrow> bool) \<Rightarrow> string \<Rightarrow> string" where
  "trim_right P s = rev (dropWhile P (rev s))"

definition trim_space :: "string \<Rightarrow> string" where
  "trim_space s = trim_right is_space (dropWhile is_space s)"

definition to_lower_char :: "char \<Rightarrow> char" where
  "to_lower_char c = (if CHR ''A'' \<le> c \<and> c \<le> CHR ''Z'' then char_of (of_char c + 32 :: nat) else c)"

definition to_lower :: "string \<Rightarrow> string" where
  "to_lower s = map to_lower_char s"

definition equal_fold :: "string \<Rightarrow> string \<Rightarrow> bool" where
  "equal_fold s t = (to_lower s = to_lower t)"

fun split_on :: "char \<Rightarrow> string \<Rightarrow> string list" where
  "split_on sep [] = [[]]"
| "split_on sep (c # cs) =
     (if c = sep then [] # split_on sep cs
      else case split_on sep cs of [] \<Rightarrow> [[c]] | p # ps \<Rightarrow> (c # p) # ps)"

definition fields :: "string \<Rightarrow> string list" where
  "fields s = filter (\<lambda>w. w \<noteq> []) (split_on CHR '' '' (map (\<lambda>c. if is_space c then CHR '' '' else c) s))"

fun join_with :: "string \<Rightarrow> string list \<Rightarrow> string" where
  "join_with sep [] = ''''"
| "join_with sep [x] = x"
| "join_with sep (x # y # ys) = x @ sep @ join_with sep (y # ys)"

definition is_digit :: "char \<Rightarrow> bool" where
  "is_digit c = (CHR ''0'' \<le> c \<and> c \<le> CHR ''9'')"

definition is_alpha :: "char \<Rightarrow> bool" where
  "is_alpha c = ((CHR ''a'' \<le> c \<and> c \<le> CHR ''z'') \<or> (CHR ''A'' \<le> c \<and> c \<le> CHR ''Z''))"

definition digit_val :: "char \<Rightarrow> nat" where
  "digit_val c = of_char c - 48"

fun dec_val :: "nat \<Rightarrow> string \<Rightarrow> nat" where
  "dec_val n [] = n"
| "dec_val n (c # cs) = dec_val (n * 10 + digit_val c) cs"

fun FirstNonEmpty :: "string list \<Rightarrow> string" where
  "FirstNonEmpty [] = []"
| "FirstNonEmpty (v # vs) = (if v \<noteq> [] then v else FirstNonEmpty vs)"

fun dec_digits :: "nat \<Rightarrow> string" where
  "dec_digits n = (if n < 10 then [char_of (48 + n)] else dec_digits (n div 10) @ [char_of (48 + n mod 10)])"

declare dec_digits.simps [simp del]

definition Itoa :: "int \<Rightarrow> string" where
  "Itoa i = (if i < 0 then CHR ''-'' # dec_digits (nat (- i)) else dec_digits (nat i))"

definition max_int64 :: int where "max_int64 = 2 ^ 63 - 1"

definition split_sign :: "string \<Rightarrow> bool \<times> string" where
  "split_sign s = (case s of [] \<Rightarrow> (False, [])
     | c # cs \<Rightarrow> if c = CHR ''+'' then (False, cs) else if c = CHR ''-'' then (True, cs) else (False, s))"

definition Atoi :: "string \<Rightarrow> int option" where
  "Atoi s = (case split_sign s of (neg, ds) \<Rightarrow>
     let v = (if neg then - int (dec_val 0 ds) else int (dec_val 0 ds)) in
     if ds = [] \<or> \<not> list_all is_digit ds \<or> v < - (max_int64 + 1) \<or> v > max_int64 then None else Some v)"

definition trim_suffix :: "string \<Rightarrow> string \<Rightarrow> string" where
  "trim_suffix s p = (if length p \<le> length s \<and> drop (length s - length p) s = p then take (length s - length p) s else s)"

definition last_index :: "char \<Rightarrow> string \<Rightarrow> nat option" where
  "last_index c s = (if c \<in> set s then Some (length s - 1 - length (takeWhile (\<lambda>d. d \<noteq> c) (rev s))) else None)"

definition first_index :: "char \<Rightarrow> string \<Rightarrow> nat option" where
  "first_index c s = (if c \<in> set s then Some (length (takeWhile (\<lambda>d. d \<noteq> c) s)) else None)"

lemma has_prefix_append [simp]: "has_prefix (p @ s) p"
  by (simp add: has_prefix_def)

lemma trim_prefix_append [simp]: "trim_prefix (p @ s) p = s"
  by (simp add: trim_prefix_def)

lemma has_prefixE: "has_prefix s p \<Longrightarrow> \<exists>r. s = p @ r"
  by (metis has_prefix_def append_take_drop_id)

lemma has_prefix_trim: "has_prefix s p \<Longrightarrow> s = p @ trim_prefix s p"
  by (auto dest!: has_prefixE)

lemma split_on_nonempty [simp]: "split_on sep s \<noteq> []"
  by (induction s) (auto split: list.splits)

lemma split_on_no_sep: "p \<in> set (split_on sep s) \<Longrightarrow> sep \<notin> set p"
  by (induction s arbitrary: p) (auto split: list.splits if_splits)

lemma split_on_subset: "p \<in> set (split_on sep s) \<Longrightarrow> set p \<subseteq> set s"
proof (induction s arbitrary: p)
  case Nil
  then show ?case by simp
next
  case (Cons c s)
  obtain q qs where "split_on sep s = q # qs"
    using split_on_nonempty [of sep s] by (cases "split_on sep s") auto
  with Cons show ?case by (fastforce split: if_splits)
qed

lemma split_on_append:
  "sep \<notin> set p \<Longrightarrow> split_on sep (p @ sep # s) = p # split_on sep s"
  by (induction p) auto

lemma split_on_single: "sep \<notin> set p \<Longrightarrow> split_on sep p = [p]"
  by (induction p) auto

lemma join_split: "join_with [sep] (split_on sep s) = s"
proof (induction s)
  case Nil
  then show ?case by simp
next
  case (Cons c s)
  obtain p ps where e: "split_on sep s = p # ps"
    using split_on_nonempty [of sep s] by (cases "split_on sep s") auto
  show ?case
  proof (cases "c = sep")
    case True
    with Cons e show ?thesis by simp
  next
    case False
    with Cons e show ?thesis by (cases ps) auto
  qed
qed

lemma equal_fold_refl [simp]: "equal_fold s s"
  by (simp add: equal_fold_def)

lemma fields_no_space: "w \<in> set (fields s) \<Longrightarrow> w \<noteq> [] \<and> (\<forall>c \<in> set w. \<not> is_space c)"
proof -
  assume w: "w \<in> set (fields s)"
  let ?m = "map (\<lambda>c. if is_space c then CHR '' '' else c) s"
  from w have mem: "w \<in> set (split_on CHR '' '' ?m)" and "w \<noteq> []" by (auto simp: fields_def)
  have "\<not> is_space c" if "c \<in> set w" for c
    using split_on_subset [OF mem] that split_on_no_sep [OF mem] by (auto split: if_splits)
  with \<open>w \<noteq> []\<close> show ?thesis by blast
qed

section \<open>Sorting\<close>

lemma sort_eq_iff_mset: "sort xs = sort ys \<longleftrightarrow> mset xs = mset ys"
  by (metis mset_sort properties_for_sort sorted_sort)

lemma map_sort_key: "map f (sort_key f xs) = sort (map f xs)"
  by (rule properties_for_sort [symmetric]) (simp_all add: mset_map [symmetric] del: mset_map, metis mset_map mset_sort)

text \<open>Without equal keys there is one sorted order, so an unstable sort gives it too.\<close>

lemma sort_key_mset:
  assumes "mset xs = mset ys" "distinct (map f xs)"
  shows "sort_key f xs = sort_key f ys"
  by (rule sort_key_inj_key_eq) (use assms in \<open>auto simp: distinct_map\<close>)

end
