(* ===== verification/Authz.thy ===== *)
theory Authz
  imports Go_Prelude
begin

text \<open>
  \<^verbatim>\<open>internal/authz/authz.go\<close>: the app-layer authorization decision. The catalogue of gated
  commands, the grants of a caller, the cached grants of degraded mode, and the two entry points
  \<open>Snapshot\<close> and \<open>Check\<close> with the helpers they call.

  What the package takes from outside (the Vault token lookup, opening the grant source, the grant
  query, the clock) is the record \<open>authz_env\<close>; what it does to the outside (opening and releasing
  the grant source, recording a confirmed grant, warning about a degraded decision) is a list of
  \<open>authz_effect\<close> in the order it happens. The lemmas decide \<open>Check\<close> on every branch and show
  which branches touch the grant source.
\<close>

section \<open>The catalogue\<close>

type_synonym cmd_class = string

definition ClassRead :: cmd_class where "ClassRead = ''read''"
definition ClassMutate :: cmd_class where "ClassMutate = ''mutate''"
definition ClassAdmin :: cmd_class where "ClassAdmin = ''admin''"

definition gated :: "(string, cmd_class) gomap" where
  "gated =
    [(''ssh'', ClassMutate), (''exec'', ClassMutate), (''inject'', ClassMutate),
     (''dns'', ClassMutate), (''install'', ClassMutate),
     (''add'', ClassMutate), (''delete'', ClassMutate), (''edit'', ClassMutate),
     (''sync'', ClassMutate),
     (''ip'', ClassMutate), (''wg'', ClassRead), (''wg-sync'', ClassMutate),
     (''wg-connect'', ClassMutate), (''wg-failover'', ClassMutate),
     (''openstack-farm'', ClassMutate), (''spec'', ClassMutate),
     (''users'', ClassRead), (''list'', ClassRead), (''whoami'', ClassRead),
     (''check'', ClassRead), (''admin'', ClassAdmin), (''retention'', ClassRead),
     (''kv'', ClassRead), (''kv-set'', ClassMutate), (''k8s'', ClassRead),
     (''k8s-access'', ClassMutate), (''k8s-inventory'', ClassMutate),
     (''node-access'', ClassMutate), (''node-access-shell'', ClassMutate)]"

definition ClassOf :: "string \<Rightarrow> cmd_class option" where
  "ClassOf name = map_of gated name"

definition GatedCommands :: "string list" where
  "GatedCommands = sort (map fst gated)"

definition GrantableCommands :: "string list" where
  "GrantableCommands = sort (map fst (filter (\<lambda>(c, class). class = ClassMutate) gated))"

definition Grantable :: "string list" where
  "Grantable = [''*''] @ GrantableCommands"

fun HasAdminPolicy :: "string list \<Rightarrow> string list \<Rightarrow> bool" where
  "HasAdminPolicy pols [] = False"
| "HasAdminPolicy pols (a # admins) = (if a \<in> set pols then True else HasAdminPolicy pols admins)"

definition ErrUninitialized :: goerror where
  "ErrUninitialized = Sentinel ''rbac schema not initialized''"

definition IsUninitializedRBAC :: "goerror \<Rightarrow> bool" where
  "IsUninitializedRBAC err = errors_is err ErrUninitialized"

section \<open>Grants\<close>

record command =
  cmd_Name :: string
  cmd_Class :: cmd_class

record authorization =
  az_Identity :: string
  az_Policies :: "string list"
  az_Admin :: bool
  az_Commands :: "(string, bool) gomap option"
  az_rbacUninitialized :: bool

definition granted :: "(string, bool) gomap option \<Rightarrow> string \<Rightarrow> bool" where
  \<comment> \<open>indexing a map of booleans: a missing key, or a nil map, reads as false\<close>
  "granted m c = (case m of None \<Rightarrow> False | Some m' \<Rightarrow> map_of m' c = Some True)"

definition Allows :: "authorization \<Rightarrow> string \<Rightarrow> bool" where
  "Allows az cmd = (az_Admin az \<or> granted (az_Commands az) ''*'' \<or> granted (az_Commands az) cmd)"

record cached_grant =
  cg_Commands :: "string list"
  cg_ConfirmedAt :: gotime

definition grant_Has :: "cached_grant \<Rightarrow> string \<Rightarrow> bool" where
  "grant_Has g cmd = (''*'' \<in> set (cg_Commands g) \<or> cmd \<in> set (cg_Commands g))"

definition grant_Age :: "cached_grant \<Rightarrow> gotime \<Rightarrow> duration" where
  "grant_Age g now = max (time_sub now (cg_ConfirmedAt g)) 0"

definition grant_Expired :: "cached_grant \<Rightarrow> gotime \<Rightarrow> duration \<Rightarrow> bool" where
  "grant_Expired g now window = (window \<le> 0 \<or> grant_Age g now > window)"

definition offlineAllowed :: "(string, bool) gomap" where
  "offlineAllowed = [(''ssh'', True)]"

section \<open>The authorizer\<close>

text \<open>
  \<^verbatim>\<open>Offline\<close>: a nil function is \<^const>\<open>None\<close>, or \<^const>\<open>False\<close> for the two hooks
  whose call is an effect.
\<close>

record offline_cfg =
  off_Lookup :: "(string \<Rightarrow> cached_grant option) option"
  off_Record :: bool
  off_Window :: duration
  off_OnDegraded :: bool
  off_Now :: "gotime option"

record authorizer =
  a_offline :: "offline_cfg option"
  a_admins :: "string list"

record authz_env =
  env_token :: "goerror + (string \<times> string list)"
  env_open :: "goerror + bool" \<comment> \<open>opened, and whether a cleanup function came with it\<close>
  env_commands :: "string \<Rightarrow> goerror + (string, bool) gomap"
  env_clock :: gotime

datatype authz_effect =
    OpenGrants
  | CleanupGrants
  | RecordGrants string "string list"
  | OnDegraded string duration

datatype check_error =
    TokenLookup goerror
  | AdminOnly string string
  | NoIdentity
  | NotInitialized
  | NotPermitted string string
  | GrantSourceFailed goerror
  | NeedsDatabase string goerror
  | NoCachedAuthorization string string goerror
  | CachedExpired string duration duration goerror
  | CachedNotPermitted string string

definition offline_now :: "offline_cfg option \<Rightarrow> authz_env \<Rightarrow> gotime" where
  "offline_now off env =
     (case off of None \<Rightarrow> env_clock env
      | Some o' \<Rightarrow> (case off_Now o' of None \<Rightarrow> env_clock env | Some t \<Rightarrow> t))"

definition offline_enabled :: "offline_cfg option \<Rightarrow> bool" where
  "offline_enabled off =
     (case off of None \<Rightarrow> False | Some o' \<Rightarrow> off_Lookup o' \<noteq> None \<and> off_Window o' > 0)"

definition New :: authorizer where
  "New = \<lparr>a_offline = None, a_admins = []\<rparr>"

definition WithOffline :: "offline_cfg option \<Rightarrow> authorizer \<Rightarrow> authorizer" where
  "WithOffline off a = a\<lparr>a_offline := off\<rparr>"

definition WithAdminPolicies :: "string list \<Rightarrow> authorizer \<Rightarrow> authorizer" where
  "WithAdminPolicies admins a = a\<lparr>a_admins := admins\<rparr>"

definition adminsLabel :: "authorizer \<Rightarrow> string" where
  "adminsLabel a =
     (if length (a_admins a) = 0 then ''an admin policy, and none are configured''
      else join_with '' or '' (a_admins a))"

definition recordGrants :: "authorizer \<Rightarrow> string \<Rightarrow> (string, bool) gomap \<Rightarrow> authz_effect list" where
  "recordGrants a identity cmds =
     (case a_offline a of None \<Rightarrow> []
      | Some o' \<Rightarrow>
          if \<not> off_Record o' \<or> identity = '''' then []
          else [RecordGrants identity (map fst (filter snd cmds))])"

definition loadGrants ::
  "authorizer \<Rightarrow> authz_env \<Rightarrow> authorization \<Rightarrow> authz_effect list \<times> goerror option \<times> authorization"
where
  "loadGrants a env az =
     (case env_open env of
        Inl err \<Rightarrow> ([OpenGrants], Some err, az)
      | Inr hasCleanup \<Rightarrow>
          let deferred = (if hasCleanup then [CleanupGrants] else []) in
          (case env_commands env (az_Identity az) of
             Inl err \<Rightarrow>
               if IsUninitializedRBAC err
               then (OpenGrants # deferred, None, az\<lparr>az_rbacUninitialized := True\<rparr>)
               else (OpenGrants # deferred, Some err, az)
           | Inr cmds \<Rightarrow>
               (OpenGrants # recordGrants a (az_Identity az) cmds @ deferred, None,
                az\<lparr>az_Commands := Some cmds\<rparr>)))"

definition blank_authorization :: "string \<Rightarrow> authorization" where
  "blank_authorization identity =
     \<lparr>az_Identity = identity, az_Policies = [], az_Admin = False, az_Commands = None,
      az_rbacUninitialized = False\<rparr>"

definition Snapshot ::
  "authorizer \<Rightarrow> authz_env \<Rightarrow> authz_effect list \<times> authorization \<times> check_error option" where
  "Snapshot a env =
     (case env_token env of
        Inl err \<Rightarrow> ([], blank_authorization '''', Some (TokenLookup err))
      | Inr (identity, pols) \<Rightarrow>
          let az = \<lparr>az_Identity = identity, az_Policies = pols,
                    az_Admin = HasAdminPolicy pols (a_admins a), az_Commands = None,
                    az_rbacUninitialized = False\<rparr> in
          if az_Admin az then ([], az, None)
          else (case loadGrants a env az of
                  (fx, Some err, az') \<Rightarrow> (fx, az', Some (GrantSourceFailed err))
                | (fx, None, az') \<Rightarrow> (fx, az', None)))"

definition checkOffline ::
  "authorizer \<Rightarrow> authz_env \<Rightarrow> command \<Rightarrow> string \<Rightarrow> goerror \<Rightarrow> authz_effect list \<times> check_error option"
where
  "checkOffline a env cmd identity cause =
     (if \<not> offline_enabled (a_offline a) then ([], Some (GrantSourceFailed cause))
      else if map_of offlineAllowed (cmd_Name cmd) \<noteq> Some True
      then ([], Some (NeedsDatabase (cmd_Name cmd) cause))
      else let off = the (a_offline a) in
        (case the (off_Lookup off) identity of
           None \<Rightarrow> ([], Some (NoCachedAuthorization identity (cmd_Name cmd) cause))
         | Some grant \<Rightarrow>
             let now = offline_now (a_offline a) env; age = grant_Age grant now in
             if grant_Expired grant now (off_Window off)
             then ([], Some (CachedExpired identity (dur_truncate age minute) (off_Window off) cause))
             else if \<not> grant_Has grant (cmd_Name cmd)
             then ([], Some (CachedNotPermitted (cmd_Name cmd) identity))
             else ((if off_OnDegraded off then [OnDegraded (cmd_Name cmd) age] else []), None)))"

definition Check ::
  "authorizer \<Rightarrow> authz_env \<Rightarrow> command \<Rightarrow> authz_effect list \<times> check_error option" where
  "Check a env cmd =
     (if cmd_Name cmd = '''' then ([], None)
      else case env_token env of
        Inl err \<Rightarrow> ([], Some (TokenLookup err))
      | Inr (identity, pols) \<Rightarrow>
          if HasAdminPolicy pols (a_admins a) then ([], None)
          else if cmd_Class cmd = ClassRead then ([], None)
          else if cmd_Class cmd = ClassAdmin
          then ([], Some (AdminOnly (cmd_Name cmd) (adminsLabel a)))
          else if identity = '''' then ([], Some NoIdentity)
          else (case loadGrants a env (blank_authorization identity) of
                  (fx, Some err, az) \<Rightarrow>
                    (case checkOffline a env cmd identity err of (fx', r) \<Rightarrow> (fx @ fx', r))
                | (fx, None, az) \<Rightarrow>
                    if az_rbacUninitialized az then (fx, Some NotInitialized)
                    else if Allows az (cmd_Name cmd) then (fx, None)
                    else (fx, Some (NotPermitted (cmd_Name cmd) identity))))"

section \<open>Facts about the pieces\<close>

lemma HasAdminPolicy_iff: "HasAdminPolicy pols admins \<longleftrightarrow> (\<exists>a \<in> set admins. a \<in> set pols)"
  by (induction admins) auto

lemma class_distinct [simp]:
  "ClassRead \<noteq> ClassMutate" "ClassMutate \<noteq> ClassRead" "ClassAdmin \<noteq> ClassMutate"
  "ClassMutate \<noteq> ClassAdmin" "ClassRead \<noteq> ClassAdmin" "ClassAdmin \<noteq> ClassRead"
  by (simp_all add: ClassRead_def ClassMutate_def ClassAdmin_def)

lemma gated_wf: "gomap_wf gated"
  by (simp add: gomap_wf_def gated_def)

lemma offlineAllowed_iff [simp]: "map_of offlineAllowed c = Some True \<longleftrightarrow> c = ''ssh''"
  by (simp add: offlineAllowed_def)

lemma granted_recorded:
  "gomap_wf m \<Longrightarrow> c \<in> set (map fst (filter snd m)) \<longleftrightarrow> granted (Some m) c"
  by (auto simp: granted_def gomap_mem_iff [symmetric] image_iff)

definition online_allows :: "authz_env \<Rightarrow> string \<Rightarrow> string \<Rightarrow> bool" where
  "online_allows env identity c \<longleftrightarrow>
     (\<exists>h cmds. env_open env = Inr h \<and> env_commands env identity = Inr cmds \<and>
        (granted (Some cmds) ''*'' \<or> granted (Some cmds) c))"

definition source_unreachable :: "authz_env \<Rightarrow> string \<Rightarrow> bool" where
  "source_unreachable env identity \<longleftrightarrow>
     (\<exists>e. env_open env = Inl e) \<or>
     (\<exists>h e. env_open env = Inr h \<and> env_commands env identity = Inl e \<and> \<not> IsUninitializedRBAC e)"

definition offline_allows :: "authorizer \<Rightarrow> authz_env \<Rightarrow> string \<Rightarrow> string \<Rightarrow> bool" where
  "offline_allows a env identity c \<longleftrightarrow>
     (\<exists>off look g. a_offline a = Some off \<and> off_Lookup off = Some look \<and> 0 < off_Window off \<and>
        c = ''ssh'' \<and> look identity = Some g \<and> grant_Has g c \<and>
        grant_Age g (offline_now (a_offline a) env) \<le> off_Window off)"

lemma checkOffline_allows:
  "snd (checkOffline a env cmd identity cause) = None \<longleftrightarrow> offline_allows a env identity (cmd_Name cmd)"
  by (auto simp: checkOffline_def offline_allows_def offline_enabled_def grant_Expired_def Let_def
      split: option.splits)

lemma loadGrants_cases:
  "(case loadGrants a env (blank_authorization identity) of
      (fx, Some err, az) \<Rightarrow> source_unreachable env identity
    | (fx, None, az) \<Rightarrow> \<not> source_unreachable env identity \<and>
        (\<not> az_rbacUninitialized az \<and> Allows az c \<longleftrightarrow> online_allows env identity c))"
  by (auto simp: loadGrants_def source_unreachable_def online_allows_def Allows_def
      blank_authorization_def granted_def Let_def split: sum.splits option.splits)

lemma Check_grant_branch:
  assumes "cmd_Name cmd \<noteq> ''''" "env_token env = Inr (identity, pols)"
    "\<not> HasAdminPolicy pols (a_admins a)" "cmd_Class cmd \<noteq> ClassRead"
    "cmd_Class cmd \<noteq> ClassAdmin" "identity \<noteq> ''''"
  shows "snd (Check a env cmd) = None \<longleftrightarrow>
    online_allows env identity (cmd_Name cmd) \<or>
    (source_unreachable env identity \<and> offline_allows a env identity (cmd_Name cmd))"
proof -
  obtain fx r az where l: "loadGrants a env (blank_authorization identity) = (fx, r, az)"
    by (cases "loadGrants a env (blank_authorization identity)") auto
  show ?thesis
  proof (cases r)
    case None
    with l loadGrants_cases [where a = a and env = env and identity = identity and c = "cmd_Name cmd"] assms show ?thesis
      by (auto simp: Check_def)
  next
    case (Some err)
    with l loadGrants_cases [where a = a and env = env and identity = identity and c = "cmd_Name cmd"]
    have un: "source_unreachable env identity" by simp
    then have "\<not> online_allows env identity (cmd_Name cmd)"
      by (auto simp: source_unreachable_def online_allows_def)
    moreover have "snd (Check a env cmd) = snd (checkOffline a env cmd identity err)"
      using assms l Some by (simp add: Check_def split: prod.splits)
    ultimately show ?thesis using un by (simp add: checkOffline_allows)
  qed
qed

section \<open>Properties\<close>

text \<open>C3: the complete decision table of \<open>Check\<close>. A command runs exactly when it is ungated, or
  the token lookup succeeded and the caller holds an admin policy, or the command is of class
  read, or it is neither read nor admin class, the caller has a name, and either the reachable
  grant source grants it (by name or by the wildcard), or the source is unreachable and degraded
  mode admits it: \<^verbatim>\<open>ssh\<close> only, with a cached confirmation no older than a positive
  window that carries the grant. Every other combination is refused.\<close>

theorem Check_decision:
  "snd (Check a env cmd) = None \<longleftrightarrow>
     cmd_Name cmd = '''' \<or>
     (\<exists>identity pols. env_token env = Inr (identity, pols) \<and>
        ((\<exists>p \<in> set (a_admins a). p \<in> set pols) \<or>
         cmd_Class cmd = ClassRead \<or>
         (cmd_Class cmd \<noteq> ClassAdmin \<and> identity \<noteq> '''' \<and>
          (online_allows env identity (cmd_Name cmd) \<or>
           (source_unreachable env identity \<and> offline_allows a env identity (cmd_Name cmd))))))"
proof (cases "cmd_Name cmd = ''''")
  case True
  then show ?thesis by (simp add: Check_def)
next
  case named: False
  show ?thesis
  proof (cases "env_token env")
    case (Inl e)
    with named show ?thesis by (simp add: Check_def)
  next
    case (Inr ip)
    obtain identity pols where ip: "ip = (identity, pols)" by (cases ip)
    note tok = Inr [unfolded ip]
    consider "HasAdminPolicy pols (a_admins a)" | "cmd_Class cmd = ClassRead"
      | "\<not> HasAdminPolicy pols (a_admins a)" "cmd_Class cmd = ClassAdmin"
      | "\<not> HasAdminPolicy pols (a_admins a)" "cmd_Class cmd \<noteq> ClassRead" "identity = ''''"
      | "\<not> HasAdminPolicy pols (a_admins a)" "cmd_Class cmd \<noteq> ClassRead"
        "cmd_Class cmd \<noteq> ClassAdmin" "identity \<noteq> ''''"
      by blast
    then show ?thesis
    proof cases
      case 5
      with Check_grant_branch [OF named tok 5(1-4)] named tok show ?thesis
        by (simp add: HasAdminPolicy_iff)
    qed (use named tok in \<open>auto simp: Check_def HasAdminPolicy_iff [symmetric]\<close>)
  qed
qed

lemma Check_effects:
  "fst (Check a env cmd) =
     (case env_token env of Inl e \<Rightarrow> []
      | Inr (identity, pols) \<Rightarrow>
          if cmd_Name cmd = '''' \<or> HasAdminPolicy pols (a_admins a) \<or> cmd_Class cmd = ClassRead \<or>
             cmd_Class cmd = ClassAdmin \<or> identity = '''' then []
          else fst (loadGrants a env (blank_authorization identity)) @
            (case fst (snd (loadGrants a env (blank_authorization identity))) of
               None \<Rightarrow> [] | Some err \<Rightarrow> fst (checkOffline a env cmd identity err)))"
  by (simp add: Check_def split: sum.splits prod.splits option.splits)

lemma loadGrants_counts:
  "count_list (fst (loadGrants a env az)) OpenGrants = 1"
  "count_list (fst (loadGrants a env az)) CleanupGrants = (if env_open env = Inr True then 1 else 0)"
  by (auto simp: loadGrants_def recordGrants_def Let_def split: sum.splits option.splits)

lemma checkOffline_counts:
  "count_list (fst (checkOffline a env cmd identity err)) OpenGrants = 0"
  "count_list (fst (checkOffline a env cmd identity err)) CleanupGrants = 0"
  by (auto simp: checkOffline_def Let_def split: option.splits)

text \<open>The discipline on the grant source. A decision opens the grant source at most once, and
  exactly when it is a named command, asked by a named non-admin caller, of a class other than
  read and admin; and a source that opened with a cleanup function is released exactly once,
  whichever way the decision goes.\<close>

theorem Check_grant_source_discipline:
  "count_list (fst (Check a env cmd)) OpenGrants =
     (if \<exists>identity pols. env_token env = Inr (identity, pols) \<and> cmd_Name cmd \<noteq> '''' \<and>
         cmd_Class cmd \<noteq> ClassRead \<and> cmd_Class cmd \<noteq> ClassAdmin \<and> identity \<noteq> '''' \<and>
         \<not> HasAdminPolicy pols (a_admins a) then 1 else 0) \<and>
   count_list (fst (Check a env cmd)) CleanupGrants =
     (if env_open env = Inr True then count_list (fst (Check a env cmd)) OpenGrants else 0)"
  by (auto simp: Check_effects loadGrants_counts checkOffline_counts
      split: sum.splits prod.splits option.splits if_splits)

text \<open>The gate and the report agree. For a mutate-class command asked by a named caller while the
  grant source answers, \<open>Check\<close> admits the command exactly when the \<open>Snapshot\<close> that
  \<^verbatim>\<open>rbac whoami\<close> prints is error-free and says the command is allowed.\<close>

theorem Check_agrees_with_Snapshot:
  assumes "cmd_Name cmd \<noteq> ''''" "cmd_Class cmd = ClassMutate"
    and "env_token env = Inr (identity, pols)" "identity \<noteq> ''''"
    and "\<not> source_unreachable env identity"
  shows "(snd (Check a env cmd) = None) \<longleftrightarrow>
    snd (snd (Snapshot a env)) = None \<and> Allows (fst (snd (Snapshot a env))) (cmd_Name cmd)"
  using assms
  by (auto simp: Check_def Snapshot_def loadGrants_def source_unreachable_def Allows_def
      blank_authorization_def granted_def Let_def split: sum.splits option.splits)

definition sample_env :: authz_env where
  "sample_env = \<lparr>env_token = Inr (''alice'', [''default'']), env_open = Inr True,
     env_commands = (\<lambda>u. Inr [(''ssh'', True), (''sync'', False)]), env_clock = 1000\<rparr>"

theorem Check_agrees_with_Snapshot_witness:
  "snd (Check New sample_env \<lparr>cmd_Name = ''ssh'', cmd_Class = ClassMutate\<rparr>) = None \<and>
   snd (Check New sample_env \<lparr>cmd_Name = ''sync'', cmd_Class = ClassMutate\<rparr>) \<noteq> None \<and>
   Allows (fst (snd (Snapshot New sample_env))) ''ssh''"
proof -
  have reach: "\<not> source_unreachable sample_env ''alice''"
    and tok: "env_token sample_env = Inr (''alice'', [''default''])"
    by (simp_all add: source_unreachable_def sample_env_def)
  have snap: "snd (snd (Snapshot New sample_env)) = None"
    and ssh: "Allows (fst (snd (Snapshot New sample_env))) ''ssh''"
    and sync: "\<not> Allows (fst (snd (Snapshot New sample_env))) ''sync''"
    by (simp_all add: Snapshot_def sample_env_def New_def loadGrants_def recordGrants_def
        Allows_def granted_def)
  note agree = Check_agrees_with_Snapshot [OF _ _ tok _ reach, where a = New]
  have "snd (Check New sample_env \<lparr>cmd_Name = ''ssh'', cmd_Class = ClassMutate\<rparr>) = None"
    using agree [of "\<lparr>cmd_Name = ''ssh'', cmd_Class = ClassMutate\<rparr>"] snap ssh by simp
  moreover have "snd (Check New sample_env \<lparr>cmd_Name = ''sync'', cmd_Class = ClassMutate\<rparr>) \<noteq> None"
    using agree [of "\<lparr>cmd_Name = ''sync'', cmd_Class = ClassMutate\<rparr>"] snap sync by simp
  ultimately show ?thesis using ssh by blast
qed

lemma map_of_filter_class:
  "gomap_wf m \<Longrightarrow> c \<in> set (map fst (filter (\<lambda>(c, class). class = k) m)) \<longleftrightarrow> map_of m c = Some k"
  by (force simp: gomap_mem_iff [symmetric])

text \<open>The grant menu. It offers exactly the wildcard and the commands the catalogue classes as
  mutate, each once and in order: no read or admin command, and no name the gate does not know.\<close>

theorem Grantable_menu:
  "Grantable = ''*'' # GrantableCommands \<and> sorted GrantableCommands \<and> distinct Grantable \<and>
   (\<forall>c. c \<in> set GrantableCommands \<longleftrightarrow> ClassOf c = Some ClassMutate) \<and>
   set GrantableCommands \<subseteq> set GatedCommands \<and> (\<forall>c. c \<in> set GatedCommands \<longleftrightarrow> ClassOf c \<noteq> None)"
proof -
  have mem: "c \<in> set GrantableCommands \<longleftrightarrow> ClassOf c = Some ClassMutate" for c
    using map_of_filter_class [OF gated_wf] by (simp add: GrantableCommands_def ClassOf_def)
  moreover have "ClassOf ''*'' = None" by (simp add: ClassOf_def gated_def)
  moreover have "distinct GrantableCommands"
    using gated_wf by (auto simp: GrantableCommands_def gomap_wf_def distinct_map_filter)
  moreover have "c \<in> set GatedCommands \<longleftrightarrow> ClassOf c \<noteq> None" for c
    by (metis GatedCommands_def ClassOf_def map_of_eq_None_iff set_map set_sort)
  ultimately show ?thesis by (auto simp: Grantable_def GrantableCommands_def [THEN arg_cong, of sorted])
qed

end
