(* ===== verification/Go_Net.thy ===== *)
theory Go_Net
  imports Go_Prelude
begin

text \<open>
  The address parser of Go's standard library (\<^verbatim>\<open>net.ParseIP\<close>, which is
  \<^verbatim>\<open>netip.ParseAddr\<close> with zones rejected), as far as the sources use it. An address is the
  list of its sixteen bytes; a dotted quad is the IPv4-mapped address, so that the equality of two
  parsed addresses is \<^verbatim>\<open>IP.Equal\<close>.
\<close>

type_synonym ip = "nat list"

definition v4_octet :: "string \<Rightarrow> nat option" where
  \<comment> \<open>one to three digits, at most 255, no leading zero\<close>
  "v4_octet p =
     (if p = [] \<or> \<not> list_all is_digit p \<or> (length p > 1 \<and> hd p = CHR ''0'') \<or> dec_val 0 p > 255
      then None else Some (dec_val 0 p))"

definition parse_v4 :: "string \<Rightarrow> nat list option" where
  "parse_v4 s =
     (case map v4_octet (split_on CHR ''.'' s) of
        [Some a, Some b, Some c, Some d] \<Rightarrow> Some [a, b, c, d]
      | _ \<Rightarrow> None)"

definition hex_val :: "char \<Rightarrow> nat option" where
  "hex_val c =
     (if is_digit c then Some (of_char c - 48)
      else if CHR ''a'' \<le> c \<and> c \<le> CHR ''f'' then Some (of_char c - 87)
      else if CHR ''A'' \<le> c \<and> c \<le> CHR ''F'' then Some (of_char c - 55)
      else None)"

definition hex_digits :: "string \<Rightarrow> string" where
  "hex_digits s = takeWhile (\<lambda>c. hex_val c \<noteq> None) s"

fun hex_num :: "nat \<Rightarrow> string \<Rightarrow> nat" where
  "hex_num n [] = n"
| "hex_num n (c # cs) = hex_num (n * 16 + the (hex_val c)) cs"

text \<open>The loop of the IPv6 parser: the bytes so far, the position of the ellipsis if one was seen,
  and the rest of the text. It returns the bytes and the ellipsis once the text is used up.\<close>

function v6_loop :: "nat list \<Rightarrow> nat option \<Rightarrow> string \<Rightarrow> (nat list \<times> nat option) option" where
  "v6_loop bs ell s =
     (if length bs \<ge> 16 then (if s = [] then Some (bs, ell) else None)
      else let h = hex_digits s; rest = drop (length h) s; v = hex_num 0 h in
        if h = [] \<or> length h > 4 then None
        else if rest \<noteq> [] \<and> hd rest = CHR ''.'' then
          (if (ell = None \<and> length bs \<noteq> 12) \<or> length bs + 4 > 16 then None
           else case parse_v4 s of None \<Rightarrow> None | Some q \<Rightarrow> Some (bs @ q, ell))
        else let bs' = bs @ [v div 256, v mod 256] in
          if rest = [] then Some (bs', ell)
          else if hd rest \<noteq> CHR '':'' \<or> tl rest = [] then None
          else if hd (tl rest) = CHR '':'' then
            (if ell \<noteq> None then None
             else if tl (tl rest) = [] then Some (bs', Some (length bs'))
             else v6_loop bs' (Some (length bs')) (tl (tl rest)))
          else v6_loop bs' ell (tl rest))"
  by pat_completeness auto
termination
proof (relation "measure (\<lambda>(bs, ell, s). length s)", goal_cases)
  case 1
  show ?case by simp
qed auto

declare v6_loop.simps [simp del]

definition v6_expand :: "nat list \<times> nat option \<Rightarrow> nat list option" where
  "v6_expand r =
     (case r of (bs, ell) \<Rightarrow>
       if length bs < 16 then
         (case ell of None \<Rightarrow> None
          | Some e \<Rightarrow> Some (take e bs @ replicate (16 - length bs) 0 @ drop e bs))
       else (if ell = None then Some bs else None))"

definition parse_v6 :: "string \<Rightarrow> nat list option" where
  "parse_v6 s =
     (if s = ''::'' then Some (replicate 16 0)
      else let r = (if has_prefix s ''::'' then v6_loop [] (Some 0) (drop 2 s) else v6_loop [] None s)
        in case r of None \<Rightarrow> None | Some x \<Rightarrow> v6_expand x)"

fun addr_kind :: "string \<Rightarrow> char option" where
  \<comment> \<open>the first of dot, colon and percent decides which parser runs\<close>
  "addr_kind [] = None"
| "addr_kind (c # cs) = (if c \<in> {CHR ''.'', CHR '':'', CHR ''%''} then Some c else addr_kind cs)"

definition ParseIP :: "string \<Rightarrow> ip option" where
  "ParseIP s =
     (case addr_kind s of
        None \<Rightarrow> None
      | Some k \<Rightarrow>
          if k = CHR ''.'' then map_option (\<lambda>q. replicate 10 0 @ [255, 255] @ q) (parse_v4 s)
          else if k = CHR '':'' \<and> CHR ''%'' \<notin> set s then parse_v6 s
          else None)"

lemma v4_octet_bound: "v4_octet p = Some n \<Longrightarrow> n \<le> 255"
  by (auto simp: v4_octet_def split: if_splits)

lemma parse_v4_quad:
  "parse_v4 s = Some q \<longleftrightarrow>
     (\<exists>a b c d. map v4_octet (split_on CHR ''.'' s) = [Some a, Some b, Some c, Some d] \<and> q = [a, b, c, d])"
  by (auto simp: parse_v4_def split: list.splits option.splits)

lemma parse_v4_length: "parse_v4 s = Some q \<Longrightarrow> length q = 4"
  by (auto simp: parse_v4_quad)

lemma parse_v4_octets: "parse_v4 s = Some q \<Longrightarrow> list_all (\<lambda>n. n \<le> 255) q"
  by (auto simp: parse_v4_quad map_eq_Cons_conv dest: v4_octet_bound)

lemma ParseIP_leading_zero:
  "p \<in> set (split_on CHR ''.'' s) \<Longrightarrow> length p > 1 \<Longrightarrow> hd p = CHR ''0'' \<Longrightarrow> parse_v4 s = None"
proof -
  assume p: "p \<in> set (split_on CHR ''.'' s)" and "length p > 1" "hd p = CHR ''0''"
  then have "v4_octet p = None" by (simp add: v4_octet_def)
  with p have "None \<in> set (map v4_octet (split_on CHR ''.'' s))" by force
  then show ?thesis by (auto simp: parse_v4_def split: list.splits option.splits)
qed

definition To4 :: "ip \<Rightarrow> nat list option" where
  "To4 p = (if length p = 4 then Some p
     else if length p = 16 \<and> take 12 p = replicate 10 0 @ [255, 255] then Some (drop 12 p) else None)"

text \<open>The host part of \<^verbatim>\<open>net.SplitHostPort\<close>.\<close>

definition SplitHostPort :: "string \<Rightarrow> string option" where
  "SplitHostPort s = (case last_index CHR '':'' s of None \<Rightarrow> None
     | Some i \<Rightarrow>
       if s \<noteq> [] \<and> hd s = CHR ''['' then
         (case first_index CHR '']'' s of None \<Rightarrow> None
          | Some e \<Rightarrow>
            if e + 1 \<noteq> i then None
            else if CHR ''['' \<in> set (drop 1 s) \<or> CHR '']'' \<in> set (drop (e + 1) s) then None
            else Some (take (e - 1) (drop 1 s)))
       else if CHR '':'' \<in> set (take i s) then None
       else if CHR ''['' \<in> set s \<or> CHR '']'' \<in> set s then None
       else Some (take i s))"

definition JoinHostPort :: "string \<Rightarrow> string \<Rightarrow> string" where
  "JoinHostPort host port = (if CHR '':'' \<in> set host then ''['' @ host @ '']:'' @ port else host @ '':'' @ port)"

end
