(* ===== verification/Inv_Cache.thy ===== *)
theory Inv_Cache
  imports Complex_Main Go_Net "HOL-Library.Product_Lexorder"
begin

text \<open>
  \<^verbatim>\<open>internal/invcache\<close>: the local read-only copy of the inventory. The inventory rows of
  package \<^verbatim>\<open>store\<close> (\<^verbatim>\<open>Server\<close>, \<^verbatim>\<open>ServerStatus\<close> and the projections
  \<^verbatim>\<open>InventoryRow\<close>, \<^verbatim>\<open>mergeAddresses\<close>), the \<open>snapshot\<close> with its two independent halves
  (captured hosts, confirmed grants), the reader \<open>Memory\<close> that answers lookups from it, and the
  file store that persists it.

  The file on disk is the datatype \<open>cache_file\<close>: missing, unreadable, not JSON, or the JSON
  of a snapshot. What the operating system answers to one save is the record \<open>save_io\<close>. The
  lemmas give the laws of the reader interface (the locale \<open>inventory_reader\<close>, interpreted on
  \<open>Memory\<close>), the resolution rule, and the round trip through the file.
\<close>

section \<open>Inventory rows\<close>

record server =
  Hostname :: string
  IP :: string
  Port :: int
  User :: string
  JumpVia :: string
  DC :: string
  CARole :: string
  CAKeyVersion :: int
  LastSeenUp :: "gotime option"
  ExtraIPs :: "string list option" \<comment> \<open>\<^const>\<open>None\<close> is a nil slice\<close>
  State :: string

record server_status =
  ss_Hostname :: string
  LastSeenAt :: gotime
  AgentVersion :: string
  OS :: string
  Kernel :: string
  UptimeSeconds :: int
  Load1 :: "rat option"
  MemoryUsedPct :: "rat option"
  DiskRootUsedPct :: "rat option"
  ObservedIPs :: "string list option"
  MountCount :: "int option"
  CollectMs :: "int option"

record server_with_status =
  sws_Server :: server
  Status :: "server_status option"

record inventory_row =
  row_Server :: server
  Addresses :: "string list"
  AgentSeen :: "gotime option"
  row_AgentVersion :: string

definition slice :: "'a list option \<Rightarrow> 'a list" where
  "slice xs = (case xs of None \<Rightarrow> [] | Some ys \<Rightarrow> ys)"

text \<open>\<open>mergeAddresses\<close>: the closure \<open>add\<close> appends an address unless it is empty or already
  there (the \<^verbatim>\<open>seen\<close> map holds exactly what \<^verbatim>\<open>out\<close> holds).\<close>

definition merge_add :: "string list \<Rightarrow> string \<Rightarrow> string list" where
  "merge_add out a = (if a \<noteq> '''' \<and> a \<notin> set out then out @ [a] else out)"

definition mergeAddresses :: "string \<Rightarrow> string list list \<Rightarrow> string list" where
  "mergeAddresses primary sets =
     foldl (foldl merge_add) (merge_add [] primary) sets"

definition InventoryRow :: "server_with_status \<Rightarrow> inventory_row" where
  "InventoryRow w =
     (let observed = (case Status w of None \<Rightarrow> [] | Some st \<Rightarrow> slice (ObservedIPs st)) in
      \<lparr>row_Server = sws_Server w,
       Addresses = mergeAddresses (IP (sws_Server w)) [slice (ExtraIPs (sws_Server w)), observed],
       AgentSeen = (case Status w of None \<Rightarrow> None
          | Some st \<Rightarrow> if \<not> time_is_zero (LastSeenAt st) then Some (LastSeenAt st) else None),
       row_AgentVersion = (case Status w of None \<Rightarrow> '''' | Some st \<Rightarrow> AgentVersion st)\<rparr>)"

lemma merge_add_set: "set (merge_add out a) = set out \<union> ({a} - {''''})"
  by (auto simp: merge_add_def)

lemma merge_add_distinct: "distinct out \<Longrightarrow> distinct (merge_add out a)"
  by (simp add: merge_add_def)

lemma merge_add_prefix: "\<exists>ys. merge_add out a = out @ ys"
  by (simp add: merge_add_def)

lemma foldl_merge_add:
  "set (foldl merge_add out xs) = set out \<union> (set xs - {''''})"
  "distinct out \<Longrightarrow> distinct (foldl merge_add out xs)"
  by (induction xs arbitrary: out) (auto simp: merge_add_set merge_add_distinct)

lemma foldl_prefix:
  assumes "\<And>out x. \<exists>ys. f out x = out @ ys"
  shows "\<exists>ys. foldl f out xs = out @ ys"
proof (induction xs arbitrary: out)
  case (Cons x xs)
  from assms obtain ys where "f out x = out @ ys" by blast
  with Cons [of "out @ ys"] show ?case by auto
qed simp

lemma foldl_merge_sets:
  "set (foldl (foldl merge_add) out xss) = set out \<union> (\<Union> (set ` set xss) - {''''})"
  "distinct out \<Longrightarrow> distinct (foldl (foldl merge_add) out xss)"
proof (induction xss arbitrary: out)
  case (Cons xs xss)
  { case 1 from Cons.IH(1) show ?case by (auto simp: foldl_merge_add(1)) }
  { case 2 with Cons.IH(2) show ?case by (simp add: foldl_merge_add(2)) }
qed simp_all

lemma foldl_merge_sets_prefix: "\<exists>ys. foldl (foldl merge_add) out xss = out @ ys"
  by (intro foldl_prefix merge_add_prefix)

lemma mergeAddresses_facts:
  "distinct (mergeAddresses primary sets)"
  "set (mergeAddresses primary sets) = (insert primary (\<Union> (set ` set sets))) - {''''}"
  "primary \<noteq> '''' \<Longrightarrow> hd (mergeAddresses primary sets) = primary"
proof -
  show "distinct (mergeAddresses primary sets)"
    unfolding mergeAddresses_def by (intro foldl_merge_sets(2) merge_add_distinct) simp
  show "set (mergeAddresses primary sets) = (insert primary (\<Union> (set ` set sets))) - {''''}"
    unfolding mergeAddresses_def foldl_merge_sets(1) merge_add_set by auto
  show "hd (mergeAddresses primary sets) = primary" if "primary \<noteq> ''''"
    using foldl_merge_sets_prefix [of "merge_add [] primary" sets] that
    by (auto simp: mergeAddresses_def merge_add_def)
qed

section \<open>The snapshot\<close>

record grant_record =
  gr_Commands :: "string list"
  gr_CapturedAt :: gotime

record snapshot =
  Version :: int
  CapturedAt :: gotime
  Servers :: "server_with_status list"
  Grants :: "(string, grant_record) gomap option"

definition snapshotVersion :: int where "snapshotVersion = 1"

definition empty_snapshot :: snapshot where
  "empty_snapshot = \<lparr>Version = 0, CapturedAt = 0, Servers = [], Grants = None\<rparr>"

definition snap_Age :: "snapshot \<Rightarrow> gotime \<Rightarrow> duration" where
  "snap_Age s now = time_sub now (CapturedAt s)"

definition HasInventory :: "snapshot option \<Rightarrow> bool" where
  "HasInventory s =
     (case s of None \<Rightarrow> False | Some s' \<Rightarrow> \<not> time_is_zero (CapturedAt s') \<and> length (Servers s') > 0)"

definition NeedsRefresh :: "snapshot option \<Rightarrow> gotime \<Rightarrow> duration \<Rightarrow> bool" where
  "NeedsRefresh s now interval =
     (\<not> HasInventory s \<or> (case s of None \<Rightarrow> False | Some s' \<Rightarrow> snap_Age s' now \<ge> interval))"

definition snap_Expired :: "snapshot option \<Rightarrow> gotime \<Rightarrow> duration \<Rightarrow> bool" where
  "snap_Expired s now maxAge =
     (maxAge > 0 \<and> HasInventory s \<and>
      (case s of None \<Rightarrow> False | Some s' \<Rightarrow> snap_Age s' now > maxAge))"

definition row_key :: "server_with_status \<Rightarrow> string \<times> string" where
  "row_key r = (DC (sws_Server r), Hostname (sws_Server r))"

definition sortServers :: "server_with_status list \<Rightarrow> server_with_status list" where
  "sortServers rows = sort_key row_key rows"

definition SetInventory :: "server_with_status list \<Rightarrow> gotime \<Rightarrow> snapshot \<Rightarrow> snapshot" where
  "SetInventory rows now s = s\<lparr>Servers := sortServers rows, CapturedAt := now\<rparr>"

definition snap_Grant :: "snapshot option \<Rightarrow> string \<Rightarrow> grant_record option" where
  "snap_Grant s identity =
     (case s of None \<Rightarrow> None
      | Some s' \<Rightarrow> (case Grants s' of None \<Rightarrow> None | Some m \<Rightarrow> map_of m identity))"

definition SetGrants :: "string \<Rightarrow> string list \<Rightarrow> gotime \<Rightarrow> snapshot \<Rightarrow> snapshot" where
  "SetGrants identity cmds now s =
     (if identity = '''' then s
      else s\<lparr>Grants := Some (AList.update identity
               \<lparr>gr_Commands = sort cmds, gr_CapturedAt = now\<rparr>
               (case Grants s of None \<Rightarrow> [] | Some m \<Rightarrow> m))\<rparr>)"

definition errNoHosts :: goerror where
  "errNoHosts = Plain ''snapshot inventory: database returned no hosts''"

definition Capture ::
  "(string \<Rightarrow> goerror + server_with_status list) \<Rightarrow> gotime \<Rightarrow> snapshot \<Rightarrow> goerror + snapshot" where
  "Capture listWithStatus now snap =
     (case listWithStatus '''' of
        Inl err \<Rightarrow> Inl (Wrapf ''snapshot inventory: '' err)
      | Inr rows \<Rightarrow> if length rows = 0 then Inl errNoHosts else Inr (SetInventory rows now snap))"

section \<open>Reading from the snapshot\<close>

definition cloneStrings :: "string list option \<Rightarrow> string list option" where
  "cloneStrings xs = (case xs of None \<Rightarrow> None | Some ys \<Rightarrow> Some (map (\<lambda>y. y) ys))"

definition cloneServer :: "server \<Rightarrow> server" where
  "cloneServer s = s\<lparr>ExtraIPs := cloneStrings (ExtraIPs s),
     LastSeenUp := (case LastSeenUp s of None \<Rightarrow> None | Some t \<Rightarrow> Some t)\<rparr>"

definition cloneFloat :: "rat option \<Rightarrow> rat option" where
  "cloneFloat v = (case v of None \<Rightarrow> None | Some f \<Rightarrow> Some f)"

definition cloneWithStatus :: "server_with_status \<Rightarrow> server_with_status" where
  "cloneWithStatus r =
     \<lparr>sws_Server = cloneServer (sws_Server r),
      Status = (case Status r of None \<Rightarrow> None
        | Some st \<Rightarrow> Some (st\<lparr>ObservedIPs := cloneStrings (ObservedIPs st),
            Load1 := cloneFloat (Load1 st), MemoryUsedPct := cloneFloat (MemoryUsedPct st),
            DiskRootUsedPct := cloneFloat (DiskRootUsedPct st)\<rparr>))\<rparr>"

definition mem_rows :: "snapshot option \<Rightarrow> server_with_status list" where
  "mem_rows m = (case m of None \<Rightarrow> [] | Some s \<Rightarrow> Servers s)"

definition ErrNotFound :: goerror where
  "ErrNotFound = Sentinel ''host not found in inventory''"

definition mem_Get :: "snapshot option \<Rightarrow> string \<Rightarrow> goerror + server" where
  "mem_Get m hostname =
     (case find (\<lambda>r. Hostname (sws_Server r) = hostname) (mem_rows m) of
        Some r \<Rightarrow> Inr (cloneServer (sws_Server r)) | None \<Rightarrow> Inl ErrNotFound)"

fun containsIP :: "string list \<Rightarrow> ip \<Rightarrow> bool" where
  "containsIP [] a = False"
| "containsIP (s # ss) a = (if ParseIP s = Some a then True else containsIP ss a)"

definition rowHasIP :: "server_with_status \<Rightarrow> ip \<Rightarrow> bool" where
  "rowHasIP r a =
     (if ParseIP (IP (sws_Server r)) = Some a then True
      else if containsIP (slice (ExtraIPs (sws_Server r))) a then True
      else case Status r of None \<Rightarrow> False | Some st \<Rightarrow> containsIP (slice (ObservedIPs st)) a)"

text \<open>The regular expression \<open>likeContains\<close> compiles is a case-insensitive sequence of three kinds
  of element; \<open>regex_at\<close> is matching at the start of a text and \<open>MatchString\<close> anywhere in it.
  A dot does not match a line break.\<close>

datatype regex_elem = AnySeq | AnyOne | Lit char

definition likeContains :: "string \<Rightarrow> regex_elem list" where
  "likeContains q =
     map (\<lambda>c. if c = CHR ''%'' then AnySeq else if c = CHR ''_'' then AnyOne else Lit c) q"

fun regex_at :: "regex_elem list \<Rightarrow> string \<Rightarrow> bool" where
  "regex_at [] s = True"
| "regex_at (Lit c # es) [] = False"
| "regex_at (Lit c # es) (x # xs) = (to_lower_char x = to_lower_char c \<and> regex_at es xs)"
| "regex_at (AnyOne # es) [] = False"
| "regex_at (AnyOne # es) (x # xs) = (x \<noteq> CHR 0x0A \<and> regex_at es xs)"
| "regex_at (AnySeq # es) [] = regex_at es []"
| "regex_at (AnySeq # es) (x # xs) =
     (regex_at es (x # xs) \<or> (x \<noteq> CHR 0x0A \<and> regex_at (AnySeq # es) xs))"

fun MatchString :: "regex_elem list \<Rightarrow> string \<Rightarrow> bool" where
  "MatchString es [] = regex_at es []"
| "MatchString es (x # xs) = (regex_at es (x # xs) \<or> MatchString es xs)"

definition mem_Resolve :: "snapshot option \<Rightarrow> string \<Rightarrow> server option \<times> server list" where
  "mem_Resolve m query =
     (case mem_Get m query of
        Inr sv \<Rightarrow> (Some sv, [])
      | Inl _ \<Rightarrow>
          let matches = (case ParseIP query of
                Some a \<Rightarrow> (\<lambda>r. rowHasIP r a)
              | None \<Rightarrow> (\<lambda>r. MatchString (likeContains query) (Hostname (sws_Server r))));
              cands = sort_key Hostname (map (\<lambda>r. cloneServer (sws_Server r)) (filter matches (mem_rows m)))
          in case cands of [sv] \<Rightarrow> (Some sv, []) | _ \<Rightarrow> (None, cands))"

definition mem_filtered :: "snapshot option \<Rightarrow> string \<Rightarrow> server_with_status list" where
  "mem_filtered m dc =
     (if dc = '''' then mem_rows m else filter (\<lambda>r. DC (sws_Server r) = dc) (mem_rows m))"

definition mem_List :: "snapshot option \<Rightarrow> string \<Rightarrow> server list" where
  "mem_List m dc = map (\<lambda>r. cloneServer (sws_Server r)) (mem_filtered m dc)"

definition mem_ListInventory :: "snapshot option \<Rightarrow> string \<Rightarrow> inventory_row list" where
  "mem_ListInventory m dc = map (\<lambda>r. InventoryRow (cloneWithStatus r)) (mem_filtered m dc)"

definition mem_ListWithStatus :: "snapshot option \<Rightarrow> string \<Rightarrow> server_with_status list" where
  "mem_ListWithStatus m dc = map cloneWithStatus (mem_filtered m dc)"

definition mem_WithStatus :: "snapshot option \<Rightarrow> string \<Rightarrow> server_with_status option" where
  "mem_WithStatus m hostname =
     map_option cloneWithStatus (find (\<lambda>r. Hostname (sws_Server r) = hostname) (mem_rows m))"

section \<open>The file\<close>

datatype cache_file = Missing | ReadFails string | NotJSON string | Holds snapshot

definition ErrNoSnapshot :: goerror where
  "ErrNoSnapshot = Sentinel ''no local inventory snapshot''"

record save_io =
  io_mkdir :: "goerror option"
  io_marshal :: "goerror option"
  io_write :: "goerror option"

definition save_ok :: save_io where
  "save_ok = \<lparr>io_mkdir = None, io_marshal = None, io_write = None\<rparr>"

definition fs_Load :: "string option \<Rightarrow> cache_file \<Rightarrow> goerror + snapshot" where
  "fs_Load path file =
     (if path = None \<or> path = Some '''' then Inl ErrNoSnapshot
      else case file of
        Missing \<Rightarrow> Inl ErrNoSnapshot
      | ReadFails e \<Rightarrow> Inl (Wrapf e ErrNoSnapshot)
      | NotJSON e \<Rightarrow> Inl (Wrapf e ErrNoSnapshot)
      | Holds snap \<Rightarrow>
          if Version snap \<noteq> snapshotVersion then Inl (Wrapf ''version'' ErrNoSnapshot) else Inr snap)"

definition fs_Save ::
  "string option \<Rightarrow> save_io \<Rightarrow> snapshot \<Rightarrow> cache_file \<Rightarrow> cache_file \<times> goerror option" where
  "fs_Save path io snap file =
     (if path = None \<or> path = Some '''' then (file, Some (Plain ''invcache: no snapshot path configured''))
      else let snap' = snap\<lparr>Version := snapshotVersion\<rparr> in
        case io_mkdir io of Some e \<Rightarrow> (file, Some e)
      | None \<Rightarrow> (case io_marshal io of Some e \<Rightarrow> (file, Some e)
      | None \<Rightarrow> (case io_write io of Some e \<Rightarrow> (file, Some e)
      | None \<Rightarrow> (Holds snap', None))))"

definition fs_Update ::
  "string option \<Rightarrow> save_io \<Rightarrow> (snapshot \<Rightarrow> goerror + snapshot) \<Rightarrow> cache_file \<Rightarrow>
     cache_file \<times> goerror option" where
  "fs_Update path io fn file =
     (let snap = (case fs_Load path file of Inl _ \<Rightarrow> empty_snapshot | Inr s \<Rightarrow> s) in
      case fn snap of Inl err \<Rightarrow> (file, Some err) | Inr snap' \<Rightarrow> fs_Save path io snap' file)"

definition fs_Clear :: "string option \<Rightarrow> goerror option \<Rightarrow> cache_file \<Rightarrow> cache_file \<times> goerror option" where
  "fs_Clear path io_err file =
     (if path = None \<or> path = Some '''' then (file, None)
      else if file = Missing then (Missing, None)
      else case io_err of Some e \<Rightarrow> (file, Some e) | None \<Rightarrow> (Missing, None))"

section \<open>Facts about the readers\<close>

lemma clone_id [simp]:
  "cloneStrings xs = xs" "cloneServer s = s" "cloneFloat v = v" "cloneWithStatus r = r"
proof -
  show strings: "cloneStrings xs = xs" for xs
    by (simp add: cloneStrings_def split: option.splits)
  show server: "cloneServer s = s" for s
    by (simp add: cloneServer_def strings split: option.splits)
  show fl: "cloneFloat v = v" for v by (simp add: cloneFloat_def split: option.splits)
  show "cloneWithStatus r = r"
    by (cases r) (auto simp: cloneWithStatus_def strings server fl split: option.splits)
qed

lemma map_clone [simp]: "map cloneWithStatus xs = xs"
  by (simp add: map_idI)

lemma containsIP_iff: "containsIP ss a \<longleftrightarrow> (\<exists>s \<in> set ss. ParseIP s = Some a)"
  by (induction ss) auto

lemma find_NoneD: "find P xs = None \<Longrightarrow> x \<in> set xs \<Longrightarrow> \<not> P x"
  by (simp add: find_None_iff)

lemma mem_Get_iff:
  "(\<exists>sv. mem_Get m h = Inr sv) \<longleftrightarrow> (\<exists>r \<in> set (mem_rows m). Hostname (sws_Server r) = h)"
proof (cases "find (\<lambda>r. Hostname (sws_Server r) = h) (mem_rows m)")
  case None
  then have "\<forall>r \<in> set (mem_rows m). Hostname (sws_Server r) \<noteq> h" by (auto simp: find_None_iff)
  with None show ?thesis by (auto simp: mem_Get_def)
next
  case (Some r)
  then have "r \<in> set (mem_rows m)" "Hostname (sws_Server r) = h" by (auto simp: find_Some_iff)
  with Some show ?thesis by (auto simp: mem_Get_def)
qed

lemma mem_Get_mem:
  "mem_Get m h = Inr sv \<Longrightarrow> sv \<in> sws_Server ` set (mem_rows m) \<and> Hostname sv = h"
  by (auto simp: mem_Get_def find_Some_iff split: option.splits)

text \<open>The read interface that the live store and the cached reader share: what a client of a reader
  may rely on, whichever of the two answers.\<close>

locale inventory_reader =
  fixes get :: "string \<Rightarrow> goerror + server"
    and list_servers :: "string \<Rightarrow> server list"
    and list_rows :: "string \<Rightarrow> server_with_status list"
    and with_status :: "string \<Rightarrow> server_with_status option"
  assumes get_listed: "get h = Inr sv \<Longrightarrow> sv \<in> set (list_servers '''') \<and> Hostname sv = h"
    and get_missing: "get h = Inl e \<Longrightarrow> h \<notin> Hostname ` set (list_servers '''')"
    and list_projects: "list_servers dc = map sws_Server (list_rows dc)"
    and list_by_dc: "dc \<noteq> '''' \<Longrightarrow> list_rows dc = filter (\<lambda>r. DC (sws_Server r) = dc) (list_rows '''')"
    and status_of_get: "map_option sws_Server (with_status h) = (case get h of Inr sv \<Rightarrow> Some sv | Inl _ \<Rightarrow> None)"
begin

lemma get_iff_listed: "(\<exists>sv. get h = Inr sv) \<longleftrightarrow> h \<in> Hostname ` set (list_servers '''')"
proof (cases "get h")
  case (Inl e)
  then show ?thesis using get_missing by auto
next
  case (Inr sv)
  then show ?thesis using get_listed by force
qed

lemma listed_in_dc:
  "dc \<noteq> '''' \<Longrightarrow> set (list_servers dc) = {sv \<in> set (list_servers ''''). DC sv = dc}"
  by (auto simp: list_projects list_by_dc)

end

interpretation mem: inventory_reader "mem_Get m" "mem_List m" "mem_ListWithStatus m" "mem_WithStatus m"
  for m
proof
  show "sv \<in> set (mem_List m '''') \<and> Hostname sv = h" if "mem_Get m h = Inr sv" for h sv
    using mem_Get_mem [OF that] by (auto simp: mem_List_def mem_filtered_def)
  show "h \<notin> Hostname ` set (mem_List m '''')" if "mem_Get m h = Inl e" for h e
  proof -
    from that have "\<nexists>sv. mem_Get m h = Inr sv" by simp
    then show ?thesis unfolding mem_Get_iff by (auto simp: mem_List_def mem_filtered_def)
  qed
  show "mem_List m dc = map sws_Server (mem_ListWithStatus m dc)" for dc
    by (simp add: mem_List_def mem_ListWithStatus_def)
  show "mem_ListWithStatus m dc = filter (\<lambda>r. DC (sws_Server r) = dc) (mem_ListWithStatus m '''')"
    if "dc \<noteq> ''''" for dc
    using that by (simp add: mem_ListWithStatus_def mem_filtered_def)
  show "map_option sws_Server (mem_WithStatus m h) =
      (case mem_Get m h of Inr sv \<Rightarrow> Some sv | Inl _ \<Rightarrow> None)" for h
    by (simp add: mem_WithStatus_def mem_Get_def split: option.splits)
qed

section \<open>Facts about LIKE patterns\<close>

lemma MatchString_iff: "MatchString es s \<longleftrightarrow> (\<exists>k \<le> length s. regex_at es (drop k s))"
proof (induction s)
  case Nil
  then show ?case by simp
next
  case (Cons x xs)
  have "(\<exists>k \<le> length (x # xs). regex_at es (drop k (x # xs))) \<longleftrightarrow>
      regex_at es (x # xs) \<or> (\<exists>k \<le> length xs. regex_at es (drop k xs))"
    by (metis Suc_le_mono drop0 drop_Suc_Cons length_Cons le0 not0_implies_Suc)
  with Cons show ?case by simp
qed

text \<open>What the documentation of the database's \<^verbatim>\<open>ILIKE\<close> operator says of patterns without an
  escape character: percent matches any sequence, underscore any one character, and any other
  character matches itself up to case.\<close>

definition ilike_laws :: "(string \<Rightarrow> string \<Rightarrow> bool) \<Rightarrow> bool" where
  "ilike_laws ilike \<longleftrightarrow>
     (\<forall>s. ilike [] s = (s = [])) \<and>
     (\<forall>p s. ilike (CHR ''%'' # p) s = (\<exists>k \<le> length s. ilike p (drop k s))) \<and>
     (\<forall>p s. ilike (CHR ''_'' # p) s = (s \<noteq> [] \<and> ilike p (tl s))) \<and>
     (\<forall>c p s. c \<notin> {CHR ''%'', CHR ''_'', CHR 0x5C} \<longrightarrow>
        ilike (c # p) s = (s \<noteq> [] \<and> to_lower_char (hd s) = to_lower_char c \<and> ilike p (tl s)))"

lemma ilike_trailing_percent:
  assumes "ilike_laws ilike" shows "ilike ''%'' s"
  using assms by (auto simp: ilike_laws_def intro!: exI [of _ "length s"])

lemma regex_at_AnySeq:
  "CHR 0x0A \<notin> set s \<Longrightarrow> regex_at (AnySeq # es) s \<longleftrightarrow> (\<exists>k \<le> length s. regex_at es (drop k s))"
proof (induction s)
  case Nil
  then show ?case by simp
next
  case (Cons x xs)
  have "(\<exists>k \<le> length (x # xs). regex_at es (drop k (x # xs))) \<longleftrightarrow>
      regex_at es (x # xs) \<or> (\<exists>k \<le> length xs. regex_at es (drop k xs))"
    by (metis Suc_le_mono drop0 drop_Suc_Cons length_Cons le0 not0_implies_Suc)
  with Cons show ?case by auto
qed

lemma regex_at_ilike:
  assumes laws: "ilike_laws ilike"
  shows "CHR 0x5C \<notin> set q \<Longrightarrow> CHR 0x0A \<notin> set s \<Longrightarrow>
    regex_at (likeContains q) s \<longleftrightarrow> ilike (q @ ''%'') s"
proof (induction q arbitrary: s)
  case Nil
  then show ?case using ilike_trailing_percent [OF laws] by (simp add: likeContains_def)
next
  case (Cons c q)
  have tail: "CHR 0x0A \<notin> set (drop k s)" for k using Cons.prems(2) in_set_dropD by fast
  have IH: "regex_at (likeContains q) t = ilike (q @ ''%'') t" if "CHR 0x0A \<notin> set t" for t
    using Cons.IH [of t] Cons.prems(1) that by simp
  consider "c = CHR ''%''" | "c = CHR ''_''" | "c \<notin> {CHR ''%'', CHR ''_'', CHR 0x5C}"
    using Cons.prems(1) by auto
  then show ?case
  proof cases
    case 1
    then have "regex_at (likeContains (c # q)) s \<longleftrightarrow> (\<exists>k \<le> length s. regex_at (likeContains q) (drop k s))"
      using regex_at_AnySeq [OF Cons.prems(2)] by (simp add: likeContains_def)
    with 1 show ?thesis using laws IH [OF tail] by (simp add: ilike_laws_def)
  next
    case 2
    then show ?thesis using laws Cons.prems(2) IH [of "tl s"]
      by (cases s) (auto simp: likeContains_def ilike_laws_def)
  next
    case 3
    then have e: "likeContains (c # q) = Lit c # likeContains q" by (simp add: likeContains_def)
    from 3 laws have l: "ilike (c # (q @ ''%'')) s =
        (s \<noteq> [] \<and> to_lower_char (hd s) = to_lower_char c \<and> ilike (q @ ''%'') (tl s))"
      by (simp only: ilike_laws_def) blast
    show ?thesis using e l Cons.prems(2) IH [of "tl s"] by (cases s) simp_all
  qed
qed

section \<open>Properties\<close>

text \<open>An offline fuzzy lookup matches the hosts the database query would have matched. For a query
  without a backslash and a host name without a line break, the regular expression compiled by
  \<open>likeContains\<close> matches the name exactly when \<^verbatim>\<open>hostname ILIKE '%'||q||'%'\<close> does, for
  every \<open>ilike\<close> with the documented laws of that operator (the wildcards in the query
  included).\<close>

theorem likeContains_equals_ILIKE:
  assumes "ilike_laws ilike" "CHR 0x5C \<notin> set q" "CHR 0x0A \<notin> set host"
  shows "MatchString (likeContains q) host \<longleftrightarrow> ilike (''%'' @ q @ ''%'') host"
proof -
  have tail: "CHR 0x0A \<notin> set (drop k host)" for k using assms(3) in_set_dropD by fast
  have "MatchString (likeContains q) host \<longleftrightarrow> (\<exists>k \<le> length host. ilike (q @ ''%'') (drop k host))"
    by (simp add: MatchString_iff regex_at_ilike [OF assms(1,2) tail])
  with assms(1) show ?thesis by (simp add: ilike_laws_def)
qed

fun ilike_ref :: "string \<Rightarrow> string \<Rightarrow> bool" where
  "ilike_ref [] s = (s = [])"
| "ilike_ref (c # p) s =
     (if c = CHR ''%'' then list_ex (\<lambda>k. ilike_ref p (drop k s)) [0 ..< Suc (length s)]
      else s \<noteq> [] \<and> (c = CHR ''_'' \<or> to_lower_char (hd s) = to_lower_char c) \<and> ilike_ref p (tl s))"

lemma ilike_ref_laws: "ilike_laws ilike_ref"
  unfolding ilike_laws_def
  by (auto simp: list_ex_iff less_Suc_eq_le Bex_def atLeastLessThanSuc_atLeastAtMost simp del: upt_Suc)

theorem likeContains_equals_ILIKE_witness:
  "MatchString (likeContains ''srv_0'') ''SRE-srv-0047'' \<and> ilike_ref (''%'' @ ''srv_0'' @ ''%'') ''SRE-srv-0047'' \<and>
   \<not> MatchString (likeContains ''srv%9'') ''SRE-srv-0047''"
proof -
  have m: "MatchString (likeContains ''srv_0'') ''SRE-srv-0047''" by code_simp
  have "MatchString (likeContains ''srv_0'') ''SRE-srv-0047'' \<longleftrightarrow>
      ilike_ref (''%'' @ ''srv_0'' @ ''%'') ''SRE-srv-0047''"
    by (rule likeContains_equals_ILIKE [OF ilike_ref_laws]) simp_all
  moreover have "\<not> MatchString (likeContains ''srv%9'') ''SRE-srv-0047''" by code_simp
  ultimately show ?thesis using m by blast
qed

definition resolve_match :: "string \<Rightarrow> server_with_status \<Rightarrow> bool" where
  "resolve_match query r \<longleftrightarrow>
     (case ParseIP query of
        Some a \<Rightarrow> ParseIP (IP (sws_Server r)) = Some a \<or>
          (\<exists>s \<in> set (slice (ExtraIPs (sws_Server r))). ParseIP s = Some a) \<or>
          (\<exists>st s. Status r = Some st \<and> s \<in> set (slice (ObservedIPs st)) \<and> ParseIP s = Some a)
      | None \<Rightarrow> (\<exists>k \<le> length (Hostname (sws_Server r)).
          regex_at (likeContains query) (drop k (Hostname (sws_Server r)))))"

lemma resolve_match_eq:
  "resolve_match query =
     (case ParseIP query of Some a \<Rightarrow> (\<lambda>r. rowHasIP r a)
      | None \<Rightarrow> (\<lambda>r. MatchString (likeContains query) (Hostname (sws_Server r))))"
  by (auto simp: resolve_match_def fun_eq_iff rowHasIP_def containsIP_iff MatchString_iff
      split: option.splits)

lemma mem_Resolve_fuzzy:
  assumes "mem_Get m query = Inl e"
  defines "cands \<equiv> sort_key Hostname (map sws_Server (filter (resolve_match query) (mem_rows m)))"
  shows "mem_Resolve m query = (case cands of [sv] \<Rightarrow> (Some sv, []) | _ \<Rightarrow> (None, cands))"
  unfolding cands_def resolve_match_eq using assms(1) by (simp add: mem_Resolve_def Let_def)

text \<open>Resolution never guesses. A query naming a host resolves to that host. Otherwise the
  candidates are exactly the hosts that match it (every host answering on the address when the
  query is one, the pattern matches when it is not), a server comes back only when there is
  exactly one candidate, and several come back sorted by name with none chosen.\<close>

theorem mem_Resolve_never_guesses:
  "(\<exists>sv. mem_Get m query = Inr sv \<and> mem_Resolve m query = (Some sv, []) \<and> Hostname sv = query) \<or>
   (\<exists>cands. mset cands = mset (map sws_Server (filter (resolve_match query) (mem_rows m))) \<and>
      sorted (map Hostname cands) \<and> query \<notin> Hostname ` sws_Server ` set (mem_rows m) \<and>
      mem_Resolve m query = (if length cands = 1 then (Some (hd cands), []) else (None, cands)))"
proof (cases "mem_Get m query")
  case (Inr sv)
  then show ?thesis by (auto simp: mem_Resolve_def dest: mem_Get_mem)
next
  case (Inl e)
  let ?cands = "sort_key Hostname (map sws_Server (filter (resolve_match query) (mem_rows m)))"
  have "query \<notin> Hostname ` sws_Server ` set (mem_rows m)"
    using Inl mem_Get_iff [of m query] by auto
  moreover have "mem_Resolve m query = (if length ?cands = 1 then (Some (hd ?cands), []) else (None, ?cands))"
    using mem_Resolve_fuzzy [OF Inl] by (auto split: list.splits simp del: length_sort length_map)
  moreover have "mset ?cands = mset (map sws_Server (filter (resolve_match query) (mem_rows m)))"
    "sorted (map Hostname ?cands)" by simp_all
  ultimately show ?thesis by blast
qed

text \<open>A listing row carries every known address once. The merged addresses are exactly the
  non-empty primary, operator-set and agent-observed addresses, without duplicates, and a
  non-empty primary address, the one that is dialled, comes first.\<close>

theorem InventoryRow_addresses:
  "distinct (Addresses (InventoryRow w)) \<and>
   set (Addresses (InventoryRow w)) =
     ({IP (sws_Server w)} \<union> set (slice (ExtraIPs (sws_Server w))) \<union>
      (case Status w of None \<Rightarrow> {} | Some st \<Rightarrow> set (slice (ObservedIPs st)))) - {''''} \<and>
   (if IP (sws_Server w) = '''' then True else hd (Addresses (InventoryRow w)) = IP (sws_Server w))"
proof -
  let ?obs = "case Status w of None \<Rightarrow> [] | Some st \<Rightarrow> slice (ObservedIPs st)"
  let ?sets = "[slice (ExtraIPs (sws_Server w)), ?obs]"
  have addrs: "Addresses (InventoryRow w) = mergeAddresses (IP (sws_Server w)) ?sets"
    by (simp add: InventoryRow_def Let_def)
  have "\<Union> (set ` set ?sets) = set (slice (ExtraIPs (sws_Server w))) \<union>
      (case Status w of None \<Rightarrow> {} | Some st \<Rightarrow> set (slice (ObservedIPs st)))"
    by (simp split: option.splits)
  with mergeAddresses_facts [of "IP (sws_Server w)" ?sets] show ?thesis
    unfolding addrs by simp
qed

lemma fs_Load_Save [simp]:
  "p \<noteq> '''' \<Longrightarrow>
   fs_Load (Some p) (fst (fs_Save (Some p) save_ok snap f)) = Inr (snap\<lparr>Version := snapshotVersion\<rparr>)"
  by (simp add: fs_Load_def fs_Save_def save_ok_def)

lemma fs_Update_cases:
  "fs_Update path io fn file = (file', r) \<Longrightarrow>
     (file' = file \<and> r \<noteq> None) \<or>
     (\<exists>snap'. fn (case fs_Load path file of Inl _ \<Rightarrow> empty_snapshot | Inr s \<Rightarrow> s) = Inr snap' \<and>
        file' = Holds (snap'\<lparr>Version := snapshotVersion\<rparr>) \<and> r = None \<and> path \<noteq> None \<and> path \<noteq> Some '''')"
  by (auto simp: fs_Update_def fs_Save_def Let_def split: sum.splits option.splits if_splits)

text \<open>C6: the outage round trip. Hosts captured from a reader and persisted are served back by the
  cached reader: after a successful capture and save, loading the file and listing it gives the
  reader's rows, every one of them and no other, ordered by data centre and host name, and each
  listed host is found by its exact name.\<close>

theorem capture_persist_serve:
  assumes "Capture listWithStatus now snap = Inr snap'" and "listWithStatus '''' = Inr rows"
    and "path = Some p" "p \<noteq> ''''"
    and "fs_Save path save_ok snap' f = (file', err)"
  shows "\<exists>s. fs_Load path file' = Inr s \<and> err = None \<and>
    mset (mem_ListWithStatus (Some s) '''') = mset rows \<and>
    sorted (map row_key (mem_ListWithStatus (Some s) '''')) \<and>
    Grants s = Grants snap \<and> CapturedAt s = now \<and>
    (\<forall>h. (\<exists>sv. mem_Get (Some s) h = Inr sv) \<longleftrightarrow> h \<in> (\<lambda>r. Hostname (sws_Server r)) ` set rows)"
proof -
  from assms(1,2) have snap': "snap' = SetInventory rows now snap"
    by (auto simp: Capture_def split: if_splits)
  from assms(3-5) have stored: "file' = Holds (snap'\<lparr>Version := snapshotVersion\<rparr>)" "err = None"
    by (auto simp: fs_Save_def save_ok_def)
  let ?s = "snap'\<lparr>Version := snapshotVersion\<rparr>"
  have served: "mem_rows (Some ?s) = sortServers rows" by (simp add: snap' SetInventory_def mem_rows_def)
  have "fs_Load path file' = Inr ?s" using assms(3,4) stored by (simp add: fs_Load_def)
  moreover have "mem_ListWithStatus (Some ?s) '''' = sortServers rows"
    by (simp add: mem_ListWithStatus_def mem_filtered_def served)
  moreover have "(\<exists>sv. mem_Get (Some ?s) h = Inr sv) \<longleftrightarrow> h \<in> (\<lambda>r. Hostname (sws_Server r)) ` set rows" for h
    unfolding mem_Get_iff served by (auto simp: sortServers_def)
  ultimately show ?thesis using stored snap'
    by (auto simp: sortServers_def SetInventory_def)
qed

definition sample_row :: "string \<Rightarrow> string \<Rightarrow> server_with_status" where
  "sample_row dc h =
     \<lparr>sws_Server = \<lparr>Hostname = h, IP = ''10.0.0.1'', Port = 22, User = ''root'', JumpVia = '''', DC = dc,
        CARole = ''ops'', CAKeyVersion = 1, LastSeenUp = None, ExtraIPs = Some [], State = ''active''\<rparr>,
      Status = None\<rparr>"

theorem capture_persist_serve_witness:
  "\<exists>s. fs_Load (Some ''/c'')
        (fst (fs_Save (Some ''/c'') save_ok
          (SetInventory [sample_row ''b'' ''h2'', sample_row ''a'' ''h1''] 7 empty_snapshot) Missing)) = Inr s \<and>
      mset (mem_ListWithStatus (Some s) '''') = {#sample_row ''b'' ''h2'', sample_row ''a'' ''h1''#}"
proof -
  let ?rows = "[sample_row ''b'' ''h2'', sample_row ''a'' ''h1'']"
  have c: "Capture (\<lambda>dc. Inr ?rows) 7 empty_snapshot = Inr (SetInventory ?rows 7 empty_snapshot)"
    by (simp add: Capture_def)
  from capture_persist_serve [OF c refl refl _ prod.collapse [symmetric],
      where p = "''/c''" and f = Missing]
  show ?thesis by auto
qed

end
