(* ===== verification/Access_Gate.thy ===== *)
theory Access_Gate
  imports Authz Inv_Cache
begin

text \<open>
  Where the authorization layer meets the cache: \<^verbatim>\<open>internal/app/inventory.go\<close> (the snapshot
  the app keeps on disk, and which inventory a command reads) and
  \<^verbatim>\<open>internal/cli/internal/cmdkit/rbac.go\<close> (the command gate that every CLI command passes).
  The two packages know each other only through the ports of \<^verbatim>\<open>authz.Offline\<close>; the contract
  of those ports is the locale \<open>grant_cache\<close>, interpreted here on the app's cache file.

  The properties span the components: in every run of gate decisions, cache refreshes and cache
  clears, a decision taken while the database is down rests on a grant the database itself
  confirmed, and a command never reads an inventory that is empty or too old.
\<close>

section \<open>The app's cache\<close>

record app_cfg =
  CacheDisabled :: bool
  cache_path :: "string option" \<comment> \<open>\<^verbatim>\<open>CacheFile().Path\<close>\<close>
  OfflineWindow :: duration
  RefreshInterval :: duration
  StaleLimit :: duration
  AdminPolicies :: "string list"

definition ErrCacheDisabled :: goerror where
  "ErrCacheDisabled = Sentinel ''the local cache is disabled (VCTL_CACHE_DISABLE / cache_disabled)''"

definition errSkipUpdate :: goerror where
  "errSkipUpdate = Sentinel ''snapshot update not needed''"

definition updateCache ::
  "app_cfg \<Rightarrow> save_io \<Rightarrow> (snapshot \<Rightarrow> goerror + snapshot) \<Rightarrow> cache_file \<Rightarrow> cache_file \<times> goerror option"
where
  "updateCache cfg io fn f =
     (if CacheDisabled cfg then (f, Some ErrCacheDisabled) else fs_Update (cache_path cfg) io fn f)"

definition readCache :: "app_cfg \<Rightarrow> cache_file \<Rightarrow> goerror + snapshot" where
  "readCache cfg f = (if CacheDisabled cfg then Inl ErrCacheDisabled else fs_Load (cache_path cfg) f)"

definition RefreshSnapshot ::
  "app_cfg \<Rightarrow> save_io \<Rightarrow> (string \<Rightarrow> goerror + server_with_status list) \<Rightarrow> gotime \<Rightarrow> cache_file \<Rightarrow> cache_file"
where
  "RefreshSnapshot cfg io listWithStatus now f =
     fst (updateCache cfg io
       (\<lambda>snap. if \<not> NeedsRefresh (Some snap) now (RefreshInterval cfg) then Inl errSkipUpdate
               else Capture listWithStatus now snap) f)"

definition CaptureSnapshot ::
  "app_cfg \<Rightarrow> save_io \<Rightarrow> (string \<Rightarrow> goerror + server_with_status list) \<Rightarrow> gotime \<Rightarrow> cache_file \<Rightarrow>
     cache_file \<times> goerror option" where
  "CaptureSnapshot cfg io listWithStatus now f =
     updateCache cfg io (\<lambda>snap. Capture listWithStatus now snap) f"

definition app_RecordGrants ::
  "app_cfg \<Rightarrow> save_io \<Rightarrow> gotime \<Rightarrow> string \<Rightarrow> string list \<Rightarrow> cache_file \<Rightarrow> cache_file" where
  "app_RecordGrants cfg io now identity cmds f =
     (if identity = '''' then f
      else fst (updateCache cfg io (\<lambda>snap. Inr (SetGrants identity cmds now snap)) f))"

definition CachedGrants :: "app_cfg \<Rightarrow> cache_file \<Rightarrow> string \<Rightarrow> grant_record option" where
  "CachedGrants cfg f identity =
     (case readCache cfg f of Inl _ \<Rightarrow> None | Inr snap \<Rightarrow> snap_Grant (Some snap) identity)"

definition snapshotUsable :: "app_cfg \<Rightarrow> gotime \<Rightarrow> snapshot \<Rightarrow> goerror option" where
  "snapshotUsable cfg now snap =
     (if \<not> HasInventory (Some snap) then Some (Plain ''holds no hosts yet'')
      else if snap_Expired (Some snap) now (StaleLimit cfg) then Some (Plain ''captured too long ago'')
      else None)"

section \<open>Opening the inventory\<close>

record open_env =
  oe_localDSN :: bool \<comment> \<open>a static DSN is configured\<close>
  oe_validToken :: bool
  oe_appRole :: bool
  oe_endpointKnown :: bool
  oe_dialOK :: bool
  oe_store :: "goerror + (string \<Rightarrow> goerror + server_with_status list)"
  oe_now :: gotime
  oe_io :: save_io

datatype inventory = LiveInventory | CachedInventory snapshot

definition WouldPromptForLogin :: "open_env \<Rightarrow> bool" where
  "WouldPromptForLogin env =
     (if oe_localDSN env then False else if oe_validToken env then False else \<not> oe_appRole env)"

definition databaseAccepts :: "open_env \<Rightarrow> bool" where
  "databaseAccepts env = (if \<not> oe_endpointKnown env then True else oe_dialOK env)"

definition snapshotToServeInstead :: "app_cfg \<Rightarrow> open_env \<Rightarrow> cache_file \<Rightarrow> snapshot option" where
  "snapshotToServeInstead cfg env f =
     (if \<not> WouldPromptForLogin env then None
      else case readCache cfg f of
        Inl _ \<Rightarrow> None
      | Inr snap \<Rightarrow>
          if snapshotUsable cfg (oe_now env) snap \<noteq> None then None
          else if databaseAccepts env then None else Some snap)"

definition OpenInventory :: "app_cfg \<Rightarrow> open_env \<Rightarrow> cache_file \<Rightarrow> cache_file \<times> (goerror + inventory)" where
  "OpenInventory cfg env f =
     (case snapshotToServeInstead cfg env f of
        Some snap \<Rightarrow> (f, Inr (CachedInventory snap))
      | None \<Rightarrow>
          (case oe_store env of
             Inr listWithStatus \<Rightarrow>
               (RefreshSnapshot cfg (oe_io env) listWithStatus (oe_now env) f, Inr LiveInventory)
           | Inl err \<Rightarrow>
               (case readCache cfg f of
                  Inl _ \<Rightarrow> (f, Inl err)
                | Inr snap \<Rightarrow>
                    (case snapshotUsable cfg (oe_now env) snap of
                       Some _ \<Rightarrow> (f, Inl (Wrapf ''local snapshot unusable'' err))
                     | None \<Rightarrow> (f, Inr (CachedInventory snap))))))"

section \<open>The command gate\<close>

type_synonym annotations = "(string, string) gomap"

definition tagRBAC :: "annotations \<Rightarrow> string \<Rightarrow> cmd_class \<Rightarrow> annotations" where
  "tagRBAC ann name class =
     AList.update ''rbac.class'' class (AList.update ''rbac.command'' name ann)"

definition Gate :: "annotations \<Rightarrow> string \<Rightarrow> annotations option" where
  \<comment> \<open>\<^const>\<open>None\<close> is the panic on a name the catalogue does not hold\<close>
  "Gate ann name = (case ClassOf name of None \<Rightarrow> None | Some class \<Rightarrow> Some (tagRBAC ann name class))"

definition GateReadView :: "annotations \<Rightarrow> string \<Rightarrow> annotations option" where
  "GateReadView ann name =
     (case ClassOf name of None \<Rightarrow> None | Some _ \<Rightarrow> Some (tagRBAC ann name ClassRead))"

definition CachedGrant :: "grant_record \<Rightarrow> cached_grant" where
  "CachedGrant g = \<lparr>cg_Commands = gr_Commands g, cg_ConfirmedAt = gr_CapturedAt g\<rparr>"

definition offline_lookup :: "app_cfg \<Rightarrow> cache_file \<Rightarrow> string \<Rightarrow> cached_grant option" where
  "offline_lookup cfg f identity = map_option CachedGrant (CachedGrants cfg f identity)"

definition offlineConfig :: "app_cfg \<Rightarrow> cache_file \<Rightarrow> offline_cfg option" where
  "offlineConfig cfg f =
     (if CacheDisabled cfg then None
      else Some \<lparr>off_Lookup = Some (offline_lookup cfg f), off_Record = True,
                 off_Window = OfflineWindow cfg, off_OnDegraded = True, off_Now = None\<rparr>)"

definition NewAuthorizer :: "app_cfg \<Rightarrow> cache_file \<Rightarrow> authorizer" where
  "NewAuthorizer cfg f = WithAdminPolicies (AdminPolicies cfg) (WithOffline (offlineConfig cfg f) New)"

fun apply_effect :: "app_cfg \<Rightarrow> save_io \<Rightarrow> gotime \<Rightarrow> cache_file \<Rightarrow> authz_effect \<Rightarrow> cache_file" where
  "apply_effect cfg io now f (RecordGrants identity cmds) = app_RecordGrants cfg io now identity cmds f"
| "apply_effect cfg io now f _ = f"

definition str_of :: "annotations \<Rightarrow> string \<Rightarrow> string" where
  "str_of ann k = (case map_of ann k of None \<Rightarrow> '''' | Some v \<Rightarrow> v)"

definition EnforceRBAC ::
  "app_cfg \<Rightarrow> (goerror option) \<Rightarrow> (goerror option) \<Rightarrow> authz_env \<Rightarrow> save_io \<Rightarrow> annotations \<Rightarrow> cache_file \<Rightarrow>
     cache_file \<times> (goerror + check_error option)" where
  "EnforceRBAC cfg appErr loginErr env io ann f =
     (let name = str_of ann ''rbac.command'' in
      if name = '''' then (f, Inr None)
      else case appErr of Some e \<Rightarrow> (f, Inl e)
      | None \<Rightarrow> (case loginErr of Some e \<Rightarrow> (f, Inl e)
      | None \<Rightarrow>
          (case Check (NewAuthorizer cfg f) env
                  \<lparr>cmd_Name = name, cmd_Class = str_of ann ''rbac.class''\<rparr> of
             (fx, r) \<Rightarrow> (foldl (apply_effect cfg io (env_clock env)) f fx, Inr r))))"

section \<open>The cache contract\<close>

text \<open>A confirmation is what the database answered: who, which grants, when. A cache is sound for a
  history of confirmations when everything it returns was confirmed.\<close>

type_synonym confirmation = "string \<times> (string, bool) gomap \<times> gotime"

definition cache_sound ::
  "('s \<Rightarrow> string \<Rightarrow> cached_grant option) \<Rightarrow> confirmation list \<Rightarrow> 's \<Rightarrow> bool" where
  "cache_sound lookup hist s \<longleftrightarrow>
     (\<forall>i g. lookup s i = Some g \<longrightarrow>
        (\<exists>m. (i, m, cg_ConfirmedAt g) \<in> set hist \<and>
             (\<forall>c. c \<in> set (cg_Commands g) \<longleftrightarrow> granted (Some m) c)))"

locale grant_cache =
  fixes lookup :: "'s \<Rightarrow> string \<Rightarrow> cached_grant option"
    and record_grants :: "'io \<Rightarrow> gotime \<Rightarrow> string \<Rightarrow> string list \<Rightarrow> 's \<Rightarrow> 's"
  assumes record_sound:
    "lookup (record_grants io now i cmds s) j = Some g \<Longrightarrow>
       lookup s j = Some g \<or> (j = i \<and> set (cg_Commands g) = set cmds \<and> cg_ConfirmedAt g = now)"
begin

lemma record_keeps_sound:
  assumes "cache_sound lookup hist s" and "gomap_wf m"
  shows "cache_sound lookup ((i, m, now) # hist) (record_grants io now i (map fst (filter snd m)) s)"
  unfolding cache_sound_def
proof (intro allI impI)
  fix j g
  assume "lookup (record_grants io now i (map fst (filter snd m)) s) j = Some g"
  from record_sound [OF this]
  show "\<exists>m'. (j, m', cg_ConfirmedAt g) \<in> set ((i, m, now) # hist) \<and>
      (\<forall>c. (c \<in> set (cg_Commands g)) = granted (Some m') c)"
  proof
    assume "lookup s j = Some g"
    with assms(1) show ?thesis by (fastforce simp: cache_sound_def)
  next
    assume "j = i \<and> set (cg_Commands g) = set (map fst (filter snd m)) \<and> cg_ConfirmedAt g = now"
    with granted_recorded [OF assms(2)] show ?thesis by (intro exI [of _ m]) simp
  qed
qed

lemma sound_mono: "cache_sound lookup hist s \<Longrightarrow> cache_sound lookup (h # hist) s"
  by (fastforce simp: cache_sound_def)

end

section \<open>What updates leave alone\<close>

lemma updateCache_cases:
  "updateCache cfg io fn f = (f', r) \<Longrightarrow>
     f' = f \<or> (\<exists>snap'. fn (case fs_Load (cache_path cfg) f of Inl _ \<Rightarrow> empty_snapshot | Inr s \<Rightarrow> s) = Inr snap' \<and>
        f' = Holds (snap'\<lparr>Version := snapshotVersion\<rparr>) \<and> \<not> CacheDisabled cfg \<and>
        cache_path cfg \<noteq> None \<and> cache_path cfg \<noteq> Some '''')"
  by (auto simp: updateCache_def split: if_splits dest: fs_Update_cases)

lemma readCache_Holds:
  "\<not> CacheDisabled cfg \<Longrightarrow> cache_path cfg \<noteq> None \<Longrightarrow> cache_path cfg \<noteq> Some '''' \<Longrightarrow>
   readCache cfg (Holds (snap\<lparr>Version := snapshotVersion\<rparr>)) = Inr (snap\<lparr>Version := snapshotVersion\<rparr>)"
  by (auto simp: readCache_def fs_Load_def)

lemma fs_Load_readCache:
  "\<not> CacheDisabled cfg \<Longrightarrow> readCache cfg f = fs_Load (cache_path cfg) f"
  by (simp add: readCache_def)

text \<open>An update whose function keeps a field of every snapshot keeps that field of the cache: here
  \<open>field\<close> is a projection that ignores the version stamp and reads as \<open>absent\<close> in the empty
  snapshot.\<close>

lemma updateCache_keeps_field:
  assumes upd: "updateCache cfg io fn f = (f', r)"
    and keeps: "\<And>s s'. fn s = Inr s' \<Longrightarrow> field s' = field s"
    and version: "\<And>s v. field (s\<lparr>Version := v\<rparr>) = field s"
  shows "(case readCache cfg f' of Inl _ \<Rightarrow> field empty_snapshot | Inr s \<Rightarrow> field s) =
         (case readCache cfg f of Inl _ \<Rightarrow> field empty_snapshot | Inr s \<Rightarrow> field s)"
  using updateCache_cases [OF upd]
proof
  assume "f' = f"
  then show ?thesis by simp
next
  let ?old = "case fs_Load (cache_path cfg) f of Inl _ \<Rightarrow> empty_snapshot | Inr s \<Rightarrow> s"
  assume "\<exists>snap'. fn ?old = Inr snap' \<and> f' = Holds (snap'\<lparr>Version := snapshotVersion\<rparr>) \<and>
     \<not> CacheDisabled cfg \<and> cache_path cfg \<noteq> None \<and> cache_path cfg \<noteq> Some ''''"
  then obtain snap' where fn: "fn ?old = Inr snap'"
    and f': "f' = Holds (snap'\<lparr>Version := snapshotVersion\<rparr>)"
    and cfg: "\<not> CacheDisabled cfg" "cache_path cfg \<noteq> None" "cache_path cfg \<noteq> Some ''''" by blast
  have "readCache cfg f' = Inr (snap'\<lparr>Version := snapshotVersion\<rparr>)"
    using readCache_Holds [OF cfg] f' by simp
  then show ?thesis
    using keeps [OF fn] version cfg(1) by (simp add: fs_Load_readCache split: sum.splits)
qed

lemma Capture_keeps_Grants: "Capture lws now s = Inr s' \<Longrightarrow> Grants s' = Grants s"
  by (auto simp: Capture_def SetInventory_def split: sum.splits if_splits)

lemma CachedGrants_field:
  "CachedGrants cfg f i =
     (case (case readCache cfg f of Inl _ \<Rightarrow> Grants empty_snapshot | Inr s \<Rightarrow> Grants s) of
        None \<Rightarrow> None | Some m \<Rightarrow> map_of m i)"
  by (simp add: CachedGrants_def snap_Grant_def empty_snapshot_def split: sum.splits)

lemma CaptureSnapshot_keeps_grants:
  "offline_lookup cfg (fst (CaptureSnapshot cfg io lws now f)) = offline_lookup cfg f"
proof -
  obtain f' r where u: "updateCache cfg io (\<lambda>snap. Capture lws now snap) f = (f', r)" by fastforce
  from updateCache_keeps_field [OF u, where field = Grants] show ?thesis
    by (simp add: fun_eq_iff offline_lookup_def CachedGrants_field CaptureSnapshot_def u
        Capture_keeps_Grants)
qed

lemma RefreshSnapshot_keeps_grants:
  "offline_lookup cfg (RefreshSnapshot cfg io lws now f) = offline_lookup cfg f"
proof -
  let ?fn = "\<lambda>snap. if \<not> NeedsRefresh (Some snap) now (RefreshInterval cfg) then Inl errSkipUpdate
      else Capture lws now snap"
  obtain f' r where u: "updateCache cfg io ?fn f = (f', r)" by fastforce
  have keeps: "?fn s = Inr s' \<Longrightarrow> Grants s' = Grants s" for s s'
    by (auto split: if_splits dest: Capture_keeps_Grants)
  from updateCache_keeps_field [OF u, where field = Grants] keeps show ?thesis
    by (simp add: fun_eq_iff offline_lookup_def CachedGrants_field RefreshSnapshot_def u)
qed

lemma CachedGrants_Holds:
  assumes "\<not> CacheDisabled cfg" "cache_path cfg \<noteq> None" "cache_path cfg \<noteq> Some ''''"
  shows "CachedGrants cfg (Holds (s\<lparr>Version := snapshotVersion\<rparr>)) j = snap_Grant (Some s) j"
  using readCache_Holds [OF assms] by (simp add: CachedGrants_def snap_Grant_def)

lemma app_RecordGrants_lookup:
  assumes "offline_lookup cfg (app_RecordGrants cfg io now i cmds f) j = Some g"
  shows "offline_lookup cfg f j = Some g \<or>
    (j = i \<and> set (cg_Commands g) = set cmds \<and> cg_ConfirmedAt g = now)"
proof (cases "i = ''''")
  case True
  with assms show ?thesis by (simp add: app_RecordGrants_def)
next
  case False
  obtain f' r where u: "updateCache cfg io (\<lambda>snap. Inr (SetGrants i cmds now snap)) f = (f', r)"
    by fastforce
  let ?old = "case fs_Load (cache_path cfg) f of Inl _ \<Rightarrow> empty_snapshot | Inr s \<Rightarrow> s"
  from False u assms have g: "offline_lookup cfg f' j = Some g" by (simp add: app_RecordGrants_def)
  show ?thesis
  proof (cases "f' = f")
    case True
    with g show ?thesis by simp
  next
    case changed: False
    with updateCache_cases [OF u]
    have f': "f' = Holds ((SetGrants i cmds now ?old)\<lparr>Version := snapshotVersion\<rparr>)"
      and cfg: "\<not> CacheDisabled cfg" "cache_path cfg \<noteq> None" "cache_path cfg \<noteq> Some ''''" by auto
    have "snap_Grant (Some ?old) j = CachedGrants cfg f j"
      using cfg(1) by (simp add: CachedGrants_def fs_Load_readCache snap_Grant_def empty_snapshot_def
          split: sum.splits)
    moreover have "snap_Grant (Some (SetGrants i cmds now ?old)) j =
        (if j = i then Some \<lparr>gr_Commands = sort cmds, gr_CapturedAt = now\<rparr> else snap_Grant (Some ?old) j)"
      using False by (simp add: SetGrants_def snap_Grant_def split: option.splits)
    ultimately show ?thesis using g f' CachedGrants_Holds [OF cfg]
      by (auto simp: offline_lookup_def CachedGrant_def split: if_splits)
  qed
qed

interpretation gc: grant_cache "offline_lookup cfg" "app_RecordGrants cfg" for cfg
  by unfold_locales (rule app_RecordGrants_lookup)

section \<open>Runs of the gate\<close>

text \<open>The state of a workstation across commands: the cache file, and the history of what the
  database confirmed (a ghost, which no code reads). A step is one gate decision with whatever the
  outside answered, an inventory refresh, an explicit capture, or clearing the cache.\<close>

record gate_state =
  disk :: cache_file
  confirmed :: "confirmation list"

definition answered :: "authz_env \<Rightarrow> confirmation list" where
  "answered env =
     (case env_token env of Inl _ \<Rightarrow> []
      | Inr (identity, _) \<Rightarrow>
          (case (env_open env, env_commands env identity) of
             (Inr _, Inr m) \<Rightarrow> [(identity, m, env_clock env)] | _ \<Rightarrow> []))"

definition go_maps :: "authz_env \<Rightarrow> bool" where
  \<comment> \<open>the grant query returns a Go map, whose keys are distinct\<close>
  "go_maps env \<longleftrightarrow> (\<forall>u m. env_commands env u = Inr m \<longrightarrow> gomap_wf m)"

inductive gate_step :: "app_cfg \<Rightarrow> gate_state \<Rightarrow> gate_state \<Rightarrow> bool" for cfg where
  decide: "go_maps env \<Longrightarrow> EnforceRBAC cfg appErr loginErr env io ann (disk s) = (f', r) \<Longrightarrow>
     gate_step cfg s \<lparr>disk = f', confirmed = answered env @ confirmed s\<rparr>"
| refresh: "gate_step cfg s (s\<lparr>disk := RefreshSnapshot cfg io lws now (disk s)\<rparr>)"
| capture: "gate_step cfg s (s\<lparr>disk := fst (CaptureSnapshot cfg io lws now (disk s))\<rparr>)"
| clear: "gate_step cfg s (s\<lparr>disk := fst (fs_Clear (cache_path cfg) e (disk s))\<rparr>)"

inductive reachable :: "app_cfg \<Rightarrow> gate_state \<Rightarrow> bool" for cfg where
  start: "reachable cfg \<lparr>disk = Missing, confirmed = []\<rparr>"
| step: "reachable cfg s \<Longrightarrow> gate_step cfg s t \<Longrightarrow> reachable cfg t"

inductive_cases gate_stepE: "gate_step cfg s t"

definition gate_inv :: "app_cfg \<Rightarrow> gate_state \<Rightarrow> bool" where
  "gate_inv cfg s \<longleftrightarrow> cache_sound (offline_lookup cfg) (confirmed s) (disk s)"

lemma foldl_effects_other:
  "(\<And>i cmds. RecordGrants i cmds \<notin> set fx) \<Longrightarrow> foldl (apply_effect cfg io now) f fx = f"
proof (induction fx arbitrary: f)
  case (Cons e fx)
  then show ?case by (cases e) auto
qed simp

lemma checkOffline_no_record: "RecordGrants i cmds \<notin> set (fst (checkOffline a env cmd identity err))"
  by (auto simp: checkOffline_def Let_def split: option.splits)

lemma loadGrants_fold:
  "foldl (apply_effect cfg io now) f (fst (loadGrants a env (blank_authorization identity))) = f \<or>
   (\<exists>h m. env_open env = Inr h \<and> env_commands env identity = Inr m \<and>
      foldl (apply_effect cfg io now) f (fst (loadGrants a env (blank_authorization identity))) =
        app_RecordGrants cfg io now identity (map fst (filter snd m)) f)"
  by (auto simp: loadGrants_def recordGrants_def blank_authorization_def Let_def
      split: sum.splits option.splits)

lemma Check_fold:
  "foldl (apply_effect cfg io now) f (fst (Check a env cmd)) = f \<or>
   (\<exists>identity pols h m. env_token env = Inr (identity, pols) \<and> env_open env = Inr h \<and>
      env_commands env identity = Inr m \<and>
      foldl (apply_effect cfg io now) f (fst (Check a env cmd)) =
        app_RecordGrants cfg io now identity (map fst (filter snd m)) f)"
proof -
  have off: "foldl (apply_effect cfg io now) f'
      (case x of None \<Rightarrow> [] | Some err \<Rightarrow> fst (checkOffline a env cmd i err)) = f'" for f' x i
    using checkOffline_no_record by (auto intro!: foldl_effects_other split: option.splits)
  show ?thesis
  proof (cases "env_token env")
    case (Inl e)
    then show ?thesis by (simp add: Check_effects)
  next
    case (Inr ip)
    obtain identity pols where ip: "ip = (identity, pols)" by (cases ip)
    show ?thesis using loadGrants_fold [of cfg io now f a env identity] Inr ip
      by (auto simp: Check_effects off)
  qed
qed

lemma EnforceRBAC_disk:
  assumes "EnforceRBAC cfg appErr loginErr env io ann f = (f', r)"
  shows "f' = f \<or> (\<exists>identity m. answered env = [(identity, m, env_clock env)] \<and>
    f' = app_RecordGrants cfg io (env_clock env) identity (map fst (filter snd m)) f \<and>
    (\<exists>u. env_commands env u = Inr m))"
proof -
  let ?cmd = "\<lparr>cmd_Name = str_of ann ''rbac.command'', cmd_Class = str_of ann ''rbac.class''\<rparr>"
  from assms have "f' = f \<or>
      f' = foldl (apply_effect cfg io (env_clock env)) f (fst (Check (NewAuthorizer cfg f) env ?cmd))"
    by (auto simp: EnforceRBAC_def Let_def split: if_splits option.splits prod.splits)
  with Check_fold [of cfg io "env_clock env" f "NewAuthorizer cfg f" env ?cmd] show ?thesis
    by (force simp: answered_def)
qed

lemma sound_append:
  "cache_sound (offline_lookup cfg) hist f \<Longrightarrow> cache_sound (offline_lookup cfg) (hs @ hist) f"
  by (induction hs) (auto intro: gc.sound_mono)

lemma gate_step_inv: "gate_step cfg s t \<Longrightarrow> gate_inv cfg s \<Longrightarrow> gate_inv cfg t"
proof (induction rule: gate_step.induct)
  case (decide env appErr loginErr io ann s f' r)
  note s = decide.prems [unfolded gate_inv_def]
  from EnforceRBAC_disk [OF decide.hyps(2)] show ?case
  proof
    assume "f' = disk s"
    with s show ?thesis by (simp add: gate_inv_def sound_append)
  next
    assume "\<exists>identity m. answered env = [(identity, m, env_clock env)] \<and>
      f' = app_RecordGrants cfg io (env_clock env) identity (map fst (filter snd m)) (disk s) \<and>
      (\<exists>u. env_commands env u = Inr m)"
    with decide.hyps(1) s gc.record_keeps_sound [OF s] show ?thesis
      by (auto simp: gate_inv_def go_maps_def)
  qed
next
  case (refresh s io lws now)
  then show ?case by (simp add: gate_inv_def cache_sound_def RefreshSnapshot_keeps_grants)
next
  case (capture s io lws now)
  then show ?case by (simp add: gate_inv_def cache_sound_def CaptureSnapshot_keeps_grants)
next
  case (clear s e)
  have "offline_lookup cfg Missing i = None" for i
    by (simp add: offline_lookup_def CachedGrants_def readCache_def fs_Load_def)
  with clear show ?case
    by (auto simp: gate_inv_def cache_sound_def fs_Clear_def split: option.splits if_splits)
qed

lemma reachable_gate_inv: "reachable cfg s \<Longrightarrow> gate_inv cfg s"
proof (induction rule: reachable.induct)
  case start
  show ?case by (simp add: gate_inv_def cache_sound_def offline_lookup_def CachedGrants_def
        readCache_def fs_Load_def)
next
  case (step s t)
  then show ?case by (blast intro: gate_step_inv)
qed

section \<open>Properties\<close>

text \<open>C1: an outage never widens access. In every run of gate decisions, refreshes, captures and cache
  clears, if a named, non-admin caller is let through a command that is neither read nor admin
  class while the grant source is unreachable, then the command is \<^verbatim>\<open>ssh\<close>, and the
  database itself, at an earlier decision in this run, answered for that same identity with a
  grant covering it, no longer ago than the configured window. Making the database unreachable
  therefore grants nothing it had not granted.\<close>

theorem offline_never_escalates:
  assumes "reachable cfg s"
    and "snd (Check (NewAuthorizer cfg (disk s)) env cmd) = None"
    and "cmd_Name cmd \<noteq> ''''" "cmd_Class cmd \<noteq> ClassRead"
    and "env_token env = Inr (identity, pols)" "\<not> HasAdminPolicy pols (AdminPolicies cfg)"
    and "source_unreachable env identity"
  shows "cmd_Name cmd = ''ssh'' \<and> \<not> CacheDisabled cfg \<and>
    (\<exists>m t. (identity, m, t) \<in> set (confirmed s) \<and>
       (granted (Some m) ''*'' \<or> granted (Some m) ''ssh'') \<and>
       max (time_sub (env_clock env) t) 0 \<le> OfflineWindow cfg)"
proof -
  let ?a = "NewAuthorizer cfg (disk s)"
  have admins: "a_admins ?a = AdminPolicies cfg" and off: "a_offline ?a = offlineConfig cfg (disk s)"
    by (simp_all add: NewAuthorizer_def WithAdminPolicies_def WithOffline_def)
  from assms(7) have "\<not> online_allows env identity (cmd_Name cmd)"
    by (auto simp: source_unreachable_def online_allows_def)
  with assms(2-6) admins have "offline_allows ?a env identity (cmd_Name cmd)"
    unfolding Check_decision by (auto simp: HasAdminPolicy_iff)
  then obtain g where ssh: "cmd_Name cmd = ''ssh''" and dis: "\<not> CacheDisabled cfg"
    and g: "offline_lookup cfg (disk s) identity = Some g" and has: "grant_Has g ''ssh''"
    and age: "grant_Age g (env_clock env) \<le> OfflineWindow cfg"
    by (auto simp: offline_allows_def off offlineConfig_def offline_now_def split: if_splits)
  from reachable_gate_inv [OF assms(1)] g obtain m
    where "(identity, m, cg_ConfirmedAt g) \<in> set (confirmed s)"
      and "\<forall>c. c \<in> set (cg_Commands g) \<longleftrightarrow> granted (Some m) c"
    unfolding gate_inv_def cache_sound_def by blast
  with ssh dis has age show ?thesis by (auto simp: grant_Has_def grant_Age_def)
qed

definition sample_cfg :: app_cfg where
  "sample_cfg = \<lparr>CacheDisabled = False, cache_path = Some ''/c'', OfflineWindow = 24 * hour,
     RefreshInterval = hour, StaleLimit = 168 * hour, AdminPolicies = [''vctl-admin'']\<rparr>"

definition outage_env :: authz_env where
  "outage_env = \<lparr>env_token = Inr (''alice'', [''default'']), env_open = Inl (Plain ''connection refused''),
     env_commands = (\<lambda>u. Inl (Plain ''closed'')), env_clock = 1000 + hour\<rparr>"

definition sample_state :: gate_state where
  "sample_state =
     \<lparr>disk = Holds \<lparr>Version = 1, CapturedAt = 0, Servers = [],
        Grants = Some [(''alice'', \<lparr>gr_Commands = [''ssh''], gr_CapturedAt = 1000\<rparr>)]\<rparr>,
      confirmed = [(''alice'', [(''ssh'', True), (''sync'', False)], 1000)]\<rparr>"

lemma sample_state_reachable: "reachable sample_cfg sample_state"
proof -
  let ?ann = "tagRBAC [] ''ssh'' ClassMutate"
  have maps: "go_maps sample_env" by (simp add: go_maps_def sample_env_def gomap_wf_def)
  have e: "EnforceRBAC sample_cfg None None sample_env save_ok ?ann Missing = (disk sample_state, Inr None)"
    by (simp add: EnforceRBAC_def tagRBAC_def str_of_def Check_def sample_env_def sample_cfg_def
        sample_state_def NewAuthorizer_def WithAdminPolicies_def WithOffline_def New_def offlineConfig_def
        loadGrants_def recordGrants_def blank_authorization_def Allows_def granted_def
        app_RecordGrants_def updateCache_def fs_Update_def fs_Load_def fs_Save_def save_ok_def
        SetGrants_def empty_snapshot_def snapshotVersion_def ClassRead_def ClassMutate_def
        ClassAdmin_def)
  have "answered sample_env = confirmed sample_state"
    by (simp add: answered_def sample_env_def sample_state_def)
  with reachable.step [OF reachable.start gate_step.decide [OF maps, of sample_cfg None None save_ok ?ann]] e
  show ?thesis by (simp add: sample_state_def)
qed

theorem offline_never_escalates_witness:
  "snd (Check (NewAuthorizer sample_cfg (disk sample_state)) outage_env
      \<lparr>cmd_Name = ''ssh'', cmd_Class = ClassMutate\<rparr>) = None \<and>
   (\<exists>m t. (''alice'', m, t) \<in> set (confirmed sample_state) \<and>
      (granted (Some m) ''*'' \<or> granted (Some m) ''ssh''))"
proof -
  have ok: "snd (Check (NewAuthorizer sample_cfg (disk sample_state)) outage_env
      \<lparr>cmd_Name = ''ssh'', cmd_Class = ClassMutate\<rparr>) = None"
    by (simp add: Check_def outage_env_def sample_cfg_def sample_state_def NewAuthorizer_def
        WithAdminPolicies_def WithOffline_def New_def offlineConfig_def loadGrants_def checkOffline_def
        offline_enabled_def offline_lookup_def CachedGrants_def readCache_def fs_Load_def
        snapshotVersion_def snap_Grant_def CachedGrant_def grant_Expired_def grant_Age_def
        offline_now_def grant_Has_def time_sub_def min_duration_def max_duration_def
        ClassRead_def ClassMutate_def ClassAdmin_def)
  have tok: "env_token outage_env = Inr (''alice'', [''default''])"
    and adm: "\<not> HasAdminPolicy [''default''] (AdminPolicies sample_cfg)"
    and un: "source_unreachable outage_env ''alice''"
    by (simp_all add: outage_env_def sample_cfg_def source_unreachable_def)
  from offline_never_escalates [OF sample_state_reachable ok _ _ tok adm un] ok show ?thesis by auto
qed

lemma snapshotUsable_iff:
  "snapshotUsable cfg now s = None \<longleftrightarrow>
     CapturedAt s \<noteq> 0 \<and> Servers s \<noteq> [] \<and> (StaleLimit cfg \<le> 0 \<or> snap_Age s now \<le> StaleLimit cfg)"
  by (auto simp: snapshotUsable_def HasInventory_def snap_Expired_def time_is_zero_def)

definition detour :: "open_env \<Rightarrow> bool" where
  "detour env \<longleftrightarrow> WouldPromptForLogin env \<and> \<not> databaseAccepts env"

lemma snapshotToServeInstead_iff:
  "snapshotToServeInstead cfg env f = Some s \<longleftrightarrow>
     detour env \<and> readCache cfg f = Inr s \<and> snapshotUsable cfg (oe_now env) s = None"
  "snapshotToServeInstead cfg env f = None \<longleftrightarrow>
     \<not> (detour env \<and> (\<exists>s. readCache cfg f = Inr s \<and> snapshotUsable cfg (oe_now env) s = None))"
  by (auto simp: snapshotToServeInstead_def detour_def split: sum.splits if_splits)

lemma OpenInventory_cached:
  "snd (OpenInventory cfg env f) = Inr (CachedInventory snap) \<longleftrightarrow>
     readCache cfg f = Inr snap \<and> snapshotUsable cfg (oe_now env) snap = None \<and>
     ((\<exists>e. oe_store env = Inl e) \<or> detour env)"
proof (cases "snapshotToServeInstead cfg env f")
  case None
  with snapshotToServeInstead_iff(2) [of cfg env f] show ?thesis
    by (cases "snapshotUsable cfg (oe_now env) snap")
      (auto simp: OpenInventory_def split: sum.splits option.splits)
next
  case (Some s)
  with snapshotToServeInstead_iff(1) [of cfg env f s] show ?thesis by (auto simp: OpenInventory_def)
qed

lemma OpenInventory_live:
  "snd (OpenInventory cfg env f) = Inr LiveInventory \<longleftrightarrow>
     (\<exists>l. oe_store env = Inr l) \<and> snapshotToServeInstead cfg env f = None"
  by (auto simp: OpenInventory_def split: sum.splits option.splits)

text \<open>Which inventory a command reads. The cached inventory is served exactly when the file holds
  a snapshot with hosts, captured within the limit (or no limit is set), and either the store
  could not be opened, or opening it would first prompt for a login while nothing answers at the
  database endpoint. The live inventory is served exactly when the store opens and that detour
  does not apply; in every other case the command fails with the database's error.\<close>

theorem OpenInventory_decision:
  "(snd (OpenInventory cfg env f) = Inr (CachedInventory snap) \<longleftrightarrow>
       readCache cfg f = Inr snap \<and> CapturedAt snap \<noteq> 0 \<and> Servers snap \<noteq> [] \<and>
       (StaleLimit cfg \<le> 0 \<or> snap_Age snap (oe_now env) \<le> StaleLimit cfg) \<and>
       ((\<exists>e. oe_store env = Inl e) \<or> (WouldPromptForLogin env \<and> \<not> databaseAccepts env))) \<and>
   (snd (OpenInventory cfg env f) = Inr LiveInventory \<longleftrightarrow>
       (\<exists>l. oe_store env = Inr l) \<and>
       \<not> (WouldPromptForLogin env \<and> \<not> databaseAccepts env \<and>
          (\<exists>s. readCache cfg f = Inr s \<and> snapshotUsable cfg (oe_now env) s = None)))"
  unfolding OpenInventory_cached OpenInventory_live snapshotToServeInstead_iff(2) snapshotUsable_iff
    detour_def by blast

definition inventory_of :: "app_cfg \<Rightarrow> cache_file \<Rightarrow> gotime \<times> server_with_status list" where
  "inventory_of cfg f =
     (case readCache cfg f of Inl _ \<Rightarrow> (0, []) | Inr s \<Rightarrow> (CapturedAt s, Servers s))"

text \<open>The two halves of the cache do not disturb each other. Recording grants changes neither the
  captured hosts nor their capture time (so it never makes the inventory look fresh), and a
  refresh, a capture or a refused update of the inventory changes nobody's cached grants (so it
  never revokes offline authorization), whatever the file held and however the write went.\<close>

theorem cache_halves_independent:
  "inventory_of cfg (app_RecordGrants cfg io now i cmds f) = inventory_of cfg f \<and>
   offline_lookup cfg (RefreshSnapshot cfg io lws now f) = offline_lookup cfg f \<and>
   offline_lookup cfg (fst (CaptureSnapshot cfg io lws now f)) = offline_lookup cfg f"
proof -
  have field: "inventory_of cfg f = (case readCache cfg f of
      Inl _ \<Rightarrow> (\<lambda>s. (CapturedAt s, Servers s)) empty_snapshot | Inr s \<Rightarrow> (CapturedAt s, Servers s))" for f
    by (simp add: inventory_of_def empty_snapshot_def split: sum.splits)
  obtain f' r where u: "updateCache cfg io (\<lambda>snap. Inr (SetGrants i cmds now snap)) f = (f', r)"
    by fastforce
  have "inventory_of cfg f' = inventory_of cfg f" unfolding field
    by (rule updateCache_keeps_field [OF u, where field = "\<lambda>s. (CapturedAt s, Servers s)"])
      (auto simp: SetGrants_def split: if_splits)
  then show ?thesis
    by (auto simp: app_RecordGrants_def u RefreshSnapshot_keeps_grants CaptureSnapshot_keeps_grants)
qed

end
