(* ===== verification/Audit_Spool.thy ===== *)
theory Audit_Spool
  imports Go_Prelude
begin

text \<open>
  \<^verbatim>\<open>internal/auditspool/auditspool.go\<close>: the outbox of access records that could not reach
  Postgres, with the two insert paths of \<^verbatim>\<open>internal/store/store.go\<close> it replays into and the
  callers in \<^verbatim>\<open>internal/app\<close>.

  The spool directory is the record \<open>spool_fs\<close>: the live file, if there is one, and the claim
  files by name. A file is its terminated lines and what stands after the last line break: a write
  cut short leaves a fragment there. A line is what the JSON decoder makes of it (\<open>jline\<close>); the
  length of an encoded record is the parameter \<open>jsz\<close>. Every answer of the operating system is an
  argument. The sink is the locale \<open>audit_sink\<close>, the contract its comments state, interpreted on
  the store's two insert functions over a connection whose statements may fail at any point.
\<close>

section \<open>Records and lines\<close>

record access_entry =
  VaultUser :: string
  ae_Hostname :: string
  CertSerial :: string
  SignedAt :: gotime
  ae_OK :: bool
  SourceIP :: string
  SourceAddr :: string
  ClientHost :: string
  ClientUser :: string
  TargetAddr :: string
  ae_JumpVia :: string
  ae_Error :: string

record spool_line =
  sl_V :: int
  sl_VaultUser :: string
  sl_Hostname :: string
  sl_CertSerial :: string
  sl_SignedAt :: gotime
  sl_OK :: bool
  sl_SourceIP :: string
  sl_SourceAddr :: string
  sl_ClientHost :: string
  sl_ClientUser :: string
  sl_TargetAddr :: string
  sl_JumpVia :: string
  sl_Error :: string

definition spoolVersion :: int where "spoolVersion = 1"

definition toLine :: "access_entry \<Rightarrow> spool_line" where
  "toLine e =
     \<lparr>sl_V = spoolVersion,
      sl_VaultUser = VaultUser e, sl_Hostname = ae_Hostname e, sl_CertSerial = CertSerial e,
      sl_SignedAt = SignedAt e, sl_OK = ae_OK e, sl_SourceIP = SourceIP e,
      sl_SourceAddr = SourceAddr e, sl_ClientHost = ClientHost e, sl_ClientUser = ClientUser e,
      sl_TargetAddr = TargetAddr e, sl_JumpVia = ae_JumpVia e, sl_Error = ae_Error e\<rparr>"

definition line_entry :: "spool_line \<Rightarrow> access_entry" where
  "line_entry l =
     \<lparr>VaultUser = sl_VaultUser l, ae_Hostname = sl_Hostname l, CertSerial = sl_CertSerial l,
      SignedAt = sl_SignedAt l, ae_OK = sl_OK l, SourceIP = sl_SourceIP l,
      SourceAddr = sl_SourceAddr l, ClientHost = sl_ClientHost l, ClientUser = sl_ClientUser l,
      TargetAddr = sl_TargetAddr l, ae_JumpVia = sl_JumpVia l, ae_Error = sl_Error l\<rparr>"

text \<open>What one line of a spool file is to the JSON decoder: the object of some version with its
  fields, an object under the old field names with no version stamp, or text that does not decode.
  The number is the length of the text where it is not the current encoder's.\<close>

datatype jline = JLine spool_line | JOld access_entry nat | JBad nat | JEmpty

definition decodeLine :: "jline \<Rightarrow> access_entry option" where
  "decodeLine line =
     (case line of
        JBad _ \<Rightarrow> None
      | JEmpty \<Rightarrow> None
      | JOld e _ \<Rightarrow> Some e
      | JLine l \<Rightarrow> if sl_V l = spoolVersion then Some (line_entry l) else None)"

lemma line_entry_toLine [simp]: "line_entry (toLine e) = e"
  by (simp add: line_entry_def toLine_def)

lemma decode_toLine [simp]: "decodeLine (JLine (toLine e)) = Some e"
  by (simp add: decodeLine_def) (simp add: toLine_def)

section \<open>Files\<close>

datatype tail = NoTail | Fragment nat | WholeTail jline

record spool_file =
  sf_lines :: "jline list"
  sf_tail :: tail

record spool_fs =
  live :: "spool_file option"
  claims :: "(string, spool_file) gomap"

definition line_bytes :: "(spool_line \<Rightarrow> nat) \<Rightarrow> jline \<Rightarrow> nat" where
  \<comment> \<open>without the line break\<close>
  "line_bytes jsz line = (case line of JLine l \<Rightarrow> jsz l | JOld _ n \<Rightarrow> n | JBad n \<Rightarrow> n | JEmpty \<Rightarrow> 0)"

definition tail_bytes :: "(spool_line \<Rightarrow> nat) \<Rightarrow> tail \<Rightarrow> nat" where
  "tail_bytes jsz t = (case t of NoTail \<Rightarrow> 0 | Fragment n \<Rightarrow> n | WholeTail l \<Rightarrow> line_bytes jsz l)"

definition file_size :: "(spool_line \<Rightarrow> nat) \<Rightarrow> spool_file \<Rightarrow> nat" where
  "file_size jsz f = sum_list (map (\<lambda>l. Suc (line_bytes jsz l)) (sf_lines f)) + tail_bytes jsz (sf_tail f)"

definition tail_lines :: "tail \<Rightarrow> jline list" where
  \<comment> \<open>the scanner also returns what follows the last line break\<close>
  "tail_lines t = (case t of NoTail \<Rightarrow> [] | Fragment n \<Rightarrow> [JBad n] | WholeTail l \<Rightarrow> [l])"

definition append_line :: "(spool_line \<Rightarrow> nat) \<Rightarrow> spool_line \<Rightarrow> spool_file \<Rightarrow> spool_file" where
  \<comment> \<open>the bytes of the record and a line break, written at the end of the file: after an
      unterminated tail they continue its line\<close>
  "append_line jsz l f =
     (case sf_tail f of
        NoTail \<Rightarrow> f\<lparr>sf_lines := sf_lines f @ [JLine l]\<rparr>
      | t \<Rightarrow> \<lparr>sf_lines = sf_lines f @ [JBad (tail_bytes jsz t + jsz l)], sf_tail = NoTail\<rparr>)"

definition DefaultMaxBytes :: int where "DefaultMaxBytes = 8 * 2 ^ 20"
definition replayChunk :: nat where "replayChunk = 500"
definition maxDrainPerCall :: int where "maxDrainPerCall = 10000"
definition maxToken :: nat where "maxToken = 2 ^ 20"

definition ErrFull :: goerror where "ErrFull = Sentinel ''audit spool is full''"
definition ErrTooLong :: goerror where "ErrTooLong = Sentinel ''bufio.Scanner: token too long''"

record spool_cfg =
  sp_Path :: string
  sp_MaxBytes :: int
  sp_maxPerDrain :: int

definition batches :: "spool_fs \<Rightarrow> string list" where
  "batches fs = sort (map fst (claims fs))"

definition read_file :: "spool_fs \<Rightarrow> string option \<Rightarrow> spool_file option" where
  \<comment> \<open>\<^const>\<open>None\<close> names the live spool, \<^const>\<open>Some\<close> a claim file\<close>
  "read_file fs path = (case path of None \<Rightarrow> live fs | Some p \<Rightarrow> map_of (claims fs) p)"

definition all_paths :: "spool_fs \<Rightarrow> string option list" where
  "all_paths fs = map Some (batches fs) @ [None]"

section \<open>Appending and measuring\<close>

definition spool_bytes :: "(spool_line \<Rightarrow> nat) \<Rightarrow> spool_fs \<Rightarrow> int" where
  "spool_bytes jsz fs =
     sum_list (map (\<lambda>p. case read_file fs p of None \<Rightarrow> 0 | Some f \<Rightarrow> int (file_size jsz f)) (all_paths fs))"

definition atCap ::
  "(spool_line \<Rightarrow> nat) \<Rightarrow> spool_cfg \<Rightarrow> goerror option \<Rightarrow> spool_fs \<Rightarrow> goerror + bool" where
  "atCap jsz cfg ioErr fs =
     (case ioErr of Some e \<Rightarrow> Inl e
      | None \<Rightarrow>
          let mx = (if sp_MaxBytes cfg \<le> 0 then DefaultMaxBytes else sp_MaxBytes cfg)
          in Inr (spool_bytes jsz fs \<ge> mx))"

record append_io =
  ai_mkdir :: "goerror option"
  ai_stat :: "goerror option"
  ai_marshal :: "goerror option"
  ai_open :: "goerror option"
  ai_write :: "(goerror \<times> tail) option" \<comment> \<open>a failed write and what it left behind\<close>
  ai_sync :: "goerror option"

definition append_ok :: append_io where
  "append_ok = \<lparr>ai_mkdir = None, ai_stat = None, ai_marshal = None, ai_open = None,
     ai_write = None, ai_sync = None\<rparr>"

definition live_or_new :: "spool_fs \<Rightarrow> spool_file" where
  "live_or_new fs = (case live fs of None \<Rightarrow> \<lparr>sf_lines = [], sf_tail = NoTail\<rparr> | Some f \<Rightarrow> f)"

definition leave_tail :: "(spool_line \<Rightarrow> nat) \<Rightarrow> tail \<Rightarrow> spool_file \<Rightarrow> spool_file" where
  "leave_tail jsz t f =
     (if t = NoTail then f
      else f\<lparr>sf_tail := (if sf_tail f = NoTail then t
                          else Fragment (tail_bytes jsz (sf_tail f) + tail_bytes jsz t))\<rparr>)"

definition Append ::
  "(spool_line \<Rightarrow> nat) \<Rightarrow> spool_cfg \<Rightarrow> append_io \<Rightarrow> gotime \<Rightarrow> access_entry \<Rightarrow> spool_fs \<Rightarrow>
     spool_fs \<times> goerror option" where
  "Append jsz cfg io now e fs =
     (if sp_Path cfg = '''' then (fs, Some (Plain ''auditspool: no path configured''))
      else let e' = (if time_is_zero (SignedAt e) then e\<lparr>SignedAt := now\<rparr> else e) in
        case ai_mkdir io of Some err \<Rightarrow> (fs, Some err)
      | None \<Rightarrow> (case atCap jsz cfg (ai_stat io) fs of
          Inl err \<Rightarrow> (fs, Some err)
        | Inr full \<Rightarrow>
            if full then (fs, Some (Wrapf (sp_Path cfg) ErrFull))
            else (case ai_marshal io of Some err \<Rightarrow> (fs, Some err)
        | None \<Rightarrow> (case ai_open io of Some err \<Rightarrow> (fs, Some err)
        | None \<Rightarrow>
            (case ai_write io of
               Some (err, t) \<Rightarrow> (fs\<lparr>live := Some (leave_tail jsz t (live_or_new fs))\<rparr>, Some err)
             | None \<Rightarrow> (fs\<lparr>live := Some (append_line jsz (toLine e') (live_or_new fs))\<rparr>, ai_sync io))))))"

fun load_lines :: "(spool_line \<Rightarrow> nat) \<Rightarrow> jline list \<Rightarrow> access_entry list \<times> nat \<times> goerror option" where
  "load_lines jsz [] = ([], 0, None)"
| "load_lines jsz (l # ls) =
     (if line_bytes jsz l \<ge> maxToken then ([], 0, Some ErrTooLong)
      else if l = JEmpty then load_lines jsz ls
      else case decodeLine l of
        None \<Rightarrow> (case load_lines jsz ls of (es, n, err) \<Rightarrow> (es, Suc n, err))
      | Some e \<Rightarrow> (case load_lines jsz ls of (es, n, err) \<Rightarrow> (e # es, n, err)))"

definition load ::
  "(spool_line \<Rightarrow> nat) \<Rightarrow> goerror option \<Rightarrow> spool_file option \<Rightarrow> access_entry list \<times> nat \<times> goerror option"
where
  "load jsz openErr file =
     (case file of None \<Rightarrow> ([], 0, None)
      | Some f \<Rightarrow> (case openErr of Some err \<Rightarrow> ([], 0, Some err)
          | None \<Rightarrow> load_lines jsz (sf_lines f @ tail_lines (sf_tail f))))"

fun pending_loop ::
  "(spool_line \<Rightarrow> nat) \<Rightarrow> (string option \<Rightarrow> goerror option) \<Rightarrow> spool_fs \<Rightarrow> string option list \<Rightarrow> nat \<Rightarrow>
     nat \<times> goerror option" where
  "pending_loop jsz openErr fs [] acc = (acc, None)"
| "pending_loop jsz openErr fs (p # ps) acc =
     (case load jsz (openErr p) (read_file fs p) of
        (es, _, Some err) \<Rightarrow> (acc, Some err)
      | (es, _, None) \<Rightarrow> pending_loop jsz openErr fs ps (acc + length es))"

definition Pending ::
  "(spool_line \<Rightarrow> nat) \<Rightarrow> goerror option \<Rightarrow> (string option \<Rightarrow> goerror option) \<Rightarrow> spool_fs \<Rightarrow>
     nat \<times> goerror option" where
  "Pending jsz globErr openErr fs =
     (case globErr of Some err \<Rightarrow> (0, Some err) | None \<Rightarrow> pending_loop jsz openErr fs (all_paths fs) 0)"

definition HasBacklog :: "(spool_line \<Rightarrow> nat) \<Rightarrow> goerror option \<Rightarrow> spool_fs \<Rightarrow> goerror + bool" where
  "HasBacklog jsz ioErr fs =
     (case ioErr of Some err \<Rightarrow> Inl err
      | None \<Rightarrow> Inr (list_ex (\<lambda>p. case read_file fs p of None \<Rightarrow> False | Some f \<Rightarrow> file_size jsz f > 0)
                 (all_paths fs)))"

section \<open>The sink\<close>

text \<open>The interface the drain replays into. \<open>log_one\<close> and \<open>log_batch\<close> are the two calls,
  \<open>landed\<close> the records the sink holds. The laws are what the comments of \<^verbatim>\<open>Sink\<close> and
  \<^verbatim>\<open>BatchSink\<close> promise: one call lands its record or fails without landing it, and a
  batch is all or nothing.\<close>

type_synonym 'w sink_one = "'w \<Rightarrow> access_entry \<Rightarrow> 'w \<times> goerror option"
type_synonym 'w sink_batch = "'w \<Rightarrow> access_entry list \<Rightarrow> 'w \<times> goerror option"

fun send_each :: "'w sink_one \<Rightarrow> 'w \<Rightarrow> access_entry list \<Rightarrow> nat \<Rightarrow> 'w \<times> nat \<times> goerror option" where
  "send_each log_one w [] i = (w, i, None)"
| "send_each log_one w (e # es) i =
     (case log_one w e of
        (w', Some err) \<Rightarrow> (w', i, Some err)
      | (w', None) \<Rightarrow> send_each log_one w' es (Suc i))"

definition sendChunk ::
  "'w sink_one \<Rightarrow> 'w sink_batch option \<Rightarrow> 'w \<Rightarrow> access_entry list \<Rightarrow> 'w \<times> nat \<times> goerror option" where
  "sendChunk log_one log_batch w chunk =
     (case (log_batch, length chunk > 1) of
        (Some batch, True) \<Rightarrow>
          (case batch w chunk of
             (w', Some err) \<Rightarrow> (w', 0, Some err)
           | (w', None) \<Rightarrow> (w', length chunk, None))
      | _ \<Rightarrow> send_each log_one w chunk 0)"

lemma send_each_count: "send_each log_one w es i = (w', n, None) \<Longrightarrow> n = i + length es"
proof (induction es arbitrary: w i)
  case (Cons e es)
  then show ?case using Cons.IH [of _ "Suc i"] by (auto split: prod.splits option.splits)
qed simp

lemma sendChunk_count: "sendChunk log_one log_batch w chunk = (w', n, None) \<Longrightarrow> n = length chunk"
  by (auto simp: sendChunk_def dest: send_each_count split: prod.splits option.splits bool.splits)

function drain_loop ::
  "'w sink_one \<Rightarrow> 'w sink_batch option \<Rightarrow> 'w \<Rightarrow> access_entry list \<Rightarrow> nat \<Rightarrow> 'w \<times> nat \<times> goerror option" where
  "drain_loop log_one log_batch w toSend sent =
     (if toSend = [] then (w, sent, None)
      else case sendChunk log_one log_batch w (take replayChunk toSend) of
        (w', n, Some err) \<Rightarrow> (w', sent + n, Some err)
      | (w', n, None) \<Rightarrow> drain_loop log_one log_batch w' (drop n toSend) (sent + n))"
  by pat_completeness auto
termination
  by (relation "measure (\<lambda>(one, batch, w, toSend, sent). length toSend)")
    (auto dest!: sendChunk_count [OF sym] simp: replayChunk_def)
declare drain_loop.simps [simp del]

section \<open>Draining\<close>

record drain_io =
  di_glob :: "goerror option"
  di_stat :: "goerror option"
  di_temp :: "goerror + string"
  di_rename :: "(goerror option) option" \<comment> \<open>\<open>Some None\<close>: the file was gone\<close>
  di_open :: "string \<Rightarrow> goerror option"
  di_rewrite :: "string \<Rightarrow> goerror option"
  di_remove :: "string \<Rightarrow> goerror option"

definition claim :: "drain_io \<Rightarrow> spool_fs \<Rightarrow> spool_fs \<times> (goerror + string option)" where
  "claim io fs =
     (case di_stat io of Some err \<Rightarrow> (fs, Inl err)
      | None \<Rightarrow> (case live fs of None \<Rightarrow> (fs, Inr None)
      | Some f \<Rightarrow> (case di_temp io of Inl err \<Rightarrow> (fs, Inl err)
      | Inr name \<Rightarrow> (case di_rename io of
            Some None \<Rightarrow> (fs, Inr None)
          | Some (Some err) \<Rightarrow> (fs, Inl err)
          | None \<Rightarrow> (fs\<lparr>live := None, claims := AList.update name f (claims fs)\<rparr>, Inr (Some name))))))"

definition encode :: "access_entry list \<Rightarrow> spool_file" where
  "encode es = \<lparr>sf_lines = map (\<lambda>e. JLine (toLine e)) es, sf_tail = NoTail\<rparr>"

definition remove_claim :: "drain_io \<Rightarrow> string \<Rightarrow> spool_fs \<Rightarrow> spool_fs \<times> goerror option" where
  "remove_claim io path fs =
     (case di_remove io path of Some err \<Rightarrow> (fs, Some err)
      | None \<Rightarrow> (fs\<lparr>claims := AList.delete path (claims fs)\<rparr>, None))"

definition rewrite_claim :: "drain_io \<Rightarrow> string \<Rightarrow> access_entry list \<Rightarrow> spool_fs \<Rightarrow> spool_fs \<times> goerror option" where
  "rewrite_claim io path es fs =
     (case di_rewrite io path of Some err \<Rightarrow> (fs, Some err)
      | None \<Rightarrow> (fs\<lparr>claims := AList.update path (encode es) (claims fs)\<rparr>, None))"

record drain_result =
  Sent :: nat
  Skipped :: nat

definition drainBatch ::
  "(spool_line \<Rightarrow> nat) \<Rightarrow> 'w sink_one \<Rightarrow> 'w sink_batch option \<Rightarrow> drain_io \<Rightarrow> string \<Rightarrow> int \<Rightarrow>
     spool_fs \<Rightarrow> 'w \<Rightarrow> spool_fs \<times> 'w \<times> drain_result \<times> goerror option" where
  "drainBatch jsz log_one log_batch io path budget fs w =
     (case load jsz (di_open io path) (map_of (claims fs) path) of
        (es, skipped, Some err) \<Rightarrow> (fs, w, \<lparr>Sent = 0, Skipped = skipped\<rparr>, Some err)
      | (es, skipped, None) \<Rightarrow>
          if es = [] then
            (case remove_claim io path fs of
               (fs', r) \<Rightarrow> (fs', w, \<lparr>Sent = 0, Skipped = skipped\<rparr>, r))
          else let toSend = (if int (length es) > budget then take (nat budget) es else es) in
            (case drain_loop log_one log_batch w toSend 0 of
               (w', n, Some err) \<Rightarrow>
                 (case rewrite_claim io path (drop n es) fs of
                    (fs', _) \<Rightarrow> (fs', w', \<lparr>Sent = n, Skipped = skipped\<rparr>, Some (Wrapf ''flush stopped'' err)))
             | (w', n, None) \<Rightarrow>
                 if n < length es then
                   (case rewrite_claim io path (drop n es) fs of
                      (fs', r) \<Rightarrow> (fs', w', \<lparr>Sent = n, Skipped = skipped\<rparr>, r))
                 else
                   (case remove_claim io path fs of
                      (fs', r) \<Rightarrow> (fs', w', \<lparr>Sent = n, Skipped = skipped\<rparr>, r))))"

fun drain_paths ::
  "(spool_line \<Rightarrow> nat) \<Rightarrow> 'w sink_one \<Rightarrow> 'w sink_batch option \<Rightarrow> drain_io \<Rightarrow> int \<Rightarrow> string list \<Rightarrow>
     spool_fs \<Rightarrow> 'w \<Rightarrow> drain_result \<Rightarrow> spool_fs \<times> 'w \<times> drain_result \<times> goerror option" where
  "drain_paths jsz log_one log_batch io budget [] fs w res = (fs, w, res, None)"
| "drain_paths jsz log_one log_batch io budget (p # ps) fs w res =
     (if budget \<le> int (Sent res) then (fs, w, res, None)
      else case drainBatch jsz log_one log_batch io p (budget - int (Sent res)) fs w of
        (fs', w', r, err) \<Rightarrow>
          let res' = \<lparr>Sent = Sent res + Sent r, Skipped = Skipped res + Skipped r\<rparr> in
          (case err of Some e \<Rightarrow> (fs', w', res', Some e)
           | None \<Rightarrow> drain_paths jsz log_one log_batch io budget ps fs' w' res'))"

definition drain_budget :: "spool_cfg \<Rightarrow> int" where
  "drain_budget cfg = (if sp_maxPerDrain cfg > 0 then sp_maxPerDrain cfg else maxDrainPerCall)"

definition Drain ::
  "(spool_line \<Rightarrow> nat) \<Rightarrow> spool_cfg \<Rightarrow> 'w sink_one \<Rightarrow> 'w sink_batch option \<Rightarrow> drain_io \<Rightarrow>
     spool_fs \<Rightarrow> 'w \<Rightarrow> spool_fs \<times> 'w \<times> drain_result \<times> goerror option" where
  "Drain jsz cfg log_one log_batch io fs w =
     (let none = \<lparr>Sent = 0, Skipped = 0\<rparr>; bs = batches fs in
      case di_glob io of Some err \<Rightarrow> (fs, w, none, Some err)
    | None \<Rightarrow>
        (case claim io fs of
           (fs', Inl err) \<Rightarrow> (fs', w, none, Some err)
         | (fs', Inr claimed) \<Rightarrow>
             drain_paths jsz log_one log_batch io (drain_budget cfg)
               (bs @ (case claimed of None \<Rightarrow> [] | Some name \<Rightarrow> [name])) fs' w none))"

section \<open>The store as a sink\<close>

text \<open>\<^verbatim>\<open>accessArgs\<close>: the column values of one insert; an empty string becomes NULL, and a zero
  time is left for the database to stamp.\<close>

record access_row =
  r_vault_user :: "string option"
  r_hostname :: "string option"
  r_cert_serial :: "string option"
  r_ok :: bool
  r_source_ip :: "string option"
  r_source_addr :: "string option"
  r_client_host :: "string option"
  r_client_user :: "string option"
  r_target_addr :: "string option"
  r_jump_via :: "string option"
  r_error :: "string option"
  r_signed_at :: "gotime option"

definition nullIfEmpty :: "string \<Rightarrow> string option" where
  "nullIfEmpty s = (if s = '''' then None else Some s)"

definition accessArgs :: "access_entry \<Rightarrow> access_row" where
  "accessArgs e =
     \<lparr>r_vault_user = nullIfEmpty (VaultUser e), r_hostname = nullIfEmpty (ae_Hostname e),
      r_cert_serial = nullIfEmpty (CertSerial e), r_ok = ae_OK e, r_source_ip = nullIfEmpty (SourceIP e),
      r_source_addr = nullIfEmpty (SourceAddr e), r_client_host = nullIfEmpty (ClientHost e),
      r_client_user = nullIfEmpty (ClientUser e), r_target_addr = nullIfEmpty (TargetAddr e),
      r_jump_via = nullIfEmpty (ae_JumpVia e), r_error = nullIfEmpty (ae_Error e),
      r_signed_at = (if \<not> time_is_zero (SignedAt e) then Some (SignedAt e) else None)\<rparr>"

text \<open>A connection: the committed rows, and what the \<open>n\<close>-th exchange with the server answers. The
  statements of a batch share one implicit transaction, so an error anywhere in it, the final
  synchronisation included, leaves no row.\<close>

record pg_conn =
  pg_rows :: "access_row list"
  pg_answer :: "nat \<Rightarrow> goerror option"
  pg_n :: nat

definition store_LogAccess :: "pg_conn \<Rightarrow> access_entry \<Rightarrow> pg_conn \<times> goerror option" where
  "store_LogAccess c e =
     (case pg_answer c (pg_n c) of
        Some err \<Rightarrow> (c\<lparr>pg_n := Suc (pg_n c)\<rparr>, Some err)
      | None \<Rightarrow> (c\<lparr>pg_rows := pg_rows c @ [accessArgs e], pg_n := Suc (pg_n c)\<rparr>, None))"

fun batch_exec :: "(nat \<Rightarrow> goerror option) \<Rightarrow> access_entry list \<Rightarrow> nat \<Rightarrow> nat \<times> goerror option" where
  "batch_exec answer [] k = (Suc k, answer k)"
| "batch_exec answer (e # es) k =
     (case answer k of Some err \<Rightarrow> (Suc k, Some err) | None \<Rightarrow> batch_exec answer es (Suc k))"

definition store_LogAccessBatch :: "pg_conn \<Rightarrow> access_entry list \<Rightarrow> pg_conn \<times> goerror option" where
  "store_LogAccessBatch c es =
     (if length es = 0 then (c, None)
      else case batch_exec (pg_answer c) es (pg_n c) of
        (n, Some err) \<Rightarrow> (c\<lparr>pg_n := n\<rparr>, Some err)
      | (n, None) \<Rightarrow> (c\<lparr>pg_rows := pg_rows c @ map accessArgs es, pg_n := n\<rparr>, None))"

section \<open>The sink contract\<close>

locale audit_sink =
  fixes log_one :: "'w sink_one"
    and log_batch :: "'w sink_batch option"
    and landed :: "'w \<Rightarrow> 'row list"
    and row :: "access_entry \<Rightarrow> 'row"
  assumes one_lands: "log_one w e = (w', None) \<Longrightarrow> landed w' = landed w @ [row e]"
    and one_fails: "log_one w e = (w', Some err) \<Longrightarrow> landed w' = landed w"
    and batch_lands: "log_batch = Some b \<Longrightarrow> b w es = (w', None) \<Longrightarrow> landed w' = landed w @ map row es"
    and batch_fails: "log_batch = Some b \<Longrightarrow> b w es = (w', Some err) \<Longrightarrow> landed w' = landed w"
begin

lemma send_each_landed:
  "send_each log_one w es i = (w', n, r) \<Longrightarrow>
     i \<le> n \<and> n \<le> i + length es \<and> landed w' = landed w @ map row (take (n - i) es)"
proof (induction es arbitrary: w i)
  case (Cons e es)
  obtain w1 r1 where one: "log_one w e = (w1, r1)" by fastforce
  show ?case
  proof (cases r1)
    case None
    with one Cons.prems Cons.IH [of w1 "Suc i"] one_lands [of w e w1] show ?thesis
      by (auto simp: Suc_diff_le take_Cons' Suc_le_eq)
  next
    case (Some err)
    with one Cons.prems one_fails [of w e w1 err] show ?thesis by simp
  qed
qed simp

lemma sendChunk_landed:
  assumes "sendChunk log_one log_batch w chunk = (w', n, r)"
  shows "n \<le> length chunk \<and> landed w' = landed w @ map row (take n chunk)"
proof (cases log_batch)
  case None
  with assms send_each_landed [of w chunk 0 w' n r] show ?thesis by (simp add: sendChunk_def)
next
  case (Some b)
  then show ?thesis using assms send_each_landed [of w chunk 0 w' n r] batch_lands [OF Some] batch_fails [OF Some]
    by (auto simp: sendChunk_def split: bool.splits prod.splits option.splits)
qed

lemma drain_loop_landed:
  "drain_loop log_one log_batch w toSend sent = (w', n, r) \<Longrightarrow>
     sent \<le> n \<and> n \<le> sent + length toSend \<and> (r = None \<longrightarrow> n = sent + length toSend) \<and>
     landed w' = landed w @ map row (take (n - sent) toSend)"
proof (induction toSend arbitrary: w sent rule: length_induct)
  case (1 toSend)
  show ?case
  proof (cases "toSend = []")
    case True
    with 1 show ?thesis by (simp add: drain_loop.simps)
  next
    case False
    obtain w1 m r1 where chunk: "sendChunk log_one log_batch w (take replayChunk toSend) = (w1, m, r1)"
      by (metis prod_cases3)
    note sent = sendChunk_landed [OF chunk]
    show ?thesis
    proof (cases r1)
      case (Some err)
      with 1(2) False chunk sent show ?thesis by (auto simp: drain_loop.simps [of _ _ w])
    next
      case None
      with chunk have m: "m = length (take replayChunk toSend)" by (auto dest: sendChunk_count)
      then have m_pos: "0 < m" "m \<le> length toSend" using False by (auto simp: replayChunk_def)
      have rest: "drain_loop log_one log_batch w1 (drop m toSend) (sent + m) = (w', n, r)"
        using 1(2) False chunk None by (simp add: drain_loop.simps [of _ _ w])
      have len: "length (drop m toSend) < length toSend" using m_pos by simp
      from 1(1) len rest have IH: "sent + m \<le> n \<and> n \<le> sent + m + length (drop m toSend) \<and>
          (r = None \<longrightarrow> n = sent + m + length (drop m toSend)) \<and>
          landed w' = landed w1 @ map row (take (n - (sent + m)) (drop m toSend))" by blast
      have "landed w1 = landed w @ map row (take m toSend)" using sent m by (simp add: min_def)
      moreover have "take m toSend @ take (n - (sent + m)) (drop m toSend) = take (n - sent) toSend"
        using IH take_add [of m "n - (sent + m)" toSend] by (simp add: add.commute)
      ultimately show ?thesis using IH m_pos by (auto simp flip: map_append)
    qed
  qed
qed

end

interpretation store_sink: audit_sink store_LogAccess "Some store_LogAccessBatch" pg_rows accessArgs
  by unfold_locales
    (auto simp: store_LogAccess_def store_LogAccessBatch_def split: option.splits prod.splits if_splits)

section \<open>What is waiting\<close>

definition file_entries :: "spool_file \<Rightarrow> access_entry list" where
  "file_entries f = List.map_filter decodeLine (sf_lines f @ tail_lines (sf_tail f))"

definition unreadable :: "spool_file \<Rightarrow> nat" where
  "unreadable f =
     length (filter (\<lambda>l. decodeLine l = None \<and> l \<noteq> JEmpty) (sf_lines f @ tail_lines (sf_tail f)))"

definition claims_ms :: "(string, spool_file) gomap \<Rightarrow> access_entry multiset" where
  "claims_ms m = gomap_sum (\<lambda>f. mset (file_entries f)) m"

definition pending_ms :: "spool_fs \<Rightarrow> access_entry multiset" where
  "pending_ms fs = (case live fs of None \<Rightarrow> {#} | Some f \<Rightarrow> mset (file_entries f)) + claims_ms (claims fs)"

lemma map_filter_append [simp]:
  "List.map_filter f (xs @ ys) = List.map_filter f xs @ List.map_filter f ys"
  by (simp add: List.map_filter_def)

lemma load_lines_entries:
  "load_lines jsz ls = (es, n, None) \<Longrightarrow>
     es = List.map_filter decodeLine ls \<and> n = length (filter (\<lambda>l. decodeLine l = None \<and> l \<noteq> JEmpty) ls)"
proof (induction ls arbitrary: es n)
  case (Cons l ls)
  have [simp]: "decodeLine JEmpty = None" by (simp add: decodeLine_def)
  from Cons show ?case
    by (auto simp: List.map_filter_simps split: if_splits option.splits prod.splits)
qed (simp add: List.map_filter_simps)

lemma load_entries:
  "load jsz openErr file = (es, n, None) \<Longrightarrow>
     (case file of None \<Rightarrow> es = [] \<and> n = 0
      | Some f \<Rightarrow> es = file_entries f \<and> n = unreadable f \<and> openErr = None)"
  by (auto simp: load_def file_entries_def unreadable_def dest: load_lines_entries split: option.splits)

lemma file_entries_encode [simp]: "file_entries (encode es) = es"
  by (induction es) (simp_all add: file_entries_def encode_def tail_lines_def List.map_filter_simps)

lemma claims_ms_update:
  "gomap_wf m \<Longrightarrow>
   claims_ms (AList.update p f m) + (case map_of m p of None \<Rightarrow> {#} | Some g \<Rightarrow> mset (file_entries g)) =
   claims_ms m + mset (file_entries f)"
  using gomap_sum_update [of m "\<lambda>f. mset (file_entries f)" p f]
  by (simp add: claims_ms_def cong: option.case_cong)

lemma claims_ms_new:
  "gomap_wf m \<Longrightarrow> map_of m p = None \<Longrightarrow>
   claims_ms (AList.update p f m) = claims_ms m + mset (file_entries f)"
  using claims_ms_update [of m p f] by simp

lemma claims_ms_delete:
  "gomap_wf m \<Longrightarrow>
   claims_ms (AList.delete p m) + (case map_of m p of None \<Rightarrow> {#} | Some g \<Rightarrow> mset (file_entries g)) = claims_ms m"
  using gomap_sum_delete [of m "\<lambda>f. mset (file_entries f)" p]
  by (simp add: claims_ms_def cong: option.case_cong)

text \<open>The two ways a batch drain changes its claim file, and what they do to what is waiting.\<close>

lemma remove_claim_pending:
  assumes "remove_claim io p fs = (fs', r)" "gomap_wf (claims fs)"
    and "case map_of (claims fs) p of None \<Rightarrow> es = [] | Some f \<Rightarrow> es = file_entries f"
  shows "gomap_wf (claims fs') \<and> live fs' = live fs \<and> pending_ms fs \<subseteq># pending_ms fs' + mset es \<and>
    (di_remove io p = None \<longrightarrow> r = None \<and> pending_ms fs = pending_ms fs' + mset es)"
  using assms claims_ms_delete [OF assms(2), of p]
  by (auto simp: remove_claim_def pending_ms_def ac_simps split: option.splits)

lemma rewrite_claim_pending:
  assumes "rewrite_claim io p (drop n es) fs = (fs', r)" "gomap_wf (claims fs)"
    and "map_of (claims fs) p = Some f" "es = file_entries f"
  shows "gomap_wf (claims fs') \<and> live fs' = live fs \<and> pending_ms fs \<subseteq># pending_ms fs' + mset (take n es) \<and>
    (di_rewrite io p = None \<longrightarrow> r = None \<and> pending_ms fs = pending_ms fs' + mset (take n es))"
proof (cases "di_rewrite io p")
  case (Some e)
  with assms show ?thesis by (auto simp: rewrite_claim_def)
next
  case None
  let ?m = "claims fs"
  let ?u = "claims_ms (AList.update p (encode (drop n es)) ?m)"
  have split: "mset es = mset (take n es) + mset (drop n es)" by (metis append_take_drop_id mset_append)
  have upd: "?u + mset es = claims_ms ?m + mset (drop n es)"
    using claims_ms_update [OF assms(2), of p "encode (drop n es)"] assms(3,4) by simp
  have "claims_ms ?m + mset (drop n es) = (?u + mset (take n es)) + mset (drop n es)"
    unfolding upd [symmetric] split by (simp only: add.assoc)
  then have "claims_ms ?m = ?u + mset (take n es)" by (rule add_right_imp_eq)  with None assms show ?thesis by (auto simp: rewrite_claim_def pending_ms_def ac_simps)
qed

context audit_sink
begin

lemma drainBatch_conserves:
  assumes d: "drainBatch jsz log_one log_batch io p budget fs w = (fs', w', res, err)"
    and wf: "gomap_wf (claims fs)" and b: "0 < budget"
  shows "gomap_wf (claims fs') \<and> live fs' = live fs \<and> int (Sent res) \<le> budget \<and>
    (\<exists>new. landed w' = landed w @ map row new \<and> length new = Sent res \<and>
       pending_ms fs \<subseteq># pending_ms fs' + mset new \<and>
       (di_rewrite io p = None \<and> di_remove io p = None \<longrightarrow> pending_ms fs = pending_ms fs' + mset new))"
proof -
  obtain es skipped lerr where l: "load jsz (di_open io p) (map_of (claims fs) p) = (es, skipped, lerr)"
    by (metis prod_cases3)
  show ?thesis
  proof (cases "lerr = None \<and> es \<noteq> []")
    case False
    then show ?thesis
    proof (cases lerr)
      case (Some e)
      with l d wf b show ?thesis by (auto simp: drainBatch_def)
    next
      case None
      with False have "es = []" by simp
      obtain r where rm: "remove_claim io p fs = (fs', r)" "w' = w" "Sent res = 0"
        using d l None \<open>es = []\<close> by (auto simp: drainBatch_def split: prod.splits)
      have "case map_of (claims fs) p of None \<Rightarrow> es = [] | Some f \<Rightarrow> es = file_entries f"
        using load_entries [OF l [unfolded None]] by (simp split: option.splits)
      from remove_claim_pending [OF rm(1) wf this] rm b \<open>es = []\<close> show ?thesis by auto
    qed
  next
    case True
    then obtain f where f: "map_of (claims fs) p = Some f" "es = file_entries f"
      using load_entries [of jsz "di_open io p" "map_of (claims fs) p" es skipped] l by (auto split: option.splits)
    let ?toSend = "if int (length es) > budget then take (nat budget) es else es"
    obtain w1 n lr where loop: "drain_loop log_one log_batch w ?toSend 0 = (w1, n, lr)"
      by (metis prod_cases3)
    have d': "(if lr \<noteq> None \<or> n < length es then \<exists>r. rewrite_claim io p (drop n es) fs = (fs', r)
               else \<exists>r. remove_claim io p fs = (fs', r)) \<and> w' = w1 \<and> Sent res = n"
      using d True loop by (cases lr) (auto simp: drainBatch_def l Let_def split: prod.splits if_splits)    note landed = drain_loop_landed [OF loop]
    have len: "length ?toSend \<le> length es" "int (length ?toSend) \<le> budget" using b by auto
    have take_eq: "take n ?toSend = take n es" using landed len by (auto simp: min_def)
    have new: "landed w' = landed w @ map row (take n es)" "length (take n es) = Sent res"
      "int (Sent res) \<le> budget"
      using landed take_eq len d' by auto
    from d' obtain r where "rewrite_claim io p (drop n es) fs = (fs', r) \<or> (n \<ge> length es \<and> remove_claim io p fs = (fs', r))"
      by (metis linorder_not_less)
    then have "gomap_wf (claims fs') \<and> live fs' = live fs \<and> pending_ms fs \<subseteq># pending_ms fs' + mset (take n es) \<and>
       (di_rewrite io p = None \<and> di_remove io p = None \<longrightarrow> pending_ms fs = pending_ms fs' + mset (take n es))"
      using rewrite_claim_pending [OF _ wf f] remove_claim_pending [OF _ wf] f by fastforce
    with new show ?thesis by blast
  qed
qed

end

definition fs_io_ok :: "drain_io \<Rightarrow> bool" where
  "fs_io_ok io \<longleftrightarrow> (\<forall>p. di_rewrite io p = None \<and> di_remove io p = None)"

definition fresh_claim :: "drain_io \<Rightarrow> spool_fs \<Rightarrow> bool" where
  \<comment> \<open>\<^verbatim>\<open>os.CreateTemp\<close> returns a name no file has\<close>
  "fresh_claim io fs \<longleftrightarrow> (\<forall>name. di_temp io = Inr name \<longrightarrow> map_of (claims fs) name = None)"

lemma claim_pending:
  assumes "claim io fs = (fs', r)" "gomap_wf (claims fs)" "fresh_claim io fs"
  shows "gomap_wf (claims fs') \<and> pending_ms fs' = pending_ms fs"
  using assms
  by (auto simp: claim_def fresh_claim_def pending_ms_def claims_ms_new ac_simps
      split: option.splits sum.splits)

context audit_sink
begin

lemma drain_paths_conserves:
  "drain_paths jsz log_one log_batch io budget ps fs w res = (fs', w', res', err) \<Longrightarrow>
   gomap_wf (claims fs) \<Longrightarrow> int (Sent res) \<le> budget \<Longrightarrow>
   gomap_wf (claims fs') \<and> int (Sent res') \<le> budget \<and>
   (\<exists>new. landed w' = landed w @ map row new \<and> Sent res' = Sent res + length new \<and>
      pending_ms fs \<subseteq># pending_ms fs' + mset new \<and>
      (fs_io_ok io \<longrightarrow> pending_ms fs = pending_ms fs' + mset new))"
proof (induction ps arbitrary: fs w res)
  case Nil
  then show ?case by simp
next
  case (Cons p ps)
  show ?case
  proof (cases "budget \<le> int (Sent res)")
    case True
    with Cons.prems show ?thesis by simp
  next
    case False
    obtain fs1 w1 r1 e1 where b: "drainBatch jsz log_one log_batch io p (budget - int (Sent res)) fs w =
        (fs1, w1, r1, e1)" by (metis prod_cases4)
    from drainBatch_conserves [OF b Cons.prems(2)] False obtain new1 where
      one: "gomap_wf (claims fs1)" "landed w1 = landed w @ map row new1" "length new1 = Sent r1"
        "int (Sent r1) \<le> budget - int (Sent res)" "pending_ms fs \<subseteq># pending_ms fs1 + mset new1"
        "fs_io_ok io \<longrightarrow> pending_ms fs = pending_ms fs1 + mset new1"
      by (auto simp: fs_io_ok_def)
    let ?res1 = "\<lparr>Sent = Sent res + Sent r1, Skipped = Skipped res + Skipped r1\<rparr>"
    show ?thesis
    proof (cases e1)
      case (Some e)
      with Cons.prems(1) False b one show ?thesis by (auto intro!: exI [of _ new1])
    next
      case None
      with Cons.prems(1) False b
      have rest: "drain_paths jsz log_one log_batch io budget ps fs1 w1 ?res1 = (fs', w', res', err)" by simp
      from Cons.IH [OF rest one(1)] one(4) obtain new2 where
        two: "gomap_wf (claims fs')" "int (Sent res') \<le> budget" "landed w' = landed w1 @ map row new2"
          "Sent res' = Sent res + Sent r1 + length new2" "pending_ms fs1 \<subseteq># pending_ms fs' + mset new2"
          "fs_io_ok io \<longrightarrow> pending_ms fs1 = pending_ms fs' + mset new2" by auto
      have "pending_ms fs \<subseteq># pending_ms fs' + mset (new1 @ new2)"
        using subset_mset.order_trans [OF one(5) subset_mset.add_right_mono [OF two(5)]]
        by (simp add: ac_simps)
      with one two show ?thesis by (intro conjI exI [of _ "new1 @ new2"]) (auto simp: ac_simps)
    qed
  qed
qed

lemma Drain_conserves:
  assumes "Drain jsz cfg log_one log_batch io fs w = (fs', w', res, err)"
    and "gomap_wf (claims fs)" "fresh_claim io fs"
  shows "gomap_wf (claims fs') \<and> int (Sent res) \<le> drain_budget cfg \<and>
    (\<exists>new. landed w' = landed w @ map row new \<and> Sent res = length new \<and>
       pending_ms fs \<subseteq># pending_ms fs' + mset new \<and>
       (fs_io_ok io \<longrightarrow> pending_ms fs = pending_ms fs' + mset new))"
proof -
  have b: "0 < drain_budget cfg" by (simp add: drain_budget_def maxDrainPerCall_def)
  show ?thesis
  proof (cases "di_glob io")
    case (Some e)
    with assms b show ?thesis by (auto simp: Drain_def)
  next
    case None
    obtain fs1 r where c: "claim io fs = (fs1, r)" by fastforce
    note cl = claim_pending [OF c assms(2,3)]
    show ?thesis
    proof (cases r)
      case (Inl e)
      with None c assms(1) cl b show ?thesis by (auto simp: Drain_def)
    next
      case (Inr claimed)
      with None c assms(1)
      have "drain_paths jsz log_one log_batch io (drain_budget cfg)
          (batches fs @ (case claimed of None \<Rightarrow> [] | Some name \<Rightarrow> [name])) fs1 w \<lparr>Sent = 0, Skipped = 0\<rparr> =
          (fs', w', res, err)" by (simp add: Drain_def)
      from drain_paths_conserves [OF this] cl b show ?thesis by auto
    qed
  qed
qed

end

section \<open>Properties of the drain\<close>

text \<open>C4: a drain neither loses nor invents records. Whatever fails on the way (listing, claiming,
  reading, the database at any statement, rewriting, removing), every record that was waiting is
  afterwards either still waiting or landed, the reported count is exactly the number of rows
  that landed, and it never exceeds the per-call budget. When the rewrites and removals succeed
  the books balance exactly: no record both landed and waiting.\<close>

theorem Drain_conserves_records:
  assumes "gomap_wf (claims fs)" and "fresh_claim io fs"
    and "Drain jsz cfg store_LogAccess (Some store_LogAccessBatch) io fs c = (fs', c', res, err)"
  shows "\<exists>new. pg_rows c' = pg_rows c @ map accessArgs new \<and> Sent res = length new \<and>
    int (Sent res) \<le> drain_budget cfg \<and>
    pending_ms fs \<subseteq># pending_ms fs' + mset new \<and>
    (fs_io_ok io \<longrightarrow> pending_ms fs = pending_ms fs' + mset new)"
  using store_sink.Drain_conserves [OF assms(3,1,2)] by blast

definition sample_entry :: access_entry where
  "sample_entry = \<lparr>VaultUser = ''alice'', ae_Hostname = ''h1'', CertSerial = ''7'', SignedAt = 5,
     ae_OK = True, SourceIP = '''', SourceAddr = '''', ClientHost = '''', ClientUser = '''',
     TargetAddr = '''', ae_JumpVia = '''', ae_Error = ''''\<rparr>"

definition spool_sample_cfg :: spool_cfg where
  "spool_sample_cfg = \<lparr>sp_Path = ''/spool/access.jsonl'', sp_MaxBytes = 4096, sp_maxPerDrain = 0\<rparr>"

definition sample_fs :: spool_fs where
  "sample_fs = \<lparr>live = Some (encode [sample_entry]), claims = []\<rparr>"

definition io_all_ok :: "string \<Rightarrow> drain_io" where
  "io_all_ok name = \<lparr>di_glob = None, di_stat = None, di_temp = Inr name, di_rename = None,
     di_open = (\<lambda>p. None), di_rewrite = (\<lambda>p. None), di_remove = (\<lambda>p. None)\<rparr>"

definition fresh_conn :: pg_conn where
  "fresh_conn = \<lparr>pg_rows = [], pg_answer = (\<lambda>n. None), pg_n = 0\<rparr>"

theorem Drain_conserves_records_witness:
  "\<exists>fs' c' res err. Drain (\<lambda>l. 100) spool_sample_cfg store_LogAccess (Some store_LogAccessBatch)
      (io_all_ok ''a.claim'') sample_fs fresh_conn = (fs', c', res, err) \<and>
    (\<exists>new. pg_rows c' = map accessArgs new \<and> pending_ms sample_fs = pending_ms fs' + mset new)"
proof -
  obtain fs' c' res err where d: "Drain (\<lambda>l. 100) spool_sample_cfg store_LogAccess (Some store_LogAccessBatch)
      (io_all_ok ''a.claim'') sample_fs fresh_conn = (fs', c', res, err)" by (metis prod_cases4)
  have "gomap_wf (claims sample_fs)" "fresh_claim (io_all_ok ''a.claim'') sample_fs"
    "fs_io_ok (io_all_ok ''a.claim'')" "pg_rows fresh_conn = []"
    by (simp_all add: sample_fs_def fresh_claim_def io_all_ok_def fs_io_ok_def fresh_conn_def)
  with Drain_conserves_records [OF _ _ d] d show ?thesis by auto
qed

text \<open>A sink that answers every call, and a drain over it: the contract extended by an invariant
  \<open>ok\<close> under which no call fails.\<close>

locale reliable_sink = audit_sink +
  fixes ok :: "'w \<Rightarrow> bool"
  assumes one_ok: "ok w \<Longrightarrow> \<exists>w'. log_one w e = (w', None) \<and> ok w'"
    and batch_ok: "ok w \<Longrightarrow> log_batch = Some b \<Longrightarrow> \<exists>w'. b w es = (w', None) \<and> ok w'"
begin

lemma send_each_ok: "ok w \<Longrightarrow> \<exists>w' n. send_each log_one w es i = (w', n, None) \<and> ok w'"
proof (induction es arbitrary: w i)
  case (Cons e es)
  from one_ok [OF Cons.prems] obtain w' where "log_one w e = (w', None)" "ok w'" by blast
  with Cons.IH show ?case by simp
qed simp

lemma sendChunk_ok: "ok w \<Longrightarrow> \<exists>w'. sendChunk log_one log_batch w chunk = (w', length chunk, None) \<and> ok w'"
proof -
  assume ok: "ok w"
  have each: "\<exists>w'. send_each log_one w chunk 0 = (w', length chunk, None) \<and> ok w'"
    using send_each_ok [OF ok, of chunk 0] send_each_count [of log_one w chunk 0] by fastforce
  show ?thesis
  proof (cases "log_batch")
    case None
    with each show ?thesis by (simp add: sendChunk_def)
  next
    case (Some b)
    then show ?thesis
      using each batch_ok [OF ok Some, of chunk] by (cases "length chunk > 1") (auto simp: sendChunk_def)
  qed
qed

lemma drain_loop_ok:
  "ok w \<Longrightarrow> \<exists>w'. drain_loop log_one log_batch w toSend sent = (w', sent + length toSend, None) \<and> ok w'"
proof (induction toSend arbitrary: w sent rule: length_induct)
  case (1 toSend)
  show ?case
  proof (cases "toSend = []")
    case True
    with 1(2) show ?thesis by (simp add: drain_loop.simps)
  next
    case False
    let ?m = "length (take replayChunk toSend)"
    from sendChunk_ok [OF 1(2)] obtain w1 where c: "sendChunk log_one log_batch w (take replayChunk toSend) =
        (w1, ?m, None)" "ok w1" by blast
    have "length (drop ?m toSend) < length toSend" using False by (simp add: replayChunk_def)
    with 1(1) c(2) have "\<exists>w'. drain_loop log_one log_batch w1 (drop ?m toSend) (sent + ?m) =
        (w', sent + ?m + length (drop ?m toSend), None) \<and> ok w'" by blast
    with False c(1) show ?thesis by (auto simp: drain_loop.simps [of _ _ w])
  qed
qed

end

definition answers_all :: "pg_conn \<Rightarrow> bool" where
  "answers_all c \<longleftrightarrow> (\<forall>n. pg_answer c n = None)"

lemma batch_exec_ok: "(\<forall>n. answer n = None) \<Longrightarrow> snd (batch_exec answer es k) = None"
  by (induction es arbitrary: k) auto

interpretation store_reliable:
  reliable_sink store_LogAccess "Some store_LogAccessBatch" pg_rows accessArgs answers_all
proof
  fix c e es b
  assume a: "answers_all c"
  then show "\<exists>c'. store_LogAccess c e = (c', None) \<and> answers_all c'"
    by (simp add: store_LogAccess_def answers_all_def)
  assume "Some store_LogAccessBatch = Some b"
  with a batch_exec_ok [of "pg_answer c" es "pg_n c"]
  show "\<exists>c'. b c es = (c', None) \<and> answers_all c'"
    by (auto simp: store_LogAccessBatch_def answers_all_def split: prod.splits)
qed

definition file_short :: "(spool_line \<Rightarrow> nat) \<Rightarrow> spool_file \<Rightarrow> bool" where
  "file_short jsz f \<longleftrightarrow> list_all (\<lambda>l. line_bytes jsz l < maxToken) (sf_lines f @ tail_lines (sf_tail f))"

definition drain_io_ok :: "drain_io \<Rightarrow> bool" where
  "drain_io_ok io \<longleftrightarrow> di_glob io = None \<and> di_stat io = None \<and> (\<exists>name. di_temp io = Inr name) \<and>
     di_rename io = None \<and> (\<forall>p. di_open io p = None) \<and> fs_io_ok io"

lemma load_lines_short:
  "list_all (\<lambda>l. line_bytes jsz l < maxToken) ls \<Longrightarrow> \<exists>es n. load_lines jsz ls = (es, n, None)"
  by (induction ls) (auto split: option.splits prod.splits)

lemma load_short:
  assumes "file_short jsz f"
  shows "load jsz None (Some f) = (file_entries f, unreadable f, None)"
proof -
  from load_lines_short assms obtain es n where "load jsz None (Some f) = (es, n, None)"
    unfolding file_short_def load_def by fastforce
  with load_entries [OF this] show ?thesis by simp
qed

context reliable_sink
begin

lemma drainBatch_ok:
  assumes "ok w" "map_of (claims fs) p = Some f" "file_short jsz f" "drain_io_ok io"
    and "int (length (file_entries f)) \<le> budget"
  shows "\<exists>w'. drainBatch jsz log_one log_batch io p budget fs w =
    (fs\<lparr>claims := AList.delete p (claims fs)\<rparr>, w',
     \<lparr>Sent = length (file_entries f), Skipped = unreadable f\<rparr>, None) \<and> ok w'"
  using assms load_short [OF assms(3)] drain_loop_ok [OF assms(1), of "file_entries f" 0]
  by (auto simp: drainBatch_def drain_io_ok_def fs_io_ok_def remove_claim_def)

lemma drain_paths_ok:
  "ok w \<Longrightarrow> drain_io_ok io \<Longrightarrow> gomap_wf (claims fs) \<Longrightarrow> distinct ps \<Longrightarrow> set ps = fst ` set (claims fs) \<Longrightarrow>
   (\<forall>f \<in> snd ` set (claims fs). file_short jsz f) \<Longrightarrow>
   int (Sent res + size (claims_ms (claims fs))) < budget \<Longrightarrow>
   \<exists>w'. drain_paths jsz log_one log_batch io budget ps fs w res =
     (fs\<lparr>claims := []\<rparr>, w', \<lparr>Sent = Sent res + size (claims_ms (claims fs)),
        Skipped = Skipped res + gomap_sum unreadable (claims fs)\<rparr>, None)"
proof (induction ps arbitrary: fs w res)
  case Nil
  then have "claims fs = []" by simp
  then show ?case by (cases fs; cases res) (simp add: claims_ms_def)
next
  case (Cons p ps)
  from Cons.prems(5) have "p \<in> fst ` set (claims fs)" by auto
  then obtain f where mem: "(p, f) \<in> set (claims fs)" by force
  with Cons.prems(3) have f: "map_of (claims fs) p = Some f" by (simp add: gomap_wf_def)
  let ?cl = "AList.delete p (claims fs)"
  let ?fs = "fs\<lparr>claims := ?cl\<rparr>"
  let ?res = "\<lparr>Sent = Sent res + length (file_entries f), Skipped = Skipped res + unreadable f\<rparr>"
  have ms: "claims_ms (claims fs) = claims_ms ?cl + mset (file_entries f)"
    using claims_ms_delete [OF Cons.prems(3), of p] f by simp
  have un: "gomap_sum unreadable (claims fs) = gomap_sum unreadable ?cl + unreadable f"
    using gomap_sum_delete [OF Cons.prems(3), of unreadable p] f by simp
  from Cons.prems(7) ms have lt: "int (Sent res) < budget" "int (length (file_entries f)) \<le> budget - int (Sent res)"
    "int (Sent ?res + size (claims_ms (claims ?fs))) < budget" by auto
  have short: "file_short jsz f" using Cons.prems(6) mem by force
  from drainBatch_ok [OF Cons.prems(1) f short Cons.prems(2) lt(2)] obtain w1 where
    b: "drainBatch jsz log_one log_batch io p (budget - int (Sent res)) fs w =
      (?fs, w1, \<lparr>Sent = length (file_entries f), Skipped = unreadable f\<rparr>, None)" "ok w1" by blast
  have "fst ` set ?cl = fst ` set (claims fs) - {p}" by (metis delete_keys set_map set_removeAll)
  with Cons.prems(4,5) have keys: "set ps = fst ` set (claims ?fs)" by auto
  have shorts: "\<forall>f \<in> snd ` set (claims ?fs). file_short jsz f"
    using Cons.prems(6) by (auto simp: AList.delete_eq)
  from Cons.IH [OF b(2) Cons.prems(2) _ _ keys shorts lt(3)] Cons.prems(3,4) b(1) lt(1) ms un
  show ?case by auto
qed

lemma Drain_ok:
  assumes "ok w" "drain_io_ok io" "gomap_wf (claims fs)" "fresh_claim io fs"
    and "\<forall>f \<in> set_option (live fs) \<union> snd ` set (claims fs). file_short jsz f"
    and "int (size (pending_ms fs)) < drain_budget cfg"
  shows "\<exists>w' res. Drain jsz cfg log_one log_batch io fs w = (\<lparr>live = None, claims = []\<rparr>, w', res, None) \<and>
    Sent res = size (pending_ms fs) \<and>
    Skipped res = gomap_sum unreadable (claims fs) + (case live fs of None \<Rightarrow> 0 | Some f \<Rightarrow> unreadable f)"
proof -
  let ?none = "\<lparr>Sent = 0, Skipped = 0 :: nat\<rparr>"
  have bs: "distinct (batches fs)" "set (batches fs) = fst ` set (claims fs)"
    using assms(3) by (auto simp: batches_def gomap_wf_def)
  from assms(2) obtain name where io: "di_glob io = None" "di_stat io = None" "di_temp io = Inr name"
    "di_rename io = None" by (auto simp: drain_io_ok_def)
  show ?thesis
  proof (cases "live fs")
    case None
    have D: "Drain jsz cfg log_one log_batch io fs w =
        drain_paths jsz log_one log_batch io (drain_budget cfg) (batches fs) fs w ?none"
      using None io by (simp add: Drain_def claim_def)
    have p: "pending_ms fs = claims_ms (claims fs)" using None by (simp add: pending_ms_def)
    have e: "fs\<lparr>claims := []\<rparr> = \<lparr>live = None, claims = []\<rparr>" using None by (cases fs) simp
    from drain_paths_ok [OF assms(1,2,3) bs, of jsz ?none "drain_budget cfg"] assms(5,6) None
    show ?thesis unfolding D e [symmetric] by (auto simp: p)
  next
    case (Some f)
    let ?fs = "fs\<lparr>live := None, claims := AList.update name f (claims fs)\<rparr>"
    have new: "map_of (claims fs) name = None" using assms(4) io(3) by (simp add: fresh_claim_def)
    then have notin: "name \<notin> fst ` set (claims fs)" by (simp add: map_of_eq_None_iff)
    have D: "Drain jsz cfg log_one log_batch io fs w =
        drain_paths jsz log_one log_batch io (drain_budget cfg) (batches fs @ [name]) ?fs w ?none"
      using Some io by (simp add: Drain_def claim_def)
    have p: "pending_ms fs = claims_ms (claims ?fs)"
      using Some claims_ms_new [OF assms(3) new] by (simp add: pending_ms_def ac_simps)
    have u: "gomap_sum unreadable (claims ?fs) = gomap_sum unreadable (claims fs) + unreadable f"
      using gomap_sum_new [OF assms(3) new] by simp
    have keys: "distinct (batches fs @ [name])" "set (batches fs @ [name]) = fst ` set (claims ?fs)"
      using bs notin by (simp_all add: dom_update)
    have shorts: "\<forall>g \<in> snd ` set (claims ?fs). file_short jsz g"
      using assms(5) Some assms(3) by (auto simp: gomap_mem_iff split: if_splits)
    have e: "?fs\<lparr>claims := []\<rparr> = \<lparr>live = None, claims = []\<rparr>" by (cases fs) simp
    from drain_paths_ok [OF assms(1,2) _ keys shorts, of ?none "drain_budget cfg"] assms(3,6) p u Some
    show ?thesis unfolding D e [symmetric] by auto
  qed
qed

end

text \<open>C5: a drain over a working database catches up. When the file system and the database answer
  every call, no line exceeds the reader's limit and the backlog is below the per-call budget,
  the drain succeeds, leaves no spool file and no claim file behind, lands every waiting record
  exactly once, and reports exactly how many lines it had to drop as unreadable.\<close>

theorem Drain_catches_up:
  assumes "answers_all c" "drain_io_ok io" "gomap_wf (claims fs)" "fresh_claim io fs"
    and "\<forall>f \<in> set_option (live fs) \<union> snd ` set (claims fs). file_short jsz f"
    and "int (size (pending_ms fs)) < drain_budget cfg"
  shows "\<exists>c' res new. Drain jsz cfg store_LogAccess (Some store_LogAccessBatch) io fs c =
      (\<lparr>live = None, claims = []\<rparr>, c', res, None) \<and>
    pg_rows c' = pg_rows c @ map accessArgs new \<and> mset new = pending_ms fs \<and>
    Sent res = size (pending_ms fs) \<and>
    Skipped res = gomap_sum unreadable (claims fs) + (case live fs of None \<Rightarrow> 0 | Some f \<Rightarrow> unreadable f)"
proof -
  let ?empty = "\<lparr>live = None, claims = []\<rparr> :: spool_fs"
  from store_reliable.Drain_ok [OF assms] obtain c' res where
    d: "Drain jsz cfg store_LogAccess (Some store_LogAccessBatch) io fs c = (?empty, c', res, None)"
    and n: "Sent res = size (pending_ms fs)" "Skipped res = gomap_sum unreadable (claims fs) +
        (case live fs of None \<Rightarrow> 0 | Some f \<Rightarrow> unreadable f)" by blast
  from store_sink.Drain_conserves [OF d assms(3,4)] assms(2) obtain new where
    rows: "pg_rows c' = pg_rows c @ map accessArgs new" "pending_ms fs = pending_ms ?empty + mset new"
    by (auto simp: drain_io_ok_def)
  have "pending_ms ?empty = {#}" by (simp add: pending_ms_def claims_ms_def)
  with rows have "mset new = pending_ms fs" by simp
  with d n rows(1) show ?thesis by blast
qed

theorem Drain_catches_up_witness:
  "\<exists>c' res. Drain (\<lambda>l. 100) spool_sample_cfg store_LogAccess (Some store_LogAccessBatch)
      (io_all_ok ''a.claim'') sample_fs fresh_conn = (\<lparr>live = None, claims = []\<rparr>, c', res, None) \<and>
    Sent res = 1"
proof -
  have p: "size (pending_ms sample_fs) = 1"
    by (simp add: sample_fs_def pending_ms_def claims_ms_def)
  have b: "int (size (pending_ms sample_fs)) < drain_budget spool_sample_cfg"
    unfolding p by (simp add: drain_budget_def maxDrainPerCall_def spool_sample_cfg_def)
  have "answers_all fresh_conn" "drain_io_ok (io_all_ok ''a.claim'')" "gomap_wf (claims sample_fs)"
    "fresh_claim (io_all_ok ''a.claim'') sample_fs"
    "\<forall>f \<in> set_option (live sample_fs) \<union> snd ` set (claims sample_fs). file_short (\<lambda>l. 100) f"
    by (simp_all add: answers_all_def fresh_conn_def drain_io_ok_def io_all_ok_def fs_io_ok_def
        sample_fs_def fresh_claim_def file_short_def encode_def line_bytes_def maxToken_def
        tail_lines_def)
  from Drain_catches_up [OF this b] p show ?thesis by auto
qed

section \<open>Torn writes\<close>

definition stamped :: "gotime \<Rightarrow> access_entry \<Rightarrow> access_entry" where
  "stamped now e = (if time_is_zero (SignedAt e) then e\<lparr>SignedAt := now\<rparr> else e)"

lemma file_entries_append_line:
  "sf_tail f = NoTail \<Longrightarrow> file_entries (append_line jsz (toLine e) f) = file_entries f @ [e]"
  by (simp add: append_line_def file_entries_def tail_lines_def List.map_filter_simps)

lemma pending_live:
  "pending_ms (fs\<lparr>live := Some f\<rparr>) = mset (file_entries f) + claims_ms (claims fs)"
  "pending_ms fs = mset (file_entries (live_or_new fs)) + claims_ms (claims fs)"
  by (simp_all add: pending_ms_def live_or_new_def file_entries_def tail_lines_def
      List.map_filter_simps split: option.splits)

text \<open>What a torn write costs. If an earlier append was cut short, so that the live file ends in an
  unterminated fragment, the next append writes its record onto the same line: the append is
  acknowledged, the record is not among those waiting, and the line is dropped as unreadable when
  the file is drained. One torn write loses two records, not one.\<close>

theorem append_after_torn_write_is_lost:
  assumes "live fs = Some f" "sf_tail f = Fragment n"
    and "Append jsz cfg io now e fs = (fs', None)"
  shows "pending_ms fs' = pending_ms fs \<and>
    (\<exists>f'. live fs' = Some f' \<and> sf_tail f' = NoTail \<and> unreadable f' = unreadable f)"
proof -
  have bad: "decodeLine (JBad k) = None" for k by (simp add: decodeLine_def)
  have fs': "fs' = fs\<lparr>live := Some (append_line jsz (toLine (stamped now e)) f)\<rparr>"
    using assms(1,3) unfolding Append_def stamped_def [symmetric]
    by (auto simp: Let_def live_or_new_def split: if_splits option.splits sum.splits)
  have "file_entries (append_line jsz l f) = file_entries f" for l
    using assms(2) by (simp add: append_line_def file_entries_def tail_lines_def List.map_filter_simps bad)
  moreover have "unreadable (append_line jsz l f) = unreadable f" for l
    using assms(2) by (simp add: append_line_def unreadable_def tail_lines_def bad)
  moreover have "sf_tail (append_line jsz l f) = NoTail" for l
    using assms(2) by (simp add: append_line_def)
  ultimately show ?thesis using assms(1) by (simp add: fs' pending_ms_def)
qed

theorem append_after_torn_write_is_lost_witness:
  "\<exists>fs'. Append (\<lambda>l. 100) spool_sample_cfg append_ok 9 sample_entry
      \<lparr>live = Some \<lparr>sf_lines = [], sf_tail = Fragment 40\<rparr>, claims = []\<rparr> = (fs', None) \<and> pending_ms fs' = {#}"
proof -
  let ?f = "\<lparr>sf_lines = [], sf_tail = Fragment 40\<rparr>"
  let ?fs = "\<lparr>live = Some ?f, claims = []\<rparr>"
  obtain fs' where a: "Append (\<lambda>l. 100) spool_sample_cfg append_ok 9 sample_entry ?fs = (fs', None)"
    by (simp add: Append_def spool_sample_cfg_def append_ok_def atCap_def spool_bytes_def all_paths_def
        batches_def read_file_def file_size_def tail_bytes_def)
  have "pending_ms ?fs = {#}"
    by (simp add: pending_ms_def claims_ms_def file_entries_def tail_lines_def decodeLine_def
        List.map_filter_simps)
  with append_after_torn_write_is_lost [of ?fs ?f 40, OF _ _ a] a show ?thesis by simp
qed

section \<open>The app's write path\<close>

text \<open>\<^verbatim>\<open>App.LogAccess\<close>: write the row, or queue it when the store cannot be opened or the insert
  fails; after a successful write, replay the backlog. The answer is a logged row, a
  \<^verbatim>\<open>SpooledError\<close> with the number of waiting records, or the database error of a record that
  could not be queued either.\<close>

datatype log_result = Logged | Spooled goerror nat | Lost goerror

definition spoolAccess ::
  "(spool_line \<Rightarrow> nat) \<Rightarrow> spool_cfg \<Rightarrow> append_io \<Rightarrow> (string option \<Rightarrow> goerror option) \<Rightarrow> gotime \<Rightarrow>
     access_entry \<Rightarrow> goerror \<Rightarrow> spool_fs \<Rightarrow> spool_fs \<times> log_result" where
  "spoolAccess jsz cfg io openErr now e cause fs =
     (case Append jsz cfg io now e fs of
        (fs', Some _) \<Rightarrow> (fs', Lost cause)
      | (fs', None) \<Rightarrow> (fs', Spooled cause (fst (Pending jsz None openErr fs'))))"

definition drainSpool ::
  "(spool_line \<Rightarrow> nat) \<Rightarrow> spool_cfg \<Rightarrow> goerror option \<Rightarrow> drain_io \<Rightarrow> spool_fs \<Rightarrow> pg_conn \<Rightarrow>
     spool_fs \<times> pg_conn \<times> (drain_result \<times> goerror option) option" where
  "drainSpool jsz cfg statErr io fs c =
     (case HasBacklog jsz statErr fs of
        Inl _ \<Rightarrow> (fs, c, None)
      | Inr has \<Rightarrow>
          if \<not> has then (fs, c, None)
          else (case Drain jsz cfg store_LogAccess (Some store_LogAccessBatch) io fs c of
                  (fs', c', res, err) \<Rightarrow>
                    (fs', c', if Sent res > 0 \<or> Skipped res > 0 \<or> err \<noteq> None then Some (res, err) else None)))"

definition app_LogAccess ::
  "(spool_line \<Rightarrow> nat) \<Rightarrow> spool_cfg \<Rightarrow> append_io \<Rightarrow> (string option \<Rightarrow> goerror option) \<Rightarrow> goerror option \<Rightarrow>
     drain_io \<Rightarrow> goerror option \<Rightarrow> gotime \<Rightarrow> access_entry \<Rightarrow> spool_fs \<Rightarrow> pg_conn \<Rightarrow>
     spool_fs \<times> pg_conn \<times> log_result" where
  "app_LogAccess jsz cfg aio openErr statErr dio storeErr now e fs c =
     (case storeErr of
        Some err \<Rightarrow> (case spoolAccess jsz cfg aio openErr now e err fs of (fs', r) \<Rightarrow> (fs', c, r))
      | None \<Rightarrow>
          (case store_LogAccess c e of
             (c', Some err) \<Rightarrow>
               (case spoolAccess jsz cfg aio openErr now e err fs of (fs', r) \<Rightarrow> (fs', c', r))
           | (c', None) \<Rightarrow>
               (case drainSpool jsz cfg statErr dio fs c' of (fs', c'', _) \<Rightarrow> (fs', c'', Logged))))"

lemma spoolAccess_spooled:
  assumes "spoolAccess jsz cfg io openErr now e cause fs = (fs', Spooled err n)"
    and "sf_tail (live_or_new fs) = NoTail"
  shows "pending_ms fs' = pending_ms fs + {#stamped now e#} \<and> err = cause"
proof -
  from assms(1) have a: "Append jsz cfg io now e fs = (fs', None)" and "err = cause"
    by (auto simp: spoolAccess_def split: prod.splits option.splits)
  have "fs' = fs\<lparr>live := Some (append_line jsz (toLine (stamped now e)) (live_or_new fs))\<rparr>"
    using a unfolding Append_def stamped_def [symmetric]
    by (auto simp: Let_def split: if_splits option.splits sum.splits)
  with assms(2) \<open>err = cause\<close> pending_live(2) [of fs] show ?thesis
    by (simp add: pending_live(1) file_entries_append_line)
qed

text \<open>The access log tells the caller the truth. A call that reports success has put the row in
  the access log before anything else it did; a call that reports the record as pending has added
  exactly that record, stamped with the time of the connection, to what is waiting (the live file
  being unbroken); and no call changes rows already in the log.\<close>

theorem app_LogAccess_truthful:
  assumes "app_LogAccess jsz cfg aio openErr statErr dio storeErr now e fs c = (fs', c', r)"
    and "gomap_wf (claims fs)" "fresh_claim dio fs" "sf_tail (live_or_new fs) = NoTail"
  shows "(\<exists>new. pg_rows c' = pg_rows c @ new \<and>
      (case r of
         Logged \<Rightarrow> new \<noteq> [] \<and> hd new = accessArgs e
       | Spooled cause n \<Rightarrow> new = [] \<and> pending_ms fs' = pending_ms fs + {#stamped now e#}
       | Lost cause \<Rightarrow> new = []))"
proof -
  have sp: "r \<noteq> Logged \<and> (case r of Logged \<Rightarrow> False
      | Spooled cause n \<Rightarrow> pending_ms fs' = pending_ms fs + {#stamped now e#} | Lost _ \<Rightarrow> True)"
    if "spoolAccess jsz cfg aio openErr now e err fs = (fs', r)" for err
  proof (cases r)
    case Logged
    with that show ?thesis by (auto simp: spoolAccess_def split: prod.splits option.splits)
  next
    case (Spooled cause n)
    with spoolAccess_spooled [OF that [unfolded Spooled] assms(4)] show ?thesis by simp
  qed simp
  show ?thesis
  proof (cases "storeErr = None \<and> snd (store_LogAccess c e) = None")
    case False
    then obtain err where "spoolAccess jsz cfg aio openErr now e err fs = (fs', r)" "pg_rows c' = pg_rows c"
      using assms(1)
      by (auto simp: app_LogAccess_def store_LogAccess_def split: option.splits prod.splits)
    with sp [of err] show ?thesis by (auto split: log_result.splits)
  next
    case True
    then obtain c1 where one: "store_LogAccess c e = (c1, None)" by (cases "store_LogAccess c e") auto
    then have r1: "pg_rows c1 = pg_rows c @ [accessArgs e]" by (rule store_sink.one_lands)
    have r: "r = Logged" and d: "\<exists>x. drainSpool jsz cfg statErr dio fs c1 = (fs', c', x)"
      using assms(1) True one by (auto simp: app_LogAccess_def split: prod.splits)
    from d have "\<exists>new. pg_rows c' = pg_rows c1 @ new"
      using store_sink.Drain_conserves [OF _ assms(2,3)]
      by (fastforce simp: drainSpool_def split: sum.splits if_splits prod.splits)
    with r r1 show ?thesis by auto
  qed
qed

theorem app_LogAccess_truthful_witness:
  "\<exists>fs' n. app_LogAccess (\<lambda>l. 100) spool_sample_cfg append_ok (\<lambda>p. None) None (io_all_ok ''a.claim'')
      (Some (Plain ''connection refused'')) 9 sample_entry \<lparr>live = None, claims = []\<rparr> fresh_conn =
      (fs', fresh_conn, Spooled (Plain ''connection refused'') n) \<and> pending_ms fs' = {#sample_entry#}"
proof -
  let ?fs = "\<lparr>live = None, claims = []\<rparr> :: spool_fs"
  obtain fs' n where l: "app_LogAccess (\<lambda>l. 100) spool_sample_cfg append_ok (\<lambda>p. None) None (io_all_ok ''a.claim'')
      (Some (Plain ''connection refused'')) 9 sample_entry ?fs fresh_conn =
      (fs', fresh_conn, Spooled (Plain ''connection refused'') n)"
    by (simp add: app_LogAccess_def spoolAccess_def Append_def spool_sample_cfg_def append_ok_def atCap_def
        spool_bytes_def all_paths_def batches_def read_file_def)
  from app_LogAccess_truthful [OF l]
  have "pending_ms fs' = pending_ms ?fs + {#stamped 9 sample_entry#}"
    by (simp add: fresh_claim_def live_or_new_def)
  with l show ?thesis
    by (simp add: pending_ms_def claims_ms_def stamped_def sample_entry_def time_is_zero_def)
qed

end
