(* ===== verification/Spool_Steps.thy ===== *)
theory Spool_Steps
  imports Audit_Spool
begin

text \<open>
  The calls of \<^verbatim>\<open>internal/auditspool/auditspool.go\<close> cut at each system call and each round trip to the database, for any number of
  processes. Files are inodes, the live spool and the claims are names for them: a process that has opened the
  live file goes on writing to it whatever becomes of its name. \<open>Append\<close> and \<open>Drain\<close> of \<open>Audit_Spool\<close> are what one call does when nobody
  interferes.

  Every record written whole has the number of its write; a line carries the number of the record it holds, and a row of the access log the
  number of the record it was sent for. Numbers are for the statements only. Every call may fail, and an insert whose reply is an error may have landed all the same.

  The code keeps a record safe under a discipline of the interleaving that it does not enforce: no claim renames the live file while an append
  holds it open, no drain lists the claims while another has reserved a name and not yet renamed onto it, a reserved name is never drawn a second time,
  and no write is torn. Under it no record is lost; two runs outside it lose an acknowledged record.
\<close>

section \<open>Files by inode\<close>

record nfile =
  nf_lines :: "(nat option \<times> jline) list"
  nf_tail :: tail

type_synonym nentry = "nat option \<times> access_entry"

definition decode_numbered :: "nat option \<times> jline \<Rightarrow> nentry option" where
  "decode_numbered nl = map_option (Pair (fst nl)) (decodeLine (snd nl))"

definition nf_entries :: "nfile \<Rightarrow> nentry list" where
  "nf_entries f = List.map_filter decode_numbered (nf_lines f @ map (Pair None) (tail_lines (nf_tail f)))"

definition plain :: "nfile \<Rightarrow> spool_file" where
  "plain f = \<lparr>sf_lines = map snd (nf_lines f), sf_tail = nf_tail f\<rparr>"

definition empty_file :: nfile where
  "empty_file = \<lparr>nf_lines = [], nf_tail = NoTail\<rparr>"

definition write_record :: "(spool_line \<Rightarrow> nat) \<Rightarrow> nat \<Rightarrow> access_entry \<Rightarrow> nfile \<Rightarrow> nfile" where
  "write_record jsz n e f = (if nf_tail f = NoTail then f \<lparr>nf_lines := nf_lines f @ [(Some n, JLine (toLine e))]\<rparr>
     else \<lparr>nf_lines = nf_lines f @ [(None, JBad (tail_bytes jsz (nf_tail f) + jsz (toLine e)))], nf_tail = NoTail\<rparr>)"

definition write_part :: "(spool_line \<Rightarrow> nat) \<Rightarrow> tail \<Rightarrow> nfile \<Rightarrow> nfile" where
  "write_part jsz t f = f \<lparr>nf_tail := sf_tail (leave_tail jsz t (plain f))\<rparr>"

definition encode_numbered :: "nentry list \<Rightarrow> nfile" where
  "encode_numbered es = \<lparr>nf_lines = map (\<lambda>(n, e). (n, JLine (toLine e))) es, nf_tail = NoTail\<rparr>"

lemma decode_numbered_line [simp]: "decode_numbered (n, JLine (toLine e)) = Some (n, e)"
  by (simp add: decode_numbered_def)

lemma nf_entries_empty [simp]: "nf_entries empty_file = []"
  by (simp add: nf_entries_def empty_file_def tail_lines_def List.map_filter_simps)

lemma nf_entries_write [simp]: "nf_tail f = NoTail \<Longrightarrow> nf_entries (write_record jsz n e f) = nf_entries f @ [(Some n, e)]"
  by (simp add: nf_entries_def write_record_def tail_lines_def List.map_filter_simps)

lemma nf_entries_encode [simp]: "nf_entries (encode_numbered es) = es"
  by (induction es) (auto simp: nf_entries_def encode_numbered_def tail_lines_def List.map_filter_simps)

lemma nf_tails [simp]: "nf_tail empty_file = NoTail" "nf_tail (write_record jsz n e f) = NoTail" "nf_tail (encode_numbered es) = NoTail"
    "nf_tail (write_part jsz NoTail f) = nf_tail f" "nf_entries (write_part jsz NoTail f) = nf_entries f"
  by (simp_all add: empty_file_def write_record_def encode_numbered_def write_part_def leave_tail_def plain_def nf_entries_def)

text \<open>The records are those of the file, and writing is the writing of \<open>Audit_Spool\<close>.\<close>

lemma nf_entries_plain: "map snd (nf_entries f) = file_entries (plain f)"
proof -
  have "map snd (List.map_filter decode_numbered xs) = List.map_filter decodeLine (map snd xs)" for xs
    by (induction xs) (auto simp: List.map_filter_simps decode_numbered_def split: option.splits)
  then show ?thesis by (simp add: nf_entries_def file_entries_def plain_def comp_def)
qed

lemma plain_write: "plain (write_record jsz n e f) = append_line jsz (toLine e) (plain f)"
  by (cases "nf_tail f") (simp_all add: plain_def write_record_def append_line_def)

lemma plain_encode: "plain (encode_numbered es) = encode (map snd es)"
  by (simp add: plain_def encode_numbered_def encode_def case_prod_unfold comp_def)

section \<open>Where a process stands\<close>

datatype spool_pc =
    Idle
  | AOpen access_entry \<comment> \<open>an append past its checks, before \<open>OpenFile\<close>\<close>
  | AWrite nat access_entry \<comment> \<open>the inode it holds open\<close>
  | ASync nat \<comment> \<open>the number of the record it wrote\<close>
  | DStat "string list" \<comment> \<open>a drain, with the claims it listed\<close>
  | DTemp "string list"
  | DRename "string list" string
  | DUnplace bool "string list" string
  | DNext "string list" nat \<comment> \<open>the batches left, and what was sent\<close>
  | DSend string "nentry list" nat nat "string list" nat
      \<comment> \<open>the batch, what was loaded of it, how much of that is sent, how much may be, and as before\<close>
  | DRewrite string "nentry list" nat bool "string list" nat \<comment> \<open>whether the drain goes on after\<close>
  | DRemove string "nentry list" "string list" nat

record spool_world =
  sw_file :: "nat \<Rightarrow> nfile"
  sw_next :: nat \<comment> \<open>the next inode\<close>
  sw_live :: "nat option"
  sw_claims :: "string \<Rightarrow> nat option"
  sw_used :: "string set" \<comment> \<open>the names ever reserved\<close>
  sw_rows :: "(nat option \<times> access_row) list"
  sw_written :: "access_entry list" \<comment> \<open>the records written whole, by number\<close>
  sw_acked :: "nat set"
  sw_pc :: "nat \<Rightarrow> spool_pc"

definition budget_left :: "spool_cfg \<Rightarrow> nat \<Rightarrow> nat" where
  "budget_left cfg sent = nat (drain_budget cfg - int sent)"

definition load_numbered :: "(spool_line \<Rightarrow> nat) \<Rightarrow> nfile option \<Rightarrow> nentry list option" where
  \<comment> \<open>\<^const>\<open>None\<close> when a line is too long for the scanner\<close>
  "load_numbered jsz f = (case f of None \<Rightarrow> Some []
     | Some g \<Rightarrow> (case load jsz None (Some (plain g)) of (_, _, None) \<Rightarrow> Some (nf_entries g) | _ \<Rightarrow> None))"

definition loaded :: "spool_cfg \<Rightarrow> string \<Rightarrow> nentry list \<Rightarrow> string list \<Rightarrow> nat \<Rightarrow> spool_pc" where
  "loaded cfg p es ps sent = (if es = [] then DRemove p es ps sent else DSend p es 0 (min (length es) (budget_left cfg sent)) ps sent)"

definition chunk_of :: "nentry list \<Rightarrow> nat \<Rightarrow> nat \<Rightarrow> nentry list" where
  "chunk_of es k m = take replayChunk (drop k (take m es))"

definition sent_ok :: "string \<Rightarrow> nentry list \<Rightarrow> nat \<Rightarrow> nat \<Rightarrow> string list \<Rightarrow> nat \<Rightarrow> spool_pc" where
  "sent_ok p es k m ps sent = (let k' = k + length (chunk_of es k m) in
     if k' < m then DSend p es k' m ps sent
     else if k' < length es then DRewrite p es k' True ps sent
     else DRemove p es ps sent)"

definition land :: "spool_world \<Rightarrow> nentry list \<Rightarrow> spool_world" where
  "land w es = w \<lparr>sw_rows := sw_rows w @ map (\<lambda>(n, e). (n, accessArgs e)) es\<rparr>"

definition at :: "spool_world \<Rightarrow> nat \<Rightarrow> spool_pc \<Rightarrow> spool_world" where
  "at w q pc = w \<lparr>sw_pc := (sw_pc w)(q := pc)\<rparr>"

definition set_file :: "spool_world \<Rightarrow> nat \<Rightarrow> nfile \<Rightarrow> spool_world" where
  "set_file w i f = w \<lparr>sw_file := (sw_file w)(i := f)\<rparr>"

definition new_file :: "spool_world \<Rightarrow> nfile \<Rightarrow> spool_world" where
  "new_file w f = w \<lparr>sw_file := (sw_file w)(sw_next w := f), sw_next := Suc (sw_next w)\<rparr>"

definition bind_claim :: "spool_world \<Rightarrow> string \<Rightarrow> nat option \<Rightarrow> spool_world" where
  "bind_claim w p i = w \<lparr>sw_claims := (sw_claims w)(p := i)\<rparr>"

section \<open>Steps\<close>

text \<open>A step is disciplined or not, by the flag.\<close>

inductive spool_step :: "(spool_line \<Rightarrow> nat) \<Rightarrow> spool_cfg \<Rightarrow> bool \<Rightarrow> spool_world \<Rightarrow> spool_world \<Rightarrow> bool" for jsz cfg where
  append_begins: "sw_pc w q = Idle \<Longrightarrow> spool_step jsz cfg True w (at w q (AOpen (stamped now e)))"
| open_fails: "sw_pc w q = AOpen e \<Longrightarrow> spool_step jsz cfg True w (at w q Idle)"
| open_finds: "sw_pc w q = AOpen e \<Longrightarrow> sw_live w = Some i \<Longrightarrow> spool_step jsz cfg True w (at w q (AWrite i e))"
| open_creates: "sw_pc w q = AOpen e \<Longrightarrow> sw_live w = None \<Longrightarrow>
    spool_step jsz cfg True w (at ((new_file w empty_file) \<lparr>sw_live := Some (sw_next w)\<rparr>) q (AWrite (sw_next w) e))"
| write_whole: "sw_pc w q = AWrite i e \<Longrightarrow>
    spool_step jsz cfg True w
      (at ((set_file w i (write_record jsz (length (sw_written w)) e (sw_file w i))) \<lparr>sw_written := sw_written w @ [e]\<rparr>) q (ASync (length (sw_written w))))"
| write_fails: "sw_pc w q = AWrite i e \<Longrightarrow> spool_step jsz cfg (t = NoTail) w (at (set_file w i (write_part jsz t (sw_file w i))) q Idle)"
| sync_ok: "sw_pc w q = ASync n \<Longrightarrow> spool_step jsz cfg True w (at (w \<lparr>sw_acked := insert n (sw_acked w)\<rparr>) q Idle)"
| sync_fails: "sw_pc w q = ASync n \<Longrightarrow> spool_step jsz cfg True w (at w q Idle)"
| glob: "sw_pc w q = Idle \<Longrightarrow> set ps = dom (sw_claims w) \<Longrightarrow> sorted ps \<Longrightarrow> distinct ps \<Longrightarrow>
    spool_step jsz cfg (\<forall>q' ps' p. sw_pc w q' \<noteq> DRename ps' p) w (at w q (DStat ps))"
| stat_none: "sw_pc w q = DStat ps \<Longrightarrow> sw_live w = None \<Longrightarrow> spool_step jsz cfg True w (at w q (DNext ps 0))"
| stat_some: "sw_pc w q = DStat ps \<Longrightarrow> sw_live w = Some i \<Longrightarrow> spool_step jsz cfg True w (at w q (DTemp ps))"
| stat_fails: "sw_pc w q = DStat ps \<Longrightarrow> spool_step jsz cfg True w (at w q Idle)"
| temp_ok: "sw_pc w q = DTemp ps \<Longrightarrow> sw_claims w p = None \<Longrightarrow>
    spool_step jsz cfg (p \<notin> sw_used w) w
      (at (bind_claim ((new_file w empty_file) \<lparr>sw_used := insert p (sw_used w)\<rparr>) p (Some (sw_next w))) q (DRename ps p))"
| temp_fails: "sw_pc w q = DTemp ps \<Longrightarrow> spool_step jsz cfg True w (at w q Idle)"
| rename_ok: "sw_pc w q = DRename ps p \<Longrightarrow> sw_live w = Some i \<Longrightarrow>
    spool_step jsz cfg (\<forall>q' j e. sw_pc w q' \<noteq> AWrite j e) w
      (at (bind_claim (w \<lparr>sw_live := None\<rparr>) p (Some i)) q (DNext (ps @ [p]) 0))"
| rename_gone: "sw_pc w q = DRename ps p \<Longrightarrow> sw_live w = None \<Longrightarrow> spool_step jsz cfg True w (at w q (DUnplace True ps p))"
| rename_fails: "sw_pc w q = DRename ps p \<Longrightarrow> spool_step jsz cfg True w (at w q (DUnplace False ps p))"
| unplace_ok: "sw_pc w q = DUnplace gone ps p \<Longrightarrow>
    spool_step jsz cfg True w (at (bind_claim w p None) q (if gone then DNext ps 0 else Idle))"
| unplace_fails: "sw_pc w q = DUnplace gone ps p \<Longrightarrow> spool_step jsz cfg True w (at w q (if gone then DNext ps 0 else Idle))"
| drained: "sw_pc w q = DNext ps sent \<Longrightarrow> ps = [] \<or> drain_budget cfg \<le> int sent \<Longrightarrow> spool_step jsz cfg True w (at w q Idle)"
| load_ok: "sw_pc w q = DNext (p # ps) sent \<Longrightarrow> \<not> drain_budget cfg \<le> int sent \<Longrightarrow>
    load_numbered jsz (map_option (sw_file w) (sw_claims w p)) = Some es \<Longrightarrow> spool_step jsz cfg True w (at w q (loaded cfg p es ps sent))"
| load_fails: "sw_pc w q = DNext (p # ps) sent \<Longrightarrow> spool_step jsz cfg True w (at w q Idle)"
| insert_ok: "sw_pc w q = DSend p es k m ps sent \<Longrightarrow> spool_step jsz cfg True w (at (land w (chunk_of es k m)) q (sent_ok p es k m ps sent))"
| insert_lost: "sw_pc w q = DSend p es k m ps sent \<Longrightarrow> spool_step jsz cfg True w (at (land w (chunk_of es k m)) q (DRewrite p es k False ps sent))"
| insert_fails: "sw_pc w q = DSend p es k m ps sent \<Longrightarrow> spool_step jsz cfg True w (at w q (DRewrite p es k False ps sent))"
| rewrite_ok: "sw_pc w q = DRewrite p es k ok ps sent \<Longrightarrow>
    spool_step jsz cfg True w (at (bind_claim (new_file w (encode_numbered (drop k es))) p (Some (sw_next w))) q (if ok then DNext ps (sent + k) else Idle))"
| rewrite_fails: "sw_pc w q = DRewrite p es k ok ps sent \<Longrightarrow> spool_step jsz cfg True w (at w q Idle)"
| remove_ok: "sw_pc w q = DRemove p es ps sent \<Longrightarrow> spool_step jsz cfg True w (at (bind_claim w p None) q (DNext ps (sent + length es)))"
| remove_fails: "sw_pc w q = DRemove p es ps sent \<Longrightarrow> spool_step jsz cfg True w (at w q Idle)"

definition spool_start :: "spool_world \<Rightarrow> bool" where
  "spool_start w \<longleftrightarrow> sw_live w = None \<and> sw_claims w = Map.empty \<and> sw_used w = {} \<and> sw_written w = [] \<and> sw_acked w = {} \<and>
     (\<forall>q. sw_pc w q = Idle) \<and> (\<forall>i. nf_tail (sw_file w i) = NoTail)"

inductive spool_run :: "(spool_line \<Rightarrow> nat) \<Rightarrow> spool_cfg \<Rightarrow> bool \<Rightarrow> spool_world \<Rightarrow> spool_world \<Rightarrow> bool" for jsz cfg d w0 where
  here: "spool_run jsz cfg d w0 w0"
| more: "spool_run jsz cfg d w0 w \<Longrightarrow> spool_step jsz cfg b w w' \<Longrightarrow> d \<longrightarrow> b \<Longrightarrow> spool_run jsz cfg d w0 w'"

section \<open>The invariant\<close>

definition numbered :: "nentry list \<Rightarrow> (nat \<times> access_entry) set" where
  "numbered es = {(n, e). (Some n, e) \<in> set es}"

definition landed :: "spool_world \<Rightarrow> (nat \<times> access_entry) set" where
  "landed w = {(n, e). (Some n, accessArgs e) \<in> set (sw_rows w)}"

definition entries_in :: "spool_world \<Rightarrow> nat option \<Rightarrow> (nat \<times> access_entry) set" where
  "entries_in w i = (case i of None \<Rightarrow> {} | Some j \<Rightarrow> numbered (nf_entries (sw_file w j)))"

text \<open>What is waiting: the records of the live file and of every claim.\<close>

definition waiting :: "spool_world \<Rightarrow> (nat \<times> access_entry) set" where
  "waiting w = entries_in w (sw_live w) \<union> (\<Union>p. entries_in w (sw_claims w p))"

lemma numbered_simps [simp]: "numbered [] = {}" "numbered (a @ b) = numbered a \<union> numbered b" "numbered [(Some n, e)] = {(n, e)}"
  by (auto simp: numbered_def)

lemma numbered_take: "numbered (take k es) \<subseteq> numbered es" "numbered (drop k es) \<subseteq> numbered es"
  by (auto simp: numbered_def dest: in_set_takeD in_set_dropD)

lemma numbered_split: "numbered es = numbered (take k es) \<union> numbered (drop k es)"
  by (metis append_take_drop_id numbered_simps(2))

lemma entries_in_simps [simp]: "entries_in w None = {}" "entries_in w (Some j) = numbered (nf_entries (sw_file w j))"
  by (simp_all add: entries_in_def)

fun mentions :: "spool_pc \<Rightarrow> string set" where
  "mentions (DStat ps) = set ps"
| "mentions (DTemp ps) = set ps"
| "mentions (DRename ps p) = insert p (set ps)"
| "mentions (DUnplace g ps p) = insert p (set ps)"
| "mentions (DNext ps n) = set ps"
| "mentions (DSend p es k m ps n) = insert p (set ps)"
| "mentions (DRewrite p es k ok ps n) = insert p (set ps)"
| "mentions (DRemove p es ps n) = insert p (set ps)"
| "mentions _ = {}"

text \<open>\<open>orig p\<close> is what the claim of that name held when it was claimed. Of it, a process that has loaded the batch holds everything that has not
  landed, and what it has sent has landed.\<close>

type_synonym origin = "string \<Rightarrow> (nat \<times> access_entry) set"

fun sp_pc_ok :: "origin \<Rightarrow> nat option \<Rightarrow> nat \<Rightarrow> (nat \<times> access_entry) set \<Rightarrow> spool_pc \<Rightarrow> bool" where
  "sp_pc_ok orig lv n done_recs (AWrite i e) \<longleftrightarrow> lv = Some i"
| "sp_pc_ok orig lv n done_recs (ASync k) \<longleftrightarrow> k < n"
| "sp_pc_ok orig lv n done_recs (DRename ps p) \<longleftrightarrow> orig p = {} \<and> p \<notin> set ps"
| "sp_pc_ok orig lv n done_recs (DUnplace g ps p) \<longleftrightarrow> orig p = {}"
| "sp_pc_ok orig lv n done_recs (DSend p es k m ps s) \<longleftrightarrow> m \<le> length es \<and> numbered es \<subseteq> orig p \<and> orig p \<subseteq> numbered es \<union> done_recs \<and> numbered (take k es) \<subseteq> done_recs"
| "sp_pc_ok orig lv n done_recs (DRewrite p es k ok ps s) \<longleftrightarrow> numbered es \<subseteq> orig p \<and> orig p \<subseteq> numbered es \<union> done_recs \<and> numbered (take k es) \<subseteq> done_recs"
| "sp_pc_ok orig lv n done_recs (DRemove p es ps s) \<longleftrightarrow> orig p \<subseteq> done_recs"
| "sp_pc_ok orig lv n done_recs _ \<longleftrightarrow> True"

definition sp_base :: "origin \<Rightarrow> spool_world \<Rightarrow> bool" where
  "sp_base orig w \<longleftrightarrow> (\<forall>i. nf_tail (sw_file w i) = NoTail) \<and>
    (\<forall>i. sw_live w = Some i \<longrightarrow> i < sw_next w \<and> (\<forall>p. sw_claims w p \<noteq> Some i)) \<and>
    (\<forall>p i. sw_claims w p = Some i \<longrightarrow> i < sw_next w) \<and>
    (\<forall>p. p \<notin> sw_used w \<longrightarrow> sw_claims w p = None \<and> orig p = {}) \<and>
    (\<forall>p. entries_in w (sw_claims w p) \<subseteq> orig p \<and> orig p \<subseteq> entries_in w (sw_claims w p) \<union> landed w) \<and>
    (\<forall>n < length (sw_written w). (n, sw_written w ! n) \<in> entries_in w (sw_live w) \<union> (\<Union>p. orig p)) \<and>
    sw_acked w \<subseteq> {..<length (sw_written w)}"

definition sp_inv :: "origin \<Rightarrow> spool_world \<Rightarrow> bool" where
  "sp_inv orig w \<longleftrightarrow> sp_base orig w \<and>
    (\<forall>q. sp_pc_ok orig (sw_live w) (length (sw_written w)) (landed w) (sw_pc w q) \<and> mentions (sw_pc w q) \<subseteq> sw_used w) \<and>
    (\<forall>q ps p q'. sw_pc w q = DRename ps p \<longrightarrow> q' \<noteq> q \<longrightarrow> p \<notin> mentions (sw_pc w q'))"

lemma sp_pc_ok_mono:
  assumes "sp_pc_ok orig lv n d pc" "n \<le> n'" "d \<subseteq> d'" "\<And>i e. pc = AWrite i e \<Longrightarrow> lv' = lv" "\<And>p. p \<in> mentions pc \<Longrightarrow> orig' p = orig p"
  shows "sp_pc_ok orig' lv' n' d' pc"
  using assms by (cases pc) (simp_all, blast+)

text \<open>A process moves, and nobody comes to know a name he did not know; the others keep what they hold.\<close>

lemma sp_inv_move:
  assumes inv: "sp_inv orig w" and base: "sp_base orig' w'"
    and pcs: "sw_pc w' = (sw_pc w)(q := pc')" and used: "sw_used w \<subseteq> sw_used w'" "length (sw_written w) \<le> length (sw_written w')" "landed w \<subseteq> landed w'"
    and writers: "\<And>q' i e. q' \<noteq> q \<Longrightarrow> sw_pc w q' = AWrite i e \<Longrightarrow> sw_live w' = sw_live w"
    and origs: "\<And>q' p. q' \<noteq> q \<Longrightarrow> p \<in> mentions (sw_pc w q') \<Longrightarrow> orig' p = orig p"
    and here: "sp_pc_ok orig' (sw_live w') (length (sw_written w')) (landed w') pc'"
    and known: "mentions pc' \<subseteq> mentions (sw_pc w q)" "\<And>ps p. pc' \<noteq> DRename ps p"
  shows "sp_inv orig' w'"
  unfolding sp_inv_def
proof (intro conjI allI impI base)
  fix q'
  show "sp_pc_ok orig' (sw_live w') (length (sw_written w')) (landed w') (sw_pc w' q')"
  proof (cases "q' = q")
    case True
    then show ?thesis using here pcs by simp
  next
    case False
    have "sp_pc_ok orig' (sw_live w') (length (sw_written w')) (landed w') (sw_pc w q')"
      by (rule sp_pc_ok_mono [of orig "sw_live w" "length (sw_written w)" "landed w"]) (use inv used writers origs False in \<open>auto simp: sp_inv_def\<close>)
    then show ?thesis using False pcs by simp
  qed
  show "mentions (sw_pc w' q') \<subseteq> sw_used w'" using inv pcs used(1) known(1) by (cases "q' = q") (auto simp: sp_inv_def)
next
  fix a ps p b
  assume "sw_pc w' a = DRename ps p" "b \<noteq> a"
  with pcs known(2) have a: "a \<noteq> q" "sw_pc w a = DRename ps p" by (auto split: if_splits)
  with inv \<open>b \<noteq> a\<close> have "p \<notin> mentions (sw_pc w b)" "q \<noteq> a \<longrightarrow> p \<notin> mentions (sw_pc w q)" by (auto simp: sp_inv_def)
  with a(1) known(1) pcs show "p \<notin> mentions (sw_pc w' b)" by auto
qed

lemma at_simps [simp]:
  "sw_file (at w q pc) = sw_file w" "sw_next (at w q pc) = sw_next w" "sw_live (at w q pc) = sw_live w" "sw_claims (at w q pc) = sw_claims w"
  "sw_used (at w q pc) = sw_used w" "sw_rows (at w q pc) = sw_rows w" "sw_written (at w q pc) = sw_written w" "sw_acked (at w q pc) = sw_acked w"
  "sw_pc (at w q pc) = (sw_pc w)(q := pc)"
  by (simp_all add: at_def)

lemma at_views [simp]: "landed (at w q pc) = landed w" "entries_in (at w q pc) i = entries_in w i"
  by (simp_all add: landed_def entries_in_def split: option.splits)

lemma sp_base_at [simp]: "sp_base orig (at w q pc) = sp_base orig w"
  by (simp add: sp_base_def)

lemma sp_inv_at:
  assumes "sp_inv orig w" "sp_pc_ok orig (sw_live w) (length (sw_written w)) (landed w) pc'" "mentions pc' \<subseteq> mentions (sw_pc w q)" "\<And>ps p. pc' \<noteq> DRename ps p"
  shows "sp_inv orig (at w q pc')"
  by (rule sp_inv_move [OF assms(1), where q = q and pc' = pc']) (use assms in \<open>simp_all add: sp_inv_def\<close>)

lemma sp_inv_pc: "sp_inv orig w \<Longrightarrow> sw_pc w q = pc \<Longrightarrow> sp_pc_ok orig (sw_live w) (length (sw_written w)) (landed w) pc"
  by (auto simp: sp_inv_def)

lemma sp_inv_used: "sp_inv orig w \<Longrightarrow> sw_pc w q = pc \<Longrightarrow> mentions pc \<subseteq> sw_used w"
  by (auto simp: sp_inv_def)

lemma sp_inv_base: "sp_inv orig w \<Longrightarrow> sp_base orig w"
  by (simp add: sp_inv_def)

lemma sp_inv_start: "spool_start w \<Longrightarrow> sp_inv (\<lambda>p. {}) w"
  by (auto simp: sp_inv_def sp_base_def spool_start_def)

section \<open>What a step does to the files\<close>

lemma sp_base_write:
  assumes "sp_base orig w" "sw_live w = Some i"
  shows "sp_base orig ((set_file w i (write_record jsz (length (sw_written w)) e (sw_file w i))) \<lparr>sw_written := sw_written w @ [e]\<rparr>)" (is "sp_base orig ?w")
proof -
  have t: "nf_tail (sw_file w j) = NoTail" for j using assms(1) by (simp add: sp_base_def)
  have claim: "entries_in ?w (sw_claims w p) = entries_in w (sw_claims w p)" for p
    using assms by (auto simp: sp_base_def entries_in_def set_file_def split: option.splits)
  have l: "entries_in ?w (Some i) = insert (length (sw_written w), e) (entries_in w (Some i))" "landed ?w = landed w"
    using t by (auto simp: set_file_def landed_def)
  have "(n, (sw_written w @ [e]) ! n) \<in> entries_in ?w (Some i) \<union> (\<Union>p. orig p)" if "n < Suc (length (sw_written w))" for n
  proof (cases "n = length (sw_written w)")
    case False
    with that have "n < length (sw_written w)" by simp
    with assms have "(n, sw_written w ! n) \<in> entries_in w (Some i) \<union> (\<Union>p. orig p)" by (auto simp: sp_base_def)
    with False that l show ?thesis by (auto simp: nth_append)
  qed (use l in simp)
  moreover have "entries_in w (sw_claims w p) \<subseteq> orig p \<and> orig p \<subseteq> entries_in w (sw_claims w p) \<union> landed w" for p
    using assms(1) by (simp add: sp_base_def)
  moreover have "sw_acked w \<subseteq> {..<Suc (length (sw_written w))}" using assms(1) by (auto simp: sp_base_def)
  ultimately show ?thesis using assms t claim l by (simp add: sp_base_def) (simp add: set_file_def)
qed

lemma sp_base_part:
  assumes "sp_base orig w"
  shows "sp_base orig (set_file w i (write_part jsz NoTail (sw_file w i)))" (is "sp_base orig ?w")
proof -
  have "entries_in ?w j = entries_in w j" for j by (auto simp: entries_in_def set_file_def split: option.splits)
  moreover have "landed ?w = landed w" by (simp add: landed_def set_file_def)
  moreover have "nf_tail (sw_file ?w j) = NoTail" for j using assms by (simp add: set_file_def sp_base_def)
  ultimately show ?thesis using assms by (simp add: sp_base_def) (simp add: set_file_def)
qed

lemma sp_base_new:
  assumes "sp_base orig w" "nf_tail f = NoTail"
  shows "sp_base orig (new_file w f)" "landed (new_file w f) = landed w" "entries_in (new_file w f) (sw_claims w p) = entries_in w (sw_claims w p)"
    "entries_in (new_file w f) (sw_live w) = entries_in w (sw_live w)"
proof -
  show l: "landed (new_file w f) = landed w" by (simp add: landed_def new_file_def)
  show c: "entries_in (new_file w f) (sw_claims w p) = entries_in w (sw_claims w p)" for p
    using assms(1) by (cases "sw_claims w p") (auto simp: sp_base_def new_file_def)
  show v: "entries_in (new_file w f) (sw_live w) = entries_in w (sw_live w)"
    using assms(1) by (cases "sw_live w") (auto simp: sp_base_def new_file_def)
  have s: "sw_claims (new_file w f) = sw_claims w" "sw_live (new_file w f) = sw_live w" "sw_written (new_file w f) = sw_written w"
      "sw_used (new_file w f) = sw_used w" "sw_acked (new_file w f) = sw_acked w" by (simp_all add: new_file_def)
  have "nf_tail (sw_file (new_file w f) i) = NoTail" for i using assms by (simp add: new_file_def sp_base_def)
  moreover have "i < sw_next w \<Longrightarrow> i < sw_next (new_file w f)" for i by (simp add: new_file_def)
  ultimately show "sp_base orig (new_file w f)" using assms(1) unfolding sp_base_def s l c v by blast
qed

lemma sp_base_open:
  assumes "sp_base orig w" "sw_live w = None"
  shows "sp_base orig ((new_file w empty_file) \<lparr>sw_live := Some (sw_next w)\<rparr>)" (is "sp_base orig ?w")
proof -
  note n = sp_base_new [OF assms(1) nf_tails(1)]
  have "entries_in ?w i = entries_in (new_file w empty_file) i" for i by (simp add: entries_in_def split: option.splits)
  moreover have "landed ?w = landed (new_file w empty_file)" by (simp add: landed_def)
  moreover have "entries_in (new_file w empty_file) (Some (sw_next w)) = {}" by (simp add: new_file_def)
  moreover have "sw_claims w p \<noteq> Some (sw_next w)" for p using assms(1) by (auto simp: sp_base_def)
  ultimately show ?thesis using n(1) assms(2) by (simp add: sp_base_def) (auto simp: new_file_def)
qed

text \<open>A name is bound to a file with fewer records, those left out having landed; or to none.\<close>

lemma sp_base_bind:
  assumes "sp_base orig w" "p \<in> sw_used w" "\<And>j. i = Some j \<Longrightarrow> j < sw_next w \<and> sw_live w \<noteq> Some j"
    and "entries_in w i \<subseteq> orig p" "orig p \<subseteq> entries_in w i \<union> landed w"
  shows "sp_base orig (bind_claim w p i)"
proof -
  have "entries_in (bind_claim w p i) j = entries_in w j" for j by (simp add: entries_in_def bind_claim_def split: option.splits)
  moreover have "landed (bind_claim w p i) = landed w" by (simp add: landed_def bind_claim_def)
  ultimately show ?thesis using assms by (simp add: sp_base_def) (auto simp: bind_claim_def)
qed

lemma sp_base_land: "sp_base orig w \<Longrightarrow> sp_base orig (land w es)"
  "landed w \<subseteq> landed (land w es)" "numbered es \<subseteq> landed (land w es)"
proof -
  have l: "landed w \<subseteq> landed (land w es)" by (auto simp: landed_def land_def)
  then show "landed w \<subseteq> landed (land w es)" .
  show "numbered es \<subseteq> landed (land w es)" by (force simp: landed_def land_def numbered_def)
  have "entries_in (land w es) j = entries_in w j" for j by (simp add: entries_in_def land_def split: option.splits)
  moreover assume b: "sp_base orig w"
  then have "entries_in w (sw_claims w p) \<subseteq> orig p \<and> orig p \<subseteq> entries_in w (sw_claims w p) \<union> landed (land w es)" for p
    using l unfolding sp_base_def by blast
  moreover have "sw_claims (land w es) = sw_claims w" "sw_file (land w es) = sw_file w" "sw_next (land w es) = sw_next w" "sw_live (land w es) = sw_live w"
      "sw_used (land w es) = sw_used w" "sw_written (land w es) = sw_written w" "sw_acked (land w es) = sw_acked w" by (simp_all add: land_def)
  ultimately show "sp_base orig (land w es)" using b unfolding sp_base_def by simp
qed

lemma land_simps [simp]: "sw_pc (land w es) = sw_pc w" "sw_live (land w es) = sw_live w" "sw_used (land w es) = sw_used w" "sw_written (land w es) = sw_written w"
  by (simp_all add: land_def)

lemma take_chunk: "m \<le> length es \<Longrightarrow> take (k + length (chunk_of es k m)) es = take k es @ chunk_of es k m"
proof -
  assume m: "m \<le> length es"
  let ?c = "chunk_of es k m"
  have "take (length (take n xs)) xs = take n xs" for n and xs :: "nentry list" by (cases "n \<le> length xs") simp_all
  from this [of replayChunk "drop k (take m es)"] have "?c = take (length ?c) (drop k (take m es))" unfolding chunk_of_def by (rule sym)
  moreover have "length ?c \<le> m - k" using m by (simp add: chunk_of_def)
  ultimately have "?c = take (length ?c) (drop k es)" by (metis drop_take min_absorb1 take_take)
  then show ?thesis by (metis take_add)
qed

lemma load_numbered_entries: "load_numbered jsz (map_option f i) = Some es \<Longrightarrow> numbered es = (case i of None \<Rightarrow> {} | Some j \<Rightarrow> numbered (nf_entries (f j)))"
  by (cases i) (auto simp: load_numbered_def split: prod.splits option.splits)

lemma sent_ok_pc:
  assumes "sp_pc_ok orig lv n d (DSend p es k m ps sent)" "d \<subseteq> d'" "numbered (chunk_of es k m) \<subseteq> d'"
  shows "sp_pc_ok orig lv' n' d' (sent_ok p es k m ps sent)" "sp_pc_ok orig lv' n' d' (DRewrite p es k ok ps sent)"
proof -
  let ?k = "k + length (chunk_of es k m)"
  have o: "m \<le> length es" "numbered es \<subseteq> orig p" "orig p \<subseteq> numbered es \<union> d'" "numbered (take k es) \<subseteq> d'" using assms by auto
  have t: "numbered (take ?k es) \<subseteq> d'" using o(1,4) assms(3) take_chunk [of m es k] by simp
  show "sp_pc_ok orig lv' n' d' (sent_ok p es k m ps sent)"
  proof (cases "?k < length es")
    case True
    with o t show ?thesis by (simp add: sent_ok_def Let_def)
  next
    case False
    then have "orig p \<subseteq> d'" using o(3) t by (metis not_less sup.absorb2 take_all)
    moreover have "\<not> ?k < m" using False o(1) by linarith
    ultimately show ?thesis using False by (simp add: sent_ok_def Let_def)
  qed
  show "sp_pc_ok orig lv' n' d' (DRewrite p es k ok ps sent)" using o by simp
qed

lemma sent_ok_mentions: "mentions (sent_ok p es k m ps sent) = insert p (set ps)" "sent_ok p es k m ps sent \<noteq> DRename qs r"
  by (simp_all add: sent_ok_def Let_def)

lemma sp_step_inv:
  assumes step: "spool_step jsz cfg b w w'" and "b" and inv: "sp_inv orig w"
  shows "\<exists>orig'. sp_inv orig' w'"
  using step \<open>b\<close>
proof cases
  case (append_begins q now e)
  show ?thesis unfolding append_begins(2) by (rule exI, rule sp_inv_at [OF inv]) (use append_begins  in auto)
next
  case (open_fails q e)
  show ?thesis unfolding open_fails(2) by (rule exI, rule sp_inv_at [OF inv]) (use open_fails  in auto)
next
  case (open_finds q e i)
  show ?thesis unfolding open_finds(2) by (rule exI, rule sp_inv_at [OF inv]) (use open_finds  in auto)
next
  case (open_creates q e)
  have "\<And>q' i e. sw_pc w q' = AWrite i e \<Longrightarrow> False" using sp_inv_pc [OF inv] open_creates(4) by fastforce
  then have "sp_inv orig w'"
    by (intro sp_inv_move [OF inv, where q = q and pc' = "AWrite (sw_next w) e"])
      (use sp_base_open [OF sp_inv_base [OF inv] open_creates(4)] open_creates in \<open>auto simp: new_file_def landed_def\<close>)
  then show ?thesis by blast
next
  case (write_whole q i e)
  have l: "sw_live w = Some i" using sp_inv_pc [OF inv write_whole(3)] by simp
  have "sp_inv orig w'"
    by (intro sp_inv_move [OF inv, where q = q and pc' = "ASync (length (sw_written w))"])
      (use sp_base_write [OF sp_inv_base [OF inv] l] write_whole l in \<open>auto simp: set_file_def landed_def\<close>)
  then show ?thesis by blast
next
  case (write_fails q i e t)
  then have t: "t = NoTail" using \<open>b\<close> by simp
  have "sp_inv orig w'"
    by (intro sp_inv_move [OF inv, where q = q and pc' = Idle])
      (use sp_base_part [OF sp_inv_base [OF inv]] write_fails t in \<open>auto simp: set_file_def landed_def\<close>)
  then show ?thesis by blast
next
  case (sync_ok q n)
  have "n < length (sw_written w)" using sp_inv_pc [OF inv sync_ok(3)] by simp
  then have "sp_base orig (w \<lparr>sw_acked := insert n (sw_acked w)\<rparr>)"
    using sp_inv_base [OF inv] by (simp add: sp_base_def landed_def entries_in_def cong: option.case_cong)
  then have "sp_inv orig w'"
    by (intro sp_inv_move [OF inv, where q = q and pc' = Idle]) (use sync_ok in \<open>auto simp: landed_def\<close>)
  then show ?thesis by blast
next
  case (sync_fails q n)
  show ?thesis unfolding sync_fails(2) by (rule exI, rule sp_inv_at [OF inv]) (use sync_fails  in auto)
next
  case (glob q ps)
  have no: "sw_pc w q' \<noteq> DRename ps' p" for q' ps' p using glob \<open>b\<close> by auto
  have "dom (sw_claims w) \<subseteq> sw_used w" using sp_inv_base [OF inv] by (auto simp: sp_base_def)
  then have "sp_inv orig w'" using inv glob no unfolding sp_inv_def by auto
  then show ?thesis by blast
next
  case (stat_none q ps)
  show ?thesis unfolding stat_none(2) by (rule exI, rule sp_inv_at [OF inv]) (use stat_none  in auto)
next
  case (stat_some q ps i)
  show ?thesis unfolding stat_some(2) by (rule exI, rule sp_inv_at [OF inv]) (use stat_some  in auto)
next
  case (stat_fails q ps)
  show ?thesis unfolding stat_fails(2) by (rule exI, rule sp_inv_at [OF inv]) (use stat_fails  in auto)
next
  case (temp_ok q ps p)
  have un: "p \<notin> sw_used w" "orig p = {}" "\<And>q'. p \<notin> mentions (sw_pc w q')"
    using temp_ok(1) \<open>b\<close> inv by (auto simp: sp_inv_def sp_base_def)
  let ?v = "(new_file w empty_file) \<lparr>sw_used := insert p (sw_used w)\<rparr>"
  note n = sp_base_new [OF sp_inv_base [OF inv] nf_tails(1)]
  have e: "entries_in ?v j = entries_in (new_file w empty_file) j" for j by (simp add: entries_in_def split: option.splits)
  have l: "landed ?v = landed w" "landed (new_file w empty_file) = landed w" by (simp_all add: landed_def new_file_def)
  have u: "sw_used (new_file w empty_file) = sw_used w" by (simp add: new_file_def)
  have "sp_base orig ?v" using n(1) unfolding sp_base_def e l by (auto simp: u)
  then have base: "sp_base orig (bind_claim ?v p (Some (sw_next w)))"
    by (rule sp_base_bind) (use un sp_inv_base [OF inv] in \<open>auto simp: new_file_def sp_base_def\<close>)
  have "sp_inv orig w'"
    unfolding sp_inv_def
  proof (intro conjI allI impI)
    show "sp_base orig w'" using base temp_ok(2) by simp
    fix q'
    have v: "landed w' = landed w" "sw_live w' = sw_live w" "sw_written w' = sw_written w" "sw_used w' = insert p (sw_used w)"
      "sw_pc w' = (sw_pc w)(q := DRename ps p)"
      using temp_ok(2) by (simp_all add: bind_claim_def landed_def new_file_def)
    have old: "sp_pc_ok orig (sw_live w) (length (sw_written w)) (landed w) (sw_pc w q')" "mentions (sw_pc w q') \<subseteq> sw_used w"
      using inv unfolding sp_inv_def by blast+
    have "mentions (sw_pc w q) \<subseteq> sw_used w" using inv unfolding sp_inv_def by blast
    then have ps: "set ps \<subseteq> sw_used w" "p \<notin> set ps" using temp_ok(3) un(3) [of q] by simp_all
    show "sp_pc_ok orig (sw_live w') (length (sw_written w')) (landed w') (sw_pc w' q')" unfolding v using old(1) un(2) ps(2) by simp
    show "mentions (sw_pc w' q') \<subseteq> sw_used w'" unfolding v using old(2) ps(1) by auto
  next
    fix a ps' p' c
    assume a: "sw_pc w' a = DRename ps' p'" "c \<noteq> a"
    have pcs: "sw_pc w' = (sw_pc w)(q := DRename ps p)" using temp_ok(2) by (simp add: bind_claim_def new_file_def)
    show "p' \<notin> mentions (sw_pc w' c)"
    proof (cases "a = q")
      case True
      then show ?thesis using a pcs un(3) by auto
    next
      case False
      then have old: "sw_pc w a = DRename ps' p'" using a pcs by simp
      have "p' \<noteq> p" using un(3) [of a] old by auto
      moreover have "p' \<notin> mentions (sw_pc w c)" using inv old a(2) by (auto simp: sp_inv_def)
      ultimately show ?thesis using pcs temp_ok(3) by auto
    qed
  qed
  then show ?thesis by blast
next
  case (temp_fails q ps)
  show ?thesis unfolding temp_fails(2) by (rule exI, rule sp_inv_at [OF inv]) (use temp_fails  in auto)
next
  case (rename_ok q ps p i)
  let ?o = "orig(p := entries_in w (Some i))"
  have pc: "orig p = {}" "p \<notin> set ps" "p \<in> sw_used w" using sp_inv_used [OF inv rename_ok(3)] sp_inv_pc [OF inv rename_ok(3)] by simp_all
  have others: "p \<notin> mentions (sw_pc w q')" if "q' \<noteq> q" for q' using inv rename_ok(3) that by (auto simp: sp_inv_def)
  have nowriter: "sw_pc w q' \<noteq> AWrite j e" for q' j e using rename_ok \<open>b\<close> by auto
  let ?v = "bind_claim (w \<lparr>sw_live := None\<rparr>) p (Some i)"
  have e: "entries_in ?v j = entries_in w j" for j by (simp add: entries_in_def bind_claim_def split: option.splits)
  have l: "landed ?v = landed w" by (simp add: landed_def bind_claim_def)
  note b = sp_inv_base [OF inv, unfolded sp_base_def]
  have h: "(n, sw_written w ! n) \<in> (\<Union>x. ?o x)" if "n < length (sw_written w)" for n
  proof -
    from b that consider "(n, sw_written w ! n) \<in> entries_in w (sw_live w)" | x where "(n, sw_written w ! n) \<in> orig x" by blast
    then show ?thesis
    proof cases
      case 1
      then show ?thesis using rename_ok(4) by (intro UN_I [of p]) simp_all
    next
      case 2
      then show ?thesis using pc(1) by (intro UN_I [of x]) auto
    qed
  qed
  have "sp_base ?o ?v"
    unfolding sp_base_def e l
  proof (intro conjI)
    show "\<forall>n < length (sw_written ?v). (n, sw_written ?v ! n) \<in> entries_in w (sw_live ?v) \<union> (\<Union>x. ?o x)" using h by (simp add: bind_claim_def)
  qed (use b rename_ok(4) pc in \<open>auto simp: bind_claim_def\<close>)
  then have "sp_inv ?o w'"
    by (intro sp_inv_move [OF inv, where q = q and pc' = "DNext (ps @ [p]) 0"])
      (use rename_ok(2,3) nowriter others l in \<open>auto simp: bind_claim_def\<close>)
  then show ?thesis by blast
next
  case (rename_gone q ps p)
  show ?thesis unfolding rename_gone(2) by (rule exI, rule sp_inv_at [OF inv]) (use rename_gone sp_inv_pc [OF inv rename_gone(3)] in auto)
next
  case (rename_fails q ps p)
  show ?thesis unfolding rename_fails(2) by (rule exI, rule sp_inv_at [OF inv]) (use rename_fails sp_inv_pc [OF inv rename_fails(3)] in auto)
next
  case (unplace_ok q gone ps p)
  have "orig p = {}" "p \<in> sw_used w" using sp_inv_pc [OF inv unplace_ok(3)] sp_inv_used [OF inv unplace_ok(3)] by simp_all
  then have base: "sp_base orig (bind_claim w p None)" by (intro sp_base_bind sp_inv_base [OF inv]) auto
  have "sp_inv orig w'"
    by (intro sp_inv_move [OF inv, where q = q and pc' = "if gone then DNext ps 0 else Idle"])
      (use base unplace_ok in \<open>auto simp: bind_claim_def landed_def\<close>)
  then show ?thesis by blast
next
  case (unplace_fails q gone ps p)
  show ?thesis unfolding unplace_fails(2) by (rule exI, rule sp_inv_at [OF inv]) (use unplace_fails  in auto)
next
  case (drained q ps sent)
  show ?thesis unfolding drained(2) by (rule exI, rule sp_inv_at [OF inv]) (use drained  in auto)
next
  case (load_ok q p ps sent es)
  have es: "numbered es = entries_in w (sw_claims w p)" using load_numbered_entries [OF load_ok(5)] by (simp add: entries_in_def)
  have o: "entries_in w (sw_claims w p) \<subseteq> orig p" "orig p \<subseteq> entries_in w (sw_claims w p) \<union> landed w"
    using sp_inv_base [OF inv] by (auto simp: sp_base_def)
  have "sp_inv orig (at w q (loaded cfg p es ps sent))"
    by (rule sp_inv_at [OF inv]) (use es o load_ok(3) in \<open>auto simp: loaded_def\<close>)
  then show ?thesis using load_ok(2) by blast
next
  case (load_fails q p ps sent)
  show ?thesis unfolding load_fails(2) by (rule exI, rule sp_inv_at [OF inv]) (use load_fails  in auto)
next
  case (insert_ok q p es k m ps sent)
  note n = sp_base_land [where w = w and es = "chunk_of es k m"]
  have "sp_inv orig w'"
    by (intro sp_inv_move [OF inv, where q = q and pc' = "sent_ok p es k m ps sent"])
      (use n(1) [OF sp_inv_base [OF inv]] n(2) sent_ok_pc(1) [OF sp_inv_pc [OF inv insert_ok(3)] n(2,3)] insert_ok(2,3)
        in \<open>auto simp: sent_ok_mentions\<close>)
  then show ?thesis by blast
next
  case (insert_lost q p es k m ps sent)
  note n = sp_base_land [where w = w and es = "chunk_of es k m"]
  have "sp_inv orig w'"
    by (intro sp_inv_move [OF inv, where q = q and pc' = "DRewrite p es k False ps sent"])
      (use n(1) [OF sp_inv_base [OF inv]] n(2) sent_ok_pc(2) [OF sp_inv_pc [OF inv insert_lost(3)] n(2,3)] insert_lost(2,3)
        in \<open>auto\<close>)
  then show ?thesis by blast
next
  case (insert_fails q p es k m ps sent)
  show ?thesis unfolding insert_fails(2) by (rule exI, rule sp_inv_at [OF inv]) (use insert_fails sp_inv_pc [OF inv insert_fails(3)] in auto)
next
  case (rewrite_ok q p es k ok ps sent)
  have pc: "numbered es \<subseteq> orig p" "orig p \<subseteq> numbered es \<union> landed w" "numbered (take k es) \<subseteq> landed w" "p \<in> sw_used w"
    using sp_inv_pc [OF inv rewrite_ok(3)] sp_inv_used [OF inv rewrite_ok(3)] by simp_all
  let ?v = "new_file w (encode_numbered (drop k es))"
  note n = sp_base_new [OF sp_inv_base [OF inv] nf_tails(3), of "drop k es"]
  have v: "entries_in ?v (Some (sw_next w)) = numbered (drop k es)" by (simp add: new_file_def)
  have u: "sw_used ?v = sw_used w" "sw_next w < sw_next ?v" "sw_live ?v = sw_live w" by (simp_all add: new_file_def)
  have nl: "sw_live w \<noteq> Some (sw_next w)" using sp_inv_base [OF inv] by (auto simp: sp_base_def)
  have base: "sp_base orig (bind_claim ?v p (Some (sw_next w)))"
  proof (rule sp_base_bind [OF n(1)])
    show "entries_in ?v (Some (sw_next w)) \<subseteq> orig p" using pc(1) numbered_take(2) v by blast
    show "orig p \<subseteq> entries_in ?v (Some (sw_next w)) \<union> landed ?v" using pc(2,3) numbered_split [of es k] unfolding v n(2) by blast
  qed (use pc(4) u nl in auto)
  have "sp_inv orig w'"
    by (intro sp_inv_move [OF inv, where q = q and pc' = "if ok then DNext ps (sent + k) else Idle"])
      (use base rewrite_ok(2,3) in \<open>auto simp: bind_claim_def new_file_def landed_def\<close>)
  then show ?thesis by blast
next
  case (rewrite_fails q p es k ok ps sent)
  show ?thesis unfolding rewrite_fails(2) by (rule exI, rule sp_inv_at [OF inv]) (use rewrite_fails  in auto)
next
  case (remove_ok q p es ps sent)
  have "orig p \<subseteq> landed w" "p \<in> sw_used w" using sp_inv_pc [OF inv remove_ok(3)] sp_inv_used [OF inv remove_ok(3)] by simp_all
  then have base: "sp_base orig (bind_claim w p None)" by (intro sp_base_bind sp_inv_base [OF inv]) auto
  have "sp_inv orig w'"
    by (intro sp_inv_move [OF inv, where q = q and pc' = "DNext ps (sent + length es)"])
      (use base remove_ok in \<open>auto simp: bind_claim_def landed_def\<close>)
  then show ?thesis by blast
next
  case (remove_fails q p es ps sent)
  show ?thesis unfolding remove_fails(2) by (rule exI, rule sp_inv_at [OF inv]) (use remove_fails  in auto)
qed

lemma sp_run_inv: "spool_run jsz cfg True w0 w \<Longrightarrow> spool_start w0 \<Longrightarrow> \<exists>orig. sp_inv orig w"
proof (induction rule: spool_run.induct)
  case here
  then show ?case using sp_inv_start by blast
next
  case (more w b w')
  then show ?case using sp_step_inv by blast
qed

text \<open>C2: an acknowledged access record is never lost to a failure. In every interleaving, system call by system call, of appends and drains of any number
  of processes, with every call free to fail and every insert free to land in spite of an error, each record whose append was acknowledged is waiting in the
  live file or a claim, or has landed in the access log, provided that no claim renames the live file while an append holds it open, no drain lists the
  claims while another holds a reserved name it has not renamed onto, no reserved name is drawn twice, and no write is torn. The code does not enforce
  these; without the first or the second a record is lost, and behind a torn write too.\<close>

theorem acknowledged_records_survive:
  assumes "spool_start w0" "spool_run jsz cfg True w0 w" "n \<in> sw_acked w"
  shows "n < length (sw_written w) \<and>
    ((n, sw_written w ! n) \<in> waiting w \<or> (Some n, accessArgs (sw_written w ! n)) \<in> set (sw_rows w))"
proof -
  obtain orig where inv: "sp_inv orig w" using sp_run_inv [OF assms(2,1)] by blast
  note b = sp_inv_base [OF inv, unfolded sp_base_def]
  have n: "n < length (sw_written w)" using b assms(3) by auto
  then have "(n, sw_written w ! n) \<in> entries_in w (sw_live w) \<union> (\<Union>p. orig p)" using b by blast
  then consider "(n, sw_written w ! n) \<in> entries_in w (sw_live w)" | p where "(n, sw_written w ! n) \<in> orig p" by blast
  then show ?thesis
  proof cases
    case 2
    with b have "(n, sw_written w ! n) \<in> entries_in w (sw_claims w p) \<union> landed w" by blast
    with n show ?thesis by (auto simp: waiting_def landed_def)
  qed (use n in \<open>auto simp: waiting_def\<close>)
qed

section \<open>Runs\<close>

definition sp_w0 :: spool_world where
  "sp_w0 = \<lparr>sw_file = (\<lambda>i. empty_file), sw_next = 0, sw_live = None, sw_claims = Map.empty, sw_used = {}, sw_rows = [], sw_written = [],
     sw_acked = {}, sw_pc = (\<lambda>q. Idle)\<rparr>"

lemma sp_start: "spool_start sp_w0"
  by (simp add: spool_start_def sp_w0_def)

text \<open>An append, uninterrupted.\<close>

definition opened_by :: "nat \<Rightarrow> nat \<Rightarrow> access_entry \<Rightarrow> spool_world \<Rightarrow> spool_world" where
  "opened_by i q e w = at (w \<lparr>sw_file := (sw_file w)(i := empty_file), sw_next := Suc i, sw_live := Some i\<rparr>) q (AWrite i e)"

definition written_by :: "nat \<Rightarrow> nat \<Rightarrow> access_entry \<Rightarrow> spool_world \<Rightarrow> spool_world" where
  "written_by i q e w = at ((set_file w i (write_record (\<lambda>l. 100) (length (sw_written w)) e (sw_file w i))) \<lparr>sw_written := sw_written w @ [e],
     sw_acked := insert (length (sw_written w)) (sw_acked w)\<rparr>) q Idle"

abbreviation sp_run :: "bool \<Rightarrow> spool_world \<Rightarrow> bool" where
  "sp_run d w \<equiv> spool_run (\<lambda>l. 100) spool_sample_cfg d sp_w0 w"

lemma run_open:
  assumes "sp_run d w" "sw_pc w q = Idle" "sw_live w = None" "sw_next w = i" "\<not> time_is_zero (SignedAt e)"
  shows "sp_run d (opened_by i q e w)"
proof -
  have s: "stamped 0 e = e" using assms(5) by (simp add: stamped_def)
  have "sp_run d (at w q (AOpen e))" using spool_run.more [OF assms(1) append_begins [OF assms(2), of _ _ 0 e]] by (simp add: s)
  from spool_run.more [OF this open_creates [of _ q e]] assms(3) show ?thesis
    by (simp add: opened_by_def at_def new_file_def assms(4))
qed

lemma run_write:
  assumes "sp_run d w" "sw_pc w q = AWrite i e"
  shows "sp_run d (written_by i q e w)"
proof -
  from spool_run.more [OF assms(1) write_whole [OF assms(2)]] have
    r: "sp_run d (at ((set_file w i (write_record (\<lambda>l. 100) (length (sw_written w)) e (sw_file w i))) \<lparr>sw_written := sw_written w @ [e]\<rparr>) q (ASync (length (sw_written w))))" by simp
  from spool_run.more [OF r sync_ok [of _ q "length (sw_written w)"]] show ?thesis
    by (simp add: written_by_def at_def set_file_def)
qed

lemma sample_signed: "\<not> time_is_zero (SignedAt sample_entry)"
  by (simp add: sample_entry_def time_is_zero_def)

definition sp_w1 :: spool_world where "sp_w1 = written_by 0 0 sample_entry (opened_by 0 0 sample_entry sp_w0)"

lemma sp_run_w1: "sp_run d sp_w1"
  unfolding sp_w1_def
  by (rule run_write, rule run_open, rule spool_run.here) (simp_all add: sp_w0_def sample_signed opened_by_def)

theorem acknowledged_records_survive_witness:
  "0 \<in> sw_acked sp_w1 \<and> 0 < length (sw_written sp_w1) \<and>
    ((0, sw_written sp_w1 ! 0) \<in> waiting sp_w1 \<or> (Some 0, accessArgs (sw_written sp_w1 ! 0)) \<in> set (sw_rows sp_w1))"
proof -
  have a: "0 \<in> sw_acked sp_w1" by (simp add: sp_w1_def sp_w0_def written_by_def opened_by_def)
  with acknowledged_records_survive [OF sp_start sp_run_w1 a] show ?thesis by blast
qed

lemma run_step: "sp_run False w \<Longrightarrow> spool_step (\<lambda>l. 100) spool_sample_cfg b w w' \<Longrightarrow> sp_run False w'"
  by (rule spool_run.more) simp_all

lemma load_empty: "load_numbered jsz (Some empty_file) = Some []"
  using nf_entries_empty by (simp add: load_numbered_def plain_def load_def tail_lines_def) (simp add: empty_file_def tail_lines_def)

lemma sample_budget: "\<not> drain_budget spool_sample_cfg \<le> int 0"
  by (simp add: drain_budget_def spool_sample_cfg_def maxDrainPerCall_def)

text \<open>A claim takes the live file while an append holds it open; the file is drained and removed, and then the append writes to it, is told that the
  write and the sync succeeded, and acknowledges.\<close>

lemma at_at [simp]: "at (at w q a) q b = at w q b"
  by (simp add: at_def)

lemma new_file_at [simp]: "new_file (at w q a) f = at (new_file w f) q a"
  by (simp add: at_def new_file_def)

lemma bind_claim_at [simp]: "bind_claim (at w q a) p i = at (bind_claim w p i) q a"
  by (simp add: at_def bind_claim_def)

lemma used_at [simp]: "(at w q a) \<lparr>sw_used := u\<rparr> = at (w \<lparr>sw_used := u\<rparr>) q a"
  by (simp add: at_def)

lemma live_at [simp]: "(at w q a) \<lparr>sw_live := l\<rparr> = at (w \<lparr>sw_live := l\<rparr>) q a"
  by (simp add: at_def)

lemma fs_simps [simp]:
  "sw_file (new_file w f) = (sw_file w)(sw_next w := f)" "sw_next (new_file w f) = Suc (sw_next w)" "sw_live (new_file w f) = sw_live w"
  "sw_claims (new_file w f) = sw_claims w" "sw_used (new_file w f) = sw_used w" "sw_rows (new_file w f) = sw_rows w" "sw_written (new_file w f) = sw_written w"
  "sw_acked (new_file w f) = sw_acked w" "sw_pc (new_file w f) = sw_pc w"
  "sw_file (bind_claim w p i) = sw_file w" "sw_next (bind_claim w p i) = sw_next w" "sw_live (bind_claim w p i) = sw_live w"
  "sw_claims (bind_claim w p i) = (sw_claims w)(p := i)" "sw_used (bind_claim w p i) = sw_used w" "sw_rows (bind_claim w p i) = sw_rows w"
  "sw_written (bind_claim w p i) = sw_written w" "sw_acked (bind_claim w p i) = sw_acked w" "sw_pc (bind_claim w p i) = sw_pc w"
  "sw_file (set_file w j f) = (sw_file w)(j := f)" "sw_next (set_file w j f) = sw_next w" "sw_live (set_file w j f) = sw_live w"
  "sw_claims (set_file w j f) = sw_claims w" "sw_used (set_file w j f) = sw_used w" "sw_rows (set_file w j f) = sw_rows w" "sw_written (set_file w j f) = sw_written w"
  "sw_acked (set_file w j f) = sw_acked w" "sw_pc (set_file w j f) = sw_pc w"
  by (simp_all add: new_file_def bind_claim_def set_file_def)

lemma run_reserve:
  assumes "sp_run False w" "sw_pc w q = Idle" "set ps = dom (sw_claims w)" "sorted ps" "distinct ps" "sw_live w = Some i" "sw_claims w p = None"
  shows "sp_run False (at (bind_claim ((new_file w empty_file) \<lparr>sw_used := insert p (sw_used w)\<rparr>) p (Some (sw_next w))) q (DRename ps p))"
proof -
  have "sp_run False (at w q (DStat ps))" by (rule run_step [OF assms(1) glob [OF assms(2-5)]])
  from run_step [OF this stat_some [of _ q ps i]] assms(6) have "sp_run False (at w q (DTemp ps))" by simp
  from run_step [OF this temp_ok [of _ q ps p]] assms(7) show ?thesis by simp
qed

lemma run_rename:
  assumes "sp_run False w" "sw_pc w q = DRename ps p" "sw_live w = Some i"
  shows "sp_run False (at (bind_claim (w \<lparr>sw_live := None\<rparr>) p (Some i)) q (DNext (ps @ [p]) 0))"
  by (rule run_step [OF assms(1) rename_ok [OF assms(2,3)]])

lemma run_load_empty:
  assumes "sp_run False w" "sw_pc w q = DNext (p # ps) 0" "map_option (sw_file w) (sw_claims w p) = Some empty_file"
  shows "sp_run False (at w q (DRemove p [] ps 0))"
  using run_step [OF assms(1) load_ok [OF assms(2) sample_budget, of _ "[]"]] by (simp add: assms(3) load_empty loaded_def)

lemma run_remove:
  assumes "sp_run False w" "sw_pc w q = DRemove p es ps 0"
  shows "sp_run False (at (bind_claim w p None) q (DNext ps (length es)))"
  using run_step [OF assms(1) remove_ok [OF assms(2)]] by simp

theorem append_into_a_drained_file_is_lost:
  "\<exists>w. spool_start sp_w0 \<and> sp_run False w \<and> 0 \<in> sw_acked w \<and> sw_written w = [sample_entry] \<and> waiting w = {} \<and> sw_rows w = []"
proof -
  let ?a = "opened_by 0 0 sample_entry sp_w0"
  have a: "sp_run False ?a" by (rule run_open, rule spool_run.here) (simp_all add: sp_w0_def sample_signed)
  let ?b = "at (bind_claim ((new_file ?a empty_file) \<lparr>sw_used := insert ''c'' (sw_used ?a)\<rparr>) ''c'' (Some (sw_next ?a))) 1 (DRename [] ''c'')"
  have b: "sp_run False ?b" by (rule run_reserve [OF a]) (simp_all add: opened_by_def sp_w0_def)
  let ?c = "at (bind_claim (?b \<lparr>sw_live := None\<rparr>) ''c'' (Some 0)) 1 (DNext ([] @ [''c'']) 0)"
  have c: "sp_run False ?c" by (rule run_rename [OF b]) (simp_all add: opened_by_def sp_w0_def)
  let ?d = "at ?c 1 (DRemove ''c'' [] [] 0)"
  have d: "sp_run False ?d" by (rule run_load_empty [OF c]) (simp_all add: opened_by_def sp_w0_def)
  let ?e = "at (bind_claim ?d ''c'' None) 1 (DNext [] (length ([] :: nentry list)))"
  have e: "sp_run False ?e" by (rule run_remove [OF d]) simp
  have f: "sp_run False (written_by 0 0 sample_entry ?e)" by (rule run_write [OF e]) (simp add: opened_by_def sp_w0_def)
  have "0 \<in> sw_acked (written_by 0 0 sample_entry ?e)" "sw_written (written_by 0 0 sample_entry ?e) = [sample_entry]"
    "waiting (written_by 0 0 sample_entry ?e) = {}" "sw_rows (written_by 0 0 sample_entry ?e) = []"
    by (simp_all add: written_by_def opened_by_def sp_w0_def waiting_def)
  with f sp_start show ?thesis by blast
qed

text \<open>A drain lists the claims while another has reserved a name; it loads the empty file under that name. Then the other renames the live file onto the
  name, and the first removes it.\<close>

theorem claim_removed_as_empty_is_lost:
  "\<exists>w. spool_start sp_w0 \<and> sp_run False w \<and> 1 \<in> sw_acked w \<and> sw_written w = [sample_entry, sample_entry] \<and>
    (1, sample_entry) \<notin> waiting w \<and> sw_rows w = []"
proof -
  let ?b = "at (bind_claim ((new_file sp_w1 empty_file) \<lparr>sw_used := insert ''c'' (sw_used sp_w1)\<rparr>) ''c'' (Some (sw_next sp_w1))) 1 (DRename [] ''c'')"
  note w1 = sp_w1_def written_by_def opened_by_def sp_w0_def
  have b: "sp_run False ?b" by (rule run_reserve [OF sp_run_w1]) (simp_all add: w1)
  let ?c = "at (bind_claim ((new_file ?b empty_file) \<lparr>sw_used := insert ''d'' (sw_used ?b)\<rparr>) ''d'' (Some (sw_next ?b))) 2 (DRename [''c''] ''d'')"
  have c: "sp_run False ?c" by (rule run_reserve [OF b]) (simp_all add: w1)
  let ?d = "at (bind_claim (?c \<lparr>sw_live := None\<rparr>) ''d'' (Some 0)) 2 (DNext ([''c''] @ [''d'']) 0)"
  have d: "sp_run False ?d" by (rule run_rename [OF c]) (simp_all add: w1)
  let ?e = "at ?d 2 (DRemove ''c'' [] [''d''] 0)"
  have e: "sp_run False ?e" by (rule run_load_empty [OF d]) (simp_all add: w1)
  let ?f = "written_by 3 0 sample_entry (opened_by 3 0 sample_entry ?e)"
  have f: "sp_run False ?f"
    by (rule run_write, rule run_open [OF e]) (simp_all add: w1 sample_signed)
  let ?g = "at (bind_claim (?f \<lparr>sw_live := None\<rparr>) ''c'' (Some 3)) 1 (DNext ([] @ [''c'']) 0)"
  have g: "sp_run False ?g" by (rule run_rename [OF f]) (simp_all add: w1)
  let ?h = "at (bind_claim ?g ''c'' None) 2 (DNext [''d''] (length ([] :: nentry list)))"
  have h: "sp_run False ?h" by (rule run_remove [OF g]) (simp add: w1)
  have "1 \<in> sw_acked ?h" "sw_written ?h = [sample_entry, sample_entry]" "sw_rows ?h = []" by (simp_all add: w1)
  moreover have "(1, sample_entry) \<notin> waiting ?h"
    by (auto simp: w1 waiting_def entries_in_def numbered_def write_record_def empty_file_def nf_entries_def tail_lines_def List.map_filter_simps split: option.splits if_splits)
  ultimately show ?thesis using h sp_start by blast
qed

end
