(* ===== verification/Node_Protocol.thy ===== *)
theory Node_Protocol
  imports Go_Prelude
begin

text \<open>
  The typed request boundary of the node access channel: \<^verbatim>\<open>internal/nodeaccess/protocol.go\<close>
  (requests, their validation, the certificate identities) and the agent that executes a request,
  \<^verbatim>\<open>internal/nodeaccess/execute.go\<close> and \<^verbatim>\<open>pollOnce\<close> of \<^verbatim>\<open>agent.go\<close>.

  The anchored regular expressions are predicates on strings; a certificate is what the code reads
  of it (the printed form of its URI names, and the fields of the later validity checks). The local
  host the agent runs on is the record \<open>node_host\<close>: what each system call or child process
  answers. Executing a request returns, next to its result, the list of the processes it started.
\<close>

section \<open>Requests and results\<close>

definition ProtocolVersion :: int where "ProtocolVersion = 1"

definition NodeURIScheme :: string where "NodeURIScheme = ''spiffe''"

definition NodeTrustDomain :: string where "NodeTrustDomain = ''vctl.local''"

type_synonym operation = string

definition OperationHostStatus :: operation where "OperationHostStatus = ''host.status''"

definition OperationContainerList :: operation where "OperationContainerList = ''containers.list''"

definition OperationServiceStatus :: operation where "OperationServiceStatus = ''service.status''"

definition OperationServiceJournal :: operation where "OperationServiceJournal = ''service.journal''"

definition OperationShellSession :: operation where "OperationShellSession = ''shell.session''"

lemmas operation_defs = OperationHostStatus_def OperationContainerList_def
  OperationServiceStatus_def OperationServiceJournal_def OperationShellSession_def

record request =
  rq_Version :: int
  rq_ID :: string
  rq_Operation :: operation
  rq_Params :: "(string, string) gomap"
  rq_Deadline :: gotime

record node_result =
  rs_Version :: int
  rs_ID :: string
  rs_Output :: string
  rs_Error :: string

section \<open>Patterns\<close>

definition alnum :: "char \<Rightarrow> bool" where
  "alnum c \<longleftrightarrow> is_alpha c \<or> is_digit c"

definition requestIDPattern :: "string \<Rightarrow> bool" where
  "requestIDPattern s \<longleftrightarrow> 8 \<le> length s \<and> length s \<le> 64 \<and>
     list_all (\<lambda>c. alnum c \<or> c \<in> set ''_-'') s"

definition servicePattern :: "string \<Rightarrow> bool" where
  "servicePattern s \<longleftrightarrow> (case s of [] \<Rightarrow> False
     | c # cs \<Rightarrow> alnum c \<and> length cs \<le> 127 \<and> list_all (\<lambda>d. alnum d \<or> d \<in> set ''_.@-'') cs)"

definition hostnamePattern :: "string \<Rightarrow> bool" where
  "hostnamePattern s \<longleftrightarrow> (case s of [] \<Rightarrow> False
     | c # cs \<Rightarrow> alnum c \<and> length cs \<le> 252 \<and> list_all (\<lambda>d. alnum d \<or> d \<in> set ''.-'') cs)"

definition hex_char :: "char \<Rightarrow> bool" where
  "hex_char c \<longleftrightarrow> is_digit c \<or> to_lower_char c \<in> set ''abcdef''"

definition novaUUIDPattern :: "string \<Rightarrow> bool" where
  "novaUUIDPattern s \<longleftrightarrow> length s = 36 \<and>
     list_all (\<lambda>i. if i \<in> {8, 13, 18, 23} then s ! i = CHR ''-'' else hex_char (s ! i)) [0..<36]"

definition TargetKind :: "string \<Rightarrow> string" where
  "TargetKind identity = (if novaUUIDPattern identity then ''vm'' else ''host'')"

section \<open>Validation\<close>

definition str_get :: "(string, string) gomap \<Rightarrow> string \<Rightarrow> string" where
  "str_get m k = (case map_of m k of None \<Rightarrow> '''' | Some v \<Rightarrow> v)"

datatype validate_error =
    BadVersion int
  | BadRequestID
  | BadDeadline
  | UnsupportedOperation operation
  | ParamNotAllowed string operation
  | BadService
  | LinesRequired
  | BadLines

definition allowedParams :: "operation \<Rightarrow> string list option" where
  "allowedParams opn =
    (if opn = OperationHostStatus \<or> opn = OperationContainerList then Some []
     else if opn = OperationServiceStatus then Some [''service'']
     else if opn = OperationServiceJournal then Some [''service'', ''lines'']
     else None)"

definition trim_digits :: "string \<Rightarrow> string" where
  "trim_digits s = trim_right is_digit (dropWhile is_digit s)"

definition validate_lines :: "string \<Rightarrow> validate_error option" where
  "validate_lines lines =
    (if lines = '''' then Some LinesRequired
     else if length lines > 4 \<or> trim_digits lines \<noteq> '''' then Some BadLines
     else let n = dec_val 0 lines in if n < 1 \<or> n > 500 then Some BadLines else None)"

definition Validate :: "request \<Rightarrow> gotime \<Rightarrow> validate_error option" where
  "Validate r now =
    (if rq_Version r \<noteq> ProtocolVersion then Some (BadVersion (rq_Version r))
     else if \<not> requestIDPattern (rq_ID r) then Some BadRequestID
     else if time_is_zero (rq_Deadline r) \<or> \<not> rq_Deadline r > now
        \<or> rq_Deadline r > now + 2 * minute then Some BadDeadline
     else case allowedParams (rq_Operation r) of
       None \<Rightarrow> Some (UnsupportedOperation (rq_Operation r))
     | Some allowed \<Rightarrow>
       (case find (\<lambda>key. key \<notin> set allowed) (map fst (rq_Params r)) of
          Some key \<Rightarrow> Some (ParamNotAllowed key (rq_Operation r))
        | None \<Rightarrow>
          if (rq_Operation r = OperationServiceStatus \<or> rq_Operation r = OperationServiceJournal)
             \<and> \<not> servicePattern (str_get (rq_Params r) ''service'') then Some BadService
          else if rq_Operation r = OperationServiceJournal
            then validate_lines (str_get (rq_Params r) ''lines'')
          else None))"

section \<open>Certificate identities\<close>

record certificate =
  cert_URIs :: "string list"
  cert_CommonName :: string
  cert_NotBefore :: gotime
  cert_NotAfter :: gotime
  cert_ClientAuth :: bool
  cert_PublicKey :: string

definition hostPrefix :: string where
  "hostPrefix = NodeURIScheme @ ''://'' @ NodeTrustDomain @ ''/node/''"

definition vmPrefix :: string where
  "vmPrefix = NodeURIScheme @ ''://'' @ NodeTrustDomain @ ''/vm/''"

definition NodeURI :: "string \<Rightarrow> string option" where
  "NodeURI hostname = (if \<not> hostnamePattern hostname then None else Some (hostPrefix @ hostname))"

definition valid_vm_id :: "string \<Rightarrow> bool" where
  "valid_vm_id s \<longleftrightarrow> novaUUIDPattern s \<and> s = to_lower s"

definition VMURI :: "string \<Rightarrow> string option" where
  "VMURI instanceUUID = (if \<not> valid_vm_id instanceUUID then None else Some (vmPrefix @ instanceUUID))"

datatype identity_error =
    MissingClientCertificate
  | MultipleIdentities
  | InvalidVMIdentityURI
  | NoValidIdentity

fun node_identity_loop :: "string \<Rightarrow> string list \<Rightarrow> identity_error + string" where
  "node_identity_loop identity [] = Inr identity"
| "node_identity_loop identity (value # uris) =
    (if has_prefix value hostPrefix \<or> has_prefix value vmPrefix then
       if identity \<noteq> '''' then Inl MultipleIdentities
       else if has_prefix value vmPrefix then
         (let vm = trim_prefix value vmPrefix in
          if \<not> novaUUIDPattern vm \<or> vm \<noteq> to_lower vm then Inl InvalidVMIdentityURI
          else node_identity_loop vm uris)
       else node_identity_loop (trim_prefix value hostPrefix) uris
     else node_identity_loop identity uris)"

definition NodeIdentity :: "certificate option \<Rightarrow> identity_error + string" where
  "NodeIdentity cert = (case cert of None \<Rightarrow> Inl MissingClientCertificate
     | Some c \<Rightarrow> (case node_identity_loop '''' (cert_URIs c) of
         Inl e \<Rightarrow> Inl e
       | Inr identity \<Rightarrow> if \<not> hostnamePattern identity then Inl NoValidIdentity else Inr identity))"

fun vm_identity_loop :: "string \<Rightarrow> string list \<Rightarrow> identity_error + string" where
  "vm_identity_loop identity [] = Inr identity"
| "vm_identity_loop identity (value # uris) =
    (if has_prefix value vmPrefix then
       if identity \<noteq> '''' then Inl MultipleIdentities
       else vm_identity_loop (trim_prefix value vmPrefix) uris
     else vm_identity_loop identity uris)"

definition VMIdentity :: "certificate option \<Rightarrow> identity_error + string" where
  "VMIdentity cert = (case cert of None \<Rightarrow> Inl MissingClientCertificate
     | Some c \<Rightarrow> (case vm_identity_loop '''' (cert_URIs c) of
         Inl e \<Rightarrow> Inl e
       | Inr identity \<Rightarrow>
           if \<not> novaUUIDPattern identity \<or> identity \<noteq> to_lower identity then Inl NoValidIdentity
           else Inr identity))"

section \<open>Executing a request on the node\<close>

definition maxResultBytes :: nat where "maxResultBytes = 262144"

definition commandTimeout :: duration where "commandTimeout = 30 * second"

definition maxResultError :: nat where "maxResultError = 8192"

record cappedBuffer =
  cb_data :: string
  cb_limit :: nat
  cb_overflow :: bool

definition cb_Write :: "cappedBuffer \<Rightarrow> string \<Rightarrow> cappedBuffer" where
  "cb_Write b p =
    (let remaining = int (cb_limit b) - int (length (cb_data b)) in
     if remaining \<le> 0 then b \<lparr>cb_overflow := True\<rparr>
     else if int (length p) > remaining
       then b \<lparr>cb_overflow := True, cb_data := cb_data b @ take (nat remaining) p\<rparr>
     else b \<lparr>cb_data := cb_data b @ p\<rparr>)"

text \<open>
  \<^verbatim>\<open>os/exec\<close> fills a buffer with \<^verbatim>\<open>io.Copy\<close> from the pipe of the child. \<^verbatim>\<open>io.Copy\<close> prefers the
  \<^verbatim>\<open>ReadFrom\<close> method of its destination, and \<^verbatim>\<open>cappedBuffer\<close> has one: it embeds
  \<^verbatim>\<open>bytes.Buffer\<close>, whose \<^verbatim>\<open>ReadFrom\<close> is promoted. It appends everything read to the embedded
  buffer and knows nothing of the limit.
\<close>

definition cb_ReadFrom :: "cappedBuffer \<Rightarrow> string \<Rightarrow> cappedBuffer" where
  "cb_ReadFrom b p = b \<lparr>cb_data := cb_data b @ p\<rparr>"

definition io_Copy :: "cappedBuffer \<Rightarrow> string list \<Rightarrow> cappedBuffer" where
  "io_Copy b chunks = foldl cb_ReadFrom b chunks"

record command_outcome =
  co_stdout :: "string list"
  co_stderr :: "string list"
  co_err :: "string option"
  co_ctxErr :: "string option"

record node_host =
  h_hostname :: "string + string"
  h_loadavg :: "string + string"
  h_podman :: bool
  h_run :: "string \<Rightarrow> string list \<Rightarrow> gotime \<Rightarrow> command_outcome"

datatype exec_error =
    Invalid validate_error
  | ReadHostname string
  | ReadLoad string
  | CommandCancelled string
  | CommandFailed string string
  | OutputExceeded
  | Operation string exec_error
  | UnsupportedExec operation

definition runBounded :: "node_host \<Rightarrow> gotime \<Rightarrow> string \<Rightarrow> string list \<Rightarrow> exec_error + string" where
  "runBounded h deadline executable args =
    (let o' = h_run h executable args deadline;
         stdout = io_Copy \<lparr>cb_data = '''', cb_limit = maxResultBytes, cb_overflow = False\<rparr> (co_stdout o');
         stderr = io_Copy \<lparr>cb_data = '''', cb_limit = maxResultError, cb_overflow = False\<rparr> (co_stderr o') in
     case co_err o' of
       Some err \<Rightarrow>
         (case co_ctxErr o' of Some ce \<Rightarrow> Inl (CommandCancelled ce)
          | None \<Rightarrow> Inl (CommandFailed err (trim_space (cb_data stderr))))
     | None \<Rightarrow> if cb_overflow stdout then Inl OutputExceeded else Inr (cb_data stdout))"

definition exec_deadline :: "gotime \<Rightarrow> request \<Rightarrow> gotime" where
  "exec_deadline now r = (if rq_Deadline r > now + commandTimeout then now + commandTimeout else rq_Deadline r)"

definition exec_argv :: "node_host \<Rightarrow> request \<Rightarrow> (string \<times> string list \<times> string) option" where
  "exec_argv h r =
    (if rq_Operation r = OperationContainerList then
       Some (if h_podman h then (''/usr/bin/podman'', [''ps'', ''--format'', ''json''], ''list containers'')
             else (''/usr/bin/docker'', [''ps'', ''--format'', ''{{json .}}''], ''list containers''))
     else if rq_Operation r = OperationServiceStatus then
       Some (''/usr/bin/systemctl'', [''show'', ''--no-pager'',
         ''--property=Id,LoadState,ActiveState,SubState,UnitFileState'', str_get (rq_Params r) ''service''],
         ''read service status'')
     else if rq_Operation r = OperationServiceJournal then
       Some (''/usr/bin/journalctl'', [''--no-pager'', ''--output=short-iso'', ''--unit'',
         str_get (rq_Params r) ''service'', ''--lines'', str_get (rq_Params r) ''lines''],
         ''read service journal'')
     else None)"

type_synonym started = "(string \<times> string list) list"

definition Execute ::
  "node_host \<Rightarrow> gotime \<Rightarrow> gotime \<Rightarrow> request \<Rightarrow> node_result \<times> exec_error option \<times> started" where
  "Execute h now1 now2 r =
    (let result = \<lparr>rs_Version = ProtocolVersion, rs_ID = rq_ID r, rs_Output = '''', rs_Error = ''''\<rparr> in
     case Validate r now1 of
       Some e \<Rightarrow> (result, Some (Invalid e), [])
     | None \<Rightarrow>
       if rq_Operation r = OperationHostStatus then
         (case h_hostname h of Inl e \<Rightarrow> (result, Some (ReadHostname e), [])
          | Inr name \<Rightarrow>
            (case h_loadavg h of Inl e \<Rightarrow> (result, Some (ReadLoad e), [])
             | Inr load \<Rightarrow> (result \<lparr>rs_Output :=
                 ''hostname: '' @ name @ [CHR 0x0A] @ ''loadavg: '' @ trim_space load\<rparr>, None, [])))
       else (case exec_argv h r of
         None \<Rightarrow> (result, Some (UnsupportedExec (rq_Operation r)), [])
       | Some (exe, args, what) \<Rightarrow>
         (case runBounded h (exec_deadline now2 r) exe args of
            Inl e \<Rightarrow> (result, Some (Operation what e), [(exe, args)])
          | Inr out \<Rightarrow> (result \<lparr>rs_Output := out\<rparr>, None, [(exe, args)]))))"

text \<open>
  One round of the agent's long poll: what the gateway answered to the poll, what it answered to
  the result, and the process run in between. An error value is rendered by \<open>err_text\<close>.
\<close>

datatype poll_reply =
    PollFailed string
  | PollStatus int string
  | PollBody "request option"

datatype post_reply =
    PostFailed string
  | PostStatus int string

datatype poll_error =
    PollGateway string
  | PollReturned int string
  | DecodeRequest
  | SendResult string
  | ResultRejected int string

definition agent_result :: "(exec_error \<Rightarrow> string) \<Rightarrow> node_result \<Rightarrow> exec_error option \<Rightarrow> node_result" where
  "agent_result err_text result operationErr = (case operationErr of None \<Rightarrow> result
     | Some e \<Rightarrow> (let msg = err_text e in
         result \<lparr>rs_Error := (if length msg > maxResultError then take maxResultError msg else msg)\<rparr>))"

definition pollOnce ::
  "(exec_error \<Rightarrow> string) \<Rightarrow> node_host \<Rightarrow> gotime \<Rightarrow> gotime \<Rightarrow> poll_reply \<Rightarrow> (node_result \<Rightarrow> post_reply) \<Rightarrow>
   node_result option \<times> started \<times> poll_error option" where
  "pollOnce err_text h now1 now2 reply post = (case reply of
     PollFailed e \<Rightarrow> (None, [], Some (PollGateway e))
   | PollStatus code body \<Rightarrow>
       if code = 204 then (None, [], None) else (None, [], Some (PollReturned code (trim_space body)))
   | PollBody None \<Rightarrow> (None, [], Some DecodeRequest)
   | PollBody (Some r) \<Rightarrow>
       (case Execute h now1 now2 r of (result, operationErr, run) \<Rightarrow>
         let res = agent_result err_text result operationErr in
         (case post res of
            PostFailed e \<Rightarrow> (Some res, run, Some (SendResult e))
          | PostStatus code msg \<Rightarrow>
              if code \<noteq> 202 then (Some res, run, Some (ResultRejected code (trim_space msg)))
              else (Some res, run, None))))"

section \<open>What validation admits\<close>

lemma find_None_all: "find P xs = None \<longleftrightarrow> (\<forall>x \<in> set xs. \<not> P x)"
  by (induction xs) auto

lemma trim_digits_empty: "trim_digits s = '''' \<longleftrightarrow> list_all is_digit s"
proof -
  have "trim_digits s = '''' \<longleftrightarrow> (\<forall>c \<in> set (dropWhile is_digit s). is_digit c)"
    by (simp add: trim_digits_def trim_right_def dropWhile_eq_Nil_conv)
  also have "\<dots> \<longleftrightarrow> list_all is_digit s"
    by (induction s) auto
  finally show ?thesis .
qed

lemma validate_lines_None:
  "validate_lines l = None \<longleftrightarrow>
   l \<noteq> '''' \<and> length l \<le> 4 \<and> list_all is_digit l \<and> 1 \<le> dec_val 0 l \<and> dec_val 0 l \<le> 500"
  by (auto simp: validate_lines_def trim_digits_empty Let_def not_le not_less)

lemma str_get_missing [simp]: "k \<notin> fst ` set m \<Longrightarrow> str_get m k = ''''"
  by (simp add: str_get_def map_of_eq_None_iff [symmetric])

lemma servicePattern_nonempty [simp]: "\<not> servicePattern ''''"
  by (simp add: servicePattern_def)

lemma service_no_option: "servicePattern s \<Longrightarrow> \<exists>c cs. s = c # cs \<and> c \<noteq> CHR ''-''"
  by (cases s) (auto simp: servicePattern_def alnum_def is_alpha_def is_digit_def)

lemma Validate_iff:
  "Validate r now = None \<longleftrightarrow>
     rq_Version r = 1 \<and> requestIDPattern (rq_ID r) \<and> rq_Deadline r \<noteq> 0 \<and>
     now < rq_Deadline r \<and> rq_Deadline r \<le> now + 2 * minute \<and>
     (rq_Operation r \<in> {''host.status'', ''containers.list''} \<and> rq_Params r = [] \<or>
      rq_Operation r = ''service.status'' \<and> fst ` set (rq_Params r) = {''service''} \<and>
        servicePattern (str_get (rq_Params r) ''service'') \<or>
      rq_Operation r = ''service.journal'' \<and> fst ` set (rq_Params r) = {''service'', ''lines''} \<and>
        servicePattern (str_get (rq_Params r) ''service'') \<and>
        (let l = str_get (rq_Params r) ''lines'' in
           l \<noteq> '''' \<and> length l \<le> 4 \<and> list_all is_digit l \<and> 1 \<le> dec_val 0 l \<and> dec_val 0 l \<le> 500))"
proof -
  have none: "find (\<lambda>k. k \<notin> set []) (map fst m) = None \<longleftrightarrow> m = []" for m :: "(string, string) gomap"
    by (simp add: find_None_all)
  have one: "find (\<lambda>k. k \<notin> set [''service'']) (map fst m) = None \<and> servicePattern (str_get m ''service'')
      \<longleftrightarrow> fst ` set m = {''service''} \<and> servicePattern (str_get m ''service'')" for m
  proof (cases "''service'' \<in> fst ` set m")
    case True
    then show ?thesis by (force simp: find_None_all)
  qed simp
  have two: "find (\<lambda>k. k \<notin> set [''service'', ''lines'']) (map fst m) = None \<and>
       servicePattern (str_get m ''service'') \<and> validate_lines (str_get m ''lines'') = None
      \<longleftrightarrow> fst ` set m = {''service'', ''lines''} \<and>
       servicePattern (str_get m ''service'') \<and> validate_lines (str_get m ''lines'') = None" for m
  proof (cases "''service'' \<in> fst ` set m \<and> ''lines'' \<in> fst ` set m")
    case True
    then show ?thesis by (force simp: find_None_all)
  next
    case False
    then show ?thesis by (auto simp: validate_lines_def)
  qed
  let ?ok = "\<lambda>op. (case allowedParams op of None \<Rightarrow> False | Some allowed \<Rightarrow>
      find (\<lambda>k. k \<notin> set allowed) (map fst (rq_Params r)) = None \<and>
      (op = OperationServiceStatus \<or> op = OperationServiceJournal \<longrightarrow> servicePattern (str_get (rq_Params r) ''service'')) \<and>
      (op = OperationServiceJournal \<longrightarrow> validate_lines (str_get (rq_Params r) ''lines'') = None))"
  have split: "Validate r now = None \<longleftrightarrow> rq_Version r = 1 \<and> requestIDPattern (rq_ID r) \<and> rq_Deadline r \<noteq> 0 \<and>
     now < rq_Deadline r \<and> rq_Deadline r \<le> now + 2 * minute \<and> ?ok (rq_Operation r)"
    by (auto simp: Validate_def ProtocolVersion_def time_is_zero_def split: option.splits)
  have "?ok (rq_Operation r) \<longleftrightarrow>
     (rq_Operation r \<in> {''host.status'', ''containers.list''} \<and> rq_Params r = [] \<or>
      rq_Operation r = ''service.status'' \<and> fst ` set (rq_Params r) = {''service''} \<and>
        servicePattern (str_get (rq_Params r) ''service'') \<or>
      rq_Operation r = ''service.journal'' \<and> fst ` set (rq_Params r) = {''service'', ''lines''} \<and>
        servicePattern (str_get (rq_Params r) ''service'') \<and>
        validate_lines (str_get (rq_Params r) ''lines'') = None)"
  proof -
    consider "rq_Operation r = ''host.status''" | "rq_Operation r = ''containers.list''"
      | "rq_Operation r = ''service.status''" | "rq_Operation r = ''service.journal''"
      | "rq_Operation r \<notin> {''host.status'', ''containers.list'', ''service.status'', ''service.journal''}"
      by blast
    then show ?thesis
    proof cases
      case 3
      then show ?thesis using one [of "rq_Params r"] by (simp add: allowedParams_def operation_defs)
    next
      case 4
      then show ?thesis using two [of "rq_Params r"] by (simp add: allowedParams_def operation_defs)
    qed (use none [of "rq_Params r"] in \<open>simp_all add: allowedParams_def operation_defs\<close>)
  qed
  then show ?thesis
    unfolding split validate_lines_None Let_def by simp
qed

text \<open>A request passes validation exactly when it has the protocol version, a well-formed
  identifier, a deadline in the next two minutes, and names one of the four fixed operations with
  exactly that operation's parameters: none for the host status and the container list, a unit name
  for the service status, a unit name and a line count of one to four digits between 1 and 500 for
  the journal. Everything else, the shell operation included, is refused.\<close>

theorem Validate_accepts_exactly:
  "Validate r now = None \<longleftrightarrow>
     rq_Version r = 1 \<and> requestIDPattern (rq_ID r) \<and> rq_Deadline r \<noteq> 0 \<and>
     now < rq_Deadline r \<and> rq_Deadline r \<le> now + 2 * minute \<and>
     (rq_Operation r \<in> {''host.status'', ''containers.list''} \<and> rq_Params r = [] \<or>
      rq_Operation r = ''service.status'' \<and> fst ` set (rq_Params r) = {''service''} \<and>
        servicePattern (str_get (rq_Params r) ''service'') \<or>
      rq_Operation r = ''service.journal'' \<and> fst ` set (rq_Params r) = {''service'', ''lines''} \<and>
        servicePattern (str_get (rq_Params r) ''service'') \<and>
        (let l = str_get (rq_Params r) ''lines'' in
           l \<noteq> '''' \<and> length l \<le> 4 \<and> list_all is_digit l \<and> 1 \<le> dec_val 0 l \<and> dec_val 0 l \<le> 500))"
  by (rule Validate_iff)

section \<open>What the agent executes\<close>

definition fixed_command :: "string \<times> string list \<Rightarrow> bool" where
  "fixed_command c \<longleftrightarrow>
     c = (''/usr/bin/podman'', [''ps'', ''--format'', ''json'']) \<or>
     c = (''/usr/bin/docker'', [''ps'', ''--format'', ''{{json .}}'']) \<or>
     (\<exists>s. c = (''/usr/bin/systemctl'', [''show'', ''--no-pager'',
         ''--property=Id,LoadState,ActiveState,SubState,UnitFileState'', s]) \<and> servicePattern s) \<or>
     (\<exists>s l. c = (''/usr/bin/journalctl'', [''--no-pager'', ''--output=short-iso'', ''--unit'', s, ''--lines'', l])
         \<and> servicePattern s \<and> l \<noteq> '''' \<and> list_all is_digit l)"

lemma Execute_invalid:
  "Validate r now1 = Some e \<Longrightarrow>
   Execute h now1 now2 r =
     (\<lparr>rs_Version = ProtocolVersion, rs_ID = rq_ID r, rs_Output = '''', rs_Error = ''''\<rparr>, Some (Invalid e), [])"
  by (simp add: Execute_def Let_def)

lemma Execute_envelope:
  "Execute h now1 now2 r = (res, err, run) \<Longrightarrow>
   rs_Version res = ProtocolVersion \<and> rs_ID res = rq_ID r \<and> rs_Error res = ''''"
  by (auto simp: Execute_def Let_def split: option.splits if_splits sum.splits prod.splits)

lemma Execute_runs:
  "Execute h now1 now2 r = (res, err, run) \<Longrightarrow> c \<in> set run \<Longrightarrow>
   Validate r now1 = None \<and> rq_Operation r \<noteq> ''host.status'' \<and> run = [c] \<and>
   (\<exists>what. exec_argv h r = Some (fst c, snd c, what))"
  by (auto simp: Execute_def Let_def operation_defs split: option.splits if_splits sum.splits prod.splits)

lemma Execute_fixed:
  assumes "Execute h now1 now2 r = (res, err, run)"
  shows "length run \<le> 1" and "c \<in> set run \<Longrightarrow> Validate r now1 = None \<and> fixed_command c"
proof -
  show "length run \<le> 1"
    using assms by (auto simp: Execute_def Let_def split: option.splits if_splits sum.splits prod.splits)
  assume "c \<in> set run"
  note x = Execute_runs [OF assms this]
  then have v: "Validate r now1 = None" and n: "rq_Operation r \<noteq> ''host.status''" by auto
  from v have ops: "rq_Operation r = ''host.status'' \<or> rq_Operation r = ''containers.list'' \<or>
      rq_Operation r = ''service.status'' \<and> servicePattern (str_get (rq_Params r) ''service'') \<or>
      rq_Operation r = ''service.journal'' \<and> servicePattern (str_get (rq_Params r) ''service'') \<and>
        str_get (rq_Params r) ''lines'' \<noteq> '''' \<and> list_all is_digit (str_get (rq_Params r) ''lines'')"
    unfolding Validate_iff Let_def by blast
  from x obtain what where argv: "exec_argv h r = Some (fst c, snd c, what)" by blast
  have "fixed_command c"
    using ops n argv by (cases c) (auto simp: exec_argv_def operation_defs fixed_command_def split: if_splits)
  with v show "Validate r now1 = None \<and> fixed_command c" by simp
qed

text \<open>C11: Whatever the gateway sends, the agent starts at most one process, only for a request that
  passes validation, and that process is one of four fixed command lines with absolute paths. The
  only text taken from the request is a unit name, which cannot start with a dash and so is never
  read as an option, and a line count of digits. The result always carries the identifier of the
  request, and its error text fits the size the gateway accepts.\<close>

theorem agent_runs_only_fixed_commands:
  "\<exists>posted run err. pollOnce err_text h now1 now2 (PollBody (Some r)) post = (Some posted, run, err) \<and>
     length run \<le> 1 \<and> list_all (\<lambda>c. Validate r now1 = None \<and> fixed_command c) run \<and>
     rs_Version posted = 1 \<and> rs_ID posted = rq_ID r \<and> length (rs_Error posted) \<le> maxResultError"
proof -
  obtain res e run where x: "Execute h now1 now2 r = (res, e, run)" by (metis prod_cases3)
  let ?posted = "agent_result err_text res e"
  have p: "\<exists>err. pollOnce err_text h now1 now2 (PollBody (Some r)) post = (Some ?posted, run, err)"
    by (auto simp: pollOnce_def x Let_def split: post_reply.splits)
  have "rs_Version ?posted = 1 \<and> rs_ID ?posted = rq_ID r \<and> length (rs_Error ?posted) \<le> maxResultError"
    using Execute_envelope [OF x]
    by (auto simp: agent_result_def Let_def ProtocolVersion_def split: option.splits)
  with p Execute_fixed [OF x] show ?thesis
    by (auto simp: list_all_iff)
qed

lemma io_Copy_data: "cb_data (io_Copy b ps) = cb_data b @ concat ps"
  by (induction ps arbitrary: b) (simp_all add: io_Copy_def cb_ReadFrom_def)

lemma io_Copy_overflow: "cb_overflow (io_Copy b ps) = cb_overflow b"
  by (induction ps arbitrary: b) (simp_all add: io_Copy_def cb_ReadFrom_def)

lemma runBounded_returns_everything:
  "co_err (h_run h exe args d) = None \<Longrightarrow> runBounded h d exe args = Inr (concat (co_stdout (h_run h exe args d)))"
  by (simp add: runBounded_def Let_def io_Copy_data io_Copy_overflow)

lemma cb_Write_wf:
  "length (cb_data b) \<le> cb_limit b \<Longrightarrow>
   cb_data (cb_Write b p) = take (cb_limit b) (cb_data b @ p) \<and> cb_limit (cb_Write b p) = cb_limit b"
  by (auto simp: cb_Write_def Let_def nat_diff_distrib)

lemma cb_Write_all:
  "length (cb_data b) \<le> cb_limit b \<Longrightarrow>
   cb_data (foldl cb_Write b ps) = take (cb_limit b) (cb_data b @ concat ps)"
proof (induction ps arbitrary: b)
  case (Cons p ps)
  note w = cb_Write_wf [OF Cons.prems, of p]
  have "cb_data (foldl cb_Write (cb_Write b p) ps) = take (cb_limit b) (take (cb_limit b) (cb_data b @ p) @ concat ps)"
    using Cons.IH [of "cb_Write b p"] w by simp
  also have "\<dots> = take (cb_limit b) (cb_data b @ p @ concat ps)"
    using Cons.prems by (simp add: min_def)
  finally show ?case by simp
qed simp

text \<open>The cap on a command's output is not applied. Filled through its own \<^verbatim>\<open>Write\<close>, the capped
  buffer keeps at most its limit; but the process library copies into the promoted \<^verbatim>\<open>ReadFrom\<close>
  of the embedded buffer, so the output of a command that succeeds is returned whole, with no
  overflow error, however long it is.\<close>

theorem output_cap_not_enforced:
  "Validate r now1 = None \<Longrightarrow> exec_argv h r = Some (exe, args, what) \<Longrightarrow>
   co_err (h_run h exe args (exec_deadline now2 r)) = None \<Longrightarrow>
   (\<exists>res. Execute h now1 now2 r = (res, None, [(exe, args)]) \<and>
      rs_Output res = concat (co_stdout (h_run h exe args (exec_deadline now2 r)))) \<and>
   cb_data (foldl cb_Write \<lparr>cb_data = '''', cb_limit = maxResultBytes, cb_overflow = False\<rparr>
       (co_stdout (h_run h exe args (exec_deadline now2 r))))
     = take maxResultBytes (concat (co_stdout (h_run h exe args (exec_deadline now2 r))))"
  by (auto simp: Execute_def Let_def runBounded_returns_everything operation_defs exec_argv_def cb_Write_all)

definition long_listing :: node_host where
  "long_listing = \<lparr>h_hostname = Inr ''n1'', h_loadavg = Inr ''0.1'', h_podman = True,
     h_run = (\<lambda>exe args d. \<lparr>co_stdout = [replicate 262145 CHR ''x''], co_stderr = [], co_err = None, co_ctxErr = None\<rparr>)\<rparr>"

definition listing_request :: request where
  "listing_request = \<lparr>rq_Version = 1, rq_ID = ''request-1'', rq_Operation = ''containers.list'', rq_Params = [],
     rq_Deadline = 1000\<rparr>"

lemma listing_request_valid: "Validate listing_request 10 = None"
  by (simp add: Validate_iff listing_request_def requestIDPattern_def alnum_def is_alpha_def is_digit_def)

theorem output_cap_not_enforced_witness:
  "\<exists>res. Execute long_listing 10 11 listing_request = (res, None, [(''/usr/bin/podman'', [''ps'', ''--format'', ''json''])])
     \<and> length (rs_Output res) > maxResultBytes"
proof -
  have a: "exec_argv long_listing listing_request
      = Some (''/usr/bin/podman'', [''ps'', ''--format'', ''json''], ''list containers'')"
    by (simp add: exec_argv_def long_listing_def listing_request_def operation_defs)
  have "co_err (h_run long_listing ''/usr/bin/podman'' [''ps'', ''--format'', ''json''] (exec_deadline 11 listing_request)) = None"
    by (simp add: long_listing_def)
  from output_cap_not_enforced [OF listing_request_valid a this] show ?thesis
    by (auto simp: long_listing_def maxResultBytes_def)
qed

section \<open>Who a certificate speaks for\<close>

definition node_uris :: "certificate \<Rightarrow> string list" where
  "node_uris c = filter (\<lambda>u. has_prefix u hostPrefix \<or> has_prefix u vmPrefix) (cert_URIs c)"

lemma hex_char_alnum: "hex_char c \<Longrightarrow> alnum c"
  by (auto simp: hex_char_def alnum_def is_alpha_def to_lower_char_def split: if_splits)

lemma uuid_nonempty [simp]: "\<not> novaUUIDPattern ''''"
  by (simp add: novaUUIDPattern_def)

lemma uuid_chars: "novaUUIDPattern s \<Longrightarrow> c \<in> set s \<Longrightarrow> alnum c \<or> c = CHR ''-''"
proof -
  assume u: "novaUUIDPattern s" and "c \<in> set s"
  then obtain i where "i < 36" "c = s ! i" by (auto simp: novaUUIDPattern_def in_set_conv_nth)
  with u show ?thesis
    by (auto simp: novaUUIDPattern_def list_all_iff hex_char_alnum split: if_splits dest!: bspec [where x = i])
qed

lemma uuid_hostname: "novaUUIDPattern s \<Longrightarrow> hostnamePattern s"
proof -
  assume u: "novaUUIDPattern s"
  then obtain c cs where s: "s = c # cs" by (cases s) auto
  have "hex_char (s ! 0)"
    using u unfolding novaUUIDPattern_def list_all_iff by (auto dest!: bspec [where x = 0])
  then have "alnum c" using s by (simp add: hex_char_alnum)
  moreover have "length cs = 35" using u s by (simp add: novaUUIDPattern_def)
  ultimately show ?thesis
    using uuid_chars [OF u] s by (auto simp: hostnamePattern_def list_all_iff)
qed

lemma prefix_disjoint: "hostPrefix @ r \<noteq> vmPrefix @ t"
  by (simp add: hostPrefix_def vmPrefix_def NodeURIScheme_def NodeTrustDomain_def)

lemma not_both_prefixes: "has_prefix u vmPrefix \<Longrightarrow> \<not> has_prefix u hostPrefix"
  by (metis has_prefix_trim prefix_disjoint)

lemma node_identity_loop_taken:
  "identity \<noteq> '''' \<Longrightarrow> node_identity_loop identity us = Inr n \<longleftrightarrow>
   n = identity \<and> filter (\<lambda>u. has_prefix u hostPrefix \<or> has_prefix u vmPrefix) us = []"
  by (induction us arbitrary: identity) auto

definition sole_identity :: "string \<Rightarrow> string list \<Rightarrow> bool" where
  "sole_identity n us \<longleftrightarrow> (\<exists>k u. us = replicate k hostPrefix @ [u] \<and>
     (u = hostPrefix @ n \<or> u = vmPrefix @ n \<and> valid_vm_id n))"

lemma sole_identity_Nil [simp]: "\<not> sole_identity n []"
  by (simp add: sole_identity_def)

lemma sole_identity_Cons:
  "sole_identity n (x # us) \<longleftrightarrow> x = hostPrefix \<and> sole_identity n us \<or>
     us = [] \<and> (x = hostPrefix @ n \<or> x = vmPrefix @ n \<and> valid_vm_id n)" (is "?L \<longleftrightarrow> ?A \<or> ?B")
proof
  assume ?L
  then obtain k u where e: "x # us = replicate k hostPrefix @ [u]"
    "u = hostPrefix @ n \<or> u = vmPrefix @ n \<and> valid_vm_id n" by (auto simp: sole_identity_def)
  then show "?A \<or> ?B" unfolding sole_identity_def by (cases k) auto
next
  assume "?A \<or> ?B"
  then show ?L
  proof
    assume ?A
    then obtain k u where "x = hostPrefix" "us = replicate k hostPrefix @ [u]"
      "u = hostPrefix @ n \<or> u = vmPrefix @ n \<and> valid_vm_id n" by (auto simp: sole_identity_def)
    then show ?thesis unfolding sole_identity_def by (intro exI [of _ "Suc k"] exI [of _ u]) simp
  next
    assume ?B
    then show ?thesis unfolding sole_identity_def by (intro exI [of _ 0] exI [of _ x]) simp
  qed
qed

lemma node_identity_loop_iff:
  assumes "n \<noteq> ''''"
  shows "node_identity_loop '''' us = Inr n \<longleftrightarrow>
    sole_identity n (filter (\<lambda>u. has_prefix u hostPrefix \<or> has_prefix u vmPrefix) us)"
proof (induction us)
  case (Cons v us)
  have hp: "vmPrefix @ r \<noteq> hostPrefix" for r using prefix_disjoint [of "''''" r] by auto
  consider (vm) r where "v = vmPrefix @ r" | (host) r where "v = hostPrefix @ r"
    | (other) "\<not> has_prefix v hostPrefix" "\<not> has_prefix v vmPrefix"
    by (metis has_prefixE)
  then show ?case
  proof cases
    case vm
    have "vmPrefix @ r \<noteq> hostPrefix @ n" using prefix_disjoint [of n r] by auto
    moreover have "valid_vm_id r \<Longrightarrow> r \<noteq> ''''" by (auto simp: valid_vm_id_def)
    ultimately show ?thesis
      using vm hp node_identity_loop_taken [of r us n]
      by (auto simp: sole_identity_Cons valid_vm_id_def Let_def)
  next
    case host
    have nv: "\<not> has_prefix v vmPrefix" "hostPrefix @ r \<noteq> vmPrefix @ n"
      using host by (metis has_prefix_append not_both_prefixes, metis prefix_disjoint)
    show ?thesis
      using host nv Cons.IH assms node_identity_loop_taken [of r us n] trim_prefix_append [of hostPrefix "[]"]
      by (cases "r = ''''") (auto simp: sole_identity_Cons)
  next
    case other
    with Cons.IH show ?thesis by simp
  qed
qed (use assms in simp)

lemma NodeIdentity_iff:
  "NodeIdentity (Some c) = Inr n \<longleftrightarrow>
   hostnamePattern n \<and> (\<exists>k u. node_uris c = replicate k hostPrefix @ [u] \<and> (NodeURI n = Some u \<or> VMURI n = Some u))"
proof (cases "hostnamePattern n")
  case True
  then have "n \<noteq> ''''" by (auto simp: hostnamePattern_def)
  have "NodeIdentity (Some c) = Inr n \<longleftrightarrow> node_identity_loop [] (cert_URIs c) = Inr n"
    using True by (auto simp: NodeIdentity_def split: sum.splits)
  also have "\<dots> \<longleftrightarrow> sole_identity n (node_uris c)"
    using node_identity_loop_iff [OF \<open>n \<noteq> []\<close>] by (simp add: node_uris_def)
  finally show ?thesis
    using True by (auto simp: sole_identity_def NodeURI_def VMURI_def)
next
  case False
  then show ?thesis by (auto simp: NodeIdentity_def split: sum.splits)
qed

lemma vm_identity_loop_taken:
  "identity \<noteq> '''' \<Longrightarrow> vm_identity_loop identity us = Inr n \<longleftrightarrow>
   n = identity \<and> filter (\<lambda>u. has_prefix u vmPrefix) us = []"
  by (induction us arbitrary: identity) auto

lemma vm_identity_loop_mem:
  "vm_identity_loop identity us = Inr n \<Longrightarrow> n \<noteq> identity \<Longrightarrow> vmPrefix @ n \<in> set us"
proof (induction us arbitrary: identity)
  case (Cons v us)
  show ?case
  proof (cases "has_prefix v vmPrefix")
    case True
    with Cons.prems have id: "identity = ''''" and l: "vm_identity_loop (trim_prefix v vmPrefix) us = Inr n"
      by (auto split: if_splits)
    show ?thesis
    proof (cases "n = trim_prefix v vmPrefix")
      case True
      with has_prefix_trim [OF \<open>has_prefix v vmPrefix\<close>] show ?thesis by simp
    next
      case False
      with Cons.IH [OF l] show ?thesis by simp
    qed
  next
    case False
    with Cons show ?thesis by auto
  qed
qed simp

text \<open>The identity a certificate is given. A client certificate speaks for node n exactly when n
  is a well-formed name, and the URI names in the two node namespaces are a single one that is the
  canonical host URI of n or, for a lower-case instance UUID, its canonical VM URI (empty host URIs
  before it are skipped). Renewal accepts only a certificate that carries the VM URI of a lower-case
  instance UUID, so a host certificate never renews a VM identity.\<close>

theorem certificate_identity:
  "(NodeIdentity (Some c) = Inr n \<longleftrightarrow>
     hostnamePattern n \<and> (\<exists>k u. node_uris c = replicate k hostPrefix @ [u] \<and> (NodeURI n = Some u \<or> VMURI n = Some u))) \<and>
   (VMIdentity (Some c) = Inr n \<longrightarrow> (\<exists>u \<in> set (cert_URIs c). VMURI n = Some u)) \<and>
   (list_all (\<lambda>u. has_prefix u hostPrefix) (cert_URIs c) \<longrightarrow> VMIdentity (Some c) \<noteq> Inr n)"
proof -
  have vm: "VMIdentity (Some c) = Inr n \<Longrightarrow> \<exists>u \<in> set (cert_URIs c). VMURI n = Some u"
    using vm_identity_loop_mem [of "''''" "cert_URIs c" n] uuid_nonempty
    by (cases "n = []") (auto simp: VMIdentity_def VMURI_def valid_vm_id_def split: sum.splits if_splits)
  moreover have "VMIdentity (Some c) \<noteq> Inr n" if "list_all (\<lambda>u. has_prefix u hostPrefix) (cert_URIs c)"
    using vm that not_both_prefixes by (fastforce simp: VMURI_def list_all_iff split: if_splits)
  ultimately show ?thesis by (simp add: NodeIdentity_iff)
qed

definition cert_with :: "string list \<Rightarrow> certificate" where
  "cert_with uris = \<lparr>cert_URIs = uris, cert_CommonName = '''', cert_NotBefore = 0, cert_NotAfter = 0,
     cert_ClientAuth = True, cert_PublicKey = ''''\<rparr>"

definition sample_uuid :: string where
  "sample_uuid = ''0a1b2c3d-0000-4000-8000-0123456789ab''"

lemma sample_uuid_valid: "valid_vm_id sample_uuid"
  by (simp add: valid_vm_id_def sample_uuid_def novaUUIDPattern_def hex_char_def is_digit_def to_lower_def
      to_lower_char_def upt_rec numeral_eq_Suc)

theorem certificate_identity_witness:
  "NodeIdentity (Some (cert_with [vmPrefix @ sample_uuid])) = Inr sample_uuid \<and>
   VMIdentity (Some (cert_with [hostPrefix @ ''h1''])) \<noteq> Inr sample_uuid"
proof -
  have u: "VMURI sample_uuid = Some (vmPrefix @ sample_uuid)"
    using sample_uuid_valid by (simp add: VMURI_def)
  have h: "hostnamePattern sample_uuid"
    using sample_uuid_valid uuid_hostname by (simp add: valid_vm_id_def)
  have e: "\<exists>k u. node_uris (cert_with [vmPrefix @ sample_uuid]) = replicate k hostPrefix @ [u] \<and>
      (NodeURI sample_uuid = Some u \<or> VMURI sample_uuid = Some u)"
    using u by (intro exI [of _ 0] exI [of _ "vmPrefix @ sample_uuid"]) (simp add: node_uris_def cert_with_def)
  show ?thesis
    using certificate_identity [of "cert_with [vmPrefix @ sample_uuid]" sample_uuid] h e
      certificate_identity [of "cert_with [hostPrefix @ ''h1'']" sample_uuid]
    by (simp add: cert_with_def)
qed

text \<open>The two namespaces meet again after authentication. A host certificate whose inventory name
  is spelled like a lower-case instance UUID is accepted, and gives the very identity the VM
  certificate of that instance gives: the same queue, the same target kind \<open>vm\<close>, the same shell
  entry. Separate URI namespaces alone do not keep a host name from colliding with an instance.\<close>

theorem uuid_named_host_is_the_vm:
  "valid_vm_id u \<Longrightarrow>
   \<exists>host_uri vm_uri. NodeURI u = Some host_uri \<and> VMURI u = Some vm_uri \<and> host_uri \<noteq> vm_uri \<and>
     NodeIdentity (Some (cert_with [host_uri])) = Inr u \<and> NodeIdentity (Some (cert_with [vm_uri])) = Inr u \<and>
     TargetKind u = ''vm'' \<and> VMIdentity (Some (cert_with [host_uri])) = Inl NoValidIdentity"
proof -
  assume v: "valid_vm_id u"
  then have h: "hostnamePattern u" and p: "novaUUIDPattern u" by (auto simp: valid_vm_id_def uuid_hostname)
  then have uris: "NodeURI u = Some (hostPrefix @ u)" "VMURI u = Some (vmPrefix @ u)"
    using v by (auto simp: NodeURI_def VMURI_def)
  have one: "node_uris (cert_with [hostPrefix @ u]) = replicate 0 hostPrefix @ [hostPrefix @ u]"
      "node_uris (cert_with [vmPrefix @ u]) = replicate 0 hostPrefix @ [vmPrefix @ u]"
    by (simp_all add: node_uris_def cert_with_def)
  have "NodeIdentity (Some (cert_with [hostPrefix @ u])) = Inr u" "NodeIdentity (Some (cert_with [vmPrefix @ u])) = Inr u"
    unfolding NodeIdentity_iff using one uris h by blast+
  moreover have "\<not> has_prefix (hostPrefix @ u) vmPrefix"
    using not_both_prefixes [of "hostPrefix @ u"] by auto
  ultimately show ?thesis
    using uris p prefix_disjoint [of u u] by (simp add: TargetKind_def VMIdentity_def cert_with_def)
qed

theorem uuid_named_host_is_the_vm_witness:
  "NodeIdentity (Some (cert_with [hostPrefix @ sample_uuid])) = Inr sample_uuid \<and> TargetKind sample_uuid = ''vm''"
  using uuid_named_host_is_the_vm [OF sample_uuid_valid] by (auto simp: NodeURI_def split: if_splits)

end
