(* ===== verification/Node_Gateway.thy ===== *)
theory Node_Gateway
  imports Node_Protocol
begin

text \<open>
  The in-memory request broker of the node access channel, \<^verbatim>\<open>internal/nodeaccess/gateway.go\<close>:
  operators start sessions, agents poll for them and post results, and interactive shells are
  bridged to an agent's stream.

  The gateway's maps are association lists; a Go channel is its buffered contents; a pointer is an
  index. Every handler is cut where the code takes or releases the lock, calls a hook or waits in a
  \<^verbatim>\<open>select\<close>, and each piece is a definition on the state; the relation \<open>gw_step\<close> interleaves
  the pieces of all handlers freely, with the hooks, the clock, the client connections and the
  choice among ready \<^verbatim>\<open>select\<close> cases unconstrained. The calls with an effect outside the gateway
  (grants, audit records, requests handed to agents, results handed to operators, shell messages)
  are logged in \<open>trace\<close>.
\<close>

section \<open>State\<close>

definition maxRequestBody :: nat where "maxRequestBody = 16384"

definition maxInFlight :: nat where "maxInFlight = 256"

definition maxShellSessions :: nat where "maxShellSessions = 32"

definition shellOutputBuffer :: nat where "shellOutputBuffer = 32"

record auditEvent =
  ev_RequestID :: string
  ev_Operator :: string
  ev_Node :: string
  ev_TargetKind :: string
  ev_Operation :: operation
  ev_StartedAt :: gotime
  ev_EndedAt :: gotime
  ev_Outcome :: string

record pendingRequest =
  pr_node :: string
  pr_result :: nat

record shellMessage =
  sm_Type :: string
  sm_SessionID :: string
  sm_Data :: string
  sm_Columns :: nat
  sm_Rows :: nat
  sm_ExitCode :: int
  sm_Error :: string

record shellBridge =
  sb_id :: string
  sb_ref :: nat

record gateway =
  queues :: "(string, request list) gomap"
  pending :: "(string, pendingRequest) gomap"
  agents :: "(string, nat) gomap"
  shells :: "(string, shellBridge) gomap"
  gw_closed :: bool

definition NewGateway :: "bool \<Rightarrow> bool \<Rightarrow> bool \<Rightarrow> gateway option" where
  "NewGateway operators nodes audit =
    (if \<not> operators \<or> \<not> nodes \<or> \<not> audit then None
     else Some \<lparr>queues = [], pending = [], agents = [], shells = [], gw_closed = False\<rparr>)"

definition queueLocked :: "gateway \<Rightarrow> string \<Rightarrow> gateway" where
  "queueLocked g node = (case map_of (queues g) node of
     Some q \<Rightarrow> g
   | None \<Rightarrow> g \<lparr>queues := AList.update node [] (queues g)\<rparr>)"

definition removePending :: "gateway \<Rightarrow> string \<Rightarrow> gateway" where
  "removePending g i = g \<lparr>pending := AList.delete i (pending g)\<rparr>"

definition gw_Close :: "gateway \<Rightarrow> gateway" where
  "gw_Close g = (if gw_closed g then g else g \<lparr>gw_closed := True\<rparr>)"

definition bearer :: "string \<Rightarrow> string" where
  "bearer header = (if \<not> has_prefix header ''Bearer '' then '''' else trim_space (trim_prefix header ''Bearer ''))"

section \<open>Requests, replies and hooks\<close>

datatype gw_error =
    BadBody
  | InvalidTargetNode
  | RequestInvalid validate_error
  | BearerRequired
  | OperatorNotAuthorized
  | TargetNotAvailable
  | AtSessionCapacity
  | RequestIDActive
  | StartAuditFailed
  | ShuttingDown
  | CompletionAuditFailed
  | TimedOut
  | NodeUnauthenticated identity_error
  | NoVerifiedCertificate
  | InvalidForwardedCertificate
  | UntrustedForwardedCertificate
  | NodeNotAuthorized
  | InvalidResult
  | RequestNotFound
  | AlreadyCompleted
  | VMIdentitiesOnly
  | AgentNotConnected
  | ShellActive
  | ShellCapacityFull
  | NoSessionID
  | MethodNotAllowed

datatype reply =
    NoContent
  | Accepted
  | SendRequest request
  | SendResult node_result
  | HTTPError nat gw_error
  | NoReply

record hooks =
  AuthorizeNodeAccess :: "string \<Rightarrow> string \<Rightarrow> operation \<Rightarrow> string option"
  AuthorizeNode :: "string \<Rightarrow> bool"

type_synonym certpool = "certificate list"

record x509lib =
  QueryUnescape :: "string \<Rightarrow> string option"
  pem_Decode :: "string \<Rightarrow> (string \<times> string) option"
  ParseCertificate :: "string \<Rightarrow> certificate option"
  cert_Verify :: "certpool \<Rightarrow> certificate \<Rightarrow> bool"

record http_request =
  hr_peerCertificates :: "certificate list option"
  hr_verifiedChains :: nat
  hr_sslClientCert :: string
  hr_authorization :: string

definition forwardedCertificate ::
  "x509lib \<Rightarrow> certpool option \<Rightarrow> http_request \<Rightarrow> gw_error + certificate" where
  "forwardedCertificate lib nodeRoots r = (case nodeRoots of
     None \<Rightarrow> Inl NoVerifiedCertificate
   | Some roots \<Rightarrow>
     if hr_sslClientCert r = '''' then Inl NoVerifiedCertificate
     else (case QueryUnescape lib (hr_sslClientCert r) of
       None \<Rightarrow> Inl InvalidForwardedCertificate
     | Some certPEM \<Rightarrow>
       (case pem_Decode lib certPEM of
          None \<Rightarrow> Inl InvalidForwardedCertificate
        | Some (typ, bytes) \<Rightarrow>
          if typ \<noteq> ''CERTIFICATE'' then Inl InvalidForwardedCertificate
          else (case ParseCertificate lib bytes of
            None \<Rightarrow> Inl InvalidForwardedCertificate
          | Some cert \<Rightarrow>
            if \<not> cert_Verify lib roots cert then Inl UntrustedForwardedCertificate else Inr cert))))"

definition requestPeerCertificate ::
  "x509lib \<Rightarrow> certpool option \<Rightarrow> http_request \<Rightarrow> gw_error + certificate" where
  "requestPeerCertificate lib nodeRoots r =
    (case hr_peerCertificates r of
       Some (c # cs) \<Rightarrow> if hr_verifiedChains r > 0 then Inr c else forwardedCertificate lib nodeRoots r
     | _ \<Rightarrow> forwardedCertificate lib nodeRoots r)"

definition requestNodeIdentity ::
  "x509lib \<Rightarrow> certpool option \<Rightarrow> http_request \<Rightarrow> gw_error + string" where
  "requestNodeIdentity lib nodeRoots r = (case requestPeerCertificate lib nodeRoots r of
     Inl e \<Rightarrow> Inl e
   | Inr cert \<Rightarrow> (case NodeIdentity (Some cert) of Inl e \<Rightarrow> Inl (NodeUnauthenticated e) | Inr n \<Rightarrow> Inr n))"

datatype endpoint = Poll | AcceptResult | Renew | Enroll | Binary | Vendordata | Sessions | Stream | Shell

datatype route = Healthy | Handle endpoint | Refuse | NotFound

definition endpoints :: "(string \<times> string \<times> endpoint) list" where
  "endpoints =
    [(''/v1/agent/poll'', ''POST'', Poll), (''/v1/agent/result'', ''POST'', AcceptResult),
     (''/v1/agent/renew'', ''POST'', Renew), (''/v1/agent/enroll'', ''POST'', Enroll),
     (''/v1/agent/binary'', ''GET'', Binary), (''/v1/vendordata'', ''POST'', Vendordata),
     (''/v1/sessions'', ''POST'', Sessions), (''/v1/agent/stream'', ''GET'', Stream),
     (''/v1/sessions/shell'', ''GET'', Shell)]"

definition ServeHTTP :: "string \<Rightarrow> string \<Rightarrow> route" where
  "ServeHTTP path meth =
    (if path = ''/healthz'' \<and> meth = ''GET'' then Healthy
     else case map_of endpoints path of
       None \<Rightarrow> NotFound
     | Some (m, e) \<Rightarrow> if meth \<noteq> m then Refuse else Handle e)"

section \<open>Sessions\<close>

datatype phase =
    Recording
  | Enqueuing
  | Waiting
  | Finishing node_result
  | Done reply

record session =
  s_node :: string
  s_req :: request
  s_event :: auditEvent
  s_buf :: "node_result option"
  s_phase :: phase

datatype shell_phase =
    ShellRecording
  | ShellStarting
  | ShellRunning
  | ShellReturning
  | ShellClosing
  | ShellEnded

record shell =
  sh_node :: string
  sh_id :: string
  sh_agent :: nat
  sh_event :: auditEvent
  sh_out :: "shellMessage list"
  sh_outcome :: string
  sh_finished :: bool
  sh_started :: bool
  sh_phase :: shell_phase

datatype gw_event =
    T_Operator string string operation
  | T_Node string
  | T_Audit auditEvent
  | T_Dispatch string request
  | T_Answer string node_result
  | T_Reply string request node_result
  | T_ToAgent string shellMessage
  | T_FromAgent string shellMessage
  | T_Deliver string string shellMessage

record gw_state =
  gw :: gateway
  sessions :: "session list"
  posting :: "(nat \<times> string \<times> node_result) list"
  peers :: "string list"
  shellruns :: "shell list"
  routing :: "(nat \<times> shellMessage) list"
  trace :: "gw_event list"

subsection \<open>Admission: everything before the lock\<close>

definition startSession_admit ::
  "hooks \<Rightarrow> (string \<times> request) option \<Rightarrow> http_request \<Rightarrow> gotime \<Rightarrow> reply + string \<times> request \<times> string" where
  "startSession_admit H body r now = (case body of
     None \<Rightarrow> Inl (HTTPError 400 BadBody)
   | Some (node, req) \<Rightarrow>
     if NodeURI node = None then Inl (HTTPError 400 InvalidTargetNode)
     else (case Validate req now of
       Some e \<Rightarrow> Inl (HTTPError 400 (RequestInvalid e))
     | None \<Rightarrow>
       (let credential = bearer (hr_authorization r) in
        if credential = '''' then Inl (HTTPError 401 BearerRequired)
        else (case AuthorizeNodeAccess H credential node (rq_Operation req) of
          None \<Rightarrow> Inl (HTTPError 403 OperatorNotAuthorized)
        | Some operator \<Rightarrow>
          if operator = '''' then Inl (HTTPError 403 OperatorNotAuthorized)
          else if \<not> AuthorizeNode H node then Inl (HTTPError 404 TargetNotAvailable)
          else Inr (node, req, operator)))))"

definition start_event :: "string \<Rightarrow> string \<Rightarrow> string \<Rightarrow> operation \<Rightarrow> gotime \<Rightarrow> auditEvent" where
  "start_event i operator node opn started =
     \<lparr>ev_RequestID = i, ev_Operator = operator, ev_Node = node, ev_TargetKind = TargetKind node,
      ev_Operation = opn, ev_StartedAt = started, ev_EndedAt = 0, ev_Outcome = ''started''\<rparr>"

subsection \<open>The critical section that registers a session\<close>

definition startSession_register ::
  "gw_state \<Rightarrow> string \<Rightarrow> request \<Rightarrow> string \<Rightarrow> gotime \<Rightarrow> reply + gw_state" where
  "startSession_register s node req operator started =
    (let g = gw s in
     if length (pending g) \<ge> maxInFlight then Inl (HTTPError 503 AtSessionCapacity)
     else if map_of (pending g) (rq_ID req) \<noteq> None then Inl (HTTPError 409 RequestIDActive)
     else let g1 = queueLocked g node;
              job = \<lparr>pr_node = node, pr_result = length (sessions s)\<rparr>;
              g2 = g1 \<lparr>pending := AList.update (rq_ID req) job (pending g1)\<rparr> in
       Inr (s \<lparr>gw := g2,
         sessions := sessions s @ [\<lparr>s_node = node, s_req = req,
            s_event = start_event (rq_ID req) operator node (rq_Operation req) started,
            s_buf = None, s_phase = Recording\<rparr>],
         trace := trace s @ [T_Operator operator node (rq_Operation req), T_Node node]\<rparr>))"

definition set_session :: "gw_state \<Rightarrow> nat \<Rightarrow> (session \<Rightarrow> session) \<Rightarrow> gw_state" where
  "set_session s i f = s \<lparr>sessions := (sessions s)[i := f (sessions s ! i)]\<rparr>"

definition emit :: "gw_state \<Rightarrow> gw_event list \<Rightarrow> gw_state" where
  "emit s es = s \<lparr>trace := trace s @ es\<rparr>"

definition drop_pending :: "gw_state \<Rightarrow> string \<Rightarrow> gw_state" where
  "drop_pending s i = s \<lparr>gw := removePending (gw s) i\<rparr>"

definition end_session :: "gw_state \<Rightarrow> nat \<Rightarrow> reply \<Rightarrow> gw_state" where
  "end_session s i r = set_session s i (\<lambda>x. x \<lparr>s_phase := Done r\<rparr>)"

definition record_start :: "gw_state \<Rightarrow> nat \<Rightarrow> bool \<Rightarrow> gw_state" where
  "record_start s i ok = (let x = sessions s ! i in
     if \<not> ok then end_session (drop_pending s (rq_ID (s_req x))) i (HTTPError 503 StartAuditFailed)
     else set_session (emit s [T_Audit (s_event x)]) i (\<lambda>x. x \<lparr>s_phase := Enqueuing\<rparr>))"

definition enqueue_ready :: "gw_state \<Rightarrow> nat \<Rightarrow> bool" where
  "enqueue_ready s i \<longleftrightarrow> (case map_of (queues (gw s)) (s_node (sessions s ! i)) of
     None \<Rightarrow> False | Some q \<Rightarrow> length q < maxInFlight)"

definition enqueue :: "gw_state \<Rightarrow> nat \<Rightarrow> gw_state" where
  "enqueue s i = (let x = sessions s ! i; g = gw s;
       q = the (map_of (queues g) (s_node x)) in
     set_session (s \<lparr>gw := g \<lparr>queues := AList.update (s_node x) (q @ [s_req x]) (queues g)\<rparr>\<rparr>) i
       (\<lambda>x. x \<lparr>s_phase := Waiting\<rparr>))"

definition enqueue_cancelled :: "gw_state \<Rightarrow> nat \<Rightarrow> gw_state" where
  "enqueue_cancelled s i = end_session (drop_pending s (rq_ID (s_req (sessions s ! i)))) i NoReply"

definition enqueue_closed :: "gw_state \<Rightarrow> nat \<Rightarrow> gw_state" where
  "enqueue_closed s i =
     end_session (drop_pending s (rq_ID (s_req (sessions s ! i)))) i (HTTPError 503 ShuttingDown)"

definition result_outcome :: "node_result \<Rightarrow> string" where
  "result_outcome r = (if rs_Error r \<noteq> '''' then ''failed'' else ''completed'')"

definition take_result :: "gw_state \<Rightarrow> nat \<Rightarrow> node_result \<Rightarrow> gotime \<Rightarrow> gw_state" where
  "take_result s i r now = set_session s i (\<lambda>x. x \<lparr>s_buf := None, s_phase := Finishing r,
     s_event := (s_event x) \<lparr>ev_EndedAt := now, ev_Outcome := result_outcome r\<rparr>\<rparr>)"

definition record_end :: "gw_state \<Rightarrow> nat \<Rightarrow> node_result \<Rightarrow> bool \<Rightarrow> gw_state" where
  "record_end s i r ok = (let x = sessions s ! i in
     if \<not> ok then end_session s i (HTTPError 503 CompletionAuditFailed)
     else end_session (emit s [T_Audit (s_event x), T_Reply (s_node x) (s_req x) r]) i (SendResult r))"

definition wait_timeout :: "gw_state \<Rightarrow> nat \<Rightarrow> gotime \<Rightarrow> bool \<Rightarrow> gw_state" where
  "wait_timeout s i now ok = (let x = sessions s ! i;
       e = (s_event x) \<lparr>ev_EndedAt := now, ev_Outcome := ''timeout''\<rparr> in
     end_session (emit (drop_pending s (rq_ID (s_req x))) (if ok then [T_Audit e] else [])) i (HTTPError 504 TimedOut))"

definition wait_cancelled :: "gw_state \<Rightarrow> nat \<Rightarrow> gotime \<Rightarrow> bool \<Rightarrow> gw_state" where
  "wait_cancelled s i now ok = (let x = sessions s ! i;
       e = (s_event x) \<lparr>ev_EndedAt := now, ev_Outcome := ''cancelled''\<rparr> in
     end_session (emit (drop_pending s (rq_ID (s_req x))) (if ok then [T_Audit e] else [])) i NoReply)"

definition wait_closed :: "gw_state \<Rightarrow> nat \<Rightarrow> gw_state" where
  "wait_closed s i =
     end_session (drop_pending s (rq_ID (s_req (sessions s ! i)))) i (HTTPError 503 ShuttingDown)"

section \<open>Agents\<close>

definition poll_admit ::
  "hooks \<Rightarrow> x509lib \<Rightarrow> certpool option \<Rightarrow> http_request \<Rightarrow> reply + string" where
  "poll_admit H lib roots r = (case requestNodeIdentity lib roots r of
     Inl e \<Rightarrow> Inl (HTTPError 401 e)
   | Inr node \<Rightarrow> if \<not> AuthorizeNode H node then Inl (HTTPError 403 NodeNotAuthorized) else Inr node)"

definition poll_queue :: "gw_state \<Rightarrow> string \<Rightarrow> gw_state" where
  "poll_queue s node = s \<lparr>gw := queueLocked (gw s) node\<rparr>"

definition poll_take :: "gw_state \<Rightarrow> string \<Rightarrow> (gw_state \<times> request) option" where
  "poll_take s node = (case map_of (queues (gw s)) node of
     Some (req # q) \<Rightarrow> Some (emit (s \<lparr>gw := (gw s) \<lparr>queues := AList.update node q (queues (gw s))\<rparr>\<rparr>)
         [T_Dispatch node req], req)
   | _ \<Rightarrow> None)"

definition result_wellformed :: "node_result \<Rightarrow> bool" where
  "result_wellformed r \<longleftrightarrow> \<not> (rs_Version r \<noteq> ProtocolVersion \<or> \<not> requestIDPattern (rs_ID r)
     \<or> length (rs_Output r) > maxResultBytes \<or> length (rs_Error r) > maxResultError)"

definition acceptResult_admit ::
  "hooks \<Rightarrow> x509lib \<Rightarrow> certpool option \<Rightarrow> node_result option \<Rightarrow> http_request \<Rightarrow>
   reply + string \<times> node_result" where
  "acceptResult_admit H lib roots body r = (case poll_admit H lib roots r of
     Inl e \<Rightarrow> Inl e
   | Inr node \<Rightarrow> (case body of
       None \<Rightarrow> Inl (HTTPError 400 BadBody)
     | Some result \<Rightarrow>
         if \<not> result_wellformed result then Inl (HTTPError 400 InvalidResult) else Inr (node, result)))"

definition acceptResult_claim :: "gw_state \<Rightarrow> string \<Rightarrow> node_result \<Rightarrow> reply + gw_state" where
  "acceptResult_claim s node result = (case map_of (pending (gw s)) (rs_ID result) of
     None \<Rightarrow> Inl (HTTPError 404 RequestNotFound)
   | Some p \<Rightarrow>
     if pr_node p \<noteq> node then Inl (HTTPError 404 RequestNotFound)
     else Inr (drop_pending s (rs_ID result) \<lparr>posting := (pr_result p, node, result) # posting s\<rparr>))"

definition acceptResult_send :: "gw_state \<Rightarrow> nat \<times> string \<times> node_result \<Rightarrow> gw_state \<times> reply" where
  "acceptResult_send s p = (case p of (i, node, result) \<Rightarrow>
     let s1 = s \<lparr>posting := remove1 p (posting s)\<rparr> in
     (case s_buf (sessions s ! i) of
        None \<Rightarrow> (emit (set_session s1 i (\<lambda>x. x \<lparr>s_buf := Some result\<rparr>)) [T_Answer node result], Accepted)
      | Some _ \<Rightarrow> (s1, HTTPError 409 AlreadyCompleted)))"

section \<open>Shells\<close>

definition startShell_admit ::
  "hooks \<Rightarrow> string \<Rightarrow> http_request \<Rightarrow> reply + string" where
  "startShell_admit H node r =
    (if NodeURI node = None then Inl (HTTPError 400 InvalidTargetNode)
     else if TargetKind node \<noteq> ''vm'' then Inl (HTTPError 400 VMIdentitiesOnly)
     else let credential = bearer (hr_authorization r) in
       if credential = '''' then Inl (HTTPError 401 BearerRequired)
       else (case AuthorizeNodeAccess H credential node OperationShellSession of
         None \<Rightarrow> Inl (HTTPError 403 OperatorNotAuthorized)
       | Some operator \<Rightarrow>
         if operator = '''' then Inl (HTTPError 403 OperatorNotAuthorized)
         else if \<not> AuthorizeNode H node then Inl (HTTPError 404 TargetNotAvailable)
         else Inr operator))"

definition startShell_claim ::
  "gw_state \<Rightarrow> string \<Rightarrow> string \<Rightarrow> string option \<Rightarrow> gotime \<Rightarrow> reply + gw_state" where
  "startShell_claim s node operator sessionID started =
    (let g = gw s in
     case map_of (agents g) node of
       None \<Rightarrow> Inl (HTTPError 503 AgentNotConnected)
     | Some agent \<Rightarrow>
       if map_of (shells g) node \<noteq> None then Inl (HTTPError 409 ShellActive)
       else if length (shells g) \<ge> maxShellSessions then Inl (HTTPError 503 ShellCapacityFull)
       else (case sessionID of
         None \<Rightarrow> Inl (HTTPError 500 NoSessionID)
       | Some i \<Rightarrow>
         Inr (s \<lparr>gw := g \<lparr>shells := AList.update node \<lparr>sb_id = i, sb_ref = length (shellruns s)\<rparr> (shells g)\<rparr>,
           shellruns := shellruns s @ [\<lparr>sh_node = node, sh_id = i, sh_agent = agent,
             sh_event = start_event i operator node OperationShellSession started,
             sh_out = [], sh_outcome = ''completed'', sh_finished = False, sh_started = False,
             sh_phase = ShellRecording\<rparr>],
           trace := trace s @ [T_Operator operator node OperationShellSession, T_Node node]\<rparr>)))"

definition set_shell :: "gw_state \<Rightarrow> nat \<Rightarrow> (shell \<Rightarrow> shell) \<Rightarrow> gw_state" where
  "set_shell s i f = s \<lparr>shellruns := (shellruns s)[i := f (shellruns s ! i)]\<rparr>"

definition shell_message :: "string \<Rightarrow> string \<Rightarrow> string \<Rightarrow> shellMessage" where
  "shell_message typ i err = \<lparr>sm_Type = typ, sm_SessionID = i, sm_Data = '''', sm_Columns = 0, sm_Rows = 0,
     sm_ExitCode = 0, sm_Error = err\<rparr>"

definition start_message :: "string \<Rightarrow> shellMessage" where
  "start_message i = (shell_message ''start'' i '''') \<lparr>sm_Columns := 80, sm_Rows := 24\<rparr>"

definition maxShellFrame :: nat where "maxShellFrame = 65536"

definition receiveShellMessage :: "shellMessage \<Rightarrow> shellMessage option" where
  "receiveShellMessage m = (if length (sm_Data m) > maxShellFrame then None else Some m)"

definition send_agent :: "gw_state \<Rightarrow> nat \<Rightarrow> shellMessage \<Rightarrow> bool \<Rightarrow> gw_state" where
  "send_agent s p m ok = (if ok then emit s [T_ToAgent (peers s ! p) m] else s)"

definition finishShell :: "gw_state \<Rightarrow> nat \<Rightarrow> bool \<Rightarrow> gw_state" where
  "finishShell s i ok = (let x = shellruns s ! i; g = gw s;
       g' = (case map_of (shells g) (sh_node x) of
               Some b \<Rightarrow> if sb_ref b = i then g \<lparr>shells := AList.delete (sh_node x) (shells g)\<rparr> else g
             | None \<Rightarrow> g) in
     send_agent (s \<lparr>gw := g'\<rparr>) (sh_agent x) (shell_message ''close'' (sh_id x) '''') ok)"

definition shell_record :: "gw_state \<Rightarrow> nat \<Rightarrow> bool \<Rightarrow> bool \<Rightarrow> gw_state" where
  "shell_record s i audit_ok send_ok = (let x = shellruns s ! i in
     if \<not> audit_ok then set_shell (finishShell s i send_ok) i (\<lambda>x. x \<lparr>sh_phase := ShellEnded\<rparr>)
     else set_shell (emit s [T_Audit (sh_event x)]) i (\<lambda>x. x \<lparr>sh_phase := ShellStarting\<rparr>))"

definition shell_start :: "gw_state \<Rightarrow> nat \<Rightarrow> bool \<Rightarrow> gw_state" where
  "shell_start s i ok = (let x = shellruns s ! i in
     set_shell (send_agent s (sh_agent x) (start_message (sh_id x)) ok) i
       (\<lambda>x. x \<lparr>sh_phase := (if ok then ShellRunning else ShellReturning)\<rparr>))"

definition client_input_ok :: "shellMessage \<Rightarrow> bool" where
  "client_input_ok m \<longleftrightarrow> sm_Type m = ''input'' \<or> sm_Type m = ''resize'' \<or> sm_Type m = ''close''"

definition shell_input :: "gw_state \<Rightarrow> nat \<Rightarrow> shellMessage \<Rightarrow> bool \<Rightarrow> gw_state" where
  "shell_input s i m ok = (let x = shellruns s ! i in
     if receiveShellMessage m = None \<or> \<not> client_input_ok m then s
     else send_agent s (sh_agent x) (m \<lparr>sm_SessionID := sh_id x\<rparr>) ok)"

definition ends_shell :: "shellMessage \<Rightarrow> bool" where
  "ends_shell m \<longleftrightarrow> sm_Type m = ''exit'' \<or> sm_Type m = ''error''"

definition after_message :: "shellMessage \<Rightarrow> bool \<Rightarrow> shell \<Rightarrow> shell" where
  "after_message m ok x = x
     \<lparr>sh_started := (sh_started x \<or> sm_Type m = ''started''),
      sh_outcome := (if sm_Type m = ''error'' then ''failed'' else sh_outcome x),
      sh_finished := (sh_finished x \<or> ends_shell m),
      sh_phase := (if \<not> ok \<or> ends_shell m then ShellReturning else sh_phase x)\<rparr>"

definition shell_output :: "gw_state \<Rightarrow> nat \<Rightarrow> bool \<Rightarrow> gw_state option" where
  "shell_output s i ok = (let x = shellruns s ! i in
     case sh_out x of [] \<Rightarrow> None
     | m # ms \<Rightarrow> Some (set_shell (if ok then emit s [T_Deliver (sh_node x) (sh_id x) m] else s) i
         (\<lambda>x. after_message m ok (x \<lparr>sh_out := ms\<rparr>))))"

definition shell_start_timer :: "gw_state \<Rightarrow> nat \<Rightarrow> gw_state" where
  "shell_start_timer s i = (if sh_started (shellruns s ! i) then s
     else set_shell s i (\<lambda>x. x \<lparr>sh_phase := ShellReturning\<rparr>))"

definition shell_session_timer :: "gw_state \<Rightarrow> nat \<Rightarrow> bool \<Rightarrow> gw_state" where
  "shell_session_timer s i ok = (let x = shellruns s ! i in
     set_shell (send_agent s (sh_agent x) (shell_message ''close'' (sh_id x) '''') ok) i
       (\<lambda>x. x \<lparr>sh_outcome := ''timeout'', sh_phase := ShellReturning\<rparr>))"

definition shell_return :: "gw_state \<Rightarrow> nat \<Rightarrow> gw_state" where
  "shell_return s i = set_shell s i (\<lambda>x. x \<lparr>sh_phase := ShellReturning\<rparr>)"

definition final_outcome :: "bool \<Rightarrow> shell \<Rightarrow> string" where
  "final_outcome ctxErr x =
    (if ctxErr \<and> sh_outcome x = ''completed'' \<and> \<not> sh_finished x then ''disconnected'' else sh_outcome x)"

definition shell_close :: "gw_state \<Rightarrow> nat \<Rightarrow> bool \<Rightarrow> bool \<Rightarrow> gotime \<Rightarrow> gw_state" where
  "shell_close s i ctxErr ok now =
     set_shell (finishShell s i ok) i (\<lambda>x. x \<lparr>sh_phase := ShellClosing,
       sh_event := (sh_event x) \<lparr>ev_EndedAt := now, ev_Outcome := final_outcome ctxErr x\<rparr>\<rparr>)"

definition shell_end :: "gw_state \<Rightarrow> nat \<Rightarrow> bool \<Rightarrow> gw_state" where
  "shell_end s i audit_ok = set_shell
     (if audit_ok then emit s [T_Audit (sh_event (shellruns s ! i))] else s) i
     (\<lambda>x. x \<lparr>sh_phase := ShellEnded\<rparr>)"

section \<open>Agent streams\<close>

definition stream_connect :: "gw_state \<Rightarrow> string \<Rightarrow> gw_state" where
  "stream_connect s node = s \<lparr>peers := peers s @ [node],
     gw := (gw s) \<lparr>agents := AList.update node (length (peers s)) (agents (gw s))\<rparr>\<rparr>"

definition stream_route :: "gw_state \<Rightarrow> nat \<Rightarrow> shellMessage \<Rightarrow> gw_state" where
  "stream_route s p m =
    (if receiveShellMessage m = None \<or> sm_Type m = ''ready'' \<or> sm_Type m = ''heartbeat'' then s
     else case map_of (shells (gw s)) (peers s ! p) of
       None \<Rightarrow> s
     | Some active \<Rightarrow>
       if sm_SessionID m \<noteq> sb_id active then s
       else emit (s \<lparr>routing := (sb_ref active, m) # routing s\<rparr>) [T_FromAgent (peers s ! p) m])"

definition output_room :: "gw_state \<Rightarrow> nat \<Rightarrow> bool" where
  "output_room s i \<longleftrightarrow> length (sh_out (shellruns s ! i)) < shellOutputBuffer"

definition push_output :: "gw_state \<Rightarrow> nat \<Rightarrow> shellMessage \<Rightarrow> gw_state" where
  "push_output s i m = set_shell s i (\<lambda>x. x \<lparr>sh_out := sh_out x @ [m]\<rparr>)"

definition stream_send :: "gw_state \<Rightarrow> nat \<times> shellMessage \<Rightarrow> gw_state" where
  "stream_send s q = push_output (s \<lparr>routing := remove1 q (routing s)\<rparr>) (fst q) (snd q)"

definition stream_drop :: "gw_state \<Rightarrow> nat \<times> shellMessage \<Rightarrow> gw_state" where
  "stream_drop s q = s \<lparr>routing := remove1 q (routing s)\<rparr>"

definition disconnect_message :: "string \<Rightarrow> shellMessage" where
  "disconnect_message i = shell_message ''error'' i ''VM agent disconnected''"

definition stream_disconnect :: "gw_state \<Rightarrow> nat \<Rightarrow> gw_state" where
  "stream_disconnect s p = (let node = peers s ! p; g = gw s in
     if map_of (agents g) node = Some p then
       (let s1 = s \<lparr>gw := g \<lparr>agents := AList.delete node (agents g)\<rparr>\<rparr> in
        case map_of (shells g) node of
          None \<Rightarrow> s1
        | Some active \<Rightarrow>
          if output_room s1 (sb_ref active) then push_output s1 (sb_ref active) (disconnect_message (sb_id active))
          else s1)
     else s)"

section \<open>All handlers together\<close>

inductive gw_step :: "hooks set \<Rightarrow> gw_state \<Rightarrow> gw_state \<Rightarrow> bool" for HS where
  step_start: "H \<in> HS \<Longrightarrow> startSession_admit H body r now = Inr (node, req, operator) \<Longrightarrow>
    startSession_register s node req operator started = Inr s' \<Longrightarrow> gw_step HS s s'"
| step_record: "i < length (sessions s) \<Longrightarrow> s_phase (sessions s ! i) = Recording \<Longrightarrow> gw_step HS s (record_start s i ok)"
| step_enqueue: "i < length (sessions s) \<Longrightarrow> s_phase (sessions s ! i) = Enqueuing \<Longrightarrow> enqueue_ready s i \<Longrightarrow>
    gw_step HS s (enqueue s i)"
| step_enqueue_cancelled: "i < length (sessions s) \<Longrightarrow> s_phase (sessions s ! i) = Enqueuing \<Longrightarrow>
    gw_step HS s (enqueue_cancelled s i)"
| step_enqueue_closed: "i < length (sessions s) \<Longrightarrow> s_phase (sessions s ! i) = Enqueuing \<Longrightarrow> gw_closed (gw s) \<Longrightarrow>
    gw_step HS s (enqueue_closed s i)"
| step_take: "i < length (sessions s) \<Longrightarrow> s_phase (sessions s ! i) = Waiting \<Longrightarrow> s_buf (sessions s ! i) = Some r \<Longrightarrow>
    gw_step HS s (take_result s i r now)"
| step_timeout: "i < length (sessions s) \<Longrightarrow> s_phase (sessions s ! i) = Waiting \<Longrightarrow>
    rq_Deadline (s_req (sessions s ! i)) \<le> now \<Longrightarrow> gw_step HS s (wait_timeout s i now ok)"
| step_cancelled: "i < length (sessions s) \<Longrightarrow> s_phase (sessions s ! i) = Waiting \<Longrightarrow> gw_step HS s (wait_cancelled s i now ok)"
| step_closed: "i < length (sessions s) \<Longrightarrow> s_phase (sessions s ! i) = Waiting \<Longrightarrow> gw_closed (gw s) \<Longrightarrow>
    gw_step HS s (wait_closed s i)"
| step_finish: "i < length (sessions s) \<Longrightarrow> s_phase (sessions s ! i) = Finishing r \<Longrightarrow> gw_step HS s (record_end s i r ok)"
| step_poll: "H \<in> HS \<Longrightarrow> poll_admit H lib roots hr = Inr node \<Longrightarrow> gw_step HS s (poll_queue s node)"
| step_dispatch: "H \<in> HS \<Longrightarrow> poll_admit H lib roots hr = Inr node \<Longrightarrow> poll_take s node = Some (s', req) \<Longrightarrow> gw_step HS s s'"
| step_claim: "H \<in> HS \<Longrightarrow> acceptResult_admit H lib roots body hr = Inr (node, result) \<Longrightarrow>
    acceptResult_claim s node result = Inr s' \<Longrightarrow> gw_step HS s s'"
| step_answer: "p \<in> set (posting s) \<Longrightarrow> gw_step HS s (fst (acceptResult_send s p))"
| step_shell: "H \<in> HS \<Longrightarrow> startShell_admit H node hr = Inr operator \<Longrightarrow>
    startShell_claim s node operator sid started = Inr s' \<Longrightarrow> gw_step HS s s'"
| step_shell_record: "i < length (shellruns s) \<Longrightarrow> sh_phase (shellruns s ! i) = ShellRecording \<Longrightarrow>
    gw_step HS s (shell_record s i ok1 ok2)"
| step_shell_start: "i < length (shellruns s) \<Longrightarrow> sh_phase (shellruns s ! i) = ShellStarting \<Longrightarrow>
    gw_step HS s (shell_start s i ok)"
| step_shell_input: "i < length (shellruns s) \<Longrightarrow> sh_phase (shellruns s ! i) \<in> {ShellRunning, ShellReturning, ShellClosing} \<Longrightarrow>
    gw_step HS s (shell_input s i m ok)"
| step_shell_output: "i < length (shellruns s) \<Longrightarrow> sh_phase (shellruns s ! i) = ShellRunning \<Longrightarrow>
    shell_output s i ok = Some s' \<Longrightarrow> gw_step HS s s'"
| step_shell_start_timer: "i < length (shellruns s) \<Longrightarrow> sh_phase (shellruns s ! i) = ShellRunning \<Longrightarrow>
    gw_step HS s (shell_start_timer s i)"
| step_shell_timer: "i < length (shellruns s) \<Longrightarrow> sh_phase (shellruns s ! i) = ShellRunning \<Longrightarrow>
    gw_step HS s (shell_session_timer s i ok)"
| step_shell_return: "i < length (shellruns s) \<Longrightarrow> sh_phase (shellruns s ! i) = ShellRunning \<Longrightarrow> gw_step HS s (shell_return s i)"
| step_shell_close: "i < length (shellruns s) \<Longrightarrow> sh_phase (shellruns s ! i) = ShellReturning \<Longrightarrow>
    gw_step HS s (shell_close s i ctxErr ok now)"
| step_shell_end: "i < length (shellruns s) \<Longrightarrow> sh_phase (shellruns s ! i) = ShellClosing \<Longrightarrow> gw_step HS s (shell_end s i ok)"
| step_connect: "H \<in> HS \<Longrightarrow> poll_admit H lib roots hr = Inr node \<Longrightarrow> gw_step HS s (stream_connect s node)"
| step_route: "p < length (peers s) \<Longrightarrow> gw_step HS s (stream_route s p m)"
| step_send: "q \<in> set (routing s) \<Longrightarrow> output_room s (fst q) \<Longrightarrow> gw_step HS s (stream_send s q)"
| step_drop: "q \<in> set (routing s) \<Longrightarrow> gw_step HS s (stream_drop s q)"
| step_disconnect: "p < length (peers s) \<Longrightarrow> gw_step HS s (stream_disconnect s p)"
| step_close: "gw_step HS s (s \<lparr>gw := gw_Close (gw s)\<rparr>)"

definition gw_initial :: "gw_state \<Rightarrow> bool" where
  "gw_initial s \<longleftrightarrow> NewGateway True True True = Some (gw s) \<and> sessions s = [] \<and> posting s = [] \<and> peers s = [] \<and>
     shellruns s = [] \<and> routing s = [] \<and> trace s = []"

inductive gw_reachable :: "hooks set \<Rightarrow> gw_state \<Rightarrow> bool" for HS where
  reach_init: "gw_initial s \<Longrightarrow> gw_reachable HS s"
| reach_step: "gw_reachable HS s \<Longrightarrow> gw_step HS s s' \<Longrightarrow> gw_reachable HS s'"

end
