(* ===== verification/Gateway_Safety.thy ===== *)
theory Gateway_Safety
  imports Node_Gateway
begin

text \<open>
  What the node access gateway guarantees in every interleaving of its handlers: an invariant on
  the state (\<open>gw_inv\<close>), kept by every step, and a justification of every logged effect by earlier
  ones (\<open>gw_just\<close>). The properties at the end read them off for reachable states.
\<close>

section \<open>Traces\<close>

definition justified :: "('e \<Rightarrow> 'e set \<Rightarrow> bool) \<Rightarrow> 'e list \<Rightarrow> bool" where
  "justified J tr \<longleftrightarrow> (\<forall>xs e ys. tr = xs @ e # ys \<longrightarrow> J e (set xs))"

lemma justified_Nil [simp]: "justified J []"
  by (simp add: justified_def)

lemma justified_snoc [simp]: "justified J (tr @ [e]) \<longleftrightarrow> justified J tr \<and> J e (set tr)"
proof
  assume *: "justified J (tr @ [e])"
  have "J f (set xs)" if "tr = xs @ f # ys" for xs f ys
    using * that unfolding justified_def by (metis append.assoc append_Cons)
  moreover have "J e (set tr)" using * unfolding justified_def by blast
  ultimately show "justified J tr \<and> J e (set tr)" by (simp add: justified_def)
next
  assume *: "justified J tr \<and> J e (set tr)"
  show "justified J (tr @ [e])"
    unfolding justified_def
  proof (intro allI impI)
    fix xs f ys assume eq: "tr @ [e] = xs @ f # ys"
    show "J f (set xs)"
    proof (cases ys rule: rev_cases)
      case Nil
      with eq * show ?thesis by auto
    next
      case (snoc ys' y)
      with eq have "tr = xs @ f # ys'" by simp
      with * show ?thesis by (simp add: justified_def)
    qed
  qed
qed

lemma justified_snoc2 [simp]:
  "justified J (tr @ [e, f]) \<longleftrightarrow> justified J tr \<and> J e (set tr) \<and> J f (insert e (set tr))"
  using justified_snoc [of J "tr @ [e]" f] by simp

lemma justified_member: "justified J tr \<Longrightarrow> e \<in> set tr \<Longrightarrow> \<exists>past. past \<subseteq> set tr \<and> J e past"
proof -
  assume j: "justified J tr" and "e \<in> set tr"
  then obtain xs ys where "tr = xs @ e # ys" by (auto dest: split_list)
  with j show ?thesis unfolding justified_def by (intro exI [of _ "set xs"]) auto
qed

definition dispatchable :: "gw_event set \<Rightarrow> string \<Rightarrow> request \<Rightarrow> bool" where
  "dispatchable past n r \<longleftrightarrow> (\<exists>a. T_Audit a \<in> past \<and> ev_Outcome a = ''started'' \<and> ev_Node a = n \<and>
     ev_RequestID a = rq_ID r \<and> ev_Operation a = rq_Operation r \<and>
     T_Operator (ev_Operator a) n (rq_Operation r) \<in> past \<and> T_Node n \<in> past)"

definition shell_audited :: "gw_event set \<Rightarrow> string \<Rightarrow> string \<Rightarrow> bool" where
  "shell_audited past n i \<longleftrightarrow> (\<exists>a. T_Audit a \<in> past \<and> ev_Outcome a = ''started'' \<and> ev_Node a = n \<and>
     ev_RequestID a = i \<and> ev_Operation a = OperationShellSession \<and>
     T_Operator (ev_Operator a) n OperationShellSession \<in> past \<and> T_Node n \<in> past)"

definition from_shell_node :: "gw_event set \<Rightarrow> string \<Rightarrow> string \<Rightarrow> shellMessage \<Rightarrow> bool" where
  "from_shell_node past n i m \<longleftrightarrow> sm_SessionID m = i \<and> (T_FromAgent n m \<in> past \<or> m = disconnect_message i)"

fun gw_just :: "hooks set \<Rightarrow> gw_event \<Rightarrow> gw_event set \<Rightarrow> bool" where
  "gw_just HS (T_Operator u n opn) past = (u \<noteq> '''' \<and>
     (\<exists>H \<in> HS. \<exists>credential. credential \<noteq> '''' \<and> AuthorizeNodeAccess H credential n opn = Some u))"
| "gw_just HS (T_Node n) past = (\<exists>H \<in> HS. AuthorizeNode H n)"
| "gw_just HS (T_Audit a) past = True"
| "gw_just HS (T_Dispatch n r) past = (dispatchable past n r \<and> (\<exists>H \<in> HS. AuthorizeNode H n))"
| "gw_just HS (T_Answer n res) past = (result_wellformed res \<and> (\<exists>H \<in> HS. AuthorizeNode H n))"
| "gw_just HS (T_Reply n r res) past = (T_Answer n res \<in> past \<and> rs_ID res = rq_ID r \<and>
     (\<exists>a. T_Audit a \<in> past \<and> ev_Node a = n \<and> ev_RequestID a = rq_ID r \<and> ev_Operation a = rq_Operation r \<and>
        ev_Outcome a = result_outcome res))"
| "gw_just HS (T_ToAgent n m) past = (TargetKind n = ''vm'' \<and> (sm_Type m \<noteq> ''close'' \<longrightarrow> shell_audited past n (sm_SessionID m)))"
| "gw_just HS (T_FromAgent n m) past = True"
| "gw_just HS (T_Deliver n i m) past = (TargetKind n = ''vm'' \<and> shell_audited past n i \<and> from_shell_node past n i m)"

lemma dispatchable_mono: "dispatchable p n r \<Longrightarrow> p \<subseteq> q \<Longrightarrow> dispatchable q n r"
  unfolding dispatchable_def by blast

lemma shell_audited_mono: "shell_audited p n i \<Longrightarrow> p \<subseteq> q \<Longrightarrow> shell_audited q n i"
  unfolding shell_audited_def by blast

lemma from_shell_node_mono: "from_shell_node p n i m \<Longrightarrow> p \<subseteq> q \<Longrightarrow> from_shell_node q n i m"
  unfolding from_shell_node_def by blast

section \<open>The invariant\<close>

definition session_ok :: "gw_event set \<Rightarrow> session \<Rightarrow> bool" where
  "session_ok past x \<longleftrightarrow>
     ev_Node (s_event x) = s_node x \<and> ev_RequestID (s_event x) = rq_ID (s_req x) \<and>
     ev_Operation (s_event x) = rq_Operation (s_req x) \<and>
     T_Operator (ev_Operator (s_event x)) (s_node x) (rq_Operation (s_req x)) \<in> past \<and> T_Node (s_node x) \<in> past \<and>
     (s_phase x = Recording \<or> s_phase x = Enqueuing \<longrightarrow> ev_Outcome (s_event x) = ''started'') \<and>
     (s_phase x = Enqueuing \<longrightarrow> T_Audit (s_event x) \<in> past) \<and>
     (\<forall>r. s_buf x = Some r \<or> s_phase x = Finishing r \<longrightarrow> T_Answer (s_node x) r \<in> past \<and> rs_ID r = rq_ID (s_req x)) \<and>
     (\<forall>r. s_phase x = Finishing r \<longrightarrow> ev_Outcome (s_event x) = result_outcome r)"

definition sessions_inv :: "gw_state \<Rightarrow> bool" where
  "sessions_inv s \<longleftrightarrow> list_all (session_ok (set (trace s))) (sessions s)"

definition queues_inv :: "gw_state \<Rightarrow> bool" where
  "queues_inv s \<longleftrightarrow> gomap_wf (queues (gw s)) \<and> (\<forall>n q. map_of (queues (gw s)) n = Some q \<longrightarrow>
     length q \<le> maxInFlight \<and> (\<forall>r \<in> set q. dispatchable (set (trace s)) n r))"

definition waits_for :: "session \<Rightarrow> string \<Rightarrow> string \<Rightarrow> bool" where
  "waits_for x n i \<longleftrightarrow> s_node x = n \<and> rq_ID (s_req x) = i \<and> s_buf x = None"

definition pending_inv :: "gw_state \<Rightarrow> bool" where
  "pending_inv s \<longleftrightarrow> gomap_wf (pending (gw s)) \<and> length (pending (gw s)) \<le> maxInFlight \<and>
     (\<forall>i p. map_of (pending (gw s)) i = Some p \<longrightarrow> pr_result p < length (sessions s) \<and>
        waits_for (sessions s ! pr_result p) (pr_node p) i \<and>
        s_phase (sessions s ! pr_result p) \<in> {Recording, Enqueuing, Waiting} \<and>
        pr_result p \<notin> fst ` set (posting s))"

definition posting_inv :: "hooks set \<Rightarrow> gw_state \<Rightarrow> bool" where
  "posting_inv HS s \<longleftrightarrow> distinct (map fst (posting s)) \<and>
     (\<forall>(j, n, r) \<in> set (posting s). j < length (sessions s) \<and> waits_for (sessions s ! j) n (rs_ID r) \<and>
        result_wellformed r \<and> (\<exists>H \<in> HS. AuthorizeNode H n))"

definition live :: "shell \<Rightarrow> bool" where
  "live x \<longleftrightarrow> sh_phase x \<in> {ShellRecording, ShellStarting, ShellRunning, ShellReturning}"

definition shell_ok :: "gw_state \<Rightarrow> shell \<Rightarrow> bool" where
  "shell_ok s x \<longleftrightarrow> TargetKind (sh_node x) = ''vm'' \<and>
     sh_agent x < length (peers s) \<and> peers s ! sh_agent x = sh_node x \<and>
     ev_Node (sh_event x) = sh_node x \<and> ev_RequestID (sh_event x) = sh_id x \<and>
     ev_Operation (sh_event x) = OperationShellSession \<and>
     T_Operator (ev_Operator (sh_event x)) (sh_node x) OperationShellSession \<in> set (trace s) \<and>
     T_Node (sh_node x) \<in> set (trace s) \<and>
     (sh_phase x = ShellRecording \<longrightarrow> ev_Outcome (sh_event x) = ''started'') \<and>
     (sh_phase x \<notin> {ShellRecording, ShellEnded} \<longrightarrow> shell_audited (set (trace s)) (sh_node x) (sh_id x)) \<and>
     (\<forall>m \<in> set (sh_out x). from_shell_node (set (trace s)) (sh_node x) (sh_id x) m)"

definition shells_inv :: "gw_state \<Rightarrow> bool" where
  "shells_inv s \<longleftrightarrow> list_all (shell_ok s) (shellruns s) \<and>
     gomap_wf (shells (gw s)) \<and> length (shells (gw s)) \<le> maxShellSessions \<and>
     (\<forall>n b. map_of (shells (gw s)) n = Some b \<longleftrightarrow>
        sb_ref b < length (shellruns s) \<and> live (shellruns s ! sb_ref b) \<and>
        sh_node (shellruns s ! sb_ref b) = n \<and> sh_id (shellruns s ! sb_ref b) = sb_id b)"

definition streams_inv :: "gw_state \<Rightarrow> bool" where
  "streams_inv s \<longleftrightarrow>
     (\<forall>n p. map_of (agents (gw s)) n = Some p \<longrightarrow> p < length (peers s) \<and> peers s ! p = n) \<and>
     (\<forall>(j, m) \<in> set (routing s). j < length (shellruns s) \<and>
        from_shell_node (set (trace s)) (sh_node (shellruns s ! j)) (sh_id (shellruns s ! j)) m)"

definition gw_inv :: "hooks set \<Rightarrow> gw_state \<Rightarrow> bool" where
  "gw_inv HS s \<longleftrightarrow> sessions_inv s \<and> queues_inv s \<and> pending_inv s \<and> posting_inv HS s \<and> shells_inv s \<and> streams_inv s \<and>
     justified (gw_just HS) (trace s)"

section \<open>Frames\<close>

definition core_inv :: "hooks set \<Rightarrow> gw_state \<Rightarrow> bool" where
  "core_inv HS s \<longleftrightarrow> sessions_inv s \<and> queues_inv s \<and> pending_inv s \<and> posting_inv HS s"

definition shell_inv :: "gw_state \<Rightarrow> bool" where
  "shell_inv s \<longleftrightarrow> shells_inv s \<and> streams_inv s"

lemma gw_inv_parts: "gw_inv HS s \<longleftrightarrow> core_inv HS s \<and> shell_inv s \<and> justified (gw_just HS) (trace s)"
  by (auto simp: gw_inv_def core_inv_def shell_inv_def)

lemma session_ok_mono: "session_ok p x \<Longrightarrow> p \<subseteq> q \<Longrightarrow> session_ok q x"
  unfolding session_ok_def by blast

lemma sessions_inv_nth: "sessions_inv s \<Longrightarrow> i < length (sessions s) \<Longrightarrow> session_ok (set (trace s)) (sessions s ! i)"
  by (simp add: sessions_inv_def list_all_length)

lemma queues_mono:
  "queues_inv s \<Longrightarrow> set (trace s) \<subseteq> set (trace s') \<Longrightarrow> queues (gw s') = queues (gw s) \<Longrightarrow> queues_inv s'"
  unfolding queues_inv_def using dispatchable_mono [where p = "set (trace s)" and q = "set (trace s')"] by simp

lemma sessions_update_mono:
  assumes "sessions_inv s" "set (trace s) \<subseteq> set (trace s')" "session_ok (set (trace s')) x'"
    "sessions s' = (sessions s)[i := x']"
  shows "sessions_inv s'"
proof -
  have "session_ok (set (trace s')) (sessions s' ! n)" if "n < length (sessions s)" for n
    using that assms session_ok_mono [OF sessions_inv_nth [OF assms(1) that] assms(2)]
    by (cases "n = i") auto
  then show ?thesis using assms(4) by (simp add: sessions_inv_def list_all_length)
qed

lemma sessions_mono:
  "sessions_inv s \<Longrightarrow> set (trace s) \<subseteq> set (trace s') \<Longrightarrow> sessions s' = sessions s \<Longrightarrow> sessions_inv s'"
  unfolding sessions_inv_def list_all_length
  using session_ok_mono [where p = "set (trace s)" and q = "set (trace s')"] by simp

lemma core_frame:
  assumes "core_inv HS s" "set (trace s) \<subseteq> set (trace s')" "sessions s' = sessions s" "posting s' = posting s"
    "queues (gw s') = queues (gw s)" "pending (gw s') = pending (gw s)"
  shows "core_inv HS s'"
  using assms sessions_mono [of s s'] queues_mono [of s s']
  by (simp add: core_inv_def pending_inv_def posting_inv_def)

lemma shell_ok_mono:
  "shell_ok s x \<Longrightarrow> set (trace s) \<subseteq> set (trace s') \<Longrightarrow> \<exists>more. peers s' = peers s @ more \<Longrightarrow> shell_ok s' x"
  unfolding shell_ok_def by (auto simp: nth_append intro: shell_audited_mono from_shell_node_mono)

lemma shell_frame:
  assumes "shell_inv s" "set (trace s) \<subseteq> set (trace s')" "shellruns s' = shellruns s" "routing s' = routing s"
    "agents (gw s') = agents (gw s)" "shells (gw s') = shells (gw s)" "peers s' = peers s"
  shows "shell_inv s'"
proof -
  have "shell_ok s' x" if "shell_ok s x" for x
    using that assms(2) by (rule shell_ok_mono) (simp add: assms)
  with assms show ?thesis
    by (auto simp: shell_inv_def shells_inv_def streams_inv_def list_all_iff intro: from_shell_node_mono)
qed

lemma pending_owner:
  "pending_inv s \<Longrightarrow> map_of (pending (gw s)) k = Some p \<Longrightarrow> rq_ID (s_req (sessions s ! pr_result p)) = k"
  by (auto simp: pending_inv_def waits_for_def)

lemma pending_phase:
  "pending_inv s \<Longrightarrow> map_of (pending (gw s)) k = Some p \<Longrightarrow>
   s_phase (sessions s ! pr_result p) = Recording \<or> s_phase (sessions s ! pr_result p) = Enqueuing \<or>
   s_phase (sessions s ! pr_result p) = Waiting"
  by (auto simp: pending_inv_def)

lemma core_update:
  assumes inv: "core_inv HS s" and i: "i < length (sessions s)"
    and sess: "sessions s' = (sessions s)[i := x']"
    and same: "s_node x' = s_node (sessions s ! i)" "s_req x' = s_req (sessions s ! i)"
    and ok: "session_ok (set (trace s')) x'"
    and tr: "set (trace s) \<subseteq> set (trace s')" and qs: "queues (gw s') = queues (gw s)"
    and pend: "pending (gw s') = pending (gw s) \<or> pending (gw s') = AList.delete (rq_ID (s_req x')) (pending (gw s))"
    and post: "set (posting s') \<subseteq> set (posting s)" "distinct (map fst (posting s'))"
    and free: "\<And>k p. s_buf x' \<noteq> None \<or> s_phase x' \<notin> {Recording, Enqueuing, Waiting} \<Longrightarrow>
       map_of (pending (gw s')) k = Some p \<Longrightarrow> pr_result p \<noteq> i"
    and nopost: "s_buf x' \<noteq> None \<Longrightarrow> i \<notin> fst ` set (posting s')"
  shows "core_inv HS s'"
proof -
  from inv have pinv: "pending_inv s" and poinv: "posting_inv HS s" by (auto simp: core_inv_def)
  have sub: "map_of (pending (gw s')) k = Some p \<Longrightarrow> map_of (pending (gw s)) k = Some p" for k p
    using pend by (auto split: if_splits)
  have pwf: "gomap_wf (pending (gw s'))" "length (pending (gw s')) \<le> maxInFlight"
    using pend pinv length_delete_le [of "rq_ID (s_req x')" "pending (gw s)"] by (auto simp: pending_inv_def)
  have sub': "fst ` set (posting s') \<subseteq> fst ` set (posting s)" using post by blast
  have sess_inv: "sessions_inv s'"
    using inv sessions_update_mono [OF _ tr ok sess] by (simp add: core_inv_def)
  have q_inv: "queues_inv s'"
    using inv queues_mono [OF _ tr qs] by (simp add: core_inv_def)
  have "pending_inv s'"
    unfolding pending_inv_def
  proof (intro conjI pwf allI impI)
    fix k p assume k: "map_of (pending (gw s')) k = Some p"
    note old = pinv [unfolded pending_inv_def, THEN conjunct2, THEN conjunct2, rule_format, OF sub [OF k]]
    from old show "pr_result p < length (sessions s')" by (simp add: sess)
    from old k show "waits_for (sessions s' ! pr_result p) (pr_node p) k"
      using free [OF _ k] i by (cases "pr_result p = i") (auto simp: sess waits_for_def same)
    from old show "s_phase (sessions s' ! pr_result p) \<in> {Recording, Enqueuing, Waiting}"
      using free [OF _ k] i by (cases "pr_result p = i") (auto simp: sess)
    from old show "pr_result p \<notin> fst ` set (posting s')" using sub' by blast
  qed
  moreover have "posting_inv HS s'"
    unfolding posting_inv_def
  proof (intro conjI post(2) ballI, clarify)
    fix j n r assume m: "(j, n, r) \<in> set (posting s')"
    then have "(j, n, r) \<in> set (posting s)" using post by blast
    with poinv have old: "j < length (sessions s)" "waits_for (sessions s ! j) n (rs_ID r)" "result_wellformed r"
      "\<exists>H \<in> HS. AuthorizeNode H n" by (auto simp: posting_inv_def)
    have "j = i \<Longrightarrow> s_buf x' = None" using nopost m by force
    with old show "j < length (sessions s') \<and> waits_for (sessions s' ! j) n (rs_ID r) \<and> result_wellformed r \<and>
        (\<exists>H \<in> HS. AuthorizeNode H n)"
      using i by (cases "j = i") (auto simp: sess waits_for_def same)
  qed
  ultimately show ?thesis using sess_inv q_inv by (simp add: core_inv_def)
qed

lemmas state_defs = set_session_def emit_def drop_pending_def removePending_def end_session_def

lemma ended_free:
  "pending_inv s \<Longrightarrow> map_of (AList.delete (rq_ID (s_req (sessions s ! i))) (pending (gw s))) k = Some p \<Longrightarrow> pr_result p \<noteq> i"
  using pending_owner by (auto split: if_splits)

lemma gw_invD:
  assumes "gw_inv HS s"
  shows "core_inv HS s" "shell_inv s" "justified (gw_just HS) (trace s)" "pending_inv s" "posting_inv HS s"
    "sessions_inv s" "queues_inv s" "shells_inv s" "streams_inv s" "distinct (map fst (posting s))"
  using assms by (auto simp: gw_inv_def core_inv_def shell_inv_def posting_inv_def)

section \<open>Session steps\<close>

text \<open>The session leaves through \<open>removePending\<close>, with or without a completion record.\<close>

lemma leave_inv:
  assumes inv: "gw_inv HS s" and i: "i < length (sessions s)"
    and ph: "s_phase (sessions s ! i) \<in> {Recording, Enqueuing, Waiting}"
    and e: "es = [] \<or> es = [T_Audit a]"
  shows "gw_inv HS (end_session (emit (drop_pending s (rq_ID (s_req (sessions s ! i)))) es) i r)"
    (is "gw_inv HS ?s'")
proof -
  note d = gw_invD [OF inv]
  let ?x' = "(sessions s ! i) \<lparr>s_phase := Done r\<rparr>"
  have "core_inv HS ?s'"
  proof (rule core_update [OF d(1) i, where x' = ?x'])
    show "session_ok (set (trace ?s')) ?x'"
      using sessions_inv_nth [OF d(6) i] by (auto simp: session_ok_def state_defs)
    show "s_buf ?x' \<noteq> None \<Longrightarrow> i \<notin> fst ` set (posting ?s')"
      using d(5) by (auto simp: posting_inv_def waits_for_def state_defs)
  qed (use d(10) ended_free [OF d(4)] in \<open>auto simp: state_defs\<close>)
  moreover have "shell_inv ?s'" by (rule shell_frame [OF d(2)]) (auto simp: state_defs)
  moreover have "justified (gw_just HS) (trace ?s')" using d(3) e by (auto simp: state_defs)
  ultimately show ?thesis by (simp add: gw_inv_parts)
qed

lemma emit_Nil [simp]: "emit s [] = s"
  by (simp add: emit_def)

lemma leave_silent:
  "gw_inv HS s \<Longrightarrow> i < length (sessions s) \<Longrightarrow> s_phase (sessions s ! i) \<in> {Recording, Enqueuing, Waiting} \<Longrightarrow>
   gw_inv HS (end_session (drop_pending s (rq_ID (s_req (sessions s ! i)))) i r)"
  using leave_inv [of HS s i "[]"] by simp


lemma record_start_inv:
  assumes inv: "gw_inv HS s" and i: "i < length (sessions s)" and ph: "s_phase (sessions s ! i) = Recording"
  shows "gw_inv HS (record_start s i ok)"
proof (cases ok)
  case False
  with leave_silent [OF inv i] ph show ?thesis by (simp add: record_start_def Let_def)
next
  case True
  note d = gw_invD [OF inv]
  let ?s' = "record_start s i ok" and ?x' = "(sessions s ! i) \<lparr>s_phase := Enqueuing\<rparr>"
  have "core_inv HS ?s'"
  proof (rule core_update [OF d(1) i, where x' = ?x'])
    show "session_ok (set (trace ?s')) ?x'"
      using sessions_inv_nth [OF d(6) i] ph True by (auto simp: session_ok_def state_defs record_start_def Let_def)
    show "s_buf ?x' \<noteq> None \<Longrightarrow> i \<notin> fst ` set (posting ?s')"
      using d(5) True by (auto simp: posting_inv_def waits_for_def state_defs record_start_def Let_def)
    show "\<And>k p. s_buf ?x' \<noteq> None \<or> s_phase ?x' \<notin> {Recording, Enqueuing, Waiting} \<Longrightarrow>
        map_of (pending (gw ?s')) k = Some p \<Longrightarrow> pr_result p \<noteq> i"
      using d(4) True by (auto simp: pending_inv_def waits_for_def state_defs record_start_def Let_def)
  qed (use d(10) True in \<open>auto simp: state_defs record_start_def Let_def\<close>)
  moreover have "shell_inv ?s'"
    by (rule shell_frame [OF d(2)]) (auto simp: state_defs record_start_def Let_def True)
  moreover have "justified (gw_just HS) (trace ?s')" using d(3) True by (auto simp: state_defs record_start_def Let_def)
  ultimately show ?thesis by (simp add: gw_inv_parts)
qed

lemma take_result_inv:
  assumes inv: "gw_inv HS s" and i: "i < length (sessions s)" and ph: "s_phase (sessions s ! i) = Waiting"
    and buf: "s_buf (sessions s ! i) = Some r"
  shows "gw_inv HS (take_result s i r now)"
proof -
  note d = gw_invD [OF inv]
  let ?s' = "take_result s i r now"
  let ?x' = "(sessions s ! i) \<lparr>s_buf := None, s_phase := Finishing r,
     s_event := (s_event (sessions s ! i)) \<lparr>ev_EndedAt := now, ev_Outcome := result_outcome r\<rparr>\<rparr>"
  have "core_inv HS ?s'"
  proof (rule core_update [OF d(1) i, where x' = ?x'])
    show "session_ok (set (trace ?s')) ?x'"
      using sessions_inv_nth [OF d(6) i] ph buf by (auto simp: session_ok_def state_defs take_result_def)
    show "\<And>k p. s_buf ?x' \<noteq> None \<or> s_phase ?x' \<notin> {Recording, Enqueuing, Waiting} \<Longrightarrow>
        map_of (pending (gw ?s')) k = Some p \<Longrightarrow> pr_result p \<noteq> i"
      using d(4) buf by (auto simp: pending_inv_def waits_for_def state_defs take_result_def)
  qed (use d(10) in \<open>auto simp: state_defs take_result_def\<close>)
  moreover have "shell_inv ?s'" by (rule shell_frame [OF d(2)]) (auto simp: state_defs take_result_def)
  moreover have "justified (gw_just HS) (trace ?s')" using d(3) by (auto simp: state_defs take_result_def)
  ultimately show ?thesis by (simp add: gw_inv_parts)
qed

lemma record_end_inv:
  assumes inv: "gw_inv HS s" and i: "i < length (sessions s)" and ph: "s_phase (sessions s ! i) = Finishing r"
  shows "gw_inv HS (record_end s i r ok)"
proof -
  note d = gw_invD [OF inv]
  note x = sessions_inv_nth [OF d(6) i]
  let ?s' = "record_end s i r ok"
  let ?x' = "(sessions s ! i) \<lparr>s_phase := Done (if ok then SendResult r else HTTPError 503 CompletionAuditFailed)\<rparr>"
  have "core_inv HS ?s'"
  proof (rule core_update [OF d(1) i, where x' = ?x'])
    show "session_ok (set (trace ?s')) ?x'"
      using x by (auto simp: session_ok_def state_defs record_end_def Let_def)
    show "\<And>k p. s_buf ?x' \<noteq> None \<or> s_phase ?x' \<notin> {Recording, Enqueuing, Waiting} \<Longrightarrow>
        map_of (pending (gw ?s')) k = Some p \<Longrightarrow> pr_result p \<noteq> i"
      using pending_phase [OF d(4)] ph by (force simp: state_defs record_end_def Let_def split: if_splits)
    show "s_buf ?x' \<noteq> None \<Longrightarrow> i \<notin> fst ` set (posting ?s')"
      using d(5) by (auto simp: posting_inv_def waits_for_def state_defs record_end_def Let_def)
  qed (use d(10) in \<open>auto simp: state_defs record_end_def Let_def\<close>)
  moreover have "shell_inv ?s'" by (rule shell_frame [OF d(2)]) (auto simp: state_defs record_end_def Let_def)
  moreover have "justified (gw_just HS) (trace ?s')"
    using d(3) x ph by (auto simp: state_defs record_end_def Let_def session_ok_def)
  ultimately show ?thesis by (simp add: gw_inv_parts)
qed

lemma enqueue_inv:
  assumes inv: "gw_inv HS s" and i: "i < length (sessions s)" and ph: "s_phase (sessions s ! i) = Enqueuing"
    and ready: "enqueue_ready s i"
  shows "gw_inv HS (enqueue s i)"
proof -
  note d = gw_invD [OF inv]
  note x = sessions_inv_nth [OF d(6) i]
  let ?x = "sessions s ! i"
  from ready obtain q where q: "map_of (queues (gw s)) (s_node ?x) = Some q" "length q < maxInFlight"
    by (auto simp: enqueue_ready_def split: option.splits)
  have disp: "dispatchable (set (trace s)) (s_node ?x) (s_req ?x)"
    using x ph by (auto simp: session_ok_def dispatchable_def)
  let ?x' = "?x \<lparr>s_phase := Waiting\<rparr>"
  let ?s1 = "set_session s i (\<lambda>x. x \<lparr>s_phase := Waiting\<rparr>)"
  have core1: "core_inv HS ?s1"
  proof (rule core_update [OF d(1) i, where x' = ?x'])
    show "session_ok (set (trace ?s1)) ?x'" using x by (auto simp: session_ok_def state_defs)
    show "\<And>k p. s_buf ?x' \<noteq> None \<or> s_phase ?x' \<notin> {Recording, Enqueuing, Waiting} \<Longrightarrow>
        map_of (pending (gw ?s1)) k = Some p \<Longrightarrow> pr_result p \<noteq> i"
      using d(4) by (auto simp: pending_inv_def waits_for_def state_defs)
    show "s_buf ?x' \<noteq> None \<Longrightarrow> i \<notin> fst ` set (posting ?s1)"
      using d(5) by (auto simp: posting_inv_def waits_for_def state_defs)
  qed (use d(10) in \<open>auto simp: state_defs\<close>)
  have "queues_inv (enqueue s i)"
    using d(7) q disp by (auto simp: queues_inv_def enqueue_def Let_def state_defs)
  then have "core_inv HS (enqueue s i)"
    using core1 by (auto simp: core_inv_def sessions_inv_def pending_inv_def posting_inv_def enqueue_def Let_def state_defs)
  moreover have "shell_inv (enqueue s i)" by (rule shell_frame [OF d(2)]) (auto simp: state_defs enqueue_def Let_def)
  moreover have "justified (gw_just HS) (trace (enqueue s i))" using d(3) by (auto simp: state_defs enqueue_def Let_def)
  ultimately show ?thesis by (simp add: gw_inv_parts)
qed

lemma queueLocked_simps [simp]:
  "pending (queueLocked g n) = pending g" "agents (queueLocked g n) = agents g"
  "shells (queueLocked g n) = shells g" "gw_closed (queueLocked g n) = gw_closed g"
  by (simp_all add: queueLocked_def split: option.splits)

lemma queueLocked_queues:
  "map_of (queues (queueLocked g n)) k =
     (if k = n \<and> map_of (queues g) n = None then Some [] else map_of (queues g) k)"
  by (simp add: queueLocked_def split: option.splits)

lemma queueLocked_wf: "gomap_wf (queues g) \<Longrightarrow> gomap_wf (queues (queueLocked g n))"
  by (simp add: queueLocked_def split: option.splits)

lemma queueLocked_inv:
  "queues_inv s \<Longrightarrow> queues (gw s') = queues (queueLocked (gw s) n) \<Longrightarrow> set (trace s) \<subseteq> set (trace s') \<Longrightarrow> queues_inv s'"
  unfolding queues_inv_def
  using queueLocked_wf [of "gw s" n] dispatchable_mono [where p = "set (trace s)" and q = "set (trace s')"]
  by (simp add: queueLocked_queues split: if_splits)

lemma poll_queue_inv: "gw_inv HS s \<Longrightarrow> gw_inv HS (poll_queue s n)"
proof -
  assume inv: "gw_inv HS s"
  note d = gw_invD [OF inv]
  have "queues_inv (poll_queue s n)" by (rule queueLocked_inv [OF d(7)]) (auto simp: poll_queue_def)
  then have "core_inv HS (poll_queue s n)"
    using d by (simp add: core_inv_def sessions_inv_def pending_inv_def posting_inv_def poll_queue_def)
  moreover have "shell_inv (poll_queue s n)" by (rule shell_frame [OF d(2)]) (auto simp: poll_queue_def)
  ultimately show ?thesis using d(3) by (simp add: gw_inv_parts poll_queue_def)
qed

lemma poll_take_inv:
  assumes inv: "gw_inv HS s" and t: "poll_take s n = Some (s', req)" and auth: "\<exists>H \<in> HS. AuthorizeNode H n"
  shows "gw_inv HS s'"
proof -
  note d = gw_invD [OF inv]
  from t obtain q where q: "map_of (queues (gw s)) n = Some (req # q)"
    and s': "s' = emit (s \<lparr>gw := (gw s) \<lparr>queues := AList.update n q (queues (gw s))\<rparr>\<rparr>) [T_Dispatch n req]"
    by (auto simp: poll_take_def split: option.splits list.splits)
  from d(7) q have disp: "dispatchable (set (trace s)) n req" and
      rest: "length q \<le> maxInFlight" "\<forall>r \<in> set q. dispatchable (set (trace s)) n r"
    by (fastforce simp: queues_inv_def)+
  have "queues_inv s'"
    using d(7) rest unfolding queues_inv_def s'
    by (auto simp: emit_def intro: dispatchable_mono [where p = "set (trace s)"])
  moreover have "sessions_inv s'" by (rule sessions_mono [OF d(6)]) (auto simp: s' emit_def)
  ultimately have "core_inv HS s'"
    using d by (simp add: core_inv_def pending_inv_def posting_inv_def s' emit_def)
  moreover have "shell_inv s'" by (rule shell_frame [OF d(2)]) (auto simp: s' emit_def)
  moreover have "justified (gw_just HS) (trace s')" using d(3) disp auth by (simp add: s' emit_def)
  ultimately show ?thesis by (simp add: gw_inv_parts)
qed

lemma nth_snoc_old: "i < length xs \<Longrightarrow> (xs @ [x]) ! i = xs ! i"
  by (simp add: nth_append)

lemma startSession_admitD:
  "startSession_admit H body r now = Inr (node, req, operator) \<Longrightarrow>
   operator \<noteq> [] \<and> NodeURI node \<noteq> None \<and> Validate req now = None \<and> AuthorizeNode H node \<and>
   (\<exists>credential. credential \<noteq> [] \<and> AuthorizeNodeAccess H credential node (rq_Operation req) = Some operator)"
  by (auto simp: startSession_admit_def Let_def split: option.splits if_splits)

lemma register_inv:
  assumes inv: "gw_inv HS s" and H: "H \<in> HS" "startSession_admit H body r now = Inr (node, req, operator)"
    and reg: "startSession_register s node req operator started = Inr s'"
  shows "gw_inv HS s'"
proof -
  note d = gw_invD [OF inv]
  let ?p = "\<lparr>pr_node = node, pr_result = length (sessions s)\<rparr>"
  let ?x = "\<lparr>s_node = node, s_req = req, s_event = start_event (rq_ID req) operator node (rq_Operation req) started,
    s_buf = None, s_phase = Recording\<rparr>"
  from reg have cap: "length (pending (gw s)) < maxInFlight" and new: "map_of (pending (gw s)) (rq_ID req) = None"
    and s': "sessions s' = sessions s @ [?x]" "posting s' = posting s" "queues (gw s') = queues (queueLocked (gw s) node)"
      "pending (gw s') = AList.update (rq_ID req) ?p (pending (gw s))"
      "trace s' = trace s @ [T_Operator operator node (rq_Operation req), T_Node node]"
      "peers s' = peers s" "shellruns s' = shellruns s" "routing s' = routing s"
      "agents (gw s') = agents (gw s)" "shells (gw s') = shells (gw s)"
    by (auto simp: startSession_register_def Let_def split: if_splits)
  have tr: "set (trace s) \<subseteq> set (trace s')" by (auto simp: s')
  have x: "session_ok (set (trace s')) ?x" by (simp add: session_ok_def start_event_def s')
  have "sessions_inv s'"
    using d(6) x session_ok_mono [OF _ tr] by (auto simp: sessions_inv_def s' list_all_iff)
  moreover have "queues_inv s'" by (rule queueLocked_inv [OF d(7) s'(3) tr])
  moreover have "pending_inv s'"
  proof -
    have lt: "pr_result p < length (sessions s)" if "map_of (pending (gw s)) k = Some p" for k p
      using d(4) that unfolding pending_inv_def by blast
    then have lt': "pr_result p < Suc (length (sessions s))" if "map_of (pending (gw s)) k = Some p" for k p
      using that less_SucI by blast
    have fresh: "length (sessions s) \<notin> fst ` set (posting s)" using d(5) by (auto simp: posting_inv_def)
    show ?thesis
      using d(4) cap new lt lt' fresh length_update_new [OF new, of ?p]
      by (auto simp: pending_inv_def s' waits_for_def nth_append split: if_splits)
  qed
  moreover have "posting_inv HS s'" using d(5) by (auto simp: posting_inv_def s' nth_append)
  ultimately have "core_inv HS s'" by (simp add: core_inv_def)
  moreover have "shell_inv s'" by (rule shell_frame [OF d(2) tr]) (simp_all add: s')
  moreover have "justified (gw_just HS) (trace s')"
    using d(3) H(1) startSession_admitD [OF H(2)] by (auto simp: s')
  ultimately show ?thesis by (simp add: gw_inv_parts)
qed

lemma poll_admitD: "poll_admit H lib roots hr = Inr n \<Longrightarrow> AuthorizeNode H n \<and> requestNodeIdentity lib roots hr = Inr n"
  by (auto simp: poll_admit_def split: sum.splits if_splits)

lemma acceptResult_admitD:
  "acceptResult_admit H lib roots body hr = Inr (n, r) \<Longrightarrow>
   AuthorizeNode H n \<and> result_wellformed r \<and> requestNodeIdentity lib roots hr = Inr n"
  by (auto simp: acceptResult_admit_def split: sum.splits option.splits if_splits dest: poll_admitD)

lemma claim_inv:
  assumes inv: "gw_inv HS s" and ok: "result_wellformed r" "\<exists>H \<in> HS. AuthorizeNode H n"
    and c: "acceptResult_claim s n r = Inr s'"
  shows "gw_inv HS s'"
proof -
  note d = gw_invD [OF inv]
  from c obtain p where p: "map_of (pending (gw s)) (rs_ID r) = Some p" "pr_node p = n"
    and s': "s' = drop_pending s (rs_ID r) \<lparr>posting := (pr_result p, n, r) # posting s\<rparr>"
    by (auto simp: acceptResult_claim_def split: option.splits if_splits)
  from d(4) p have w: "pr_result p < length (sessions s)" "waits_for (sessions s ! pr_result p) n (rs_ID r)"
      "pr_result p \<notin> fst ` set (posting s)"
    by (auto simp: pending_inv_def)
  have free: "pr_result q \<noteq> pr_result p" if "map_of (pending (gw s)) k = Some q" "k \<noteq> rs_ID r" for k q
    using pending_owner [OF d(4) that(1)] pending_owner [OF d(4) p(1)] that(2) by auto
  have "pending_inv s'"
    using d(4) free length_delete_le [of "rs_ID r" "pending (gw s)"]
    by (auto simp: pending_inv_def s' drop_pending_def removePending_def)
  moreover have "posting_inv HS s'"
    using d(5) w ok by (auto simp: posting_inv_def s' drop_pending_def)
  ultimately have "core_inv HS s'"
    using d by (simp add: core_inv_def sessions_inv_def queues_inv_def s' drop_pending_def removePending_def)
  moreover have "shell_inv s'"
    by (rule shell_frame [OF d(2)]) (auto simp: s' drop_pending_def removePending_def)
  ultimately show ?thesis using d(3) by (simp add: gw_inv_parts s' drop_pending_def)
qed

text \<open>A result in flight finds its session's one-place channel empty: the conflict branch is dead.\<close>

lemma answer_room: "gw_inv HS s \<Longrightarrow> (j, n, r) \<in> set (posting s) \<Longrightarrow> s_buf (sessions s ! j) = None"
  by (auto dest!: gw_invD(5) simp: posting_inv_def waits_for_def)

lemma pending_not_posting:
  "pending_inv s \<Longrightarrow> map_of (pending (gw s)) k = Some q \<Longrightarrow> (j, m) \<in> set (posting s) \<Longrightarrow> pr_result q \<noteq> j"
  by (force simp: pending_inv_def)

lemma distinct_map_remove1: "distinct (map f xs) \<Longrightarrow> distinct (map f (remove1 x xs))"
  using set_remove1_subset [of x] by (induction xs) force+

lemma answer_inv:
  assumes inv: "gw_inv HS s" and p: "p \<in> set (posting s)"
  shows "gw_inv HS (fst (acceptResult_send s p))"
proof -
  note d = gw_invD [OF inv]
  obtain j n r where pj: "p = (j, n, r)" by (cases p)
  note room = answer_room [OF inv p [unfolded pj]]
  from d(5) p pj have w: "j < length (sessions s)" "waits_for (sessions s ! j) n (rs_ID r)" "result_wellformed r"
      "\<exists>H \<in> HS. AuthorizeNode H n" by (auto simp: posting_inv_def)
  let ?s' = "fst (acceptResult_send s p)" and ?x' = "(sessions s ! j) \<lparr>s_buf := Some r\<rparr>"
  have s': "?s' = emit (set_session (s \<lparr>posting := remove1 p (posting s)\<rparr>) j (\<lambda>x. x \<lparr>s_buf := Some r\<rparr>)) [T_Answer n r]"
    by (simp add: acceptResult_send_def pj room Let_def)
  have pend: "pending (gw ?s') = pending (gw s)" by (simp add: s' state_defs)
  have gone: "j \<notin> fst ` set (remove1 p (posting s))"
  proof
    assume "j \<in> fst ` set (remove1 p (posting s))"
    then obtain n' r' where q: "(j, n', r') \<in> set (remove1 p (posting s))" by force
    then have "(j, n', r') \<in> set (posting s)" by (meson notin_set_remove1)
    with p pj d(10) have "(j, n', r') = p" by (metis eq_key_imp_eq_value)
    moreover have "distinct (posting s)" using d(10) by (simp add: distinct_map)
    ultimately show False using q by (simp add: set_remove1_eq)
  qed
  have "core_inv HS ?s'"
  proof (rule core_update [OF d(1) w(1), where x' = ?x'])
    show "session_ok (set (trace ?s')) ?x'"
      using sessions_inv_nth [OF d(6) w(1)] w(2) by (auto simp: session_ok_def s' state_defs waits_for_def)
    show "\<And>k q. s_buf ?x' \<noteq> None \<or> s_phase ?x' \<notin> {Recording, Enqueuing, Waiting} \<Longrightarrow>
        map_of (pending (gw ?s')) k = Some q \<Longrightarrow> pr_result q \<noteq> j"
      unfolding pend using pending_not_posting [OF d(4) _ p [unfolded pj]] by blast
    show "set (posting ?s') \<subseteq> set (posting s)" using set_remove1_subset [of p "posting s"] by (simp add: s' state_defs)
    show "distinct (map fst (posting ?s'))" using d(10) by (simp add: s' state_defs distinct_map_remove1)
  qed (use gone in \<open>auto simp: s' state_defs\<close>)
  moreover have "shell_inv ?s'" by (rule shell_frame [OF d(2)]) (auto simp: s' state_defs)
  moreover have "justified (gw_just HS) (trace ?s')" using d(3) w by (simp add: s' state_defs)
  ultimately show ?thesis by (simp add: gw_inv_parts)
qed

section \<open>Shell steps\<close>

lemma shells_inv_nth: "shells_inv s \<Longrightarrow> i < length (shellruns s) \<Longrightarrow> shell_ok s (shellruns s ! i)"
  by (simp add: shells_inv_def list_all_length)

lemma shell_entry:
  "shells_inv s \<Longrightarrow> map_of (shells (gw s)) n = Some b \<Longrightarrow>
   sb_ref b < length (shellruns s) \<and> live (shellruns s ! sb_ref b) \<and>
   sh_node (shellruns s ! sb_ref b) = n \<and> sh_id (shellruns s ! sb_ref b) = sb_id b"
  by (simp add: shells_inv_def)

lemma live_entry:
  "shells_inv s \<Longrightarrow> i < length (shellruns s) \<Longrightarrow> live (shellruns s ! i) \<Longrightarrow>
   map_of (shells (gw s)) (sh_node (shellruns s ! i)) = Some \<lparr>sb_id = sh_id (shellruns s ! i), sb_ref = i\<rparr>"
  by (simp add: shells_inv_def)

lemma shell_update:
  assumes inv: "shell_inv s" and i: "i < length (shellruns s)"
    and runs: "shellruns s' = (shellruns s)[i := x']"
    and same: "sh_node x' = sh_node (shellruns s ! i)" "sh_id x' = sh_id (shellruns s ! i)"
    and ok: "shell_ok s' x'" and tr: "set (trace s) \<subseteq> set (trace s')"
    and eqs: "peers s' = peers s" "agents (gw s') = agents (gw s)" "set (routing s') \<subseteq> set (routing s)"
    and sh: "live x' = live (shellruns s ! i) \<and> shells (gw s') = shells (gw s) \<or>
       live (shellruns s ! i) \<and> \<not> live x' \<and> shells (gw s') = AList.delete (sh_node x') (shells (gw s))"
  shows "shell_inv s'"
proof -
  from inv have si: "shells_inv s" and st: "streams_inv s" by (auto simp: shell_inv_def)
  have others: "shell_ok s' (shellruns s' ! n)" if "n < length (shellruns s)" for n
  proof (cases "n = i")
    case True
    with ok i show ?thesis by (simp add: runs)
  next
    case False
    with shell_ok_mono [OF shells_inv_nth [OF si that] tr] show ?thesis by (simp add: runs eqs)
  qed
  have wf: "gomap_wf (shells (gw s'))" "length (shells (gw s')) \<le> maxShellSessions"
    using sh si length_delete_le [of "sh_node x'" "shells (gw s)"] by (auto simp: shells_inv_def)
  have entry: "map_of (shells (gw s')) n = Some b \<longleftrightarrow> sb_ref b < length (shellruns s') \<and> live (shellruns s' ! sb_ref b) \<and>
        sh_node (shellruns s' ! sb_ref b) = n \<and> sh_id (shellruns s' ! sb_ref b) = sb_id b" for n b
    using sh
  proof
    assume "live x' = live (shellruns s ! i) \<and> shells (gw s') = shells (gw s)"
    then show ?thesis
      using si i same by (cases "sb_ref b = i") (simp_all add: shells_inv_def runs)
  next
    assume a: "live (shellruns s ! i) \<and> \<not> live x' \<and> shells (gw s') = AList.delete (sh_node x') (shells (gw s))"
    note e = live_entry [OF si i] a
    show ?thesis
    proof (cases "sb_ref b = i")
      case True
      have "map_of (shells (gw s)) n = Some b \<Longrightarrow> n = sh_node x'"
        using shell_entry [OF si, of n b] True same by simp
      with True a i show ?thesis by (auto simp: runs)
    next
      case False
      have "n = sh_node x' \<Longrightarrow> map_of (shells (gw s)) n \<noteq> Some b"
        using e same False by (cases b) simp
      with False a si show ?thesis by (auto simp: runs shells_inv_def)
    qed
  qed
  have ids: "sh_node (shellruns s' ! j) = sh_node (shellruns s ! j)" "sh_id (shellruns s' ! j) = sh_id (shellruns s ! j)" for j
    using same i by (cases "j = i"; simp add: runs)+
  have "shells_inv s'"
    unfolding shells_inv_def using others wf entry by (simp add: list_all_length runs)
  moreover have "streams_inv s'"
    unfolding streams_inv_def
  proof (intro conjI allI impI ballI, goal_cases)
    case (1 n p)
    with st show ?case by (auto simp: streams_inv_def eqs)
  next
    case (2 n p)
    with st show ?case by (auto simp: streams_inv_def eqs)
  next
    case (3 q)
    then have "q \<in> set (routing s)" using eqs by blast
    with st have "case q of (j, m) \<Rightarrow> j < length (shellruns s) \<and>
        from_shell_node (set (trace s)) (sh_node (shellruns s ! j)) (sh_id (shellruns s ! j)) m"
      unfolding streams_inv_def by blast
    then show ?case
      using ids tr by (auto simp: runs intro: from_shell_node_mono)
  qed
  ultimately show ?thesis by (simp add: shell_inv_def)
qed

lemmas shell_defs = set_shell_def emit_def send_agent_def push_output_def

lemma send_agent_simps [simp]:
  "gw (send_agent s p m ok) = gw s" "sessions (send_agent s p m ok) = sessions s"
  "posting (send_agent s p m ok) = posting s" "peers (send_agent s p m ok) = peers s"
  "shellruns (send_agent s p m ok) = shellruns s" "routing (send_agent s p m ok) = routing s"
  "set (trace s) \<subseteq> set (trace (send_agent s p m ok))"
  by (auto simp: send_agent_def emit_def)

lemma send_agent_mem [simp]: "e \<in> set (trace s) \<Longrightarrow> e \<in> set (trace (send_agent s p m ok))"
  by (simp add: send_agent_def emit_def)

lemma send_agent_just:
  "justified J (trace (send_agent s p m ok)) \<longleftrightarrow>
   justified J (trace s) \<and> (ok \<longrightarrow> J (T_ToAgent (peers s ! p) m) (set (trace s)))"
  by (simp add: send_agent_def emit_def)

lemma set_shell_simps [simp]:
  "gw (set_shell s i f) = gw s" "sessions (set_shell s i f) = sessions s" "posting (set_shell s i f) = posting s"
  "peers (set_shell s i f) = peers s" "routing (set_shell s i f) = routing s" "trace (set_shell s i f) = trace s"
  "shellruns (set_shell s i f) = (shellruns s)[i := f (shellruns s ! i)]"
  by (simp_all add: set_shell_def)

lemma emit_simps [simp]:
  "gw (emit s es) = gw s" "sessions (emit s es) = sessions s" "posting (emit s es) = posting s"
  "peers (emit s es) = peers s" "routing (emit s es) = routing s" "trace (emit s es) = trace s @ es"
  "shellruns (emit s es) = shellruns s"
  by (simp_all add: emit_def)

lemma finishShell_simps [simp]:
  "sessions (finishShell s i ok) = sessions s" "posting (finishShell s i ok) = posting s"
  "peers (finishShell s i ok) = peers s" "shellruns (finishShell s i ok) = shellruns s"
  "routing (finishShell s i ok) = routing s" "queues (gw (finishShell s i ok)) = queues (gw s)"
  "pending (gw (finishShell s i ok)) = pending (gw s)" "agents (gw (finishShell s i ok)) = agents (gw s)"
  by (simp_all add: finishShell_def Let_def split: option.splits)

lemma finishShell_live:
  "shells_inv s \<Longrightarrow> i < length (shellruns s) \<Longrightarrow> live (shellruns s ! i) \<Longrightarrow>
   shells (gw (finishShell s i ok)) = AList.delete (sh_node (shellruns s ! i)) (shells (gw s))"
  using live_entry [of s i] by (simp add: finishShell_def Let_def)

lemma finishShell_trace:
  "trace (finishShell s i ok) = trace s @ (if ok then
     [T_ToAgent (peers s ! sh_agent (shellruns s ! i)) (shell_message ''close'' (sh_id (shellruns s ! i)) [])] else [])"
  by (simp add: finishShell_def Let_def send_agent_def emit_def)

text \<open>One lemma for all steps of one shell: the changed shell is well-formed, its entry in the map goes
  exactly when it stops being live, and the new effects are justified.\<close>

lemma shell_step_inv:
  assumes inv: "gw_inv HS s" and i: "i < length (shellruns s)"
    and runs: "shellruns s' = (shellruns s)[i := x']"
    and same: "sh_node x' = sh_node (shellruns s ! i)" "sh_id x' = sh_id (shellruns s ! i)"
    and ok: "shell_ok s' x'" and tr: "set (trace s) \<subseteq> set (trace s')"
    and eqs: "peers s' = peers s" "agents (gw s') = agents (gw s)" "set (routing s') \<subseteq> set (routing s)"
      "sessions s' = sessions s" "posting s' = posting s" "queues (gw s') = queues (gw s)" "pending (gw s') = pending (gw s)"
    and sh: "live x' = live (shellruns s ! i) \<and> shells (gw s') = shells (gw s) \<or>
       live (shellruns s ! i) \<and> \<not> live x' \<and> shells (gw s') = AList.delete (sh_node x') (shells (gw s))"
    and just: "justified (gw_just HS) (trace s')"
  shows "gw_inv HS s'"
proof -
  note d = gw_invD [OF inv]
  have "core_inv HS s'" by (rule core_frame [OF d(1) tr]) (simp_all add: eqs)
  moreover have "shell_inv s'" by (rule shell_update [OF d(2) i runs same ok tr eqs(1-3) sh])
  ultimately show ?thesis using just by (simp add: gw_inv_parts)
qed

lemma shell_ok_step:
  assumes "shell_ok s x" "set (trace s) \<subseteq> set (trace s')" "peers s' = peers s"
    "sh_node x' = sh_node x" "sh_id x' = sh_id x" "sh_agent x' = sh_agent x"
    "ev_Node (sh_event x') = ev_Node (sh_event x)" "ev_RequestID (sh_event x') = ev_RequestID (sh_event x)"
    "ev_Operation (sh_event x') = ev_Operation (sh_event x)" "ev_Operator (sh_event x') = ev_Operator (sh_event x)"
    "set (sh_out x') \<subseteq> set (sh_out x)" "sh_phase x' \<noteq> ShellRecording"
    "sh_phase x' = ShellEnded \<or> sh_phase x \<notin> {ShellRecording, ShellEnded} \<or>
       shell_audited (set (trace s')) (sh_node x) (sh_id x)"
  shows "shell_ok s' x'"
  using assms unfolding shell_ok_def
  by (auto intro: shell_audited_mono from_shell_node_mono)

lemma to_agent_just:
  "shell_ok s x \<Longrightarrow> sm_SessionID m = sh_id x \<Longrightarrow>
   sm_Type m = ''close'' \<or> sh_phase x \<notin> {ShellRecording, ShellEnded} \<Longrightarrow>
   gw_just HS (T_ToAgent (peers s ! sh_agent x) m) (set (trace s))"
  by (auto simp: shell_ok_def)

lemma shell_message_simps [simp]:
  "sm_Type (shell_message t i e) = t" "sm_SessionID (shell_message t i e) = i"
  by (simp_all add: shell_message_def)

lemma shell_record_inv:
  assumes inv: "gw_inv HS s" and i: "i < length (shellruns s)" and ph: "sh_phase (shellruns s ! i) = ShellRecording"
  shows "gw_inv HS (shell_record s i ok1 ok2)"
proof -
  note d = gw_invD [OF inv]
  let ?x = "shellruns s ! i"
  note x = shells_inv_nth [OF d(8) i]
  have lv: "live ?x" using ph by (simp add: live_def)
  show ?thesis
  proof (cases ok1)
    case True
    have "shell_audited (insert (T_Audit (sh_event ?x)) (set (trace s))) (sh_node ?x) (sh_id ?x)"
      using x ph by (auto simp: shell_ok_def shell_audited_def)
    then show ?thesis
      using True ph lv d(3)
      by (intro shell_step_inv [OF inv i, where x' = "?x \<lparr>sh_phase := ShellStarting\<rparr>"])
        (auto simp: shell_record_def Let_def live_def intro!: shell_ok_step [OF x])
  next
    case False
    have "gw_just HS (T_ToAgent (peers s ! sh_agent ?x) (shell_message ''close'' (sh_id ?x) [])) (set (trace s))"
      by (rule to_agent_just [OF x]) simp_all
    then show ?thesis
      using False lv d(3) finishShell_live [OF d(8) i lv]
      by (intro shell_step_inv [OF inv i, where x' = "?x \<lparr>sh_phase := ShellEnded\<rparr>"])
        (auto simp: shell_record_def Let_def live_def finishShell_trace intro!: shell_ok_step [OF x])
  qed
qed

lemma shell_start_inv:
  assumes inv: "gw_inv HS s" and i: "i < length (shellruns s)" and ph: "sh_phase (shellruns s ! i) = ShellStarting"
  shows "gw_inv HS (shell_start s i ok)"
proof -
  note d = gw_invD [OF inv]
  let ?x = "shellruns s ! i"
  note x = shells_inv_nth [OF d(8) i]
  have "gw_just HS (T_ToAgent (peers s ! sh_agent ?x) (start_message (sh_id ?x))) (set (trace s))"
    by (rule to_agent_just [OF x]) (simp_all add: ph start_message_def)
  then show ?thesis
    using ph d(3) send_agent_simps(7) [of s]
    by (intro shell_step_inv [OF inv i, where x' = "?x \<lparr>sh_phase := (if ok then ShellRunning else ShellReturning)\<rparr>"])
      (auto simp: shell_start_def Let_def live_def send_agent_just intro!: shell_ok_step [OF x] simp del: gw_just.simps)
qed

lemma shell_input_inv:
  assumes inv: "gw_inv HS s" and i: "i < length (shellruns s)"
    and ph: "sh_phase (shellruns s ! i) \<in> {ShellRunning, ShellReturning, ShellClosing}"
  shows "gw_inv HS (shell_input s i m ok)"
proof -
  note d = gw_invD [OF inv]
  let ?x = "shellruns s ! i"
  note x = shells_inv_nth [OF d(8) i]
  have "gw_just HS (T_ToAgent (peers s ! sh_agent ?x) (m \<lparr>sm_SessionID := sh_id ?x\<rparr>)) (set (trace s))"
    using ph by (intro to_agent_just [OF x]) auto
  then show ?thesis
    using ph d(3) inv send_agent_simps(7) [of s] i
    by (cases "receiveShellMessage m = None \<or> \<not> client_input_ok m") (auto simp: shell_input_def Let_def send_agent_just simp del: gw_just.simps
      intro!: shell_step_inv [OF inv i, where x' = ?x] shell_ok_step [OF x])
qed

lemma shell_quiet_inv:
  assumes inv: "gw_inv HS s" and i: "i < length (shellruns s)" and ph: "sh_phase (shellruns s ! i) = ShellRunning"
  shows "gw_inv HS (shell_return s i)" and "gw_inv HS (shell_start_timer s i)"
proof -
  note d = gw_invD [OF inv]
  show r: "gw_inv HS (shell_return s i)"
    using ph d(3)
    by (intro shell_step_inv [OF inv i, where x' = "(shellruns s ! i) \<lparr>sh_phase := ShellReturning\<rparr>"])
      (auto simp: shell_return_def live_def intro!: shell_ok_step [OF shells_inv_nth [OF d(8) i]])
  then show "gw_inv HS (shell_start_timer s i)"
    using inv by (auto simp: shell_start_timer_def shell_return_def)
qed

lemma shell_timer_inv:
  assumes inv: "gw_inv HS s" and i: "i < length (shellruns s)" and ph: "sh_phase (shellruns s ! i) = ShellRunning"
  shows "gw_inv HS (shell_session_timer s i ok)"
proof -
  note d = gw_invD [OF inv]
  let ?x = "shellruns s ! i"
  note x = shells_inv_nth [OF d(8) i]
  have "gw_just HS (T_ToAgent (peers s ! sh_agent ?x) (shell_message ''close'' (sh_id ?x) [])) (set (trace s))"
    by (rule to_agent_just [OF x]) simp_all
  then show ?thesis
    using ph d(3) send_agent_simps(7) [of s]
    by (intro shell_step_inv [OF inv i, where x' = "?x \<lparr>sh_outcome := ''timeout'', sh_phase := ShellReturning\<rparr>"])
      (auto simp: shell_session_timer_def Let_def live_def send_agent_just intro!: shell_ok_step [OF x] simp del: gw_just.simps)
qed

lemma shell_output_inv:
  assumes inv: "gw_inv HS s" and i: "i < length (shellruns s)" and ph: "sh_phase (shellruns s ! i) = ShellRunning"
    and out: "shell_output s i ok = Some s'"
  shows "gw_inv HS s'"
proof -
  note d = gw_invD [OF inv]
  let ?x = "shellruns s ! i"
  note x = shells_inv_nth [OF d(8) i]
  from out obtain m ms where m: "sh_out ?x = m # ms" and
      s': "s' = set_shell (if ok then emit s [T_Deliver (sh_node ?x) (sh_id ?x) m] else s) i
         (\<lambda>x. after_message m ok (x \<lparr>sh_out := ms\<rparr>))"
    by (auto simp: shell_output_def Let_def split: list.splits)
  have "gw_just HS (T_Deliver (sh_node ?x) (sh_id ?x) m) (set (trace s))"
    using x m ph by (simp add: shell_ok_def)
  then show ?thesis
    using ph d(3) m
    by (intro shell_step_inv [OF inv i, where x' = "after_message m ok (?x \<lparr>sh_out := ms\<rparr>)"])
      (auto simp: s' live_def after_message_def intro!: shell_ok_step [OF x] simp del: gw_just.simps)
qed

lemma shell_close_inv:
  assumes inv: "gw_inv HS s" and i: "i < length (shellruns s)" and ph: "sh_phase (shellruns s ! i) = ShellReturning"
  shows "gw_inv HS (shell_close s i ctxErr ok now)"
proof -
  note d = gw_invD [OF inv]
  let ?x = "shellruns s ! i"
  note x = shells_inv_nth [OF d(8) i]
  have lv: "live ?x" using ph by (simp add: live_def)
  let ?x' = "?x \<lparr>sh_phase := ShellClosing,
       sh_event := (sh_event ?x) \<lparr>ev_EndedAt := now, ev_Outcome := final_outcome ctxErr ?x\<rparr>\<rparr>"
  have "gw_just HS (T_ToAgent (peers s ! sh_agent ?x) (shell_message ''close'' (sh_id ?x) [])) (set (trace s))"
    by (rule to_agent_just [OF x]) simp_all
  then show ?thesis
    using ph d(3) lv finishShell_live [OF d(8) i lv]
    by (intro shell_step_inv [OF inv i, where x' = ?x'])
      (auto simp: shell_close_def live_def finishShell_trace intro!: shell_ok_step [OF x] simp del: gw_just.simps)
qed

lemma shell_end_inv:
  assumes inv: "gw_inv HS s" and i: "i < length (shellruns s)" and ph: "sh_phase (shellruns s ! i) = ShellClosing"
  shows "gw_inv HS (shell_end s i ok)"
proof -
  note d = gw_invD [OF inv]
  show ?thesis
    using ph d(3)
    by (intro shell_step_inv [OF inv i, where x' = "(shellruns s ! i) \<lparr>sh_phase := ShellEnded\<rparr>"])
      (auto simp: shell_end_def live_def intro!: shell_ok_step [OF shells_inv_nth [OF d(8) i]])
qed

lemma startShell_admitD:
  "startShell_admit H node hr = Inr operator \<Longrightarrow>
   operator \<noteq> [] \<and> NodeURI node \<noteq> None \<and> TargetKind node = ''vm'' \<and> AuthorizeNode H node \<and>
   (\<exists>credential. credential \<noteq> [] \<and> AuthorizeNodeAccess H credential node OperationShellSession = Some operator)"
  by (auto simp: startShell_admit_def Let_def split: option.splits if_splits)

lemma shell_claim_inv:
  assumes inv: "gw_inv HS s" and H: "H \<in> HS" "startShell_admit H node hr = Inr operator"
    and c: "startShell_claim s node operator sid started = Inr s'"
  shows "gw_inv HS s'"
proof -
  note d = gw_invD [OF inv] and adm = startShell_admitD [OF H(2)]
  from c obtain agent i where ag: "map_of (agents (gw s)) node = Some agent" and
      new: "map_of (shells (gw s)) node = None" and cap: "length (shells (gw s)) < maxShellSessions" and sid: "sid = Some i"
    by (auto simp: startShell_claim_def Let_def split: option.splits if_splits)
  let ?b = "\<lparr>sb_id = i, sb_ref = length (shellruns s)\<rparr>"
  let ?x = "\<lparr>sh_node = node, sh_id = i, sh_agent = agent, sh_event = start_event i operator node OperationShellSession started,
     sh_out = [], sh_outcome = ''completed'', sh_finished = False, sh_started = False, sh_phase = ShellRecording\<rparr>"
  have s': "shells (gw s') = AList.update node ?b (shells (gw s))" "shellruns s' = shellruns s @ [?x]"
      "trace s' = trace s @ [T_Operator operator node OperationShellSession, T_Node node]"
      "agents (gw s') = agents (gw s)" "queues (gw s') = queues (gw s)" "pending (gw s') = pending (gw s)"
      "sessions s' = sessions s" "posting s' = posting s" "peers s' = peers s" "routing s' = routing s"
    using c ag new cap sid by (auto simp: startShell_claim_def Let_def split: if_splits)
  have tr: "set (trace s) \<subseteq> set (trace s')" by (auto simp: s')
  have peer: "agent < length (peers s)" "peers s ! agent = node" using d(9) ag by (auto simp: streams_inv_def)
  have x: "shell_ok s' ?x" using peer adm by (simp add: shell_ok_def start_event_def s')
  have old: "shell_ok s' y" if "shell_ok s y" for y using shell_ok_mono [OF that tr] by (simp add: s')
  have entry: "map_of (shells (gw s')) n = Some b \<longleftrightarrow> sb_ref b < length (shellruns s') \<and> live (shellruns s' ! sb_ref b) \<and>
        sh_node (shellruns s' ! sb_ref b) = n \<and> sh_id (shellruns s' ! sb_ref b) = sb_id b" for n b
  proof (cases "sb_ref b = length (shellruns s)")
    case True
    have "map_of (shells (gw s)) n \<noteq> Some b" using shell_entry [OF d(8), of n b] True by auto
    with True new show ?thesis by (cases b) (auto simp: s' live_def)
  next
    case False
    have "sb_ref b < length (shellruns s) \<Longrightarrow> live (shellruns s ! sb_ref b) \<Longrightarrow> sh_node (shellruns s ! sb_ref b) \<noteq> node"
      using live_entry [OF d(8), of "sb_ref b"] new by auto
    with False d(8) show ?thesis
      by (cases b) (auto simp: s' nth_append shells_inv_def)
  qed
  have "shells_inv s'"
    unfolding shells_inv_def using d(8) x old entry cap length_update_new [OF new, of ?b]
    by (auto simp: s' shells_inv_def list_all_iff)
  moreover have "streams_inv s'"
    using d(9) from_shell_node_mono [OF _ tr] unfolding streams_inv_def s'(2,4,9,10) by (fastforce simp: nth_append)
  ultimately have "shell_inv s'" by (simp add: shell_inv_def)
  moreover have "core_inv HS s'" by (rule core_frame [OF d(1) tr]) (simp_all add: s')
  moreover have "justified (gw_just HS) (trace s')" using d(3) H(1) adm by (auto simp: s')
  ultimately show ?thesis by (simp add: gw_inv_parts)
qed

lemma streams_only_inv:
  assumes inv: "gw_inv HS s" and tr: "set (trace s) \<subseteq> set (trace s')" and just: "justified (gw_just HS) (trace s')"
    and eqs: "sessions s' = sessions s" "posting s' = posting s" "queues (gw s') = queues (gw s)"
      "pending (gw s') = pending (gw s)" "shellruns s' = shellruns s" "shells (gw s') = shells (gw s)"
    and peers: "peers s' = peers s @ extra" and st: "streams_inv s'"
  shows "gw_inv HS s'"
proof -
  note d = gw_invD [OF inv]
  have "core_inv HS s'" by (rule core_frame [OF d(1) tr]) (simp_all add: eqs)
  moreover have "shell_ok s' y" if "shell_ok s y" for y using shell_ok_mono [OF that tr] peers by blast
  with d(8) have "shells_inv s'" by (auto simp: shells_inv_def eqs list_all_iff)
  ultimately show ?thesis using just st by (simp add: gw_inv_parts shell_inv_def)
qed

lemma stream_connect_inv: "gw_inv HS s \<Longrightarrow> gw_inv HS (stream_connect s node)"
proof -
  assume inv: "gw_inv HS s"
  note d = gw_invD [OF inv]
  have lt: "map_of (agents (gw s)) n = Some p \<Longrightarrow> p < Suc (length (peers s))" for n p
    using d(9) less_SucI unfolding streams_inv_def by blast
  have "streams_inv (stream_connect s node)"
    using d(9) lt by (auto simp: streams_inv_def stream_connect_def nth_append)
  then show ?thesis
    using d(3) by (intro streams_only_inv [OF inv, where extra = "[node]"]) (auto simp: stream_connect_def)
qed

lemma stream_route_inv:
  assumes inv: "gw_inv HS s" and p: "p < length (peers s)"
  shows "gw_inv HS (stream_route s p m)"
proof (cases "\<exists>active. map_of (shells (gw s)) (peers s ! p) = Some active \<and> sm_SessionID m = sb_id active \<and>
    sm_Type m \<noteq> ''ready'' \<and> sm_Type m \<noteq> ''heartbeat'' \<and> receiveShellMessage m \<noteq> None")
  case False
  then have "stream_route s p m = s" by (auto simp: stream_route_def split: option.splits)
  with inv show ?thesis by simp
next
  case True
  then obtain b where b: "map_of (shells (gw s)) (peers s ! p) = Some b" "sm_SessionID m = sb_id b"
    "sm_Type m \<noteq> ''ready''" "sm_Type m \<noteq> ''heartbeat''" "receiveShellMessage m \<noteq> None" by blast
  note d = gw_invD [OF inv] and e = shell_entry [OF gw_invD(8) [OF inv] b(1)]
  have r: "stream_route s p m = emit (s \<lparr>routing := (sb_ref b, m) # routing s\<rparr>) [T_FromAgent (peers s ! p) m]"
    using b by (simp add: stream_route_def)
  have "streams_inv (stream_route s p m)"
    using d(9) e b(2) unfolding r streams_inv_def
    by (auto simp: from_shell_node_def)
  then show ?thesis
    using d(3) by (intro streams_only_inv [OF inv, where extra = "[]"]) (auto simp: r)
qed

lemma stream_drop_inv: "gw_inv HS s \<Longrightarrow> gw_inv HS (stream_drop s q)"
proof -
  assume inv: "gw_inv HS s"
  note d = gw_invD [OF inv]
  have "streams_inv (stream_drop s q)"
    using d(9) set_remove1_subset [of q "routing s"] by (auto simp: streams_inv_def stream_drop_def)
  then show ?thesis
    using d(3) by (intro streams_only_inv [OF inv, where extra = "[]"]) (auto simp: stream_drop_def)
qed

lemma push_output_inv:
  assumes inv: "gw_inv HS s" and j: "j < length (shellruns s)"
    and m: "from_shell_node (set (trace s)) (sh_node (shellruns s ! j)) (sh_id (shellruns s ! j)) m"
  shows "gw_inv HS (push_output s j m)"
proof -
  note d = gw_invD [OF inv]
  have "shell_ok s ((shellruns s ! j) \<lparr>sh_out := sh_out (shellruns s ! j) @ [m]\<rparr>)"
    using shells_inv_nth [OF d(8) j] m by (auto simp: shell_ok_def)
  then have ok: "shell_ok (push_output s j m) ((shellruns s ! j) \<lparr>sh_out := sh_out (shellruns s ! j) @ [m]\<rparr>)"
    by (simp add: shell_ok_def push_output_def)
  show ?thesis
    using d(3) ok
    by (intro shell_step_inv [OF inv j, where x' = "(shellruns s ! j) \<lparr>sh_out := sh_out (shellruns s ! j) @ [m]\<rparr>"])
      (auto simp: push_output_def live_def)
qed

lemma stream_send_inv:
  assumes inv: "gw_inv HS s" and q: "q \<in> set (routing s)"
  shows "gw_inv HS (stream_send s q)"
proof -
  have "gw_inv HS (push_output (stream_drop s q) (fst q) (snd q))"
    using gw_invD(9) [OF inv] q
    by (intro push_output_inv stream_drop_inv [OF inv]) (auto simp: streams_inv_def stream_drop_def)
  then show ?thesis by (simp add: stream_send_def stream_drop_def)
qed

lemma stream_disconnect_inv: "gw_inv HS s \<Longrightarrow> gw_inv HS (stream_disconnect s p)"
proof -
  assume inv: "gw_inv HS s"
  note d = gw_invD [OF inv]
  let ?s1 = "s \<lparr>gw := (gw s) \<lparr>agents := AList.delete (peers s ! p) (agents (gw s))\<rparr>\<rparr>"
  have "streams_inv ?s1" using d(9) by (auto simp: streams_inv_def)
  then have one: "gw_inv HS ?s1"
    using d(3) by (intro streams_only_inv [OF inv, where extra = "[]"]) auto
  have "gw_inv HS (push_output ?s1 (sb_ref b) (disconnect_message (sb_id b)))"
    if "map_of (shells (gw s)) (peers s ! p) = Some b" for b
    using shell_entry [OF d(8) that] by (intro push_output_inv [OF one])
      (auto simp: from_shell_node_def disconnect_message_def)
  with one inv show ?thesis by (simp add: stream_disconnect_def Let_def split: option.splits)
qed

lemma gw_close_inv: "gw_inv HS s \<Longrightarrow> gw_inv HS (s \<lparr>gw := gw_Close (gw s)\<rparr>)"
proof -
  assume inv: "gw_inv HS s"
  note d = gw_invD [OF inv]
  have "streams_inv (s \<lparr>gw := gw_Close (gw s)\<rparr>)" using d(9) by (simp add: streams_inv_def gw_Close_def)
  then show ?thesis
    using d(3) by (intro streams_only_inv [OF inv, where extra = "[]"]) (auto simp: gw_Close_def)
qed

lemmas session_step_invs = register_inv record_start_inv enqueue_inv take_result_inv record_end_inv poll_queue_inv
  poll_take_inv claim_inv answer_inv

lemmas shell_step_invs = shell_claim_inv shell_record_inv shell_start_inv shell_input_inv shell_output_inv
  shell_quiet_inv shell_timer_inv shell_close_inv shell_end_inv stream_connect_inv stream_route_inv stream_send_inv
  stream_drop_inv stream_disconnect_inv gw_close_inv

lemma gw_step_inv: "gw_step HS s s' \<Longrightarrow> gw_inv HS s \<Longrightarrow> gw_inv HS s'"
proof (induction rule: gw_step.induct)
  case (step_dispatch H lib roots hr node s s' req)
  then show ?case using poll_admitD by (blast intro: poll_take_inv)
next
  case (step_claim H lib roots body hr node result s s')
  then show ?case using acceptResult_admitD by (blast intro: claim_inv)
next
  case (step_enqueue_cancelled i s)
  then show ?case by (simp add: enqueue_cancelled_def leave_silent)
next
  case (step_enqueue_closed i s)
  then show ?case by (simp add: enqueue_closed_def leave_silent)
next
  case (step_timeout i s now ok)
  then show ?case unfolding wait_timeout_def Let_def by (intro leave_inv) auto
next
  case (step_cancelled i s now ok)
  then show ?case unfolding wait_cancelled_def Let_def by (intro leave_inv) auto
next
  case (step_closed i s)
  then show ?case by (simp add: wait_closed_def leave_silent)
qed (blast intro: session_step_invs shell_step_invs)+

lemma gw_initial_inv: "gw_initial s \<Longrightarrow> gw_inv HS s"
proof -
  assume i: "gw_initial s"
  then have "gw s = \<lparr>queues = [], pending = [], agents = [], shells = [], gw_closed = False\<rparr>"
    by (auto simp: gw_initial_def NewGateway_def)
  with i show ?thesis
    by (simp add: gw_initial_def gw_inv_def sessions_inv_def queues_inv_def pending_inv_def posting_inv_def
      shells_inv_def streams_inv_def)
qed

lemma gw_reachable_inv: "gw_reachable HS s \<Longrightarrow> gw_inv HS s"
  by (induction rule: gw_reachable.induct) (auto intro: gw_initial_inv gw_step_inv)

section \<open>What every run guarantees\<close>

lemma reachable_just:
  "gw_reachable HS s \<Longrightarrow> trace s = xs @ e # ys \<Longrightarrow> gw_just HS e (set xs)"
  using gw_invD(3) [OF gw_reachable_inv] unfolding justified_def by blast

lemma reachable_just_past:
  assumes "gw_reachable HS s" "trace s = xs @ ys" "e \<in> set xs"
  shows "\<exists>past. gw_just HS e past"
proof -
  from assms(3) obtain as bs where "xs = as @ e # bs" by (auto dest: split_list)
  with assms(2) have "trace s = as @ e # (bs @ ys)" by simp
  with reachable_just [OF assms(1)] show ?thesis by blast
qed

definition granted :: "hooks set \<Rightarrow> string \<Rightarrow> string \<Rightarrow> operation \<Rightarrow> bool" where
  "granted HS operator node opn \<longleftrightarrow>
     (\<exists>H \<in> HS. \<exists>credential. credential \<noteq> [] \<and> AuthorizeNodeAccess H credential node opn = Some operator)"

text \<open>C7: No request reaches an agent unless, earlier in the run, an operator presented a credential
  that was granted exactly that operation on exactly that node, the node passed its inventory check,
  and the audit store acknowledged a start record naming that operator, node, operation and request.
  The request is handed only to a poll of that node, which itself passed the inventory check.\<close>

theorem dispatch_is_granted_and_audited:
  "gw_reachable HS s \<Longrightarrow> trace s = xs @ T_Dispatch n r # ys \<Longrightarrow>
   (\<exists>a. T_Audit a \<in> set xs \<and> ev_Outcome a = ''started'' \<and> ev_Node a = n \<and> ev_RequestID a = rq_ID r \<and>
      ev_Operation a = rq_Operation r \<and> ev_Operator a \<noteq> [] \<and> granted HS (ev_Operator a) n (rq_Operation r)) \<and>
   (\<exists>H \<in> HS. AuthorizeNode H n)"
proof -
  assume r: "gw_reachable HS s" and t: "trace s = xs @ T_Dispatch n r # ys"
  from reachable_just [OF r t] obtain a where a: "T_Audit a \<in> set xs" "ev_Outcome a = ''started''" "ev_Node a = n"
      "ev_RequestID a = rq_ID r" "ev_Operation a = rq_Operation r"
      "T_Operator (ev_Operator a) n (rq_Operation r) \<in> set xs" "\<exists>H \<in> HS. AuthorizeNode H n"
    by (auto simp: dispatchable_def)
  from reachable_just_past [OF r t a(6)] have "ev_Operator a \<noteq> []" "granted HS (ev_Operator a) n (rq_Operation r)"
    by (auto simp: granted_def)
  with a show ?thesis by blast
qed

text \<open>C8: A result handed to an operator was posted, earlier in the run, by the agent authenticated as
  the node the session targeted, under the identifier of the session's request; it is within the
  size limits, and its outcome was recorded in the audit store before the operator saw it.\<close>

theorem reply_comes_from_the_target_node:
  "gw_reachable HS s \<Longrightarrow> trace s = xs @ T_Reply n r res # ys \<Longrightarrow>
   T_Answer n res \<in> set xs \<and> rs_ID res = rq_ID r \<and> result_wellformed res \<and>
   (\<exists>a. T_Audit a \<in> set xs \<and> ev_Node a = n \<and> ev_RequestID a = rq_ID r \<and> ev_Operation a = rq_Operation r \<and>
      ev_Outcome a = result_outcome res)"
proof -
  assume r: "gw_reachable HS s" and t: "trace s = xs @ T_Reply n r res # ys"
  from reachable_just [OF r t] have a: "T_Answer n res \<in> set xs" and rest: "rs_ID res = rq_ID r"
      "\<exists>a. T_Audit a \<in> set xs \<and> ev_Node a = n \<and> ev_RequestID a = rq_ID r \<and> ev_Operation a = rq_Operation r \<and>
        ev_Outcome a = result_outcome res" by auto
  from reachable_just_past [OF r t a] have "result_wellformed res" by auto
  with a rest show ?thesis by blast
qed

text \<open>C9: Shell traffic stays inside its session. What an operator's shell receives was sent by the agent
  of that very VM under that session's identifier, or is the gateway's own notice that the agent
  went away; and before anything but a close message is sent to an agent, an operator was granted a
  shell on that VM and the start record of that session was acknowledged. Shells exist on VM
  identities only.\<close>

theorem shell_traffic_is_confined:
  "gw_reachable HS s \<Longrightarrow>
   (\<forall>xs n i m ys. trace s = xs @ T_Deliver n i m # ys \<longrightarrow> TargetKind n = ''vm'' \<and> sm_SessionID m = i \<and>
      (T_FromAgent n m \<in> set xs \<or> m = disconnect_message i) \<and> shell_audited (set xs) n i) \<and>
   (\<forall>xs n m ys. trace s = xs @ T_ToAgent n m # ys \<longrightarrow> TargetKind n = ''vm'' \<and>
      (sm_Type m \<noteq> ''close'' \<longrightarrow> (\<exists>a. T_Audit a \<in> set xs \<and> ev_Outcome a = ''started'' \<and> ev_Node a = n \<and>
         ev_RequestID a = sm_SessionID m \<and> granted HS (ev_Operator a) n OperationShellSession)))"
proof (intro conjI allI impI)
  assume r: "gw_reachable HS s"
  fix xs n m ys
  { fix i assume t: "trace s = xs @ T_Deliver n i m # ys"
    from reachable_just [OF r t]
    show "TargetKind n = ''vm''" "sm_SessionID m = i" "T_FromAgent n m \<in> set xs \<or> m = disconnect_message i"
      "shell_audited (set xs) n i"
      by (auto simp: from_shell_node_def) }
  assume t: "trace s = xs @ T_ToAgent n m # ys"
  note j = reachable_just [OF r t]
  then show "TargetKind n = ''vm''" by simp
  assume "sm_Type m \<noteq> ''close''"
  with j obtain a where a: "T_Audit a \<in> set xs" "ev_Outcome a = ''started''" "ev_Node a = n" "ev_RequestID a = sm_SessionID m"
      "T_Operator (ev_Operator a) n OperationShellSession \<in> set xs"
    by (auto simp: shell_audited_def)
  from reachable_just_past [OF r t a(5)] have "granted HS (ev_Operator a) n OperationShellSession"
    by (auto simp: granted_def)
  with a show "\<exists>a. T_Audit a \<in> set xs \<and> ev_Outcome a = ''started'' \<and> ev_Node a = n \<and>
         ev_RequestID a = sm_SessionID m \<and> granted HS (ev_Operator a) n OperationShellSession" by blast
qed

text \<open>C10: The broker stays bounded: at most 256 requests are pending, no node's queue holds more than
  256, at most 32 shells are live, two live shells never share a VM, and a shell's entry is always
  removed by the handler that made it. A result whose pending entry was claimed always finds its
  session's channel empty, so the conflict answer is never given.\<close>

theorem gateway_stays_bounded:
  "gw_reachable HS s \<Longrightarrow>
   length (pending (gw s)) \<le> 256 \<and> (\<forall>n q. map_of (queues (gw s)) n = Some q \<longrightarrow> length q \<le> 256) \<and>
   card {i. i < length (shellruns s) \<and> live (shellruns s ! i)} \<le> 32 \<and>
   inj_on (\<lambda>i. sh_node (shellruns s ! i)) {i. i < length (shellruns s) \<and> live (shellruns s ! i)} \<and>
   (\<forall>p \<in> set (posting s). snd (acceptResult_send s p) = Accepted)"
proof -
  assume r: "gw_reachable HS s"
  note d = gw_invD [OF gw_reachable_inv [OF r]]
  let ?L = "{i. i < length (shellruns s) \<and> live (shellruns s ! i)}" and ?f = "\<lambda>i. sh_node (shellruns s ! i)"
  have inj: "inj_on ?f ?L"
  proof (rule inj_onI)
    fix i j assume m: "i \<in> ?L" "j \<in> ?L" and e: "?f i = ?f j"
    have "map_of (shells (gw s)) (?f i) = Some \<lparr>sb_id = sh_id (shellruns s ! i), sb_ref = i\<rparr>"
      "map_of (shells (gw s)) (?f j) = Some \<lparr>sb_id = sh_id (shellruns s ! j), sb_ref = j\<rparr>"
      using m live_entry [OF d(8)] by auto
    with e show "i = j" by (metis option.inject shellBridge.ext_inject)
  qed
  have "?f ` ?L \<subseteq> fst ` set (shells (gw s))"
  proof clarify
    fix i assume "i < length (shellruns s)" "live (shellruns s ! i)"
    from map_of_SomeD [OF live_entry [OF d(8) this]] show "?f i \<in> fst ` set (shells (gw s))" by force
  qed
  then have "card (?f ` ?L) \<le> card (set (map fst (shells (gw s))))"
    by (intro card_mono) auto
  also have "\<dots> \<le> length (shells (gw s))"
    using card_length [of "map fst (shells (gw s))"] by simp
  finally have "card (?f ` ?L) \<le> length (shells (gw s))" .
  then have "card ?L \<le> 32"
    using card_image [OF inj] d(8) by (simp add: shells_inv_def maxShellSessions_def)
  moreover have "snd (acceptResult_send s p) = Accepted" if "p \<in> set (posting s)" for p
    using answer_room [OF gw_reachable_inv [OF r]] that
    by (cases p) (auto simp: acceptResult_send_def Let_def)
  ultimately show ?thesis
    using d(4,7) inj by (auto simp: pending_inv_def queues_inv_def maxInFlight_def)
qed

section \<open>Concrete runs\<close>

definition open_hooks :: hooks where
  "open_hooks = \<lparr>AuthorizeNodeAccess = (\<lambda>credential node opn. Some ''alice''), AuthorizeNode = (\<lambda>node. True)\<rparr>"

definition no_lib :: x509lib where
  "no_lib = \<lparr>QueryUnescape = (\<lambda>s. None), pem_Decode = (\<lambda>s. None), ParseCertificate = (\<lambda>s. None),
     cert_Verify = (\<lambda>roots c. False)\<rparr>"

definition sample_hr :: http_request where
  "sample_hr = \<lparr>hr_peerCertificates = Some [cert_with [hostPrefix @ ''n1'']], hr_verifiedChains = 1,
     hr_sslClientCert = [], hr_authorization = ''Bearer t''\<rparr>"

definition listing_result :: node_result where
  "listing_result = \<lparr>rs_Version = 1, rs_ID = ''request-1'', rs_Output = ''[]'', rs_Error = []\<rparr>"

definition empty_state :: gw_state where
  "empty_state = \<lparr>gw = \<lparr>queues = [], pending = [], agents = [], shells = [], gw_closed = False\<rparr>, sessions = [],
     posting = [], peers = [], shellruns = [], routing = [], trace = []\<rparr>"

abbreviation run_state :: "gw_state \<Rightarrow> bool" where
  "run_state \<equiv> gw_reachable {open_hooks}"

lemma empty_reachable: "run_state empty_state"
  by (rule reach_init) (simp add: gw_initial_def empty_state_def NewGateway_def)

lemma n1_uri: "NodeURI ''n1'' = Some (hostPrefix @ ''n1'')"
  by (simp add: NodeURI_def hostnamePattern_def alnum_def is_alpha_def is_digit_def)

lemma sample_admit:
  "startSession_admit open_hooks (Some (''n1'', listing_request)) sample_hr 10 = Inr (''n1'', listing_request, ''alice'')"
  using listing_request_valid
  by (simp add: startSession_admit_def n1_uri sample_hr_def bearer_def has_prefix_def trim_prefix_def trim_space_def
      trim_right_def is_space_def open_hooks_def)

lemma sample_identity: "requestNodeIdentity no_lib None sample_hr = Inr ''n1''"
proof -
  have "NodeIdentity (Some (cert_with [hostPrefix @ ''n1''])) = Inr ''n1''"
    unfolding NodeIdentity_iff using n1_uri
    by (intro conjI exI [of _ 0] exI [of _ "hostPrefix @ ''n1''"])
      (auto simp: node_uris_def cert_with_def NodeURI_def split: if_splits)
  then show ?thesis by (simp add: requestNodeIdentity_def requestPeerCertificate_def sample_hr_def)
qed

lemma sample_poll: "poll_admit open_hooks no_lib None sample_hr = Inr ''n1''"
  by (simp add: poll_admit_def sample_identity open_hooks_def)

lemma sample_result:
  "acceptResult_admit open_hooks no_lib None (Some listing_result) sample_hr = Inr (''n1'', listing_result)"
  by (simp add: acceptResult_admit_def sample_poll result_wellformed_def listing_result_def ProtocolVersion_def
      requestIDPattern_def alnum_def is_alpha_def is_digit_def maxResultBytes_def maxResultError_def)

definition opened_session :: session where
  "opened_session = \<lparr>s_node = ''n1'', s_req = listing_request,
     s_event = start_event ''request-1'' ''alice'' ''n1'' ''containers.list'' 10, s_buf = None, s_phase = Enqueuing\<rparr>"

definition opened :: "gw_state \<Rightarrow> gw_state" where
  "opened s = s \<lparr>gw := (queueLocked (gw s) ''n1'') \<lparr>pending :=
       AList.update ''request-1'' \<lparr>pr_node = ''n1'', pr_result = length (sessions s)\<rparr> (pending (gw s))\<rparr>,
     sessions := sessions s @ [opened_session],
     trace := trace s @ [T_Operator ''alice'' ''n1'' ''containers.list'', T_Node ''n1'', T_Audit (s_event opened_session)]\<rparr>"

lemma opened_reachable:
  assumes r: "run_state s" and cap: "length (pending (gw s)) < maxInFlight"
    and new: "map_of (pending (gw s)) ''request-1'' = None"
  shows "run_state (opened s)"
proof -
  let ?x = "opened_session \<lparr>s_phase := Recording\<rparr>"
  let ?s1 = "s \<lparr>gw := (queueLocked (gw s) ''n1'') \<lparr>pending :=
       AList.update ''request-1'' \<lparr>pr_node = ''n1'', pr_result = length (sessions s)\<rparr> (pending (gw s))\<rparr>,
     sessions := sessions s @ [?x],
     trace := trace s @ [T_Operator ''alice'' ''n1'' ''containers.list'', T_Node ''n1'']\<rparr>"
  have reg: "startSession_register s ''n1'' listing_request ''alice'' 10 = Inr ?s1"
    using cap new by (simp add: startSession_register_def Let_def listing_request_def opened_session_def)
  have one: "run_state ?s1"
    by (rule reach_step [OF r step_start [OF _ sample_admit reg]]) simp
  have "record_start ?s1 (length (sessions s)) True = opened s"
    by (simp add: record_start_def Let_def state_defs opened_def opened_session_def)
  moreover have "run_state (record_start ?s1 (length (sessions s)) True)"
    by (rule reach_step [OF one step_record]) (simp_all add: opened_session_def)
  ultimately show ?thesis by simp
qed

definition queued :: "gw_state \<Rightarrow> gw_state" where
  "queued s = enqueue (opened s) (length (sessions s))"

lemma queued_reachable:
  assumes "run_state s" "length (pending (gw s)) < maxInFlight" "map_of (pending (gw s)) ''request-1'' = None"
    and room: "case map_of (queues (gw s)) ''n1'' of None \<Rightarrow> True | Some q \<Rightarrow> length q < maxInFlight"
  shows "run_state (queued s)"
  unfolding queued_def
proof (rule reach_step [OF opened_reachable [OF assms(1-3)] step_enqueue])
  show "enqueue_ready (opened s) (length (sessions s))"
    using room by (auto simp: enqueue_ready_def opened_def opened_session_def queueLocked_queues maxInFlight_def
        split: option.splits)
qed (simp_all add: opened_def opened_session_def)

definition answered :: gw_state where
  "answered = (let s1 = queued empty_state;
       s2 = fst (the (poll_take s1 ''n1''));
       s3 = (case acceptResult_claim s2 ''n1'' listing_result of Inr s \<Rightarrow> s | Inl e \<Rightarrow> s2) in
     fst (acceptResult_send s3 (0, ''n1'', listing_result)))"

definition replied :: gw_state where
  "replied = record_end (take_result answered 0 listing_result 20) 0 listing_result True"

lemmas run_defs = queued_def opened_def enqueue_def poll_take_def acceptResult_claim_def acceptResult_send_def
  empty_state_def state_defs Let_def queueLocked_def opened_session_def listing_request_def listing_result_def
  start_event_def

lemma answered_reachable: "run_state answered"
proof -
  let ?s1 = "queued empty_state"
  have r1: "run_state ?s1"
    by (rule queued_reachable [OF empty_reachable]) (simp_all add: empty_state_def maxInFlight_def)
  obtain s2 req where t: "poll_take ?s1 ''n1'' = Some (s2, req)"
    by (simp add: run_defs)
  have r2: "run_state s2" by (rule reach_step [OF r1 step_dispatch [OF _ sample_poll t]]) simp
  have "\<exists>s3. acceptResult_claim s2 ''n1'' listing_result = Inr s3 \<and> (0, ''n1'', listing_result) \<in> set (posting s3)"
    using t by (auto simp: run_defs)
  then obtain s3 where c: "acceptResult_claim s2 ''n1'' listing_result = Inr s3"
    and p: "(0, ''n1'', listing_result) \<in> set (posting s3)" by blast
  have r3: "run_state s3" by (rule reach_step [OF r2 step_claim [OF _ sample_result c]]) simp
  from reach_step [OF r3 step_answer [OF p]] show ?thesis
    by (simp add: answered_def Let_def t c)
qed

lemma replied_reachable: "run_state replied"
proof -
  have a: "sessions answered = [opened_session \<lparr>s_phase := Waiting, s_buf := Some listing_result\<rparr>]"
    by (simp add: answered_def run_defs)
  have t: "run_state (take_result answered 0 listing_result 20)"
    by (rule reach_step [OF answered_reachable step_take]) (simp_all add: a)
  show ?thesis
    unfolding replied_def
    by (rule reach_step [OF t step_finish]) (simp_all add: a take_result_def set_session_def)
qed

lemma replied_trace:
  "\<exists>a e. trace replied = [T_Operator ''alice'' ''n1'' ''containers.list'', T_Node ''n1'', T_Audit a] @
     T_Dispatch ''n1'' listing_request # [T_Answer ''n1'' listing_result, T_Audit e, T_Reply ''n1'' listing_request listing_result]"
  by (simp add: replied_def answered_def record_end_def take_result_def run_defs)

theorem dispatch_is_granted_and_audited_witness:
  "\<exists>xs ys a. trace replied = xs @ T_Dispatch ''n1'' listing_request # ys \<and> T_Audit a \<in> set xs \<and>
     granted {open_hooks} (ev_Operator a) ''n1'' ''containers.list''"
proof -
  obtain a e where t: "trace replied = [T_Operator ''alice'' ''n1'' ''containers.list'', T_Node ''n1'', T_Audit a] @
     T_Dispatch ''n1'' listing_request # [T_Answer ''n1'' listing_result, T_Audit e, T_Reply ''n1'' listing_request listing_result]"
    using replied_trace by blast
  from dispatch_is_granted_and_audited [OF replied_reachable t] t show ?thesis
    unfolding listing_request_def by fastforce
qed

theorem reply_comes_from_the_target_node_witness:
  "\<exists>xs ys. trace replied = xs @ T_Reply ''n1'' listing_request listing_result # ys \<and> T_Answer ''n1'' listing_result \<in> set xs"
proof -
  obtain a e where t: "trace replied = [T_Operator ''alice'' ''n1'' ''containers.list'', T_Node ''n1'', T_Audit a,
     T_Dispatch ''n1'' listing_request, T_Answer ''n1'' listing_result, T_Audit e] @ T_Reply ''n1'' listing_request listing_result # []"
    using replied_trace by auto
  from reply_comes_from_the_target_node [OF replied_reachable t] t show ?thesis by blast
qed

theorem gateway_stays_bounded_witness: "length (pending (gw answered)) \<le> 256 \<and> sessions answered \<noteq> []"
  using gateway_stays_bounded [OF answered_reachable] by (simp add: answered_def run_defs)

section \<open>Who an agent request speaks for\<close>

definition direct_certificate :: "http_request \<Rightarrow> certificate option" where
  "direct_certificate r = (case hr_peerCertificates r of
     Some (c # cs) \<Rightarrow> if hr_verifiedChains r > 0 then Some c else None | _ \<Rightarrow> None)"

text \<open>An agent request is taken to come from node n exactly when a verified certificate speaks for n:
  the leaf of the connection's own verified chain, or, only when there is none and a node root pool
  is configured, the certificate the ingress forwards, unescaped, decoded, parsed and verified
  against that pool.\<close>

theorem agent_identity_is_verified:
  "requestNodeIdentity lib roots r = Inr n \<longleftrightarrow>
   (\<exists>c. NodeIdentity (Some c) = Inr n \<and>
      (direct_certificate r = Some c \<or>
       direct_certificate r = None \<and> hr_sslClientCert r \<noteq> [] \<and>
         (\<exists>pool unescaped bytes. roots = Some pool \<and> QueryUnescape lib (hr_sslClientCert r) = Some unescaped \<and>
            pem_Decode lib unescaped = Some (''CERTIFICATE'', bytes) \<and> ParseCertificate lib bytes = Some c \<and>
            cert_Verify lib pool c)))"
proof -
  have fwd: "forwardedCertificate lib roots r = Inr c \<longleftrightarrow> hr_sslClientCert r \<noteq> [] \<and>
         (\<exists>pool unescaped bytes. roots = Some pool \<and> QueryUnescape lib (hr_sslClientCert r) = Some unescaped \<and>
            pem_Decode lib unescaped = Some (''CERTIFICATE'', bytes) \<and> ParseCertificate lib bytes = Some c \<and>
            cert_Verify lib pool c)" for c
    by (auto simp: forwardedCertificate_def split: option.splits if_splits prod.splits)
  have "requestPeerCertificate lib roots r = Inr c \<longleftrightarrow> direct_certificate r = Some c \<or>
      direct_certificate r = None \<and> forwardedCertificate lib roots r = Inr c" for c
    by (auto simp: requestPeerCertificate_def direct_certificate_def split: option.splits list.splits if_splits)
  moreover have "requestNodeIdentity lib roots r = Inr n \<longleftrightarrow>
      (\<exists>c. requestPeerCertificate lib roots r = Inr c \<and> NodeIdentity (Some c) = Inr n)"
    by (auto simp: requestNodeIdentity_def split: sum.splits)
  ultimately show ?thesis unfolding fwd by blast
qed

end
