(* ===== verification/Gateway_Runs.thy ===== *)
theory Gateway_Runs
  imports Gateway_Safety
begin

text \<open>
  Runs of the node access gateway worth knowing: a complete shell, the shells that never open, the
  queue of a node that fills up with abandoned requests, and a session stranded by another one that
  reused its identifier. Each is a reachable state of the model of Gateway_Safety.
\<close>

subsection \<open>A shell\<close>

definition vm_hr :: http_request where
  "vm_hr = sample_hr \<lparr>hr_peerCertificates := Some [cert_with [vmPrefix @ sample_uuid]]\<rparr>"

lemma vm_identity: "poll_admit open_hooks no_lib None vm_hr = Inr sample_uuid"
proof -
  have "hostnamePattern sample_uuid" "VMURI sample_uuid = Some (vmPrefix @ sample_uuid)"
    using sample_uuid_valid by (auto simp: valid_vm_id_def VMURI_def uuid_hostname)
  then have "NodeIdentity (Some (cert_with [vmPrefix @ sample_uuid])) = Inr sample_uuid"
    unfolding NodeIdentity_iff
    by (intro conjI exI [of _ 0] exI [of _ "vmPrefix @ sample_uuid"]) (auto simp: node_uris_def cert_with_def)
  then show ?thesis
    by (simp add: poll_admit_def requestNodeIdentity_def requestPeerCertificate_def vm_hr_def sample_hr_def open_hooks_def)
qed

lemma vm_admit: "startShell_admit open_hooks sample_uuid vm_hr = Inr ''alice''"
proof -
  have "hostnamePattern sample_uuid" "novaUUIDPattern sample_uuid"
    using sample_uuid_valid by (auto simp: valid_vm_id_def uuid_hostname)
  then show ?thesis
    by (simp add: startShell_admit_def NodeURI_def TargetKind_def vm_hr_def sample_hr_def bearer_def has_prefix_def
        trim_prefix_def trim_space_def trim_right_def is_space_def open_hooks_def)
qed

definition claimed_shell :: gw_state where
  "claimed_shell = (case startShell_claim (stream_connect empty_state sample_uuid) sample_uuid ''alice'' (Some ''s1'') 10 of
     Inr s \<Rightarrow> s | Inl e \<Rightarrow> empty_state)"

definition recorded_shell :: gw_state where
  "recorded_shell = shell_record claimed_shell 0 True True"

definition shell_out_message :: shellMessage where
  "shell_out_message = \<lparr>sm_Type = ''output'', sm_SessionID = ''s1'', sm_Data = ''hi'', sm_Columns = 0, sm_Rows = 0, sm_ExitCode = 0, sm_Error = []\<rparr>"

definition served_shell :: gw_state where
  "served_shell = the (shell_output (stream_send (stream_route (shell_start recorded_shell 0 True) 0 shell_out_message)
     (0, shell_out_message)) 0 True)"

lemmas shell_run_defs = claimed_shell_def recorded_shell_def served_shell_def stream_connect_def startShell_claim_def
  empty_state_def shell_record_def shell_start_def send_agent_def shell_message_def start_message_def receiveShellMessage_def maxShellFrame_def stream_route_def stream_send_def
  push_output_def shell_output_def after_message_def ends_shell_def shell_out_message_def set_shell_def emit_def
  start_event_def maxShellSessions_def Let_def

lemma recorded_shell_reachable: "run_state recorded_shell"
proof -
  have r0: "run_state (stream_connect empty_state sample_uuid)"
    by (rule reach_step [OF empty_reachable step_connect [OF _ vm_identity]]) simp
  have "\<exists>s. startShell_claim (stream_connect empty_state sample_uuid) sample_uuid ''alice'' (Some ''s1'') 10 = Inr s"
    by (simp add: shell_run_defs)
  then have c: "startShell_claim (stream_connect empty_state sample_uuid) sample_uuid ''alice'' (Some ''s1'') 10 = Inr claimed_shell"
    by (auto simp: claimed_shell_def)
  have r1: "run_state claimed_shell"
    by (rule reach_step [OF r0 step_shell [OF _ vm_admit c]]) simp
  show ?thesis
    unfolding recorded_shell_def by (rule reach_step [OF r1 step_shell_record]) (simp_all add: shell_run_defs)
qed

lemma served_shell_reachable: "run_state served_shell"
proof -
  let ?s1 = "shell_start recorded_shell 0 True"
  let ?s2 = "stream_route ?s1 0 shell_out_message"
  let ?s3 = "stream_send ?s2 (0, shell_out_message)"
  have r1: "run_state ?s1"
    by (rule reach_step [OF recorded_shell_reachable step_shell_start]) (simp_all add: shell_run_defs)
  have r2: "run_state ?s2" by (rule reach_step [OF r1 step_route]) (simp add: shell_run_defs)
  have r3: "run_state ?s3"
    by (rule reach_step [OF r2 step_send]) (simp_all add: shell_run_defs output_room_def shellOutputBuffer_def)
  have "\<exists>s. shell_output ?s3 0 True = Some s" by (simp add: shell_run_defs)
  then have out: "shell_output ?s3 0 True = Some served_shell" by (auto simp: served_shell_def)
  show ?thesis
    by (rule reach_step [OF r3 step_shell_output [OF _ _ out]]) (simp_all add: shell_run_defs)
qed

lemma served_shell_trace:
  "\<exists>xs. trace served_shell = xs @ T_Deliver sample_uuid ''s1'' shell_out_message # []"
  by (simp add: shell_run_defs)

theorem shell_traffic_is_confined_witness:
  "\<exists>xs ys. trace served_shell = xs @ T_Deliver sample_uuid ''s1'' shell_out_message # ys \<and>
     shell_audited (set xs) sample_uuid ''s1''"
  using shell_traffic_is_confined [OF served_shell_reachable] served_shell_trace by blast

fun only_close :: "gw_event \<Rightarrow> bool" where
  "only_close (T_ToAgent n m) = (sm_Type m = ''close'')"
| "only_close e = True"

text \<open>A shell that never opened is audited as completed. When the start message cannot be sent to the
  agent, or when the agent reports no terminal within the twenty seconds of the start timer, and the
  client is still connected, the session's closing record carries the outcome \<open>completed\<close>, the
  same as for a shell that ran and exited.\<close>

theorem unopened_shell_is_audited_completed:
  "(\<exists>s. gw_reachable {open_hooks} s \<and> \<not> sh_started (shellruns s ! 0) \<and>
     list_all only_close (trace s) \<and>
     (\<exists>a. trace s = butlast (trace s) @ [T_Audit a] \<and> ev_RequestID a = ''s1'' \<and> ev_EndedAt a = 30 \<and>
        ev_Outcome a = ''completed'')) \<and>
   (\<exists>s. gw_reachable {open_hooks} s \<and> \<not> sh_started (shellruns s ! 0) \<and>
     (\<exists>a. trace s = butlast (trace s) @ [T_Audit a] \<and> ev_RequestID a = ''s1'' \<and> ev_EndedAt a = 30 \<and>
        ev_Outcome a = ''completed''))"
proof (rule conjI)
  let ?f1 = "shell_start recorded_shell 0 False"
  let ?f2 = "shell_close ?f1 0 False True 30"
  have r1: "run_state ?f1"
    by (rule reach_step [OF recorded_shell_reachable step_shell_start]) (simp_all add: shell_run_defs)
  have r2: "run_state ?f2" by (rule reach_step [OF r1 step_shell_close]) (simp_all add: shell_run_defs)
  have r3: "run_state (shell_end ?f2 0 True)"
    by (rule reach_step [OF r2 step_shell_end])
      (simp_all add: shell_run_defs shell_close_def finishShell_def)
  then show "\<exists>s. gw_reachable {open_hooks} s \<and> \<not> sh_started (shellruns s ! 0) \<and>
     list_all only_close (trace s) \<and>
     (\<exists>a. trace s = butlast (trace s) @ [T_Audit a] \<and> ev_RequestID a = ''s1'' \<and> ev_EndedAt a = 30 \<and>
        ev_Outcome a = ''completed'')"
    by (intro exI [of _ "shell_end ?f2 0 True"])
      (simp add: shell_end_def shell_close_def finishShell_def final_outcome_def shell_run_defs)
  let ?g1 = "shell_start recorded_shell 0 True"
  let ?g2 = "shell_start_timer ?g1 0"
  let ?g3 = "shell_close ?g2 0 False True 30"
  have t1: "run_state ?g1"
    by (rule reach_step [OF recorded_shell_reachable step_shell_start]) (simp_all add: shell_run_defs)
  have t2: "run_state ?g2" by (rule reach_step [OF t1 step_shell_start_timer]) (simp_all add: shell_run_defs)
  have t3: "run_state ?g3"
    by (rule reach_step [OF t2 step_shell_close]) (simp_all add: shell_run_defs shell_start_timer_def)
  have t4: "run_state (shell_end ?g3 0 True)"
    by (rule reach_step [OF t3 step_shell_end])
      (simp_all add: shell_run_defs shell_start_timer_def shell_close_def finishShell_def)
  then show "\<exists>s. gw_reachable {open_hooks} s \<and> \<not> sh_started (shellruns s ! 0) \<and>
     (\<exists>a. trace s = butlast (trace s) @ [T_Audit a] \<and> ev_RequestID a = ''s1'' \<and> ev_EndedAt a = 30 \<and>
        ev_Outcome a = ''completed'')"
    by (intro exI [of _ "shell_end ?g3 0 True"])
      (simp add: shell_end_def shell_close_def shell_start_timer_def finishShell_def final_outcome_def shell_run_defs)
qed

subsection \<open>Abandoned requests\<close>

definition abandoned :: "gw_state \<Rightarrow> gw_state" where
  "abandoned s = wait_cancelled (queued s) (length (sessions s)) 20 True"

lemma queued_fields:
  "sessions (queued s) = sessions s @ [opened_session \<lparr>s_phase := Waiting\<rparr>]"
  "pending (gw (queued s)) = AList.update ''request-1'' \<lparr>pr_node = ''n1'', pr_result = length (sessions s)\<rparr> (pending (gw s))"
  "map_of (queues (gw (queued s))) ''n1'' =
     Some ((case map_of (queues (gw s)) ''n1'' of None \<Rightarrow> [] | Some q \<Rightarrow> q) @ [listing_request])"
  "gw_closed (gw (queued s)) = gw_closed (gw s)"
  by (simp_all add: queued_def enqueue_def opened_def opened_session_def Let_def set_session_def queueLocked_def
      split: option.splits)

lemma abandoned_step:
  assumes r: "run_state s" and p: "pending (gw s) = []" and c: "\<not> gw_closed (gw s)"
    and room: "case map_of (queues (gw s)) ''n1'' of None \<Rightarrow> True | Some q \<Rightarrow> length q < maxInFlight"
  shows "run_state (abandoned s)" "pending (gw (abandoned s)) = []" "\<not> gw_closed (gw (abandoned s))"
    "map_of (queues (gw (abandoned s))) ''n1'' =
       Some ((case map_of (queues (gw s)) ''n1'' of None \<Rightarrow> [] | Some q \<Rightarrow> q) @ [listing_request])"
proof -
  have q: "run_state (queued s)"
    by (rule queued_reachable [OF r _ _ room]) (simp_all add: p maxInFlight_def)
  show "run_state (abandoned s)"
    unfolding abandoned_def by (rule reach_step [OF q step_cancelled]) (simp_all add: queued_fields opened_session_def)
  show "pending (gw (abandoned s)) = []" "\<not> gw_closed (gw (abandoned s))"
    "map_of (queues (gw (abandoned s))) ''n1'' =
       Some ((case map_of (queues (gw s)) ''n1'' of None \<Rightarrow> [] | Some q \<Rightarrow> q) @ [listing_request])"
    using c by (simp_all add: abandoned_def wait_cancelled_def Let_def state_defs queued_fields p opened_session_def
        listing_request_def)
qed

lemma abandoned_many:
  "k < maxInFlight \<Longrightarrow> \<exists>s. run_state s \<and> pending (gw s) = [] \<and> \<not> gw_closed (gw s) \<and>
     map_of (queues (gw s)) ''n1'' = Some (replicate (Suc k) listing_request)"
proof (induction k)
  case 0
  show ?case
    using abandoned_step [OF empty_reachable] by (intro exI [of _ "abandoned empty_state"]) (simp add: empty_state_def)
next
  case (Suc k)
  then obtain s where s: "run_state s" "pending (gw s) = []" "\<not> gw_closed (gw s)"
    "map_of (queues (gw s)) ''n1'' = Some (replicate (Suc k) listing_request)" by auto
  have room: "case map_of (queues (gw s)) ''n1'' of None \<Rightarrow> True | Some q \<Rightarrow> length q < maxInFlight"
    using Suc.prems s(4) by simp
  from abandoned_step [OF s(1-3) room] show ?case
    by (intro exI [of _ "abandoned s"]) (simp add: s(4) replicate_append_same)
qed

lemma enqueuing_session_stays:
  assumes "gw_step HS s s'" "i < length (sessions s)" "s_phase (sessions s ! i) = Enqueuing"
    "\<not> enqueue_ready s i" "\<not> gw_closed (gw s)"
  shows "s_phase (sessions s' ! i) = Enqueuing \<or> s' = enqueue_cancelled s i"
  using assms
proof (induction rule: gw_step.induct)
  case (step_start H body r now node req operator s started s')
  then show ?case by (auto simp: startSession_register_def Let_def nth_append split: if_splits)
next
  case (step_record j s ok)
  then show ?case by (cases "j = i") (auto simp: record_start_def Let_def state_defs)
next
  case (step_enqueue j s)
  then show ?case by (cases "j = i") (auto simp: enqueue_def Let_def state_defs)
next
  case (step_enqueue_cancelled j s)
  then show ?case by (cases "j = i") (auto simp: enqueue_cancelled_def state_defs)
next
  case (step_answer p s)
  obtain j n r where "p = (j, n, r)" by (cases p)
  with step_answer show ?case
    by (cases "j = i") (simp_all add: acceptResult_send_def Let_def state_defs split: option.splits)
qed (auto simp: take_result_def wait_timeout_def wait_cancelled_def wait_closed_def record_end_def Let_def state_defs
    poll_queue_def poll_take_def acceptResult_claim_def startShell_claim_def shell_record_def shell_start_def shell_input_def
    receiveShellMessage_def send_agent_def set_shell_def finishShell_def shell_output_def shell_start_timer_def shell_session_timer_def
    shell_return_def shell_close_def shell_end_def stream_connect_def stream_route_def stream_send_def push_output_def
    stream_drop_def stream_disconnect_def nth_list_update split: option.splits if_splits list.splits)

text \<open>Requests whose operator went away stay in the node's queue until an agent polls. There is a run in
  which 256 abandoned requests fill the queue of a node with nothing pending; the next session of
  that node is admitted, takes a pending slot and is audited as started, and then no step of any
  handler, the passing of its deadline included, moves it on, except its own client giving up or,
  once the agent polls again, room in the queue: the deadline timer is only started after the send.\<close>

theorem abandoned_requests_block_the_node:
  "\<exists>s i. gw_reachable {open_hooks} s \<and> i < length (sessions s) \<and> s_phase (sessions s ! i) = Enqueuing \<and>
     length (pending (gw s)) = 1 \<and> map_of (queues (gw s)) ''n1'' = Some (replicate 256 listing_request) \<and>
     Collect (gw_step {open_hooks} s) \<subseteq> {s'. s_phase (sessions s' ! i) = Enqueuing \<or> s' = enqueue_cancelled s i}"
proof -
  obtain s where s: "run_state s" "pending (gw s) = []" "\<not> gw_closed (gw s)"
    "map_of (queues (gw s)) ''n1'' = Some (replicate (Suc 255) listing_request)"
    using abandoned_many [of 255] by (auto simp: maxInFlight_def)
  let ?i = "length (sessions s)"
  have full: "map_of (queues (gw (opened s))) ''n1'' = Some (replicate 256 listing_request)"
    using s(4) by (simp add: opened_def queueLocked_queues)
  have i: "?i < length (sessions (opened s))" "s_phase (sessions (opened s) ! ?i) = Enqueuing"
    "s_node (sessions (opened s) ! ?i) = ''n1''" by (simp_all add: opened_def opened_session_def)
  have "\<not> enqueue_ready (opened s) ?i" using full i by (simp add: enqueue_ready_def maxInFlight_def)
  moreover have "\<not> gw_closed (gw (opened s))" using s(3) by (simp add: opened_def)
  ultimately have stuck: "gw_step {open_hooks} (opened s) s' \<Longrightarrow>
      s_phase (sessions s' ! ?i) = Enqueuing \<or> s' = enqueue_cancelled (opened s) ?i" for s'
    using enqueuing_session_stays [OF _ i(1,2)] by blast
  have "run_state (opened s)" by (rule opened_reachable [OF s(1)]) (simp_all add: s(2) maxInFlight_def)
  moreover have "length (pending (gw (opened s))) = 1" by (simp add: opened_def s(2))
  ultimately show ?thesis using full i stuck by blast
qed

subsection \<open>A reused identifier\<close>

definition stranded :: gw_state where
  "stranded = wait_timeout (queued answered) 0 1000 True"

text \<open>Removal from the pending map is by identifier, not by owner. Once an agent's result is claimed, the
  identifier is free again although its session has not yet left; a second session may register
  it. When the first session then takes its timeout branch (its result was delivered, but the timer was ready
  too) it deletes the entry of the second one, whose own answer, from whatever node, is refused as
  unknown while that session is still waiting.\<close>

theorem reused_id_strands_the_second_session:
  "gw_reachable {open_hooks} stranded \<and>
   s_phase (sessions stranded ! 1) = Waiting \<and> s_buf (sessions stranded ! 1) = None \<and> posting stranded = [] \<and>
   s_req (sessions stranded ! 1) = listing_request \<and> rs_ID listing_result = rq_ID listing_request \<and>
   s_phase (sessions stranded ! 0) = Done (HTTPError 504 TimedOut) \<and>
   s_buf (sessions stranded ! 0) = Some listing_result \<and>
   acceptResult_claim stranded n listing_result = Inl (HTTPError 404 RequestNotFound)"
proof -
  have a: "sessions answered = [opened_session \<lparr>s_phase := Waiting, s_buf := Some listing_result\<rparr>]"
    "pending (gw answered) = []" "posting answered = []" "map_of (queues (gw answered)) ''n1'' = Some []"
    by (simp_all add: answered_def run_defs)
  have q: "run_state (queued answered)"
    by (rule queued_reachable [OF answered_reachable]) (simp_all add: a maxInFlight_def)
  have "run_state stranded"
    unfolding stranded_def
    by (rule reach_step [OF q step_timeout]) (simp_all add: queued_fields a opened_session_def listing_request_def)
  moreover have "sessions stranded = [opened_session \<lparr>s_phase := Done (HTTPError 504 TimedOut), s_buf := Some listing_result\<rparr>,
      opened_session \<lparr>s_phase := Waiting\<rparr>]"
    by (simp add: stranded_def wait_timeout_def Let_def state_defs queued_fields a opened_session_def)
  moreover have "pending (gw stranded) = []"
    by (simp add: stranded_def wait_timeout_def Let_def state_defs queued_fields a opened_session_def listing_request_def)
  moreover have "posting stranded = []"
    by (simp add: stranded_def wait_timeout_def Let_def state_defs queued_def enqueue_def opened_def a)
  ultimately show ?thesis
    by (simp add: acceptResult_claim_def opened_session_def listing_result_def listing_request_def)
qed

end
