(* ===== verification/Wg_Live.thy ===== *)
theory Wg_Live
  imports Complex_Main Go_Prelude "HOL-Library.Product_Lexorder"
begin

text \<open>
  The live half of the WireGuard overlay, \<^verbatim>\<open>internal/wireguard/identity.go\<close> and
  \<^verbatim>\<open>state.go\<close>: which gateway a public key belongs to, and the state the pollers of all
  gateways share. Rates are real numbers (floating-point rounding is not modelled), the slices
  and maps of a sample are values, and the clock is read once per peer.

  The lemmas show that the endpoint index does not depend on the order of the rows, that each
  operation of the state refines an update of three abstract maps (previous sample, side
  statistics, drift), and that polls of different gateways commute.
\<close>

section \<open>Endpoint identity\<close>

type_synonym tunnelKey = "string \<times> string \<times> string" \<comment> \<open>Host, Iface, Peer\<close>

type_synonym nodeRef = "string \<times> string" \<comment> \<open>Host, Iface\<close>

record wg_interface_row =
  wi_Host :: string
  wi_Iface :: string
  wi_ListenPort :: int
  wi_PublicKey :: string
  wi_Fwmark :: int
  wi_Address :: "string list"
  wi_CollectedAt :: gotime

record endpointIndex =
  canonical :: "(string, nodeRef) gomap"
  aliases :: "(string, nodeRef list) gomap"
  conflicts :: "(string, bool) gomap"

definition Lookup :: "endpointIndex \<Rightarrow> string \<Rightarrow> nodeRef option" where
  "Lookup e key = map_of (canonical e) key"

fun observed_loop :: "string list \<Rightarrow> nodeRef list \<Rightarrow> string list" where
  "observed_loop hosts [] = hosts"
| "observed_loop hosts (r # rs) =
    (if fst r \<in> set hosts then observed_loop hosts rs else observed_loop (hosts @ [fst r]) rs)"

definition ObservedThrough :: "endpointIndex \<Rightarrow> string \<Rightarrow> string list" where
  "ObservedThrough e key =
    (let hosts = observed_loop [] (slice_of (aliases e) key) in if length hosts < 2 then [] else sort hosts)"

fun SameInterface :: "wg_interface_row list \<Rightarrow> bool" where
  "SameInterface [] = True" \<comment> \<open>never called: every key has a row\<close>
| "SameInterface (first # rows) = list_all (\<lambda>r. wi_Iface r = wi_Iface first \<and> wi_ListenPort r = wi_ListenPort first \<and>
     sort (wi_Address r) = sort (wi_Address first)) rows"

definition group_key :: "(string, wg_interface_row list) gomap \<Rightarrow> wg_interface_row \<Rightarrow> (string, wg_interface_row list) gomap" where
  "group_key m i = AList.update (wi_PublicKey i) (slice_of m (wi_PublicKey i) @ [i]) m"

definition host_iface :: "wg_interface_row \<Rightarrow> nodeRef" where
  "host_iface r = (wi_Host r, wi_Iface r)"

definition index_key :: "endpointIndex \<Rightarrow> string \<times> wg_interface_row list \<Rightarrow> endpointIndex" where
  "index_key idx = (\<lambda>(key, rows0). let rows = sort_key host_iface rows0 in
     idx \<lparr>aliases := AList.update key (slice_of (aliases idx) key @ map host_iface rows) (aliases idx),
          canonical := AList.update key (host_iface (hd rows)) (canonical idx),
          conflicts := (if SameInterface rows then conflicts idx else AList.update key True (conflicts idx))\<rparr>)"

definition BuildEndpointIndex :: "wg_interface_row list \<Rightarrow> endpointIndex" where
  "BuildEndpointIndex ifaces =
     foldl index_key \<lparr>canonical = [], aliases = [], conflicts = []\<rparr> (foldl group_key [] ifaces)"

definition ShortKey :: "string \<Rightarrow> string" where
  "ShortKey k = (if length k \<le> 8 then k else take 7 k @ [CHR 0xE2, CHR 0x80, CHR 0xA6])"

section \<open>Live state\<close>

record peerSample =
  ps_Iface :: string
  ps_PubKey :: string
  ps_Endpoint :: string
  ps_AllowedIPs :: "string list"
  ps_Rx :: int
  ps_Tx :: int
  ps_Handshake :: int

record sample =
  sa_Rx :: int
  sa_Tx :: int
  sa_HS :: "gotime option"
  sa_At :: gotime

record edgeSideStat =
  RateReady :: bool
  sd_RxPS :: real
  sd_TxPS :: real
  sd_HS :: int
  sd_At :: int

record edgeStat =
  es_RxPS :: real
  es_TxPS :: real
  es_HS :: int
  Sides :: "(string, edgeSideStat) gomap"

record driftPeer =
  dp_Host :: string
  dp_Iface :: string
  dp_PubKey :: string
  dp_Endpoint :: string
  dp_AllowedIPs :: "string list"
  FirstSeen :: int

record live_state =
  prev :: "(tunnelKey, sample) gomap"
  stats :: "(string, edgeStat) gomap"
  errs :: "(string, string) gomap"
  drifted :: "(tunnelKey, driftPeer) gomap"

definition NewState :: live_state where
  "NewState = \<lparr>prev = [], stats = [], errs = [], drifted = []\<rparr>"

definition unix_epoch :: int where "unix_epoch = 62135596800"

definition time_Unix :: "int \<Rightarrow> gotime" where
  "time_Unix sec = (sec + unix_epoch) * second"

definition unix_of :: "gotime \<Rightarrow> int" where
  "unix_of t = t div second - unix_epoch"

definition whole_seconds :: "duration \<Rightarrow> int" where
  "whole_seconds d = sgn d * (\<bar>d\<bar> div second)"

definition ComputeRate :: "sample \<Rightarrow> sample \<Rightarrow> real \<times> real" where
  "ComputeRate old cur =
    (let dt = real_of_int (time_sub (sa_At cur) (sa_At old)) / real_of_int second in
     if dt \<le> 0 then (0, 0)
     else let drx = sa_Rx cur - sa_Rx old; dtx = sa_Tx cur - sa_Tx old in
       (real_of_int (if drx < 0 then 0 else drx) / dt, real_of_int (if dtx < 0 then 0 else dtx) / dt))"

fun flatten_loop :: "real \<times> real \<times> int \<Rightarrow> edgeSideStat list \<Rightarrow> real \<times> real \<times> int" where
  "flatten_loop acc [] = acc"
| "flatten_loop (rx, tx, hs) (s # ss) =
    flatten_loop (max rx (sd_RxPS s), max tx (sd_TxPS s), if sd_HS s \<ge> 0 \<and> (hs < 0 \<or> sd_HS s < hs) then sd_HS s else hs) ss"

definition flattenSides :: "(string, edgeSideStat) gomap \<Rightarrow> real \<times> real \<times> int" where
  "flattenSides sides = flatten_loop (0, 0, -1) (map snd sides)"

definition cur_sample :: "peerSample \<Rightarrow> gotime \<Rightarrow> sample" where
  "cur_sample p t0 = \<lparr>sa_Rx = ps_Rx p, sa_Tx = ps_Tx p,
     sa_HS = (if ps_Handshake p > 0 then Some (time_Unix (ps_Handshake p)) else None), sa_At = t0\<rparr>"

definition side_of :: "sample option \<Rightarrow> sample \<Rightarrow> gotime \<Rightarrow> gotime \<Rightarrow> edgeSideStat" where
  "side_of old cur t0 now =
     \<lparr>RateReady = (old \<noteq> None),
      sd_RxPS = (case old of None \<Rightarrow> 0 | Some o' \<Rightarrow> fst (ComputeRate o' cur)),
      sd_TxPS = (case old of None \<Rightarrow> 0 | Some o' \<Rightarrow> snd (ComputeRate o' cur)),
      sd_HS = (case sa_HS cur of None \<Rightarrow> -1 | Some hs \<Rightarrow> whole_seconds (time_sub now hs)),
      sd_At = unix_of t0\<rparr>"

definition merge_side :: "(string, edgeStat) gomap \<Rightarrow> string \<Rightarrow> string \<Rightarrow> edgeSideStat \<Rightarrow> (string, edgeStat) gomap" where
  "merge_side sts i host side =
    (let sides = AList.update host side (case map_of sts i of None \<Rightarrow> [] | Some st \<Rightarrow> Sides st) in
     case flattenSides sides of (rx, tx, hs) \<Rightarrow>
       AList.update i \<lparr>es_RxPS = rx, es_TxPS = tx, es_HS = hs, Sides = sides\<rparr> sts)"

definition drift_of :: "string \<Rightarrow> peerSample \<Rightarrow> gotime \<Rightarrow> driftPeer" where
  "drift_of host p t0 = \<lparr>dp_Host = host, dp_Iface = ps_Iface p, dp_PubKey = ps_PubKey p, dp_Endpoint = ps_Endpoint p,
     dp_AllowedIPs = ps_AllowedIPs p, FirstSeen = unix_of t0\<rparr>"

definition record_peer ::
  "string \<Rightarrow> gotime \<Rightarrow> (tunnelKey, string) gomap \<Rightarrow> live_state \<Rightarrow> peerSample \<times> gotime \<Rightarrow> live_state" where
  "record_peer host t0 edgeFor s = (\<lambda>(p, now).
     let k = (host, ps_Iface p, ps_PubKey p) in
     case map_of edgeFor k of
       None \<Rightarrow> (case map_of (drifted s) k of
           Some _ \<Rightarrow> s
         | None \<Rightarrow> s \<lparr>drifted := AList.update k (drift_of host p t0) (drifted s)\<rparr>)
     | Some i \<Rightarrow>
       let cur = cur_sample p t0 in
       s \<lparr>drifted := AList.delete k (drifted s),
          stats := merge_side (stats s) i host (side_of (map_of (prev s) k) cur t0 now),
          prev := AList.update k cur (prev s)\<rparr>)"

text \<open>\<open>now\<close> beside each peer is the clock \<^verbatim>\<open>time.Since\<close> reads for it.\<close>

definition Record ::
  "string \<Rightarrow> (peerSample \<times> gotime) list \<Rightarrow> gotime \<Rightarrow> (tunnelKey, string) gomap \<Rightarrow> live_state \<Rightarrow> live_state" where
  "Record host peers t0 edgeFor s =
     foldl (record_peer host t0 edgeFor) (s \<lparr>errs := AList.delete host (errs s)\<rparr>) peers"

definition Fail :: "string \<Rightarrow> string \<Rightarrow> live_state \<Rightarrow> live_state" where
  "Fail host err s = s \<lparr>errs := AList.update host err (errs s)\<rparr>"

definition drift_key :: "driftPeer \<Rightarrow> tunnelKey" where
  "drift_key p = (dp_Host p, dp_Iface p, dp_PubKey p)"

definition DriftList :: "live_state \<Rightarrow> driftPeer list" where
  "DriftList s = sort_key drift_key (map snd (drifted s))"

record liveSnapshot =
  Edges :: "(string, edgeStat) gomap"
  Errors :: "(string, string) gomap"
  Drift :: "driftPeer list"

definition LiveSnapshot :: "live_state \<Rightarrow> liveSnapshot" where
  "LiveSnapshot s = \<lparr>Edges = map (\<lambda>(i, st). (i, st \<lparr>Sides := Sides st\<rparr>)) (stats s), Errors = errs s, Drift = DriftList s\<rparr>"

section \<open>The endpoint index does not depend on the order of the rows\<close>

lemma group_slice: "slice_of (foldl group_key m rows) key = slice_of m key @ filter (\<lambda>r. wi_PublicKey r = key) rows"
  by (induction rows arbitrary: m) (auto simp: group_key_def)

lemma group_wf: "gomap_wf m \<Longrightarrow> gomap_wf (foldl group_key m rows)"
  by (induction rows arbitrary: m) (auto simp: group_key_def)

lemma group_keys: "fst ` set (foldl group_key m rows) = fst ` set m \<union> wi_PublicKey ` set rows"
proof (induction rows arbitrary: m)
  case (Cons r rows)
  have "fst ` set (group_key m r) = insert (wi_PublicKey r) (fst ` set m)"
    by (simp add: group_key_def dom_update [symmetric] dom_map_of_conv_image_fst [symmetric] update_conv')
  with Cons show ?case by simp
qed simp

definition rows_of :: "wg_interface_row list \<Rightarrow> string \<Rightarrow> wg_interface_row list" where
  "rows_of ifaces key = sort_key host_iface (filter (\<lambda>r. wi_PublicKey r = key) ifaces)"

lemma index_fold:
  assumes "gomap_wf g"
  shows "map_of (canonical (foldl index_key idx g)) key =
      (case map_of g key of None \<Rightarrow> map_of (canonical idx) key | Some rs \<Rightarrow> Some (host_iface (hd (sort_key host_iface rs))))"
    and "slice_of (aliases (foldl index_key idx g)) key =
      (case map_of g key of None \<Rightarrow> slice_of (aliases idx) key
       | Some rs \<Rightarrow> slice_of (aliases idx) key @ map host_iface (sort_key host_iface rs))"
    and "is_true (conflicts (foldl index_key idx g)) key =
      (case map_of g key of None \<Rightarrow> is_true (conflicts idx) key
       | Some rs \<Rightarrow> is_true (conflicts idx) key \<or> \<not> SameInterface (sort_key host_iface rs))"
  using assms
proof (induction g arbitrary: idx)
  case (Cons kr g)
  obtain k rs where kr: "kr = (k, rs)" by (cases kr)
  { case 1
    then have "map_of g k = None" "gomap_wf g" by (auto simp: gomap_wf_def kr map_of_eq_None_iff)
    with Cons.IH(1) [of "index_key idx kr"] show ?case
      by (auto simp: kr index_key_def Let_def split: option.splits)
  next
    case 2
    then have "map_of g k = None" "gomap_wf g" by (auto simp: gomap_wf_def kr map_of_eq_None_iff)
    with Cons.IH(2) [of "index_key idx kr"] show ?case
      by (auto simp: kr index_key_def Let_def split: option.splits)
  next
    case 3
    then have "map_of g k = None" "gomap_wf g" by (auto simp: gomap_wf_def kr map_of_eq_None_iff)
    with Cons.IH(3) [of "index_key idx kr"] show ?case
      by (auto simp: kr index_key_def Let_def is_true_def split: option.splits if_splits) }
qed simp_all

lemma group_lookup:
  "map_of (foldl group_key [] ifaces) key =
     (if key \<in> wi_PublicKey ` set ifaces then Some (filter (\<lambda>r. wi_PublicKey r = key) ifaces) else None)"
proof (cases "key \<in> wi_PublicKey ` set ifaces")
  case True
  then have "key \<in> fst ` set (foldl group_key [] ifaces)" by (simp add: group_keys)
  then obtain rs where rs: "map_of (foldl group_key [] ifaces) key = Some rs"
    by (metis map_of_eq_None_iff not_None_eq)
  with group_slice [of "[]" ifaces key] have "rs = filter (\<lambda>r. wi_PublicKey r = key) ifaces" by (simp add: slice_of_def)
  with rs True show ?thesis by simp
next
  case False
  then show ?thesis by (simp add: map_of_eq_None_iff group_keys)
qed

lemma index_lookup:
  "Lookup (BuildEndpointIndex ifaces) key =
     (if rows_of ifaces key = [] then None else Some (host_iface (hd (rows_of ifaces key))))"
  "slice_of (aliases (BuildEndpointIndex ifaces)) key = map host_iface (rows_of ifaces key)"
  "is_true (conflicts (BuildEndpointIndex ifaces)) key \<longleftrightarrow> \<not> SameInterface (rows_of ifaces key)"
proof -
  have wf: "gomap_wf (foldl group_key [] ifaces)" by (rule group_wf) simp
  have empty: "key \<notin> wi_PublicKey ` set ifaces \<longleftrightarrow> rows_of ifaces key = []"
  proof -
    have "set (rows_of ifaces key) = {r \<in> set ifaces. wi_PublicKey r = key}" by (simp add: rows_of_def)
    then have "rows_of ifaces key = [] \<longleftrightarrow> {r \<in> set ifaces. wi_PublicKey r = key} = {}"
      using set_empty [of "rows_of ifaces key"] by simp
    then show ?thesis by auto
  qed
  show "Lookup (BuildEndpointIndex ifaces) key =
     (if rows_of ifaces key = [] then None else Some (host_iface (hd (rows_of ifaces key))))"
    using index_fold(1) [OF wf, of "\<lparr>canonical = [], aliases = [], conflicts = []\<rparr>" key] empty
    by (auto simp: Lookup_def BuildEndpointIndex_def group_lookup rows_of_def)
  show "slice_of (aliases (BuildEndpointIndex ifaces)) key = map host_iface (rows_of ifaces key)"
    using index_fold(2) [OF wf, of "\<lparr>canonical = [], aliases = [], conflicts = []\<rparr>" key] empty
    by (auto simp: BuildEndpointIndex_def group_lookup rows_of_def slice_of_def)
  show "is_true (conflicts (BuildEndpointIndex ifaces)) key \<longleftrightarrow> \<not> SameInterface (rows_of ifaces key)"
    using index_fold(3) [OF wf, of "\<lparr>canonical = [], aliases = [], conflicts = []\<rparr>" key] empty
    by (auto simp: BuildEndpointIndex_def group_lookup rows_of_def is_true_def)
qed

definition same_settings :: "wg_interface_row \<Rightarrow> wg_interface_row \<Rightarrow> bool" where
  "same_settings r q \<longleftrightarrow> wi_Iface r = wi_Iface q \<and> wi_ListenPort r = wi_ListenPort q \<and> mset (wi_Address r) = mset (wi_Address q)"

lemma SameInterface_iff: "SameInterface rows \<longleftrightarrow> (\<forall>r \<in> set rows. \<forall>q \<in> set rows. same_settings r q)"
  by (cases rows) (auto simp: list_all_iff same_settings_def sort_eq_iff_mset)

lemma rows_of_hosts: "map host_iface (rows_of ifaces key) = sort (map host_iface (filter (\<lambda>r. wi_PublicKey r = key) ifaces))"
  by (simp add: rows_of_def map_sort_key)

lemma rows_of_set: "set (rows_of ifaces key) = {r \<in> set ifaces. wi_PublicKey r = key}"
  by (simp add: rows_of_def)

lemma Lookup_sorted:
  "Lookup (BuildEndpointIndex ifaces) key =
     (case sort (map host_iface (filter (\<lambda>r. wi_PublicKey r = key) ifaces)) of [] \<Rightarrow> None | r # rs \<Rightarrow> Some r)"
  unfolding index_lookup(1) rows_of_hosts [symmetric] by (cases "rows_of ifaces key") auto

lemma Lookup_least:
  assumes "Lookup (BuildEndpointIndex ifaces) (wi_PublicKey i) = Some r" "i \<in> set ifaces"
  shows "r \<le> host_iface i"
proof -
  let ?l = "sort (map host_iface (filter (\<lambda>r. wi_PublicKey r = wi_PublicKey i) ifaces))"
  from assms(1) obtain rs where l: "?l = r # rs" by (auto simp: Lookup_sorted split: list.splits)
  have "sorted (r # rs)" using sorted_sort [of "map host_iface (filter (\<lambda>r. wi_PublicKey r = wi_PublicKey i) ifaces)"] l by simp
  moreover have "host_iface i \<in> set ?l" using assms(2) by auto
  ultimately show ?thesis unfolding l by auto
qed

text \<open>The owner of a public key does not depend on the order in which the interface rows arrive: the
  index built from any reordering gives the same canonical gateway, the same observed names and the
  same conflicts. The canonical gateway is the least (host, interface) that presented the key, and a
  key conflicts exactly when two of its rows disagree on interface name, port or address set.\<close>

theorem endpoint_index_ignores_row_order:
  "mset ifaces' = mset ifaces \<Longrightarrow>
   Lookup (BuildEndpointIndex ifaces') key = Lookup (BuildEndpointIndex ifaces) key \<and>
   ObservedThrough (BuildEndpointIndex ifaces') key = ObservedThrough (BuildEndpointIndex ifaces) key \<and>
   is_true (conflicts (BuildEndpointIndex ifaces')) key = is_true (conflicts (BuildEndpointIndex ifaces)) key \<and>
   (Lookup (BuildEndpointIndex ifaces) key = None \<longleftrightarrow> key \<notin> wi_PublicKey ` set ifaces) \<and>
   (\<forall>r i. Lookup (BuildEndpointIndex ifaces) key = Some r \<and> i \<in> set ifaces \<and> wi_PublicKey i = key \<longrightarrow> r \<le> host_iface i) \<and>
   (is_true (conflicts (BuildEndpointIndex ifaces)) key \<longleftrightarrow>
      (\<exists>r q. r \<in> set ifaces \<and> q \<in> set ifaces \<and> wi_PublicKey r = key \<and> wi_PublicKey q = key \<and> \<not> same_settings r q))"
proof -
  assume m: "mset ifaces' = mset ifaces"
  have hosts: "sort (map host_iface (filter (\<lambda>r. wi_PublicKey r = key) ifaces')) =
      sort (map host_iface (filter (\<lambda>r. wi_PublicKey r = key) ifaces))"
    using m by (simp add: sort_eq_iff_mset mset_filter)
  have set: "set ifaces' = set ifaces" using m by (metis set_mset_mset)
  have look: "Lookup (BuildEndpointIndex ifaces') key = Lookup (BuildEndpointIndex ifaces) key"
    using hosts by (simp add: Lookup_sorted)
  have obs: "ObservedThrough (BuildEndpointIndex ifaces') key = ObservedThrough (BuildEndpointIndex ifaces) key"
    using hosts by (simp add: ObservedThrough_def index_lookup rows_of_hosts)
  have none: "Lookup (BuildEndpointIndex ifaces) key = None \<longleftrightarrow> key \<notin> wi_PublicKey ` set ifaces"
    unfolding index_lookup(1) using rows_of_set [of ifaces key] by (auto simp flip: set_empty)
  have "is_true (conflicts (BuildEndpointIndex ifaces)) key \<longleftrightarrow>
      (\<exists>r q. r \<in> set ifaces \<and> q \<in> set ifaces \<and> wi_PublicKey r = key \<and> wi_PublicKey q = key \<and> \<not> same_settings r q)"
    "is_true (conflicts (BuildEndpointIndex ifaces')) key = is_true (conflicts (BuildEndpointIndex ifaces)) key"
    using set by (auto simp: index_lookup SameInterface_iff rows_of_set)
  with look obs none Lookup_least show ?thesis by blast
qed

definition vip_rows :: "wg_interface_row list" where
  "vip_rows = [\<lparr>wi_Host = ''srv-49'', wi_Iface = ''wg1'', wi_ListenPort = 51820, wi_PublicKey = ''K'', wi_Fwmark = 0,
     wi_Address = [''10.0.0.1/24''], wi_CollectedAt = 1\<rparr>,
   \<lparr>wi_Host = ''lb'', wi_Iface = ''wg1'', wi_ListenPort = 51820, wi_PublicKey = ''K'', wi_Fwmark = 0,
     wi_Address = [''10.0.0.1/24''], wi_CollectedAt = 2\<rparr>]"

theorem endpoint_index_ignores_row_order_witness:
  "Lookup (BuildEndpointIndex (rev vip_rows)) ''K'' = Lookup (BuildEndpointIndex vip_rows) ''K'' \<and>
   Lookup (BuildEndpointIndex vip_rows) ''K'' \<noteq> None \<and> \<not> is_true (conflicts (BuildEndpointIndex vip_rows)) ''K''"
proof -
  have "mset (rev vip_rows) = mset vip_rows" by simp
  from endpoint_index_ignores_row_order [OF this, of "''K''"] show ?thesis
    by (auto simp: vip_rows_def same_settings_def)
qed

section \<open>The state as three maps\<close>

record live_abs =
  a_prev :: "tunnelKey \<rightharpoonup> sample"
  a_sides :: "string \<Rightarrow> string \<rightharpoonup> edgeSideStat"
  a_drift :: "tunnelKey \<rightharpoonup> driftPeer"

definition abs_state :: "live_state \<Rightarrow> live_abs" where
  "abs_state s = \<lparr>a_prev = map_of (prev s),
     a_sides = (\<lambda>i. case map_of (stats s) i of None \<Rightarrow> Map.empty | Some st \<Rightarrow> map_of (Sides st)),
     a_drift = map_of (drifted s)\<rparr>"

definition abs_peer ::
  "string \<Rightarrow> gotime \<Rightarrow> (tunnelKey, string) gomap \<Rightarrow> live_abs \<Rightarrow> peerSample \<times> gotime \<Rightarrow> live_abs" where
  "abs_peer host t0 edgeFor a = (\<lambda>(p, now).
     let k = (host, ps_Iface p, ps_PubKey p) in
     case map_of edgeFor k of
       None \<Rightarrow> (if a_drift a k = None then a \<lparr>a_drift := (a_drift a)(k \<mapsto> drift_of host p t0)\<rparr> else a)
     | Some i \<Rightarrow> a \<lparr>a_drift := (a_drift a)(k := None),
          a_sides := (a_sides a)(i := (a_sides a i)(host \<mapsto> side_of (a_prev a k) (cur_sample p t0) t0 now)),
          a_prev := (a_prev a)(k \<mapsto> cur_sample p t0)\<rparr>)"

definition stat_ok :: "edgeStat \<Rightarrow> bool" where
  "stat_ok st \<longleftrightarrow> Sides st \<noteq> [] \<and> gomap_wf (Sides st) \<and> flattenSides (Sides st) = (es_RxPS st, es_TxPS st, es_HS st)"

definition live_inv :: "live_state \<Rightarrow> bool" where
  "live_inv s \<longleftrightarrow> (\<forall>i st. map_of (stats s) i = Some st \<longrightarrow> stat_ok st) \<and>
     gomap_wf (drifted s) \<and> (\<forall>k d. map_of (drifted s) k = Some d \<longrightarrow> drift_key d = k)"

lemma merge_side_lookup:
  "map_of (merge_side sts i host side) j = (if j = i then
     Some (let sides = AList.update host side (case map_of sts i of None \<Rightarrow> [] | Some st \<Rightarrow> Sides st) in
       case flattenSides sides of (rx, tx, hs) \<Rightarrow> \<lparr>es_RxPS = rx, es_TxPS = tx, es_HS = hs, Sides = sides\<rparr>)
     else map_of sts j)"
  by (simp add: merge_side_def Let_def split: prod.splits)

lemma record_peer_refines: "abs_state (record_peer host t0 edgeFor s x) = abs_peer host t0 edgeFor (abs_state s) x"
proof (cases x)
  case (Pair p now)
  show ?thesis
  proof (cases "map_of edgeFor (host, ps_Iface p, ps_PubKey p)")
    case None
    then show ?thesis
      by (cases "map_of (drifted s) (host, ps_Iface p, ps_PubKey p)")
        (auto simp: Pair record_peer_def abs_peer_def Let_def abs_state_def)
  next
    case (Some i)
    have sides: "(\<lambda>j. case map_of (merge_side (stats s) i host side) j of None \<Rightarrow> Map.empty | Some st \<Rightarrow> map_of (Sides st)) =
        (\<lambda>j. case map_of (stats s) j of None \<Rightarrow> Map.empty | Some st \<Rightarrow> map_of (Sides st))
          (i := (case map_of (stats s) i of None \<Rightarrow> Map.empty | Some st \<Rightarrow> map_of (Sides st))(host \<mapsto> side))" for side
      by (rule ext) (auto simp: merge_side_lookup Let_def split: prod.splits option.splits)
    show ?thesis
      by (simp add: Pair Some record_peer_def abs_peer_def Let_def abs_state_def sides)
        (auto intro!: ext)
  qed
qed

lemma foldl_refines:
  "abs_state (foldl (record_peer host t0 edgeFor) s xs) = foldl (abs_peer host t0 edgeFor) (abs_state s) xs"
  by (induction xs arbitrary: s) (simp_all add: record_peer_refines)

lemma Record_refines: "abs_state (Record host xs t0 edgeFor s) = foldl (abs_peer host t0 edgeFor) (abs_state s) xs"
proof -
  have "abs_state (s \<lparr>errs := AList.delete host (errs s)\<rparr>) = abs_state s" by (simp add: abs_state_def)
  then show ?thesis unfolding Record_def foldl_refines by simp
qed

lemma record_peer_inv: "live_inv s \<Longrightarrow> live_inv (record_peer host t0 edgeFor s x)"
proof (cases x)
  case (Pair p now)
  assume inv: "live_inv s"
  show ?thesis
  proof (cases "map_of edgeFor (host, ps_Iface p, ps_PubKey p)")
    case None
    with inv show ?thesis
      by (auto simp: Pair record_peer_def Let_def live_inv_def drift_key_def drift_of_def split: option.splits)
  next
    case (Some i)
    have "gomap_wf (case map_of (stats s) i of None \<Rightarrow> [] | Some st \<Rightarrow> Sides st)"
      using inv by (auto simp: live_inv_def stat_ok_def split: option.splits)
    then have "map_of (merge_side (stats s) i host side) j = Some st \<Longrightarrow> stat_ok st" for side j st
      using inv by (auto simp: merge_side_lookup Let_def live_inv_def stat_ok_def update_nonempty split: if_splits prod.splits)
    with inv show ?thesis
      by (auto simp: Pair Some record_peer_def Let_def live_inv_def split: if_splits)
  qed
qed

lemma Record_inv: "live_inv s \<Longrightarrow> live_inv (Record host xs t0 edgeFor s)"
proof -
  assume "live_inv s"
  then have "live_inv (s \<lparr>errs := AList.delete host (errs s)\<rparr>)" by (simp add: live_inv_def)
  then show ?thesis
    unfolding Record_def
    by (induction xs arbitrary: s rule: rev_induct) (simp_all add: record_peer_inv)
qed

lemma NewState_inv: "live_inv NewState"
  by (simp add: live_inv_def NewState_def)

section \<open>Flattening does not depend on the iteration order\<close>

definition fresh_hs :: "edgeSideStat list \<Rightarrow> int set" where
  "fresh_hs ss = {h \<in> sd_HS ` set ss. 0 \<le> h}"

lemma fresh_hs_Cons: "fresh_hs (s # ss) = (if 0 \<le> sd_HS s then insert (sd_HS s) (fresh_hs ss) else fresh_hs ss)"
  by (auto simp: fresh_hs_def)

lemma fresh_hs_finite [simp]: "finite (fresh_hs ss)"
  by (simp add: fresh_hs_def)

lemma flatten_loop_eq:
  "flatten_loop (rx, tx, hs) ss =
    (Max (insert rx (sd_RxPS ` set ss)), Max (insert tx (sd_TxPS ` set ss)),
     let H = fresh_hs ss \<union> (if hs < 0 then {} else {hs}) in if H = {} then hs else Min H)"
proof (induction ss arbitrary: rx tx hs)
  case Nil
  then show ?case by (simp add: fresh_hs_def)
next
  case (Cons s ss)
  have m: "Max (insert (max a b) (f ` set ss)) = Max (insert a (insert b (f ` set ss)))"
    for a b :: real and f :: "edgeSideStat \<Rightarrow> real"
    by (cases "f ` set ss = {}") (simp_all add: max.assoc)
  let ?hs = "if sd_HS s \<ge> 0 \<and> (hs < 0 \<or> sd_HS s < hs) then sd_HS s else hs"
  have min2: "finite H \<Longrightarrow> a \<le> b \<Longrightarrow> Min (insert a (insert b H)) = Min (insert a H)" for a b :: int and H
    by (cases "H = {}") (auto simp: min_def)
  have "(let H = fresh_hs ss \<union> (if ?hs < 0 then {} else {?hs}) in if H = {} then ?hs else Min H) =
     (let H = fresh_hs (s # ss) \<union> (if hs < 0 then {} else {hs}) in if H = {} then hs else Min H)"
    using min2 [of "fresh_hs ss" "sd_HS s" hs] min2 [of "fresh_hs ss" hs "sd_HS s"]
    by (auto simp: Let_def fresh_hs_Cons insert_commute)
  then show ?case by (simp add: Cons m)
qed

lemma flattenSides_eq:
  "flattenSides m = (Max (insert 0 (sd_RxPS ` snd ` set m)), Max (insert 0 (sd_TxPS ` snd ` set m)),
     let H = {h \<in> sd_HS ` snd ` set m. 0 \<le> h} in if H = {} then -1 else Min H)"
  by (simp add: flattenSides_def flatten_loop_eq fresh_hs_def)

lemma flattenSides_map_of:
  assumes "gomap_wf m" "gomap_wf m'" "map_of m = map_of m'"
  shows "flattenSides m = flattenSides m'"
proof -
  have "set m = set m'"
    using assms gomap_mem_iff [OF assms(1)] gomap_mem_iff [OF assms(2)] by auto
  then show ?thesis by (simp add: flattenSides_eq)
qed

section \<open>Polls of different gateways\<close>

inductive live_reachable :: "live_state \<Rightarrow> bool" where
  live_new: "live_reachable NewState"
| live_record: "live_reachable s \<Longrightarrow> live_reachable (Record host xs t0 edgeFor s)"
| live_fail: "live_reachable s \<Longrightarrow> live_reachable (Fail host err s)"

lemma live_reachable_inv: "live_reachable s \<Longrightarrow> live_inv s"
  by (induction rule: live_reachable.induct) (simp_all add: NewState_inv Record_inv, simp add: live_inv_def Fail_def)

lemma abs_peer_commute:
  assumes "h1 \<noteq> h2"
  shows "abs_peer h1 t1 E (abs_peer h2 t2 E a y) x = abs_peer h2 t2 E (abs_peer h1 t1 E a x) y"
proof -
  obtain p n where x: "x = (p, n)" by (cases x)
  obtain q m where y: "y = (q, m)" by (cases y)
  have k: "(h1, ps_Iface p, ps_PubKey p) \<noteq> (h2, ps_Iface q, ps_PubKey q)" using assms by simp
  show ?thesis
    using assms k
    by (cases "map_of E (h1, ps_Iface p, ps_PubKey p)"; cases "map_of E (h2, ps_Iface q, ps_PubKey q)")
      (auto simp: x y abs_peer_def Let_def fun_upd_twist)
qed

lemma foldl_commute_one:
  assumes "\<And>a x y. f (g a y) x = g (f a x) y"
  shows "foldl f (g a y) xs = g (foldl f a xs) y"
  using assms by (induction xs arbitrary: a) simp_all

lemma foldl_commute:
  assumes "\<And>a x y. f (g a y) x = g (f a x) y"
  shows "foldl f (foldl g a ys) xs = foldl g (foldl f a xs) ys"
proof (induction ys arbitrary: a)
  case (Cons y ys)
  then show ?case using foldl_commute_one [of f g, OF assms] by simp
qed simp

lemma Records_commute:
  "h1 \<noteq> h2 \<Longrightarrow> abs_state (Record h2 ys t2 E (Record h1 xs t1 E s)) = abs_state (Record h1 xs t1 E (Record h2 ys t2 E s))"
  unfolding Record_refines by (rule foldl_commute) (simp add: abs_peer_commute)

lemma record_peer_errs [simp]: "errs (record_peer host t0 E s x) = errs s"
  by (cases x) (auto simp: record_peer_def Let_def split: option.splits)

lemma Record_errs: "errs (Record host xs t0 E s) = AList.delete host (errs s)"
proof -
  have "errs (foldl (record_peer host t0 E) s xs) = errs s" for s by (induction xs arbitrary: s) simp_all
  then show ?thesis by (simp add: Record_def)
qed

lemma stats_view:
  assumes "live_inv s"
  shows "map_of (stats s) i = None \<longleftrightarrow> a_sides (abs_state s) i = Map.empty"
    and "map_of (stats s) i = Some st \<Longrightarrow> map_of (Sides st) = a_sides (abs_state s) i"
  using assms by (auto simp: live_inv_def stat_ok_def abs_state_def map_of_eq_empty_iff split: option.splits)

lemma stats_flat:
  assumes "live_inv s" "live_inv s'" "a_sides (abs_state s) i = a_sides (abs_state s') i"
    "map_of (stats s) i = Some st" "map_of (stats s') i = Some st'"
  shows "(es_RxPS st, es_TxPS st, es_HS st) = (es_RxPS st', es_TxPS st', es_HS st')"
proof -
  have ok: "stat_ok st" "stat_ok st'" using assms by (auto simp: live_inv_def)
  have "map_of (Sides st) = map_of (Sides st')"
    using stats_view(2) [OF assms(1,4)] stats_view(2) [OF assms(2,5)] assms(3) by simp
  with ok show ?thesis using flattenSides_map_of [of "Sides st" "Sides st'"] by (simp add: stat_ok_def)
qed

lemma DriftList_eq:
  assumes "live_inv s" "live_inv s'" "map_of (drifted s) = map_of (drifted s')"
  shows "DriftList s = DriftList s'"
proof -
  let ?m = "drifted s" and ?m' = "drifted s'"
  have wf: "gomap_wf ?m" "gomap_wf ?m'" using assms by (auto simp: live_inv_def)
  have "set ?m = set ?m'" using assms(3) gomap_mem_iff [OF wf(1)] gomap_mem_iff [OF wf(2)] by auto
  moreover have "distinct ?m" "distinct ?m'" using wf by (simp_all add: gomap_wf_def distinct_map)
  ultimately have "mset ?m = mset ?m'" by (simp add: set_eq_iff_mset_eq_distinct)
  then have m: "mset (map snd ?m) = mset (map snd ?m')" by simp
  have "inj_on drift_key (set (map snd ?m))"
  proof (rule inj_onI)
    fix d e assume "d \<in> set (map snd ?m)" "e \<in> set (map snd ?m)" and k: "drift_key d = drift_key e"
    then obtain j l where "map_of ?m j = Some d" "map_of ?m l = Some e" using gomap_mem_iff [OF wf(1)] by fastforce
    moreover from this have "drift_key d = j" "drift_key e = l" using assms(1) unfolding live_inv_def by blast+
    ultimately show "d = e" using k by simp
  qed
  with m show ?thesis
    unfolding DriftList_def by (intro sort_key_inj_key_eq) simp_all
qed

definition snap_view :: "liveSnapshot \<Rightarrow> string \<Rightarrow> (real \<times> real \<times> int \<times> (string \<rightharpoonup> edgeSideStat)) option" where
  "snap_view v i = map_option (\<lambda>st. (es_RxPS st, es_TxPS st, es_HS st, map_of (Sides st))) (map_of (Edges v) i)"

lemma LiveSnapshot_simps [simp]: "Edges (LiveSnapshot s) = stats s" "Errors (LiveSnapshot s) = errs s" "Drift (LiveSnapshot s) = DriftList s"
  by (simp_all add: LiveSnapshot_def)

text \<open>The picture does not depend on which gateway was polled first. For two gateways with different
  names, recording their samples in either order gives the same snapshot: the same rates, handshake
  age and both ends' views for every tunnel, the same poll errors and the same list of peers that
  the stored topology does not know.\<close>

theorem poll_order_does_not_matter:
  "live_reachable s \<Longrightarrow> h1 \<noteq> h2 \<Longrightarrow>
   (let a = LiveSnapshot (Record h2 ys t2 E (Record h1 xs t1 E s));
        b = LiveSnapshot (Record h1 xs t1 E (Record h2 ys t2 E s)) in
    snap_view a = snap_view b \<and> map_of (Errors a) = map_of (Errors b) \<and> Drift a = Drift b)"
proof -
  assume r: "live_reachable s" and h: "h1 \<noteq> h2"
  let ?a = "Record h2 ys t2 E (Record h1 xs t1 E s)" and ?b = "Record h1 xs t1 E (Record h2 ys t2 E s)"
  note abs = Records_commute [OF h, of ys t2 E xs t1 s]
  have ia: "live_inv ?a" and ib: "live_inv ?b" using live_reachable_inv [OF r] by (simp_all add: Record_inv)
  have "snap_view (LiveSnapshot ?a) i = snap_view (LiveSnapshot ?b) i" for i
  proof (cases "map_of (stats ?a) i")
    case None
    then have "map_of (stats ?b) i = None" using stats_view(1) [OF ia] stats_view(1) [OF ib] abs by simp
    with None show ?thesis by (simp add: snap_view_def)
  next
    case (Some st)
    then obtain st' where st': "map_of (stats ?b) i = Some st'"
      using stats_view(1) [OF ia, of i] stats_view(1) [OF ib, of i] abs by fastforce
    have "a_sides (abs_state ?a) i = a_sides (abs_state ?b) i" using abs by simp
    from stats_flat [OF ia ib this Some st'] stats_view(2) [OF ia Some] stats_view(2) [OF ib st'] abs Some st'
    show ?thesis by (simp add: snap_view_def)
  qed
  moreover have "map_of (errs ?a) = map_of (errs ?b)" by (rule ext) (simp add: Record_errs)
  moreover have "map_of (drifted ?a) = map_of (drifted ?b)"
    using abs by (simp add: abs_state_def)
  then have "DriftList ?a = DriftList ?b" by (rule DriftList_eq [OF ia ib])
  ultimately show ?thesis by (simp add: Let_def fun_eq_iff)
qed

definition sample_peer :: "string \<Rightarrow> int \<Rightarrow> peerSample" where
  "sample_peer key hs = \<lparr>ps_Iface = ''wg1'', ps_PubKey = key, ps_Endpoint = [], ps_AllowedIPs = [], ps_Rx = 10, ps_Tx = 20,
     ps_Handshake = hs\<rparr>"

definition sample_edges :: "(tunnelKey, string) gomap" where
  "sample_edges = [((''g1'', ''wg1'', ''B''), ''gw|A|B''), ((''g2'', ''wg1'', ''A''), ''gw|A|B'')]"

theorem poll_order_does_not_matter_witness:
  "snap_view (LiveSnapshot (Record ''g2'' [(sample_peer ''A'' 5, 100)] 100 sample_edges
      (Record ''g1'' [(sample_peer ''B'' 5, 90)] 90 sample_edges NewState))) ''gw|A|B'' =
   snap_view (LiveSnapshot (Record ''g1'' [(sample_peer ''B'' 5, 90)] 90 sample_edges
      (Record ''g2'' [(sample_peer ''A'' 5, 100)] 100 sample_edges NewState))) ''gw|A|B''"
  using poll_order_does_not_matter [OF live_new, of "''g1''" "''g2''"] by (simp add: Let_def)

section \<open>What one poll changes\<close>

lemma abs_peer_other:
  "h \<noteq> host \<Longrightarrow> a_sides (abs_peer host t0 E a x) i h = a_sides a i h"
  "h \<noteq> host \<Longrightarrow> a_drift (abs_peer host t0 E a x) (h, f, k) = a_drift a (h, f, k)"
  by (cases x; auto simp: abs_peer_def Let_def split: option.splits)+

lemma abs_peers_other:
  "h \<noteq> host \<Longrightarrow> a_sides (foldl (abs_peer host t0 E) a xs) i h = a_sides a i h"
  "h \<noteq> host \<Longrightarrow> a_drift (foldl (abs_peer host t0 E) a xs) (h, f, k) = a_drift a (h, f, k)"
  by (induction xs arbitrary: a) (simp_all add: abs_peer_other)

definition peer_key :: "string \<Rightarrow> peerSample \<Rightarrow> tunnelKey" where
  "peer_key host p = (host, ps_Iface p, ps_PubKey p)"

lemma abs_peers_drift:
  "map_of E k \<noteq> None \<Longrightarrow> k \<in> peer_key host ` fst ` set xs \<Longrightarrow> a_drift (foldl (abs_peer host t0 E) a xs) k = None"
  "k \<notin> peer_key host ` fst ` set xs \<Longrightarrow> a_drift (foldl (abs_peer host t0 E) a xs) k = a_drift a k"
  "map_of E k = None \<Longrightarrow> a_drift a k = Some d \<Longrightarrow> a_drift (foldl (abs_peer host t0 E) a xs) k = Some d"
  "map_of E k = None \<Longrightarrow> k \<in> peer_key host ` fst ` set xs \<Longrightarrow> a_drift a k = None \<Longrightarrow>
     \<exists>p \<in> fst ` set xs. peer_key host p = k \<and> a_drift (foldl (abs_peer host t0 E) a xs) k = Some (drift_of host p t0)"
proof -
  have one: "a_drift (abs_peer host t0 E a (p, n)) k =
      (if k = peer_key host p then (if map_of E k = None then (case a_drift a k of None \<Rightarrow> Some (drift_of host p t0) | Some d \<Rightarrow> Some d)
         else None) else a_drift a k)" for a p n k
    by (auto simp: abs_peer_def Let_def peer_key_def split: option.splits)
  have keep1: "map_of E k = None \<Longrightarrow> a_drift a k = Some d \<Longrightarrow> a_drift (abs_peer host t0 E a x) k = Some d" for a d x
    by (cases x) (auto simp: one)
  have gone1: "map_of E k \<noteq> None \<Longrightarrow> a_drift a k = None \<Longrightarrow> a_drift (abs_peer host t0 E a x) k = None" for a x
    by (cases x) (auto simp: one)
  have out1: "k \<noteq> peer_key host (fst x) \<Longrightarrow> a_drift (abs_peer host t0 E a x) k = a_drift a k" for a x
    by (cases x) (auto simp: one)
  have hit1: "map_of E k \<noteq> None \<Longrightarrow> peer_key host (fst x) = k \<Longrightarrow> a_drift (abs_peer host t0 E a x) k = None" for a x
    by (cases x) (auto simp: one)
  have keep: "map_of E k = None \<Longrightarrow> a_drift a k = Some d \<Longrightarrow> a_drift (foldl (abs_peer host t0 E) a xs) k = Some d" for a d xs
    by (induction xs arbitrary: a) (simp_all add: keep1)
  then show "map_of E k = None \<Longrightarrow> a_drift a k = Some d \<Longrightarrow> a_drift (foldl (abs_peer host t0 E) a xs) k = Some d" .
  have out: "k \<notin> peer_key host ` fst ` set xs \<Longrightarrow> a_drift (foldl (abs_peer host t0 E) a xs) k = a_drift a k" for a xs
    by (induction xs arbitrary: a) (simp_all add: out1 image_iff)
  then show "k \<notin> peer_key host ` fst ` set xs \<Longrightarrow> a_drift (foldl (abs_peer host t0 E) a xs) k = a_drift a k" .
  have gone: "map_of E k \<noteq> None \<Longrightarrow> a_drift a k = None \<Longrightarrow> a_drift (foldl (abs_peer host t0 E) a xs) k = None" for a xs
    by (induction xs arbitrary: a) (simp_all add: gone1)
  show "map_of E k \<noteq> None \<Longrightarrow> k \<in> peer_key host ` fst ` set xs \<Longrightarrow> a_drift (foldl (abs_peer host t0 E) a xs) k = None"
  proof (induction xs arbitrary: a)
    case (Cons x xs)
    then show ?case using gone hit1 [of x a] by (cases "peer_key host (fst x) = k") auto
  qed simp
  show "map_of E k = None \<Longrightarrow> k \<in> peer_key host ` fst ` set xs \<Longrightarrow> a_drift a k = None \<Longrightarrow>
     \<exists>p \<in> fst ` set xs. peer_key host p = k \<and> a_drift (foldl (abs_peer host t0 E) a xs) k = Some (drift_of host p t0)"
  proof (induction xs arbitrary: a)
    case (Cons x xs)
    obtain p n where x: "x = (p, n)" by (cases x)
    show ?case
    proof (cases "peer_key host p = k")
      case True
      then have "a_drift (abs_peer host t0 E a x) k = Some (drift_of host p t0)" using Cons.prems by (auto simp: x one)
      from keep [OF Cons.prems(1) this] True show ?thesis by (auto simp: x)
    next
      case False
      then have "a_drift (abs_peer host t0 E a x) k = None" "k \<in> peer_key host ` fst ` set xs"
        using Cons.prems by (auto simp: x one)
      from Cons.IH [OF Cons.prems(1) this(2,1)] show ?thesis by (auto simp: x)
    qed
  qed simp
qed

lemma DriftList_set: "live_inv s \<Longrightarrow> d \<in> set (DriftList s) \<longleftrightarrow> map_of (drifted s) (drift_key d) = Some d"
proof -
  assume inv: "live_inv s"
  then have wf: "gomap_wf (drifted s)" and k: "\<And>k d. map_of (drifted s) k = Some d \<Longrightarrow> drift_key d = k"
    unfolding live_inv_def by blast+
  have "d \<in> set (DriftList s) \<longleftrightarrow> (\<exists>k. (k, d) \<in> set (drifted s))" by (force simp: DriftList_def)
  also have "\<dots> \<longleftrightarrow> map_of (drifted s) (drift_key d) = Some d"
    using k gomap_mem_iff [OF wf] by metis
  finally show ?thesis .
qed

text \<open>A poll touches only its own end. After recording a gateway, every other gateway's view of every
  tunnel is as before, and what the page draws is, for each tunnel, the larger rate of its ends and
  the most recent handshake. A peer seen on the wire that the stored topology does not know is
  reported, keeping the time it was first seen, and drops out once the topology knows it; peers that
  were not part of the poll stay as they were.\<close>

theorem Record_touches_its_own_end:
  "live_reachable s \<Longrightarrow>
   (let s' = Record host xs t0 E s in
    (\<forall>h i. h \<noteq> host \<longrightarrow> a_sides (abs_state s') i h = a_sides (abs_state s) i h) \<and>
    (\<forall>i st. map_of (stats s') i = Some st \<longrightarrow>
       es_RxPS st = Max (insert 0 (sd_RxPS ` ran (map_of (Sides st)))) \<and>
       es_TxPS st = Max (insert 0 (sd_TxPS ` ran (map_of (Sides st)))) \<and>
       es_HS st = (let H = {h \<in> sd_HS ` ran (map_of (Sides st)). 0 \<le> h} in if H = {} then -1 else Min H)) \<and>
    (\<forall>d. d \<in> set (DriftList s') \<longleftrightarrow>
       (if drift_key d \<in> peer_key host ` fst ` set xs
        then map_of E (drift_key d) = None \<and>
          (d \<in> set (DriftList s) \<or> map_of (drifted s) (drift_key d) = None \<and> map_of (drifted s') (drift_key d) = Some d)
        else d \<in> set (DriftList s))) \<and>
    (\<forall>p \<in> fst ` set xs. map_of E (peer_key host p) = None \<longrightarrow> (\<exists>d \<in> set (DriftList s'). drift_key d = peer_key host p)))"
proof -
  assume r: "live_reachable s"
  let ?s' = "Record host xs t0 E s" and ?a = "abs_state s"
  note inv = live_reachable_inv [OF r] and inv' = Record_inv [OF live_reachable_inv [OF r], of host xs t0 E]
  have abs: "abs_state ?s' = foldl (abs_peer host t0 E) ?a xs" by (rule Record_refines)
  have dr: "map_of (drifted ?s') = a_drift (foldl (abs_peer host t0 E) ?a xs)" "map_of (drifted s) = a_drift ?a"
    using arg_cong [OF abs, of a_drift] by (simp_all add: abs_state_def)
  have others: "h \<noteq> host \<Longrightarrow> a_sides (abs_state ?s') i h = a_sides (abs_state s) i h" for h i
    unfolding abs by (rule abs_peers_other)
  have flat: "map_of (stats ?s') i = Some st \<Longrightarrow>
       es_RxPS st = Max (insert 0 (sd_RxPS ` ran (map_of (Sides st)))) \<and>
       es_TxPS st = Max (insert 0 (sd_TxPS ` ran (map_of (Sides st)))) \<and>
       es_HS st = (let H = {h \<in> sd_HS ` ran (map_of (Sides st)). 0 \<le> h} in if H = {} then -1 else Min H)" for i st
  proof -
    assume "map_of (stats ?s') i = Some st"
    then have ok: "stat_ok st" using inv' by (auto simp: live_inv_def)
    then have "ran (map_of (Sides st)) = snd ` set (Sides st)" by (simp add: stat_ok_def gomap_wf_def ran_distinct)
    with ok show ?thesis by (simp add: stat_ok_def flattenSides_eq Let_def)
  qed
  have drift: "d \<in> set (DriftList ?s') \<longleftrightarrow>
       (if drift_key d \<in> peer_key host ` fst ` set xs
        then map_of E (drift_key d) = None \<and>
          (d \<in> set (DriftList s) \<or> map_of (drifted s) (drift_key d) = None \<and> map_of (drifted ?s') (drift_key d) = Some d)
        else d \<in> set (DriftList s))" for d
    unfolding DriftList_set [OF inv] DriftList_set [OF inv'] dr
    using abs_peers_drift(1) [of E "drift_key d" host xs t0 ?a] abs_peers_drift(2) [of "drift_key d" host xs t0 E ?a]
      abs_peers_drift(3) [of E "drift_key d" ?a _ host t0 xs]
    by (cases "a_drift ?a (drift_key d)"; cases "map_of E (drift_key d)") auto
  have seen: "\<exists>d \<in> set (DriftList ?s'). drift_key d = peer_key host p"
    if "p \<in> fst ` set xs" "map_of E (peer_key host p) = None" for p
  proof -
    have "\<exists>d. map_of (drifted ?s') (peer_key host p) = Some d"
      unfolding dr using that abs_peers_drift(3,4) [of E "peer_key host p"]
      by (cases "a_drift ?a (peer_key host p)") (meson imageI | blast)+
    then obtain d where d: "map_of (drifted ?s') (peer_key host p) = Some d" by blast
    moreover from d have "drift_key d = peer_key host p" using inv' unfolding live_inv_def by blast
    ultimately show ?thesis using DriftList_set [OF inv', of d] by auto
  qed
  show ?thesis unfolding Let_def using others flat [unfolded Let_def] drift seen by blast
qed

theorem Record_touches_its_own_end_witness:
  "\<exists>d \<in> set (DriftList (Record ''g1'' [(sample_peer ''new'' 5, 90)] 90 sample_edges NewState)).
     drift_key d = (''g1'', ''wg1'', ''new'')"
  using Record_touches_its_own_end [OF live_new, of "''g1''" "[(sample_peer ''new'' 5, 90)]" 90 sample_edges]
  by (auto simp: Let_def sample_edges_def peer_key_def sample_peer_def)

text \<open>A handshake that the gateway's clock dates a second or more into the poller's future is drawn as
  "never". The age of the handshake is then negative, and every negative age is read as the mark for
  no handshake, so the freshest tunnels of a gateway whose clock runs ahead look dead.\<close>

theorem future_handshake_reads_as_never:
  "map_of E (host, ps_Iface p, ps_PubKey p) = Some i \<Longrightarrow> ps_Handshake p > 0 \<Longrightarrow>
   now + second \<le> time_Unix (ps_Handshake p) \<Longrightarrow>
   \<exists>st. map_of (Edges (LiveSnapshot (Record host [(p, now)] t0 E NewState))) i = Some st \<and> es_HS st = -1"
proof -
  assume e: "map_of E (host, ps_Iface p, ps_PubKey p) = Some i" and h: "ps_Handshake p > 0"
    and f: "now + second \<le> time_Unix (ps_Handshake p)"
  let ?d = "time_sub now (time_Unix (ps_Handshake p))"
  have "?d \<le> - second" using f by (auto simp: time_sub_def min_duration_def max_duration_def)
  then have "whole_seconds ?d < 0" by (auto simp: whole_seconds_def sgn_if pos_imp_zdiv_pos_iff)
  then show ?thesis
    using h by (simp add: Record_def record_peer_def NewState_def e Let_def merge_side_lookup flattenSides_def side_of_def cur_sample_def)
qed

theorem future_handshake_reads_as_never_witness:
  "\<exists>st. map_of (Edges (LiveSnapshot (Record ''g1'' [(sample_peer ''B'' 1700000002, time_Unix 1700000000)]
      (time_Unix 1700000000) sample_edges NewState))) ''gw|A|B'' = Some st \<and> es_HS st = -1"
  by (rule future_handshake_reads_as_never) (simp_all add: sample_edges_def sample_peer_def time_Unix_def)

end
