(* ===== verification/Wg_Parse.thy ===== *)
theory Wg_Parse
  imports Wg_Live
begin

text \<open>
  The collection half of the WireGuard overlay, \<^verbatim>\<open>internal/wireguard/parse.go\<close>: the text of
  \<^verbatim>\<open>wg show all dump\<close> and \<^verbatim>\<open>ip addr\<close> from one gateway, turned into the rows that are
  stored. The number parsers are those of \<^verbatim>\<open>strconv\<close>, with the value they return beside an error.

  The main result is that the private and preshared keys in the text have no influence on the rows.
\<close>

section \<open>Numbers\<close>

definition clamp_int64 :: "bool \<Rightarrow> nat \<Rightarrow> int" where
  "clamp_int64 neg n = (if neg then - min (int n) (max_int64 + 1) else min (int n) max_int64)"

definition parse_int10 :: "string \<Rightarrow> int" where
  "parse_int10 s = (case split_sign s of (neg, ds) \<Rightarrow>
     if ds = [] \<or> \<not> list_all is_digit ds then 0 else clamp_int64 neg (dec_val 0 ds))"

definition atoiSafe :: "string \<Rightarrow> int" where
  "atoiSafe s = parse_int10 (trim_space s)"

definition atoi64Safe :: "string \<Rightarrow> int" where
  "atoi64Safe s = parse_int10 (trim_space s)"

definition base_digit :: "char \<Rightarrow> nat option" where
  "base_digit c = (if is_digit c then Some (of_char c - 48)
     else if is_alpha c then Some (of_char (to_lower_char c) - 97 + 10) else None)"

fun base_val :: "nat \<Rightarrow> nat \<Rightarrow> string \<Rightarrow> nat option" where
  "base_val b n [] = Some n"
| "base_val b n (c # cs) =
    (if c = CHR ''_'' then base_val b n cs
     else case base_digit c of None \<Rightarrow> None | Some d \<Rightarrow> if d < b then base_val b (n * b + d) cs else None)"

datatype underscore_state = AtStart | AfterDigit | AfterUnderscore | AfterOther

fun underscore_loop :: "bool \<Rightarrow> underscore_state \<Rightarrow> string \<Rightarrow> bool" where
  "underscore_loop hex i [] = (i \<noteq> AfterUnderscore)"
| "underscore_loop hex i (c # cs) =
    (if is_digit c \<or> hex \<and> to_lower_char c \<in> set ''abcdef'' then underscore_loop hex AfterDigit cs
     else if c = CHR ''_'' then i = AfterDigit \<and> underscore_loop hex AfterUnderscore cs
     else i \<noteq> AfterUnderscore \<and> underscore_loop hex AfterOther cs)"

definition underscoreOK :: "string \<Rightarrow> bool" where
  "underscoreOK s = (case s of
     c # d # cs \<Rightarrow> if c = CHR ''0'' \<and> to_lower_char d \<in> set ''box''
        then underscore_loop (to_lower_char d = CHR ''x'') AfterDigit cs else underscore_loop False AtStart s
   | _ \<Rightarrow> underscore_loop False AtStart s)"

definition base_of :: "string \<Rightarrow> nat \<times> string" where
  "base_of s = (case s of
     c # cs \<Rightarrow>
       if c \<noteq> CHR ''0'' then (10, s)
       else (case cs of
          d # e # ds \<Rightarrow>
            if to_lower_char d = CHR ''b'' then (2, e # ds)
            else if to_lower_char d = CHR ''o'' then (8, e # ds)
            else if to_lower_char d = CHR ''x'' then (16, e # ds)
            else (8, cs)
        | _ \<Rightarrow> (8, cs))
   | [] \<Rightarrow> (10, []))"

definition parse_int_any :: "string \<Rightarrow> int option" where
  "parse_int_any s = (case split_sign s of (neg, ds) \<Rightarrow>
     if ds = [] then None
     else case base_of ds of (b, body) \<Rightarrow>
       (case base_val b 0 body of
          None \<Rightarrow> None
        | Some n \<Rightarrow>
          if CHR ''_'' \<in> set body \<and> \<not> underscoreOK ds then None
          else if int n > (if neg then max_int64 + 1 else max_int64) then None
          else Some (if neg then - int n else int n)))"

definition parseFwmark :: "string \<Rightarrow> int" where
  "parseFwmark s = (if s = ''off'' \<or> s = [] then 0 else case parse_int_any s of None \<Rightarrow> 0 | Some n \<Rightarrow> n)"

definition parseKeepalive :: "string \<Rightarrow> int" where
  "parseKeepalive s = (if s = ''off'' \<or> s = [] then 0 else atoiSafe s)"

section \<open>Lines and rows\<close>

definition noneToEmpty :: "string \<Rightarrow> string" where
  "noneToEmpty s = (if s = ''(none)'' then [] else s)"

definition parseAllowedIPs :: "string \<Rightarrow> string list" where
  "parseAllowedIPs s = (if noneToEmpty s = [] then []
     else filter (\<lambda>p. p \<noteq> []) (map trim_space (split_on CHR '','' s)))"

record parsedIface =
  pi_Name :: string
  pi_PublicKey :: string
  pi_ListenPort :: int
  pi_Fwmark :: int

record parsedPeer =
  pp_Iface :: string
  pp_PubKey :: string
  pp_Endpoint :: string
  pp_AllowedIPs :: "string list"
  pp_Handshake :: int
  pp_Rx :: int
  pp_Tx :: int
  pp_Keepalive :: int

definition iface_of :: "string list \<Rightarrow> parsedIface" where
  "iface_of f = \<lparr>pi_Name = f ! 0, pi_PublicKey = f ! 2, pi_ListenPort = atoiSafe (f ! 3), pi_Fwmark = parseFwmark (f ! 4)\<rparr>"

definition peer_of :: "string list \<Rightarrow> parsedPeer" where
  "peer_of f = \<lparr>pp_Iface = f ! 0, pp_PubKey = f ! 1, pp_Endpoint = noneToEmpty (f ! 3),
     pp_AllowedIPs = parseAllowedIPs (f ! 4), pp_Handshake = atoi64Safe (f ! 5), pp_Rx = atoi64Safe (f ! 6),
     pp_Tx = atoi64Safe (f ! 7), pp_Keepalive = (if length f \<ge> 9 then parseKeepalive (f ! 8) else 0)\<rparr>"

definition tab :: char where "tab = CHR 0x09"

definition nl :: char where "nl = CHR 0x0A"

fun dump_loop :: "parsedIface list \<times> parsedPeer list \<Rightarrow> string list \<Rightarrow> parsedIface list \<times> parsedPeer list" where
  "dump_loop acc [] = acc"
| "dump_loop (ifaces, peers) (l # ls) =
    (let line = trim_right (\<lambda>c. c = CHR 0x0D) l in
     if trim_space line = [] then dump_loop (ifaces, peers) ls
     else let f = split_on tab line in
       if length f = 5 then dump_loop (ifaces @ [iface_of f], peers) ls
       else if length f \<ge> 8 then dump_loop (ifaces, peers @ [peer_of f]) ls
       else dump_loop (ifaces, peers) ls)"

definition ParseDump :: "string \<Rightarrow> parsedIface list \<times> parsedPeer list" where
  "ParseDump dump = dump_loop ([], []) (split_on nl dump)"

fun inet_addrs :: "string list \<Rightarrow> string list" where
  "inet_addrs (a # b # f) = (if a = ''inet'' \<or> a = ''inet6'' then [b] else []) @ inet_addrs (b # f)"
| "inet_addrs f = []"

definition addr_line :: "(string, string list) gomap \<Rightarrow> string \<Rightarrow> (string, string list) gomap" where
  "addr_line out line = (let f = Go_Prelude.fields line in
     if length f < 4 then out
     else let iface = trim_suffix (f ! 1) '':''; as = inet_addrs f in
       if as = [] then out else AList.update iface (slice_of out iface @ as) out)"

definition parseIfaceAddrs :: "string \<Rightarrow> (string, string list) gomap" where
  "parseIfaceAddrs ipOut = foldl addr_line [] (split_on nl ipOut)"

fun cut_at :: "string \<Rightarrow> string \<Rightarrow> string \<times> string" where
  "cut_at sep [] = ([], [])"
| "cut_at sep (c # cs) = (if has_prefix (c # cs) sep then ([], drop (length sep) (c # cs))
     else case cut_at sep cs of (a, b) \<Rightarrow> (c # a, b))"

record wg_interface =
  w_Host :: string
  w_Iface :: string
  w_ListenPort :: int
  w_PublicKey :: string
  w_Fwmark :: int
  w_Address :: "string list"

record wg_peer =
  wp_Host :: string
  wp_Iface :: string
  wp_PeerPubKey :: string
  wp_Endpoint :: string
  wp_AllowedIPs :: "string list"
  wp_Keepalive :: int
  wp_Label :: string

record wg_peer_status =
  wps_Host :: string
  wps_Iface :: string
  wps_PeerPubKey :: string
  LatestHandshake :: "gotime option"
  RxBytes :: int
  TxBytes :: int

definition ParseCollect :: "string \<Rightarrow> string \<Rightarrow> wg_interface list \<times> wg_peer list \<times> wg_peer_status list" where
  "ParseCollect host out = (case cut_at ''@@ADDR@@'' out of (dumpPart, addrPart) \<Rightarrow>
     case ParseDump dumpPart of (pIfaces, pPeers) \<Rightarrow>
       let addrs = parseIfaceAddrs addrPart in
       (map (\<lambda>i. \<lparr>w_Host = host, w_Iface = pi_Name i, w_ListenPort = pi_ListenPort i, w_PublicKey = pi_PublicKey i,
           w_Fwmark = pi_Fwmark i, w_Address = slice_of addrs (pi_Name i)\<rparr>) pIfaces,
        map (\<lambda>p. \<lparr>wp_Host = host, wp_Iface = pp_Iface p, wp_PeerPubKey = pp_PubKey p, wp_Endpoint = pp_Endpoint p,
           wp_AllowedIPs = pp_AllowedIPs p, wp_Keepalive = pp_Keepalive p, wp_Label = []\<rparr>) pPeers,
        map (\<lambda>p. \<lparr>wps_Host = host, wps_Iface = pp_Iface p, wps_PeerPubKey = pp_PubKey p,
           LatestHandshake = (if pp_Handshake p > 0 then Some (time_Unix (pp_Handshake p)) else None),
           RxBytes = pp_Rx p, TxBytes = pp_Tx p\<rparr>) pPeers))"

section \<open>What the rows depend on\<close>

lemma split_join:
  "xs \<noteq> [] \<Longrightarrow> (\<And>x. x \<in> set xs \<Longrightarrow> sep \<notin> set x) \<Longrightarrow> split_on sep (join_with [sep] xs) = xs"
  by (induction "[sep]" xs rule: join_with.induct) (auto simp: split_on_append split_on_single)

lemma trim_right_cons_keep: "\<not> P c \<Longrightarrow> trim_right P (a @ c # b) = a @ c # trim_right P b"
proof -
  assume c: "\<not> P c"
  have "dropWhile P (rev b @ c # rev a) = dropWhile P (rev b) @ c # rev a"
    using c by (simp add: dropWhile_append)
  then show ?thesis by (simp add: trim_right_def)
qed

definition trim_last :: "string list \<Rightarrow> string list" where
  "trim_last f = butlast f @ [trim_right (\<lambda>c. c = CHR 0x0D) (last f)]"

lemma trim_join:
  assumes "2 \<le> length f"
  shows "trim_right (\<lambda>c. c = CHR 0x0D) (join_with [tab] f) = join_with [tab] (trim_last f)"
proof -
  have join_snoc: "xs \<noteq> [] \<Longrightarrow> join_with [tab] (xs @ [y]) = join_with [tab] xs @ tab # y" for xs y
    by (induction "[tab]" xs rule: join_with.induct) auto
  from assms obtain xs y where f: "f = xs @ [y]" "xs \<noteq> []"
    by (cases f rule: rev_cases) (auto simp: Suc_le_eq)
  show ?thesis
    unfolding f(1) trim_last_def using f(2) trim_right_cons_keep [of "\<lambda>c. c = CHR 0x0D" tab]
    by (simp add: join_snoc) (simp add: tab_def)
qed

definition dump_text :: "string list list \<Rightarrow> string" where
  "dump_text rows = join_with [nl] (map (join_with [tab]) rows)"

definition row_ok :: "string list \<Rightarrow> bool" where
  "row_ok f \<longleftrightarrow> f \<noteq> [] \<and> list_all (\<lambda>x. tab \<notin> set x \<and> nl \<notin> set x \<and> CHR ''@'' \<notin> set x) f \<and>
     (\<exists>c \<in> set (hd f). \<not> is_space c)"

definition redact :: "string list \<Rightarrow> string list" where
  "redact f = (if length f = 5 then f[1 := ''(hidden)''] else if length f \<ge> 8 then f[2 := ''(hidden)''] else f)"

definition add_row :: "string list \<Rightarrow> parsedIface list \<times> parsedPeer list \<Rightarrow> parsedIface list \<times> parsedPeer list" where
  "add_row f acc = (if length f = 5 then (fst acc @ [iface_of (trim_last f)], snd acc)
     else if length f \<ge> 8 then (fst acc, snd acc @ [peer_of (trim_last f)]) else acc)"

lemma set_join: "set (join_with sep xs) \<subseteq> \<Union> (set ` set xs) \<union> set sep"
  by (induction sep xs rule: join_with.induct) auto

lemma join_hd: "xs \<noteq> [] \<Longrightarrow> \<exists>r. join_with sep xs = hd xs @ r"
  by (induction sep xs rule: join_with.induct) auto

lemma not_blank: "c \<in> set s \<Longrightarrow> \<not> is_space c \<Longrightarrow> trim_space s \<noteq> []"
proof -
  assume c: "c \<in> set s" "\<not> is_space c"
  then obtain a b where s: "s = a @ c # b" by (meson split_list)
  have "c \<in> set (dropWhile is_space s)"
    unfolding s using c(2) by (induction a) auto
  then obtain a' b' where d: "dropWhile is_space s = a' @ c # b'" by (meson split_list)
  show ?thesis unfolding trim_space_def d by (simp add: trim_right_cons_keep c)
qed

lemma trim_last_length [simp]: "f \<noteq> [] \<Longrightarrow> length (trim_last f) = length f"
  by (cases f rule: rev_cases) (simp_all add: trim_last_def)

lemma trim_last_row:
  assumes "row_ok f"
  shows "trim_last f \<noteq> []" "\<And>x. x \<in> set (trim_last f) \<Longrightarrow> tab \<notin> set x"
proof -
  show "trim_last f \<noteq> []" by (simp add: trim_last_def)
  have sub: "set (trim_right P s) \<subseteq> set s" for P and s :: string
    by (auto simp: trim_right_def dest: set_dropWhileD)
  show "tab \<notin> set x" if "x \<in> set (trim_last f)" for x
  proof -
    have "f \<noteq> []" using assms by (simp add: row_ok_def)
    then have "set (butlast f) \<subseteq> set f" "last f \<in> set f" by (auto dest: in_set_butlastD)
    with that sub [of _ "last f"] assms show ?thesis
      by (fastforce simp: trim_last_def row_ok_def list_all_iff)
  qed
qed

lemma dump_loop_row:
  assumes ok: "row_ok f"
  shows "dump_loop acc (join_with [tab] f # ls) = dump_loop (add_row f acc) ls"
proof -
  obtain ifaces peers where acc: "acc = (ifaces, peers)" by (cases acc)
  let ?line = "trim_right (\<lambda>c. c = CHR 0x0D) (join_with [tab] f)"
  from ok have ne: "f \<noteq> []" by (simp add: row_ok_def)
  have split: "split_on tab ?line = trim_last f"
  proof (cases "2 \<le> length f")
    case True
    then show ?thesis using trim_last_row [OF ok] by (simp add: trim_join split_join)
  next
    case False
    with ne obtain y where f: "f = [y]" by (cases f) (auto simp: Suc_le_eq)
    have "tab \<notin> set (trim_right (\<lambda>c. c = CHR 0x0D) y)" using trim_last_row(2) [OF ok] by (simp add: f trim_last_def)
    then show ?thesis by (simp add: f trim_last_def split_on_single)
  qed
  obtain c where c: "c \<in> set (hd f)" "\<not> is_space c" using ok by (auto simp: row_ok_def)
  have "trim_space ?line \<noteq> []"
  proof -
    obtain r where r: "join_with [tab] f = hd f @ r" using join_hd [OF ne] by blast
    obtain a b where h: "hd f = a @ c # b" using c(1) by (meson split_list)
    have "c \<noteq> CHR 0x0D" using c(2) by (auto simp: is_space_def)
    then have "c \<in> set ?line" unfolding r h by (simp add: trim_right_cons_keep)
    with c(2) show ?thesis by (simp add: not_blank)
  qed
  then show ?thesis using ne by (simp add: acc Let_def split add_row_def)
qed

lemma dump_loop_rows: "list_all row_ok rows \<Longrightarrow> dump_loop acc (map (join_with [tab]) rows) = fold add_row rows acc"
  by (induction rows arbitrary: acc) (simp_all add: dump_loop_row)

lemma ParseDump_rows:
  assumes "list_all row_ok rows" "rows \<noteq> []"
  shows "ParseDump (dump_text rows) = fold add_row rows ([], [])"
proof -
  have "nl \<notin> set (join_with [tab] f)" if "row_ok f" for f
    using that set_join [of "[tab]" f] by (fastforce simp: row_ok_def list_all_iff tab_def nl_def)
  then have "split_on nl (dump_text rows) = map (join_with [tab]) rows"
    unfolding dump_text_def using assms by (intro split_join) (auto simp: list_all_iff)
  then show ?thesis using dump_loop_rows [OF assms(1)] by (simp add: ParseDump_def)
qed

lemma redact_row: "add_row (redact f) = add_row f"
proof (rule ext)
  fix acc
  have l5: "length f = 5 \<Longrightarrow> iface_of (trim_last (f[1 := s])) = iface_of (trim_last f)" for s
  proof -
    assume "length f = 5"
    then obtain a b c d e where "f = [a, b, c, d, e]"
      by (auto simp: numeral_eq_Suc length_Suc_conv)
    then show ?thesis by (simp add: trim_last_def iface_of_def)
  qed
  have l8: "length f \<ge> 8 \<Longrightarrow> peer_of (trim_last (f[2 := s])) = peer_of (trim_last f)" for s
    by (cases f rule: rev_cases)
      (auto simp: peer_of_def trim_last_def list_update_append nth_append)
  show "add_row (redact f) acc = add_row f acc"
    using l5 [of "''(hidden)''"] l8 [of "''(hidden)''"] by (auto simp: add_row_def redact_def)
qed

lemma redact_ok: "row_ok f \<Longrightarrow> row_ok (redact f)"
proof -
  assume ok: "row_ok f"
  have upd: "x \<in> set (f[Suc i := s]) \<Longrightarrow> x = s \<or> x \<in> set f" for x i s
    using set_update_subset_insert [of f "Suc i" s] by blast
  have hd: "hd (f[Suc i := s]) = hd f" for i s by (cases f) auto
  have "row_ok (f[Suc i := ''(hidden)''])" for i
    using ok upd [of _ i "''(hidden)''"] unfolding row_ok_def list_all_iff hd
    by (fastforce simp: tab_def nl_def)
  from this [of 0] this [of 1] ok show ?thesis by (simp add: redact_def numeral_2_eq_2)
qed

lemma cut_dump:
  "CHR ''@'' \<notin> set a \<Longrightarrow> cut_at ''@@ADDR@@'' (a @ ''@@ADDR@@'' @ b) = (a, b)"
proof (induction a)
  case Nil
  then show ?case by (simp add: has_prefix_def)
next
  case (Cons c a)
  then have "\<not> has_prefix (c # a @ ''@@ADDR@@'' @ b) ''@@ADDR@@''" by (auto simp: has_prefix_def)
  with Cons show ?case by simp
qed

lemma dump_no_at: "list_all row_ok rows \<Longrightarrow> CHR ''@'' \<notin> set (dump_text rows)"
proof -
  assume ok: "list_all row_ok rows"
  have row: "CHR ''@'' \<notin> set (join_with [tab] f)" if "row_ok f" for f
    using that set_join [of "[tab]" f] by (fastforce simp: row_ok_def list_all_iff tab_def)
  have "set (dump_text rows) \<subseteq> (\<Union>f \<in> set rows. set (join_with [tab] f)) \<union> {nl}"
    using set_join [of "[nl]" "map (join_with [tab]) rows"] by (simp add: dump_text_def)
  with row ok show ?thesis by (auto simp: list_all_iff nl_def)
qed

text \<open>C13: The private key of an interface line and the preshared key of a peer line have no influence on
  what is stored: for any dump of well-formed lines, replacing every such field by a fixed word gives
  the same interface, peer and status rows, so two gateways that differ only in their secrets are
  stored alike. The rows are the ones read off the remaining fields, line by line and in order.\<close>

theorem collection_carries_no_secret:
  "list_all row_ok rows \<Longrightarrow> rows \<noteq> [] \<Longrightarrow>
   ParseCollect host (dump_text rows @ ''@@ADDR@@'' @ addrs) =
     ParseCollect host (dump_text (map redact rows) @ ''@@ADDR@@'' @ addrs) \<and>
   ParseDump (dump_text rows) =
     (map (iface_of \<circ> trim_last) (filter (\<lambda>f. length f = 5) rows),
      map (peer_of \<circ> trim_last) (filter (\<lambda>f. length f \<ge> 8) rows))"
proof -
  assume ok: "list_all row_ok rows" and ne: "rows \<noteq> []"
  have ok': "list_all row_ok (map redact rows)" using ok redact_ok by (auto simp: list_all_iff)
  have same: "fold add_row (map redact rows) acc = fold add_row rows acc" for acc
    by (induction rows arbitrary: acc) (simp_all add: redact_row)
  have rows_eq: "fold add_row rs acc = (fst acc @ map (iface_of \<circ> trim_last) (filter (\<lambda>f. length f = 5) rs),
      snd acc @ map (peer_of \<circ> trim_last) (filter (\<lambda>f. length f \<ge> 8) rs))" for rs acc
    by (induction rs arbitrary: acc) (auto simp: add_row_def)
  show ?thesis
  proof
    have "ParseDump (dump_text (map redact rows)) = ParseDump (dump_text rows)"
      using ParseDump_rows [OF ok ne] ParseDump_rows [OF ok'] ne same by simp
    then show "ParseCollect host (dump_text rows @ ''@@ADDR@@'' @ addrs) =
        ParseCollect host (dump_text (map redact rows) @ ''@@ADDR@@'' @ addrs)"
      unfolding ParseCollect_def cut_dump [OF dump_no_at [OF ok]] cut_dump [OF dump_no_at [OF ok']] by simp
    show "ParseDump (dump_text rows) =
       (map (iface_of \<circ> trim_last) (filter (\<lambda>f. length f = 5) rows),
        map (peer_of \<circ> trim_last) (filter (\<lambda>f. length f \<ge> 8) rows))"
      unfolding ParseDump_rows [OF ok ne] by (simp add: rows_eq)
  qed
qed

definition sample_dump :: "string list list" where
  "sample_dump = [[''wg1'', ''PRIVATE'', ''PUB'', ''51820'', ''off''],
     [''wg1'', ''PEER'', ''PSK'', ''192.0.2.9:51820'', ''10.0.0.0/24,10.1.0.0/16'', ''1700000000'', ''10'', ''20'', ''25'']]"

theorem collection_carries_no_secret_witness:
  "ParseCollect ''g1'' (dump_text sample_dump @ ''@@ADDR@@'' @ []) =
     ParseCollect ''g1'' (dump_text (map redact sample_dump) @ ''@@ADDR@@'' @ []) \<and>
   map pi_PublicKey (fst (ParseDump (dump_text sample_dump))) = [''PUB'']"
proof -
  have "list_all row_ok sample_dump" by (simp add: sample_dump_def row_ok_def tab_def nl_def is_space_def)
  from collection_carries_no_secret [OF this, of "''g1''" "[]"] show ?thesis
    by (simp add: sample_dump_def trim_last_def iface_of_def)
qed

end
