(* ===== verification/Wg_Derive.thy ===== *)
theory Wg_Derive
  imports Wg_Live
begin

text \<open>
  The graph of the WireGuard overlay and what a declared topology implies once it is joined to it:
  the types of \<^verbatim>\<open>internal/wireguard/topology.go\<close> and all of \<^verbatim>\<open>derive.go\<close>. Attribute values
  are the dynamic types the code tells apart. A sort by a comparison on several fields is a sort by
  the tuple of the fields; where the comparison leaves ties, Go fixes no order among them and the
  model keeps the input order.

  The lemmas characterise the derived view: the hop chain of every carried network, the required
  masquerades, the failure domain of every physical host with its dependents, and the reported gaps,
  independently of the order in which the runtime iterates over the node map.
\<close>

section \<open>The graph\<close>

datatype attr =
    AString string
  | AAnyList "attr list"
  | AStrings "string list"
  | AFloat real
  | AInt int
  | AInt64 int
  | AOther

type_synonym attrs = "(string, attr) gomap"

record wg_iface =
  if_Name :: string
  if_Port :: int
  if_PubKey :: string

record node =
  nd_ID :: string
  nd_Label :: string
  nd_Kind :: string
  nd_DC :: string
  nd_IP :: string
  nd_TunnelIP :: string
  nd_Observed :: string
  nd_Parent :: string
  nd_Warnings :: "string list"
  nd_Ifaces :: "wg_iface list"
  nd_Layer :: string
  nd_Attrs :: attrs
  nd_PubKey :: string
  nd_SeenAs :: "string list"

record link =
  ln_Source :: string
  ln_Target :: string
  ln_Kind :: string
  ln_Attrs :: attrs

definition attrString :: "attrs \<Rightarrow> string \<Rightarrow> string" where
  "attrString m k = (case map_of m k of Some (AString s) \<Rightarrow> trim_space s | _ \<Rightarrow> [])"

definition attrStrings :: "attrs \<Rightarrow> string \<Rightarrow> string list" where
  "attrStrings m k = (case map_of m k of
     Some (AAnyList v) \<Rightarrow> concat (map (\<lambda>x. case x of AString s \<Rightarrow> if s \<noteq> [] then [s] else [] | _ \<Rightarrow> []) v)
   | Some (AStrings v) \<Rightarrow> v
   | Some (AString s) \<Rightarrow> if s = [] then [] else [s]
   | _ \<Rightarrow> [])"

definition attrNumber :: "attrs \<Rightarrow> string \<Rightarrow> real" where
  "attrNumber m k = (case map_of m k of
     Some (AFloat v) \<Rightarrow> v | Some (AInt v) \<Rightarrow> real_of_int v | Some (AInt64 v) \<Rightarrow> real_of_int v | _ \<Rightarrow> 2 ^ 30)"

fun unique_loop :: "string list \<Rightarrow> string list \<Rightarrow> string list" where
  "unique_loop out [] = out"
| "unique_loop out (s # ss) = (if s \<in> set out then unique_loop out ss else unique_loop (out @ [s]) ss)"

definition uniqueSorted :: "string list \<Rightarrow> string list" where
  "uniqueSorted xs = (if xs = [] then [] else sort (unique_loop [] xs))"

section \<open>The index\<close>

type_synonym link_index = "(string, (string, link list) gomap) gomap"

record graphIndex =
  gi_nodes :: "(string, node) gomap"
  gi_out :: link_index
  gi_in :: link_index

definition links_at :: "link_index \<Rightarrow> string \<Rightarrow> string \<Rightarrow> link list" where
  "links_at m i kind = slice_of (case map_of m i of None \<Rightarrow> [] | Some ks \<Rightarrow> ks) kind"

definition add_link_at :: "link_index \<Rightarrow> string \<Rightarrow> link \<Rightarrow> link_index" where
  "add_link_at m i l = (let ks = (case map_of m i of None \<Rightarrow> [] | Some ks \<Rightarrow> ks) in
     AList.update i (AList.update (ln_Kind l) (slice_of ks (ln_Kind l) @ [l]) ks) m)"

definition newGraphIndex :: "node list \<Rightarrow> link list \<Rightarrow> graphIndex" where
  "newGraphIndex nodes links =
     \<lparr>gi_nodes = foldl (\<lambda>m n. AList.update (nd_ID n) n m) [] nodes,
      gi_out = foldl (\<lambda>m l. add_link_at m (ln_Source l) l) [] links,
      gi_in = foldl (\<lambda>m l. add_link_at m (ln_Target l) l) [] links\<rparr>"

definition parentOf :: "graphIndex \<Rightarrow> string \<Rightarrow> string" where
  "parentOf g i =
    (let declared = (case links_at (gi_out g) i ''placed-on'' of [] \<Rightarrow> [] | l # ls \<Rightarrow> ln_Target l) in
     case map_of (gi_nodes g) i of
       Some n \<Rightarrow> if nd_Parent n \<noteq> [] then nd_Parent n else declared
     | None \<Rightarrow> declared)"

definition memberOf :: "graphIndex \<Rightarrow> string \<Rightarrow> string \<Rightarrow> string" where
  "memberOf g i kind =
    (case find (\<lambda>l. case map_of (gi_nodes g) (ln_Target l) of Some n \<Rightarrow> nd_Kind n = kind | None \<Rightarrow> False)
            (links_at (gi_out g) i ''member-of'') of
       Some l \<Rightarrow> ln_Target l | None \<Rightarrow> [])"

definition machineOf :: "graphIndex \<Rightarrow> string \<Rightarrow> string" where
  "machineOf g i = (case map_of (gi_nodes g) i of None \<Rightarrow> []
     | Some n \<Rightarrow>
       if nd_Kind n \<noteq> ''tunnel'' then i
       else let host = attrString (nd_Attrs n) ''host'' in
         if host = [] then []
         else if map_of (gi_nodes g) (''vm/'' @ host) \<noteq> None then ''vm/'' @ host
         else if map_of (gi_nodes g) host \<noteq> None then host else [])"

definition terminatesTunnel :: "graphIndex \<Rightarrow> string \<Rightarrow> bool" where
  "terminatesTunnel g i = (case map_of (gi_nodes g) i of None \<Rightarrow> False
     | Some n \<Rightarrow> nd_Kind n = ''gateway'' \<or> nd_Kind n = ''tunnel'' \<or> nd_Ifaces n \<noteq> [])"

section \<open>Failure domains\<close>

record failureDomain =
  fd_Host :: string
  fd_Label :: string
  fd_Farm :: string
  fd_Site :: string
  fd_Dependents :: "string list"
  fd_Tunnels :: "string list"
  fd_Carries :: nat

definition add_dep :: "(string, string list) gomap \<Rightarrow> string \<Rightarrow> string \<Rightarrow> (string, string list) gomap" where
  "add_dep deps p i = (if p = [] then deps else AList.update p (slice_of deps p @ [i]) deps)"

definition placed_deps :: "graphIndex \<Rightarrow> (string, string list) gomap" where
  "placed_deps g = foldl (\<lambda>deps (i, n). add_dep deps (parentOf g i) i) [] (gi_nodes g)"

definition tunnel_dep :: "graphIndex \<Rightarrow> (string, string list) gomap \<Rightarrow> string \<times> node \<Rightarrow> (string, string list) gomap" where
  "tunnel_dep g deps = (\<lambda>(i, n).
     if nd_Kind n \<noteq> ''tunnel'' then deps
     else let m = machineOf g i in if m = [] then deps else add_dep deps (parentOf g m) i)"

definition all_deps :: "graphIndex \<Rightarrow> (string, string list) gomap" where
  "all_deps g = foldl (tunnel_dep g) (placed_deps g) (gi_nodes g)"

definition domain_of :: "graphIndex \<Rightarrow> (string, string list) gomap \<Rightarrow> string \<times> node \<Rightarrow> failureDomain" where
  "domain_of g deps = (\<lambda>(i, n).
     let farm = memberOf g i ''farm'';
         site = (if farm \<noteq> [] \<and> nd_DC n = [] then memberOf g farm ''site'' else nd_DC n);
         dependents = uniqueSorted (slice_of deps i);
         tunnels = filter (terminatesTunnel g) dependents in
     \<lparr>fd_Host = i, fd_Label = nd_Label n, fd_Farm = farm, fd_Site = site, fd_Dependents = dependents,
      fd_Tunnels = tunnels, fd_Carries = sum_list (map (\<lambda>d. length (links_at (gi_out g) d ''carries'')) tunnels)\<rparr>)"

definition domain_key :: "failureDomain \<Rightarrow> int \<times> int \<times> string" where
  "domain_key fd = (- int (fd_Carries fd), - int (length (fd_Tunnels fd)), fd_Host fd)"

definition failureDomains :: "graphIndex \<Rightarrow> failureDomain list" where
  "failureDomains g = sort_key domain_key
     (map (domain_of g (all_deps g)) (filter (\<lambda>(i, n). nd_Kind n = ''physical-host'') (gi_nodes g)))"

section \<open>Paths, masquerades and gaps\<close>

record path =
  pt_Network :: string
  pt_CIDR :: string
  pt_Tunnel :: string
  pt_Method :: string
  pt_SNATAt :: string
  pt_Hops :: "string list"
  pt_Uncollected :: bool

record snatRule =
  sn_At :: string
  sn_Tunnel :: string
  sn_Iface :: string
  sn_Network :: string
  sn_CIDR :: string
  sn_OIF :: "string list"
  sn_Table :: string

record gap =
  gp_Kind :: string
  gp_Subject :: string
  gp_Detail :: string

definition push_hop :: "string list \<Rightarrow> string \<Rightarrow> string list" where
  "push_hop hops i = (if i \<noteq> [] \<and> last hops \<noteq> i then hops @ [i] else hops)"

definition path_climb :: "graphIndex \<Rightarrow> link \<Rightarrow> string list" where
  "path_climb g l =
    (let src = ln_Source l; m = machineOf g src;
         (hops1, cur1) = (if m \<noteq> [] then (push_hop [src] m, m) else ([src], src));
         host = parentOf g cur1;
         (hops2, cur2) = (if host \<noteq> [] then (push_hop hops1 host, host) else (hops1, cur1));
         farm = memberOf g cur2 ''farm'';
         hops3 = push_hop hops2 farm;
         hops4 = push_hop hops3 (if farm \<noteq> [] then memberOf g farm ''site'' else memberOf g cur2 ''site'');
         transits = sort_key (\<lambda>t. attrNumber (ln_Attrs t) ''order'') (links_at (gi_out g) src ''transits'') in
     foldl push_hop hops4 (map ln_Target transits))"

definition path_hops :: "graphIndex \<Rightarrow> link \<Rightarrow> string list" where
  "path_hops g l = push_hop (path_climb g l) (ln_Target l)"

definition path_of :: "graphIndex \<Rightarrow> link \<Rightarrow> path" where
  "path_of g l =
     \<lparr>pt_Network = ln_Target l,
      pt_CIDR = (case map_of (gi_nodes g) (ln_Target l) of Some n \<Rightarrow> attrString (nd_Attrs n) ''cidr'' | None \<Rightarrow> []),
      pt_Tunnel = ln_Source l,
      pt_Method = attrString (ln_Attrs l) ''method'', pt_SNATAt = attrString (ln_Attrs l) ''snat_at'',
      pt_Hops = path_hops g l,
      pt_Uncollected = (case map_of (gi_nodes g) (ln_Source l) of Some n \<Rightarrow> nd_Kind n = ''tunnel'' | None \<Rightarrow> False)\<rparr>"

definition snat_of :: "graphIndex \<Rightarrow> link \<Rightarrow> snatRule list" where
  "snat_of g l = (let p = path_of g l in
     if pt_Method p = ''direct'' \<and> pt_SNATAt p \<noteq> [] then
       [\<lparr>sn_At = pt_SNATAt p, sn_Tunnel = pt_Tunnel p, sn_Iface = attrString (ln_Attrs l) ''iface'',
         sn_Network = pt_Network p, sn_CIDR = pt_CIDR p, sn_OIF = attrStrings (ln_Attrs l) ''oif'',
         sn_Table = attrString (ln_Attrs l) ''nft_table''\<rparr>]
     else [])"

definition node_gaps :: "graphIndex \<Rightarrow> string \<times> node \<Rightarrow> gap list" where
  "node_gaps g = (\<lambda>(i, n).
     (if nd_Parent n \<noteq> [] then
        map (\<lambda>l. \<lparr>gp_Kind = ''placement-conflict'', gp_Subject = i,
            gp_Detail = ''synced on '' @ nd_Parent n @ '', declared on '' @ ln_Target l\<rparr>)
          (filter (\<lambda>l. ln_Target l \<noteq> nd_Parent n) (links_at (gi_out g) i ''placed-on''))
      else []) @
     (if nd_Kind n = ''tunnel'' then
        [\<lparr>gp_Kind = ''uncollected-tunnel'', gp_Subject = i,
          gp_Detail = ''declared on '' @ attrString (nd_Attrs n) ''host'' @ '' but never synced''\<rparr>]
      else if nd_Kind n = ''network'' then
        (if links_at (gi_in g) i ''carries'' = []
         then [\<lparr>gp_Kind = ''uncarried-network'', gp_Subject = i, gp_Detail = ''no tunnel carries it''\<rparr>] else [])
      else if nd_Kind n = ''vm'' then
        (if parentOf g i = []
         then [\<lparr>gp_Kind = ''unplaced-vm'', gp_Subject = i, gp_Detail = ''no placed-on host''\<rparr>] else [])
      else []))"

definition gap_key :: "gap \<Rightarrow> string \<times> string" where
  "gap_key p = (gp_Kind p, gp_Subject p)"

definition gaps :: "graphIndex \<Rightarrow> gap list" where
  "gaps g = sort_key gap_key (concat (map (node_gaps g) (gi_nodes g)))"

record derived =
  FailureDomains :: "failureDomain list"
  Paths :: "path list"
  SNAT :: "snatRule list"
  Gaps :: "gap list"

definition path_key :: "path \<Rightarrow> string \<times> string \<times> string" where
  "path_key p = (pt_Network p, pt_Tunnel p, pt_Method p)"

definition snat_key :: "snatRule \<Rightarrow> string \<times> string \<times> string" where
  "snat_key r = (sn_At r, sn_Tunnel r, sn_Network r)"

definition Derive :: "node list \<Rightarrow> link list \<Rightarrow> derived" where
  "Derive nodes links =
    (let g = newGraphIndex nodes links; carries = filter (\<lambda>l. ln_Kind l = ''carries'') links in
     \<lparr>FailureDomains = failureDomains g, Paths = sort_key path_key (map (path_of g) carries),
      SNAT = sort_key snat_key (concat (map (snat_of g) carries)), Gaps = gaps g\<rparr>)"

section \<open>Reading the index\<close>

lemma links_at_add:
  "links_at (add_link_at m j l) i kind = links_at m i kind @ (if i = j \<and> kind = ln_Kind l then [l] else [])"
  by (auto simp: links_at_def add_link_at_def Let_def)

lemma links_at_fold:
  "links_at (foldl (\<lambda>m l. add_link_at m (f l) l) m ls) i kind =
     links_at m i kind @ filter (\<lambda>l. f l = i \<and> ln_Kind l = kind) ls"
  by (induction ls arbitrary: m) (auto simp: links_at_add)

lemma links_at_index [simp]:
  "links_at (gi_out (newGraphIndex nodes links)) i kind = filter (\<lambda>l. ln_Source l = i \<and> ln_Kind l = kind) links"
  "links_at (gi_in (newGraphIndex nodes links)) i kind = filter (\<lambda>l. ln_Target l = i \<and> ln_Kind l = kind) links"
  by (simp_all add: newGraphIndex_def links_at_fold) (simp_all add: links_at_def slice_of_def)

lemma nodes_index_wf: "gomap_wf (gi_nodes (newGraphIndex nodes links))"
proof -
  have "gomap_wf m \<Longrightarrow> gomap_wf (foldl (\<lambda>m n. AList.update (nd_ID n) n m) m nodes)" for m
    by (induction nodes arbitrary: m) simp_all
  then show ?thesis by (simp add: newGraphIndex_def)
qed

lemma set_unique_loop: "set (unique_loop out xs) = set out \<union> set xs"
  by (induction xs arbitrary: out) auto

lemma distinct_unique_loop: "distinct out \<Longrightarrow> distinct (unique_loop out xs)"
  by (induction xs arbitrary: out) auto

lemma uniqueSorted_set [simp]: "set (uniqueSorted xs) = set xs"
  by (simp add: uniqueSorted_def set_unique_loop)

lemma uniqueSorted_sorted: "sorted (uniqueSorted xs)" "distinct (uniqueSorted xs)"
  by (simp_all add: uniqueSorted_def distinct_unique_loop)

lemma uniqueSorted_eq: "set xs = set ys \<Longrightarrow> uniqueSorted xs = uniqueSorted ys"
  by (intro sorted_distinct_set_unique uniqueSorted_sorted) simp

section \<open>Hop chains\<close>

definition chain_from :: "string \<Rightarrow> string list \<Rightarrow> bool" where
  "chain_from src hops \<longleftrightarrow> hops \<noteq> [] \<and> hd hops = src \<and> distinct_adj hops"

lemma chain_start: "chain_from src [src]"
  by (simp add: chain_from_def)

lemma chain_push: "chain_from src hops \<Longrightarrow> chain_from src (push_hop hops i)"
  by (auto simp: chain_from_def push_hop_def distinct_adj_append_iff)

lemma chain_pushes: "chain_from src hops \<Longrightarrow> chain_from src (foldl push_hop hops is)"
  by (induction "is" arbitrary: hops) (simp_all add: chain_push)

lemma last_push: "i \<noteq> [] \<Longrightarrow> hops \<noteq> [] \<Longrightarrow> last (push_hop hops i) = i"
  by (simp add: push_hop_def)

lemma path_climb_chain: "chain_from (ln_Source l) (path_climb g l)"
  by (auto simp: path_climb_def Let_def chain_start chain_push intro!: chain_push chain_pushes)

lemma path_hops_chain: "chain_from (ln_Source l) (path_hops g l)"
  by (simp add: path_hops_def chain_push path_climb_chain)

lemma path_hops_last: "ln_Target l \<noteq> [] \<Longrightarrow> last (path_hops g l) = ln_Target l"
  using path_climb_chain [of l g] by (simp add: path_hops_def last_push chain_from_def)

lemma snat_of_iff:
  "r \<in> set (snat_of g l) \<longleftrightarrow> attrString (ln_Attrs l) ''method'' = ''direct'' \<and> attrString (ln_Attrs l) ''snat_at'' \<noteq> [] \<and>
     r = \<lparr>sn_At = attrString (ln_Attrs l) ''snat_at'', sn_Tunnel = ln_Source l, sn_Iface = attrString (ln_Attrs l) ''iface'',
       sn_Network = ln_Target l, sn_CIDR = pt_CIDR (path_of g l), sn_OIF = attrStrings (ln_Attrs l) ''oif'',
       sn_Table = attrString (ln_Attrs l) ''nft_table''\<rparr>"
  by (auto simp: snat_of_def Let_def path_of_def)

text \<open>Every declared \<open>carries\<close> relation, and nothing else, gives one path. Its hop chain starts at the
  tunnel that carries, ends at the network it reaches, and never repeats a hop twice in a row; and a
  masquerade is required exactly by the direct paths that name a host to masquerade at, with that
  host, tunnel, network and interfaces.\<close>

theorem derived_paths_and_masquerades:
  "length (Paths (Derive nodes links)) = length (filter (\<lambda>l. ln_Kind l = ''carries'') links) \<and>
   (\<forall>l \<in> set links. ln_Kind l = ''carries'' \<longrightarrow> (\<exists>p \<in> set (Paths (Derive nodes links)).
      pt_Tunnel p = ln_Source l \<and> pt_Network p = ln_Target l \<and> hd (pt_Hops p) = ln_Source l \<and>
      distinct_adj (pt_Hops p) \<and> (ln_Target l \<noteq> [] \<longrightarrow> last (pt_Hops p) = ln_Target l))) \<and>
   (\<forall>p \<in> set (Paths (Derive nodes links)). \<exists>l \<in> set links. ln_Kind l = ''carries'' \<and>
      pt_Tunnel p = ln_Source l \<and> pt_Network p = ln_Target l \<and> pt_Method p = attrString (ln_Attrs l) ''method'') \<and>
   (\<forall>r. r \<in> set (SNAT (Derive nodes links)) \<longleftrightarrow>
      (\<exists>l \<in> set links. ln_Kind l = ''carries'' \<and> r \<in> set (snat_of (newGraphIndex nodes links) l) \<and>
         attrString (ln_Attrs l) ''method'' = ''direct'' \<and> sn_At r = attrString (ln_Attrs l) ''snat_at'' \<and> sn_At r \<noteq> [] \<and>
         sn_Tunnel r = ln_Source l \<and> sn_Network r = ln_Target l \<and> sn_OIF r = attrStrings (ln_Attrs l) ''oif''))"
proof -
  let ?g = "newGraphIndex nodes links"
  have "pt_Tunnel (path_of ?g l) = ln_Source l \<and> pt_Network (path_of ?g l) = ln_Target l \<and>
      hd (pt_Hops (path_of ?g l)) = ln_Source l \<and> distinct_adj (pt_Hops (path_of ?g l)) \<and>
      (ln_Target l \<noteq> [] \<longrightarrow> last (pt_Hops (path_of ?g l)) = ln_Target l)" for l
    using path_hops_chain [of l ?g] path_hops_last [of l ?g] by (simp add: path_of_def chain_from_def)
  then show ?thesis
    by (fastforce simp: Derive_def Let_def snat_of_iff path_of_def)
qed

section \<open>Dependents\<close>

definition depends_on :: "graphIndex \<Rightarrow> string \<Rightarrow> string \<Rightarrow> bool" where
  "depends_on g i h \<longleftrightarrow> h \<noteq> [] \<and> (\<exists>n. map_of (gi_nodes g) i = Some n \<and>
     (parentOf g i = h \<or> nd_Kind n = ''tunnel'' \<and> machineOf g i \<noteq> [] \<and> parentOf g (machineOf g i) = h))"

lemma add_dep_slice: "set (slice_of (add_dep deps p i) h) = set (slice_of deps h) \<union> (if p = h \<and> h \<noteq> [] then {i} else {})"
  by (auto simp: add_dep_def)

lemma placed_fold:
  "set (slice_of (foldl (\<lambda>deps (i, n). add_dep deps (parentOf g i) i) deps ns) h) =
     set (slice_of deps h) \<union> {i \<in> fst ` set ns. parentOf g i = h \<and> h \<noteq> []}"
  by (induction ns arbitrary: deps) (auto simp: add_dep_slice split: if_splits)

lemma tunnel_dep_slice:
  "set (slice_of (tunnel_dep g deps (i, n)) h) = set (slice_of deps h) \<union>
     (if nd_Kind n = ''tunnel'' \<and> machineOf g i \<noteq> [] \<and> parentOf g (machineOf g i) = h \<and> h \<noteq> [] then {i} else {})"
  by (auto simp: tunnel_dep_def Let_def add_dep_slice)

lemma tunnel_fold:
  "set (slice_of (foldl (tunnel_dep g) deps ns) h) =
     set (slice_of deps h) \<union> {i. \<exists>n. (i, n) \<in> set ns \<and> nd_Kind n = ''tunnel'' \<and> machineOf g i \<noteq> [] \<and>
       parentOf g (machineOf g i) = h \<and> h \<noteq> []}"
  by (induction ns arbitrary: deps) (auto simp: tunnel_dep_slice split: if_splits)

lemma all_deps_set:
  assumes "gomap_wf (gi_nodes g)"
  shows "set (slice_of (all_deps g) h) = {i. depends_on g i h}"
proof -
  have mem: "(i, n) \<in> set (gi_nodes g) \<longleftrightarrow> map_of (gi_nodes g) i = Some n" for i n
    using gomap_mem_iff [OF assms] by simp
  have keys: "i \<in> fst ` set (gi_nodes g) \<longleftrightarrow> (\<exists>n. map_of (gi_nodes g) i = Some n)" for i
    using mem by force
  show ?thesis
    unfolding all_deps_def placed_deps_def tunnel_fold placed_fold
    by (auto simp: mem keys depends_on_def slice_of_def)
qed

lemma sum_carries:
  "distinct ds \<Longrightarrow> sum_list (map (\<lambda>d. length (filter (\<lambda>l. ln_Source l = d \<and> ln_Kind l = k) links)) ds) =
     length (filter (\<lambda>l. ln_Kind l = k \<and> ln_Source l \<in> set ds) links)"
proof (induction ds)
  case (Cons d ds)
  have "length (filter (\<lambda>l. ln_Source l = d \<and> ln_Kind l = k) links) + length (filter (\<lambda>l. ln_Kind l = k \<and> ln_Source l \<in> set ds) links) =
      length (filter (\<lambda>l. ln_Kind l = k \<and> ln_Source l \<in> set (d # ds)) links)"
    using Cons.prems by (induction links) auto
  with Cons show ?case by simp
qed simp

text \<open>Each physical host of the graph has exactly one failure domain, listed widest first (networks
  carried, then tunnel endpoints hosted, then name). Its dependents are exactly the nodes placed on
  it, by the sync or else by declaration, and the declared tunnels whose machine is placed on it,
  sorted and without repeats; its tunnels are the dependents that terminate one, and the count is
  the number of declared networks those carry.\<close>

theorem failure_domains_are_complete:
  "(let g = newGraphIndex nodes links; fds = FailureDomains (Derive nodes links) in
    sorted (map domain_key fds) \<and> distinct (map fd_Host fds) \<and>
    (\<forall>h. h \<in> fd_Host ` set fds \<longleftrightarrow> (\<exists>n. map_of (gi_nodes g) h = Some n \<and> nd_Kind n = ''physical-host'')) \<and>
    (\<forall>fd \<in> set fds. sorted (fd_Dependents fd) \<and> distinct (fd_Dependents fd) \<and>
       set (fd_Dependents fd) = {i. depends_on g i (fd_Host fd)} \<and>
       fd_Tunnels fd = filter (terminatesTunnel g) (fd_Dependents fd) \<and>
       fd_Carries fd = length (filter (\<lambda>l. ln_Kind l = ''carries'' \<and> ln_Source l \<in> set (fd_Tunnels fd)) links)))"
proof -
  let ?g = "newGraphIndex nodes links" and ?fds = "FailureDomains (Derive nodes links)"
  let ?ps = "filter (\<lambda>(i, n). nd_Kind n = ''physical-host'') (gi_nodes ?g)"
  have wf: "gomap_wf (gi_nodes ?g)" by (rule nodes_index_wf)
  have fds: "?fds = sort_key domain_key (map (domain_of ?g (all_deps ?g)) ?ps)"
    by (simp add: Derive_def Let_def failureDomains_def)
  have host: "fd_Host (domain_of ?g d x) = fst x" for d x
    by (simp add: domain_of_def Let_def split: prod.splits)
  have hosts: "map fd_Host (map (domain_of ?g (all_deps ?g)) ?ps) = map fst ?ps" by (simp add: host)
  have dist: "distinct (map fst ?ps)" using wf by (simp add: gomap_wf_def distinct_map_filter)
  have "mset (map fd_Host ?fds) = mset (map fst ?ps)" unfolding fds hosts [symmetric] by (simp add: multiset.map_comp)
  with dist have d: "distinct (map fd_Host ?fds)" by (metis mset_eq_imp_distinct_iff)
  have keys: "h \<in> fd_Host ` set ?fds \<longleftrightarrow> (\<exists>n. map_of (gi_nodes ?g) h = Some n \<and> nd_Kind n = ''physical-host'')" for h
  proof -
    have "fd_Host ` set ?fds = fst ` set ?ps" unfolding fds using arg_cong [OF hosts, of set] by (simp add: image_image)
    moreover have "h \<in> fst ` set ?ps \<longleftrightarrow> (\<exists>n. (h, n) \<in> set (gi_nodes ?g) \<and> nd_Kind n = ''physical-host'')"
      by (auto simp: image_iff)
    ultimately show ?thesis by (simp add: gomap_mem_iff [OF wf])
  qed
  have each: "sorted (fd_Dependents fd) \<and> distinct (fd_Dependents fd) \<and>
       set (fd_Dependents fd) = {i. depends_on ?g i (fd_Host fd)} \<and>
       fd_Tunnels fd = filter (terminatesTunnel ?g) (fd_Dependents fd) \<and>
       fd_Carries fd = length (filter (\<lambda>l. ln_Kind l = ''carries'' \<and> ln_Source l \<in> set (fd_Tunnels fd)) links)"
    if m: "fd \<in> set ?fds" for fd
  proof -
    from m obtain x where "fd = domain_of ?g (all_deps ?g) x" unfolding fds by auto
    then show ?thesis
      using uniqueSorted_sorted
      by (simp add: domain_of_def Let_def all_deps_set [OF wf] sum_carries split: prod.splits)
  qed
  show ?thesis unfolding Let_def using d keys each by (simp add: fds del: sort_key_simps)
qed

definition plain_node :: "string \<Rightarrow> string \<Rightarrow> string \<Rightarrow> node" where
  "plain_node i kind parent = \<lparr>nd_ID = i, nd_Label = i, nd_Kind = kind, nd_DC = [], nd_IP = [], nd_TunnelIP = [],
     nd_Observed = [], nd_Parent = parent, nd_Warnings = [], nd_Ifaces = [], nd_Layer = [], nd_Attrs = [], nd_PubKey = [],
     nd_SeenAs = []\<rparr>"

definition sample_nodes :: "node list" where
  "sample_nodes = [plain_node ''host|h1'' ''physical-host'' [], plain_node ''gw1'' ''gateway'' ''host|h1'',
     plain_node ''net/a'' ''network'' []]"

definition sample_carry :: link where
  "sample_carry = \<lparr>ln_Source = ''gw1'', ln_Target = ''net/a'', ln_Kind = ''carries'',
     ln_Attrs = [(''method'', AString ''direct''), (''snat_at'', AString ''gw1'')]\<rparr>"

theorem derived_paths_and_masquerades_witness:
  "\<exists>p \<in> set (Paths (Derive sample_nodes [sample_carry])). pt_Tunnel p = ''gw1'' \<and> last (pt_Hops p) = ''net/a''"
proof -
  have "sample_carry \<in> set [sample_carry]" "ln_Kind sample_carry = ''carries''" by (simp_all add: sample_carry_def)
  from derived_paths_and_masquerades [of sample_nodes "[sample_carry]", THEN conjunct2, THEN conjunct1, rule_format, OF this]
  show ?thesis by (auto simp: sample_carry_def)
qed

theorem failure_domains_are_complete_witness:
  "\<exists>fd \<in> set (FailureDomains (Derive sample_nodes [sample_carry])). fd_Host fd = ''host|h1'' \<and> ''gw1'' \<in> set (fd_Dependents fd)"
proof -
  let ?g = "newGraphIndex sample_nodes [sample_carry]" and ?fds = "FailureDomains (Derive sample_nodes [sample_carry])"
  note c = failure_domains_are_complete [of sample_nodes "[sample_carry]", unfolded Let_def]
  have "\<exists>n. map_of (gi_nodes ?g) ''host|h1'' = Some n \<and> nd_Kind n = ''physical-host''"
    by (simp add: newGraphIndex_def sample_nodes_def plain_node_def)
  then have "''host|h1'' \<in> fd_Host ` set ?fds"
    using c [THEN conjunct2, THEN conjunct2, THEN conjunct1, THEN spec, of "''host|h1''"] by (rule iffD2 [rotated])
  then obtain fd where h: "''host|h1'' = fd_Host fd" and m: "fd \<in> set ?fds" by (rule imageE)
  note fd = m h [symmetric]
  have "depends_on ?g ''gw1'' ''host|h1''"
    by (simp add: depends_on_def parentOf_def Let_def newGraphIndex_def sample_nodes_def plain_node_def)
  moreover have "set (fd_Dependents fd) = {i. depends_on ?g i (fd_Host fd)}"
    using bspec [OF c [THEN conjunct2, THEN conjunct2, THEN conjunct2] fd(1)] by (elim conjE)
  ultimately have "''gw1'' \<in> set (fd_Dependents fd)" using fd(2) by simp
  with fd show ?thesis by blast
qed

section \<open>The order of the node map does not matter\<close>

definition same_graph :: "graphIndex \<Rightarrow> graphIndex \<Rightarrow> bool" where
  "same_graph g g' \<longleftrightarrow> gomap_wf (gi_nodes g) \<and> gomap_wf (gi_nodes g') \<and> map_of (gi_nodes g) = map_of (gi_nodes g') \<and>
     gi_out g = gi_out g' \<and> gi_in g = gi_in g'"

lemma same_graph_fun:
  assumes "same_graph g g'"
  shows "parentOf g = parentOf g'" "memberOf g = memberOf g'" "machineOf g = machineOf g'"
    "terminatesTunnel g = terminatesTunnel g'" "depends_on g = depends_on g'" "path_of g = path_of g'" "snat_of g = snat_of g'"
    "node_gaps g = node_gaps g'" "mset (gi_nodes g) = mset (gi_nodes g')"
proof -
  have eq: "map_of (gi_nodes g) = map_of (gi_nodes g')" "gi_out g = gi_out g'" "gi_in g = gi_in g'"
    using assms by (simp_all add: same_graph_def)
  show p: "parentOf g = parentOf g'" and m: "memberOf g = memberOf g'" and mm: "machineOf g = machineOf g'"
    and "terminatesTunnel g = terminatesTunnel g'"
    by (intro ext, simp only: parentOf_def memberOf_def machineOf_def terminatesTunnel_def eq)+
  then show "depends_on g = depends_on g'" by (intro ext) (simp add: depends_on_def eq)
  have h: "path_hops g = path_hops g'"
    by (intro ext) (unfold path_hops_def path_climb_def p m mm eq, rule refl)
  then show pt: "path_of g = path_of g'" by (intro ext) (simp add: path_of_def eq)
  then show "snat_of g = snat_of g'" by (intro ext) (simp add: snat_of_def)
  show "node_gaps g = node_gaps g'" by (intro ext) (unfold node_gaps_def p eq, rule refl)
  have wf: "gomap_wf (gi_nodes g)" "gomap_wf (gi_nodes g')" using assms by (simp_all add: same_graph_def)
  have "set (gi_nodes g) = set (gi_nodes g')" using eq(1) gomap_mem_iff [OF wf(1)] gomap_mem_iff [OF wf(2)] by auto
  moreover have "distinct (gi_nodes g)" "distinct (gi_nodes g')" using wf by (simp_all add: gomap_wf_def distinct_map)
  ultimately show "mset (gi_nodes g) = mset (gi_nodes g')" by (simp add: set_eq_iff_mset_eq_distinct)
qed

lemma same_graph_domains:
  assumes s: "same_graph g g'"
  shows "failureDomains g = failureDomains g'"
proof -
  note f = same_graph_fun [OF s]
  have wf: "gomap_wf (gi_nodes g)" "gomap_wf (gi_nodes g')" using s by (simp_all add: same_graph_def)
  have deps: "uniqueSorted (slice_of (all_deps g) h) = uniqueSorted (slice_of (all_deps g') h)" for h
    by (rule uniqueSorted_eq) (simp add: all_deps_set wf f)
  have out: "gi_out g = gi_out g'" using s by (simp add: same_graph_def)
  have dom: "domain_of g (all_deps g) = domain_of g' (all_deps g')"
    by (intro ext) (simp add: domain_of_def Let_def f deps out split: prod.splits)
  let ?P = "\<lambda>(i, n). nd_Kind n = ''physical-host''"
  let ?ds = "\<lambda>g. map (domain_of g (all_deps g)) (filter ?P (gi_nodes g))"
  have m: "mset (?ds g) = mset (?ds g')" by (simp add: dom f(9))
  have host: "fd_Host (domain_of g d x) = fst x" for d x by (simp add: domain_of_def Let_def split: prod.splits)
  have "inj_on fst (set (gi_nodes g))" using wf(1) by (simp add: gomap_wf_def distinct_map)
  then have "x \<in> set (gi_nodes g) \<Longrightarrow> y \<in> set (gi_nodes g) \<Longrightarrow> fst x = fst y \<Longrightarrow> x = y" for x y
    by (rule inj_onD) simp_all
  then have "inj_on domain_key (set (?ds g))"
    unfolding inj_on_def domain_key_def by (auto simp: host simp del: split_paired_All)
  then show ?thesis
    unfolding failureDomains_def using m by (intro sort_key_inj_key_eq) simp_all
qed

lemma nodes_index_lookup:
  "distinct (map nd_ID nodes) \<Longrightarrow>
   map_of (gi_nodes (newGraphIndex nodes links)) i = find (\<lambda>n. nd_ID n = i) nodes"
proof -
  have "distinct (map nd_ID nodes) \<Longrightarrow> map_of (foldl (\<lambda>m n. AList.update (nd_ID n) n m) m nodes) i =
      (case find (\<lambda>n. nd_ID n = i) nodes of None \<Rightarrow> map_of m i | Some n \<Rightarrow> Some n)" for m
  proof (induction nodes arbitrary: m)
    case (Cons n nodes)
    then have "nd_ID n = i \<Longrightarrow> find (\<lambda>n. nd_ID n = i) nodes = None" by (auto simp: find_None_iff image_iff)
    with Cons show ?case by (auto split: option.splits)
  qed simp
  then show "distinct (map nd_ID nodes) \<Longrightarrow> map_of (gi_nodes (newGraphIndex nodes links)) i = find (\<lambda>n. nd_ID n = i) nodes"
    by (simp add: newGraphIndex_def split: option.splits)
qed

text \<open>The derived view does not depend on the order of the nodes, and so not on the order in which Go
  iterates over the node map: for nodes with distinct identifiers, any reordering gives the same
  failure domains, paths and masquerades in the same order, and the same gaps.\<close>

theorem derived_view_ignores_node_order:
  "distinct (map nd_ID nodes) \<Longrightarrow> mset nodes' = mset nodes \<Longrightarrow>
   FailureDomains (Derive nodes' links) = FailureDomains (Derive nodes links) \<and>
   Paths (Derive nodes' links) = Paths (Derive nodes links) \<and> SNAT (Derive nodes' links) = SNAT (Derive nodes links) \<and>
   mset (Gaps (Derive nodes' links)) = mset (Gaps (Derive nodes links))"
proof -
  assume d: "distinct (map nd_ID nodes)" and m: "mset nodes' = mset nodes"
  let ?g = "newGraphIndex nodes links" and ?g' = "newGraphIndex nodes' links"
  have d': "distinct (map nd_ID nodes')" using d m by (metis mset_eq_imp_distinct_iff mset_map)
  have set: "set nodes' = set nodes" using m by (metis set_mset_mset)
  have some: "find (\<lambda>n. nd_ID n = i) ns = Some n \<longleftrightarrow> n \<in> set ns \<and> nd_ID n = i" if "distinct (map nd_ID ns)" for ns i n
    using that by (induction ns) auto
  have "find (\<lambda>n. nd_ID n = i) nodes' = find (\<lambda>n. nd_ID n = i) nodes" for i
    using some [OF d, of i] some [OF d', of i] set by (metis not_None_eq option.inject)
  then have "map_of (gi_nodes ?g') = map_of (gi_nodes ?g)"
    by (intro ext) (simp add: nodes_index_lookup d d')
  then have s: "same_graph ?g' ?g" by (simp add: same_graph_def nodes_index_wf) (simp add: newGraphIndex_def)
  note f = same_graph_fun [OF s]
  have "mset (Gaps (Derive nodes' links)) = mset (Gaps (Derive nodes links))"
  proof -
    have "mset (concat (map h xs)) = (\<Sum>x \<in># mset xs. mset (h x))" for h :: "string \<times> node \<Rightarrow> gap list" and xs
      by (induction xs) simp_all
    then show ?thesis by (simp add: Derive_def Let_def gaps_def f)
  qed
  then show ?thesis
    using same_graph_domains [OF s] f by (simp add: Derive_def Let_def)
qed

theorem derived_view_ignores_node_order_witness:
  "FailureDomains (Derive (rev sample_nodes) [sample_carry]) = FailureDomains (Derive sample_nodes [sample_carry])"
  using derived_view_ignores_node_order [of sample_nodes "rev sample_nodes" "[sample_carry]"]
  by (simp add: sample_nodes_def plain_node_def)

end
