(* ===== verification/Wg_Topology.thy ===== *)
theory Wg_Topology
  imports Wg_Parse Wg_Derive Inv_Cache
begin

text \<open>
  The builder of the overlay graph, \<^verbatim>\<open>internal/wireguard/topology.go\<close>: gateways, tunnels,
  external peers, per-subnet aggregates, management and placement links, and the declared topology
  laid over them. The builder's indices and the graph under construction are the record
  \<open>builder\<close>, and each phase is a function on it. Sets of names are maps to booleans as in the
  code; a pointer to an aggregate is its entry in the map; an edge side that is a nil pointer is
  \<^const>\<open>None\<close>.

  The lemmas show that node identifiers stay unique, that the canonical name of a machine is stable
  and always drawn, that both ends of a tunnel name the same edge, and where an edge can point at a
  node that was never drawn.
\<close>

section \<open>Small helpers\<close>

definition cidr24 :: "string \<Rightarrow> string option" where
  "cidr24 i = (case ParseIP (trim_space i) of None \<Rightarrow> None
     | Some p \<Rightarrow> (case To4 p of None \<Rightarrow> None
       | Some v4 \<Rightarrow> Some (dec_digits (v4 ! 0) @ ''.'' @ dec_digits (v4 ! 1) @ ''.'' @ dec_digits (v4 ! 2) @ ''.0/24'')))"

definition EndpointIP :: "string \<Rightarrow> string" where
  "EndpointIP endpoint =
    (let direct = (if ParseIP endpoint \<noteq> None then endpoint else []) in
     case SplitHostPort (trim_space endpoint) of
       Some host \<Rightarrow> if ParseIP host \<noteq> None then host else direct
     | None \<Rightarrow> direct)"

definition TunnelEdgeID :: "string \<Rightarrow> string \<Rightarrow> string" where
  "TunnelEdgeID localKey peerKey =
    (if localKey > peerKey then ''gw|'' @ ShortKey peerKey @ ''|'' @ ShortKey localKey
     else ''gw|'' @ ShortKey localKey @ ''|'' @ ShortKey peerKey)"

definition PhysicalHostNodeID :: "string \<Rightarrow> string" where
  "PhysicalHostNodeID hostname = ''host|'' @ hostname"

record annotation =
  an_PublicKey :: string
  an_Label :: string
  an_Kind :: string
  an_UnderlayIP :: string
  an_TunnelIP :: string
  an_Site :: string
  an_InventoryHost :: string
  an_ParentHostname :: string
  an_Note :: string

definition AnnotationSpecificity :: "annotation \<Rightarrow> nat" where
  "AnnotationSpecificity a =
     (if an_ParentHostname a \<noteq> [] then 16 else 0) + (if an_InventoryHost a \<noteq> [] then 8 else 0) +
     (if an_UnderlayIP a \<noteq> [] then 4 else 0) + (if an_Site a \<noteq> [] then 2 else 0) + (if an_Label a \<noteq> [] then 1 else 0)"

definition AnnotationPlacementConflict :: "annotation \<Rightarrow> annotation \<Rightarrow> bool" where
  "AnnotationPlacementConflict a b =
    (let different = (\<lambda>x y. x \<noteq> [] \<and> y \<noteq> [] \<and> x \<noteq> (y :: string)) in
     different (an_Label a) (an_Label b) \<or> different (an_Kind a) (an_Kind b) \<or>
     different (an_UnderlayIP a) (an_UnderlayIP b) \<or> different (an_Site a) (an_Site b) \<or>
     different (an_InventoryHost a) (an_InventoryHost b) \<or> different (an_ParentHostname a) (an_ParentHostname b))"

section \<open>The builder\<close>

record edgeSide =
  sd_Host :: string
  sd_Iface :: string
  sd_PubKey :: string
  sd_Allowed :: string

record edge =
  eg_ID :: string
  eg_Source :: string
  eg_Target :: string
  eg_Iface :: string
  eg_Allowed :: string
  eg_A :: "edgeSide option"
  eg_B :: "edgeSide option"
  eg_TargetSeenAs :: "string list"
  eg_Conflict :: bool

record agg =
  ag_ID :: string
  ag_DC :: string
  ag_CIDR :: string
  ag_Count :: nat

record net_entity =
  en_ID :: string
  en_Kind :: string
  en_Label :: string
  en_Site :: string
  en_Attrs :: attrs
  en_Note :: string

record net_relation =
  rl_SrcID :: string
  rl_DstID :: string
  rl_Kind :: string
  rl_Attrs :: attrs
  rl_Note :: string

record vip =
  vp_IP :: string
  vp_Label :: string
  vp_Iface :: string
  vp_Note :: string
  vp_Owner :: string

record topology =
  tp_Nodes :: "node list"
  tp_Edges :: "edge list"
  tp_Aggs :: "agg list"
  tp_Links :: "link list"
  tp_Vips :: "vip list"
  tp_Derived :: "derived option"
  tp_CollectedAt :: gotime

record builder =
  b_ifaces :: "wg_interface_row list"
  b_peers :: "wg_peer list"
  b_servers :: "server list"
  b_endpoints :: endpointIndex
  b_byHost :: "(string, server) gomap"
  b_byIP :: "(string, server) gomap"
  b_annByKey :: "(string, annotation) gomap"
  b_annByHost :: "(string, annotation) gomap"
  b_warnings :: "(string, string list) gomap"
  b_endpointIP :: "(string, nat) gomap"
  b_ifByHost :: "(string, wg_iface list) gomap"
  b_gwHosts :: "(string, bool) gomap"
  b_entities :: "net_entity list"
  b_relations :: "net_relation list"
  b_nodes :: "node list"
  b_edges :: "edge list"
  b_aggs :: "agg list"
  b_links :: "link list"
  b_nodeSeen :: "(string, bool) gomap"
  b_edgeFor :: "(tunnelKey, string) gomap"
  b_aggOfHost :: "(string, string) gomap"

definition CollectedAt :: "wg_interface_row list \<Rightarrow> gotime" where
  "CollectedAt ifaces = foldl (\<lambda>newest i. if wi_CollectedAt i > newest then wi_CollectedAt i else newest) 0 ifaces"

definition index_server :: "(string, server) gomap \<times> (string, server) gomap \<Rightarrow> server \<Rightarrow> (string, server) gomap \<times> (string, server) gomap" where
  "index_server = (\<lambda>(byHost, byIP) s. (AList.update (Hostname s) s byHost,
     foldl (\<lambda>m i. AList.update i s m) (AList.update (IP s) s byIP) (slice (ExtraIPs s))))"

definition count_endpoint :: "(string, nat) gomap \<Rightarrow> wg_peer \<Rightarrow> (string, nat) gomap" where
  "count_endpoint m p = (let i = EndpointIP (wp_Endpoint p) in
     if i = [] then m else AList.update i (Suc (case map_of m i of None \<Rightarrow> 0 | Some n \<Rightarrow> n)) m)"

definition index_iface :: "(string, wg_iface list) gomap \<Rightarrow> wg_interface_row \<Rightarrow> (string, wg_iface list) gomap" where
  "index_iface m i = AList.update (wi_Host i)
     (slice_of m (wi_Host i) @ [\<lparr>if_Name = wi_Iface i, if_Port = wi_ListenPort i, if_PubKey = wi_PublicKey i\<rparr>]) m"

definition candidates_by_host :: "(string, annotation) gomap \<Rightarrow> wg_interface_row list \<Rightarrow> (string, annotation list) gomap" where
  "candidates_by_host annByKey ifaces = foldl (\<lambda>m i. case map_of annByKey (wi_PublicKey i) of
       None \<Rightarrow> m
     | Some a \<Rightarrow> AList.update (wi_Host i) (slice_of m (wi_Host i) @ [a]) m) [] (sort_key host_iface ifaces)"

fun most_specific :: "annotation \<Rightarrow> annotation list \<Rightarrow> annotation" where
  "most_specific selected [] = selected"
| "most_specific selected (c # cs) =
    most_specific (if AnnotationSpecificity c > AnnotationSpecificity selected then c else selected) cs"

definition resolve_host ::
  "(string, string list) gomap \<times> (string, annotation) gomap \<Rightarrow> string \<times> annotation list \<Rightarrow>
   (string, string list) gomap \<times> (string, annotation) gomap" where
  "resolve_host = (\<lambda>(warnings, annByHost) (host, candidates).
     let selected = most_specific (hd candidates) (tl candidates) in
     (if list_ex (AnnotationPlacementConflict selected) candidates
      then AList.update host [''conflicting endpoint annotations across WG interfaces; using the most specific placement''] warnings
      else warnings,
      AList.update host (selected \<lparr>an_TunnelIP := []\<rparr>) annByHost))"

definition newBuilder ::
  "wg_interface_row list \<Rightarrow> wg_peer list \<Rightarrow> server list \<Rightarrow> annotation list \<Rightarrow> builder" where
  "newBuilder ifaces peers servers annotations =
    (let (byHost, byIP) = foldl index_server ([], []) servers;
         annByKey = foldl (\<lambda>m a. AList.update (an_PublicKey a) a m) [] annotations;
         ifByHost = map (\<lambda>(h, is). (h, sort_key if_Name is)) (foldl index_iface [] ifaces);
         (warnings, annByHost) = foldl resolve_host ([], []) (candidates_by_host annByKey ifaces) in
     \<lparr>b_ifaces = ifaces, b_peers = peers, b_servers = servers, b_endpoints = BuildEndpointIndex ifaces,
      b_byHost = byHost, b_byIP = byIP, b_annByKey = annByKey, b_annByHost = annByHost, b_warnings = warnings,
      b_endpointIP = foldl count_endpoint [] peers, b_ifByHost = ifByHost,
      b_gwHosts = foldl (\<lambda>m i. AList.update (wi_Host i) True m) [] ifaces,
      b_entities = [], b_relations = [], b_nodes = [], b_edges = [], b_aggs = [], b_links = [],
      b_nodeSeen = [], b_edgeFor = [], b_aggOfHost = []\<rparr>)"

definition dcOf :: "builder \<Rightarrow> string \<Rightarrow> string" where
  "dcOf b host = (case map_of (b_byHost b) host of None \<Rightarrow> [] | Some s \<Rightarrow> DC s)"

definition ipOf :: "builder \<Rightarrow> string \<Rightarrow> string" where
  "ipOf b host = (case map_of (b_byHost b) host of None \<Rightarrow> [] | Some s \<Rightarrow> IP s)"

definition addNode :: "builder \<Rightarrow> node \<Rightarrow> builder" where
  "addNode b n = (if \<not> is_true (b_nodeSeen b) (nd_ID n)
     then b \<lparr>b_nodeSeen := AList.update (nd_ID n) True (b_nodeSeen b), b_nodes := b_nodes b @ [n]\<rparr> else b)"

definition blank_node :: "string \<Rightarrow> string \<Rightarrow> string \<Rightarrow> node" where
  "blank_node i label kind = \<lparr>nd_ID = i, nd_Label = label, nd_Kind = kind, nd_DC = [], nd_IP = [], nd_TunnelIP = [],
     nd_Observed = [], nd_Parent = [], nd_Warnings = [], nd_Ifaces = [], nd_Layer = [], nd_Attrs = [], nd_PubKey = [],
     nd_SeenAs = []\<rparr>"

definition addPhysicalHost :: "builder \<Rightarrow> server \<Rightarrow> builder \<times> string" where
  "addPhysicalHost b parent = (let i = PhysicalHostNodeID (Hostname parent) in
     (addNode b ((blank_node i (Hostname parent) ''physical-host'') \<lparr>nd_DC := DC parent, nd_IP := IP parent\<rparr>), i))"

definition enrichEndpoint :: "builder \<Rightarrow> node \<Rightarrow> annotation \<Rightarrow> builder \<times> node" where
  "enrichEndpoint b n a =
    (let n1 = (case map_of (b_byHost b) (an_InventoryHost a) of
           Some iv \<Rightarrow> n \<lparr>nd_Label := FirstNonEmpty [an_Label a, Hostname iv, nd_Label n],
             nd_IP := FirstNonEmpty [an_UnderlayIP a, IP iv, nd_IP n], nd_DC := FirstNonEmpty [an_Site a, DC iv, nd_DC n]\<rparr>
         | None \<Rightarrow> n \<lparr>nd_Label := FirstNonEmpty [an_Label a, nd_Label n],
             nd_IP := FirstNonEmpty [an_UnderlayIP a, nd_IP n], nd_DC := FirstNonEmpty [an_Site a, nd_DC n]\<rparr>);
         n2 = n1 \<lparr>nd_Kind := FirstNonEmpty [an_Kind a, nd_Kind n1], nd_TunnelIP := an_TunnelIP a\<rparr> in
     case map_of (b_byHost b) (an_ParentHostname a) of
       Some parent \<Rightarrow> (case addPhysicalHost b parent of (b', i) \<Rightarrow> (b', n2 \<lparr>nd_Parent := i, nd_DC := DC parent\<rparr>))
     | None \<Rightarrow> (b, n2))"

section \<open>Gateways\<close>

fun canon_loop :: "builder \<Rightarrow> string \<Rightarrow> string \<Rightarrow> wg_iface list \<Rightarrow> string" where
  "canon_loop b host canon [] = (if canon = [] then host else canon)"
| "canon_loop b host canon (i # is) =
    (case Lookup (b_endpoints b) (if_PubKey i) of
       None \<Rightarrow> host
     | Some ref \<Rightarrow>
       if is_true (conflicts (b_endpoints b)) (if_PubKey i) then host
       else if canon = [] then canon_loop b host (fst ref) is
       else if canon \<noteq> fst ref then host
       else canon_loop b host canon is)"

definition canonicalHost :: "builder \<Rightarrow> string \<Rightarrow> string" where
  "canonicalHost b host = (let ifs = slice_of (b_ifByHost b) host in if ifs = [] then host else canon_loop b host [] ifs)"

definition localPubKey :: "builder \<Rightarrow> string \<Rightarrow> string \<Rightarrow> string" where
  "localPubKey b host iface = (case find (\<lambda>i. wi_Host i = host \<and> wi_Iface i = iface) (b_ifaces b) of
     None \<Rightarrow> [] | Some i \<Rightarrow> wi_PublicKey i)"

definition gateway_node :: "builder \<Rightarrow> string \<Rightarrow> node" where
  "gateway_node b host =
    (let ifs = slice_of (b_ifByHost b) host;
         n = (blank_node host host ''gateway'') \<lparr>nd_DC := dcOf b host, nd_IP := ipOf b host,
               nd_Warnings := slice_of (b_warnings b) host, nd_Ifaces := ifs\<rparr> in
     case ifs of [] \<Rightarrow> n
     | i # is \<Rightarrow> let key = localPubKey b host (if_Name i); seen = ObservedThrough (b_endpoints b) key in
         n \<lparr>nd_PubKey := key, nd_SeenAs := (if length seen > 1 then seen else [])\<rparr>)"

definition addGateway :: "builder \<Rightarrow> string \<Rightarrow> builder" where
  "addGateway b host = (case map_of (b_annByHost b) host of
     None \<Rightarrow> addNode b (gateway_node b host)
   | Some a \<Rightarrow> (case enrichEndpoint b (gateway_node b host) a of (b', n) \<Rightarrow> addNode b' n))"

definition gateway_hosts :: "builder \<Rightarrow> string list" where
  "gateway_hosts b = sort (filter (\<lambda>h. canonicalHost b h = h) (map fst (b_gwHosts b)))"

definition addGateways :: "builder \<Rightarrow> builder" where
  "addGateways b = foldl addGateway b (gateway_hosts b)"

section \<open>Tunnels\<close>

definition allowed_text :: "wg_peer \<Rightarrow> string" where
  "allowed_text p = join_with '', '' (wp_AllowedIPs p)"

definition side_for :: "wg_peer \<Rightarrow> string \<Rightarrow> edgeSide" where
  "side_for p localKey = \<lparr>sd_Host = wp_Host p, sd_Iface = wp_Iface p, sd_PubKey = localKey, sd_Allowed = allowed_text p\<rparr>"

fun fill_first :: "string \<Rightarrow> edgeSide \<Rightarrow> edge list \<Rightarrow> edge list" where
  "fill_first i side [] = []"
| "fill_first i side (e # es) =
    (if eg_ID e \<noteq> i then e # fill_first i side es
     else if (case eg_A e of Some a \<Rightarrow> sd_PubKey a = sd_PubKey side | None \<Rightarrow> False) then e # es
     else if eg_B e = None then e \<lparr>eg_B := Some side\<rparr> # es
     else e # es)"

definition fillEdgeSide :: "builder \<Rightarrow> string \<Rightarrow> wg_peer \<Rightarrow> string \<Rightarrow> builder" where
  "fillEdgeSide b i p localKey = b \<lparr>b_edges := fill_first i (side_for p localKey) (b_edges b)\<rparr>"

definition guessed_node :: "builder \<Rightarrow> wg_peer \<Rightarrow> node" where
  "guessed_node b p =
    (let n = blank_node (''ext|'' @ ShortKey (wp_PeerPubKey p))
           (if wp_Endpoint p = [] then ShortKey (wp_PeerPubKey p) else wp_Endpoint p) ''external'';
         i = EndpointIP (wp_Endpoint p) in
     if i = [] then n
     else (case map_of (b_byIP b) i of
         Some sv \<Rightarrow> if map_of (b_endpointIP b) i = Some 1
           then n \<lparr>nd_ID := ''inventory|'' @ Hostname sv, nd_Label := Hostname sv @ '' ?'',
             nd_Kind := ''inventory-candidate'', nd_Observed := wp_Endpoint p\<rparr> else n
       | None \<Rightarrow> n))"

definition externalNode :: "builder \<Rightarrow> wg_peer \<Rightarrow> builder \<times> node" where
  "externalNode b p = (case map_of (b_annByKey b) (wp_PeerPubKey p) of
       Some a \<Rightarrow> enrichEndpoint b ((guessed_node b p) \<lparr>nd_ID := ''endpoint|'' @ wp_PeerPubKey p\<rparr>) a
     | None \<Rightarrow> (b, guessed_node b p))"

definition peer_tunnel_key :: "wg_peer \<Rightarrow> tunnelKey" where
  "peer_tunnel_key p = (wp_Host p, wp_Iface p, wp_PeerPubKey p)"

definition gateway_edge :: "builder \<Rightarrow> wg_peer \<Rightarrow> nodeRef \<Rightarrow> edge" where
  "gateway_edge b p far =
    (let localKey = localPubKey b (wp_Host p) (wp_Iface p); seen = ObservedThrough (b_endpoints b) (wp_PeerPubKey p) in
     \<lparr>eg_ID = TunnelEdgeID localKey (wp_PeerPubKey p), eg_Source = canonicalHost b (wp_Host p),
      eg_Target = canonicalHost b (fst far), eg_Iface = wp_Iface p, eg_Allowed = allowed_text p,
      eg_A = Some (side_for p localKey), eg_B = None,
      eg_TargetSeenAs = (if length seen > 1 then seen else []),
      eg_Conflict = (is_true (conflicts (b_endpoints b)) (wp_PeerPubKey p) \<or> is_true (conflicts (b_endpoints b)) localKey)\<rparr>)"

definition external_edge_id :: "wg_peer \<Rightarrow> string" where
  "external_edge_id p = wp_Host p @ ''|'' @ wp_Iface p @ ''|'' @ ShortKey (wp_PeerPubKey p)"

definition external_edge :: "wg_peer \<Rightarrow> string \<Rightarrow> edge" where
  "external_edge p target = \<lparr>eg_ID = external_edge_id p, eg_Source = wp_Host p, eg_Target = target, eg_Iface = wp_Iface p,
     eg_Allowed = allowed_text p, eg_A = None, eg_B = None, eg_TargetSeenAs = [], eg_Conflict = False\<rparr>"

definition set_edge_for :: "builder \<Rightarrow> wg_peer \<Rightarrow> string \<Rightarrow> builder" where
  "set_edge_for b p i = b \<lparr>b_edgeFor := AList.update (peer_tunnel_key p) i (b_edgeFor b)\<rparr>"

definition addPeerEdge :: "builder \<times> (string, bool) gomap \<Rightarrow> wg_peer \<Rightarrow> builder \<times> (string, bool) gomap" where
  "addPeerEdge = (\<lambda>(b, edgeSeen) p.
     case Lookup (b_endpoints b) (wp_PeerPubKey p) of
       Some far \<Rightarrow>
         (let localKey = localPubKey b (wp_Host p) (wp_Iface p);
              i = TunnelEdgeID localKey (wp_PeerPubKey p);
              b1 = set_edge_for b p i in
          if is_true edgeSeen i then (fillEdgeSide b1 i p localKey, edgeSeen)
          else (b1 \<lparr>b_edges := b_edges b1 @ [gateway_edge b1 p far]\<rparr>, AList.update i True edgeSeen))
     | None \<Rightarrow>
         (case externalNode b p of (b1, n) \<Rightarrow>
            let b2 = set_edge_for (addNode b1 n) p (external_edge_id p) in
            (b2 \<lparr>b_edges := b_edges b2 @ [external_edge p (nd_ID n)]\<rparr>, edgeSeen)))"

definition addPeerEdges :: "builder \<Rightarrow> builder" where
  "addPeerEdges b = fst (foldl addPeerEdge (b, []) (sort_key peer_tunnel_key (b_peers b)))"

section \<open>Aggregates and links\<close>

type_synonym agg_state = "(string, agg) gomap \<times> (string, (string, bool) gomap) gomap"

definition agg_id :: "string \<Rightarrow> string \<Rightarrow> string" where
  "agg_id dc cidr = ''agg|'' @ dc @ ''|'' @ cidr"

definition add_agg :: "agg_state \<Rightarrow> string \<Rightarrow> string \<Rightarrow> string \<Rightarrow> agg_state" where
  "add_agg = (\<lambda>(byKey, members) dc cidr member.
    let i = agg_id dc cidr;
        a = (case map_of byKey i of None \<Rightarrow> \<lparr>ag_ID = i, ag_DC = dc, ag_CIDR = cidr, ag_Count = 0\<rparr> | Some a \<Rightarrow> a);
        ms = (case map_of members i of None \<Rightarrow> [] | Some ms \<Rightarrow> ms) in
    if member \<noteq> [] \<and> \<not> is_true ms member
    then (AList.update i (a \<lparr>ag_Count := Suc (ag_Count a)\<rparr>) byKey, AList.update i (AList.update member True ms) members)
    else (AList.update i a byKey, AList.update i ms members))"

definition dcWithGW :: "builder \<Rightarrow> (string, bool) gomap" where
  "dcWithGW b = foldl (\<lambda>m h. AList.update (dcOf b h) True m) [] (map fst (b_gwHosts b))"

definition agg_server :: "(string, bool) gomap \<Rightarrow> agg_state \<times> (string, string) gomap \<Rightarrow> server \<Rightarrow> agg_state \<times> (string, string) gomap" where
  "agg_server dcs = (\<lambda>(st, aggOfHost) s.
     if \<not> is_true dcs (DC s) then (st, aggOfHost)
     else (case cidr24 (IP s) of None \<Rightarrow> (st, aggOfHost)
       | Some cidr \<Rightarrow> (add_agg st (DC s) cidr (Hostname s), AList.update (Hostname s) (agg_id (DC s) cidr) aggOfHost)))"

definition agg_node :: "agg_state \<Rightarrow> node \<Rightarrow> agg_state" where
  "agg_node st n = (if nd_Kind n = ''external'' \<or> nd_DC n = [] then st
     else (case cidr24 (nd_IP n) of None \<Rightarrow> st
       | Some cidr \<Rightarrow> add_agg st (nd_DC n) cidr (trim_prefix (nd_ID n) ''inventory|'')))"

definition addAggregates :: "builder \<Rightarrow> builder" where
  "addAggregates b =
    (let (st, aggOfHost) = foldl (agg_server (dcWithGW b)) (([], []), b_aggOfHost b) (b_servers b);
         (byKey, members) = foldl agg_node st (b_nodes b) in
     b \<lparr>b_aggOfHost := aggOfHost, b_aggs := sort_key ag_ID (b_aggs b @ map snd byKey)\<rparr>)"

definition resolve_end :: "builder \<Rightarrow> string \<Rightarrow> string option" where
  "resolve_end b host = (if is_true (b_gwHosts b) host then Some host else map_of (b_aggOfHost b) host)"

definition bare_link :: "string \<Rightarrow> string \<Rightarrow> string \<Rightarrow> link" where
  "bare_link src dst kind = \<lparr>ln_Source = src, ln_Target = dst, ln_Kind = kind, ln_Attrs = []\<rparr>"

definition management_link :: "builder \<Rightarrow> link list \<times> (string, bool) gomap \<Rightarrow> server \<Rightarrow> link list \<times> (string, bool) gomap" where
  "management_link b = (\<lambda>(links, seen) s.
     if JumpVia s = [] then (links, seen)
     else (case (resolve_end b (Hostname s), resolve_end b (JumpVia s)) of
         (Some src, Some dst) \<Rightarrow>
           if src = dst then (links, seen)
           else let key = src @ [CHR 0x00] @ dst in
             if is_true seen key then (links, seen)
             else (links @ [bare_link src dst ''management''], AList.update key True seen)
       | _ \<Rightarrow> (links, seen)))"

definition node_links :: "node \<Rightarrow> link list" where
  "node_links n = (if nd_Kind n = ''external'' then []
     else (if nd_Parent n \<noteq> [] then [bare_link (nd_ID n) (nd_Parent n) ''placement''] else []) @
       (case cidr24 (nd_IP n) of None \<Rightarrow> [] | Some cidr \<Rightarrow> [bare_link (nd_ID n) (agg_id (nd_DC n) cidr) ''network'']))"

definition addLinks :: "builder \<Rightarrow> builder" where
  "addLinks b =
    (let links = fst (foldl (management_link b) (b_links b, []) (b_servers b)) in
     b \<lparr>b_links := sort_key (\<lambda>l. (ln_Source l, ln_Target l)) (links @ concat (map node_links (b_nodes b)))\<rparr>)"

section \<open>The declared topology\<close>

type_synonym node_index = "(string, nat) gomap"

definition layered :: "node \<Rightarrow> node" where
  "layered n = n \<lparr>nd_Layer := (if nd_Kind n = ''physical-host'' then ''underlay'' else ''overlay'')\<rparr>"

definition layerCollectedNodes :: "builder \<Rightarrow> builder \<times> node_index" where
  "layerCollectedNodes b = (b \<lparr>b_nodes := map layered (b_nodes b)\<rparr>,
     foldl (\<lambda>m (i, n). AList.update (nd_ID n) i m) [] (enumerate 0 (b_nodes b)))"

definition annotatedHostNodes :: "builder \<Rightarrow> node_index" where
  "annotatedHostNodes b = foldl (\<lambda>m (i, n).
     if nd_Kind n \<noteq> ''physical-host'' \<or> \<not> has_prefix (nd_ID n) ''endpoint|'' then m
     else (case map_of (b_annByKey b) (trim_prefix (nd_ID n) ''endpoint|'') of
         Some a \<Rightarrow> if an_InventoryHost a \<noteq> [] then AList.update (an_InventoryHost a) i m else m
       | None \<Rightarrow> m)) [] (enumerate 0 (b_nodes b))"

definition attr_text :: "attrs \<Rightarrow> string \<Rightarrow> string" where
  "attr_text m k = (case map_of m k of Some (AString s) \<Rightarrow> s | _ \<Rightarrow> [])"

definition update_node :: "builder \<Rightarrow> nat \<Rightarrow> (node \<Rightarrow> node) \<Rightarrow> builder" where
  "update_node b i f = b \<lparr>b_nodes := (b_nodes b)[i := f (b_nodes b ! i)]\<rparr>"

definition enrich_declared :: "net_entity \<Rightarrow> node \<Rightarrow> node" where
  "enrich_declared e n = n \<lparr>nd_DC := FirstNonEmpty [nd_DC n, en_Site e],
     nd_Attrs := (if en_Attrs e \<noteq> [] then en_Attrs e else nd_Attrs n)\<rparr>"

definition declared_host_index :: "builder \<Rightarrow> node_index \<Rightarrow> node_index \<Rightarrow> string \<Rightarrow> nat option" where
  "declared_host_index b byID endpointHost name =
    (case map_of byID (PhysicalHostNodeID name) of Some i \<Rightarrow> Some i
     | None \<Rightarrow> (case map_of endpointHost name of Some i \<Rightarrow> Some i
       | None \<Rightarrow> let gw = canonicalHost b name in if is_true (b_nodeSeen b) gw then map_of byID gw else None))"

definition reconcileDeclaredHost :: "builder \<Rightarrow> net_entity \<Rightarrow> node_index \<Rightarrow> node_index \<Rightarrow> (builder \<times> string) option" where
  "reconcileDeclaredHost b e byID endpointHost =
    (case declared_host_index b byID endpointHost (trim_prefix (en_ID e) ''host/'') of
       None \<Rightarrow> None
     | Some i \<Rightarrow> Some (update_node b i (\<lambda>n. (enrich_declared e n) \<lparr>nd_Layer := ''underlay''\<rparr>), nd_ID (b_nodes b ! i)))"

definition reconcileDeclaredVM :: "builder \<Rightarrow> net_entity \<Rightarrow> node_index \<Rightarrow> (builder \<times> string) option" where
  "reconcileDeclaredVM b e byID =
    (let iv = attr_text (en_Attrs e) ''inventory''; gw = canonicalHost b iv in
     if iv = [] then None
     else if \<not> is_true (b_nodeSeen b) gw then None
     else Some (update_node b (case map_of byID gw of None \<Rightarrow> 0 | Some i \<Rightarrow> i) (enrich_declared e), gw))"

definition reconcileDeclared :: "builder \<Rightarrow> net_entity \<Rightarrow> node_index \<Rightarrow> node_index \<Rightarrow> (builder \<times> string) option" where
  "reconcileDeclared b e byID endpointHost =
    (if en_Kind e = ''physical-host'' then reconcileDeclaredHost b e byID endpointHost
     else if en_Kind e = ''tunnel'' then
       (let host = attr_text (en_Attrs e) ''host''; gw = canonicalHost b host in
        if host \<noteq> [] \<and> is_true (b_nodeSeen b) gw then Some (b, gw) else None)
     else if en_Kind e = ''vm'' then reconcileDeclaredVM b e byID
     else None)"

definition declaredNode :: "net_entity \<Rightarrow> node" where
  "declaredNode e =
    (let label = (if en_Kind e = ''physical-host'' then trim_prefix (en_ID e) ''host/'' else en_ID e);
         i = (if en_Kind e = ''physical-host'' then PhysicalHostNodeID label else en_ID e) in
     (blank_node i (FirstNonEmpty [en_Label e, label]) (en_Kind e)) \<lparr>nd_DC := en_Site e,
       nd_Layer := (if en_Kind e = ''tunnel'' then ''overlay'' else ''underlay''), nd_Attrs := en_Attrs e\<rparr>)"

definition alias_entity ::
  "node_index \<Rightarrow> builder \<times> node_index \<times> (string, string) gomap \<Rightarrow> net_entity \<Rightarrow> builder \<times> node_index \<times> (string, string) gomap" where
  "alias_entity endpointHost = (\<lambda>(b, byID, al) e.
     case reconcileDeclared b e byID endpointHost of
       Some (b1, i) \<Rightarrow> (b1, byID, AList.update (en_ID e) i al)
     | None \<Rightarrow> let n = declaredNode e; b1 = addNode b n in
         (b1, AList.update (nd_ID n) (length (b_nodes b1) - 1) byID, AList.update (en_ID e) (nd_ID n) al))"

definition aliasDeclaredEntities :: "builder \<Rightarrow> node_index \<Rightarrow> node_index \<Rightarrow> builder \<times> node_index \<times> (string, string) gomap" where
  "aliasDeclaredEntities b byID endpointHost = foldl (alias_entity endpointHost) (b, byID, []) (b_entities b)"

definition withTunnelIface :: "attrs \<Rightarrow> net_entity \<Rightarrow> attrs" where
  "withTunnelIface m e =
    (let iface = attr_text (en_Attrs e) ''iface'' in
     if en_Kind e \<noteq> ''tunnel'' then m
     else if iface = [] then m
     else if map_of m ''iface'' \<noteq> None then m
     else AList.update ''iface'' (AString iface) m)"

definition declared_link :: "(string, net_entity) gomap \<Rightarrow> (string, string) gomap \<Rightarrow> net_relation \<Rightarrow> link list" where
  "declared_link entityByID al r = (case (map_of al (rl_SrcID r), map_of al (rl_DstID r)) of
       (Some src, Some dst) \<Rightarrow> [\<lparr>ln_Source = src, ln_Target = dst, ln_Kind = rl_Kind r,
          ln_Attrs = (case map_of entityByID (rl_SrcID r) of None \<Rightarrow> rl_Attrs r | Some e \<Rightarrow> withTunnelIface (rl_Attrs r) e)\<rparr>]
     | _ \<Rightarrow> [])"

definition sortDeclaredLinks :: "link list \<Rightarrow> link list" where
  "sortDeclaredLinks links = sort_key (\<lambda>l. (ln_Source l, ln_Target l, ln_Kind l)) links"

definition addDeclaredRelations :: "builder \<Rightarrow> (string, string) gomap \<Rightarrow> builder" where
  "addDeclaredRelations b al =
    (let entityByID = foldl (\<lambda>m e. AList.update (en_ID e) e m) [] (b_entities b) in
     b \<lparr>b_links := sortDeclaredLinks (b_links b @ concat (map (declared_link entityByID al) (b_relations b)))\<rparr>)"

definition addDeclared :: "builder \<Rightarrow> builder" where
  "addDeclared b = (if b_entities b = [] \<and> b_relations b = [] then b
     else case layerCollectedNodes b of (b1, byID) \<Rightarrow>
       (case aliasDeclaredEntities b1 byID (annotatedHostNodes b1) of (b2, _, al) \<Rightarrow> addDeclaredRelations b2 al))"

definition BuildWithDeclared ::
  "wg_interface_row list \<Rightarrow> wg_peer list \<Rightarrow> server list \<Rightarrow> annotation list \<Rightarrow> net_entity list \<Rightarrow> net_relation list \<Rightarrow>
   topology \<times> (tunnelKey, string) gomap" where
  "BuildWithDeclared ifaces peers servers annotations entities relations =
    (let b0 = (newBuilder ifaces peers servers annotations) \<lparr>b_entities := entities, b_relations := relations\<rparr>;
         b = addDeclared (addLinks (addAggregates (addPeerEdges (addGateways b0)))) in
     (\<lparr>tp_Nodes = b_nodes b, tp_Edges = b_edges b, tp_Aggs = b_aggs b, tp_Links = b_links b, tp_Vips = [],
       tp_Derived = (if entities \<noteq> [] \<or> relations \<noteq> [] then Some (Derive (b_nodes b) (b_links b)) else None),
       tp_CollectedAt = CollectedAt ifaces\<rparr>, b_edgeFor b))"

definition Build ::
  "wg_interface_row list \<Rightarrow> wg_peer list \<Rightarrow> server list \<Rightarrow> annotation list \<Rightarrow> topology \<times> (tunnelKey, string) gomap" where
  "Build ifaces peers servers annotations = BuildWithDeclared ifaces peers servers annotations [] []"

section \<open>What a phase may change\<close>

text \<open>The phases share the indices and add to the graph. \<open>frame\<close> is what no phase changes, and
  \<open>extends N b b'\<close> says that a step added only nodes with identifiers of \<open>N\<close>.\<close>

definition frame where
  "frame b = (b_ifaces b, b_peers b, b_servers b, b_endpoints b, b_byHost b, b_byIP b, b_annByKey b, b_annByHost b,
     b_warnings b, b_endpointIP b, b_ifByHost b, b_gwHosts b, b_entities b, b_relations b)"

definition ids :: "builder \<Rightarrow> string set" where
  "ids b = nd_ID ` set (b_nodes b)"

definition nodes_ok :: "builder \<Rightarrow> bool" where
  "nodes_ok b \<longleftrightarrow> distinct (map nd_ID (b_nodes b)) \<and> (\<forall>i. is_true (b_nodeSeen b) i \<longleftrightarrow> i \<in> ids b)"

definition extends :: "string set \<Rightarrow> builder \<Rightarrow> builder \<Rightarrow> bool" where
  "extends N b b' \<longleftrightarrow> frame b' = frame b \<and> b_edges b' = b_edges b \<and> b_edgeFor b' = b_edgeFor b \<and>
     (nodes_ok b \<longrightarrow> nodes_ok b' \<and> ids b \<subseteq> ids b' \<and> ids b' \<subseteq> ids b \<union> N)"

definition bar_ids :: "string set" where
  "bar_ids = {i. CHR ''|'' \<in> set i}"

lemma extends_refl: "extends N b b"
  by (simp add: extends_def)

lemma extends_trans: "extends M a b \<Longrightarrow> extends N b c \<Longrightarrow> extends (M \<union> N) a c"
  unfolding extends_def by (intro conjI impI) (auto 0 4)

lemma extends_mono: "extends M a b \<Longrightarrow> M \<subseteq> N \<Longrightarrow> extends N a b"
  unfolding extends_def by auto

lemma frame_fields:
  assumes "frame b' = frame b"
  shows "b_endpoints b' = b_endpoints b" "b_ifByHost b' = b_ifByHost b" "b_gwHosts b' = b_gwHosts b" "b_peers b' = b_peers b"
    "b_ifaces b' = b_ifaces b" "b_entities b' = b_entities b" "b_relations b' = b_relations b"
  using assms by (simp_all add: frame_def)

lemma canon_loop_cong: "b_endpoints b' = b_endpoints b \<Longrightarrow> canon_loop b' host canon is = canon_loop b host canon is"
  by (induction "is" arbitrary: canon) (auto split: option.splits)

lemma canonicalHost_cong: "frame b' = frame b \<Longrightarrow> canonicalHost b' h = canonicalHost b h"
proof -
  assume f: "frame b' = frame b"
  have "canon_loop b' h [] is = canon_loop b h [] is" for "is" by (rule canon_loop_cong [OF frame_fields(1) [OF f]])
  with frame_fields(2) [OF f] show ?thesis by (simp add: canonicalHost_def Let_def)
qed

lemma addNode_extends: "extends {nd_ID n} b (addNode b n)"
  by (auto simp: extends_def addNode_def frame_def nodes_ok_def ids_def)

lemma addNode_ids: "nodes_ok b \<Longrightarrow> ids (addNode b n) = insert (nd_ID n) (ids b)"
  by (auto simp: addNode_def nodes_ok_def ids_def)

lemma bar_id_intros [simp, intro]: "''host|'' @ s \<in> bar_ids" "''ext|'' @ s \<in> bar_ids" "''inventory|'' @ s \<in> bar_ids"
  "''endpoint|'' @ s \<in> bar_ids"
  by (simp_all add: bar_ids_def)

lemma addPhysicalHost_extends: "addPhysicalHost b parent = (b', i) \<Longrightarrow> extends bar_ids b b'"
proof -
  assume "addPhysicalHost b parent = (b', i)"
  then obtain n where "b' = addNode b n" "nd_ID n = ''host|'' @ Hostname parent"
    by (auto simp: addPhysicalHost_def PhysicalHostNodeID_def blank_node_def Let_def)
  with extends_mono [OF addNode_extends [of n b], of bar_ids] show ?thesis by (simp add: bar_ids_def)
qed

lemma enrichEndpoint_extends:
  assumes "enrichEndpoint b n a = (b', n')"
  shows "extends bar_ids b b'" "nd_ID n' = nd_ID n"
  using assms by (auto simp: enrichEndpoint_def extends_refl Let_def intro: addPhysicalHost_extends
      split: option.splits prod.splits)

lemma gateway_node_id [simp]: "nd_ID (gateway_node b h) = h"
  by (simp add: gateway_node_def blank_node_def Let_def split: list.split)

lemma addGateway_extends: "extends (insert h bar_ids) b (addGateway b h)"
  and addGateway_draws: "nodes_ok b \<Longrightarrow> h \<in> ids (addGateway b h)"
proof -
  consider "addGateway b h = addNode b (gateway_node b h)"
    | b1 n a where "enrichEndpoint b (gateway_node b h) a = (b1, n)" "addGateway b h = addNode b1 n"
    by (cases "map_of (b_annByHost b) h"; cases "enrichEndpoint b (gateway_node b h) (the (map_of (b_annByHost b) h))")
      (auto simp: addGateway_def)
  then have "extends (insert h bar_ids) b (addGateway b h) \<and> (nodes_ok b \<longrightarrow> h \<in> ids (addGateway b h))"
  proof cases
    case 1
    then show ?thesis using extends_mono [OF addNode_extends, of _ _ b] by (auto simp: addNode_ids)
  next
    case 2
    note e = enrichEndpoint_extends [OF 2(1)]
    then have "extends (bar_ids \<union> {h}) b (addNode b1 n)" using extends_trans [OF e(1) addNode_extends [of n b1]] by simp
    moreover have "nodes_ok b \<Longrightarrow> nodes_ok b1" using e(1) by (simp add: extends_def)
    ultimately show ?thesis using 2 e(2) by (auto simp: addNode_ids)
  qed
  then show "extends (insert h bar_ids) b (addGateway b h)" "nodes_ok b \<Longrightarrow> h \<in> ids (addGateway b h)" by auto
qed

lemma addGateway_fold:
  "extends (set hs \<union> bar_ids) b (foldl addGateway b hs) \<and> (nodes_ok b \<longrightarrow> set hs \<subseteq> ids (foldl addGateway b hs))"
proof (induction hs arbitrary: b)
  case (Cons h hs)
  have e: "extends (insert h bar_ids \<union> (set hs \<union> bar_ids)) b (foldl addGateway (addGateway b h) hs)"
    using extends_trans [OF addGateway_extends] Cons.IH by blast
  have "nodes_ok b \<Longrightarrow> nodes_ok (addGateway b h) \<and> h \<in> ids (addGateway b h)"
    using addGateway_extends [of h b] addGateway_draws [of b h] by (simp add: extends_def)
  moreover have "nodes_ok (addGateway b h) \<Longrightarrow> ids (addGateway b h) \<subseteq> ids (foldl addGateway (addGateway b h) hs)"
    using Cons.IH [of "addGateway b h"] by (simp add: extends_def)
  ultimately show ?case using e Cons.IH [of "addGateway b h"] extends_mono [OF e, of "set (h # hs) \<union> bar_ids"] by auto
qed (simp add: extends_refl)

lemma addGateways_extends: "extends (set (gateway_hosts b) \<union> bar_ids) b (addGateways b)"
  and addGateways_draws: "nodes_ok b \<Longrightarrow> set (gateway_hosts b) \<subseteq> ids (addGateways b)"
  using addGateway_fold [of "gateway_hosts b" b] by (simp_all add: addGateways_def)

section \<open>What the peer rows draw\<close>

definition is_tunnel :: "builder \<Rightarrow> wg_peer \<Rightarrow> bool" where
  "is_tunnel b p \<longleftrightarrow> Lookup (b_endpoints b) (wp_PeerPubKey p) \<noteq> None"

definition local_key :: "builder \<Rightarrow> wg_peer \<Rightarrow> string" where
  "local_key b p = localPubKey b (wp_Host p) (wp_Iface p)"

definition edge_id_of :: "builder \<Rightarrow> wg_peer \<Rightarrow> string" where
  "edge_id_of b p = (if is_tunnel b p then TunnelEdgeID (local_key b p) (wp_PeerPubKey p) else external_edge_id p)"

definition strip where
  "strip e = (eg_ID e, eg_Source e, eg_Target e, eg_A e)"

definition drawn_by :: "builder \<Rightarrow> string set \<Rightarrow> wg_peer \<Rightarrow> string \<times> string \<times> string \<times> edgeSide option \<Rightarrow> bool" where
  "drawn_by b N p = (\<lambda>(i, src, dst, a). i = edge_id_of b p \<and>
     (case Lookup (b_endpoints b) (wp_PeerPubKey p) of
        Some far \<Rightarrow> src = canonicalHost b (wp_Host p) \<and> dst = canonicalHost b (fst far) \<and> a = Some (side_for p (local_key b p))
      | None \<Rightarrow> src = wp_Host p \<and> dst \<in> N \<and> a = None))"

definition tunnel_ids :: "edge list \<Rightarrow> string list" where
  "tunnel_ids es = map eg_ID (filter (\<lambda>e. eg_A e \<noteq> None) es)"

definition peers_ok :: "builder \<Rightarrow> wg_peer list \<Rightarrow> builder \<times> (string, bool) gomap \<Rightarrow> bool" where
  "peers_ok b0 ps = (\<lambda>(b, seen). frame b = frame b0 \<and> nodes_ok b \<and> ids b0 \<subseteq> ids b \<and> ids b \<subseteq> ids b0 \<union> bar_ids \<and>
     (\<forall>e \<in> set (b_edges b). \<exists>p \<in> set ps. drawn_by b0 (ids b) p (strip e)) \<and>
     (\<forall>p \<in> set ps. map_of (b_edgeFor b) (peer_tunnel_key p) = Some (edge_id_of b0 p) \<and> edge_id_of b0 p \<in> eg_ID ` set (b_edges b)) \<and>
     (\<forall>p \<in> set ps. \<not> is_tunnel b0 p \<longrightarrow> (\<exists>e \<in> set (b_edges b). drawn_by b0 (ids b) p (strip e))) \<and>
     (\<forall>i. is_true seen i \<longleftrightarrow> i \<in> set (tunnel_ids (b_edges b))) \<and> distinct (tunnel_ids (b_edges b)))"

lemma fill_first_strip: "map strip (fill_first i side es) = map strip es"
  by (induction es) (simp_all add: strip_def)

lemma strip_eqD:
  assumes "map strip es' = map strip es"
  shows "strip ` set es' = strip ` set es" "eg_ID ` set es' = eg_ID ` set es" "tunnel_ids es' = tunnel_ids es"
proof -
  show "strip ` set es' = strip ` set es" using assms by (metis list.set_map)
  have "map fst (map strip es') = map fst (map strip es)" using assms by simp
  then have "map eg_ID es' = map eg_ID es" by (simp add: strip_def comp_def)
  then show "eg_ID ` set es' = eg_ID ` set es" by (metis list.set_map)
  have t: "tunnel_ids es = map fst (filter (\<lambda>x. snd (snd (snd x)) \<noteq> None) (map strip es))" for es
    by (simp add: tunnel_ids_def filter_map comp_def strip_def)
  show "tunnel_ids es' = tunnel_ids es" using assms by (simp add: t)
qed

lemma drawn_by_mono: "drawn_by b M p t \<Longrightarrow> M \<subseteq> N \<Longrightarrow> drawn_by b N p t"
  by (auto simp: drawn_by_def split: option.splits)

lemma guessed_node_id: "nd_ID (guessed_node b p) \<in> bar_ids"
  by (simp add: guessed_node_def blank_node_def bar_ids_def Let_def split: option.split)

lemma externalNode_extends:
  assumes "externalNode b p = (b', n)"
  shows "extends bar_ids b b'" "nd_ID n \<in> bar_ids"
  using assms guessed_node_id [of b p]
  by (auto simp: externalNode_def extends_refl bar_ids_def dest: enrichEndpoint_extends split: option.splits)

lemma edge_id_of_key: "peer_tunnel_key q = peer_tunnel_key p \<Longrightarrow> edge_id_of b q = edge_id_of b p"
  by (simp add: peer_tunnel_key_def edge_id_of_def is_tunnel_def local_key_def external_edge_id_def)

lemma peers_ok_grow:
  assumes ok: "peers_ok b0 ps (b, seen)" and ext: "extends bar_ids b c"
    and b': "frame b' = frame c" "b_nodes b' = b_nodes c" "b_nodeSeen b' = b_nodeSeen c"
      "b_edgeFor b' = AList.update (peer_tunnel_key p) (edge_id_of b0 p) (b_edgeFor c)"
    and edges: "map strip (b_edges b') = map strip (b_edges b @ new)"
    and new: "\<forall>e \<in> set new. drawn_by b0 (ids c) p (strip e)"
    and has: "edge_id_of b0 p \<in> eg_ID ` set (b_edges b @ new)" "\<not> is_tunnel b0 p \<Longrightarrow> new \<noteq> []"
    and seen: "\<forall>i. is_true seen' i \<longleftrightarrow> i \<in> set (tunnel_ids (b_edges b @ new))" "distinct (tunnel_ids (b_edges b @ new))"
  shows "peers_ok b0 (ps @ [p]) (b', seen')"
proof -
  have ok': "frame b = frame b0" "nodes_ok b" "ids b0 \<subseteq> ids b" "ids b \<subseteq> ids b0 \<union> bar_ids"
    "\<And>e. e \<in> set (b_edges b) \<Longrightarrow> \<exists>p \<in> set ps. drawn_by b0 (ids b) p (strip e)"
    "\<And>q. q \<in> set ps \<Longrightarrow> map_of (b_edgeFor b) (peer_tunnel_key q) = Some (edge_id_of b0 q) \<and> edge_id_of b0 q \<in> eg_ID ` set (b_edges b)"
    "\<And>q. q \<in> set ps \<Longrightarrow> \<not> is_tunnel b0 q \<Longrightarrow> \<exists>e \<in> set (b_edges b). drawn_by b0 (ids b) q (strip e)"
    using ok by (auto simp: peers_ok_def)
  have c: "frame c = frame b" "nodes_ok c" "ids b \<subseteq> ids c" "ids c \<subseteq> ids b \<union> bar_ids" "b_edgeFor c = b_edgeFor b"
    using ext ok'(2) by (auto simp: extends_def)
  have ids: "ids b' = ids c" "nodes_ok b'" using b' c(2) by (auto simp: ids_def nodes_ok_def)
  note st = strip_eqD [OF edges]
  have "\<exists>q \<in> set (ps @ [p]). drawn_by b0 (ids b') q (strip e)" if "e \<in> set (b_edges b')" for e
  proof -
    from that st(1) obtain e' where "e' \<in> set (b_edges b @ new)" "strip e = strip e'" by (metis image_iff)
    with ok'(5) [of e'] new drawn_by_mono [OF _ c(3), of b0 _ "strip e'"] ids show ?thesis by auto
  qed
  moreover have "map_of (b_edgeFor b') (peer_tunnel_key q) = Some (edge_id_of b0 q) \<and> edge_id_of b0 q \<in> eg_ID ` set (b_edges b')"
    if "q \<in> set (ps @ [p])" for q
    using that ok'(6) [of q] has(1) b'(4) c(5) edge_id_of_key [of q p b0] unfolding st(2) by auto
  moreover have "\<exists>e \<in> set (b_edges b'). drawn_by b0 (ids b') q (strip e)" if q: "q \<in> set (ps @ [p])" "\<not> is_tunnel b0 q" for q
  proof -
    have "\<exists>e \<in> set (b_edges b @ new). drawn_by b0 (ids b') q (strip e)"
    proof (cases "q \<in> set ps")
      case True
      from ok'(7) [OF True q(2)] obtain e where "e \<in> set (b_edges b)" "drawn_by b0 (ids b) q (strip e)" by auto
      with drawn_by_mono [OF _ c(3), of b0 q "strip e"] ids(1) show ?thesis by auto
    next
      case False
      with q has(2) new ids(1) show ?thesis by (cases new) auto
    qed
    then obtain e where "e \<in> set (b_edges b @ new)" "drawn_by b0 (ids b') q (strip e)" by auto
    with st(1) show ?thesis by (metis imageE imageI)
  qed
  ultimately show ?thesis
    using ok'(1,3,4) c b'(1) ids seen [folded st(3)] by (auto simp: peers_ok_def)
qed

lemma drawn_tunnel:
  assumes "frame b = frame b0" "Lookup (b_endpoints b) (wp_PeerPubKey p) = Some far"
  shows "drawn_by b0 N p (strip (gateway_edge b p far))" "eg_ID (gateway_edge b p far) = edge_id_of b0 p"
    "eg_A (gateway_edge b p far) \<noteq> None" "TunnelEdgeID (localPubKey b (wp_Host p) (wp_Iface p)) (wp_PeerPubKey p) = edge_id_of b0 p"
  using assms(2) canonicalHost_cong [OF assms(1)] frame_fields [OF assms(1)]
  by (simp_all add: gateway_edge_def strip_def drawn_by_def edge_id_of_def is_tunnel_def local_key_def localPubKey_def Let_def)

lemma drawn_external:
  assumes "Lookup (b_endpoints b0) (wp_PeerPubKey p) = None" "i \<in> N"
  shows "drawn_by b0 N p (strip (external_edge p i))" "external_edge_id p = edge_id_of b0 p"
  using assms by (simp_all add: external_edge_def strip_def drawn_by_def edge_id_of_def is_tunnel_def)

lemma tunnel_ids_append [simp]: "tunnel_ids (es @ fs) = tunnel_ids es @ tunnel_ids fs"
  by (simp add: tunnel_ids_def)

lemma frame_set_edge_for [simp]: "frame (set_edge_for b p i) = frame b" "frame (b \<lparr>b_edges := es\<rparr>) = frame b"
  by (simp_all add: set_edge_for_def frame_def)

lemma set_edge_for_fields [simp]: "b_nodes (set_edge_for b p i) = b_nodes b" "b_nodeSeen (set_edge_for b p i) = b_nodeSeen b"
  "b_edges (set_edge_for b p i) = b_edges b" "b_edgeFor (set_edge_for b p i) = AList.update (peer_tunnel_key p) i (b_edgeFor b)"
  by (simp_all add: set_edge_for_def)

lemma peers_ok_step:
  assumes ok: "peers_ok b0 ps (b, seen)"
  shows "peers_ok b0 (ps @ [p]) (addPeerEdge (b, seen) p)"
proof (cases "Lookup (b_endpoints b) (wp_PeerPubKey p)")
  case None
  obtain b1 n where ext: "externalNode b p = (b1, n)" by (cases "externalNode b p")
  define c where "c = addNode b1 n"
  have e: "extends bar_ids b c"
    unfolding c_def by (rule extends_mono [OF extends_trans [OF externalNode_extends(1) [OF ext] addNode_extends]])
      (simp add: externalNode_extends(2) [OF ext])
  have f: "frame b = frame b0" "nodes_ok b" using ok by (simp_all add: peers_ok_def)
  then have n: "nd_ID n \<in> ids c"
    using externalNode_extends(1) [OF ext] addNode_ids [of b1 n] by (simp add: c_def extends_def)
  note d = drawn_external [OF _ n, of b0 p] and b0 = None [unfolded frame_fields(1) [OF f(1)]]
  have "addPeerEdge (b, seen) p = ((set_edge_for c p (external_edge_id p)) \<lparr>b_edges := b_edges c @ [external_edge p (nd_ID n)]\<rparr>, seen)"
    using None ext by (simp add: addPeerEdge_def c_def Let_def)
  moreover have "b_edges c = b_edges b" using e by (simp add: extends_def)
  moreover have "tunnel_ids [external_edge p (nd_ID n)] = []" by (simp add: tunnel_ids_def external_edge_def)
  ultimately show ?thesis
    using peers_ok_grow [OF ok e, of "(set_edge_for c p (external_edge_id p)) \<lparr>b_edges := b_edges b @ [external_edge p (nd_ID n)]\<rparr>"
        p "[external_edge p (nd_ID n)]" seen] d b0 ok
    by (simp add: peers_ok_def external_edge_def is_tunnel_def)
next
  case (Some far)
  have f: "frame b = frame b0" using ok by (simp add: peers_ok_def)
  note d = drawn_tunnel [OF f Some]
  let ?i = "edge_id_of b0 p" and ?b = "set_edge_for b p (edge_id_of b0 p)"
  have fb: "frame ?b = frame b0" "Lookup (b_endpoints ?b) (wp_PeerPubKey p) = Some far" using f Some frame_fields(1) [OF frame_set_edge_for(1)]
    by simp_all
  show ?thesis
  proof (cases "is_true seen ?i")
    case True
    have "addPeerEdge (b, seen) p = (fillEdgeSide ?b ?i p (localPubKey b (wp_Host p) (wp_Iface p)), seen)"
      using Some True by (simp add: addPeerEdge_def Let_def d(4))
    moreover have "?i \<in> eg_ID ` set (b_edges b)" using True ok by (auto simp: peers_ok_def tunnel_ids_def)
    ultimately show ?thesis using ok True
        peers_ok_grow [OF ok extends_refl, of "fillEdgeSide ?b ?i p (localPubKey b (wp_Host p) (wp_Iface p))" p "[]" seen]
        fb(2)[unfolded frame_fields(1) [OF fb(1)]]
      by (simp add: fillEdgeSide_def fill_first_strip peers_ok_def is_tunnel_def)
  next
    case False
    have "addPeerEdge (b, seen) p = (?b \<lparr>b_edges := b_edges b @ [gateway_edge ?b p far]\<rparr>, AList.update ?i True seen)"
      using Some False by (simp add: addPeerEdge_def Let_def d(4))
    moreover have "tunnel_ids [gateway_edge ?b p far] = [?i]" using drawn_tunnel(2,3) [OF fb] by (simp add: tunnel_ids_def)
    ultimately show ?thesis using ok False drawn_tunnel(1,2) [OF fb]
        peers_ok_grow [OF ok extends_refl, of "?b \<lparr>b_edges := b_edges b @ [gateway_edge ?b p far]\<rparr>" p "[gateway_edge ?b p far]"
          "AList.update ?i True seen"]
      by (auto simp: peers_ok_def)
  qed
qed

lemma peers_ok_fold: "peers_ok b0 ps (b, seen) \<Longrightarrow> peers_ok b0 (ps @ qs) (foldl addPeerEdge (b, seen) qs)"
proof (induction qs arbitrary: ps b seen)
  case (Cons q qs)
  obtain b1 s1 where 1: "addPeerEdge (b, seen) q = (b1, s1)" by (cases "addPeerEdge (b, seen) q")
  with peers_ok_step [OF Cons.prems, of q] Cons.IH [of "ps @ [q]" b1 s1] show ?case by simp
qed simp

lemma addPeerEdges_ok:
  assumes "nodes_ok b" "b_edges b = []"
  obtains seen where "peers_ok b (sort_key peer_tunnel_key (b_peers b)) (addPeerEdges b, seen)"
proof -
  have "peers_ok b [] (b, [])" using assms by (simp add: peers_ok_def tunnel_ids_def is_true_def)
  from peers_ok_fold [OF this, of "sort_key peer_tunnel_key (b_peers b)"] show ?thesis
    using that by (cases "foldl addPeerEdge (b, []) (sort_key peer_tunnel_key (b_peers b))") (simp add: addPeerEdges_def)
qed

section \<open>Canonical names\<close>

definition start where
  "start ifaces peers servers annotations entities relations =
     (newBuilder ifaces peers servers annotations) \<lparr>b_entities := entities, b_relations := relations\<rparr>"

definition iface_entry :: "wg_interface_row \<Rightarrow> wg_iface" where
  "iface_entry i = \<lparr>if_Name = wi_Iface i, if_Port = wi_ListenPort i, if_PubKey = wi_PublicKey i\<rparr>"

lemma index_iface_slice:
  "slice_of (foldl index_iface m ifaces) h = slice_of m h @ map iface_entry (filter (\<lambda>i. wi_Host i = h) ifaces)"
  by (induction ifaces arbitrary: m) (auto simp: index_iface_def iface_entry_def)

lemma slice_of_map: "f [] = [] \<Longrightarrow> slice_of (map (\<lambda>(h, is). (h, f is)) m) h = f (slice_of m h)"
  by (induction m) (auto simp: slice_of_def split: option.splits if_splits)

lemma gwHosts_fold:
  "is_true (foldl (\<lambda>m i. AList.update (wi_Host i) True m) m ifaces) h \<longleftrightarrow> is_true m h \<or> h \<in> wi_Host ` set ifaces"
  "fst ` set (foldl (\<lambda>m i. AList.update (wi_Host i) True m) m ifaces) = fst ` set m \<union> wi_Host ` set ifaces"
  by (induction ifaces arbitrary: m) (auto simp: dom_update)

lemma start_fields:
  "b_endpoints (start ifaces ps ss as es rs) = BuildEndpointIndex ifaces"
  "slice_of (b_ifByHost (start ifaces ps ss as es rs)) h = sort_key if_Name (map iface_entry (filter (\<lambda>i. wi_Host i = h) ifaces))"
  "fst ` set (b_gwHosts (start ifaces ps ss as es rs)) = wi_Host ` set ifaces"
  "b_ifaces (start ifaces ps ss as es rs) = ifaces" "b_peers (start ifaces ps ss as es rs) = ps"
  "b_entities (start ifaces ps ss as es rs) = es" "b_relations (start ifaces ps ss as es rs) = rs"
  "b_edges (start ifaces ps ss as es rs) = []" "b_nodes (start ifaces ps ss as es rs) = []"
  "b_nodeSeen (start ifaces ps ss as es rs) = []" "b_edgeFor (start ifaces ps ss as es rs) = []"
  by (simp_all add: start_def newBuilder_def Let_def slice_of_map index_iface_slice gwHosts_fold split: prod.splits)

lemma start_ok: "nodes_ok (start ifaces ps ss as es rs)" "ids (start ifaces ps ss as es rs) = {}"
  by (simp_all add: nodes_ok_def ids_def start_fields is_true_def)

definition owner_of :: "builder \<Rightarrow> wg_iface \<Rightarrow> string option" where
  "owner_of b i = map_option fst (Lookup (b_endpoints b) (if_PubKey i))"

lemma canon_loop_cases:
  "canon_loop b host canon is = host \<or>
   (canon_loop b host canon is \<noteq> [] \<and> (canon \<noteq> [] \<longrightarrow> canon_loop b host canon is = canon) \<and>
    (\<forall>i \<in> set is. owner_of b i \<in> {Some [], Some (canon_loop b host canon is)}) \<and>
    (canon = [] \<longrightarrow> (\<exists>i \<in> set is. owner_of b i = Some (canon_loop b host canon is))))"
proof (induction "is" arbitrary: canon)
  case (Cons i "is")
  show ?case
  proof (cases "Lookup (b_endpoints b) (if_PubKey i)")
    case (Some r)
    then have "owner_of b i = Some (fst r)" by (simp add: owner_of_def)
    then show ?thesis using Cons.IH [of canon] Cons.IH [of "fst r"] Some
      by (cases "canon = []"; cases "fst r = []") auto
  qed simp
qed simp

lemma Lookup_host:
  assumes "Lookup (BuildEndpointIndex ifaces) key = Some r"
  shows "\<exists>i \<in> set ifaces. wi_PublicKey i = key \<and> wi_Host i = fst r"
proof -
  from assms have "rows_of ifaces key \<noteq> []" "r = host_iface (hd (rows_of ifaces key))"
    by (auto simp: index_lookup split: if_splits)
  then have "hd (rows_of ifaces key) \<in> set ifaces" "wi_PublicKey (hd (rows_of ifaces key)) = key"
    using rows_of_set [of ifaces key] hd_in_set by blast+
  with \<open>r = _\<close> show ?thesis by (auto simp: host_iface_def)
qed

lemma Lookup_None: "Lookup (BuildEndpointIndex ifaces) key = None \<longleftrightarrow> key \<notin> wi_PublicKey ` set ifaces"
  unfolding index_lookup(1) using rows_of_set [of ifaces key] by (auto simp flip: set_empty)

lemma canonical_stable:
  fixes ifaces ps ss as es rs
  defines "b \<equiv> start ifaces ps ss as es rs"
  shows "canonicalHost b (canonicalHost b h) = canonicalHost b h"
    and "canonicalHost b h \<noteq> h \<Longrightarrow> canonicalHost b h \<in> wi_Host ` set ifaces"
proof -
  let ?ifs = "slice_of (b_ifByHost b)" and ?c = "canonicalHost b h"
  have "canonicalHost b ?c = ?c \<and> ?c \<in> wi_Host ` set ifaces" if "?c \<noteq> h"
  proof -
    have c: "?c = canon_loop b h [] (?ifs h)" using that by (auto simp: canonicalHost_def Let_def split: if_splits)
    with that canon_loop_cases [of b h "[]" "?ifs h"] obtain i where "?c \<noteq> []" "owner_of b i = Some ?c" by auto
    then obtain r where i: "?c \<noteq> []" "Lookup (b_endpoints b) (if_PubKey i) = Some r" "fst r = ?c"
      unfolding owner_of_def by blast
    from Lookup_host [of ifaces "if_PubKey i" r] i obtain q where
      q: "q \<in> set ifaces" "wi_PublicKey q = if_PubKey i" "wi_Host q = ?c" by (auto simp: b_def start_fields)
    then have mem: "iface_entry q \<in> set (?ifs ?c)" by (simp add: b_def start_fields)
    then have d: "canonicalHost b ?c = canon_loop b ?c [] (?ifs ?c)" by (auto simp: canonicalHost_def Let_def)
    have "owner_of b (iface_entry q) = Some ?c" using q i by (simp add: iface_entry_def owner_of_def)
    with canon_loop_cases [of b ?c "[]" "?ifs ?c"] mem i(1) have "canon_loop b ?c [] (?ifs ?c) = ?c" by fastforce
    moreover have "?c \<in> wi_Host ` set ifaces" using q(1,3) by (metis imageI)
    ultimately show ?thesis using d by auto
  qed
  then show "canonicalHost b ?c = ?c" "?c \<noteq> h \<Longrightarrow> ?c \<in> wi_Host ` set ifaces" by (cases "?c = h"; simp)+
qed

lemma canonical_is_drawn:
  fixes ifaces ps ss as es rs
  defines "b \<equiv> start ifaces ps ss as es rs"
  assumes "h \<in> wi_Host ` set ifaces"
  shows "canonicalHost b h \<in> set (gateway_hosts b)"
proof -
  have "canonicalHost b h \<in> wi_Host ` set ifaces" using canonical_stable(2) [of ifaces ps ss as es rs h] assms by (auto simp: b_def)
  then have "canonicalHost b h \<in> fst ` set (b_gwHosts b)" by (simp add: b_def start_fields)
  then show ?thesis using canonical_stable(1) [of ifaces ps ss as es rs h] by (simp add: gateway_hosts_def b_def)
qed

section \<open>The whole build\<close>

definition drawn where
  "drawn ifaces peers servers annotations entities relations =
     addPeerEdges (addGateways (start ifaces peers servers annotations entities relations))"

lemma BuildWithDeclared_phases:
  "BuildWithDeclared ifaces peers servers annotations entities relations =
    (let b = addDeclared (addLinks (addAggregates (drawn ifaces peers servers annotations entities relations))) in
     (\<lparr>tp_Nodes = b_nodes b, tp_Edges = b_edges b, tp_Aggs = b_aggs b, tp_Links = b_links b, tp_Vips = [],
       tp_Derived = (if entities \<noteq> [] \<or> relations \<noteq> [] then Some (Derive (b_nodes b) (b_links b)) else None),
       tp_CollectedAt = CollectedAt ifaces\<rparr>, b_edgeFor b))"
  by (simp add: BuildWithDeclared_def drawn_def start_def)

lemma later_phases:
  "b_nodes (addLinks (addAggregates b)) = b_nodes b" "b_nodeSeen (addLinks (addAggregates b)) = b_nodeSeen b"
  "b_edges (addLinks (addAggregates b)) = b_edges b" "b_edgeFor (addLinks (addAggregates b)) = b_edgeFor b"
  "frame (addLinks (addAggregates b)) = frame b" "ids (addLinks (addAggregates b)) = ids b"
  "nodes_ok (addLinks (addAggregates b)) = nodes_ok b"
  by (simp_all add: addLinks_def addAggregates_def frame_def ids_def nodes_ok_def Let_def split: prod.splits)

lemma update_node_extends:
  assumes "\<And>n. nd_ID (f n) = nd_ID n"
  shows "extends {} b (update_node b i f)"
proof -
  have "map nd_ID ((b_nodes b)[i := f (b_nodes b ! i)]) = map nd_ID (b_nodes b)"
    by (cases "i < length (b_nodes b)") (simp_all add: map_update assms list_update_beyond list_update_same_conv)
  then have "map nd_ID (b_nodes (update_node b i f)) = map nd_ID (b_nodes b)" by (simp add: update_node_def)
  moreover from this have "ids (update_node b i f) = ids b" unfolding ids_def by (metis list.set_map)
  ultimately show ?thesis by (simp add: extends_def frame_def nodes_ok_def update_node_def)
qed

lemma reconcileDeclared_extends: "reconcileDeclared b e byID eh = Some (b', i) \<Longrightarrow> extends {} b b'"
  by (auto simp: reconcileDeclared_def reconcileDeclaredHost_def reconcileDeclaredVM_def enrich_declared_def extends_refl Let_def
      intro!: update_node_extends split: if_splits option.splits)

lemma alias_entity_extends: "alias_entity eh (b, byID, al) e = (b', byID', al') \<Longrightarrow> extends UNIV b b'"
proof (cases "reconcileDeclared b e byID eh")
  case None
  moreover assume "alias_entity eh (b, byID, al) e = (b', byID', al')"
  ultimately have "b' = addNode b (declaredNode e)" by (simp add: alias_entity_def Let_def)
  then show ?thesis using extends_mono [OF addNode_extends] by simp
next
  case (Some x)
  moreover assume "alias_entity eh (b, byID, al) e = (b', byID', al')"
  ultimately show ?thesis
    using extends_mono [OF reconcileDeclared_extends] by (cases x) (simp add: alias_entity_def)
qed

lemma alias_fold_extends: "foldl (alias_entity eh) (b, byID, al) es = (b', byID', al') \<Longrightarrow> extends UNIV b b'"
proof (induction es arbitrary: b byID al)
  case (Cons e es)
  obtain b1 x1 a1 where 1: "alias_entity eh (b, byID, al) e = (b1, x1, a1)" by (cases "alias_entity eh (b, byID, al) e")
  from extends_trans [OF alias_entity_extends [OF 1] Cons.IH [of b1 x1 a1]] Cons.prems 1 show ?case by simp
qed (simp add: extends_refl)

lemma addDeclared_extends: "extends UNIV b (addDeclared b)"
proof (cases "b_entities b = [] \<and> b_relations b = []")
  case False
  let ?b1 = "b \<lparr>b_nodes := map layered (b_nodes b)\<rparr>"
  have "nd_ID \<circ> layered = nd_ID" by (auto simp: layered_def)
  then have 1: "extends UNIV b ?b1" by (simp add: extends_def frame_def nodes_ok_def ids_def image_comp)
  obtain b2 x al where 2: "aliasDeclaredEntities ?b1 (snd (layerCollectedNodes b)) (annotatedHostNodes ?b1) = (b2, x, al)"
    by (cases "aliasDeclaredEntities ?b1 (snd (layerCollectedNodes b)) (annotatedHostNodes ?b1)")
  have "extends UNIV b2 (addDeclaredRelations b2 al)"
    by (auto simp: extends_def addDeclaredRelations_def frame_def nodes_ok_def ids_def Let_def)
  moreover have "addDeclared b = addDeclaredRelations b2 al"
    using False 2 unfolding addDeclared_def layerCollectedNodes_def by auto
  ultimately show ?thesis
    using extends_trans [OF extends_trans [OF 1 alias_fold_extends [OF 2 [unfolded aliasDeclaredEntities_def]]]] by simp
qed (simp add: addDeclared_def extends_refl)

lemma drawn_ok:
  fixes ifaces ps ss as es rs
  defines "b \<equiv> start ifaces ps ss as es rs" and "d \<equiv> drawn ifaces ps ss as es rs"
  shows "\<exists>seen. peers_ok (addGateways b) (sort_key peer_tunnel_key ps) (d, seen)"
    and "set (gateway_hosts b) \<subseteq> ids d" "ids d \<subseteq> set (gateway_hosts b) \<union> bar_ids" "nodes_ok d" "frame d = frame b"
    and "frame (addGateways b) = frame b"
proof -
  have g: "frame (addGateways b) = frame b" "b_edges (addGateways b) = []" "nodes_ok (addGateways b)"
    "ids (addGateways b) \<subseteq> set (gateway_hosts b) \<union> bar_ids"
    using addGateways_extends [of b] start_ok [of ifaces ps ss as es rs] start_fields(8) [of ifaces ps ss as es rs]
    unfolding extends_def b_def by auto
  then show "frame (addGateways b) = frame b" by simp
  from addPeerEdges_ok [OF g(3,2)] obtain seen where
    p: "peers_ok (addGateways b) (sort_key peer_tunnel_key (b_peers (addGateways b))) (d, seen)"
    by (metis d_def drawn_def b_def)
  moreover have "b_peers (addGateways b) = ps" using frame_fields(4) [OF g(1)] start_fields(5) by (simp add: b_def)
  ultimately show "\<exists>seen. peers_ok (addGateways b) (sort_key peer_tunnel_key ps) (d, seen)" by auto
  from p have i: "ids (addGateways b) \<subseteq> ids d" "ids d \<subseteq> ids (addGateways b) \<union> bar_ids" "nodes_ok d" "frame d = frame b"
    using g(1) by (auto simp: peers_ok_def)
  then show "nodes_ok d" "frame d = frame b" by simp_all
  have "nodes_ok b" using start_ok(1) by (simp add: b_def)
  from addGateways_draws [OF this] i show "set (gateway_hosts b) \<subseteq> ids d" by auto
  from g(4) i show "ids d \<subseteq> set (gateway_hosts b) \<union> bar_ids" by auto
qed

text \<open>No two nodes of the built graph share an identifier, with or without a declared topology laid
  over the collected one: a declaration that names a collected object is folded onto its node.\<close>

theorem node_ids_unique:
  "distinct (map nd_ID (tp_Nodes (fst (BuildWithDeclared ifaces peers servers annotations entities relations))))"
proof -
  let ?d = "addLinks (addAggregates (drawn ifaces peers servers annotations entities relations))"
  have "nodes_ok ?d" using drawn_ok(4) by (simp add: later_phases)
  then have "nodes_ok (addDeclared ?d)" using addDeclared_extends [of ?d] by (simp add: extends_def)
  then show ?thesis by (simp add: BuildWithDeclared_phases nodes_ok_def Let_def)
qed

lemma build_edges:
  fixes ifaces peers servers annotations entities relations
  defines "g \<equiv> BuildWithDeclared ifaces peers servers annotations entities relations"
    and "d \<equiv> drawn ifaces peers servers annotations entities relations"
  shows "tp_Edges (fst g) = b_edges d" "snd g = b_edgeFor d" "ids d \<subseteq> nd_ID ` set (tp_Nodes (fst g))"
proof -
  have "extends UNIV (addLinks (addAggregates d)) (addDeclared (addLinks (addAggregates d)))" by (rule addDeclared_extends)
  moreover have "nodes_ok d" using drawn_ok(4) by (simp add: d_def)
  ultimately have "b_edges (addDeclared (addLinks (addAggregates d))) = b_edges d"
    "b_edgeFor (addDeclared (addLinks (addAggregates d))) = b_edgeFor d" "ids d \<subseteq> ids (addDeclared (addLinks (addAggregates d)))"
    by (simp_all add: extends_def later_phases)
  then show "tp_Edges (fst g) = b_edges d" "snd g = b_edgeFor d" "ids d \<subseteq> nd_ID ` set (tp_Nodes (fst g))"
    by (simp_all add: g_def d_def BuildWithDeclared_phases ids_def Let_def)
qed

lemma start_views:
  assumes "frame b = frame (start ifaces peers servers annotations entities relations)"
  shows "canonicalHost b h = canonicalHost (newBuilder ifaces peers servers annotations) h"
    "local_key b p = localPubKey (newBuilder ifaces peers servers annotations) (wp_Host p) (wp_Iface p)"
    "b_endpoints b = BuildEndpointIndex ifaces"
proof -
  let ?s = "start ifaces peers servers annotations entities relations" and ?n = "newBuilder ifaces peers servers annotations"
  have n: "b_endpoints ?s = b_endpoints ?n" "b_ifByHost ?s = b_ifByHost ?n" "b_ifaces ?s = b_ifaces ?n" by (simp_all add: start_def)
  show "canonicalHost b h = canonicalHost ?n h"
    unfolding canonicalHost_cong [OF assms] using n canon_loop_cong [OF n(1)] by (simp add: canonicalHost_def Let_def)
  show "local_key b p = localPubKey ?n (wp_Host p) (wp_Iface p)" "b_endpoints b = BuildEndpointIndex ifaces"
    using frame_fields(1,5) [OF assms] n start_fields(1) by (simp_all add: local_key_def localPubKey_def)
qed

text \<open>What the edges of the graph are: the rows that drew them, over the indices of the builder.\<close>

lemma build_edge_rows:
  fixes ifaces peers servers annotations entities relations
  defines "g \<equiv> BuildWithDeclared ifaces peers servers annotations entities relations"
    and "d \<equiv> drawn ifaces peers servers annotations entities relations"
    and "b \<equiv> start ifaces peers servers annotations entities relations"
  obtains b0 where "frame b0 = frame b"
    "\<And>e. e \<in> set (tp_Edges (fst g)) \<Longrightarrow> \<exists>p \<in> set peers. drawn_by b0 (ids d) p (strip e)"
    "\<And>p. p \<in> set peers \<Longrightarrow> map_of (snd g) (peer_tunnel_key p) = Some (edge_id_of b0 p)"
    "\<And>p. p \<in> set peers \<Longrightarrow> edge_id_of b0 p \<in> eg_ID ` set (tp_Edges (fst g))"
    "\<And>p. p \<in> set peers \<Longrightarrow> \<not> is_tunnel b0 p \<Longrightarrow> \<exists>e \<in> set (tp_Edges (fst g)). drawn_by b0 (ids d) p (strip e)"
    "distinct (tunnel_ids (tp_Edges (fst g)))"
proof -
  note e = build_edges(1,2) [of ifaces peers servers annotations entities relations, folded g_def d_def]
  from drawn_ok(1) obtain seen where "peers_ok (addGateways b) (sort_key peer_tunnel_key peers) (d, seen)"
    unfolding d_def b_def by blast
  with that [of "addGateways b"] drawn_ok(6) [of ifaces peers servers annotations entities relations] show ?thesis
    unfolding e peers_ok_def b_def by simp
qed

text \<open>C12: When every peer row was collected on a host with collected interfaces, no tunnel edge dangles: both
  ends of a gateway-to-gateway edge are nodes of the graph, whichever alias the row was collected under,
  and the far end of every edge is a node. The near end of an edge to an external peer is a node when
  the row's host is its own canonical name.\<close>

theorem tunnel_edges_never_dangle:
  assumes "wp_Host ` set peers \<subseteq> wi_Host ` set ifaces"
    and "e \<in> set (tp_Edges (fst (BuildWithDeclared ifaces peers servers annotations entities relations)))"
  shows "eg_Target e \<in> nd_ID ` set (tp_Nodes (fst (BuildWithDeclared ifaces peers servers annotations entities relations))) \<and>
    (eg_A e \<noteq> None \<or> canonicalHost (newBuilder ifaces peers servers annotations) (eg_Source e) = eg_Source e \<longrightarrow>
     eg_Source e \<in> nd_ID ` set (tp_Nodes (fst (BuildWithDeclared ifaces peers servers annotations entities relations))))"
proof -
  let ?b = "start ifaces peers servers annotations entities relations"
  let ?d = "drawn ifaces peers servers annotations entities relations"
  from build_edge_rows [of ifaces peers servers annotations entities relations] assms(2) obtain b0 p where
    f: "frame b0 = frame ?b" and p: "p \<in> set peers" "drawn_by b0 (ids ?d) p (strip e)" by metis
  note v = start_views [OF f]
  have node: "canonicalHost b0 h \<in> ids ?d" if "h \<in> wi_Host ` set ifaces" for h
    using canonical_is_drawn [OF that] drawn_ok(2) canonicalHost_cong [OF f] by fastforce
  have h: "wp_Host p \<in> wi_Host ` set ifaces" using p(1) assms(1) by auto
  have "eg_Target e \<in> ids ?d \<and> (eg_A e \<noteq> None \<or> canonicalHost b0 (eg_Source e) = eg_Source e \<longrightarrow> eg_Source e \<in> ids ?d)"
  proof (cases "Lookup (b_endpoints b0) (wp_PeerPubKey p)")
    case None
    with p(2) node [OF h] show ?thesis by (auto simp: drawn_by_def strip_def)
  next
    case (Some far)
    with v(3) Lookup_host [of ifaces _ far] have "\<exists>i \<in> set ifaces. wi_Host i = fst far" by auto
    then have "fst far \<in> wi_Host ` set ifaces" by (metis imageI)
    with Some p(2) node [OF h] node [of "fst far"] show ?thesis by (auto simp: drawn_by_def strip_def)
  qed
  with build_edges(3) [of ifaces peers servers annotations entities relations] v(1) show ?thesis by auto
qed

definition key_row :: "string \<Rightarrow> string \<Rightarrow> string \<Rightarrow> wg_interface_row" where
  "key_row host iface key = \<lparr>wi_Host = host, wi_Iface = iface, wi_ListenPort = 51820, wi_PublicKey = key, wi_Fwmark = 0,
     wi_Address = [''10.0.0.1/24''], wi_CollectedAt = 1\<rparr>"

definition peer_row :: "string \<Rightarrow> string \<Rightarrow> string \<Rightarrow> wg_peer" where
  "peer_row host iface key = \<lparr>wp_Host = host, wp_Iface = iface, wp_PeerPubKey = key, wp_Endpoint = [],
     wp_AllowedIPs = [], wp_Keepalive = 0, wp_Label = []\<rparr>"

theorem tunnel_edges_never_dangle_witness:
  "\<exists>e \<in> set (tp_Edges (fst (BuildWithDeclared (key_row ''c'' ''wg0'' ''C'' # vip_rows) [peer_row ''srv-49'' ''wg1'' ''C''] [] [] [] []))).
     eg_Source e = ''lb'' \<and> eg_Target e = ''c'' \<and>
     eg_Target e \<in> nd_ID ` set (tp_Nodes (fst (BuildWithDeclared (key_row ''c'' ''wg0'' ''C'' # vip_rows)
       [peer_row ''srv-49'' ''wg1'' ''C''] [] [] [] []))) \<and>
     eg_Source e \<in> nd_ID ` set (tp_Nodes (fst (BuildWithDeclared (key_row ''c'' ''wg0'' ''C'' # vip_rows)
       [peer_row ''srv-49'' ''wg1'' ''C''] [] [] [] [])))"
proof -
  let ?i = "key_row ''c'' ''wg0'' ''C'' # vip_rows" and ?p = "[peer_row ''srv-49'' ''wg1'' ''C'']"
  let ?e = "\<lparr>eg_ID = ''gw|C|K'', eg_Source = ''lb'', eg_Target = ''c'', eg_Iface = ''wg1'', eg_Allowed = [],
    eg_A = Some \<lparr>sd_Host = ''srv-49'', sd_Iface = ''wg1'', sd_PubKey = ''K'', sd_Allowed = []\<rparr>, eg_B = None,
    eg_TargetSeenAs = [], eg_Conflict = False\<rparr>"
  have "tp_Edges (fst (BuildWithDeclared ?i ?p [] [] [] [])) = [?e]" by code_simp
  moreover have "wp_Host ` set ?p \<subseteq> wi_Host ` set ?i" by (simp add: peer_row_def key_row_def vip_rows_def)
  ultimately show ?thesis using tunnel_edges_never_dangle [of ?p ?i ?e "[]" "[]" "[]" "[]"] by simp
qed

lemma TunnelEdgeID_sym: "TunnelEdgeID a b = TunnelEdgeID b a"
  by (auto simp: TunnelEdgeID_def)

text \<open>One tunnel is one edge. The identifiers of the gateway-to-gateway edges are pairwise different; every
  collected peer row is attributed to an edge of the graph; and the two rows that see one tunnel from
  its two ends, each naming the key of the other's interface, are attributed to the same edge,
  whatever their interfaces are called.\<close>

theorem tunnel_is_one_edge:
  "distinct (map eg_ID (filter (\<lambda>e. eg_A e \<noteq> None) (tp_Edges (fst (BuildWithDeclared ifaces peers servers annotations entities relations))))) \<and>
   (\<forall>p \<in> set peers. \<exists>e \<in> set (tp_Edges (fst (BuildWithDeclared ifaces peers servers annotations entities relations))).
      map_of (snd (BuildWithDeclared ifaces peers servers annotations entities relations)) (peer_tunnel_key p) = Some (eg_ID e)) \<and>
   (\<forall>p \<in> set peers. \<forall>q \<in> set peers.
      wp_PeerPubKey p = localPubKey (newBuilder ifaces peers servers annotations) (wp_Host q) (wp_Iface q) \<and>
      wp_PeerPubKey q = localPubKey (newBuilder ifaces peers servers annotations) (wp_Host p) (wp_Iface p) \<and>
      {wp_PeerPubKey p, wp_PeerPubKey q} \<subseteq> wi_PublicKey ` set ifaces \<longrightarrow>
      map_of (snd (BuildWithDeclared ifaces peers servers annotations entities relations)) (peer_tunnel_key p) =
      map_of (snd (BuildWithDeclared ifaces peers servers annotations entities relations)) (peer_tunnel_key q))"
  (is "?distinct \<and> ?mapped \<and> (\<forall>p \<in> _. \<forall>q \<in> _. ?ends p q \<longrightarrow> ?for p = ?for q)")
proof -
  let ?g = "BuildWithDeclared ifaces peers servers annotations entities relations"
  from build_edge_rows [of ifaces peers servers annotations entities relations] obtain b0 where
    f: "frame b0 = frame (start ifaces peers servers annotations entities relations)"
    and m: "\<And>p. p \<in> set peers \<Longrightarrow> map_of (snd ?g) (peer_tunnel_key p) = Some (edge_id_of b0 p)"
    and e: "\<And>p. p \<in> set peers \<Longrightarrow> edge_id_of b0 p \<in> eg_ID ` set (tp_Edges (fst ?g))"
    and d: "distinct (tunnel_ids (tp_Edges (fst ?g)))" by metis
  note v = start_views [OF f]
  have "?for p = ?for q" if "p \<in> set peers" "q \<in> set peers" "?ends p q" for p q
  proof -
    have "is_tunnel b0 p" "is_tunnel b0 q"
      unfolding is_tunnel_def v(3) Lookup_None using that(3) by blast+
    moreover have "local_key b0 p = wp_PeerPubKey q" "local_key b0 q = wp_PeerPubKey p" using that(3) by (simp_all add: v(2))
    ultimately have "edge_id_of b0 p = edge_id_of b0 q" by (simp add: edge_id_of_def TunnelEdgeID_sym)
    then show ?thesis using m that(1,2) by simp
  qed
  moreover have ?mapped
  proof
    fix p assume p: "p \<in> set peers"
    then obtain x where "x \<in> set (tp_Edges (fst ?g))" "edge_id_of b0 p = eg_ID x" using e by blast
    with m [OF p] show "\<exists>e \<in> set (tp_Edges (fst ?g)). map_of (snd ?g) (peer_tunnel_key p) = Some (eg_ID e)" by auto
  qed
  ultimately show ?thesis using d unfolding tunnel_ids_def by blast
qed

theorem tunnel_is_one_edge_witness:
  "let i = [key_row ''a'' ''wg3'' ''KA'', key_row ''b'' ''wg0'' ''KB'']; p = peer_row ''a'' ''wg3'' ''KB''; q = peer_row ''b'' ''wg0'' ''KA'' in
   map_of (snd (BuildWithDeclared i [p, q] [] [] [] [])) (peer_tunnel_key p) = Some ''gw|KA|KB'' \<and>
   map_of (snd (BuildWithDeclared i [p, q] [] [] [] [])) (peer_tunnel_key q) = Some ''gw|KA|KB''"
proof -
  let ?i = "[key_row ''a'' ''wg3'' ''KA'', key_row ''b'' ''wg0'' ''KB'']"
  let ?p = "peer_row ''a'' ''wg3'' ''KB''" and ?q = "peer_row ''b'' ''wg0'' ''KA''"
  have k: "localPubKey (newBuilder ?i [?p, ?q] [] []) ''a'' ''wg3'' = ''KA''" "localPubKey (newBuilder ?i [?p, ?q] [] []) ''b'' ''wg0'' = ''KB''"
    by (code_simp, code_simp)
  have "map_of (snd (BuildWithDeclared ?i [?p, ?q] [] [] [] [])) (peer_tunnel_key ?p) = Some ''gw|KA|KB''" by code_simp
  moreover have "map_of (snd (BuildWithDeclared ?i [?p, ?q] [] [] [] [])) (peer_tunnel_key ?p) =
      map_of (snd (BuildWithDeclared ?i [?p, ?q] [] [] [] [])) (peer_tunnel_key ?q)"
  proof (rule tunnel_is_one_edge [THEN conjunct2, THEN conjunct2, THEN bspec, THEN bspec, THEN mp])
    have "wp_PeerPubKey ?p = ''KB''" "wp_PeerPubKey ?q = ''KA''" "wp_Host ?p = ''a''" "wp_Iface ?p = ''wg3''"
      "wp_Host ?q = ''b''" "wp_Iface ?q = ''wg0''" "wi_PublicKey ` set ?i = {''KA'', ''KB''}"
      by (simp_all add: peer_row_def key_row_def)
    with k show "wp_PeerPubKey ?p = localPubKey (newBuilder ?i [?p, ?q] [] []) (wp_Host ?q) (wp_Iface ?q) \<and>
        wp_PeerPubKey ?q = localPubKey (newBuilder ?i [?p, ?q] [] []) (wp_Host ?p) (wp_Iface ?p) \<and>
        {wp_PeerPubKey ?p, wp_PeerPubKey ?q} \<subseteq> wi_PublicKey ` set ?i" by (simp only:) simp
  qed simp_all
  ultimately show ?thesis by (simp add: Let_def)
qed

text \<open>An external peer collected on an alias dangles. When a host is drawn under another canonical name, the
  edge of each of its external peers still starts at the alias, which is no node of the graph: the
  correction applied to tunnel edges is missing there.\<close>

theorem alias_external_edge_dangles:
  assumes "p \<in> set peers" "wp_PeerPubKey p \<notin> wi_PublicKey ` set ifaces"
    and "canonicalHost (newBuilder ifaces peers servers annotations) (wp_Host p) \<noteq> wp_Host p" "CHR ''|'' \<notin> set (wp_Host p)"
  shows "\<exists>e \<in> set (tp_Edges (fst (Build ifaces peers servers annotations))). eg_Source e = wp_Host p \<and>
    wp_Host p \<notin> nd_ID ` set (tp_Nodes (fst (Build ifaces peers servers annotations)))"
proof -
  let ?g = "BuildWithDeclared ifaces peers servers annotations [] []"
  from build_edge_rows [of ifaces peers servers annotations "[]" "[]"] obtain b0 where
    f: "frame b0 = frame (start ifaces peers servers annotations [] [])"
    and x: "\<And>p. p \<in> set peers \<Longrightarrow> \<not> is_tunnel b0 p \<Longrightarrow>
      \<exists>e \<in> set (tp_Edges (fst ?g)). drawn_by b0 (ids (drawn ifaces peers servers annotations [] [])) p (strip e)" by metis
  note v = start_views [OF f]
  have l: "Lookup (b_endpoints b0) (wp_PeerPubKey p) = None"
    using assms(2) by (simp add: v(3) Lookup_None)
  then obtain e where e: "e \<in> set (tp_Edges (fst ?g))" "eg_Source e = wp_Host p"
    using x [OF assms(1)] by (auto simp: is_tunnel_def drawn_by_def strip_def)
  have "frame (addLinks (addAggregates (drawn ifaces peers servers annotations [] []))) = frame (start ifaces peers servers annotations [] [])"
    using drawn_ok(5) by (simp add: later_phases)
  from frame_fields(6,7) [OF this] have "nd_ID ` set (tp_Nodes (fst ?g)) = ids (drawn ifaces peers servers annotations [] [])"
    by (simp add: BuildWithDeclared_phases addDeclared_def start_fields later_phases ids_def Let_def)
  moreover have "wp_Host p \<notin> set (gateway_hosts (start ifaces peers servers annotations [] []))"
    using assms(3) start_views(1) [OF refl] by (auto simp: gateway_hosts_def)
  ultimately have "wp_Host p \<notin> nd_ID ` set (tp_Nodes (fst ?g))"
    using drawn_ok(3) [of ifaces peers servers annotations "[]" "[]"] assms(4) by (auto simp: bar_ids_def)
  with e show ?thesis by (auto simp: Build_def)
qed

theorem alias_external_edge_dangles_witness:
  "\<exists>e \<in> set (tp_Edges (fst (Build vip_rows [peer_row ''srv-49'' ''wg1'' ''X''] [] []))). eg_Source e = ''srv-49'' \<and>
    ''srv-49'' \<notin> nd_ID ` set (tp_Nodes (fst (Build vip_rows [peer_row ''srv-49'' ''wg1'' ''X''] [] [])))"
proof -
  let ?p = "peer_row ''srv-49'' ''wg1'' ''X''"
  have "canonicalHost (newBuilder vip_rows [?p] [] []) ''srv-49'' = ''lb''" by code_simp
  then show ?thesis using alias_external_edge_dangles [of ?p "[?p]" vip_rows "[]" "[]"]
    by (simp add: peer_row_def vip_rows_def)
qed

text \<open>A physical host that is both an inventory server and the declared parent of a gateway is counted twice in
  the aggregate of its network: once by host name and once by node identifier.\<close>

definition sample_server :: "string \<Rightarrow> string \<Rightarrow> server" where
  "sample_server host addr = \<lparr>Hostname = host, IP = addr, Port = 22, User = [], JumpVia = [], DC = ''dc1'', CARole = [],
     CAKeyVersion = 0, LastSeenUp = None, ExtraIPs = None, State = []\<rparr>"

lemma aggregate_counts_a_parent_twice:
  "map ag_Count (tp_Aggs (fst (Build [key_row ''gw'' ''wg0'' ''K''] [] [sample_server ''gw'' ''10.0.0.1'', sample_server ''box'' ''10.0.0.2'']
     [\<lparr>an_PublicKey = ''K'', an_Label = [], an_Kind = [], an_UnderlayIP = [], an_TunnelIP = [], an_Site = [],
       an_InventoryHost = [], an_ParentHostname = ''box'', an_Note = []\<rparr>]))) = [3]"
  by code_simp

text \<open>A node with an address but no data centre is linked to an aggregate that is never drawn.\<close>

lemma network_link_without_aggregate:
  "let t = fst (Build [key_row ''gw'' ''wg0'' ''K''] [] []
     [\<lparr>an_PublicKey = ''K'', an_Label = [], an_Kind = [], an_UnderlayIP = ''10.0.0.1'', an_TunnelIP = [], an_Site = [],
       an_InventoryHost = [], an_ParentHostname = [], an_Note = []\<rparr>]) in
   map ln_Target (tp_Links t) = [''agg||10.0.0.0/24''] \<and> tp_Aggs t = []"
  by code_simp

end
