(* ===== verification/Ssh_Sync.thy ===== *)
theory Ssh_Sync
  imports Inv_Cache
begin

text \<open>
  Inventory bootstrap from an ssh configuration, \<^verbatim>\<open>internal/syncx/sync.go\<close>: the line parser,
  the selection by prefix with the jump hosts it needs, the probes and the rows that are stored. The
  breadth-first closure over jump references is a recursive function with its termination proof. A
  probe is a parameter (whether a block's address answered, and when), and so is the order in which
  the concurrent workers finish.

  The lemmas show that the selection is exactly the closure of the prefix under jump references, so
  that every jump host of a stored row that the configuration describes is stored too.
\<close>

section \<open>The configuration file\<close>

record hostBlock =
  hb_alias :: string
  hb_hostName :: string
  hb_user :: string
  hb_port :: int
  hb_proxyJump :: string

definition is_sep :: "char \<Rightarrow> bool" where
  "is_sep c \<longleftrightarrow> c = CHR '' '' \<or> c = CHR 0x09 \<or> c = CHR ''=''"

definition splitFields :: "string \<Rightarrow> (string \<times> string list) option" where
  "splitFields line =
    (let key = takeWhile (\<lambda>c. \<not> is_sep c) line;
         vals = Go_Prelude.fields (trim_space (dropWhile is_sep (drop (length key) line))) in
     if key = [] \<or> key = line then None
     else if vals = [] then None else Some (key, vals))"

type_synonym parse_state = "hostBlock list \<times> hostBlock option \<times> string list"

definition is_pattern :: "string \<Rightarrow> bool" where
  "is_pattern s \<longleftrightarrow> CHR ''*'' \<in> set s \<or> CHR ''?'' \<in> set s"

definition flush :: "parse_state \<Rightarrow> hostBlock list" where
  "flush = (\<lambda>(blocks, cur, al). case cur of
     None \<Rightarrow> blocks
   | Some b \<Rightarrow> if hb_hostName b = [] then blocks
       else blocks @ map (\<lambda>a. b \<lparr>hb_alias := a\<rparr>) (filter (\<lambda>a. \<not> is_pattern a) al))"

definition new_block :: hostBlock where
  "new_block = \<lparr>hb_alias = [], hb_hostName = [], hb_user = [], hb_port = 22, hb_proxyJump = []\<rparr>"

definition set_key :: "string \<Rightarrow> string \<Rightarrow> hostBlock \<Rightarrow> hostBlock" where
  "set_key key v b =
    (if key = ''hostname'' then b \<lparr>hb_hostName := v\<rparr>
     else if key = ''user'' then b \<lparr>hb_user := v\<rparr>
     else if key = ''port'' then (case Atoi v of Some n \<Rightarrow> b \<lparr>hb_port := n\<rparr> | None \<Rightarrow> b)
     else if key = ''proxyjump'' then b \<lparr>hb_proxyJump := v\<rparr>
     else b)"

definition parse_line :: "parse_state \<Rightarrow> string \<Rightarrow> parse_state" where
  "parse_line = (\<lambda>(blocks, cur, al) text.
    let line = trim_space text in
    if line = [] \<or> has_prefix line ''#'' then (blocks, cur, al)
    else case splitFields line of
      None \<Rightarrow> (blocks, cur, al)
    | Some (key, vals) \<Rightarrow>
        if to_lower key = ''host'' then (flush (blocks, cur, al), Some new_block, vals)
        else (blocks, map_option (set_key (to_lower key) (hd vals)) cur, al))"

text \<open>\<^verbatim>\<open>bufio.Scanner\<close> over lines: it stops at a line that does not fit its buffer and reports it.\<close>

definition ErrTooLong :: goerror where
  "ErrTooLong = Sentinel ''bufio.Scanner: token too long''"

definition text_lines :: "string \<Rightarrow> string list" where
  "text_lines s = (let ls = split_on (CHR 0x0A) s in if last ls = [] then butlast ls else ls)"

definition scan_lines :: "string \<Rightarrow> string list \<times> goerror option" where
  "scan_lines s =
    (let ls = text_lines s; ok = takeWhile (\<lambda>l. length l < 65536) ls in
     (map (\<lambda>l. trim_suffix l [CHR 0x0D]) ok, if length ok < length ls then Some ErrTooLong else None))"

definition Parse :: "goerror + string \<Rightarrow> hostBlock list \<times> goerror option" where
  "Parse f = (case f of
     Inl e \<Rightarrow> ([], Some e)
   | Inr text \<Rightarrow> (case scan_lines text of (ls, err) \<Rightarrow> (flush (foldl parse_line ([], None, []) ls), err)))"

section \<open>Selection\<close>

record dcRule =
  dr_Name :: string
  dr_Prefixes :: "string list"

record buildOptions =
  bo_Prefix :: string
  bo_DefaultUser :: string
  bo_CARole :: string
  bo_ProbeTimeout :: duration
  bo_ProbeConcurrency :: int
  bo_DCRules :: "dcRule list"

definition DefaultDCRules :: "dcRule list" where
  "DefaultDCRules = [\<lparr>dr_Name = ''incheon'', dr_Prefixes = [''10.40.0.'', ''192.168.10.'']\<rparr>,
     \<lparr>dr_Name = ''seoul-onprem'', dr_Prefixes = [''192.168.201.'', ''192.168.190.'', ''192.168.110.'']\<rparr>]"

definition withDefaults :: "buildOptions \<Rightarrow> buildOptions" where
  "withDefaults opts =
    (let c = (if bo_ProbeConcurrency opts \<le> 0 then 32 else bo_ProbeConcurrency opts) in
     opts \<lparr>bo_ProbeTimeout := (if bo_ProbeTimeout opts \<le> 0 then 3000000000 else bo_ProbeTimeout opts),
       bo_ProbeConcurrency := (if c > 128 then 128 else c),
       bo_DCRules := (if bo_DCRules opts = [] then DefaultDCRules else bo_DCRules opts)\<rparr>)"

definition indexByAlias :: "hostBlock list \<Rightarrow> (string, hostBlock) gomap" where
  "indexByAlias blocks = foldl (\<lambda>m b. AList.update (hb_alias b) b m) [] blocks"

definition filterByPrefix :: "hostBlock list \<Rightarrow> string \<Rightarrow> hostBlock list" where
  "filterByPrefix blocks pre = (if pre = [] then blocks
     else filter (\<lambda>b. has_prefix (to_lower (hb_alias b)) (to_lower pre)) blocks)"

definition trim_brackets :: "string \<Rightarrow> string" where
  "trim_brackets s = (let b = (\<lambda>c. c = CHR ''['' \<or> c = CHR '']'') in trim_right b (dropWhile b s))"

definition normalizeJumpAlias :: "string \<Rightarrow> string" where
  "normalizeJumpAlias jump =
    (if jump = [] then []
     else let first = takeWhile (\<lambda>c. c \<noteq> CHR '','') jump;
              host = (case last_index CHR ''@'' first of None \<Rightarrow> first | Some i \<Rightarrow> drop (i + 1) first) in
       case SplitHostPort host of
         Some h \<Rightarrow> trim_brackets h
       | None \<Rightarrow> (case last_index CHR '':'' host of
           Some i \<Rightarrow> if i > 0 \<and> CHR '':'' \<notin> set (drop (i + 1) host) then trim_brackets (take i host) else trim_brackets host
         | None \<Rightarrow> trim_brackets host))"

definition jump_of :: "(string, hostBlock) gomap \<Rightarrow> hostBlock \<Rightarrow> (string \<times> hostBlock) option" where
  "jump_of byAlias b =
    (let ja = normalizeJumpAlias (hb_proxyJump b) in
     if hb_proxyJump b = [] \<or> ja = [] then None else map_option (Pair ja) (map_of byAlias ja))"

lemma jump_of_key: "jump_of byAlias b = Some (ja, jb) \<Longrightarrow> ja \<in> fst ` set byAlias \<and> map_of byAlias ja = Some jb"
  by (auto simp: jump_of_def Let_def split: if_splits dest: map_of_SomeD intro: rev_image_eqI)

function jump_bfs ::
  "(string, hostBlock) gomap \<Rightarrow> (string, bool) gomap \<Rightarrow> hostBlock list \<Rightarrow> hostBlock list \<Rightarrow> hostBlock list" where
  "jump_bfs byAlias seen selected [] = selected"
| "jump_bfs byAlias seen selected (b # queue) =
    (case jump_of byAlias b of
       None \<Rightarrow> jump_bfs byAlias seen selected queue
     | Some (ja, jb) \<Rightarrow>
       if is_true seen ja then jump_bfs byAlias seen selected queue
       else jump_bfs byAlias (AList.update ja True seen) (selected @ [jb]) (queue @ [jb]))"
  by pat_completeness auto

termination
proof (relation "measures [\<lambda>(byAlias, seen, _, _). card {k \<in> fst ` set byAlias. \<not> is_true seen k}, \<lambda>(_, _, _, q). length q]", goal_cases)
  case (4 byAlias seen selected b queue x ja jb)
  then have k: "ja \<in> fst ` set byAlias" "\<not> is_true seen ja" using jump_of_key [of byAlias b ja jb] by auto
  have "{k \<in> fst ` set byAlias. \<not> is_true (AList.update ja True seen) k} \<subset> {k \<in> fst ` set byAlias. \<not> is_true seen k}"
    using k by auto
  then have "card {k \<in> fst ` set byAlias. \<not> is_true (AList.update ja True seen) k} < card {k \<in> fst ` set byAlias. \<not> is_true seen k}"
    by (rule psubset_card_mono [rotated]) simp
  then show ?case by simp
qed simp_all

definition includeJumpHosts :: "hostBlock list \<Rightarrow> (string, hostBlock) gomap \<Rightarrow> hostBlock list" where
  "includeJumpHosts selected byAlias =
     jump_bfs byAlias (foldl (\<lambda>m b. AList.update (hb_alias b) True m) [] selected) selected selected"

section \<open>The rows\<close>

definition resolveJumpAlias :: "string \<Rightarrow> (string, hostBlock) gomap \<Rightarrow> string" where
  "resolveJumpAlias proxyJump byAlias = (if proxyJump = [] then []
     else let ja = normalizeJumpAlias proxyJump in case map_of byAlias ja of Some jb \<Rightarrow> hb_alias jb | None \<Rightarrow> ja)"

definition classifyDCWithRules :: "string \<Rightarrow> dcRule list \<Rightarrow> string" where
  "classifyDCWithRules addr rules =
    (case find (\<lambda>r. list_ex (\<lambda>p. p \<noteq> [] \<and> has_prefix addr p) (dr_Prefixes r)) rules of
       Some r \<Rightarrow> dr_Name r | None \<Rightarrow> ''unknown'')"

definition buildServer :: "hostBlock \<Rightarrow> (string, hostBlock) gomap \<Rightarrow> gotime option \<Rightarrow> buildOptions \<Rightarrow> server" where
  "buildServer b byAlias up opts =
     \<lparr>Hostname = hb_alias b, IP = hb_hostName b, Port = hb_port b, User = FirstNonEmpty [hb_user b, bo_DefaultUser opts],
      JumpVia = resolveJumpAlias (hb_proxyJump b) byAlias, DC = classifyDCWithRules (hb_hostName b) (bo_DCRules opts),
      CARole = bo_CARole opts, CAKeyVersion = 0, LastSeenUp = up, ExtraIPs = None, State = []\<rparr>"

text \<open>The workers' results arrive in some order; \<open>finished\<close> is that order.\<close>

definition probeAll :: "(hostBlock \<Rightarrow> gotime option) \<Rightarrow> hostBlock list \<Rightarrow> (string, gotime option) gomap" where
  "probeAll probeOne finished = foldl (\<lambda>m b. AList.update (hb_alias b) (probeOne b) m) [] finished"

definition selectBlocks :: "hostBlock list \<Rightarrow> string \<Rightarrow> hostBlock list" where
  "selectBlocks blocks pre = includeJumpHosts (filterByPrefix blocks pre) (indexByAlias blocks)"

definition BuildWithOptions ::
  "(hostBlock \<Rightarrow> gotime option) \<Rightarrow> (hostBlock list \<Rightarrow> hostBlock list) \<Rightarrow> hostBlock list \<Rightarrow> buildOptions \<Rightarrow> server list" where
  "BuildWithOptions probeOne finishing blocks opts0 =
    (let opts = withDefaults opts0;
         byAlias = indexByAlias blocks;
         filtered = includeJumpHosts (filterByPrefix blocks (bo_Prefix opts)) byAlias;
         up = probeAll probeOne (finishing filtered) in
     map (\<lambda>b. buildServer b byAlias (case map_of up (hb_alias b) of None \<Rightarrow> None | Some t \<Rightarrow> t) opts) filtered)"

section \<open>The selection is the closure under jump references\<close>

lemma foldl_index:
  "map_of (foldl (\<lambda>m b. AList.update (f b) (g b) m) m0 bs) k =
     (case find (\<lambda>b. f b = k) (rev bs) of Some b \<Rightarrow> Some (g b) | None \<Rightarrow> map_of m0 k)"
  by (induction bs rule: rev_induct) auto

lemma find_SomeD: "find P xs = Some x \<Longrightarrow> x \<in> set xs \<and> P x"
  by (induction xs) (auto split: if_splits)

lemma indexByAlias_Some: "map_of (indexByAlias blocks) k = Some b \<Longrightarrow> b \<in> set blocks \<and> hb_alias b = k"
  by (auto simp: indexByAlias_def foldl_index split: option.splits dest!: find_SomeD)

lemma indexByAlias_None: "map_of (indexByAlias blocks) k = None \<longleftrightarrow> k \<notin> hb_alias ` set blocks"
  by (auto simp: indexByAlias_def foldl_index find_None_iff split: option.splits dest!: find_SomeD)

lemma seen_fold: "is_true (foldl (\<lambda>m b. AList.update (hb_alias b) True m) m0 bs) k \<longleftrightarrow> is_true m0 k \<or> k \<in> hb_alias ` set bs"
  by (induction bs arbitrary: m0) auto

inductive needed :: "hostBlock list \<Rightarrow> string \<Rightarrow> hostBlock \<Rightarrow> bool" for blocks pre where
  matches: "b \<in> set (filterByPrefix blocks pre) \<Longrightarrow> needed blocks pre b"
| jump: "needed blocks pre b \<Longrightarrow> jump_of (indexByAlias blocks) b = Some (ja, jb) \<Longrightarrow> needed blocks pre jb"

definition settled :: "(string, hostBlock) gomap \<Rightarrow> (string, bool) gomap \<Rightarrow> hostBlock \<Rightarrow> bool" where
  "settled byAlias seen b \<longleftrightarrow> (\<forall>ja jb. jump_of byAlias b = Some (ja, jb) \<longrightarrow> is_true seen ja)"

definition bfs_inv :: "(string, hostBlock) gomap \<Rightarrow> (hostBlock \<Rightarrow> bool) \<Rightarrow> (string, bool) gomap \<Rightarrow> hostBlock list \<Rightarrow> hostBlock list \<Rightarrow> bool" where
  "bfs_inv byAlias P seen selected queue \<longleftrightarrow>
     (\<forall>k jb. is_true seen k \<and> map_of byAlias k = Some jb \<longrightarrow> jb \<in> set selected) \<and>
     set queue \<subseteq> set selected \<and> (\<forall>b \<in> set selected. P b) \<and>
     (\<forall>b \<in> set selected. b \<in> set queue \<or> settled byAlias seen b)"

lemma jump_bfs_closed:
  assumes "bfs_inv byAlias P seen selected queue"
    and "\<And>b ja jb. P b \<Longrightarrow> jump_of byAlias b = Some (ja, jb) \<Longrightarrow> P jb"
  shows "set selected \<subseteq> set (jump_bfs byAlias seen selected queue) \<and>
    (\<forall>b \<in> set (jump_bfs byAlias seen selected queue). P b \<and>
       (\<forall>ja jb. jump_of byAlias b = Some (ja, jb) \<longrightarrow> jb \<in> set (jump_bfs byAlias seen selected queue)))"
  using assms
proof (induction byAlias seen selected queue rule: jump_bfs.induct)
  case (1 byAlias seen selected)
  then show ?case using jump_of_key by (simp add: bfs_inv_def settled_def) blast
next
  case (2 byAlias seen selected b queue)
  show ?case
  proof (cases "jump_of byAlias b")
    case None
    moreover have "settled byAlias seen b" using None by (simp add: settled_def)
    then have "bfs_inv byAlias P seen selected queue" using "2.prems"(1) by (auto simp: bfs_inv_def)
    ultimately show ?thesis using "2.IH"(1) "2.prems"(2) by simp
  next
    case (Some x)
    obtain ja jb where x: "x = (ja, jb)" by (cases x)
    note j = Some [unfolded x] and key = jump_of_key [OF Some [unfolded x]]
    show ?thesis
    proof (cases "is_true seen ja")
      case True
      moreover have "settled byAlias seen b" using True j by (simp add: settled_def)
      then have "bfs_inv byAlias P seen selected queue" using "2.prems"(1) by (auto simp: bfs_inv_def)
      ultimately show ?thesis using "2.IH"(2) [OF Some x [symmetric]] "2.prems"(2) j by simp
    next
      case False
      have "P b" using "2.prems"(1) by (simp add: bfs_inv_def)
      then have "P jb" using "2.prems"(2) j by blast
      moreover have "settled byAlias (AList.update ja True seen) b" using j by (simp add: settled_def)
      moreover have "settled byAlias (AList.update ja True seen) c" if "settled byAlias seen c" for c
        using that by (auto simp: settled_def)
      ultimately have "bfs_inv byAlias P (AList.update ja True seen) (selected @ [jb]) (queue @ [jb])"
        using "2.prems"(1) key by (auto simp: bfs_inv_def)
      with "2.IH"(3) [OF Some x [symmetric] False] "2.prems"(2) j False show ?thesis by simp
    qed
  qed
qed

lemma selected_owner:
  assumes "k \<in> hb_alias ` set (filterByPrefix blocks pre)" "map_of (indexByAlias blocks) k = Some jb"
  shows "jb \<in> set (filterByPrefix blocks pre)"
proof -
  have "jb \<in> set blocks" "hb_alias jb = k" using indexByAlias_Some [OF assms(2)] by simp_all
  moreover from assms(1) obtain b where "b \<in> set (filterByPrefix blocks pre)" "hb_alias b = k" by blast
  ultimately show ?thesis by (simp add: filterByPrefix_def split: if_splits)
qed

lemma bfs_start:
  "bfs_inv (indexByAlias blocks) (needed blocks pre) (foldl (\<lambda>m b. AList.update (hb_alias b) True m) [] (filterByPrefix blocks pre))
     (filterByPrefix blocks pre) (filterByPrefix blocks pre)"
  unfolding bfs_inv_def
proof (intro conjI allI impI ballI)
  fix k jb
  assume "is_true (foldl (\<lambda>m b. AList.update (hb_alias b) True m) [] (filterByPrefix blocks pre)) k \<and>
    map_of (indexByAlias blocks) k = Some jb"
  then have "k \<in> hb_alias ` set (filterByPrefix blocks pre)" "map_of (indexByAlias blocks) k = Some jb"
    by (simp_all add: seen_fold)
  then show "jb \<in> set (filterByPrefix blocks pre)" by (rule selected_owner)
qed (simp_all add: needed.matches)

lemma selectBlocks_closed:
  "set (filterByPrefix blocks pre) \<subseteq> set (selectBlocks blocks pre)"
  "b \<in> set (selectBlocks blocks pre) \<Longrightarrow> needed blocks pre b"
  "b \<in> set (selectBlocks blocks pre) \<Longrightarrow> jump_of (indexByAlias blocks) b = Some (ja, jb) \<Longrightarrow> jb \<in> set (selectBlocks blocks pre)"
proof -
  have "set (filterByPrefix blocks pre) \<subseteq> set (selectBlocks blocks pre) \<and>
    (\<forall>b \<in> set (selectBlocks blocks pre). needed blocks pre b \<and>
       (\<forall>ja jb. jump_of (indexByAlias blocks) b = Some (ja, jb) \<longrightarrow> jb \<in> set (selectBlocks blocks pre)))"
    unfolding selectBlocks_def includeJumpHosts_def by (rule jump_bfs_closed [OF bfs_start]) (rule needed.jump)
  then show "set (filterByPrefix blocks pre) \<subseteq> set (selectBlocks blocks pre)"
    "b \<in> set (selectBlocks blocks pre) \<Longrightarrow> needed blocks pre b"
    "b \<in> set (selectBlocks blocks pre) \<Longrightarrow> jump_of (indexByAlias blocks) b = Some (ja, jb) \<Longrightarrow> jb \<in> set (selectBlocks blocks pre)"
    by simp_all
qed

text \<open>A sync stores the closure of the selection. The selected blocks are exactly those whose alias has the
  prefix and, transitively, the jump hosts they refer to that the configuration describes; so every
  stored row either needs no jump host, or names one that is stored as well, or names one the
  configuration does not describe. The search always ends.\<close>

theorem sync_stores_every_jump_host:
  "set (selectBlocks blocks pre) = {b. needed blocks pre b} \<and>
   map Hostname (BuildWithOptions probeOne finishing blocks (opts \<lparr>bo_Prefix := pre\<rparr>)) = map hb_alias (selectBlocks blocks pre) \<and>
   (\<forall>s \<in> set (BuildWithOptions probeOne finishing blocks (opts \<lparr>bo_Prefix := pre\<rparr>)).
      JumpVia s = [] \<or>
      JumpVia s \<in> Hostname ` set (BuildWithOptions probeOne finishing blocks (opts \<lparr>bo_Prefix := pre\<rparr>)) \<or>
      JumpVia s \<notin> hb_alias ` set blocks)"
proof -
  let ?R = "selectBlocks blocks pre" and ?B = "BuildWithOptions probeOne finishing blocks (opts \<lparr>bo_Prefix := pre\<rparr>)"
  have "b \<in> set ?R" if "needed blocks pre b" for b
    using that by induction (use selectBlocks_closed in auto)
  then have sel: "set ?R = {b. needed blocks pre b}" using selectBlocks_closed(2) by blast
  have B: "?B = map (\<lambda>b. buildServer b (indexByAlias blocks)
      (case map_of (probeAll probeOne (finishing ?R)) (hb_alias b) of None \<Rightarrow> None | Some t \<Rightarrow> t)
      (withDefaults (opts \<lparr>bo_Prefix := pre\<rparr>))) ?R"
    by (simp add: BuildWithOptions_def selectBlocks_def Let_def withDefaults_def)
  then have names: "map Hostname ?B = map hb_alias ?R" by (simp add: buildServer_def)
  have "JumpVia s = [] \<or> JumpVia s \<in> Hostname ` set ?B \<or> JumpVia s \<notin> hb_alias ` set blocks" if "s \<in> set ?B" for s
  proof -
    from that B obtain b where b: "b \<in> set ?R" "JumpVia s = resolveJumpAlias (hb_proxyJump b) (indexByAlias blocks)"
      by (auto simp: buildServer_def)
    let ?ja = "normalizeJumpAlias (hb_proxyJump b)"
    show ?thesis
    proof (cases "map_of (indexByAlias blocks) ?ja")
      case None
      then show ?thesis using b(2) indexByAlias_None [of blocks ?ja] by (auto simp: resolveJumpAlias_def Let_def)
    next
      case (Some jb)
      show ?thesis
      proof (cases "hb_proxyJump b = [] \<or> ?ja = []")
        case True
        then show ?thesis using b(2) Some indexByAlias_Some [OF Some] by (auto simp: resolveJumpAlias_def Let_def)
      next
        case False
        then have "jb \<in> set ?R" using selectBlocks_closed(3) [OF b(1)] Some by (simp add: jump_of_def Let_def)
        then have "hb_alias jb \<in> set (map Hostname ?B)" unfolding names by simp
        with False b(2) Some show ?thesis by (simp add: resolveJumpAlias_def Let_def)
      qed
    qed
  qed
  then show ?thesis using sel names by (intro conjI ballI) simp_all
qed

definition block :: "string \<Rightarrow> string \<Rightarrow> hostBlock" where
  "block name jump = \<lparr>hb_alias = name, hb_hostName = ''10.0.0.1'', hb_user = [], hb_port = 22, hb_proxyJump = jump\<rparr>"

theorem sync_stores_every_jump_host_witness:
  "{b. needed [block ''web1'' ''bastion'', block ''bastion'' [], block ''db1'' ''bastion''] ''web'' b} =
     {block ''web1'' ''bastion'', block ''bastion'' []}"
proof -
  let ?B = "[block ''web1'' ''bastion'', block ''bastion'' [], block ''db1'' ''bastion'']"
  have "selectBlocks ?B ''web'' = [block ''web1'' ''bastion'', block ''bastion'' []]" by code_simp
  with sync_stores_every_jump_host [of ?B "''web''" "\<lambda>_. None" id "\<lparr>bo_Prefix = [], bo_DefaultUser = [], bo_CARole = [],
    bo_ProbeTimeout = 0, bo_ProbeConcurrency = 0, bo_DCRules = []\<rparr>"] show ?thesis by simp
qed

section \<open>Where the reading differs from ssh\<close>

text \<open>Three configurations that ssh reads differently: a \<^verbatim>\<open>Match\<close> section does not end the host block
  before it, so its settings land on that host; \<^verbatim>\<open>ProxyJump none\<close> becomes a jump host called
  none; and of a chain of jumps only the first hop is kept.\<close>

lemma match_section_leaks:
  "map (\<lambda>b. (hb_alias b, hb_user b)) (flush (foldl parse_line ([], None, [])
     [''Host a'', ''HostName 10.0.0.1'', ''Match host b'', ''User root''])) = [(''a'', ''root'')]"
  by code_simp

lemma proxyjump_none_is_a_host: "resolveJumpAlias ''none'' byAlias =
    (case map_of byAlias ''none'' of Some jb \<Rightarrow> hb_alias jb | None \<Rightarrow> ''none'')"
proof -
  have "normalizeJumpAlias ''none'' = ''none''" by code_simp
  then show ?thesis by (simp add: resolveJumpAlias_def Let_def)
qed

lemma proxyjump_chain_keeps_the_first_hop: "normalizeJumpAlias ''ops@edge:2222,inner'' = ''edge''"
  by code_simp

end
