(* ===== verification/Ssh_Access.thy ===== *)
theory Ssh_Access
  imports Audit_Spool Ssh_Sync
begin

text \<open>
  The SSH access pipeline: \<^verbatim>\<open>internal/access\<close> (targets, jump chains, the connector that signs,
  dials and audits, and the monitor that polls) over \<^verbatim>\<open>internal/sshc\<close> (dialling a hop, a chain, a
  target, and the host-key decision). What happens outside the process is the record \<open>ssh_env\<close>:
  Vault's answer to a signing request, the result of each dial and handshake, the remote command, the
  audit sink. Each answer may depend on everything that happened before, so a theorem about every
  environment covers every interleaving of failures. The trace records signings, connections opened
  and closed, audit rows and the start of the shell or command.

  The lemmas show that a jump chain is built exactly when it is finite and known, that every attempt
  leaves exactly one audit row, written before the shell starts, that only the target's certificate can
  open a terminal, that nothing stays open after a failed dial, that a monitor writes a row per change
  of outcome, and what each host-key policy accepts.
\<close>

section \<open>Targets\<close>

datatype target = Target (tg_Name: string) (tg_Addr: string) (tg_User: string) (tg_Role: string)
  (tg_SkipDirect: bool) (tg_ConfirmHostKey: bool) (tg_AutoAddHostKey: bool) (tg_Jump: "target option")

datatype hostKeyPolicy = HostKeyPrompt | HostKeyStrict | HostKeyAcceptNew

fun policy_apply :: "hostKeyPolicy \<Rightarrow> target \<Rightarrow> target" where
  "policy_apply p (Target n a u r sd c x None) = Target n a u r sd (p = HostKeyPrompt) (p = HostKeyAcceptNew) None"
| "policy_apply p (Target n a u r sd c x (Some j)) =
     Target n a u r sd (p = HostKeyPrompt) (p = HostKeyAcceptNew) (Some (policy_apply p j))"

fun hops :: "target \<Rightarrow> target list" where
  "hops (Target n a u r sd c x None) = [Target n a u r sd c x None]"
| "hops (Target n a u r sd c x (Some j)) = Target n a u r sd c x (Some j) # hops j"

text \<open>\<open>buildTargetSeen\<close> recurses along the jump references of the inventory. The result of a call that
  does not return is \<^const>\<open>None\<close>.\<close>

partial_function (option) buildTargetSeen ::
  "(string \<Rightarrow> goerror + server) \<Rightarrow> server \<Rightarrow> bool \<Rightarrow> (string, bool) gomap \<Rightarrow> (goerror + target) option" where
  "buildTargetSeen get sv directFirst seen =
    (if is_true seen (Hostname sv) then Some (Inl (Plain (''jump host cycle detected: '' @ Hostname sv)))
     else if JumpVia sv = [] then
       Some (Inr (Target (Hostname sv) (JoinHostPort (IP sv) (Itoa (Port sv))) (User sv) (CARole sv) (\<not> directFirst) False False None))
     else case get (JumpVia sv) of
       Inl e \<Rightarrow> Some (Inl (Wrapf (''lookup jump host '' @ JumpVia sv) e))
     | Inr jsv \<Rightarrow>
         Option.bind (buildTargetSeen get jsv directFirst (AList.update (Hostname sv) True seen))
           (\<lambda>r. Some (map_sum id (\<lambda>jt. Target (Hostname sv) (JoinHostPort (IP sv) (Itoa (Port sv))) (User sv) (CARole sv)
              (\<not> directFirst) False False (Some jt)) r)))"

definition BuildTarget :: "(string \<Rightarrow> goerror + server) \<Rightarrow> server \<Rightarrow> bool \<Rightarrow> (goerror + target) option" where
  "BuildTarget get sv directFirst = buildTargetSeen get sv directFirst []"

definition ResolveServer :: "(goerror + (server option \<times> server list)) \<Rightarrow> string \<Rightarrow> goerror + server" where
  "ResolveServer resolved query = (case resolved of
     Inl e \<Rightarrow> Inl e
   | Inr (Some sv, _) \<Rightarrow> Inr sv
   | Inr (None, cands) \<Rightarrow>
       if cands = [] then Inl (Plain (''no server matches '' @ query))
       else Inl (Plain (query @ '' is ambiguous ('' @ Itoa (int (length cands)) @ '' matches: '' @
         join_with '', '' (map Hostname cands) @ '') - pass an exact hostname'')))"

section \<open>Host keys\<close>

datatype known_hosts_answer = KeyKnown | KeyUnknown | KeyRejected goerror

datatype callback_ready = NoHome goerror | NoKnownHosts goerror | Verifier

text \<open>\<open>hostKeyCallback\<close>: what the callback answers for one key, given what the file says of it, whether
  standard input is a terminal, the typed answer, and the outcome of recording the key. The second
  component says whether the key was recorded.\<close>

definition confirmHostKey :: "goerror + string \<Rightarrow> bool" where
  "confirmHostKey input = (case input of Inl _ \<Rightarrow> False
     | Inr line \<Rightarrow> let answer = to_lower (trim_space line) in answer = ''y'' \<or> answer = ''yes'')"

record key_offer =
  ko_Hostname :: string
  ko_Fingerprint :: string

definition hostKeyCallback ::
  "callback_ready \<Rightarrow> bool \<Rightarrow> bool \<Rightarrow> key_offer \<Rightarrow> known_hosts_answer \<Rightarrow> bool \<Rightarrow> goerror + string \<Rightarrow> goerror option \<Rightarrow>
     goerror option \<times> bool" where
  "hostKeyCallback ready confirmUnknown autoAdd key answer terminal input appendErr = (case ready of
     NoHome e \<Rightarrow> (Some (Wrapf (''host key verification unavailable for '' @ ko_Hostname key) (Wrapf ''home directory lookup'' e)), False)
   | NoKnownHosts e \<Rightarrow> (Some (Wrapf (''host key verification unavailable for '' @ ko_Hostname key) (Wrapf ''known_hosts load'' e)), False)
   | Verifier \<Rightarrow> (case answer of
       KeyKnown \<Rightarrow> (None, False)
     | KeyUnknown \<Rightarrow>
         if autoAdd then (appendErr, appendErr = None)
         else if \<not> confirmUnknown \<or> \<not> terminal then
           (Some (Plain (''unknown SSH host key for '' @ ko_Hostname key @ '' ('' @ ko_Fingerprint key @
              ''); connect interactively once to verify it'')), False)
         else if \<not> confirmHostKey input then (Some (Plain (''SSH host key for '' @ ko_Hostname key @ '' was not trusted'')), False)
         else (appendErr, appendErr = None)
     | KeyRejected e \<Rightarrow> (Some e, False)))"

section \<open>Dialling\<close>

datatype cert_parse = NotAKey goerror | NotACert | Cert string

datatype ssh_event =
    Sign string "string list" "string list"
  | Dial string \<comment> \<open>a TCP connection attempted to this address\<close>
  | Via string string \<comment> \<open>a connection asked of the client of that name to this address: a channel of its connection\<close>
  | Opened string
  | Closed string
  | Audited access_entry bool \<comment> \<open>a row handed to the sink, and whether the sink took it\<close>
  | AuditWarning
  | ShellStarted
  | CommandStarted string

datatype run_outcome =
    CtxDone string string goerror
  | Exited string string int
  | Ran string string "goerror option"

record ssh_env =
  e_key :: "ssh_event list \<Rightarrow> goerror option"
  e_sign :: "ssh_event list \<Rightarrow> string \<Rightarrow> string list \<Rightarrow> string list \<Rightarrow> goerror + string"
  e_cert :: "string \<Rightarrow> cert_parse"
  e_certSigner :: "string \<Rightarrow> goerror option"
  e_now :: "ssh_event list \<Rightarrow> gotime"
  e_dial :: "ssh_event list \<Rightarrow> target \<Rightarrow> goerror + string option"
  e_jumpDial :: "ssh_event list \<Rightarrow> target \<Rightarrow> goerror option"
  e_handshake :: "ssh_event list \<Rightarrow> target \<Rightarrow> goerror + string option"
  e_shell :: "ssh_event list \<Rightarrow> goerror option"
  e_session :: "ssh_event list \<Rightarrow> goerror option"
  e_run :: "ssh_event list \<Rightarrow> string \<Rightarrow> run_outcome"
  e_identity :: "ssh_event list \<Rightarrow> string \<times> goerror option"
  e_audit :: "ssh_event list \<Rightarrow> access_entry \<Rightarrow> goerror option"
  e_clientUser :: "string option"
  e_userVar :: string
  e_clientHost :: string
  e_onAuditError :: bool

record ssh_st =
  trace :: "ssh_event list"
  serial :: string
  signedAt :: gotime

definition emit_ev :: "ssh_event \<Rightarrow> ssh_st \<Rightarrow> ssh_st" where
  "emit_ev ev st = st \<lparr>trace := trace st @ [ev]\<rparr>"

definition ptyExtensions :: "string list" where "ptyExtensions = [''permit-pty'']"

definition portForwardExtensions :: "string list" where "portForwardExtensions = [''permit-port-forwarding'']"

fun err_text :: "goerror \<Rightarrow> string" where
  "err_text (Sentinel m) = m"
| "err_text (Plain m) = m"
| "err_text (Wrapf m e) = m @ '': '' @ err_text e"

definition CertSerial_of :: "ssh_env \<Rightarrow> string \<Rightarrow> string" where
  "CertSerial_of env cert = (case e_cert env cert of Cert s \<Rightarrow> s | _ \<Rightarrow> [])"

text \<open>The signing closure of \<open>signFunc\<close>: the last serial and its signing time are kept.\<close>

definition sign_call :: "ssh_env \<Rightarrow> string \<Rightarrow> string list \<Rightarrow> string list \<Rightarrow> ssh_st \<Rightarrow> ssh_st \<times> (goerror + string)" where
  "sign_call env role principals extensions st =
    (let st1 = emit_ev (Sign role principals extensions) st in
     case e_sign env (trace st) role principals extensions of
       Inl e \<Rightarrow> (st1, Inl e)
     | Inr cert \<Rightarrow>
         let s = CertSerial_of env cert in
         (if s \<noteq> [] then st1 \<lparr>serial := s, signedAt := e_now env (trace st1)\<rparr> else st1, Inr cert))"

definition certSigner :: "ssh_env \<Rightarrow> string \<Rightarrow> string \<Rightarrow> string list \<Rightarrow> ssh_st \<Rightarrow> ssh_st \<times> goerror option" where
  "certSigner env role user extensions st = (case e_key env (trace st) of
     Some e \<Rightarrow> (st, Some e)
   | None \<Rightarrow> (case sign_call env role [user] extensions st of
       (st1, Inl e) \<Rightarrow> (st1, Some e)
     | (st1, Inr cert) \<Rightarrow> (case e_cert env cert of
         NotAKey e \<Rightarrow> (st1, Some (Wrapf ''parse signed cert'' e))
       | NotACert \<Rightarrow> (st1, Some (Plain ''signed result is not a certificate''))
       | Cert _ \<Rightarrow> (st1, e_certSigner env cert))))"

definition clientConfig :: "ssh_env \<Rightarrow> target \<Rightarrow> string list \<Rightarrow> ssh_st \<Rightarrow> ssh_st \<times> goerror option" where
  "clientConfig env t extensions st = certSigner env (tg_Role t) (tg_User t) extensions st"

text \<open>A client is its local address and the names of the connections its cleanup closes, in order.\<close>

type_synonym client = "string option \<times> string list"

definition close_all :: "string list \<Rightarrow> ssh_st \<Rightarrow> ssh_st" where
  "close_all names st = st \<lparr>trace := trace st @ map Closed names\<rparr>"

definition dialSingle :: "ssh_env \<Rightarrow> target \<Rightarrow> string list \<Rightarrow> ssh_st \<Rightarrow> ssh_st \<times> (goerror + client)" where
  "dialSingle env t extensions st = (case clientConfig env t extensions st of
     (st1, Some e) \<Rightarrow> (st1, Inl e)
   | (st1, None) \<Rightarrow> let st2 = emit_ev (Dial (tg_Addr t)) st1 in (case e_dial env (trace st1) t of
       Inl e \<Rightarrow> (st2, Inl e)
     | Inr local \<Rightarrow> (emit_ev (Opened (tg_Name t)) st2, Inr (local, [tg_Name t]))))"

definition dialThrough :: "ssh_env \<Rightarrow> target \<Rightarrow> string list \<Rightarrow> client \<Rightarrow> ssh_st \<Rightarrow> ssh_st \<times> (goerror + client)" where
  "dialThrough env t extensions jc st0 = (let st = emit_ev (Via (hd (snd jc)) (tg_Addr t)) st0 in case e_jumpDial env (trace st0) t of
     Some e \<Rightarrow> (close_all (snd jc) st, Inl (Wrapf (''connect through jump to '' @ tg_Addr t) e))
   | None \<Rightarrow> (case clientConfig env t extensions st of
       (st1, Some e) \<Rightarrow> (close_all (snd jc) st1, Inl e)
     | (st1, None) \<Rightarrow> (case e_handshake env (trace st1) t of
         Inl e \<Rightarrow> (close_all (snd jc) st1, Inl (Wrapf (tg_Name t @ '' handshake'') e))
       | Inr local \<Rightarrow> (emit_ev (Opened (tg_Name t)) st1, Inr (local, tg_Name t # snd jc)))))"

fun dialChain :: "ssh_env \<Rightarrow> target \<Rightarrow> string list \<Rightarrow> ssh_st \<Rightarrow> ssh_st \<times> (goerror + client)" where
  "dialChain env (Target n a u r sd c x None) leafExtensions st = dialSingle env (Target n a u r sd c x None) leafExtensions st"
| "dialChain env (Target n a u r sd c x (Some j)) leafExtensions st =
    (case dialChain env j portForwardExtensions st of
       (st1, Inl e) \<Rightarrow> (st1, Inl (Wrapf (''jump '' @ tg_Name j @ '' connection'') e))
     | (st1, Inr jc) \<Rightarrow> dialThrough env (Target n a u r sd c x (Some j)) leafExtensions jc st1)"

record connectionInfo =
  ci_SourceAddr :: string
  ci_SourceIP :: string
  ci_TargetAddr :: string
  ci_ViaJump :: bool
  ci_JumpHost :: string

definition addrIP :: "string \<Rightarrow> string" where
  "addrIP addr = (let host = (case SplitHostPort addr of Some h \<Rightarrow> h | None \<Rightarrow> addr) in
     if ParseIP host \<noteq> None then host else [])"

definition connection_info :: "client option \<Rightarrow> target \<Rightarrow> bool \<Rightarrow> connectionInfo" where
  "connection_info cl t viaJump =
    (let local = (case cl of Some (Some addr, _) \<Rightarrow> Some addr | _ \<Rightarrow> None) in
     \<lparr>ci_SourceAddr = (case local of Some addr \<Rightarrow> addr | None \<Rightarrow> []),
      ci_SourceIP = (case local of Some addr \<Rightarrow> addrIP addr | None \<Rightarrow> []),
      ci_TargetAddr = tg_Addr t, ci_ViaJump = viaJump,
      ci_JumpHost = (case tg_Jump t of Some j \<Rightarrow> if viaJump then tg_Name j else [] | None \<Rightarrow> [])\<rparr>)"

definition dialJump :: "ssh_env \<Rightarrow> target \<Rightarrow> ssh_st \<Rightarrow> ssh_st \<times> connectionInfo \<times> (goerror + client)" where
  "dialJump env t st = (case dialChain env t ptyExtensions st of
     (st1, Inl e) \<Rightarrow> (st1, connection_info None t True, Inl e)
   | (st1, Inr c) \<Rightarrow> (st1, connection_info (Some c) t True, Inr c))"

definition dialTarget :: "ssh_env \<Rightarrow> target \<Rightarrow> ssh_st \<Rightarrow> ssh_st \<times> connectionInfo \<times> (goerror + client)" where
  "dialTarget env t st =
    (if tg_SkipDirect t \<and> tg_Jump t \<noteq> None then dialJump env t st
     else case dialSingle env t ptyExtensions st of
       (st1, Inr c) \<Rightarrow> (st1, connection_info (Some c) t False, Inr c)
     | (st1, Inl directErr) \<Rightarrow>
         if tg_Jump t = None then (st1, connection_info None t False, Inl directErr)
         else (case dialJump env t st1 of
             (st2, info, Inl jumpErr) \<Rightarrow>
               (st2, info, Inl (Wrapf (''direct connection failed: '' @ err_text directErr @ ''; jump connection failed'') jumpErr))
           | (st2, info, Inr c) \<Rightarrow> (st2, info, Inr c)))"

definition sshc_Connect ::
  "ssh_env \<Rightarrow> target \<Rightarrow> (connectionInfo \<Rightarrow> ssh_st \<Rightarrow> ssh_st) \<Rightarrow> ssh_st \<Rightarrow> ssh_st \<times> connectionInfo \<times> goerror option" where
  "sshc_Connect env t afterDial st = (case dialTarget env t st of
     (st1, info, Inl e) \<Rightarrow> (st1, info, Some e)
   | (st1, info, Inr c) \<Rightarrow>
       let st2 = emit_ev ShellStarted (afterDial info st1) in
       (close_all (snd c) st2, info, e_shell env (trace st2)))"

record runResult =
  rr_Stdout :: string
  rr_Stderr :: string
  rr_ExitCode :: int

definition no_result :: runResult where
  "no_result = \<lparr>rr_Stdout = [], rr_Stderr = [], rr_ExitCode = 0\<rparr>"

definition RunWithInput :: "ssh_env \<Rightarrow> target \<Rightarrow> string \<Rightarrow> ssh_st \<Rightarrow> ssh_st \<times> runResult \<times> connectionInfo \<times> goerror option" where
  "RunWithInput env t command st = (case dialTarget env t st of
     (st1, info, Inl e) \<Rightarrow> (st1, no_result, info, Some e)
   | (st1, info, Inr c) \<Rightarrow> (case e_session env (trace st1) of
       Some e \<Rightarrow> (close_all (snd c) st1, no_result, info, Some e)
     | None \<Rightarrow>
         let st2 = emit_ev (CommandStarted command) st1; st3 = close_all (snd c) st2 in
         (case e_run env (trace st2) command of
            CtxDone out err e \<Rightarrow> (st3, \<lparr>rr_Stdout = out, rr_Stderr = err, rr_ExitCode = 0\<rparr>, info, Some e)
          | Exited out err code \<Rightarrow> (st3, \<lparr>rr_Stdout = out, rr_Stderr = err, rr_ExitCode = code\<rparr>, info, None)
          | Ran out err e \<Rightarrow> (st3, \<lparr>rr_Stdout = out, rr_Stderr = err, rr_ExitCode = 0\<rparr>, info, e))))"

section \<open>The connector\<close>

record access_result =
  ar_Host :: string
  ar_Addr :: string
  ar_Stdout :: string
  ar_Stderr :: string
  ar_ExitCode :: int

definition truncateAuditError :: "string \<Rightarrow> string" where
  "truncateAuditError s = (if length s \<le> 500 then s else take 500 s)"

definition accessEntry ::
  "ssh_env \<Rightarrow> string \<Rightarrow> target \<Rightarrow> connectionInfo \<Rightarrow> string \<Rightarrow> gotime \<Rightarrow> goerror option \<Rightarrow> access_entry" where
  "accessEntry env vaultUser tgt info certSerial t0 connErr =
    (let u = (case e_clientUser env of Some name \<Rightarrow> name | None \<Rightarrow> []) in
     \<lparr>VaultUser = vaultUser, ae_Hostname = tg_Name tgt, CertSerial = certSerial, SignedAt = t0, ae_OK = (connErr = None),
      SourceIP = ci_SourceIP info, SourceAddr = ci_SourceAddr info, ClientHost = e_clientHost env,
      ClientUser = (if u = [] then e_userVar env else u),
      TargetAddr = FirstNonEmpty [ci_TargetAddr info, tg_Addr tgt], ae_JumpVia = ci_JumpHost info,
      ae_Error = (case connErr of Some e \<Rightarrow> truncateAuditError (err_text e) | None \<Rightarrow> [])\<rparr>)"

definition record_entry :: "ssh_env \<Rightarrow> access_entry \<Rightarrow> ssh_st \<Rightarrow> ssh_st" where
  "record_entry env entry st =
    (let st1 = emit_ev (Audited entry (e_audit env (trace st) entry = None)) st in
     if e_audit env (trace st) entry \<noteq> None \<and> e_onAuditError env then emit_ev AuditWarning st1 else st1)"

definition attributedIdentity :: "ssh_env \<Rightarrow> ssh_st \<Rightarrow> ssh_st \<times> string" where
  "attributedIdentity env st = (case e_identity env (trace st) of (i, err) \<Rightarrow>
     (if err \<noteq> None \<and> e_onAuditError env then emit_ev AuditWarning st else st, i))"

definition fresh_st :: ssh_st where
  "fresh_st = \<lparr>trace = [], serial = [], signedAt = 0\<rparr>"

record access_request =
  rq_Target :: target
  rq_HostKey :: hostKeyPolicy

definition was_recorded :: "ssh_st \<Rightarrow> bool" where
  "was_recorded st = list_ex (\<lambda>ev. case ev of Audited _ _ \<Rightarrow> True | _ \<Rightarrow> False) (trace st)"

definition Connect :: "ssh_env \<Rightarrow> access_request \<Rightarrow> ssh_st \<times> goerror option" where
  "Connect env req =
    (let tgt = policy_apply (rq_HostKey req) (rq_Target req) in
     case attributedIdentity env fresh_st of (st0, vaultUser) \<Rightarrow>
       (case sshc_Connect env tgt
           (\<lambda>dialed st. record_entry env (accessEntry env vaultUser tgt dialed (serial st) (signedAt st) None) st) st0 of
          (st1, info, err) \<Rightarrow>
            (if was_recorded st1 then st1
             else record_entry env (accessEntry env vaultUser tgt info (serial st1) (signedAt st1) err) st1, err)))"

definition access_run ::
  "ssh_env \<Rightarrow> access_request \<Rightarrow> string \<Rightarrow> ssh_st \<times> access_result \<times> access_entry \<times> goerror option" where
  "access_run env req command =
    (let tgt = policy_apply (rq_HostKey req) (rq_Target req) in
     case attributedIdentity env fresh_st of (st0, vaultUser) \<Rightarrow>
       (case RunWithInput env tgt command st0 of (st1, res, info, err) \<Rightarrow>
          (st1, \<lparr>ar_Host = tg_Name tgt, ar_Addr = tg_Addr tgt, ar_Stdout = rr_Stdout res, ar_Stderr = rr_Stderr res,
             ar_ExitCode = rr_ExitCode res\<rparr>,
           accessEntry env vaultUser tgt info (serial st1) (signedAt st1) err, err)))"

definition ExecuteWithInput :: "ssh_env \<Rightarrow> access_request \<Rightarrow> string \<Rightarrow> ssh_st \<times> access_result \<times> goerror option" where
  "ExecuteWithInput env req command = (case access_run env req command of
     (st, res, entry, err) \<Rightarrow> (record_entry env entry st, res, err))"

definition exec_command :: "ssh_env \<Rightarrow> access_request \<Rightarrow> string \<Rightarrow> ssh_st \<times> access_result \<times> goerror option" where
  "exec_command env req command = ExecuteWithInput env req command"

section \<open>The monitor\<close>

type_synonym monitor = "(string, bool) gomap" \<comment> \<open>the last recorded outcome of each target\<close>

definition shouldRecord :: "monitor \<Rightarrow> string \<Rightarrow> bool \<Rightarrow> monitor \<times> bool" where
  "shouldRecord m name ok = (AList.update name ok m, case map_of m name of None \<Rightarrow> True | Some prev \<Rightarrow> prev \<noteq> ok)"

definition Poll :: "ssh_env \<Rightarrow> monitor \<Rightarrow> access_request \<Rightarrow> string \<Rightarrow> monitor \<times> ssh_st \<times> access_result \<times> goerror option" where
  "Poll env m req command = (case access_run env req command of (st, res, entry, err) \<Rightarrow>
     (case shouldRecord m (tg_Name (rq_Target req)) (err = None) of (m', new) \<Rightarrow>
        (m', if new then record_entry env entry st else st, res, err)))"

section \<open>What dialling does\<close>

definition opened :: "ssh_event list \<Rightarrow> string list" where
  "opened evs = concat (map (\<lambda>ev. case ev of Opened n \<Rightarrow> [n] | _ \<Rightarrow> []) evs)"

definition closed :: "ssh_event list \<Rightarrow> string list" where
  "closed evs = concat (map (\<lambda>ev. case ev of Closed n \<Rightarrow> [n] | _ \<Rightarrow> []) evs)"

definition audits :: "ssh_event list \<Rightarrow> access_entry list" where
  "audits evs = concat (map (\<lambda>ev. case ev of Audited e _ \<Rightarrow> [e] | _ \<Rightarrow> []) evs)"

lemma trace_views [simp]:
  "opened (xs @ ys) = opened xs @ opened ys" "closed (xs @ ys) = closed xs @ closed ys" "audits (xs @ ys) = audits xs @ audits ys"
  "opened [] = []" "closed [] = []" "audits [] = []" "opened (map Closed ns) = []" "closed (map Closed ns) = ns" "audits (map Closed ns) = []"
  "opened (ev # evs) = (case ev of Opened n \<Rightarrow> [n] | _ \<Rightarrow> []) @ opened evs"
  "closed (ev # evs) = (case ev of Closed n \<Rightarrow> [n] | _ \<Rightarrow> []) @ closed evs"
  "audits (ev # evs) = (case ev of Audited e _ \<Rightarrow> [e] | _ \<Rightarrow> []) @ audits evs"
  by (simp_all add: opened_def closed_def audits_def comp_def)

text \<open>The events a dial may cause: certificates for the dialled hop with the given extensions, certificates
  for the hops behind it with port forwarding only, and connections opened and closed.\<close>

definition dial_event :: "target \<Rightarrow> string list \<Rightarrow> ssh_event \<Rightarrow> bool" where
  "dial_event t extensions ev = (case ev of
     Sign role ps xs \<Rightarrow> (role, ps, xs) = (tg_Role t, [tg_User t], extensions) \<or>
       (\<exists>h \<in> set (tl (hops t)). (role, ps, xs) = (tg_Role h, [tg_User h], portForwardExtensions))
   | Dial a \<Rightarrow> \<exists>h \<in> set (hops t). a = tg_Addr h
   | Via v a \<Rightarrow> \<exists>h \<in> set (hops t). tg_Jump h \<noteq> None \<and> a = tg_Addr h
   | Opened _ \<Rightarrow> True | Closed _ \<Rightarrow> True | _ \<Rightarrow> False)"

definition signed_for :: "ssh_env \<Rightarrow> target \<Rightarrow> string list \<Rightarrow> ssh_st \<Rightarrow> bool" where
  "signed_for env t extensions st \<longleftrightarrow> (\<exists>pre cert s. e_sign env pre (tg_Role t) [tg_User t] extensions = Inr cert \<and>
     e_cert env cert = Cert s \<and> (s = [] \<or> serial st = s))"

text \<open>A channel through a client ends with it: the client is among those closed later, or to be closed.\<close>

fun via_closed :: "string list \<Rightarrow> ssh_event list \<Rightarrow> bool" where
  "via_closed ns [] \<longleftrightarrow> True"
| "via_closed ns (ev # evs) \<longleftrightarrow> (case ev of Via v a \<Rightarrow> v \<in> set (closed evs) \<union> set ns | _ \<Rightarrow> True) \<and> via_closed ns evs"

definition dial_spec :: "ssh_env \<Rightarrow> target \<Rightarrow> string list \<Rightarrow> ssh_st \<Rightarrow> ssh_st \<Rightarrow> (goerror + client) \<Rightarrow> bool" where
  "dial_spec env t extensions st st' r \<longleftrightarrow> (\<exists>evs. trace st' = trace st @ evs \<and> list_all (dial_event t extensions) evs \<and>
     mset (opened evs) = mset (closed evs) + (case r of Inl _ \<Rightarrow> {#} | Inr c \<Rightarrow> mset (snd c)) \<and>
     via_closed (case r of Inl _ \<Rightarrow> [] | Inr c \<Rightarrow> snd c) evs \<and> (\<forall>c. r = Inr c \<longrightarrow> snd c \<noteq> []) \<and>
     ((\<exists>c. r = Inr c) \<longrightarrow> signed_for env t extensions st'))"

lemma via_closed_append: "via_closed ns (xs @ ys) \<longleftrightarrow> via_closed (closed ys @ ns) xs \<and> via_closed ns ys"
  by (induction xs) (auto split: ssh_event.splits)

lemma via_closed_mono: "via_closed ns evs \<Longrightarrow> set ns \<subseteq> set ns' \<Longrightarrow> via_closed ns' evs"
  by (induction evs) (auto split: ssh_event.splits)

lemma via_closed_map [simp]: "via_closed ns (map Closed ms)"
  by (induction ms) simp_all

lemma via_closed_at: "via_closed ns (a @ Via v x # b) \<Longrightarrow> v \<in> set (closed b) \<union> set ns"
  by (simp add: via_closed_append)

lemma hops_hd: "hops t = t # tl (hops t)"
  by (cases t; cases "tg_Jump t") auto

lemma emit_ev_simps [simp]: "trace (emit_ev ev st) = trace st @ [ev]" "serial (emit_ev ev st) = serial st" "signedAt (emit_ev ev st) = signedAt st"
  by (simp_all add: emit_ev_def)

lemma signed_for_emit [simp]: "signed_for env t x (emit_ev ev st) = signed_for env t x st"
  by (simp add: signed_for_def)

lemma close_all_simps [simp]: "trace (close_all ns st) = trace st @ map Closed ns" "serial (close_all ns st) = serial st"
  by (simp_all add: close_all_def)

lemma clientConfig_trace:
  assumes "clientConfig env t extensions st = (st', r)"
  obtains evs where "trace st' = trace st @ evs" "list_all (dial_event t extensions) evs" "opened evs = []" "closed evs = []" "\<And>ns. via_closed ns evs"
    "r = None \<Longrightarrow> signed_for env t extensions st'"
proof -
  have "\<exists>evs. trace st' = trace st @ evs \<and> list_all (dial_event t extensions) evs \<and> opened evs = [] \<and> closed evs = [] \<and> (\<forall>ns. via_closed ns evs) \<and>
    (r = None \<longrightarrow> signed_for env t extensions st')"
  proof (cases "e_key env (trace st)")
    case (Some e)
    then show ?thesis using assms by (auto simp: clientConfig_def certSigner_def intro!: exI [of _ "[]"])
  next
    case None
    let ?ev = "Sign (tg_Role t) [tg_User t] extensions"
    have ok: "list_all (dial_event t extensions) [?ev]" by (simp add: dial_event_def)
    show ?thesis
    proof (cases "e_sign env (trace st) (tg_Role t) [tg_User t] extensions")
      case (Inl e)
      with None assms ok show ?thesis
        by (auto simp: clientConfig_def certSigner_def sign_call_def intro!: exI [of _ "[?ev]"])
    next
      case (Inr cert)
      have "trace st' = trace st @ [?ev]" using None assms Inr
        by (auto simp: clientConfig_def certSigner_def sign_call_def Let_def split: cert_parse.splits if_splits)
      moreover have "r = None \<Longrightarrow> \<exists>s. e_cert env cert = Cert s \<and> (s = [] \<or> serial st' = s)" using None assms Inr
        by (auto simp: clientConfig_def certSigner_def sign_call_def CertSerial_of_def Let_def split: cert_parse.splits if_splits)
      ultimately show ?thesis using ok Inr unfolding signed_for_def by (intro exI [of _ "[?ev]"]) auto
    qed
  qed
  then show ?thesis using that by blast
qed

lemma dialSingle_spec:
  assumes "dialSingle env t extensions st = (st', r)"
  shows "dial_spec env t extensions st st' r"
proof -
  obtain st1 r1 where 1: "clientConfig env t extensions st = (st1, r1)" by (cases "clientConfig env t extensions st")
  from clientConfig_trace [OF 1] obtain evs where
    e: "trace st1 = trace st @ evs" "list_all (dial_event t extensions) evs" "opened evs = []" "closed evs = []" "\<And>ns. via_closed ns evs"
      "r1 = None \<Longrightarrow> signed_for env t extensions st1" by blast
  have o: "dial_event t extensions (Opened n)" "dial_event t extensions (Dial (tg_Addr t))" for n
    using hops_hd [of t] by (simp_all add: dial_event_def) (metis list.set_intros(1))
  have s: "signed_for env t extensions (emit_ev ev st1)" if "signed_for env t extensions st1" for ev
    using that by (simp add: signed_for_def)
  show ?thesis
  proof (cases "r1 = None \<and> (\<exists>local. e_dial env (trace st1) t = Inr local)")
    case True
    with 1 assms e o s show ?thesis
      by (auto simp: dialSingle_def dial_spec_def via_closed_append intro!: exI [of _ "evs @ [Dial (tg_Addr t), Opened (tg_Name t)]"])
  next
    case False
    then have "trace st' = trace st1 @ (if r1 = None then [Dial (tg_Addr t)] else []) \<and> (\<exists>err. r = Inl err)" using 1 assms
      by (cases "e_dial env (trace st1) t") (auto simp: dialSingle_def split: option.splits)
    with e o show ?thesis by (auto simp: dial_spec_def via_closed_append intro!: exI [of _ "evs @ (if r1 = None then [Dial (tg_Addr t)] else [])"])
  qed
qed

lemma dialThrough_spec:
  assumes "dialThrough env t extensions jc st = (st', r)" "tg_Jump t \<noteq> None" "snd jc \<noteq> []"
  obtains evs where "trace st' = trace st @ evs" "list_all (dial_event t extensions) evs"
    "mset (opened evs) + mset (snd jc) = mset (closed evs) + (case r of Inl _ \<Rightarrow> {#} | Inr c \<Rightarrow> mset (snd c))"
    "via_closed (case r of Inl _ \<Rightarrow> [] | Inr c \<Rightarrow> snd c) evs" "\<And>c. r = Inr c \<Longrightarrow> snd c = tg_Name t # snd jc"
    "(\<exists>c. r = Inr c) \<Longrightarrow> signed_for env t extensions st'"
proof -
  let ?v = "Via (hd (snd jc)) (tg_Addr t)"
  have h: "hd (snd jc) \<in> set (snd jc)" using assms(3) by simp
  have cl: "list_all (dial_event t extensions) (map Closed ns)" for ns by (simp add: dial_event_def list_all_iff)
  have o: "dial_event t extensions (Opened n)" "dial_event t extensions ?v" for n
    using hops_hd [of t] assms(2) by (simp_all add: dial_event_def) (metis list.set_intros(1))
  show ?thesis
  proof (cases "e_jumpDial env (trace st) t")
    case (Some e)
    then show ?thesis using assms cl o h by (intro that [of "?v # map Closed (snd jc)"]) (auto simp: dialThrough_def)
  next
    case None
    let ?st = "emit_ev ?v st"
    obtain st1 r1 where 1: "clientConfig env t extensions ?st = (st1, r1)" by (cases "clientConfig env t extensions ?st")
    from clientConfig_trace [OF 1] obtain evs where
      e: "trace st1 = trace ?st @ evs" "list_all (dial_event t extensions) evs" "opened evs = []" "closed evs = []" "\<And>ns. via_closed ns evs"
        "r1 = None \<Longrightarrow> signed_for env t extensions st1" by blast
    have s: "signed_for env t extensions (emit_ev ev st1)" if "signed_for env t extensions st1" for ev
      using that by (simp add: signed_for_def)
    show ?thesis
    proof (cases "r1 = None \<and> (\<exists>local. e_handshake env (trace st1) t = Inr local)")
      case True
      with None 1 assms e o s h show ?thesis
        by (intro that [of "?v # evs @ [Opened (tg_Name t)]"]) (auto simp: dialThrough_def via_closed_append Let_def)
    next
      case False
      then have "st' = close_all (snd jc) st1 \<and> (\<exists>err. r = Inl err)" using None 1 assms
        by (cases "e_handshake env (trace st1) t") (auto simp: dialThrough_def Let_def split: option.splits)
      with e cl o h show ?thesis by (intro that [of "?v # evs @ map Closed (snd jc)"]) (auto simp: via_closed_append)
    qed
  qed
qed

lemma dial_event_jump:
  assumes "tg_Jump t = Some j" "dial_event j portForwardExtensions ev"
  shows "dial_event t extensions ev"
proof -
  have "tl (hops t) = hops j" using assms(1) by (cases t) auto
  then have "set (tl (hops t)) = insert j (set (tl (hops j)))" "set (hops j) \<subseteq> set (hops t)" using hops_hd [of j] hops_hd [of t]
    by (metis list.simps(15), metis set_subset_Cons)
  with assms(2) show ?thesis by (auto simp: dial_event_def split: ssh_event.splits)
qed

lemma dialChain_spec: "dialChain env t extensions st = (st', r) \<Longrightarrow> dial_spec env t extensions st st' r"
proof (induction env t extensions st arbitrary: st' r rule: dialChain.induct)
  case (1 env n a u ro sd c x extensions st)
  then show ?case by (simp add: dialSingle_spec)
next
  case (2 env n a u ro sd c x j extensions st)
  let ?t = "Target n a u ro sd c x (Some j)"
  obtain st1 r1 where 1: "dialChain env j portForwardExtensions st = (st1, r1)" by (cases "dialChain env j portForwardExtensions st")
  from "2.IH" [OF 1] obtain evs where e: "trace st1 = trace st @ evs" "list_all (dial_event j portForwardExtensions) evs"
    "mset (opened evs) = mset (closed evs) + (case r1 of Inl _ \<Rightarrow> {#} | Inr c \<Rightarrow> mset (snd c))"
    "via_closed (case r1 of Inl _ \<Rightarrow> [] | Inr c \<Rightarrow> snd c) evs" "\<forall>c. r1 = Inr c \<longrightarrow> snd c \<noteq> []"
    unfolding dial_spec_def by blast
  have d: "list_all (dial_event ?t extensions) evs"
    using e(2) dial_event_jump [of ?t j] by (simp add: list_all_iff)
  show ?case
  proof (cases r1)
    case (Inl err)
    then show ?thesis using "2.prems" 1 e d by (auto simp: dial_spec_def)
  next
    case (Inr jc)
    then have "dialThrough env ?t extensions jc st1 = (st', r)" using "2.prems" 1 by simp
    from dialThrough_spec [OF this] e(5) Inr obtain evs' where n: "trace st' = trace st1 @ evs'" "list_all (dial_event ?t extensions) evs'"
      "mset (opened evs') + mset (snd jc) = mset (closed evs') + (case r of Inl _ \<Rightarrow> {#} | Inr c \<Rightarrow> mset (snd c))"
      "via_closed (case r of Inl _ \<Rightarrow> [] | Inr c \<Rightarrow> snd c) evs'" "\<And>c. r = Inr c \<Longrightarrow> snd c = tg_Name ?t # snd jc"
      "(\<exists>c. r = Inr c) \<Longrightarrow> signed_for env ?t extensions st'" by auto
    let ?ns = "case r of Inl _ \<Rightarrow> [] | Inr c \<Rightarrow> snd c"
    have "set_mset (mset (snd jc)) \<subseteq> set_mset (mset (opened evs') + mset (snd jc))" by simp
    then have "set (snd jc) \<subseteq> set (closed evs' @ ?ns)" unfolding n(3) by (cases r) simp_all
    then have "via_closed (closed evs' @ ?ns) evs" using e(4) Inr by (simp only: sum.case) (rule via_closed_mono)
    then have "via_closed ?ns (evs @ evs')" using n(4) by (simp add: via_closed_append)
    moreover have "\<forall>c. r = Inr c \<longrightarrow> snd c \<noteq> []" using n(5) by simp
    ultimately show ?thesis using e(1-3) n(1-3,6) d Inr unfolding dial_spec_def
      by (intro exI [of _ "evs @ evs'"]) (auto simp: ac_simps)
  qed
qed

lemma dial_spec_trans:
  assumes "dial_spec env t extensions st st1 (Inl e)" "dial_spec env t extensions st1 st2 r"
  shows "dial_spec env t extensions st st2 r"
proof -
  from assms(1) obtain evs where 1: "trace st1 = trace st @ evs" "list_all (dial_event t extensions) evs"
    "mset (opened evs) = mset (closed evs)" "via_closed [] evs" by (auto simp: dial_spec_def)
  from assms(2) obtain fvs where 2: "trace st2 = trace st1 @ fvs" "list_all (dial_event t extensions) fvs"
    "mset (opened fvs) = mset (closed fvs) + (case r of Inl _ \<Rightarrow> {#} | Inr c \<Rightarrow> mset (snd c))"
    "via_closed (case r of Inl _ \<Rightarrow> [] | Inr c \<Rightarrow> snd c) fvs" "\<forall>c. r = Inr c \<longrightarrow> snd c \<noteq> []"
    "(\<exists>c. r = Inr c) \<longrightarrow> signed_for env t extensions st2" unfolding dial_spec_def by blast
  moreover have "via_closed (closed fvs @ ns) evs" for ns by (rule via_closed_mono [OF 1(4)]) simp
  ultimately show ?thesis using 1 unfolding dial_spec_def by (intro exI [of _ "evs @ fvs"]) (auto simp: ac_simps via_closed_append)
qed

lemma dial_spec_err: "dial_spec env t extensions st st' (Inl e) \<Longrightarrow> dial_spec env t extensions st st' (Inl e')"
  by (simp add: dial_spec_def)

lemma dialJump_spec: "dialJump env t st = (st', info, r) \<Longrightarrow> dial_spec env t ptyExtensions st st' r"
  by (auto simp: dialJump_def split: prod.splits sum.splits dest!: dialChain_spec)

lemma dialTarget_spec:
  assumes "dialTarget env t st = (st', info, r)"
  shows "dial_spec env t ptyExtensions st st' r"
proof (cases "tg_SkipDirect t \<and> tg_Jump t \<noteq> None")
  case True
  then show ?thesis using assms by (auto simp: dialTarget_def dest: dialJump_spec)
next
  case False
  obtain st1 r1 where 1: "dialSingle env t ptyExtensions st = (st1, r1)" by (cases "dialSingle env t ptyExtensions st")
  note s1 = dialSingle_spec [OF 1]
  show ?thesis
  proof (cases r1)
    case (Inr c)
    with False 1 assms s1 show ?thesis by (auto simp: dialTarget_def)
  next
    case (Inl e)
    obtain st2 i2 r2 where 2: "dialJump env t st1 = (st2, i2, r2)" by (cases "dialJump env t st1")
    have "dial_spec env t ptyExtensions st st2 r2" using dial_spec_trans [OF s1 [unfolded Inl] dialJump_spec [OF 2]] .
    with False 1 2 Inl assms s1 show ?thesis
      by (cases r2) (auto simp: dialTarget_def split: if_splits intro: dial_spec_err)
  qed
qed

section \<open>Every attempt leaves one audit row\<close>

definition is_dial_event :: "ssh_event \<Rightarrow> bool" where
  "is_dial_event ev = (case ev of Sign _ _ _ \<Rightarrow> True | Dial _ \<Rightarrow> True | Via _ _ \<Rightarrow> True | Opened _ \<Rightarrow> True | Closed _ \<Rightarrow> True | _ \<Rightarrow> False)"

lemma dial_event_quiet: "dial_event t extensions ev \<Longrightarrow> is_dial_event ev"
  by (simp add: dial_event_def is_dial_event_def split: ssh_event.splits)

lemma quiet_views:
  assumes "list_all is_dial_event evs"
  shows "audits evs = []" "ShellStarted \<notin> set evs" "CommandStarted cmd \<notin> set evs"
  using assms by (induction evs) (auto simp: is_dial_event_def split: ssh_event.splits)

lemma dialTarget_quiet:
  assumes "dialTarget env t st = (st', info, r)"
  obtains evs where "trace st' = trace st @ evs" "list_all (dial_event t ptyExtensions) evs" "audits evs = []" "ShellStarted \<notin> set evs"
    "mset (opened evs) = mset (closed evs) + (case r of Inl _ \<Rightarrow> {#} | Inr c \<Rightarrow> mset (snd c))"
    "via_closed (case r of Inl _ \<Rightarrow> [] | Inr c \<Rightarrow> snd c) evs"
    "(\<exists>c. r = Inr c) \<longrightarrow> signed_for env t ptyExtensions st'"
proof -
  from dialTarget_spec [OF assms] obtain evs where e: "trace st' = trace st @ evs" "list_all (dial_event t ptyExtensions) evs"
    "mset (opened evs) = mset (closed evs) + (case r of Inl _ \<Rightarrow> {#} | Inr c \<Rightarrow> mset (snd c))"
    "via_closed (case r of Inl _ \<Rightarrow> [] | Inr c \<Rightarrow> snd c) evs"
    "(\<exists>c. r = Inr c) \<longrightarrow> signed_for env t ptyExtensions st'" unfolding dial_spec_def by blast
  have "list_all is_dial_event evs" using e(2) dial_event_quiet by (auto simp: list_all_iff)
  from quiet_views [OF this] e that show ?thesis by blast
qed

definition warnings :: "ssh_event list \<Rightarrow> bool" where
  "warnings evs \<longleftrightarrow> set evs \<subseteq> {AuditWarning}"

lemma warnings_views: "warnings evs \<Longrightarrow> audits evs = [] \<and> opened evs = [] \<and> closed evs = []"
  unfolding warnings_def by (induction evs) auto

lemma warnings_via: "warnings evs \<Longrightarrow> via_closed ns evs"
  unfolding warnings_def by (induction evs) auto

lemma record_entry_trace: "\<exists>w. warnings w \<and> trace (record_entry env entry st) = trace st @ [Audited entry (e_audit env (trace st) entry = None)] @ w \<and>
    (AuditWarning \<in> set w \<longleftrightarrow> e_audit env (trace st) entry \<noteq> None \<and> e_onAuditError env)"
  by (cases "e_audit env (trace st) entry \<noteq> None \<and> e_onAuditError env")
     (auto simp: record_entry_def Let_def warnings_def intro!: exI [of _ "[AuditWarning]"] exI [of _ "[]"])

lemma attributedIdentity_trace:
  assumes "attributedIdentity env fresh_st = (st, i)"
  shows "warnings (trace st)" "serial st = []"
  using assms by (auto simp: attributedIdentity_def fresh_st_def warnings_def split: prod.splits if_splits)

lemma was_recorded_iff: "was_recorded st \<longleftrightarrow> audits (trace st) \<noteq> []"
  by (auto simp: was_recorded_def audits_def list_ex_iff split: ssh_event.splits)

lemma accessEntry_simps [simp]:
  "ae_OK (accessEntry env u t info s at' err) = (err = None)" "ae_Hostname (accessEntry env u t info s at' err) = tg_Name t"
  "CertSerial (accessEntry env u t info s at' err) = s" "VaultUser (accessEntry env u t info s at' err) = u"
  "ae_Error (accessEntry env u t info s at' err) = (case err of Some e \<Rightarrow> truncateAuditError (err_text e) | None \<Rightarrow> [])"
  by (simp_all add: accessEntry_def Let_def)

lemma signed_for_serial:
  "serial st' = serial st \<Longrightarrow> signed_for env t x st' = signed_for env t x st"
  by (simp add: signed_for_def)

lemma policy_apply_name [simp]: "tg_Name (policy_apply p t) = tg_Name t" "tg_Role (policy_apply p t) = tg_Role t"
  "tg_User (policy_apply p t) = tg_User t" "tg_Addr (policy_apply p t) = tg_Addr t"
  by (cases t; cases "tg_Jump t"; simp)+

lemma policy_apply_jump [simp]: "tg_Jump (policy_apply p t) = map_option (policy_apply p) (tg_Jump t)"
  by (cases t; cases "tg_Jump t"; simp)

text \<open>What an interactive connection leaves behind: the row stands before the shell and says whether the
  dial succeeded; every connection opened was closed.\<close>

definition connect_spec :: "ssh_env \<Rightarrow> target \<Rightarrow> string \<Rightarrow> ssh_event list \<Rightarrow> goerror option \<Rightarrow> bool" where
  "connect_spec env t user tr err \<longleftrightarrow> (\<exists>pre entry ok post. tr = pre @ [Audited entry ok] @ post \<and> audits pre = [] \<and> audits post = [] \<and>
     (ok \<longleftrightarrow> e_audit env pre entry = None) \<and> (\<not> ok \<longrightarrow> e_onAuditError env \<longrightarrow> AuditWarning \<in> set post) \<and>
     ShellStarted \<notin> set pre \<and> (ShellStarted \<in> set post \<longleftrightarrow> ae_OK entry) \<and>
     ae_Hostname entry = tg_Name t \<and> VaultUser entry = user \<and> via_closed [] tr \<and>
     (\<not> ae_OK entry \<longrightarrow> (\<exists>e. err = Some e \<and> ae_Error entry = truncateAuditError (err_text e))) \<and>
     (ae_OK entry \<longrightarrow> (\<exists>h cert s. e_sign env h (tg_Role t) [tg_User t] ptyExtensions = Inr cert \<and> e_cert env cert = Cert s \<and>
        (s = [] \<or> CertSerial entry = s))) \<and>
     mset (opened tr) = mset (closed tr))"

lemma connect_specI:
  assumes "tr = pre @ [Audited entry ok] @ post" "audits pre = []" "audits post = []" "ShellStarted \<notin> set pre"
    "ok \<longleftrightarrow> e_audit env pre entry = None" "\<not> ok \<Longrightarrow> e_onAuditError env \<Longrightarrow> AuditWarning \<in> set post" "via_closed [] tr"
    "ShellStarted \<in> set post \<longleftrightarrow> ae_OK entry" "ae_Hostname entry = tg_Name t" "VaultUser entry = user"
    "\<not> ae_OK entry \<Longrightarrow> \<exists>e. err = Some e \<and> ae_Error entry = truncateAuditError (err_text e)"
    "ae_OK entry \<Longrightarrow> \<exists>h cert s. e_sign env h (tg_Role t) [tg_User t] ptyExtensions = Inr cert \<and> e_cert env cert = Cert s \<and>
       (s = [] \<or> CertSerial entry = s)"
    "mset (opened tr) = mset (closed tr)"
  shows "connect_spec env t user tr err"
  unfolding connect_spec_def
  by (rule exI [of _ pre], rule exI [of _ entry], rule exI [of _ ok], rule exI [of _ post]) (use assms in blast)

lemma Connect_spec:
  "connect_spec env (rq_Target req) (fst (e_identity env [])) (trace (fst (Connect env req))) (snd (Connect env req))"
proof -
  let ?t = "policy_apply (rq_HostKey req) (rq_Target req)"
  obtain st0 vu where 0: "attributedIdentity env fresh_st = (st0, vu)" by (cases "attributedIdentity env fresh_st")
  have vu: "vu = fst (e_identity env [])" using 0 by (auto simp: attributedIdentity_def fresh_st_def split: prod.splits if_splits)
  note w0 = attributedIdentity_trace [OF 0] and v0 = warnings_views [OF attributedIdentity_trace(1) [OF 0]]
  have n0: "ShellStarted \<notin> set (trace st0)" using w0 by (auto simp: warnings_def)
  obtain st1 info r where 1: "dialTarget env ?t st0 = (st1, info, r)" by (cases "dialTarget env ?t st0")
  obtain evs where e: "trace st1 = trace st0 @ evs" "list_all (dial_event ?t ptyExtensions) evs" "audits evs = []" "ShellStarted \<notin> set evs"
    "mset (opened evs) = mset (closed evs) + (case r of Inl _ \<Rightarrow> {#} | Inr c \<Rightarrow> mset (snd c))"
    "via_closed (case r of Inl _ \<Rightarrow> [] | Inr c \<Rightarrow> snd c) evs"
    "(\<exists>c. r = Inr c) \<longrightarrow> signed_for env ?t ptyExtensions st1" by (rule dialTarget_quiet [OF 1])
  have w0': "via_closed ns (trace st0)" for ns using w0(1) by (rule warnings_via)
  show ?thesis
  proof (cases r)
    case (Inl err)
    let ?entry = "accessEntry env vu ?t info (serial st1) (signedAt st1) (Some err)"
    let ?ok = "e_audit env (trace st1) ?entry = None"
    obtain w where w: "warnings w" "trace (record_entry env ?entry st1) = trace st1 @ [Audited ?entry ?ok] @ w"
      "AuditWarning \<in> set w \<longleftrightarrow> \<not> ?ok \<and> e_onAuditError env"
      using record_entry_trace [of env ?entry st1] by blast
    have c: "Connect env req = (record_entry env ?entry st1, Some err)"
      using 0 1 Inl e(1,3) v0 by (simp add: Connect_def sshc_Connect_def was_recorded_iff Let_def)
    have nw: "ShellStarted \<notin> set w" using w(1) by (auto simp: warnings_def)
    note vw = warnings_views [OF w(1)]
    have m: "mset (opened (trace st1)) = mset (closed (trace st1))" using e(1,5) v0 Inl by simp
    have vc: "via_closed ns evs" for ns
      using e(6) Inl via_closed_mono [of "[]" evs ns] by simp
    show ?thesis unfolding c fst_conv snd_conv w(2)
      by (rule connect_specI [OF refl]) (use e(1,3,4) v0 n0 vw nw vu m vc w0' w(3) warnings_via [OF w(1)] in \<open>simp_all add: via_closed_append\<close>)
  next
    case (Inr c)
    let ?entry = "accessEntry env vu ?t info (serial st1) (signedAt st1) None"
    let ?ok = "e_audit env (trace st1) ?entry = None"
    obtain w where w: "warnings w" "trace (record_entry env ?entry st1) = trace st1 @ [Audited ?entry ?ok] @ w"
      "AuditWarning \<in> set w \<longleftrightarrow> \<not> ?ok \<and> e_onAuditError env"
      using record_entry_trace [of env ?entry st1] by blast
    define st2 where "st2 = emit_ev ShellStarted (record_entry env ?entry st1)"
    have t2: "trace (close_all (snd c) st2) = trace st1 @ [Audited ?entry ?ok] @ w @ [ShellStarted] @ map Closed (snd c)"
      using w(2) by (simp add: st2_def)
    then have "audits (trace (close_all (snd c) st2)) \<noteq> []" by simp
    then have c: "Connect env req = (close_all (snd c) st2, e_shell env (trace st2))"
      using 0 1 Inr by (simp add: Connect_def sshc_Connect_def was_recorded_iff st2_def Let_def)
    note vw = warnings_views [OF w(1)]
    have m: "mset (opened (trace st1)) = mset (closed (trace st1)) + mset (snd c)" using e(1,5) v0 Inr by simp
    have vc: "via_closed (snd c) evs" using e(6) Inr by simp
    have "signed_for env ?t ptyExtensions st1" using e(7) Inr by blast
    then have sg: "\<exists>h cert s. e_sign env h (tg_Role (rq_Target req)) [tg_User (rq_Target req)] ptyExtensions = Inr cert \<and>
      e_cert env cert = Cert s \<and> (s = [] \<or> serial st1 = s)" by (simp add: signed_for_def)
    show ?thesis unfolding c fst_conv snd_conv t2
      by (rule connect_specI [OF refl]) (use e(1,3,4) v0 n0 vw vu m sg vc w0' w(3) warnings_via [OF w(1)] in \<open>simp_all add: via_closed_append\<close>)
  qed
qed

text \<open>The unattended run: same events, no row yet; the row it hands over says whether it failed.\<close>

lemma hops_policy_apply: "hops (policy_apply p t) = map (policy_apply p) (hops t)"
  by (induction t rule: hops.induct) auto

lemma dial_event_policy [simp]: "dial_event (policy_apply p t) extensions ev = dial_event t extensions ev"
  by (simp add: dial_event_def hops_policy_apply map_tl [symmetric] split: ssh_event.splits)

definition session_event :: "target \<Rightarrow> ssh_event \<Rightarrow> bool" where
  "session_event t ev = (case ev of Sign _ _ _ \<Rightarrow> dial_event t ptyExtensions ev | Dial _ \<Rightarrow> dial_event t ptyExtensions ev
     | Via _ _ \<Rightarrow> dial_event t ptyExtensions ev | _ \<Rightarrow> True)"

lemma session_event_simps [simp]:
  "session_event t (Opened n)" "session_event t (Closed n)" "session_event t (Audited e ok)" "session_event t AuditWarning"
  "session_event t ShellStarted" "session_event t (CommandStarted cmd)"
  by (simp_all add: session_event_def)

lemma dial_session_event: "dial_event t ptyExtensions ev \<Longrightarrow> session_event t ev"
  by (cases ev) (simp_all add: session_event_def)

lemma warnings_session: "warnings w \<Longrightarrow> list_all (session_event t) w"
  by (auto simp: warnings_def list_all_iff)

lemma record_entry_session:
  "list_all (session_event t) (trace (record_entry env entry st)) = list_all (session_event t) (trace st)"
  by (simp add: record_entry_def Let_def)

lemma record_entry_views [simp]:
  "audits (trace (record_entry env entry st)) = audits (trace st) @ [entry]"
  "opened (trace (record_entry env entry st)) = opened (trace st)" "closed (trace (record_entry env entry st)) = closed (trace st)"
  by (simp_all add: record_entry_def Let_def)

definition quiet_st :: "target \<Rightarrow> ssh_st \<Rightarrow> bool" where
  "quiet_st t st \<longleftrightarrow> audits (trace st) = [] \<and> list_all (session_event t) (trace st)"

lemma attributedIdentity_quiet:
  assumes "attributedIdentity env fresh_st = (st0, vu)"
  shows "quiet_st t st0" "opened (trace st0) = []" "closed (trace st0) = []" "vu = fst (e_identity env [])"
  using attributedIdentity_trace(1) [OF assms] assms
  by (auto simp: quiet_st_def warnings_views warnings_session attributedIdentity_def fresh_st_def split: prod.splits if_splits)

lemma dialTarget_keeps:
  assumes "dialTarget env (policy_apply p t) st = (st', info, r)" "quiet_st t st" "mset (opened (trace st)) = mset (closed (trace st))"
  shows "quiet_st t st'" "mset (opened (trace st')) = mset (closed (trace st')) + (case r of Inl _ \<Rightarrow> {#} | Inr c \<Rightarrow> mset (snd c))"
proof -
  obtain evs where e: "trace st' = trace st @ evs" "list_all (dial_event (policy_apply p t) ptyExtensions) evs" "audits evs = []"
    "ShellStarted \<notin> set evs" "mset (opened evs) = mset (closed evs) + (case r of Inl _ \<Rightarrow> {#} | Inr c \<Rightarrow> mset (snd c))"
    "via_closed (case r of Inl _ \<Rightarrow> [] | Inr c \<Rightarrow> snd c) evs"
    "(\<exists>c. r = Inr c) \<longrightarrow> signed_for env (policy_apply p t) ptyExtensions st'" by (rule dialTarget_quiet [OF assms(1)])
  from e(2) have "list_all (session_event t) evs" by (auto simp: list_all_iff dial_session_event)
  with e(1,3) assms(2) show "quiet_st t st'" by (simp add: quiet_st_def)
  show "mset (opened (trace st')) = mset (closed (trace st')) + (case r of Inl _ \<Rightarrow> {#} | Inr c \<Rightarrow> mset (snd c))"
    using e(1,5) assms(3) by (simp add: ac_simps)
qed

lemma RunWithInput_keeps:
  assumes "RunWithInput env (policy_apply p t) cmd st = (st', res, info, err)" "quiet_st t st"
    "mset (opened (trace st)) = mset (closed (trace st))"
  shows "quiet_st t st' \<and> mset (opened (trace st')) = mset (closed (trace st'))"
proof -
  obtain st1 i1 r where 1: "dialTarget env (policy_apply p t) st = (st1, i1, r)" by (cases "dialTarget env (policy_apply p t) st")
  note k = dialTarget_keeps [OF 1 assms(2,3)]
  have c: "list_all (session_event t) (map Closed ns)" for ns by (simp add: list_all_iff)
  show ?thesis
  proof (cases r)
    case (Inl e)
    with 1 k assms(1) show ?thesis by (simp add: RunWithInput_def)
  next
    case (Inr cl)
    show ?thesis
    proof (cases "e_session env (trace st1)")
      case (Some e)
      then have "st' = close_all (snd cl) st1" using 1 Inr assms(1) by (simp add: RunWithInput_def)
      with k c Inr show ?thesis by (simp add: quiet_st_def)
    next
      case None
      then have "st' = close_all (snd cl) (emit_ev (CommandStarted cmd) st1)" using 1 Inr assms(1)
        by (auto simp: RunWithInput_def Let_def split: run_outcome.splits)
      with k c Inr show ?thesis by (simp add: quiet_st_def)
    qed
  qed
qed

lemma access_run_spec:
  assumes "access_run env req cmd = (st, res, entry, err)"
  shows "quiet_st (rq_Target req) st" "mset (opened (trace st)) = mset (closed (trace st))"
    "ae_OK entry \<longleftrightarrow> err = None" "ae_Hostname entry = tg_Name (rq_Target req)" "VaultUser entry = fst (e_identity env [])"
    "CertSerial entry = serial st" "ae_Error entry = (case err of Some e \<Rightarrow> truncateAuditError (err_text e) | None \<Rightarrow> [])"
proof -
  let ?t = "policy_apply (rq_HostKey req) (rq_Target req)"
  obtain st0 vu where 0: "attributedIdentity env fresh_st = (st0, vu)" by (cases "attributedIdentity env fresh_st")
  note q0 = attributedIdentity_quiet [OF 0]
  obtain st1 r1 info e1 where 1: "RunWithInput env ?t cmd st0 = (st1, r1, info, e1)" by (cases "RunWithInput env ?t cmd st0")
  have r: "st = st1" "entry = accessEntry env vu ?t info (serial st1) (signedAt st1) e1" "err = e1"
    using assms 0 1 by (auto simp: access_run_def Let_def)
  have "quiet_st (rq_Target req) st \<and> mset (opened (trace st)) = mset (closed (trace st))"
    using RunWithInput_keeps [OF 1] q0 r by simp
  then show "quiet_st (rq_Target req) st" "mset (opened (trace st)) = mset (closed (trace st))" by blast+
  show "ae_OK entry \<longleftrightarrow> err = None" "ae_Hostname entry = tg_Name (rq_Target req)" "VaultUser entry = fst (e_identity env [])"
    "CertSerial entry = serial st" "ae_Error entry = (case err of Some e \<Rightarrow> truncateAuditError (err_text e) | None \<Rightarrow> [])"
    using r q0(4) by simp_all
qed

lemma Connect_session:
  "list_all (session_event (rq_Target req)) (trace (fst (Connect env req)))"
proof -
  let ?t = "policy_apply (rq_HostKey req) (rq_Target req)"
  obtain st0 vu where 0: "attributedIdentity env fresh_st = (st0, vu)" by (cases "attributedIdentity env fresh_st")
  obtain st1 info r where 1: "dialTarget env ?t st0 = (st1, info, r)" by (cases "dialTarget env ?t st0")
  have k: "list_all (session_event (rq_Target req)) (trace st1)"
    using dialTarget_keeps(1) [OF 1] attributedIdentity_quiet [OF 0] by (simp add: quiet_st_def)
  have c: "list_all (session_event t) (map Closed ns)" for t ns by (simp add: list_all_iff)
  from 0 1 k c show ?thesis
    by (cases r) (simp_all add: Connect_def sshc_Connect_def record_entry_session Let_def)
qed

lemma Connect_closes: "mset (opened (trace (fst (Connect env req)))) = mset (closed (trace (fst (Connect env req))))"
  using Connect_spec [of env req] by (auto simp: connect_spec_def)

lemma ExecuteWithInput_run:
  "ExecuteWithInput env req cmd = (st, res, err) \<longleftrightarrow>
    (\<exists>st0 entry. access_run env req cmd = (st0, res, entry, err) \<and> st = record_entry env entry st0)"
  by (auto simp: ExecuteWithInput_def split: prod.splits)

lemma Poll_run:
  "\<exists>st0 res entry err. access_run env req cmd = (st0, res, entry, err) \<and>
    fst (snd (Poll env m req cmd)) \<in> {st0, record_entry env entry st0}"
  by (cases "access_run env req cmd") (auto simp: Poll_def split: prod.splits)

section \<open>The properties of the pipeline\<close>

lemma via_closed_all: "via_closed [] evs \<Longrightarrow> evs = a @ Via v x # b \<Longrightarrow> Closed v \<in> set b"
proof -
  assume "via_closed [] evs" "evs = a @ Via v x # b"
  then have "v \<in> set (closed b)" using via_closed_at [of "[]" a v x b] by simp
  then show ?thesis by (auto simp: closed_def split: ssh_event.splits)
qed

text \<open>C14: an interactive connection hands exactly one row to the audit sink, before the shell starts: a process killed
  inside the session has recorded it. Recording is best effort: the row lands unless the sink refuses it, and the refusal is then
  reported to the caller's warning hook if it set one. The row names the target and the Vault identity; it says the access succeeded exactly when
  the shell was started, and then carries the serial of a certificate signed for the target itself with a terminal,
  whatever hops came before; a failed dial's row carries the (truncated) error the caller gets. Every client opened on the way, by a
  failed attempt or by a jump chain, is closed, and with it the connections asked of it to the next hop.\<close>

theorem connect_is_audited_once:
  assumes "Connect env req = (st, err)"
  shows "\<exists>pre entry ok post. trace st = pre @ [Audited entry ok] @ post \<and> audits pre = [] \<and> audits post = [] \<and>
     (ok \<longleftrightarrow> e_audit env pre entry = None) \<and> (\<not> ok \<longrightarrow> e_onAuditError env \<longrightarrow> AuditWarning \<in> set post) \<and>
     ShellStarted \<notin> set pre \<and> (ShellStarted \<in> set post \<longleftrightarrow> ae_OK entry) \<and>
     ae_Hostname entry = tg_Name (rq_Target req) \<and> VaultUser entry = fst (e_identity env []) \<and>
     (\<not> ae_OK entry \<longrightarrow> (\<exists>e. err = Some e \<and> ae_Error entry = truncateAuditError (err_text e))) \<and>
     (ae_OK entry \<longrightarrow> (\<exists>h cert s. e_sign env h (tg_Role (rq_Target req)) [tg_User (rq_Target req)] [''permit-pty''] = Inr cert \<and>
        e_cert env cert = Cert s \<and> (s = [] \<or> CertSerial entry = s))) \<and>
     mset (opened (trace st)) = mset (closed (trace st)) \<and>
     (\<forall>before v addr after. trace st = before @ Via v addr # after \<longrightarrow> Closed v \<in> set after)"
proof -
  have "connect_spec env (rq_Target req) (fst (e_identity env [])) (trace st) err" using Connect_spec [of env req] assms by simp
  then obtain pre entry ok post where c: "trace st = pre @ [Audited entry ok] @ post" "audits pre = [] \<and> audits post = []"
     "(ok \<longleftrightarrow> e_audit env pre entry = None) \<and> (\<not> ok \<longrightarrow> e_onAuditError env \<longrightarrow> AuditWarning \<in> set post)"
     "ShellStarted \<notin> set pre \<and> (ShellStarted \<in> set post \<longleftrightarrow> ae_OK entry)"
     "ae_Hostname entry = tg_Name (rq_Target req) \<and> VaultUser entry = fst (e_identity env [])" "via_closed [] (trace st)"
     "\<not> ae_OK entry \<longrightarrow> (\<exists>e. err = Some e \<and> ae_Error entry = truncateAuditError (err_text e))"
     "ae_OK entry \<longrightarrow> (\<exists>h cert s. e_sign env h (tg_Role (rq_Target req)) [tg_User (rq_Target req)] ptyExtensions = Inr cert \<and>
        e_cert env cert = Cert s \<and> (s = [] \<or> CertSerial entry = s))"
     "mset (opened (trace st)) = mset (closed (trace st))" unfolding connect_spec_def by blast
  from via_closed_all [OF c(6)] have "\<forall>before v addr after. trace st = before @ Via v addr # after \<longrightarrow> Closed v \<in> set after" by blast
  with c show ?thesis unfolding ptyExtensions_def
    by (intro exI [of _ pre] exI [of _ entry] exI [of _ ok] exI [of _ post]) blast
qed

text \<open>A one-shot command leaves exactly one audit row, after everything else happened; the row says OK
  exactly when the caller gets no error (a non-zero exit is no error), and otherwise carries that
  error's text cut to 500 bytes; nothing stays open.\<close>

theorem execute_is_audited_once:
  assumes "ExecuteWithInput env req cmd = (st, res, err)"
  shows "\<exists>entry. audits (trace st) = [entry] \<and> (ae_OK entry \<longleftrightarrow> err = None) \<and>
     ae_Hostname entry = tg_Name (rq_Target req) \<and> VaultUser entry = fst (e_identity env []) \<and>
     ae_Error entry = (case err of Some e \<Rightarrow> take 500 (err_text e) | None \<Rightarrow> []) \<and>
     mset (opened (trace st)) = mset (closed (trace st))"
proof -
  from assms obtain st0 entry where run: "access_run env req cmd = (st0, res, entry, err)" and st: "st = record_entry env entry st0"
    by (auto simp: ExecuteWithInput_run)
  note r = access_run_spec [OF run]
  have "truncateAuditError s = take 500 s" for s by (simp add: truncateAuditError_def)
  with r st show ?thesis by (intro exI [of _ entry]) (auto simp: quiet_st_def split: option.splits)
qed

text \<open>C15: least privilege. Whatever the environment answers, every certificate requested during an
  interactive session, a one-shot command or a monitoring poll is one of two kinds: for the target's own
  role and user with a terminal, or for a hop of its jump chain with port forwarding and nothing else. No
  jump host is ever handed a certificate that could open a terminal, and each certificate names
  exactly one principal.\<close>

theorem only_the_target_may_open_a_terminal:
  assumes "st \<in> {fst (Connect env req), fst (ExecuteWithInput env req cmd), fst (snd (Poll env m req cmd))}"
    and "Sign role principals extensions \<in> set (trace st)"
  shows "role = tg_Role (rq_Target req) \<and> principals = [tg_User (rq_Target req)] \<and> extensions = [''permit-pty''] \<or>
    (\<exists>h \<in> set (tl (hops (rq_Target req))). role = tg_Role h \<and> principals = [tg_User h] \<and> extensions = [''permit-port-forwarding''])"
proof -
  obtain st0 res entry err where run: "access_run env req cmd = (st0, res, entry, err)" by (cases "access_run env req cmd")
  have a: "list_all (session_event (rq_Target req)) (trace st0)" using access_run_spec(1) [OF run] by (simp add: quiet_st_def)
  then have b: "list_all (session_event (rq_Target req)) (trace (record_entry env entry st0))" by (simp add: record_entry_session)
  have "fst (ExecuteWithInput env req cmd) = record_entry env entry st0" using run by (simp add: ExecuteWithInput_def)
  moreover have "fst (snd (Poll env m req cmd)) \<in> {st0, record_entry env entry st0}" using Poll_run [of env req cmd m] run by auto
  ultimately have "list_all (session_event (rq_Target req)) (trace st)" using assms(1) a b Connect_session [of req env] by auto
  with assms(2) have "session_event (rq_Target req) (Sign role principals extensions)" by (simp add: list_all_iff)
  then show ?thesis by (simp add: session_event_def dial_event_def ptyExtensions_def portForwardExtensions_def)
qed

text \<open>A chain of one jump host in an environment where every step succeeds but the terminal is refused; the
  certificate's serial is the role it was signed for.\<close>

definition demo_jump :: target where
  "demo_jump = Target ''bastion'' ''10.0.0.1:22'' ''ops'' ''jump-role'' True False False None"

definition demo_target :: target where
  "demo_target = Target ''db1'' ''10.0.0.5:22'' ''ubuntu'' ''db-role'' True False False (Some demo_jump)"

definition demo_ssh_env :: ssh_env where
  "demo_ssh_env = \<lparr>e_key = (\<lambda>_. None), e_sign = (\<lambda>_ role _ _. Inr role), e_cert = (\<lambda>cert. Cert cert), e_certSigner = (\<lambda>_. None),
     e_now = (\<lambda>_. 5), e_dial = (\<lambda>_ t. if tg_Jump t = None then Inr (Some ''192.168.1.9:50000'') else Inl (Plain ''i/o timeout'')),
     e_jumpDial = (\<lambda>_ _. None), e_handshake = (\<lambda>_ _. Inr None), e_shell = (\<lambda>_. Some (Plain ''pty-req failed'')),
     e_session = (\<lambda>_. None), e_run = (\<lambda>_ _. Exited ''out'' [] 3), e_identity = (\<lambda>_. (''alice'', None)), e_audit = (\<lambda>_ _. None),
     e_clientUser = Some ''al'', e_userVar = [], e_clientHost = ''laptop'', e_onAuditError = False\<rparr>"

definition demo_request :: access_request where
  "demo_request = \<lparr>rq_Target = demo_target, rq_HostKey = HostKeyStrict\<rparr>"

lemmas ssh_demo_defs = demo_request_def demo_ssh_env_def demo_target_def demo_jump_def
lemmas ssh_run_defs = Connect_def ExecuteWithInput_def access_run_def RunWithInput_def sshc_Connect_def attributedIdentity_def
  dialTarget_def dialJump_def dialSingle_def dialThrough_def clientConfig_def certSigner_def sign_call_def CertSerial_of_def
  record_entry_def emit_ev_def close_all_def was_recorded_def fresh_st_def ptyExtensions_def portForwardExtensions_def

lemma demo_connect_trace:
  "trace (fst (Connect demo_ssh_env demo_request)) =
     [Sign ''jump-role'' [''ops''] [''permit-port-forwarding''], Dial ''10.0.0.1:22'', Opened ''bastion'', Via ''bastion'' ''10.0.0.5:22'',
      Sign ''db-role'' [''ubuntu''] [''permit-pty''], Opened ''db1'',
      Audited (accessEntry demo_ssh_env ''alice'' demo_target (connection_info (Some (None, [])) demo_target True) ''db-role'' 5 None) True,
      ShellStarted, Closed ''db1'', Closed ''bastion'']"
  "snd (Connect demo_ssh_env demo_request) = Some (Plain ''pty-req failed'')"
  by (simp_all add: ssh_run_defs ssh_demo_defs Let_def connection_info_def accessEntry_def)

theorem connect_is_audited_once_witness:
  "\<exists>pre entry ok post. trace (fst (Connect demo_ssh_env demo_request)) = pre @ [Audited entry ok] @ post \<and> ok \<and> audits pre = [] \<and> audits post = [] \<and>
     ae_OK entry \<and> ShellStarted \<in> set post \<and> ae_Hostname entry = ''db1'' \<and> CertSerial entry = ''db-role''"
proof -
  let ?tr = "trace (fst (Connect demo_ssh_env demo_request))"
  have p: "Connect demo_ssh_env demo_request = (fst (Connect demo_ssh_env demo_request), snd (Connect demo_ssh_env demo_request))"
    by simp
  from connect_is_audited_once [OF p] obtain pre entry ok post where w: "?tr = pre @ [Audited entry ok] @ post" "audits pre = []"
    "audits post = []" "ok \<longleftrightarrow> e_audit demo_ssh_env pre entry = None" "ShellStarted \<in> set post \<longleftrightarrow> ae_OK entry" "ae_Hostname entry = tg_Name (rq_Target demo_request)" by blast
  have "audits ?tr = [entry]" using w by simp
  then have e: "entry = accessEntry demo_ssh_env ''alice'' demo_target (connection_info (Some (None, [])) demo_target True) ''db-role'' 5 None"
    by (simp add: demo_connect_trace)
  with w show ?thesis by (intro exI [of _ pre] exI [of _ entry] exI [of _ ok] exI [of _ post]) (simp add: ssh_demo_defs)
qed

theorem execute_is_audited_once_witness:
  "snd (snd (ExecuteWithInput demo_ssh_env demo_request ''uptime'')) = None \<and>
   ar_ExitCode (fst (snd (ExecuteWithInput demo_ssh_env demo_request ''uptime''))) = 3 \<and>
   (\<exists>entry. audits (trace (fst (ExecuteWithInput demo_ssh_env demo_request ''uptime''))) = [entry] \<and> ae_OK entry)"
proof -
  let ?r = "ExecuteWithInput demo_ssh_env demo_request ''uptime''"
  have p: "?r = (fst ?r, fst (snd ?r), snd (snd ?r))" by simp
  have e: "snd (snd ?r) = None" "ar_ExitCode (fst (snd ?r)) = 3"
    by (simp_all add: ssh_run_defs ssh_demo_defs Let_def connection_info_def accessEntry_def)
  from execute_is_audited_once [OF p] e show ?thesis by auto
qed

theorem only_the_target_may_open_a_terminal_witness:
  "\<exists>h \<in> set (tl (hops demo_target)). tg_Role h = ''jump-role'' \<and> tg_User h = ''ops''"
proof -
  have "Sign ''jump-role'' [''ops''] [''permit-port-forwarding''] \<in> set (trace (fst (Connect demo_ssh_env demo_request)))"
    by (simp add: demo_connect_trace)
  from only_the_target_may_open_a_terminal [where cmd = "''uptime''" and m = "[]", OF insertI1 this] show ?thesis
    by (auto simp: demo_request_def demo_target_def)
qed

text \<open>The row of an interactive session is written before the session channel and the terminal are
  requested: when the server refuses them the caller gets the error and the row still says OK.\<close>

lemma refused_terminal_is_audited_ok:
  "snd (Connect demo_ssh_env demo_request) = Some (Plain ''pty-req failed'') \<and>
   map ae_OK (audits (trace (fst (Connect demo_ssh_env demo_request)))) = [True]"
  by (simp add: demo_connect_trace)

text \<open>The serial kept for a failed attempt is the last one signed, which is a jump host's when the chain breaks
  after it.\<close>

lemma failed_row_names_a_jump_certificate:
  "map (\<lambda>e. (ae_OK e, ae_Hostname e, CertSerial e))
     (audits (trace (fst (Connect (demo_ssh_env \<lparr>e_jumpDial := \<lambda>_ _. Some (Plain ''refused'')\<rparr>) demo_request)))) =
   [(False, ''db1'', ''jump-role'')]"
  by (simp add: ssh_run_defs ssh_demo_defs Let_def connection_info_def accessEntry_def)

section \<open>The monitor writes transitions\<close>

fun poll_all :: "monitor \<Rightarrow> (ssh_env \<times> access_request \<times> string) list \<Rightarrow> access_entry list" where
  "poll_all m [] = []"
| "poll_all m ((env, req, cmd) # polls) = (case Poll env m req cmd of
     (m', st, res, err) \<Rightarrow> audits (trace st) @ poll_all m' polls)"

definition poll_outcome :: "ssh_env \<times> access_request \<times> string \<Rightarrow> bool" where
  "poll_outcome p = (case p of (env, req, cmd) \<Rightarrow> case access_run env req cmd of (_, _, _, err) \<Rightarrow> err = None)"

definition poll_name :: "ssh_env \<times> access_request \<times> string \<Rightarrow> string" where
  "poll_name p = (case p of (_, req, _) \<Rightarrow> tg_Name (rq_Target req))"

lemma Poll_step:
  "\<exists>st res err. Poll env m req cmd = (AList.update (poll_name (env, req, cmd)) (poll_outcome (env, req, cmd)) m, st, res, err) \<and>
     (if map_of m (poll_name (env, req, cmd)) = Some (poll_outcome (env, req, cmd)) then audits (trace st) = []
      else \<exists>e. audits (trace st) = [e] \<and> ae_Hostname e = poll_name (env, req, cmd) \<and> ae_OK e = poll_outcome (env, req, cmd))"
proof -
  obtain st res entry err where run: "access_run env req cmd = (st, res, entry, err)" by (cases "access_run env req cmd")
  note r = access_run_spec [OF run]
  show ?thesis
    using run r by (auto simp: Poll_def shouldRecord_def poll_name_def poll_outcome_def quiet_st_def split: option.splits)
qed

definition rows_of :: "string \<Rightarrow> access_entry list \<Rightarrow> bool list" where
  "rows_of n rows = map ae_OK (filter (\<lambda>e. ae_Hostname e = n) rows)"

lemma rows_of_append [simp]: "rows_of n (xs @ ys) = rows_of n xs @ rows_of n ys"
  by (simp add: rows_of_def)

lemma remdups_adj_tl_Cons: "tl (remdups_adj (p # x # xs)) = (if p = x then tl (remdups_adj (x # xs)) else remdups_adj (x # xs))"
  by simp

lemma poll_all_rows:
  "rows_of n (poll_all m polls) =
    (let outs = map poll_outcome (filter (\<lambda>p. poll_name p = n) polls) in
     case map_of m n of None \<Rightarrow> remdups_adj outs | Some prev \<Rightarrow> tl (remdups_adj (prev # outs)))"
proof (induction polls arbitrary: m)
  case Nil
  show ?case by (simp add: rows_of_def split: option.splits)
next
  case (Cons p polls)
  obtain env req cmd where p: "p = (env, req, cmd)" by (cases p)
  let ?n = "poll_name p" and ?ok = "poll_outcome p"
  obtain st res err where s: "Poll env m req cmd = (AList.update ?n ?ok m, st, res, err)"
    and a: "if map_of m ?n = Some ?ok then audits (trace st) = []
      else \<exists>e. audits (trace st) = [e] \<and> ae_Hostname e = ?n \<and> ae_OK e = ?ok" using Poll_step [of env m req cmd] p by metis
  have rows: "rows_of n (audits (trace st)) = (if ?n = n \<and> map_of m n \<noteq> Some ?ok then [?ok] else [])"
    using a by (auto simp: rows_of_def split: if_splits)
  show ?case using Cons.IH [of "AList.update ?n ?ok m"] rows p s
    by (auto simp: update_conv' Let_def remdups_adj_tl_Cons simp del: remdups_adj.simps(3) split: option.splits)
qed

text \<open>For every target, the rows a monitoring session writes for it are its outcomes with repetitions
  removed: the first poll is recorded, then exactly each change between success and failure, in
  order, whatever the other targets do in between and however the polls fail.\<close>

theorem monitor_records_transitions:
  "map ae_OK (filter (\<lambda>e. ae_Hostname e = n) (poll_all [] polls)) =
   remdups_adj (map poll_outcome (filter (\<lambda>p. poll_name p = n) polls))"
  using poll_all_rows [of n "[]" polls] by (simp add: rows_of_def)

section \<open>Jump chains\<close>

text \<open>The reference: the servers met by following the jump references until one has none, and the chain of
  targets they stand for.\<close>

inductive jump_path :: "(string \<Rightarrow> goerror + server) \<Rightarrow> server \<Rightarrow> server list \<Rightarrow> bool" for get where
  path_end: "JumpVia sv = [] \<Longrightarrow> jump_path get sv [sv]"
| path_hop: "JumpVia sv \<noteq> [] \<Longrightarrow> get (JumpVia sv) = Inr j \<Longrightarrow> jump_path get j p \<Longrightarrow> jump_path get sv (sv # p)"

inductive_cases path_endE: "jump_path get sv [s]"
inductive_simps jump_path_Cons: "jump_path get sv (s # p)"
inductive_simps jump_path_Nil [simp]: "jump_path get sv []"

definition hop_target :: "bool \<Rightarrow> server \<Rightarrow> target option \<Rightarrow> target" where
  "hop_target directFirst sv jump =
     Target (Hostname sv) (JoinHostPort (IP sv) (Itoa (Port sv))) (User sv) (CARole sv) (\<not> directFirst) False False jump"

fun chain_target :: "bool \<Rightarrow> server list \<Rightarrow> target option" where
  "chain_target d [] = None"
| "chain_target d (sv # p) = Some (hop_target d sv (chain_target d p))"

lemma map_sum_Inr_iff: "map_sum f g x = Inr y \<longleftrightarrow> (\<exists>z. x = Inr z \<and> g z = y)"
  by (cases x) auto

lemma buildTargetSeen_cases:
  "is_true seen (Hostname sv) \<Longrightarrow> buildTargetSeen get sv d seen = Some (Inl (Plain (''jump host cycle detected: '' @ Hostname sv)))"
  "\<not> is_true seen (Hostname sv) \<Longrightarrow> JumpVia sv = [] \<Longrightarrow> buildTargetSeen get sv d seen = Some (Inr (hop_target d sv None))"
  "\<not> is_true seen (Hostname sv) \<Longrightarrow> JumpVia sv \<noteq> [] \<Longrightarrow> get (JumpVia sv) = Inl e \<Longrightarrow>
     buildTargetSeen get sv d seen = Some (Inl (Wrapf (''lookup jump host '' @ JumpVia sv) e))"
  "\<not> is_true seen (Hostname sv) \<Longrightarrow> JumpVia sv \<noteq> [] \<Longrightarrow> get (JumpVia sv) = Inr j \<Longrightarrow>
     buildTargetSeen get sv d seen = map_option (map_sum id (\<lambda>jt. hop_target d sv (Some jt)))
       (buildTargetSeen get j d (AList.update (Hostname sv) True seen))"
  by (simp_all add: buildTargetSeen.simps [of get sv] hop_target_def map_conv_bind_option comp_def)

text \<open>What \<open>BuildTarget\<close> needs of the inventory it is given: the names it can answer with are finitely many.\<close>

locale jump_inventory =
  fixes get :: "string \<Rightarrow> goerror + server" and hosts :: "string set"
  assumes finite_hosts: "finite hosts"
    and get_known: "get name = Inr sv \<Longrightarrow> Hostname sv \<in> hosts"
begin

definition unseen :: "server \<Rightarrow> (string, bool) gomap \<Rightarrow> string set" where
  "unseen sv seen = insert (Hostname sv) hosts - {h. is_true seen h}"

lemma finite_unseen [simp]: "finite (unseen sv seen)"
  by (simp add: unseen_def finite_hosts)

lemma unseen_hop:
  assumes "\<not> is_true seen (Hostname sv)" "get (JumpVia sv) = Inr j"
  shows "card (unseen j (AList.update (Hostname sv) True seen)) < card (unseen sv seen)"
proof (rule psubset_card_mono)
  have "Hostname sv \<in> unseen sv seen" using assms(1) by (simp add: unseen_def)
  moreover have "Hostname sv \<notin> unseen j (AList.update (Hostname sv) True seen)" by (simp add: unseen_def is_true_update)
  moreover have "unseen j (AList.update (Hostname sv) True seen) \<subseteq> unseen sv seen"
    using get_known [OF assms(2)] by (auto simp: unseen_def is_true_update split: if_splits)
  ultimately show "unseen j (AList.update (Hostname sv) True seen) \<subset> unseen sv seen" by blast
qed simp

lemma buildTargetSeen_returns: "\<exists>r. buildTargetSeen get sv d seen = Some r"
proof (induction "card (unseen sv seen)" arbitrary: sv seen rule: less_induct)
  case less
  show ?case
  proof (cases "is_true seen (Hostname sv) \<or> JumpVia sv = []")
    case True
    then show ?thesis by (cases "is_true seen (Hostname sv)") (simp_all add: buildTargetSeen_cases)
  next
    case False
    then show ?thesis
    proof (cases "get (JumpVia sv)")
      case (Inl e)
      then show ?thesis using False by (simp add: buildTargetSeen_cases)
    next
      case (Inr j)
      obtain r where "buildTargetSeen get j d (AList.update (Hostname sv) True seen) = Some r"
        using less [OF unseen_hop [OF _ Inr]] False by blast
      then show ?thesis using False Inr by (simp add: buildTargetSeen_cases)
    qed
  qed
qed

lemma buildTargetSeen_sound:
  assumes "buildTargetSeen get sv d seen = Some (Inr t)"
  shows "\<exists>p. jump_path get sv p \<and> distinct (map Hostname p) \<and> (\<forall>s \<in> set p. \<not> is_true seen (Hostname s)) \<and> chain_target d p = Some t"
  using assms
proof (induction "card (unseen sv seen)" arbitrary: sv seen t rule: less_induct)
  case less
  have ns: "\<not> is_true seen (Hostname sv)" using less.prems by (auto simp: buildTargetSeen_cases(1))
  show ?case
  proof (cases "JumpVia sv = []")
    case True
    then have "t = hop_target d sv None" using less.prems ns by (simp add: buildTargetSeen_cases)
    with True ns show ?thesis by (intro exI [of _ "[sv]"]) (simp add: path_end)
  next
    case False
    then obtain j where j: "get (JumpVia sv) = Inr j"
      using less.prems ns by (cases "get (JumpVia sv)") (simp_all add: buildTargetSeen_cases(3))
    let ?seen = "AList.update (Hostname sv) True seen"
    obtain jt where jt: "buildTargetSeen get j d ?seen = Some (Inr jt)" "t = hop_target d sv (Some jt)"
      using less.prems ns False j
      by (auto simp: buildTargetSeen_cases(4) map_sum_Inr_iff)
    from less.hyps [OF unseen_hop [OF ns j] jt(1)] obtain p where p: "jump_path get j p" "distinct (map Hostname p)"
      "\<forall>s \<in> set p. \<not> is_true ?seen (Hostname s)" "chain_target d p = Some jt" by blast
    have u: "Hostname s \<noteq> Hostname sv \<and> \<not> is_true seen (Hostname s)" if "s \<in> set p" for s
      using p(3) that by auto
    have "jump_path get sv (sv # p)" using False j p(1) by (rule path_hop)
    moreover have "distinct (map Hostname (sv # p))" using p(2) u by (force simp: image_iff)
    moreover have "\<forall>s \<in> set (sv # p). \<not> is_true seen (Hostname s)" using u ns by simp
    moreover have "chain_target d (sv # p) = Some t" using p(4) jt(2) by simp
    ultimately show ?thesis by blast
  qed
qed

lemma buildTargetSeen_complete:
  assumes "jump_path get sv p" "distinct (map Hostname p)" "\<forall>s \<in> set p. \<not> is_true seen (Hostname s)"
  shows "buildTargetSeen get sv d seen = Some (Inr (the (chain_target d p)))"
  using assms
proof (induction arbitrary: seen rule: jump_path.induct)
  case (path_end sv)
  then show ?case by (simp add: buildTargetSeen_cases)
next
  case (path_hop sv j p)
  have "p \<noteq> []" using path_hop.hyps(3) by auto
  then obtain jt where jt: "chain_target d p = Some jt" by (cases p) auto
  have "buildTargetSeen get j d (AList.update (Hostname sv) True seen) = Some (Inr (the (chain_target d p)))"
    by (rule path_hop.IH) (use path_hop.prems in \<open>auto simp: image_iff\<close>)
  with path_hop.hyps path_hop.prems jt show ?case by (simp add: buildTargetSeen_cases(4))
qed

lemma BuildTarget_iff:
  "BuildTarget get sv d = Some (Inr t) \<longleftrightarrow> (\<exists>p. jump_path get sv p \<and> distinct (map Hostname p) \<and> chain_target d p = Some t)"
  unfolding BuildTarget_def
  using buildTargetSeen_sound [of sv d "[]" t] buildTargetSeen_complete [of sv _ "[]" d] by auto

end

interpretation cached_jumps: jump_inventory "mem_Get m" "set (map (\<lambda>r. Hostname (sws_Server r)) (mem_rows m))" for m
  by unfold_locales (auto simp: mem_Get_def cloneServer_def find_Some_iff split: option.splits)

text \<open>C16: building a target from the cached inventory always ends, on inventories with jump cycles too, and
  succeeds exactly when the jump references from the server lead through distinct known hosts to one
  that needs no jump; the target is then that path, hop for hop.\<close>

theorem BuildTarget_exact:
  "(\<exists>r. BuildTarget (mem_Get m) sv directFirst = Some r) \<and>
   (BuildTarget (mem_Get m) sv directFirst = Some (Inr t) \<longleftrightarrow>
     (\<exists>p. jump_path (mem_Get m) sv p \<and> distinct (map Hostname p) \<and> chain_target directFirst p = Some t))"
  using cached_jumps.buildTargetSeen_returns cached_jumps.BuildTarget_iff unfolding BuildTarget_def by blast

section \<open>Host-key policies\<close>

text \<open>The host-key policy of a request reaches every hop of its chain, and decides exactly which keys a
  hop accepts: a key the file knows, or an unknown one that can be recorded, under accept-new at once, under
  prompt after a yes typed at a terminal, under strict never. A key that contradicts the file is
  rejected under every policy, and without a readable file every key is.\<close>

theorem host_key_policy_exact:
  assumes "h \<in> set (hops (policy_apply p t))"
  shows "fst (hostKeyCallback ready (tg_ConfirmHostKey h) (tg_AutoAddHostKey h) key answer terminal input appendErr) = None \<longleftrightarrow>
    ready = Verifier \<and> (answer = KeyKnown \<or> answer = KeyUnknown \<and> appendErr = None \<and>
      (p = HostKeyAcceptNew \<or> p = HostKeyPrompt \<and> terminal \<and> confirmHostKey input))"
proof -
  from assms obtain h' where h': "h = policy_apply p h'" by (auto simp: hops_policy_apply)
  have f: "tg_ConfirmHostKey h = (p = HostKeyPrompt)" "tg_AutoAddHostKey h = (p = HostKeyAcceptNew)"
    unfolding h' by (cases h'; cases "tg_Jump h'"; simp)+
  show ?thesis unfolding f by (cases ready; cases answer; cases p) (simp_all add: hostKeyCallback_def)
qed

theorem host_key_policy_exact_witness:
  "fst (hostKeyCallback Verifier False False \<lparr>ko_Hostname = ''bastion'', ko_Fingerprint = ''SHA256:x''\<rparr> KeyUnknown True (Inr ''yes'') None) \<noteq> None"
proof -
  have "policy_apply HostKeyStrict demo_jump \<in> set (hops (policy_apply HostKeyStrict demo_target))"
    by (simp add: demo_target_def demo_jump_def)
  from host_key_policy_exact [OF this, of Verifier "\<lparr>ko_Hostname = ''bastion'', ko_Fingerprint = ''SHA256:x''\<rparr>" KeyUnknown True "Inr ''yes''" None]
  show ?thesis by (simp add: demo_jump_def)
qed

end
