(* ===== verification/Vm_Target.thy ===== *)
theory Vm_Target
  imports Ssh_Access "HOL-Library.Sublist"
begin

text \<open>
  Reaching a Nova instance: which of its addresses may be dialled (\<^verbatim>\<open>internal/openstack/address.go\<close>),
  the sibling that serves as a hop (\<open>TenantJump\<close>), the login users tried
  (\<^verbatim>\<open>internal/openstack/loginuser.go\<close>), targets (\<^verbatim>\<open>internal/access/vmtarget.go\<close>) and the
  \<^verbatim>\<open>vctl ssh --vm\<close> path over them (\<open>sshVM\<close>, \<open>checkVMCurrent\<close>, \<open>vmTarget\<close>, \<open>connectVM\<close> of
  \<^verbatim>\<open>internal/cli/ssh.go\<close>). What the store answers is a parameter; each login attempt is a run of the
  connector of \<open>Ssh_Access\<close> in an environment that may depend on the attempts before it.

  The lemmas show which addresses a connection may be opened to, which sibling is chosen, that a stale
  or missing record is not dialled, and that every login attempt leaves its own audit row.
\<close>

section \<open>Instances and addresses\<close>

record instanceAddress =
  ia_NetworkName :: string
  ia_Address :: string
  ia_Type :: string
  ia_IPVersion :: int

record vm_instance =
  vm_DeploymentID :: string
  vm_InstanceID :: string
  vm_ProjectID :: string
  vm_ProjectName :: string
  vm_Name :: string
  vm_Status :: string
  vm_PowerState :: string
  vm_TaskState :: string
  vm_AvailabilityZone :: string
  vm_HypervisorHostname :: string
  vm_FlavorID :: string
  vm_ImageID :: string
  vm_ImageName :: string
  vm_CreatedAt :: "gotime option"
  vm_UpdatedAt :: "gotime option"
  vm_ObservedAt :: gotime
  vm_MissingSince :: "gotime option"
  vm_Addresses :: "instanceAddress list"

fun OnOperatorNetwork :: "string \<Rightarrow> string list \<Rightarrow> bool" where
  "OnOperatorNetwork addr [] = False"
| "OnOperatorNetwork addr (n # nets) = (if n \<noteq> [] \<and> has_prefix addr n then True else OnOperatorNetwork addr nets)"

text \<open>The loop of both choices: the first address of the highest rank.\<close>

definition rank_step :: "(instanceAddress \<Rightarrow> nat) \<Rightarrow> string \<times> nat \<Rightarrow> instanceAddress \<Rightarrow> string \<times> nat" where
  "rank_step rank acc a = (if rank a > snd acc then (ia_Address a, rank a) else acc)"

definition PreferredAddress :: "instanceAddress list \<Rightarrow> string list \<Rightarrow> string" where
  "PreferredAddress addrs operatorNets = fst (foldl (rank_step
     (\<lambda>a. if ia_Type a = ''floating'' then 3 else if OnOperatorNetwork (ia_Address a) operatorNets then 2 else 1)) ([], 0) addrs)"

definition connect_rank :: "string list \<Rightarrow> instanceAddress \<Rightarrow> nat" where
  "connect_rank operatorNets a =
     (if ia_Type a = ''floating'' then 2 else if OnOperatorNetwork (ia_Address a) operatorNets then 1 else 0)"

definition ConnectableAddress :: "instanceAddress list \<Rightarrow> string list \<Rightarrow> string" where
  "ConnectableAddress addrs operatorNets = fst (foldl (rank_step (connect_rank operatorNets)) ([], 0) addrs)"

definition str_at :: "(string, string) gomap \<Rightarrow> string \<Rightarrow> string" where
  "str_at m k = (case map_of m k of None \<Rightarrow> [] | Some v \<Rightarrow> v)"

fun tenant_nets :: "(string, string) gomap \<Rightarrow> instanceAddress list \<Rightarrow> (string, string) gomap" where
  "tenant_nets nets [] = nets"
| "tenant_nets nets (a # addrs) =
    tenant_nets (if ia_Type a \<noteq> ''floating'' \<and> ia_NetworkName a \<noteq> [] \<and> str_at nets (ia_NetworkName a) = []
       then AList.update (ia_NetworkName a) (ia_Address a) nets else nets) addrs"

definition shared_door :: "(string, string) gomap \<Rightarrow> instanceAddress list \<Rightarrow> string" where
  "shared_door nets addrs =
    (case find (\<lambda>a. ia_Type a \<noteq> ''floating'' \<and> ia_NetworkName a \<noteq> [] \<and> str_at nets (ia_NetworkName a) \<noteq> []) addrs of
       None \<Rightarrow> [] | Some a \<Rightarrow> str_at nets (ia_NetworkName a))"

definition hop_rank :: "vm_instance \<Rightarrow> string \<Rightarrow> nat" where
  "hop_rank s hop = (if list_ex (\<lambda>a. ia_Type a = ''floating'' \<and> ia_Address a = hop) (vm_Addresses s) then 2 else 1)"

text \<open>A sibling's door and hop, when it may serve at all.\<close>

definition jump_offer :: "vm_instance \<Rightarrow> (string, string) gomap \<Rightarrow> string list \<Rightarrow> vm_instance \<Rightarrow> (string \<times> string) option" where
  "jump_offer tgt nets operatorNets s =
    (if vm_InstanceID s = vm_InstanceID tgt \<or> vm_ProjectID s \<noteq> vm_ProjectID tgt \<or> vm_MissingSince s \<noteq> None \<or>
        \<not> equal_fold (vm_Status s) ''ACTIVE'' then None
     else let hop = ConnectableAddress (vm_Addresses s) operatorNets in
       if hop = [] then None
       else let door = shared_door nets (vm_Addresses s) in
         if door = [] then None else Some (hop, door))"

type_synonym jump_choice = "(vm_instance \<times> string \<times> string) option \<times> nat"

definition consider_jump ::
  "vm_instance \<Rightarrow> (string, string) gomap \<Rightarrow> string list \<Rightarrow> jump_choice \<Rightarrow> vm_instance \<Rightarrow> jump_choice" where
  "consider_jump tgt nets operatorNets acc s = (case jump_offer tgt nets operatorNets s of
     None \<Rightarrow> acc
   | Some (hop, door) \<Rightarrow>
       let r = hop_rank s hop in
       if r > snd acc \<or> (r = snd acc \<and> (case fst acc of None \<Rightarrow> False | Some (via, _, _) \<Rightarrow> vm_Name s < vm_Name via))
       then (Some (s, hop, door), r) else acc)"

definition TenantJump :: "vm_instance \<Rightarrow> vm_instance list \<Rightarrow> string list \<Rightarrow> (vm_instance \<times> string \<times> string) option" where
  "TenantJump tgt siblings operatorNets =
    (if vm_ProjectID tgt = [] then None
     else let nets = tenant_nets [] (vm_Addresses tgt) in
       if nets = [] then None
       else fst (foldl (consider_jump tgt nets operatorNets) (None, 0) siblings))"

section \<open>Login users\<close>

definition str_contains :: "string \<Rightarrow> string \<Rightarrow> bool" where
  "str_contains s sub = list_ex (\<lambda>i. take (length sub) (drop i s) = sub) [0..<Suc (length s)]"

definition imageUsers :: "(string \<times> string) list" where
  "imageUsers = [(''ubuntu'', ''ubuntu''), (''rocky'', ''rocky''), (''centos'', ''centos''), (''debian'', ''debian''),
     (''fedora'', ''fedora''), (''alma'', ''almalinux''), (''rhel'', ''cloud-user''), (''opensuse'', ''opensuse''),
     (''cirros'', ''cirros''), (''vyos'', ''vyos'')]"

definition ImageLoginUser :: "string \<Rightarrow> string" where
  "ImageLoginUser imageName = (let name = to_lower imageName in
     case find (\<lambda>m. str_contains name (fst m)) imageUsers of None \<Rightarrow> [] | Some m \<Rightarrow> snd m)"

definition DefaultVMUser :: string where "DefaultVMUser = ''root''"

definition LoginCandidates :: "string \<Rightarrow> string \<Rightarrow> string list" where
  "LoginCandidates imageName configured =
     foldl (\<lambda>out u. if u \<noteq> [] \<and> u \<notin> set out then out @ [u] else out) [DefaultVMUser] [ImageLoginUser imageName, configured]"

definition IsAuthFailure :: "goerror option \<Rightarrow> bool" where
  "IsAuthFailure err = (case err of None \<Rightarrow> False | Some e \<Rightarrow> str_contains (err_text e) ''unable to authenticate'')"

text \<open>The walk over the candidates. \<open>attempt\<close> threads a state; the last component lists the calls of
  \<open>rejected\<close>.\<close>

fun TryLoginUsers ::
  "('s \<Rightarrow> string \<Rightarrow> 's \<times> goerror option) \<Rightarrow> 's \<Rightarrow> string list \<Rightarrow> 's \<times> string \<times> goerror option \<times> (string \<times> string) list" where
  "TryLoginUsers attempt s [] = (s, [], None, [])"
| "TryLoginUsers attempt s [u] = (case attempt s u of (s1, err) \<Rightarrow> (s1, u, err, []))"
| "TryLoginUsers attempt s (u # v # us) = (case attempt s u of (s1, err) \<Rightarrow>
     if err = None \<or> \<not> IsAuthFailure err then (s1, u, err, [])
     else case TryLoginUsers attempt s1 (v # us) of (s2, user, err2, rejected) \<Rightarrow> (s2, user, err2, (u, v) # rejected))"

section \<open>Targets\<close>

record vmPolicy =
  vp_User :: string
  vp_Port :: int
  vp_CARole :: string
  vp_OperatorNets :: "string list"

definition ErrNoVouchedAddress :: goerror where
  "ErrNoVouchedAddress = Sentinel ''no floating or operator-network address''"

definition policy_port :: "vmPolicy \<Rightarrow> int" where
  "policy_port p = (if vp_Port p = 0 then 22 else vp_Port p)"

definition VMTarget :: "string \<Rightarrow> instanceAddress list \<Rightarrow> vmPolicy \<Rightarrow> goerror + target" where
  "VMTarget name addrs p =
    (if vp_User p = [] then Inl (Plain (''no login user for '' @ name @ '': a VM does not carry one, so pass --user''))
     else let addr = ConnectableAddress addrs (vp_OperatorNets p) in
       if addr = [] then
         if addrs = [] then Inl (Plain (name @ '' has no address at all''))
         else Inl (Wrapf (name @ '' (only '' @ join_with '', '' (map ia_Address addrs) @
           ''); tenant ranges repeat across farms, so connecting to one would be a guess'') ErrNoVouchedAddress)
       else Inr (Target name (JoinHostPort addr (Itoa (policy_port p))) (vp_User p) (vp_CARole p) False False False None))"

definition VMTargetVia :: "string \<Rightarrow> string \<Rightarrow> string \<Rightarrow> string \<Rightarrow> vmPolicy \<Rightarrow> target" where
  "VMTargetVia name tenantAddr viaName viaAddr p =
     Target name (JoinHostPort tenantAddr (Itoa (policy_port p))) (vp_User p) (vp_CARole p) False False False
       (Some (Target viaName (JoinHostPort viaAddr (Itoa (policy_port p))) (vp_User p) (vp_CARole p) False False False None))"

definition is_hex :: "char \<Rightarrow> bool" where
  "is_hex c \<longleftrightarrow> (CHR ''0'' \<le> c \<and> c \<le> CHR ''9'') \<or> (CHR ''a'' \<le> c \<and> c \<le> CHR ''f'') \<or> (CHR ''A'' \<le> c \<and> c \<le> CHR ''F'')"

definition isUUID :: "string \<Rightarrow> bool" where
  "isUUID v \<longleftrightarrow> length v = 36 \<and>
     list_all (\<lambda>i. if i \<in> {8, 13, 18, 23} then v ! i = CHR ''-'' else is_hex (v ! i)) [0..<36]"

definition NovaID :: "string \<Rightarrow> string option" where
  "NovaID v = (let u = trim_prefix (trim_space v) ''openstack:///'' in if isUUID u then Some u else None)"

section \<open>The command\<close>

text \<open>\<open>CompactDuration\<close>, with the integer quotient in place of the floating-point one it truncates.\<close>

definition CompactDuration :: "duration \<Rightarrow> string" where
  "CompactDuration dur = (let d = max dur 0 in
     if d < minute then Itoa (d div 1000000000) @ ''s''
     else if d < 60 * minute then Itoa (d div minute) @ ''m''
     else if d < 48 * (60 * minute) then Itoa (d div (60 * minute)) @ ''h''
     else Itoa (d div (24 * (60 * minute))) @ ''d'')"

definition StaleProbeWindow :: duration where "StaleProbeWindow = 3 * (60 * minute)"

definition NameOrID :: "vm_instance \<Rightarrow> string" where
  "NameOrID v = (if vm_Name v \<noteq> [] then vm_Name v else vm_InstanceID v)"

definition checkVMCurrent :: "vm_instance \<Rightarrow> string \<Rightarrow> bool \<Rightarrow> gotime \<Rightarrow> bool \<Rightarrow> goerror + bool \<Rightarrow> goerror option" where
  "checkVMCurrent v id_given allowStale now terminal confirm =
    (if vm_MissingSince v \<noteq> None then
       Some (Plain (vm_Name v @ '' ('' @ id_given @ '') is no longer listed by its control plane''))
     else let age = time_sub now (vm_ObservedAt v) in
       if age > StaleProbeWindow \<and> \<not> allowStale then
         let seen = (if time_is_zero (vm_ObservedAt v) then ''never collected'' else CompactDuration age @ '' ago'') in
         if \<not> terminal then
           Some (Plain (NameOrID v @ '' was last collected '' @ seen @ '', older than the collector's schedule; run 'vctl openstack reconcile' or pass --allow-stale''))
         else (case confirm of
             Inl e \<Rightarrow> Some e
           | Inr ok \<Rightarrow> if ok then None else Some (Plain ''not connecting to a stale record''))
       else None)"

record vm_cfg =
  cfg_CARole :: string
  cfg_OperatorNetworks :: "string list"
  cfg_SSHDefaultUser :: string

definition vmTarget :: "vm_cfg \<Rightarrow> goerror + vm_instance list \<Rightarrow> vm_instance \<Rightarrow> string \<Rightarrow> goerror + target" where
  "vmTarget cfg siblings v u =
    (let p = \<lparr>vp_User = u, vp_Port = 0, vp_CARole = cfg_CARole cfg, vp_OperatorNets = cfg_OperatorNetworks cfg\<rparr> in
     case VMTarget (vm_Name v) (vm_Addresses v) p of
       Inr t \<Rightarrow> Inr t
     | Inl e \<Rightarrow>
         if \<not> errors_is e ErrNoVouchedAddress then Inl e
         else (case siblings of
             Inl serr \<Rightarrow> Inl (Wrapf (''the search for a jump host failed: '' @ err_text serr) e)
           | Inr sibs \<Rightarrow> (case TenantJump v sibs (cfg_OperatorNetworks cfg) of
               None \<Rightarrow> Inl (Wrapf ''no ACTIVE VM on its tenant network carries one to jump through'' e)
             | Some (via, viaAddr, tenantAddr) \<Rightarrow> Inr (VMTargetVia (vm_Name v) tenantAddr (NameOrID via) viaAddr p))))"

text \<open>What the path asks of the store and of the terminal. A login attempt is remembered with its user,
  its target and what the connector did.\<close>

type_synonym vm_attempt = "string \<times> target \<times> ssh_st \<times> goerror option"

record vm_world =
  w_openStore :: "goerror option"
  w_resolveFarm :: "string \<Rightarrow> goerror + string"
  w_instances :: "string \<Rightarrow> string \<Rightarrow> goerror + vm_instance list"
  w_siblings :: "vm_attempt list \<Rightarrow> string \<Rightarrow> string \<Rightarrow> goerror + vm_instance list"
  w_env :: "vm_attempt list \<Rightarrow> ssh_env"
  w_now :: gotime
  w_terminal :: bool
  w_confirm :: "goerror + bool"

definition OneVM :: "goerror + vm_instance list \<Rightarrow> string \<Rightarrow> goerror + vm_instance" where
  "OneVM found id_given = (case found of
     Inl e \<Rightarrow> Inl e
   | Inr [] \<Rightarrow> Inl (Plain (''no VM '' @ id_given @ ''; run 'vctl openstack reconcile' if it is new''))
   | Inr [v] \<Rightarrow> Inr v
   | Inr vms \<Rightarrow> Inl (Plain (id_given @ '' is in '' @ Itoa (int (length vms)) @ '' deployments ('' @
       join_with '', '' (map vm_DeploymentID vms) @ ''); add --farm to say which'')))"

definition lookupVM :: "vm_world \<Rightarrow> string \<Rightarrow> string \<Rightarrow> goerror + vm_instance" where
  "lookupVM w id_given farm = (case (if farm \<noteq> [] then w_resolveFarm w farm else Inr []) of
     Inl e \<Rightarrow> Inl e
   | Inr deployment \<Rightarrow> OneVM (w_instances w id_given deployment) id_given)"

definition vm_attempt_step ::
  "vm_cfg \<Rightarrow> vm_world \<Rightarrow> vm_instance \<Rightarrow> hostKeyPolicy \<Rightarrow> vm_attempt list \<Rightarrow> string \<Rightarrow> vm_attempt list \<times> goerror option" where
  "vm_attempt_step cfg w v policy hist u =
    (case vmTarget cfg (w_siblings w hist (vm_DeploymentID v) (vm_ProjectID v)) v u of
       Inl e \<Rightarrow> (hist, Some e)
     | Inr t \<Rightarrow> (case Connect (w_env w hist) \<lparr>rq_Target = t, rq_HostKey = policy\<rparr> of
         (st, err) \<Rightarrow> (hist @ [(u, t, st, err)], err)))"

definition vm_candidates :: "vm_cfg \<Rightarrow> vm_instance \<Rightarrow> string \<Rightarrow> string list" where
  "vm_candidates cfg v user = (if user = [] then LoginCandidates (vm_ImageName v) (cfg_SSHDefaultUser cfg) else [user])"

definition connectVM :: "vm_cfg \<Rightarrow> vm_world \<Rightarrow> vm_instance \<Rightarrow> string \<Rightarrow> vm_attempt list \<times> goerror option" where
  "connectVM cfg w v user =
    (let policy = (if w_terminal w then HostKeyPrompt else HostKeyStrict) in
     case TryLoginUsers (vm_attempt_step cfg w v policy) [] (vm_candidates cfg v user) of
       (hist, _, err, _) \<Rightarrow> (hist, err))"

definition sshVM :: "vm_cfg \<Rightarrow> vm_world \<Rightarrow> string \<Rightarrow> string \<Rightarrow> string \<Rightarrow> bool \<Rightarrow> vm_attempt list \<times> goerror option" where
  "sshVM cfg w selector user farm allowStale = (case NovaID selector of
     None \<Rightarrow> ([], Some (Plain (''--vm takes a Nova instance id or openstack:///<id>, not '' @ selector @
       ''; run 'vctl openstack vm' to find it'')))
   | Some i \<Rightarrow> (case w_openStore w of
       Some e \<Rightarrow> ([], Some e)
     | None \<Rightarrow> (case lookupVM w i farm of
         Inl e \<Rightarrow> ([], Some e)
       | Inr v \<Rightarrow> (case checkVMCurrent v i allowStale (w_now w) (w_terminal w) (w_confirm w) of
           Some e \<Rightarrow> ([], Some e)
         | None \<Rightarrow> connectVM cfg w v user))))"

section \<open>Which address is dialled\<close>

definition vouched :: "string list \<Rightarrow> instanceAddress \<Rightarrow> bool" where
  "vouched nets a \<longleftrightarrow> ia_Type a = ''floating'' \<or> OnOperatorNetwork (ia_Address a) nets"

lemma rank_step_foldl:
  assumes "foldl (rank_step rank) (best, r) addrs = (best', r')"
  shows "r \<le> r'" "\<forall>a \<in> set addrs. rank a \<le> r'"
    "(best', r') = (best, r) \<or> (\<exists>a \<in> set addrs. rank a = r' \<and> ia_Address a = best' \<and> r < r')"
proof -
  have "r \<le> r' \<and> (\<forall>a \<in> set addrs. rank a \<le> r') \<and>
    ((best', r') = (best, r) \<or> (\<exists>a \<in> set addrs. rank a = r' \<and> ia_Address a = best' \<and> r < r'))"
    using assms
  proof (induction addrs arbitrary: best r)
    case (Cons a addrs)
    show ?case
    proof (cases "rank a > r")
      case True
      then have "foldl (rank_step rank) (ia_Address a, rank a) addrs = (best', r')" using Cons.prems by (simp add: rank_step_def [of rank "(best, r)"])
      from Cons.IH [OF this] True show ?thesis by auto
    next
      case False
      then have "foldl (rank_step rank) (best, r) addrs = (best', r')" using Cons.prems by (simp add: rank_step_def [of rank "(best, r)"])
      from Cons.IH [OF this] False show ?thesis by auto
    qed
  qed simp
  then show "r \<le> r'" "\<forall>a \<in> set addrs. rank a \<le> r'"
    "(best', r') = (best, r) \<or> (\<exists>a \<in> set addrs. rank a = r' \<and> ia_Address a = best' \<and> r < r')" by blast+
qed

lemma ConnectableAddress_vouched:
  assumes "ConnectableAddress addrs nets \<noteq> []"
  obtains a where "a \<in> set addrs" "ia_Address a = ConnectableAddress addrs nets" "vouched nets a"
    "ia_Type a \<noteq> ''floating'' \<Longrightarrow> \<forall>b \<in> set addrs. ia_Type b \<noteq> ''floating''"
proof -
  obtain best r where f: "foldl (rank_step (connect_rank nets)) ([], 0) addrs = (best, r)" by (cases "foldl (rank_step (connect_rank nets)) ([], 0) addrs")
  then have c: "ConnectableAddress addrs nets = best" by (simp add: ConnectableAddress_def)
  from rank_step_foldl(3) [OF f] assms c obtain a where a: "a \<in> set addrs" "connect_rank nets a = r" "ia_Address a = best" "0 < r" by auto
  have "vouched nets a" using a(2,4) by (auto simp: connect_rank_def vouched_def split: if_splits)
  moreover have "\<forall>b \<in> set addrs. ia_Type b \<noteq> ''floating''" if "ia_Type a \<noteq> ''floating''"
  proof
    fix b assume "b \<in> set addrs"
    then have "connect_rank nets b \<le> r" using rank_step_foldl(2) [OF f] by blast
    with that a(2) show "ia_Type b \<noteq> ''floating''" by (auto simp: connect_rank_def split: if_splits)
  qed
  ultimately show ?thesis using a(1,3) c by (intro that [of a]) simp_all
qed

lemma ConnectableAddress_empty:
  assumes "ConnectableAddress addrs nets = []" "\<forall>a \<in> set addrs. ia_Address a \<noteq> []"
  shows "\<forall>a \<in> set addrs. \<not> vouched nets a"
proof -
  obtain best r where f: "foldl (rank_step (connect_rank nets)) ([], 0) addrs = (best, r)" by (cases "foldl (rank_step (connect_rank nets)) ([], 0) addrs")
  with assms(1) have "best = []" by (simp add: ConnectableAddress_def)
  then have "r = 0" using rank_step_foldl(3) [OF f] assms(2) by auto
  then have "\<forall>a \<in> set addrs. connect_rank nets a = 0" using rank_step_foldl(2) [OF f] by auto
  then show ?thesis by (fastforce simp: connect_rank_def vouched_def split: if_splits)
qed

lemma tenant_nets_values:
  "(n, d) \<in> set (tenant_nets nets addrs) \<Longrightarrow> (n, d) \<in> set nets \<or>
    (\<exists>a \<in> set addrs. ia_Type a \<noteq> ''floating'' \<and> ia_NetworkName a = n \<and> ia_Address a = d)"
proof (induction addrs arbitrary: nets)
  case (Cons a addrs)
  let ?c = "ia_Type a \<noteq> ''floating'' \<and> ia_NetworkName a \<noteq> [] \<and> str_at nets (ia_NetworkName a) = []"
  have u: "(n, d) \<in> set (AList.update k v nets) \<Longrightarrow> (n, d) \<in> set nets \<or> (n, d) = (k, v)" for k v
    by (induction nets) (auto split: if_splits)
  show ?case
  proof (cases ?c)
    case True
    with Cons.IH [of "AList.update (ia_NetworkName a) (ia_Address a) nets"] Cons.prems u show ?thesis by auto
  next
    case False
    with Cons.IH [of nets] Cons.prems show ?thesis by (auto split: if_splits)
  qed
qed simp

section \<open>Which sibling is the hop\<close>

text \<open>The choice among the siblings: an eligible one of the highest rank, of the least name within it.\<close>

definition best_jump :: "vm_instance \<Rightarrow> (string, string) gomap \<Rightarrow> string list \<Rightarrow> vm_instance list \<Rightarrow> jump_choice \<Rightarrow> bool" where
  "best_jump tgt nets ops sibs acc \<longleftrightarrow> (case acc of
     (None, r) \<Rightarrow> r = 0 \<and> (\<forall>s \<in> set sibs. jump_offer tgt nets ops s = None)
   | (Some (via, hop, door), r) \<Rightarrow> via \<in> set sibs \<and> jump_offer tgt nets ops via = Some (hop, door) \<and> r = hop_rank via hop \<and>
       (\<forall>s \<in> set sibs. \<forall>h d. jump_offer tgt nets ops s = Some (h, d) \<longrightarrow>
          hop_rank s h < r \<or> hop_rank s h = r \<and> vm_Name via \<le> vm_Name s))"

lemma hop_rank_pos [simp]: "0 < hop_rank s hop"
  by (simp add: hop_rank_def)

lemma consider_jump_best:
  assumes "best_jump tgt nets ops sibs acc"
  shows "best_jump tgt nets ops (sibs @ [s]) (consider_jump tgt nets ops acc s)"
proof (cases "jump_offer tgt nets ops s")
  case None
  then have "consider_jump tgt nets ops acc s = acc" by (simp add: consider_jump_def)
  moreover have "best_jump tgt nets ops (sibs @ [s]) acc"
    using assms None by (cases acc; cases "fst acc") (simp_all add: best_jump_def split_beta)
  ultimately show ?thesis by simp
next
  case (Some hd)
  obtain h d where hd: "hd = (h, d)" by (cases hd)
  obtain c r where acc: "acc = (c, r)" by (cases acc)
  show ?thesis
  proof (cases c)
    case None
    with assms acc Some hd show ?thesis by (simp add: best_jump_def consider_jump_def Let_def)
  next
    case c: (Some x)
    obtain via hop door where x: "x = (via, hop, door)" by (cases x)
    have b: "via \<in> set sibs" "jump_offer tgt nets ops via = Some (hop, door)" "r = hop_rank via hop"
      "\<And>t h d. t \<in> set sibs \<Longrightarrow> jump_offer tgt nets ops t = Some (h, d) \<Longrightarrow> hop_rank t h < r \<or> hop_rank t h = r \<and> vm_Name via \<le> vm_Name t"
      using assms acc c x by (auto simp: best_jump_def)
    let ?new = "hop_rank s h > r \<or> hop_rank s h = r \<and> vm_Name s < vm_Name via"
    have e: "consider_jump tgt nets ops acc s = (if ?new then (Some (s, h, d), hop_rank s h) else acc)"
      using Some hd acc c x by (simp add: consider_jump_def Let_def)
    show ?thesis
    proof (cases ?new)
      case True
      have "hop_rank t h' < hop_rank s h \<or> hop_rank t h' = hop_rank s h \<and> vm_Name s \<le> vm_Name t"
        if "t \<in> set (sibs @ [s])" "jump_offer tgt nets ops t = Some (h', d')" for t h' d'
      proof (cases "t = s")
        case True
        then show ?thesis using that(2) Some hd by simp
      next
        case False
        then have "hop_rank t h' < r \<or> hop_rank t h' = r \<and> vm_Name via \<le> vm_Name t" using b(4) [OF _ that(2)] that(1) by simp
        with \<open>?new\<close> show ?thesis by (meson less_trans order.strict_trans2 order_less_imp_le)
      qed
      with True e Some hd show ?thesis by (auto simp: best_jump_def)
    next
      case False
      have "hop_rank t h' < r \<or> hop_rank t h' = r \<and> vm_Name via \<le> vm_Name t"
        if "t \<in> set (sibs @ [s])" "jump_offer tgt nets ops t = Some (h', d')" for t h' d'
      proof (cases "t = s")
        case True
        then have "h' = h" using that(2) Some hd by simp
        with False True show ?thesis by (meson linorder_neqE_nat not_le)
      next
        case False
        then show ?thesis using b(4) [OF _ that(2)] that(1) by simp
      qed
      with False e acc c x b show ?thesis by (auto simp: best_jump_def)
    qed
  qed
qed

lemma TenantJump_foldl: "best_jump tgt nets ops sibs (foldl (consider_jump tgt nets ops) (None, 0) sibs)"
  by (induction sibs rule: rev_induct) (simp_all add: best_jump_def [of _ _ _ "[]"] consider_jump_best)

lemma str_at_nonempty: "str_at m k \<noteq> [] \<Longrightarrow> (k, str_at m k) \<in> set m"
  by (auto simp: str_at_def split: option.splits dest: map_of_SomeD)

lemma shared_door_shared:
  assumes "shared_door (tenant_nets [] addrs) addrs' \<noteq> []"
  shows "\<exists>a \<in> set addrs. \<exists>b \<in> set addrs'. ia_Type a \<noteq> ''floating'' \<and> ia_Type b \<noteq> ''floating'' \<and> ia_NetworkName a = ia_NetworkName b \<and>
    ia_NetworkName a \<noteq> [] \<and> ia_Address a = shared_door (tenant_nets [] addrs) addrs'"
proof -
  let ?nets = "tenant_nets [] addrs"
  from assms obtain b where b: "find (\<lambda>a. ia_Type a \<noteq> ''floating'' \<and> ia_NetworkName a \<noteq> [] \<and> str_at ?nets (ia_NetworkName a) \<noteq> []) addrs' = Some b"
    "shared_door ?nets addrs' = str_at ?nets (ia_NetworkName b)" by (auto simp: shared_door_def split: option.splits)
  then have b': "b \<in> set addrs'" "ia_Type b \<noteq> ''floating''" "ia_NetworkName b \<noteq> []" "str_at ?nets (ia_NetworkName b) \<noteq> []"
    by (auto simp: find_Some_iff)
  from tenant_nets_values [OF str_at_nonempty [OF b'(4)]] obtain a where
    "a \<in> set addrs" "ia_Type a \<noteq> ''floating''" "ia_NetworkName a = ia_NetworkName b" "ia_Address a = str_at ?nets (ia_NetworkName b)" by auto
  with b(2) b' show ?thesis by (intro bexI [of _ a] bexI [of _ b]) simp_all
qed

text \<open>The two ways a target may reach a VM.\<close>

definition direct_route :: "string list \<Rightarrow> vm_instance \<Rightarrow> target \<Rightarrow> bool" where
  "direct_route nets v t \<longleftrightarrow> tg_Jump t = None \<and> (\<exists>a \<in> set (vm_Addresses v). vouched nets a \<and>
     tg_Addr t = JoinHostPort (ia_Address a) (Itoa 22))"

definition sibling_route :: "string list \<Rightarrow> vm_instance \<Rightarrow> vm_instance list \<Rightarrow> target \<Rightarrow> bool" where
  "sibling_route nets v sibs t \<longleftrightarrow> (\<exists>via \<in> set sibs. \<exists>j. tg_Jump t = Some j \<and> tg_Jump j = None \<and>
     vm_InstanceID via \<noteq> vm_InstanceID v \<and> vm_ProjectID via = vm_ProjectID v \<and> vm_ProjectID v \<noteq> [] \<and>
     vm_MissingSince via = None \<and> equal_fold (vm_Status via) ''ACTIVE'' \<and>
     (\<exists>a \<in> set (vm_Addresses via). vouched nets a \<and> tg_Addr j = JoinHostPort (ia_Address a) (Itoa 22)) \<and>
     (\<exists>a \<in> set (vm_Addresses v). \<exists>b \<in> set (vm_Addresses via). ia_Type a \<noteq> ''floating'' \<and> ia_Type b \<noteq> ''floating'' \<and>
        ia_NetworkName a = ia_NetworkName b \<and> ia_NetworkName a \<noteq> [] \<and> tg_Addr t = JoinHostPort (ia_Address a) (Itoa 22)))"

lemma TenantJump_route:
  assumes "TenantJump v sibs nets = Some (via, viaAddr, tenantAddr)"
  shows "sibling_route nets v sibs (VMTargetVia name tenantAddr viaName viaAddr (p \<lparr>vp_Port := 0\<rparr>))"
proof -
  let ?m = "tenant_nets [] (vm_Addresses v)"
  have p: "vm_ProjectID v \<noteq> []" and f: "fst (foldl (consider_jump v ?m nets) (None, 0) sibs) = Some (via, viaAddr, tenantAddr)"
    using assms by (auto simp: TenantJump_def Let_def split: if_splits)
  have o: "via \<in> set sibs" "jump_offer v ?m nets via = Some (viaAddr, tenantAddr)"
    using TenantJump_foldl [of v ?m nets sibs] f by (auto simp: best_jump_def split: prod.splits)
  have e: "vm_InstanceID via \<noteq> vm_InstanceID v" "vm_ProjectID via = vm_ProjectID v" "vm_MissingSince via = None"
    "equal_fold (vm_Status via) ''ACTIVE''" "viaAddr = ConnectableAddress (vm_Addresses via) nets" "viaAddr \<noteq> []"
    "tenantAddr = shared_door ?m (vm_Addresses via)" "tenantAddr \<noteq> []"
    using o(2) by (auto simp: jump_offer_def Let_def split: if_splits)
  obtain a where a: "a \<in> set (vm_Addresses via)" "ia_Address a = viaAddr" "vouched nets a"
    using ConnectableAddress_vouched [of "vm_Addresses via" nets] e(5,6) by metis
  from shared_door_shared [of "vm_Addresses v" "vm_Addresses via"] e(7,8) have d: "\<exists>a \<in> set (vm_Addresses v). \<exists>b \<in> set (vm_Addresses via).
    ia_Type a \<noteq> ''floating'' \<and> ia_Type b \<noteq> ''floating'' \<and> ia_NetworkName a = ia_NetworkName b \<and> ia_NetworkName a \<noteq> [] \<and> ia_Address a = tenantAddr" by simp
  show ?thesis unfolding sibling_route_def
    by (rule bexI [OF _ o(1)]) (use p e(1-4) a d in \<open>auto simp: VMTargetVia_def policy_port_def\<close>)
qed

lemma vmTarget_route:
  assumes "vmTarget cfg siblings v u = Inr t"
  shows "tg_User t = u" "tg_Name t = vm_Name v" "tg_Role t = cfg_CARole cfg"
    "direct_route (cfg_OperatorNetworks cfg) v t \<or> (\<exists>sibs. siblings = Inr sibs \<and> sibling_route (cfg_OperatorNetworks cfg) v sibs t)"
proof -
  let ?nets = "cfg_OperatorNetworks cfg"
  define p where "p = \<lparr>vp_User = u, vp_Port = 0, vp_CARole = cfg_CARole cfg, vp_OperatorNets = ?nets\<rparr>"
  have p: "vp_User p = u" "vp_Port p = 0" "vp_CARole p = cfg_CARole cfg" "vp_OperatorNets p = ?nets" "p \<lparr>vp_Port := 0\<rparr> = p"
    by (simp_all add: p_def)
  note vt = assms [unfolded vmTarget_def Let_def, folded p_def]
  have "tg_User t = u \<and> tg_Name t = vm_Name v \<and> tg_Role t = cfg_CARole cfg \<and>
    (direct_route ?nets v t \<or> (\<exists>sibs. siblings = Inr sibs \<and> sibling_route ?nets v sibs t))"
  proof (cases "VMTarget (vm_Name v) (vm_Addresses v) p")
    case (Inr t')
    then have t: "t = t'" using vt by simp
    have c: "ConnectableAddress (vm_Addresses v) ?nets \<noteq> []"
      and t': "t' = Target (vm_Name v) (JoinHostPort (ConnectableAddress (vm_Addresses v) ?nets) (Itoa 22)) u (cfg_CARole cfg) False False False None"
      using Inr p by (auto simp: VMTarget_def policy_port_def Let_def split: if_splits)
    obtain a where "a \<in> set (vm_Addresses v)" "ia_Address a = ConnectableAddress (vm_Addresses v) ?nets" "vouched ?nets a"
      using ConnectableAddress_vouched [OF c] by metis
    then show ?thesis unfolding t t' direct_route_def by auto
  next
    case (Inl e)
    then obtain sibs via viaAddr tenantAddr where j: "siblings = Inr sibs" "TenantJump v sibs ?nets = Some (via, viaAddr, tenantAddr)"
      "t = VMTargetVia (vm_Name v) tenantAddr (NameOrID via) viaAddr p"
      using vt by (auto split: if_splits sum.splits option.splits)
    from TenantJump_route [OF j(2), where p = p] j(1,3) p show ?thesis by (auto simp: VMTargetVia_def)
  qed
  then show "tg_User t = u" "tg_Name t = vm_Name v" "tg_Role t = cfg_CARole cfg"
    "direct_route (cfg_OperatorNetworks cfg) v t \<or> (\<exists>sibs. siblings = Inr sibs \<and> sibling_route (cfg_OperatorNetworks cfg) v sibs t)" by blast+
qed

section \<open>The login walk\<close>

lemma TryLoginUsers_invariant:
  assumes "\<And>s u s' err. u \<in> set cands \<Longrightarrow> P s \<Longrightarrow> attempt s u = (s', err) \<Longrightarrow> P s'" "P s"
  shows "P (fst (TryLoginUsers attempt s cands))"
  using assms
proof (induction attempt s cands rule: TryLoginUsers.induct)
  case (3 attempt s u v us)
  obtain s1 err where a: "attempt s u = (s1, err)" by (cases "attempt s u")
  have "P s1" using "3.prems"(1) [of u s s1 err] "3.prems"(2) a by simp
  moreover have "P (fst (TryLoginUsers attempt s1 (v # us)))" if "\<not> (err = None \<or> \<not> IsAuthFailure err)"
    using "3.IH" [OF a [symmetric] that] "3.prems"(1) \<open>P s1\<close> by (metis list.set_intros(2))
  ultimately show ?case using a by (auto split: prod.splits)
qed (auto split: prod.splits)

definition vm_auth_steps :: "vm_attempt list \<Rightarrow> bool" where
  "vm_auth_steps hist \<longleftrightarrow> (\<forall>x \<in> set hist. IsAuthFailure (snd (snd (snd x))))"

lemma vm_attempt_step_cases:
  assumes "vm_attempt_step cfg w v policy hist u = (hist', err)"
  obtains "hist' = hist" "err \<noteq> None"
  | t st where "hist' = hist @ [(u, t, st, err)]" "vmTarget cfg (w_siblings w hist (vm_DeploymentID v) (vm_ProjectID v)) v u = Inr t"
      "Connect (w_env w hist) \<lparr>rq_Target = t, rq_HostKey = policy\<rparr> = (st, err)"
  using assms by (auto simp: vm_attempt_step_def split: sum.splits prod.splits)

lemma login_walk:
  assumes "vm_auth_steps hist"
  shows "\<exists>new. fst (TryLoginUsers (vm_attempt_step cfg w v policy) hist cands) = hist @ new \<and> vm_auth_steps (butlast (hist @ new)) \<and>
    subseq (map fst new) cands"
  using assms
proof (induction "vm_attempt_step cfg w v policy" hist cands rule: TryLoginUsers.induct)
  case (1 s)
  then show ?case by (auto simp: vm_auth_steps_def dest: in_set_butlastD)
next
  case (2 s u)
  obtain s1 err where a: "vm_attempt_step cfg w v policy s u = (s1, err)" by (cases "vm_attempt_step cfg w v policy s u")
  from a show ?case
  proof (cases rule: vm_attempt_step_cases)
    case 1
    then show ?thesis using a "2.prems" by (auto simp: vm_auth_steps_def dest: in_set_butlastD)
  next
    case (2 t st)
    then show ?thesis using a "2.prems" by (intro exI [of _ "[(u, t, st, err)]"]) (simp add: butlast_append)
  qed
next
  case (3 s u v' us)
  obtain s1 err where a: "vm_attempt_step cfg w v policy s u = (s1, err)" by (cases "vm_attempt_step cfg w v policy s u")
  obtain new1 where n1: "s1 = s @ new1" "subseq (map fst new1) [u]" "\<forall>x \<in> set new1. snd (snd (snd x)) = err" "length new1 \<le> 1"
    using a by (cases rule: vm_attempt_step_cases) auto
  show ?case
  proof (cases "err = None \<or> \<not> IsAuthFailure err")
    case True
    have "butlast (s @ new1) = (if new1 = [] then butlast s else s)" using n1(4) by (cases new1) (auto simp: butlast_append)
    then have "vm_auth_steps (butlast (s @ new1))" using "3.prems" by (auto simp: vm_auth_steps_def dest: in_set_butlastD)
    moreover have "subseq (map fst new1) (u # v' # us)" by (rule subseq_order.trans [OF n1(2)]) simp
    ultimately show ?thesis using True a n1(1) by auto
  next
    case False
    have "vm_auth_steps s1" using "3.prems" n1 False by (auto simp: vm_auth_steps_def)
    from "3.hyps" [OF a [symmetric] False this] obtain new where
      n: "fst (TryLoginUsers (vm_attempt_step cfg w v policy) s1 (v' # us)) = s1 @ new" "vm_auth_steps (butlast (s1 @ new))"
        "subseq (map fst new) (v' # us)" by blast
    have "subseq (map fst (new1 @ new)) (u # v' # us)" using list_emb_append_mono [OF n1(2) n(3)] by simp
    with n n1(1) False a show ?thesis by (intro exI [of _ "new1 @ new"]) (auto split: prod.splits)
  qed
qed

lemma vmTarget_hops:
  assumes "vmTarget cfg siblings v u = Inr t"
  shows "\<forall>h \<in> set (hops t). tg_User h = u \<and> tg_Role h = cfg_CARole cfg"
  using assms
  by (auto simp: vmTarget_def VMTarget_def VMTargetVia_def Let_def split: sum.splits if_splits option.splits prod.splits)

lemma LoginCandidates_distinct: "distinct (LoginCandidates imageName configured)" "LoginCandidates imageName configured \<noteq> []"
  "hd (LoginCandidates imageName configured) = ''root''"
  by (auto simp: LoginCandidates_def DefaultVMUser_def)

lemma vm_candidates_distinct: "distinct (vm_candidates cfg v user)"
  by (simp add: vm_candidates_def LoginCandidates_distinct)

lemma subseq_distinct: "subseq xs ys \<Longrightarrow> distinct ys \<Longrightarrow> distinct xs"
  by (metis subseq_conv_nths distinct_nthsI)

text \<open>What holds of every remembered attempt.\<close>

definition attempt_ok :: "vm_cfg \<Rightarrow> vm_world \<Rightarrow> vm_instance \<Rightarrow> string list \<Rightarrow> vm_attempt \<Rightarrow> bool" where
  "attempt_ok cfg w v cands x \<longleftrightarrow> (case x of (u, t, st, e) \<Rightarrow> u \<in> set cands \<and>
     (\<exists>h policy. vmTarget cfg (w_siblings w h (vm_DeploymentID v) (vm_ProjectID v)) v u = Inr t \<and>
        Connect (w_env w h) \<lparr>rq_Target = t, rq_HostKey = policy\<rparr> = (st, e)))"

lemma connectVM_attempts:
  assumes "connectVM cfg w v user = (hist, err)"
  shows "\<forall>x \<in> set hist. attempt_ok cfg w v (vm_candidates cfg v user) x"
    and "vm_auth_steps (butlast hist)" "distinct (map fst hist)"
proof -
  let ?policy = "if w_terminal w then HostKeyPrompt else HostKeyStrict" and ?cands = "vm_candidates cfg v user"
  let ?walk = "TryLoginUsers (vm_attempt_step cfg w v ?policy) [] ?cands"
  have h: "hist = fst ?walk" using assms by (auto simp: connectVM_def Let_def split: prod.splits)
  have "\<forall>x \<in> set (fst ?walk). attempt_ok cfg w v ?cands x"
  proof (rule TryLoginUsers_invariant [where P = "\<lambda>hist. \<forall>x \<in> set hist. attempt_ok cfg w v ?cands x"])
    fix s u s' err'
    assume u: "u \<in> set ?cands" and s: "\<forall>x \<in> set s. attempt_ok cfg w v ?cands x"
      and a: "vm_attempt_step cfg w v ?policy s u = (s', err')"
    from a show "\<forall>x \<in> set s'. attempt_ok cfg w v ?cands x"
      by (cases rule: vm_attempt_step_cases) (use u s in \<open>auto simp: attempt_ok_def\<close>)
  qed simp
  then show "\<forall>x \<in> set hist. attempt_ok cfg w v ?cands x" by (simp add: h)
  have "\<exists>new. fst ?walk = [] @ new \<and> vm_auth_steps (butlast ([] @ new)) \<and> subseq (map fst new) ?cands"
    by (rule login_walk) (simp add: vm_auth_steps_def)
  then have "vm_auth_steps (butlast hist) \<and> subseq (map fst hist) ?cands" by (simp add: h)
  then show "vm_auth_steps (butlast hist)" "distinct (map fst hist)"
    using subseq_distinct [OF _ vm_candidates_distinct] by blast+
qed

lemma sshVM_reaches:
  assumes "sshVM cfg w selector user farm allowStale = (hist, err)" "hist \<noteq> []"
  obtains i v where "NovaID selector = Some i" "lookupVM w i farm = Inr v" "connectVM cfg w v user = (hist, err)"
    "vm_MissingSince v = None"
    "time_sub (w_now w) (vm_ObservedAt v) \<le> StaleProbeWindow \<or> allowStale \<or> w_terminal w \<and> w_confirm w = Inr True"
proof -
  obtain i where i: "NovaID selector = Some i" using assms by (auto simp: sshVM_def split: option.splits)
  obtain v where v: "lookupVM w i farm = Inr v" using assms i by (auto simp: sshVM_def split: option.splits sum.splits)
  have c: "checkVMCurrent v i allowStale (w_now w) (w_terminal w) (w_confirm w) = None" "connectVM cfg w v user = (hist, err)"
    using assms i v by (auto simp: sshVM_def split: option.splits)
  have "vm_MissingSince v = None" using c(1) by (simp add: checkVMCurrent_def split: if_splits)
  moreover have "time_sub (w_now w) (vm_ObservedAt v) \<le> StaleProbeWindow \<or> allowStale \<or> w_terminal w \<and> w_confirm w = Inr True"
    using c(1) by (auto simp: checkVMCurrent_def Let_def split: if_splits sum.splits)
  ultimately show ?thesis using that i v c(2) by blast
qed

section \<open>The properties of the path\<close>

lemma Connect_dials:
  assumes "Connect env \<lparr>rq_Target = t, rq_HostKey = policy\<rparr> = (st, e)"
  shows "Dial a \<in> set (trace st) \<Longrightarrow> \<exists>h \<in> set (hops t). a = tg_Addr h"
    "Via x a \<in> set (trace st) \<Longrightarrow> \<exists>h \<in> set (hops t). tg_Jump h \<noteq> None \<and> a = tg_Addr h"
proof -
  have "list_all (session_event t) (trace st)" using Connect_session [of "\<lparr>rq_Target = t, rq_HostKey = policy\<rparr>" env] assms by simp
  then show "Dial a \<in> set (trace st) \<Longrightarrow> \<exists>h \<in> set (hops t). a = tg_Addr h"
    "Via x a \<in> set (trace st) \<Longrightarrow> \<exists>h \<in> set (hops t). tg_Jump h \<noteq> None \<and> a = tg_Addr h"
    by (auto simp: list_all_iff session_event_def dial_event_def dest!: bspec)
qed

lemma hops_jump: "hops t = t # (case tg_Jump t of None \<Rightarrow> [] | Some j \<Rightarrow> hops j)"
  by (cases t; cases "tg_Jump t") auto

text \<open>C19: which addresses \<open>vctl ssh --vm\<close> connects to. Every attempt is for the one VM the identifier names, still
  listed, and collected within three hours unless the operator accepted a stale record. Either it dials, directly and nothing else, a floating or
  operator-network address of that VM; or it goes through an active, listed sibling of the same project that holds a port on the network of one of the VM's tenant
  addresses: then every direct dial is to the sibling's own floating or operator-network address or to that tenant address, which the
  code tries first, and only the tenant address is asked of the sibling.\<close>

theorem sshVM_dials_only_vouched:
  assumes "sshVM cfg w selector user farm allowStale = (hist, err)" "(u, t, st, e) \<in> set hist"
  shows "\<exists>i v. NovaID selector = Some i \<and> lookupVM w i farm = Inr v \<and> vm_MissingSince v = None \<and>
    (time_sub (w_now w) (vm_ObservedAt v) \<le> StaleProbeWindow \<or> allowStale \<or> w_terminal w \<and> w_confirm w = Inr True) \<and>
    u \<in> set (vm_candidates cfg v user) \<and> tg_Name t = vm_Name v \<and>
    (direct_route (cfg_OperatorNetworks cfg) v t \<and>
       (\<forall>a. Dial a \<in> set (trace st) \<longrightarrow> a = tg_Addr t) \<and> (\<forall>x a. Via x a \<notin> set (trace st)) \<or>
     (\<exists>h sibs j. w_siblings w h (vm_DeploymentID v) (vm_ProjectID v) = Inr sibs \<and> sibling_route (cfg_OperatorNetworks cfg) v sibs t \<and>
       tg_Jump t = Some j \<and> (\<forall>a. Dial a \<in> set (trace st) \<longrightarrow> a = tg_Addr t \<or> a = tg_Addr j) \<and> (\<forall>x a. Via x a \<in> set (trace st) \<longrightarrow> a = tg_Addr t)))"
proof -
  have "hist \<noteq> []" using assms(2) by auto
  from sshVM_reaches [OF assms(1) this] obtain i v where v: "NovaID selector = Some i" "lookupVM w i farm = Inr v"
    "connectVM cfg w v user = (hist, err)" "vm_MissingSince v = None"
    "time_sub (w_now w) (vm_ObservedAt v) \<le> StaleProbeWindow \<or> allowStale \<or> w_terminal w \<and> w_confirm w = Inr True" by metis
  have "attempt_ok cfg w v (vm_candidates cfg v user) (u, t, st, e)" using connectVM_attempts(1) [OF v(3)] assms(2) by blast
  then obtain h policy where u: "u \<in> set (vm_candidates cfg v user)"
    and t: "vmTarget cfg (w_siblings w h (vm_DeploymentID v) (vm_ProjectID v)) v u = Inr t"
    and k: "Connect (w_env w h) \<lparr>rq_Target = t, rq_HostKey = policy\<rparr> = (st, e)" by (auto simp: attempt_ok_def)
  note d = Connect_dials [OF k]
  from vmTarget_route(4) [OF t] show ?thesis
  proof (elim disjE exE conjE)
    assume r: "direct_route (cfg_OperatorNetworks cfg) v t"
    then have "hops t = [t]" by (simp add: direct_route_def hops_jump [of t])
    with r d have "(\<forall>a. Dial a \<in> set (trace st) \<longrightarrow> a = tg_Addr t) \<and> (\<forall>x a. Via x a \<notin> set (trace st))" by (force simp: direct_route_def)
    with r u v vmTarget_route(2) [OF t] show ?thesis by blast
  next
    fix sibs
    assume r: "w_siblings w h (vm_DeploymentID v) (vm_ProjectID v) = Inr sibs" "sibling_route (cfg_OperatorNetworks cfg) v sibs t"
    then obtain j where j: "tg_Jump t = Some j" "tg_Jump j = None" by (auto simp: sibling_route_def)
    then have "hops t = [t, j]" by (simp add: hops_jump [of t] hops_jump [of j])
    with d j(2) have "(\<forall>a. Dial a \<in> set (trace st) \<longrightarrow> a = tg_Addr t \<or> a = tg_Addr j) \<and> (\<forall>x a. Via x a \<in> set (trace st) \<longrightarrow> a = tg_Addr t)" by fastforce
    with r j u v vmTarget_route(2) [OF t] show ?thesis by blast
  qed
qed

text \<open>Every login attempt of that path leaves its own audit row for the VM, closes what it opened, and
  asks only for certificates naming the login user it tries; no user is tried twice, and a further
  user is tried only after an authentication failure.\<close>

theorem sshVM_audits_every_login:
  assumes "sshVM cfg w selector user farm allowStale = (hist, err)"
  shows "(\<forall>(u, t, st, e) \<in> set hist. \<exists>entry. audits (trace st) = [entry] \<and> ae_Hostname entry = tg_Name t \<and>
      mset (opened (trace st)) = mset (closed (trace st)) \<and>
      (\<forall>role ps xs. Sign role ps xs \<in> set (trace st) \<longrightarrow> role = cfg_CARole cfg \<and> ps = [u])) \<and>
    distinct (map fst hist) \<and> (\<forall>(u, t, st, e) \<in> set (butlast hist). IsAuthFailure e)"
proof (cases "hist = []")
  case False
  from sshVM_reaches [OF assms False] obtain i v where c: "connectVM cfg w v user = (hist, err)" by metis
  note a = connectVM_attempts [OF c]
  have "\<exists>entry. audits (trace st) = [entry] \<and> ae_Hostname entry = tg_Name t \<and> mset (opened (trace st)) = mset (closed (trace st)) \<and>
    (\<forall>role ps xs. Sign role ps xs \<in> set (trace st) \<longrightarrow> role = cfg_CARole cfg \<and> ps = [u])" if "(u, t, st, e) \<in> set hist" for u t st e
  proof -
    from a(1) that obtain h policy where t: "vmTarget cfg (w_siblings w h (vm_DeploymentID v) (vm_ProjectID v)) v u = Inr t"
      and k: "Connect (w_env w h) \<lparr>rq_Target = t, rq_HostKey = policy\<rparr> = (st, e)" by (fastforce simp: attempt_ok_def)
    let ?req = "\<lparr>rq_Target = t, rq_HostKey = policy\<rparr>"
    have "connect_spec (w_env w h) t (fst (e_identity (w_env w h) [])) (trace st) e" using Connect_spec [of "w_env w h" ?req] k by simp
    then obtain pre entry ok post where tr: "trace st = pre @ [Audited entry ok] @ post" "audits pre = []" "audits post = []"
      "ae_Hostname entry = tg_Name t" "mset (opened (trace st)) = mset (closed (trace st))" unfolding connect_spec_def by blast
    have s: "list_all (session_event t) (trace st)" using Connect_session [of ?req "w_env w h"] k by simp
    have "role = cfg_CARole cfg \<and> ps = [u]" if sg: "Sign role ps xs \<in> set (trace st)" for role ps xs
    proof -
      have "session_event t (Sign role ps xs)" using s sg by (simp add: list_all_iff)
      then have "\<exists>h \<in> set (hops t). role = tg_Role h \<and> ps = [tg_User h]" using hops_hd [of t]
        by (simp add: session_event_def dial_event_def) (metis list.set_intros(1) list.set_intros(2))
      with vmTarget_hops [OF t] show ?thesis by auto
    qed
    then show ?thesis using tr by (intro exI [of _ entry]) auto
  qed
  with a(2,3) show ?thesis by (auto simp: vm_auth_steps_def)
qed simp

section \<open>A concrete VM\<close>

definition demo_uuid :: string where
  "demo_uuid = ''0a1b2c3d-0000-4000-8000-00000000000f''"

definition demo_address :: "string \<Rightarrow> string \<Rightarrow> string \<Rightarrow> instanceAddress" where
  "demo_address net addr ty = \<lparr>ia_NetworkName = net, ia_Address = addr, ia_Type = ty, ia_IPVersion = 4\<rparr>"

definition demo_vm :: "string \<Rightarrow> string \<Rightarrow> instanceAddress list \<Rightarrow> vm_instance" where
  "demo_vm i name addrs = \<lparr>vm_DeploymentID = ''farm'', vm_InstanceID = i, vm_ProjectID = ''p'', vm_ProjectName = [], vm_Name = name,
     vm_Status = ''ACTIVE'', vm_PowerState = [], vm_TaskState = [], vm_AvailabilityZone = [], vm_HypervisorHostname = [], vm_FlavorID = [],
     vm_ImageID = [], vm_ImageName = [], vm_CreatedAt = None, vm_UpdatedAt = None, vm_ObservedAt = 100, vm_MissingSince = None,
     vm_Addresses = addrs\<rparr>"

definition demo_world :: vm_world where
  "demo_world = \<lparr>w_openStore = None, w_resolveFarm = Inr,
     w_instances = (\<lambda>i _. Inr [demo_vm i ''db'' [demo_address ''net'' ''10.0.0.7'' ''fixed'', demo_address ''net'' ''203.0.113.7'' ''floating'']]),
     w_siblings = (\<lambda>_ _ _. Inr []), w_env = (\<lambda>_. demo_ssh_env), w_now = 200, w_terminal = False, w_confirm = Inr False\<rparr>"

definition demo_cfg :: vm_cfg where
  "demo_cfg = \<lparr>cfg_CARole = ''vm-role'', cfg_OperatorNetworks = [''192.168.''], cfg_SSHDefaultUser = []\<rparr>"

definition demo_vm_target :: target where
  "demo_vm_target = Target ''db'' (JoinHostPort ''203.0.113.7'' (Itoa 22)) ''ubuntu'' ''vm-role'' False False False None"

lemma demo_NovaID: "NovaID demo_uuid = Some demo_uuid"
  by code_simp

lemma demo_sshVM:
  "sshVM demo_cfg demo_world demo_uuid ''ubuntu'' [] False =
    (let r = Connect demo_ssh_env \<lparr>rq_Target = demo_vm_target, rq_HostKey = HostKeyStrict\<rparr> in
     ([(''ubuntu'', demo_vm_target, fst r, snd r)], snd r))"
proof -
  let ?v = "demo_vm demo_uuid ''db'' [demo_address ''net'' ''10.0.0.7'' ''fixed'', demo_address ''net'' ''203.0.113.7'' ''floating'']"
  have l: "lookupVM demo_world demo_uuid [] = Inr ?v" by (simp add: lookupVM_def OneVM_def demo_world_def)
  have c: "checkVMCurrent ?v demo_uuid False 200 False (Inr False) = None"
    by (simp add: checkVMCurrent_def demo_vm_def StaleProbeWindow_def time_sub_def max_duration_def min_duration_def Let_def)
  have t: "vmTarget demo_cfg sibs ?v ''ubuntu'' = Inr demo_vm_target" for sibs
    by (simp add: vmTarget_def VMTarget_def ConnectableAddress_def rank_step_def connect_rank_def demo_vm_def demo_address_def demo_cfg_def
        demo_vm_target_def policy_port_def Let_def)
  have w: "w_now demo_world = 200" "w_terminal demo_world = False" "w_confirm demo_world = Inr False" "w_openStore demo_world = None"
    "w_env demo_world h = demo_ssh_env" for h by (simp_all add: demo_world_def)
  show ?thesis
    by (simp add: sshVM_def demo_NovaID l c w connectVM_def vm_candidates_def vm_attempt_step_def t Let_def split_beta)
qed

theorem sshVM_dials_only_vouched_witness:
  "\<exists>i v. NovaID demo_uuid = Some i \<and> lookupVM demo_world i [] = Inr v \<and> direct_route [''192.168.''] v demo_vm_target"
proof -
  let ?r = "Connect demo_ssh_env \<lparr>rq_Target = demo_vm_target, rq_HostKey = HostKeyStrict\<rparr>"
  have m: "(''ubuntu'', demo_vm_target, fst ?r, snd ?r) \<in> set [(''ubuntu'', demo_vm_target, fst ?r, snd ?r)]" by simp
  have n: "\<not> sibling_route nets v sibs demo_vm_target" for nets v sibs by (simp add: sibling_route_def demo_vm_target_def)
  show ?thesis using sshVM_dials_only_vouched [OF demo_sshVM [unfolded Let_def] m] n by (auto simp: demo_cfg_def)
qed

theorem sshVM_audits_every_login_witness:
  "\<exists>entry. audits (trace (fst (Connect demo_ssh_env \<lparr>rq_Target = demo_vm_target, rq_HostKey = HostKeyStrict\<rparr>))) = [entry] \<and>
     ae_Hostname entry = ''db''"
  using sshVM_audits_every_login [OF demo_sshVM [unfolded Let_def]] by (auto simp: demo_vm_target_def)

text \<open>A tenant-only VM with a sibling to jump through is still dialled directly first: the tenant address
  that \<open>ConnectableAddress\<close> refuses as a guess is the address of the target, and nothing skips the direct
  attempt.\<close>

lemma tenant_address_is_dialled_first:
  "ConnectableAddress [demo_address ''net'' ''10.0.0.7'' ''fixed''] [''192.168.''] = [] \<and>
   vmTarget demo_cfg (Inr [demo_vm ''sib'' ''hop'' [demo_address ''net'' ''10.0.0.9'' ''fixed'', demo_address ''net'' ''192.168.3.9'' ''fixed'']])
     (demo_vm ''i'' ''db'' [demo_address ''net'' ''10.0.0.7'' ''fixed'']) ''ubuntu'' =
   Inr (Target ''db'' ''10.0.0.7:22'' ''ubuntu'' ''vm-role'' False False False
     (Some (Target ''hop'' ''192.168.3.9:22'' ''ubuntu'' ''vm-role'' False False False None)))"
  by code_simp

lemma direct_attempt_comes_first:
  assumes "\<not> tg_SkipDirect t" "dialSingle env t ptyExtensions st = (st1, Inr c)"
  shows "dialTarget env t st = (st1, connection_info (Some c) t False, Inr c)"
  using assms by (simp add: dialTarget_def)

end
