(* ===== verification/Pg_Tx.thy ===== *)
theory Pg_Tx
  imports Go_Prelude
begin

text \<open>
  Transactions against PostgreSQL as the store uses them: a statement may fail in any state, an error before the commit rolls
  everything back (\<^verbatim>\<open>defer tx.Rollback\<close>), and a commit that reports an error may have landed or not, which the caller
  cannot tell. What the server answers is an environment, quantified in every theorem that uses it.
\<close>

datatype commit_outcome = Committed | CommitFailed goerror bool

record ('s, 'd) tx_env =
  te_begin :: "goerror option"
  te_exec :: "'s \<Rightarrow> 'd \<Rightarrow> goerror option"
  te_commit :: commit_outcome

definition tx_stmt :: "('s, 'd) tx_env \<Rightarrow> 's \<Rightarrow> ('d \<Rightarrow> 'd) \<Rightarrow> 'd \<Rightarrow> goerror + 'd" where
  "tx_stmt env s upd db = (case te_exec env s db of Some e \<Rightarrow> Inl e | None \<Rightarrow> Inr (upd db))"

text \<open>A statement whose row may break a foreign key fails then, whatever the environment says.\<close>

definition ErrForeignKey :: goerror where
  "ErrForeignKey = Sentinel ''23503''"

definition tx_insert :: "('s, 'd) tx_env \<Rightarrow> 's \<Rightarrow> ('d \<Rightarrow> bool) \<Rightarrow> ('d \<Rightarrow> 'd) \<Rightarrow> 'd \<Rightarrow> goerror + 'd" where
  "tx_insert env s key_ok upd db = (case te_exec env s db of Some e \<Rightarrow> Inl e
     | None \<Rightarrow> if key_ok db then Inr (upd db) else Inl ErrForeignKey)"

definition tx_commit :: "commit_outcome \<Rightarrow> 'd \<Rightarrow> 'd \<times> 'a \<Rightarrow> 'd \<times> (goerror + 'a)" where
  "tx_commit c db r = (case c of Committed \<Rightarrow> (fst r, Inr (snd r)) | CommitFailed e landed \<Rightarrow> (if landed then fst r else db, Inl e))"

definition in_tx :: "('s, 'd) tx_env \<Rightarrow> ('d \<Rightarrow> goerror + 'd \<times> 'a) \<Rightarrow> 'd \<Rightarrow> 'd \<times> (goerror + 'a)" where
  "in_tx env body db = (case te_begin env of Some e \<Rightarrow> (db, Inl e) | None \<Rightarrow> (case body db of
     Inl e \<Rightarrow> (db, Inl e) | Inr r \<Rightarrow> tx_commit (te_commit env) db r))"

text \<open>One statement outside a transaction commits by itself.\<close>

definition pool_insert :: "('s, 'd) tx_env \<Rightarrow> 's \<Rightarrow> ('d \<Rightarrow> bool) \<Rightarrow> ('d \<Rightarrow> 'd) \<Rightarrow> 'd \<Rightarrow> 'd \<times> (goerror + unit)" where
  "pool_insert env s key_ok upd db = (case tx_insert env s key_ok upd db of
     Inl e \<Rightarrow> (db, Inl e) | Inr db' \<Rightarrow> tx_commit (te_commit env) db (db', ()))"

definition pool_Exec :: "('s, 'd) tx_env \<Rightarrow> 's \<Rightarrow> ('d \<Rightarrow> 'd) \<Rightarrow> 'd \<Rightarrow> 'd \<times> (goerror + unit)" where
  "pool_Exec env s = pool_insert env s (\<lambda>_. True)"

fun tx_each :: "('x \<Rightarrow> 'd \<Rightarrow> goerror + 'd) \<Rightarrow> 'x list \<Rightarrow> 'd \<Rightarrow> goerror + 'd" where
  "tx_each f [] db = Inr db"
| "tx_each f (x # xs) db = go_bind (f x db) (tx_each f xs)"

lemma tx_stmt_Inr [simp]: "tx_stmt env s upd db = Inr db' \<longleftrightarrow> te_exec env s db = None \<and> db' = upd db"
  by (auto simp: tx_stmt_def split: option.splits)

lemma tx_insert_Inr [simp]: "tx_insert env s key_ok upd db = Inr db' \<longleftrightarrow> te_exec env s db = None \<and> key_ok db \<and> db' = upd db"
  by (auto simp: tx_insert_def split: option.splits)

lemma in_tx_outcome:
  assumes "in_tx env body db = (db', r)"
  shows "(db' = db \<and> (\<exists>e. r = Inl e)) \<or> (\<exists>x. body db = Inr (db', x) \<and> (r = Inr x \<or> (\<exists>e. r = Inl e)))"
  using assms by (auto simp: in_tx_def tx_commit_def split: option.splits sum.splits commit_outcome.splits if_splits)

lemma in_tx_ok: "in_tx env body db = (db', Inr x) \<Longrightarrow> body db = Inr (db', x)"
  by (auto simp: in_tx_def tx_commit_def split: option.splits sum.splits commit_outcome.splits)

lemma pool_insert_outcome:
  "pool_insert env s key_ok upd db = (db', r) \<Longrightarrow> db' = db \<and> (\<exists>e. r = Inl e) \<or> key_ok db \<and> db' = upd db"
  by (auto simp: pool_insert_def tx_commit_def split: sum.splits commit_outcome.splits if_splits)

lemma pool_insert_ok: "pool_insert env s key_ok upd db = (db', Inr u) \<Longrightarrow> key_ok db \<and> db' = upd db"
  by (auto simp: pool_insert_def tx_commit_def split: sum.splits commit_outcome.splits)

lemma pool_insert_refused: "\<not> key_ok db \<Longrightarrow> \<exists>e. pool_insert env s key_ok upd db = (db, Inl e)"
  by (auto simp: pool_insert_def tx_insert_def split: option.splits)

lemma pool_Exec_outcome: "pool_Exec env s upd db = (db', r) \<Longrightarrow> db' = db \<and> (\<exists>e. r = Inl e) \<or> db' = upd db"
  unfolding pool_Exec_def by (drule pool_insert_outcome) simp

lemma pool_Exec_ok: "pool_Exec env s upd db = (db', Inr u) \<Longrightarrow> db' = upd db"
  unfolding pool_Exec_def by (drule pool_insert_ok) simp

text \<open>When every step that succeeds applies a fixed change, so does the loop.\<close>

lemma tx_each_Inr:
  assumes "\<And>x db db'. x \<in> set xs \<Longrightarrow> f x db = Inr db' \<Longrightarrow> db' = g x db" "tx_each f xs db = Inr db'"
  shows "db' = foldl (\<lambda>db x. g x db) db xs"
  using assms by (induction xs arbitrary: db) (auto simp: go_bind_Inr)

text \<open>What every statement keeps, a transaction, a statement of its own and a loop of statements keep: a reflexive and
  transitive relation between databases carries over to the operations built from its steps.\<close>

locale kept_relation =
  fixes keeps :: "'d \<Rightarrow> 'd \<Rightarrow> bool"
  assumes keeps_refl: "keeps db db"
    and keeps_trans: "keeps db1 db2 \<Longrightarrow> keeps db2 db3 \<Longrightarrow> keeps db1 db3"
begin

lemma in_tx_keeps: "(\<And>db' x. body db = Inr (db', x) \<Longrightarrow> keeps db db') \<Longrightarrow> keeps db (fst (in_tx env body db))"
  by (cases "in_tx env body db") (auto dest: in_tx_outcome intro: keeps_refl)

lemma pool_insert_keeps: "(key_ok db \<Longrightarrow> keeps db (upd db)) \<Longrightarrow> keeps db (fst (pool_insert env s key_ok upd db))"
  by (cases "pool_insert env s key_ok upd db") (auto dest: pool_insert_outcome intro: keeps_refl)

lemma foldl_keeps: "(\<And>x db. x \<in> set xs \<Longrightarrow> keeps db (g x db)) \<Longrightarrow> keeps db (foldl (\<lambda>db x. g x db) db xs)"
  by (induction xs arbitrary: db) (auto intro: keeps_refl keeps_trans)

lemma tx_each_keeps: "(\<And>x db db'. x \<in> set xs \<Longrightarrow> f x db = Inr db' \<Longrightarrow> keeps db db') \<Longrightarrow> tx_each f xs db = Inr db' \<Longrightarrow> keeps db db'"
proof (induction xs arbitrary: db)
  case (Cons x xs)
  then obtain db1 where "f x db = Inr db1" "tx_each f xs db1 = Inr db'" by (auto simp: go_bind_Inr)
  with Cons show ?case by (meson keeps_trans list.set_intros)
qed (simp add: keeps_refl)

end

end
