(* ===== verification/Migrate_Ledger.thy ===== *)
theory Migrate_Ledger
  imports Pg_Tx
begin

text \<open>
  The migration runner (\<^verbatim>\<open>internal/store/migrate.go\<close>): embedded SQL files, the ledger
  \<^verbatim>\<open>schema_migrations\<close>, and \<open>MigrateAsOwner\<close>, which runs what the ledger does not hold inside one
  transaction under an advisory lock. The database is the rows of the ledger (\<^const>\<open>None\<close> while
  the table does not exist) and the migrations it has run, in order, each with its text. What a
  statement answers is decided by an environment that may fail any of them in any state; a commit that
  fails may have landed or not, which the caller cannot tell. The ledger's primary key is part of the
  model; a migration's own SQL is taken not to write the ledger.

  A file is taken not to end the transaction it runs in, which holds of the embedded ones. Schema changes are then rolled back with the rest,
  unlike what the comments of \<open>MigrateAsOwner\<close> warn of: a run that dies midway leaves nothing applied that the ledger does not record.

  The abstract specification is a ledger that only grows by whole batches of pending files; the
  runner refines it. Concurrent runs are a step relation in which a run works on the database it read under the advisory lock and commits what it
  made of it: no migration is run twice once it is recorded, by any builds, with any failures.
\<close>

section \<open>The embedded files\<close>

record migrationFile =
  mf_name :: string
  mf_sql :: string
  mf_checksum :: string

definition names :: "migrationFile list \<Rightarrow> string list" where
  "names files = map mf_name files"

fun read_entries :: "(string \<Rightarrow> goerror + string) \<Rightarrow> (string \<Rightarrow> string) \<Rightarrow> (string \<times> bool) list \<Rightarrow> goerror + migrationFile list" where
  "read_entries readFile sha256_hex [] = Inr []"
| "read_entries readFile sha256_hex ((name, isDir) # entries) =
    (if isDir then read_entries readFile sha256_hex entries
     else case readFile (''migrations/'' @ name) of
       Inl e \<Rightarrow> Inl e
     | Inr b \<Rightarrow> map_sum id (Cons \<lparr>mf_name = name, mf_sql = b, mf_checksum = sha256_hex b\<rparr>) (read_entries readFile sha256_hex entries))"

definition embeddedMigrations ::
  "goerror + (string \<times> bool) list \<Rightarrow> (string \<Rightarrow> goerror + string) \<Rightarrow> (string \<Rightarrow> string) \<Rightarrow> goerror + migrationFile list" where
  "embeddedMigrations readDir readFile sha256_hex = (case readDir of
     Inl e \<Rightarrow> Inl e
   | Inr entries \<Rightarrow> map_sum id (sort_key mf_name) (read_entries readFile sha256_hex entries))"

section \<open>The database\<close>

type_synonym ledger_row = "string \<times> string" \<comment> \<open>version and checksum\<close>

record pg_db =
  pg_ledger :: "ledger_row list option"
  pg_ran :: "(string \<times> string) list"

datatype stmt = SetRole string | SetLockTimeout | LiftStatementTimeout | AdvisoryLock | CreateLedger | GrantLedger
  | ReadLedger | RunFile string string | InsertRow string string

record migrate_env =
  me_begin :: "goerror option"
  me_exec :: "stmt \<Rightarrow> pg_db \<Rightarrow> goerror option"
  me_commit :: commit_outcome

definition ledger_rows :: "pg_db \<Rightarrow> ledger_row list" where
  "ledger_rows db = (case pg_ledger db of None \<Rightarrow> [] | Some rows \<Rightarrow> rows)"

definition ErrUniqueViolation :: goerror where
  "ErrUniqueViolation = Sentinel ''23505''"

definition effect :: "stmt \<Rightarrow> pg_db \<Rightarrow> goerror + pg_db" where
  "effect s db = (case s of
     CreateLedger \<Rightarrow> Inr (db \<lparr>pg_ledger := Some (ledger_rows db)\<rparr>)
   | RunFile name sql \<Rightarrow> Inr (db \<lparr>pg_ran := pg_ran db @ [(name, sql)]\<rparr>)
   | InsertRow v c \<Rightarrow>
       if v \<in> fst ` set (ledger_rows db) then Inl ErrUniqueViolation
       else Inr (db \<lparr>pg_ledger := Some (ledger_rows db @ [(v, c)])\<rparr>)
   | _ \<Rightarrow> Inr db)"

definition tx_Exec :: "migrate_env \<Rightarrow> stmt \<Rightarrow> pg_db \<Rightarrow> goerror + pg_db" where
  "tx_Exec env s db = (case me_exec env s db of Some e \<Rightarrow> Inl e | None \<Rightarrow> effect s db)"

section \<open>The runner\<close>

definition short :: "string \<Rightarrow> string" where
  "short checksum = (if length checksum \<le> 12 then checksum else take 12 checksum)"

definition appliedChecksums :: "migrate_env \<Rightarrow> pg_db \<Rightarrow> goerror + (string, string) gomap" where
  "appliedChecksums env db = (case me_exec env ReadLedger db of
     Some e \<Rightarrow> Inl (Wrapf ''read schema_migrations'' e)
   | None \<Rightarrow> Inr (foldl (\<lambda>m (v, c). AList.update v c m) [] (ledger_rows db)))"

definition ErrChanged :: "migrationFile \<Rightarrow> string \<Rightarrow> goerror" where
  "ErrChanged f was = Plain (''migration '' @ mf_name f @ '' changed after it was applied (recorded '' @ short was @ '', now '' @
     short (mf_checksum f) @ ''): add a new migration instead of editing an applied one'')"

fun migrate_loop :: "migrate_env \<Rightarrow> (string, string) gomap \<Rightarrow> migrationFile list \<Rightarrow> string list \<Rightarrow> pg_db \<Rightarrow> goerror + pg_db \<times> string list" where
  "migrate_loop env applied [] done_names db = Inr (db, done_names)"
| "migrate_loop env applied (f # files) done_names db = (case map_of applied (mf_name f) of
     Some was \<Rightarrow> if was \<noteq> mf_checksum f then Inl (ErrChanged f was) else migrate_loop env applied files done_names db
   | None \<Rightarrow>
       go_bind (go_wrap (''migration '' @ mf_name f) (tx_Exec env (RunFile (mf_name f) (mf_sql f)) db)) (\<lambda>db1.
       go_bind (go_wrap (''record migration '' @ mf_name f) (tx_Exec env (InsertRow (mf_name f) (mf_checksum f)) db1)) (\<lambda>db2.
       migrate_loop env applied files (done_names @ [mf_name f]) db2)))"

definition migrate_tx :: "migrate_env \<Rightarrow> migrationFile list \<Rightarrow> string \<Rightarrow> pg_db \<Rightarrow> goerror + pg_db \<times> string list" where
  "migrate_tx env files owner db =
    go_bind (if owner \<noteq> [] then go_wrap (''set migration owner '' @ owner) (tx_Exec env (SetRole owner) db) else Inr db) (\<lambda>db.
    go_bind (go_wrap ''set lock timeout'' (tx_Exec env SetLockTimeout db)) (\<lambda>db.
    go_bind (go_wrap ''lift statement timeout'' (tx_Exec env LiftStatementTimeout db)) (\<lambda>db.
    go_bind (go_wrap ''acquire migration lock (another migration may be running)'' (tx_Exec env AdvisoryLock db)) (\<lambda>db.
    go_bind (go_wrap ''create schema_migrations'' (tx_Exec env CreateLedger db)) (\<lambda>db.
    go_bind (go_wrap ''grant on schema_migrations'' (tx_Exec env GrantLedger db)) (\<lambda>db.
    go_bind (appliedChecksums env db) (\<lambda>applied.
    migrate_loop env applied files [] db)))))))"

definition MigrateAsOwner ::
  "migrate_env \<Rightarrow> goerror + migrationFile list \<Rightarrow> string \<Rightarrow> pg_db \<Rightarrow> pg_db \<times> (goerror + string list)" where
  "MigrateAsOwner env embedded owner db = (case embedded of
     Inl e \<Rightarrow> (db, Inl e)
   | Inr files \<Rightarrow> (case me_begin env of
       Some e \<Rightarrow> (db, Inl e)
     | None \<Rightarrow> (case migrate_tx env files owner db of
         Inl e \<Rightarrow> (db, Inl e)
       | Inr (db', done_names) \<Rightarrow> (case me_commit env of
           Committed \<Rightarrow> (db', Inr done_names)
         | CommitFailed e landed \<Rightarrow> (if landed then db' else db, Inl e)))))"

definition Migrate :: "migrate_env \<Rightarrow> goerror + migrationFile list \<Rightarrow> pg_db \<Rightarrow> pg_db \<times> goerror option" where
  "Migrate env embedded db = (case MigrateAsOwner env embedded [] db of
     (db', Inl e) \<Rightarrow> (db', Some e) | (db', Inr _) \<Rightarrow> (db', None))"

section \<open>Reporting\<close>

datatype query_result = NoSuchTable | QueryFailed goerror | Rows "ledger_row list"

definition AppliedMigrations :: "goerror option \<Rightarrow> pg_db \<Rightarrow> query_result" where
  "AppliedMigrations fault db = (case fault of Some e \<Rightarrow> QueryFailed e
     | None \<Rightarrow> (case pg_ledger db of None \<Rightarrow> NoSuchTable | Some rows \<Rightarrow> Rows (sort_key fst rows)))"

definition PendingMigrations :: "goerror option \<Rightarrow> goerror + migrationFile list \<Rightarrow> pg_db \<Rightarrow> goerror + string list" where
  "PendingMigrations fault embedded db = (case embedded of
     Inl e \<Rightarrow> Inl e
   | Inr files \<Rightarrow> (case AppliedMigrations fault db of
       NoSuchTable \<Rightarrow> Inr (names files)
     | QueryFailed e \<Rightarrow> Inl e
     | Rows applied \<Rightarrow>
         let have_map = foldl (\<lambda>m a. AList.update (fst a) True m) [] applied in
         Inr (map mf_name (filter (\<lambda>f. \<not> is_true have_map (mf_name f)) files))))"

section \<open>The abstract ledger\<close>

text \<open>What the runner promises: from the recorded rows and the files, either nothing happens, or exactly the
  files without a row run and are recorded, in the order of the files.\<close>

definition pending_files :: "ledger_row list \<Rightarrow> migrationFile list \<Rightarrow> migrationFile list" where
  "pending_files rows files = filter (\<lambda>f. mf_name f \<notin> fst ` set rows) files"

definition unchanged :: "ledger_row list \<Rightarrow> migrationFile list \<Rightarrow> bool" where
  "unchanged rows files \<longleftrightarrow> (\<forall>f \<in> set files. \<forall>c. map_of rows (mf_name f) = Some c \<longrightarrow> c = mf_checksum f)"

definition row_of :: "migrationFile \<Rightarrow> ledger_row" where
  "row_of f = (mf_name f, mf_checksum f)"

definition run_of :: "migrationFile \<Rightarrow> string \<times> string" where
  "run_of f = (mf_name f, mf_sql f)"

definition advanced :: "migrationFile list \<Rightarrow> pg_db \<Rightarrow> pg_db \<Rightarrow> bool" where
  "advanced files db db' \<longleftrightarrow> unchanged (ledger_rows db) files \<and> distinct (names (pending_files (ledger_rows db) files)) \<and>
     pg_ledger db' = Some (ledger_rows db @ map row_of (pending_files (ledger_rows db) files)) \<and>
     pg_ran db' = pg_ran db @ map run_of (pending_files (ledger_rows db) files)"

lemma tx_Exec_Inr: "tx_Exec env s db = Inr db' \<longleftrightarrow> me_exec env s db = None \<and> effect s db = Inr db'"
  by (simp add: tx_Exec_def split: option.splits)

lemma foldl_update_map_of: "map_of (foldl (\<lambda>m (v, c). AList.update v c m) m rows) = map_of m ++ map_of (rev rows)"
  by (induction rows rule: rev_induct) (auto simp: update_conv' map_add_def fun_eq_iff)

lemma map_of_rev_distinct: "distinct (map fst rows) \<Longrightarrow> map_of (rev rows) = map_of rows"
  by (subst map_of_inject_set) (simp_all add: rev_map [symmetric])

definition pk_ok :: "pg_db \<Rightarrow> bool" where
  "pk_ok db \<longleftrightarrow> distinct (map fst (ledger_rows db))"

lemma migrate_loop_advances:
  assumes "migrate_loop env applied files done_names db = Inr (db', done_names')"
    and "\<And>f. f \<in> set files \<Longrightarrow> map_of applied (mf_name f) = map_of rows (mf_name f)"
    and "ledger_rows db = rows @ new" "fst ` set new \<inter> fst ` set rows = {}"
  shows "unchanged rows files \<and> distinct (map fst new @ names (pending_files rows files)) = distinct (map fst new) \<and>
     ledger_rows db' = ledger_rows db @ map row_of (pending_files rows files) \<and>
     pg_ran db' = pg_ran db @ map run_of (pending_files rows files) \<and> done_names' = done_names @ names (pending_files rows files) \<and>
     (pg_ledger db \<noteq> None \<longrightarrow> pg_ledger db' \<noteq> None)"
  using assms
proof (induction files arbitrary: done_names db new)
  case Nil
  then show ?case by (simp add: unchanged_def pending_files_def names_def)
next
  case (Cons f files)
  have af: "map_of applied (mf_name f) = map_of rows (mf_name f)" using Cons.prems(2) by simp
  show ?case
  proof (cases "map_of rows (mf_name f)")
    case (Some c)
    then have rec: "c = mf_checksum f" "migrate_loop env applied files done_names db = Inr (db', done_names')"
      using Cons.prems(1) af by (auto split: if_splits)
    have "mf_name f \<in> fst ` set rows" using Some by (metis map_of_eq_None_iff option.distinct(1))
    then have p: "pending_files rows (f # files) = pending_files rows files" by (simp add: pending_files_def)
    have "unchanged rows (f # files) = unchanged rows files" using Some rec(1) by (auto simp: unchanged_def)
    with Cons.IH [OF rec(2) _ Cons.prems(3,4)] Cons.prems(2) p show ?thesis by simp
  next
    case None
    then have nf: "mf_name f \<notin> fst ` set rows" by (simp add: map_of_eq_None_iff)
    let ?db1 = "db \<lparr>pg_ran := pg_ran db @ [run_of f]\<rparr>"
    let ?db2 = "?db1 \<lparr>pg_ledger := Some (ledger_rows db @ [row_of f])\<rparr>"
    have l1: "ledger_rows ?db1 = ledger_rows db" by (simp add: ledger_rows_def)
    have nl: "mf_name f \<notin> fst ` set (ledger_rows db)" and rec: "migrate_loop env applied files (done_names @ [mf_name f]) ?db2 = Inr (db', done_names')"
      using Cons.prems(1) af None
      by (auto simp: go_bind_Inr tx_Exec_Inr effect_def run_of_def row_of_def ledger_rows_def split: if_splits)
    have l2: "ledger_rows ?db2 = rows @ new @ [row_of f]" using Cons.prems(3) by (simp add: ledger_rows_def)
    have fr: "fst ` set (new @ [row_of f]) \<inter> fst ` set rows = {}" using Cons.prems(4) nf by (auto simp: row_of_def)
    note ih = Cons.IH [OF rec _ l2 fr]
    have fn: "mf_name f \<notin> fst ` set new" using nl Cons.prems(3) by auto
    have p: "pending_files rows (f # files) = f # pending_files rows files" using nf by (simp add: pending_files_def)
    have u: "unchanged rows (f # files) = unchanged rows files" using None by (auto simp: unchanged_def)
    have n: "map fst (new @ [row_of f]) @ names (pending_files rows files) = map fst new @ names (f # pending_files rows files)"
      by (simp add: names_def row_of_def)
    have d: "distinct (map fst (new @ [row_of f])) = distinct (map fst new)" using fn by (simp add: row_of_def)
    have lr: "ledger_rows ?db2 = ledger_rows db @ [row_of f]" by (simp add: ledger_rows_def)
    show ?thesis unfolding p u using ih Cons.prems(2) n d lr by (simp add: names_def)
  qed
qed

lemma stmt_effects [simp]:
  "effect (SetRole o') db = Inr db" "effect SetLockTimeout db = Inr db" "effect LiftStatementTimeout db = Inr db"
  "effect AdvisoryLock db = Inr db" "effect GrantLedger db = Inr db" "effect ReadLedger db = Inr db"
  "effect CreateLedger db = Inr (db \<lparr>pg_ledger := Some (ledger_rows db)\<rparr>)"
  by (simp_all add: effect_def)

lemma migrate_tx_advances:
  assumes "pk_ok db" "migrate_tx env files owner db = Inr (db', done_names)"
  shows "advanced files db db' \<and> done_names = names (pending_files (ledger_rows db) files)"
proof -
  let ?db = "db \<lparr>pg_ledger := Some (ledger_rows db)\<rparr>"
  have l: "ledger_rows ?db = ledger_rows db" by (simp add: ledger_rows_def)
  obtain applied where a: "appliedChecksums env ?db = Inr applied" and loop: "migrate_loop env applied files [] ?db = Inr (db', done_names)"
    using assms(2) by (auto simp: migrate_tx_def go_bind_Inr tx_Exec_Inr split: if_splits)
  have "map_of applied = map_of (ledger_rows db)" using a assms(1) l
    by (auto simp: appliedChecksums_def foldl_update_map_of map_of_rev_distinct pk_ok_def split: option.splits)
  then have "map_of applied (mf_name f) = map_of (ledger_rows db) (mf_name f)" for f by simp
  from migrate_loop_advances [OF loop this, of "[]"] l show ?thesis
    by (auto simp: advanced_def ledger_rows_def split: option.splits)
qed

lemma MigrateAsOwner_advances:
  assumes "pk_ok db" "MigrateAsOwner env (Inr files) owner db = (db', r)"
  shows "db' = db \<or> advanced files db db'"
    and "r = Inr done_names \<Longrightarrow> advanced files db db' \<and> done_names = names (pending_files (ledger_rows db) files)"
  using assms(2) migrate_tx_advances [OF assms(1), of env files owner]
  by (auto simp: MigrateAsOwner_def split: option.splits sum.splits commit_outcome.splits if_splits prod.splits)

lemma foldl_have_is_true: "is_true (foldl (\<lambda>m a. AList.update (fst a) True m) m rows) k \<longleftrightarrow> k \<in> fst ` set rows \<or> is_true m k"
  by (induction rows arbitrary: m) auto

lemma PendingMigrations_pending: "PendingMigrations None (Inr files) db = Inr (names (pending_files (ledger_rows db) files))"
  by (cases "pg_ledger db")
     (simp_all add: PendingMigrations_def AppliedMigrations_def pending_files_def names_def ledger_rows_def foldl_have_is_true Let_def)

lemma advanced_nothing_pending: "advanced files db db' \<Longrightarrow> pending_files (ledger_rows db') files = []"
proof -
  assume a: "advanced files db db'"
  then have "fst ` set (ledger_rows db') = fst ` set (ledger_rows db) \<union> mf_name ` set (pending_files (ledger_rows db) files)"
    by (simp add: advanced_def ledger_rows_def [of db'] image_Un image_image row_of_def)
  then show ?thesis by (auto simp: pending_files_def filter_empty_conv)
qed

text \<open>An environment that refuses nothing.\<close>

definition healthy :: "migrate_env \<Rightarrow> bool" where
  "healthy env \<longleftrightarrow> me_begin env = None \<and> (\<forall>s db. me_exec env s db = None) \<and> me_commit env = Committed"

lemma migrate_loop_returns:
  assumes "healthy env" "\<And>f. f \<in> set files \<Longrightarrow> map_of applied (mf_name f) = map_of rows (mf_name f)" "unchanged rows files"
    "ledger_rows db = rows @ new" "distinct (map fst new @ names (pending_files rows files))"
  shows "\<exists>db' done_names'. migrate_loop env applied files done_names db = Inr (db', done_names')"
  using assms
proof (induction files arbitrary: done_names db new)
  case (Cons f files)
  have af: "map_of applied (mf_name f) = map_of rows (mf_name f)" using Cons.prems(2) by simp
  have u: "unchanged rows files" using Cons.prems(3) by (simp add: unchanged_def)
  show ?case
  proof (cases "map_of rows (mf_name f)")
    case (Some c)
    then have "c = mf_checksum f" using Cons.prems(3) by (auto simp: unchanged_def)
    moreover have "pending_files rows (f # files) = pending_files rows files"
      using Some by (auto simp: pending_files_def dest: map_of_SomeD intro: rev_image_eqI)
    ultimately show ?thesis using Some af Cons.IH [OF Cons.prems(1) _ u Cons.prems(4)] Cons.prems(2,5) by simp
  next
    case None
    then have nf: "mf_name f \<notin> fst ` set rows" by (simp add: map_of_eq_None_iff)
    let ?db2 = "db \<lparr>pg_ran := pg_ran db @ [(mf_name f, mf_sql f)], pg_ledger := Some (ledger_rows db @ [(mf_name f, mf_checksum f)])\<rparr>"
    have p: "pending_files rows (f # files) = f # pending_files rows files" using nf by (simp add: pending_files_def)
    have l2: "ledger_rows ?db2 = rows @ new @ [(mf_name f, mf_checksum f)]" using Cons.prems(4) by (simp add: ledger_rows_def)
    have d2: "distinct (map fst (new @ [(mf_name f, mf_checksum f)]) @ names (pending_files rows files))"
      using Cons.prems(5) p by (auto simp: names_def)
    have nl: "mf_name f \<notin> fst ` set (ledger_rows db)" using Cons.prems(4,5) nf p by (auto simp: names_def)
    have lr: "ledger_rows (db \<lparr>pg_ran := x\<rparr>) = ledger_rows db" for x by (simp add: ledger_rows_def)
    from Cons.IH [OF Cons.prems(1) _ u l2 d2] Cons.prems(2)
    obtain db' names' where "migrate_loop env applied files (done_names @ [mf_name f]) ?db2 = Inr (db', names')" by fastforce
    then show ?thesis using None af nl lr Cons.prems(1)
      by (simp add: healthy_def go_bind_def go_wrap_def tx_Exec_def effect_def)
  qed
qed simp

lemma MigrateAsOwner_returns:
  assumes "pk_ok db" "healthy env" "unchanged (ledger_rows db) files" "distinct (names files)"
  shows "\<exists>db' done_names. MigrateAsOwner env (Inr files) owner db = (db', Inr done_names)"
proof -
  let ?db = "db \<lparr>pg_ledger := Some (ledger_rows db)\<rparr>"
  let ?applied = "foldl (\<lambda>m (v, c). AList.update v c m) [] (ledger_rows db)"
  have m: "map_of ?applied (mf_name f) = map_of (ledger_rows db) (mf_name f)" for f
    using assms(1) by (simp add: foldl_update_map_of map_of_rev_distinct pk_ok_def)
  have l: "ledger_rows ?db = ledger_rows db @ []" by (simp add: ledger_rows_def)
  have d: "distinct (map fst [] @ names (pending_files (ledger_rows db) files))" using assms(4)
    by (simp add: names_def pending_files_def distinct_map_filter)
  obtain db' ns where "migrate_loop env ?applied files [] ?db = Inr (db', ns)"
    using migrate_loop_returns [OF assms(2) m assms(3) l d] by blast
  moreover have "me_exec env s x = None" "me_begin env = None" "me_commit env = Committed" for s x using assms(2) by (simp_all add: healthy_def)
  ultimately show ?thesis using l
    by (simp add: MigrateAsOwner_def migrate_tx_def go_bind_def go_wrap_def tx_Exec_def appliedChecksums_def)
qed

section \<open>Any sequence of runs\<close>

text \<open>A journal that every run leaves alone or extends by new names, executing exactly what it records.\<close>

locale once_ledger =
  fixes run :: "'i \<Rightarrow> 'db \<Rightarrow> 'db" and recorded executed :: "'db \<Rightarrow> string list"
  assumes run_extends: "distinct (recorded db) \<Longrightarrow>
    \<exists>new. recorded (run i db) = recorded db @ new \<and> executed (run i db) = executed db @ new \<and> distinct (recorded db @ new)"
begin

lemma runs_extend:
  "distinct (recorded db) \<Longrightarrow>
   \<exists>new. recorded (foldl (\<lambda>d i. run i d) db is) = recorded db @ new \<and> executed (foldl (\<lambda>d i. run i d) db is) = executed db @ new \<and>
     distinct (recorded db @ new)"
proof (induction "is" arbitrary: db)
  case (Cons i "is")
  obtain new where n: "recorded (run i db) = recorded db @ new" "executed (run i db) = executed db @ new" "distinct (recorded db @ new)"
    using run_extends [OF Cons.prems] by blast
  from Cons.IH [of "run i db"] n obtain more where "recorded (foldl (\<lambda>d i. run i d) (run i db) is) = recorded (run i db) @ more"
    "executed (foldl (\<lambda>d i. run i d) (run i db) is) = executed (run i db) @ more" "distinct (recorded (run i db) @ more)" by auto
  with n show ?case by (intro exI [of _ "new @ more"]) simp
qed simp

end

type_synonym migrate_call = "migrate_env \<times> (goerror + migrationFile list) \<times> string"

definition migrate_call :: "migrate_call \<Rightarrow> pg_db \<Rightarrow> pg_db" where
  "migrate_call i db = (case i of (env, embedded, owner) \<Rightarrow> fst (MigrateAsOwner env embedded owner db))"

interpretation journal: once_ledger migrate_call "\<lambda>db. map fst (ledger_rows db)" "\<lambda>db. map fst (pg_ran db)"
proof
  fix db :: pg_db and i :: migrate_call
  assume d: "distinct (map fst (ledger_rows db))"
  obtain env embedded owner where i: "i = (env, embedded, owner)" by (cases i)
  let ?db' = "migrate_call i db"
  have "?db' = db \<or> (\<exists>files. advanced files db ?db')"
  proof (cases embedded)
    case (Inl e)
    then show ?thesis by (simp add: migrate_call_def i MigrateAsOwner_def)
  next
    case (Inr files)
    obtain db' r where m: "MigrateAsOwner env (Inr files) owner db = (db', r)" by (cases "MigrateAsOwner env (Inr files) owner db")
    with MigrateAsOwner_advances(1) [OF _ m] d Inr show ?thesis by (auto simp: migrate_call_def i pk_ok_def)
  qed
  then show "\<exists>new. map fst (ledger_rows ?db') = map fst (ledger_rows db) @ new \<and> map fst (pg_ran ?db') = map fst (pg_ran db) @ new \<and>
    distinct (map fst (ledger_rows db) @ new)"
  proof
    assume "\<exists>files. advanced files db ?db'"
    then obtain files where a: "advanced files db ?db'" by blast
    let ?new = "names (pending_files (ledger_rows db) files)"
    have "map fst (ledger_rows ?db') = map fst (ledger_rows db) @ ?new" "map fst (pg_ran ?db') = map fst (pg_ran db) @ ?new"
      using a by (simp_all add: advanced_def ledger_rows_def [of ?db'] names_def row_of_def run_of_def comp_def)
    moreover have "set ?new \<inter> fst ` set (ledger_rows db) = {}" by (auto simp: names_def pending_files_def)
    moreover have "distinct ?new" using a by (simp add: advanced_def)
    ultimately show ?thesis using d by (intro exI [of _ ?new]) auto
  qed (use d in auto)
qed

section \<open>Concurrent runs\<close>

text \<open>A run under way: the call, and the database as it was when it got the lock. Nothing before the lock reads or writes it, so a run that ends before
  is a step that changes nothing. The lock goes with the transaction.\<close>

record migrate_world =
  mw_db :: pg_db
  mw_lock :: "nat option"
  mw_tx :: "nat \<Rightarrow> (migrate_call \<times> pg_db) option"

inductive migrate_step :: "migrate_world \<Rightarrow> migrate_world \<Rightarrow> bool" where
  no_lock: "migrate_step w w"
| got_lock: "mw_lock w = None \<Longrightarrow> migrate_step w (w \<lparr>mw_lock := Some p, mw_tx := (mw_tx w)(p := Some (i, mw_db w))\<rparr>)"
| tx_ends: "mw_tx w p = Some (i, db) \<Longrightarrow>
    migrate_step w (w \<lparr>mw_db := migrate_call i db, mw_lock := None, mw_tx := (mw_tx w)(p := None)\<rparr>)"

inductive migrate_run :: "pg_db \<Rightarrow> migrate_world \<Rightarrow> bool" for db0 where
  idle: "migrate_run db0 \<lparr>mw_db = db0, mw_lock = None, mw_tx = (\<lambda>p. None)\<rparr>"
| goes_on: "migrate_run db0 w \<Longrightarrow> migrate_step w w' \<Longrightarrow> migrate_run db0 w'"

lemma migrate_run_serial:
  "migrate_run db0 w \<Longrightarrow> (\<forall>p i db. mw_tx w p = Some (i, db) \<longrightarrow> mw_lock w = Some p \<and> db = mw_db w) \<and>
    (\<exists>calls. mw_db w = foldl (\<lambda>db i. migrate_call i db) db0 calls)"
proof (induction rule: migrate_run.induct)
  case idle
  show ?case by (auto intro: exI [of _ "[]"])
next
  case (goes_on w w')
  then obtain calls where calls: "mw_db w = foldl (\<lambda>db i. migrate_call i db) db0 calls"
    and inv: "\<And>p i db. mw_tx w p = Some (i, db) \<Longrightarrow> mw_lock w = Some p \<and> db = mw_db w" by blast
  from goes_on.hyps(2) show ?case
  proof cases
    case no_lock
    then show ?thesis using calls inv by blast
  next
    case (got_lock p i)
    then have "mw_tx w q = None" for q using inv by (metis not_None_eq option.distinct(1) surj_pair)
    with got_lock calls show ?thesis by auto
  next
    case (tx_ends p i db)
    have "mw_tx w q = None" if "q \<noteq> p" for q using inv [OF tx_ends(2)] inv [of q] that by (cases "mw_tx w q") auto
    moreover have "mw_db w' = foldl (\<lambda>db i. migrate_call i db) db0 (calls @ [i])" using tx_ends inv [OF tx_ends(2)] calls by simp
    moreover have "mw_tx w' q = None" for q using calculation(1) [of q] tx_ends(1) by (cases "q = p") simp_all
    ultimately show ?thesis by (metis option.distinct(1))
  qed
qed

section \<open>The properties\<close>

text \<open>C17: the runner refines the abstract ledger. Whatever statement fails, and whether or not a failed commit
  landed, the database afterwards is the one before, or the one in which no recorded file had
  changed and exactly the pending files were run and recorded, in file order; a successful run is of the
  second kind, reports exactly the names \<open>PendingMigrations\<close> announced, and leaves nothing pending; and
  when nothing fails, no recorded file changed and the names are distinct, the run succeeds. A statement that dies midway leaves the first case:
  the transaction takes its schema changes with it.\<close>

theorem MigrateAsOwner_refines_ledger:
  assumes "distinct (map fst (ledger_rows db))" "MigrateAsOwner env (Inr files) owner db = (db', r)"
  shows "(db' = db \<or> advanced files db db') \<and>
    (\<forall>ns. r = Inr ns \<longrightarrow> advanced files db db' \<and> PendingMigrations None (Inr files) db = Inr ns \<and>
       PendingMigrations None (Inr files) db' = Inr []) \<and>
    (healthy env \<and> unchanged (ledger_rows db) files \<and> distinct (names files) \<longrightarrow> (\<exists>ns. r = Inr ns))"
proof -
  have pk: "pk_ok db" using assms(1) by (simp add: pk_ok_def)
  note a = MigrateAsOwner_advances [OF pk assms(2)]
  have "\<exists>ns. r = Inr ns" if "healthy env" "unchanged (ledger_rows db) files" "distinct (names files)"
    using MigrateAsOwner_returns [OF pk that, of owner] assms(2) by auto
  moreover have "PendingMigrations None (Inr files) db' = Inr []" if "advanced files db db'"
    using advanced_nothing_pending [OF that] by (simp add: PendingMigrations_pending names_def)
  ultimately show ?thesis using a by (auto simp: PendingMigrations_pending)
qed

text \<open>C18: no migration runs twice once it is recorded. From any database whose ledger, if it has one, names each version once, with whatever
  schema it came with, any number of runs at once, by any builds with any embedded files, each free to fail anywhere or to lose
  its reply, execute exactly the migrations they record, in the same order, each once and none that was recorded before.\<close>

theorem migrations_run_once:
  assumes "distinct (map fst (ledger_rows db))" "migrate_run db w"
  shows "\<exists>new. map fst (ledger_rows (mw_db w)) = map fst (ledger_rows db) @ new \<and> map fst (pg_ran (mw_db w)) = map fst (pg_ran db) @ new \<and>
    distinct (map fst (ledger_rows db) @ new)"
proof -
  from migrate_run_serial [OF assms(2)] obtain calls where "mw_db w = foldl (\<lambda>db i. migrate_call i db) db calls" by blast
  with journal.runs_extend [OF assms(1), of calls] show ?thesis by simp
qed

section \<open>A concrete run\<close>

definition demo_files :: "migrationFile list" where
  "demo_files = [\<lparr>mf_name = ''0001.sql'', mf_sql = ''CREATE A'', mf_checksum = ''aa''\<rparr>,
     \<lparr>mf_name = ''0002.sql'', mf_sql = ''CREATE B'', mf_checksum = ''bb''\<rparr>]"

definition demo_migrate_env :: migrate_env where
  "demo_migrate_env = \<lparr>me_begin = None, me_exec = (\<lambda>_ _. None), me_commit = Committed\<rparr>"

definition demo_db :: pg_db where
  "demo_db = \<lparr>pg_ledger = Some [(''0001.sql'', ''aa'')], pg_ran = [(''0001.sql'', ''CREATE A'')]\<rparr>"

theorem MigrateAsOwner_refines_ledger_witness:
  "MigrateAsOwner demo_migrate_env (Inr demo_files) ''owner'' demo_db =
     (\<lparr>pg_ledger = Some [(''0001.sql'', ''aa''), (''0002.sql'', ''bb'')], pg_ran = [(''0001.sql'', ''CREATE A''), (''0002.sql'', ''CREATE B'')]\<rparr>,
      Inr [''0002.sql'']) \<and>
   advanced demo_files demo_db (fst (MigrateAsOwner demo_migrate_env (Inr demo_files) ''owner'' demo_db))"
proof -
  let ?m = "MigrateAsOwner demo_migrate_env (Inr demo_files) ''owner'' demo_db"
  have e: "?m = (\<lparr>pg_ledger = Some [(''0001.sql'', ''aa''), (''0002.sql'', ''bb'')],
      pg_ran = [(''0001.sql'', ''CREATE A''), (''0002.sql'', ''CREATE B'')]\<rparr>, Inr [''0002.sql''])"
    by (simp add: MigrateAsOwner_def migrate_tx_def go_bind_def go_wrap_def tx_Exec_def appliedChecksums_def demo_migrate_env_def
        demo_files_def demo_db_def effect_def ledger_rows_def)
  have d: "distinct (map fst (ledger_rows demo_db))" by (simp add: demo_db_def ledger_rows_def)
  from MigrateAsOwner_refines_ledger [OF d e] have "advanced demo_files demo_db (fst ?m)" unfolding e by simp
  with e show ?thesis by blast
qed

theorem migrations_run_once_witness:
  "\<exists>new. map fst (ledger_rows (migrate_call (demo_migrate_env, Inr demo_files, []) demo_db)) = [''0001.sql''] @ new \<and>
    map fst (pg_ran (migrate_call (demo_migrate_env, Inr demo_files, []) demo_db)) = [''0001.sql''] @ new \<and> distinct ([''0001.sql''] @ new)"
proof -
  let ?i = "(demo_migrate_env, Inr demo_files, []) :: migrate_call"
  let ?w0 = "\<lparr>mw_db = demo_db, mw_lock = None, mw_tx = (\<lambda>p. None)\<rparr>"
  have "migrate_run demo_db (?w0 \<lparr>mw_lock := Some 0, mw_tx := (mw_tx ?w0)(0 := Some (?i, mw_db ?w0))\<rparr>)"
    by (rule migrate_run.goes_on [OF migrate_run.idle got_lock]) simp
  from migrate_run.goes_on [OF this tx_ends [of _ 0 ?i demo_db]]
  have r: "migrate_run demo_db \<lparr>mw_db = migrate_call ?i demo_db, mw_lock = None, mw_tx = (\<lambda>p. None)\<rparr>"
    by (simp add: fun_upd_idem)
  have d: "distinct (map fst (ledger_rows demo_db))" "map fst (ledger_rows demo_db) = [''0001.sql'']" "map fst (pg_ran demo_db) = [''0001.sql'']"
    by (simp_all add: demo_db_def ledger_rows_def)
  from migrations_run_once [OF d(1) r] show ?thesis by (simp add: d)
qed

end
