(* ===== verification/Node_Renew.thy ===== *)
theory Node_Renew
  imports Node_Enroll
begin

text \<open>
  The agent's side of its identity: \<open>EnrollVM\<close> and \<open>verifyIssuedVMChain\<close> of \<^verbatim>\<open>internal/nodeaccess/enroll.go\<close>, the
  \<open>CertificateRenewer\<close> and the files it writes of \<^verbatim>\<open>cert_renewal.go\<close>. A private key is an opaque string with a
  public key; key generation, certificate requests, PEM and PKCS8 encoding, the pairing of a certificate with a key
  and chain verification are the record \<open>agent_lib\<close>. What the gateway or Vault answers is a function of the
  request. A file write either replaces the file or leaves it alone, as the temporary file and the rename of
  \<open>writeAtomic\<close> give.

  The lemmas show what an agent checks before it accepts a certificate, and that the renewer changes the identity in use
  only to a current certificate whose two files were both written. Concrete runs show the state a failed key write leaves
  behind and a chain that enrolment accepts and renewal refuses.
\<close>

section \<open>Certificates and keys\<close>

record tls_pair =
  tp_Chain :: "string list"
  tp_Key :: string

record agent_lib =
  al_x509 :: x509lib
  al_url :: url_lib
  al_newKey :: "goerror + string"
  al_publicKey :: "string \<Rightarrow> string"
  al_newCSR :: "string \<Rightarrow> string \<Rightarrow> string \<Rightarrow> goerror + string"
  al_pkcs8 :: "string \<Rightarrow> goerror + string"
  al_pemEncode :: "string \<Rightarrow> string \<Rightarrow> string"
  al_X509KeyPair :: "string \<Rightarrow> string \<Rightarrow> goerror + tls_pair"
  al_Verify :: "certpool \<Rightarrow> certificate list \<Rightarrow> certificate \<Rightarrow> goerror option"

fun parse_all :: "x509lib \<Rightarrow> string list \<Rightarrow> certificate list option" where
  "parse_all xl [] = Some []"
| "parse_all xl (d # ds) = (case ParseCertificate xl d of None \<Rightarrow> None | Some c \<Rightarrow> map_option (Cons c) (parse_all xl ds))"

definition verifyIssuedVMChain :: "agent_lib \<Rightarrow> tls_pair \<Rightarrow> certpool \<Rightarrow> goerror option" where
  "verifyIssuedVMChain lib pair roots = (case tp_Chain pair of
     [] \<Rightarrow> Some (Plain ''verify VM certificate chain: no certificate'')
   | d # ds \<Rightarrow> (case ParseCertificate (al_x509 lib) d of
       None \<Rightarrow> Some (Plain ''parse VM certificate'')
     | Some leaf \<Rightarrow> (case parse_all (al_x509 lib) ds of
         None \<Rightarrow> Some (Plain ''parse VM certificate chain'')
       | Some intermediates \<Rightarrow> map_option (Wrapf ''verify VM certificate chain'') (al_Verify lib roots intermediates leaf))))"

section \<open>Files\<close>

type_synonym files = "(string, string) gomap"

definition writeAtomic :: "(string \<Rightarrow> goerror option) \<Rightarrow> string \<Rightarrow> string \<Rightarrow> files \<Rightarrow> files \<times> goerror option" where
  "writeAtomic fault path data fs = (case fault path of Some e \<Rightarrow> (fs, Some e) | None \<Rightarrow> (AList.update path data fs, None))"

definition chain_pem :: "agent_lib \<Rightarrow> tls_pair \<Rightarrow> string" where
  "chain_pem lib pair = concat (map (al_pemEncode lib ''CERTIFICATE'') (tp_Chain pair))"

definition writeIdentity ::
  "agent_lib \<Rightarrow> (string \<Rightarrow> goerror option) \<Rightarrow> string \<Rightarrow> string \<Rightarrow> tls_pair \<Rightarrow> files \<Rightarrow> files \<times> goerror option" where
  "writeIdentity lib fault certPath keyPath pair fs =
    (if tp_Chain pair = [] \<or> hd (tp_Chain pair) = [] \<or> tp_Key pair = [] then (fs, Some (Plain ''replacement certificate is incomplete''))
     else case al_pkcs8 lib (tp_Key pair) of
       Inl e \<Rightarrow> (fs, Some (Wrapf ''encode replacement private key'' e))
     | Inr der \<Rightarrow> (case writeAtomic fault certPath (chain_pem lib pair) fs of
         (fs1, Some e) \<Rightarrow> (fs1, Some (Wrapf ''write replacement certificate'' e))
       | (fs1, None) \<Rightarrow> (case writeAtomic fault keyPath (al_pemEncode lib ''PRIVATE KEY'' der) fs1 of
           (fs2, Some e) \<Rightarrow> (fs2, Some (Wrapf ''write replacement key'' e))
         | (fs2, None) \<Rightarrow> (fs2, None))))"

section \<open>Enrolment\<close>

record enroll_args =
  ea_GatewayURL :: string
  ea_Instance :: string
  ea_CertFile :: string
  ea_KeyFile :: string

record enroll_world =
  ew_tokenPerm :: "goerror + nat"
  ew_token :: "goerror + string"
  ew_roots :: "goerror + certpool"
  ew_post :: "string \<Rightarrow> string \<Rightarrow> string \<Rightarrow> goerror + nat \<times> string option"
  ew_fault :: "string \<Rightarrow> goerror option"
  ew_now :: gotime

definition identity_uri :: "string \<Rightarrow> string" where
  "identity_uri i = vmPrefix @ i"

definition enroll_obtain :: "agent_lib \<Rightarrow> enroll_world \<Rightarrow> enroll_args \<Rightarrow> goerror + tls_pair" where
  "enroll_obtain lib w a =
    go_bind (go_some (Plain ''invalid Nova instance UUID'') (VMURI (ea_Instance a))) (\<lambda>_.
    go_bind (agentGatewayURL (al_url lib) (ea_GatewayURL a)) (\<lambda>base.
    go_bind (go_wrap ''stat enrollment token'' (ew_tokenPerm w)) (\<lambda>perm.
    go_bind (go_require (perm mod 64 = 0) (Plain ''enrollment token file must not be accessible by group or other users'')) (\<lambda>_.
    go_bind (go_wrap ''read enrollment token'' (ew_token w)) (\<lambda>token.
    let grant = trim_space token in
    go_bind (go_require (grant \<noteq> [] \<and> CHR 0x0D \<notin> set grant \<and> CHR 0x0A \<notin> set grant) (Plain ''enrollment token is empty or malformed'')) (\<lambda>_.
    go_bind (ew_roots w) (\<lambda>roots.
    go_bind (go_wrap ''generate VM private key'' (al_newKey lib)) (\<lambda>key.
    go_bind (go_wrap ''create VM certificate signing request''
      (al_newCSR lib key (vm_common_name (ea_Instance a)) (identity_uri (ea_Instance a)))) (\<lambda>csr.
    go_bind (go_wrap ''request VM client certificate'' (ew_post w (base @ ''/v1/agent/enroll'') grant csr)) (\<lambda>(status, body).
    go_bind (go_some (Plain ''decode VM enrollment response'') body) (\<lambda>certificate.
    go_bind (go_require (status = 200 \<and> certificate \<noteq> []) (Plain ''VM enrollment was rejected'')) (\<lambda>_.
    go_bind (go_wrap ''encode VM private key'' (al_pkcs8 lib key)) (\<lambda>der.
    go_bind (go_wrap ''validate VM certificate and private key'' (al_X509KeyPair lib certificate (al_pemEncode lib ''PRIVATE KEY'' der))) (\<lambda>pair.
    go_bind (go_none (validateVMCertificate (al_x509 lib) certificate (ea_Instance a) None (ew_now w))) (\<lambda>_.
    go_bind (go_none (verifyIssuedVMChain lib pair roots)) (\<lambda>_. Inr pair))))))))))))))))"

definition EnrollVM :: "agent_lib \<Rightarrow> enroll_world \<Rightarrow> enroll_args \<Rightarrow> files \<Rightarrow> files \<times> goerror option" where
  "EnrollVM lib w a fs = (case enroll_obtain lib w a of
     Inl e \<Rightarrow> (fs, Some e)
   | Inr pair \<Rightarrow> writeIdentity lib (ew_fault w) (ea_CertFile a) (ea_KeyFile a) pair fs)"

section \<open>Renewal\<close>

record renewer =
  rn_GatewayURL :: string
  rn_TLS :: "certpool option"
  rn_VaultAddr :: string
  rn_RoleIDFile :: string
  rn_SecretFile :: string
  rn_PKIMount :: string
  rn_PKIRole :: string
  rn_CommonName :: string
  rn_URISAN :: string
  rn_CertFile :: string
  rn_KeyFile :: string

record vault_issued =
  vi_Certificate :: string
  vi_PrivateKey :: string
  vi_CAChain :: "string list"

text \<open>The two raw JSON fields are kept as what \<open>json.Unmarshal\<close> makes of them: the client token and the issued certificate.\<close>

record vaultResponse =
  vr_Auth :: "string option"
  vr_Data :: "vault_issued option"
  vr_Errors :: "string list"

record renew_world =
  rw_now :: gotime
  rw_read :: "string \<Rightarrow> goerror + string"
  rw_client :: "goerror + unit"
  rw_vault :: "string \<Rightarrow> (string \<times> string) list \<Rightarrow> string \<Rightarrow> goerror + nat \<times> vaultResponse option"
  rw_post :: "string \<Rightarrow> tls_pair \<Rightarrow> string \<Rightarrow> goerror + nat \<times> string option"
  rw_fault :: "string \<Rightarrow> goerror option"

definition certificateRenewBefore :: duration where
  "certificateRenewBefore = 10 * 24 * 60 * minute"

definition readCredential :: "goerror + string \<Rightarrow> goerror + string" where
  "readCredential b = (case b of Inl e \<Rightarrow> Inl e
     | Inr s \<Rightarrow> let v = trim_space s in if v = [] then Inl (Plain ''credential file is empty'') else Inr v)"

definition vaultPost :: "renew_world \<Rightarrow> string \<Rightarrow> (string \<times> string) list \<Rightarrow> string \<Rightarrow> goerror + vaultResponse" where
  "vaultPost w endpoint payload token =
    go_bind (rw_vault w endpoint payload token) (\<lambda>(status, body).
    go_bind (go_some (Plain ''decode'') body) (\<lambda>result.
    go_bind (go_require (200 \<le> status \<and> status < 300) (Plain (''Vault returned '' @ join_with ''; '' (vr_Errors result)))) (\<lambda>_.
    Inr result)))"

definition issueThroughGateway :: "agent_lib \<Rightarrow> renewer \<Rightarrow> renew_world \<Rightarrow> tls_pair \<Rightarrow> goerror + tls_pair" where
  "issueThroughGateway lib r w current =
    (let missing = Plain ''gateway renewal requires the current VM certificate'' in
    go_bind (go_some missing (rn_TLS r)) (\<lambda>roots.
    go_bind (go_require (tp_Chain current \<noteq> []) missing) (\<lambda>_.
    go_bind (go_some (Plain ''parse current VM certificate'') (ParseCertificate (al_x509 lib) (hd (tp_Chain current)))) (\<lambda>leaf.
    go_bind (map_sum (\<lambda>_. Plain ''current certificate is not a VM identity'') id (VMIdentity (Some leaf))) (\<lambda>i.
    go_bind (go_wrap ''generate replacement VM key'' (al_newKey lib)) (\<lambda>key.
    go_bind (go_wrap ''create replacement VM certificate request'' (al_newCSR lib key (vm_common_name i) (identity_uri i))) (\<lambda>csr.
    go_bind (agentGatewayURL (al_url lib) (rn_GatewayURL r)) (\<lambda>base.
    go_bind (go_wrap ''request VM certificate renewal from gateway'' (rw_post w (base @ ''/v1/agent/renew'') current csr)) (\<lambda>(status, body).
    go_bind (go_some (Plain ''decode gateway VM renewal response'') body) (\<lambda>certificate.
    go_bind (go_require (status = 200 \<and> certificate \<noteq> []) (Plain ''gateway rejected VM certificate renewal'')) (\<lambda>_.
    go_bind (al_pkcs8 lib key) (\<lambda>der.
    go_bind (go_wrap ''validate gateway replacement certificate and key'' (al_X509KeyPair lib certificate (al_pemEncode lib ''PRIVATE KEY'' der))) (\<lambda>updated.
    go_bind (go_some (Plain ''parse replacement certificate'') (ParseCertificate (al_x509 lib) (hd (tp_Chain updated)))) (\<lambda>newLeaf.
    go_bind (go_none (validateVMCertificate (al_x509 lib) certificate i None (rw_now w))) (\<lambda>_.
    go_bind (go_require (al_publicKey lib key = cert_PublicKey newLeaf) (Plain ''gateway certificate does not match the replacement key'')) (\<lambda>_.
    go_bind (go_wrap ''verify gateway replacement certificate chain'' (go_none (al_Verify lib roots [] newLeaf))) (\<lambda>_.
    Inr updated)))))))))))))))))"

definition issueFromVault :: "agent_lib \<Rightarrow> renewer \<Rightarrow> renew_world \<Rightarrow> goerror + tls_pair" where
  "issueFromVault lib r w =
    go_bind (go_require (rn_VaultAddr r \<noteq> [] \<and> rn_RoleIDFile r \<noteq> [] \<and> rn_SecretFile r \<noteq> [] \<and> rn_PKIMount r \<noteq> [] \<and> rn_PKIRole r \<noteq> [] \<and>
      rn_CommonName r \<noteq> [] \<and> rn_URISAN r \<noteq> []) (Plain ''Vault renewal settings are incomplete'')) (\<lambda>_.
    go_bind (go_wrap ''read Vault role id'' (readCredential (rw_read w (rn_RoleIDFile r)))) (\<lambda>roleID.
    go_bind (go_wrap ''read Vault secret id'' (readCredential (rw_read w (rn_SecretFile r)))) (\<lambda>secretID.
    let base = trim_slashes (rn_VaultAddr r); mount = trim_slashes (dropWhile (\<lambda>c. c = CHR ''/'') (rn_PKIMount r)) in
    go_bind (rw_client w) (\<lambda>_.
    go_bind (go_wrap ''authenticate to Vault'' (vaultPost w (base @ ''/v1/auth/approle/login'') [(''role_id'', roleID), (''secret_id'', secretID)] [])) (\<lambda>login.
    go_bind (go_some (Plain ''Vault AppRole login returned no token'') (vr_Auth login)) (\<lambda>token.
    go_bind (go_require (token \<noteq> []) (Plain ''Vault AppRole login returned no token'')) (\<lambda>_.
    go_bind (go_wrap ''request replacement certificate'' (vaultPost w (base @ ''/v1/'' @ mount @ ''/issue/'' @ rn_PKIRole r)
      [(''common_name'', rn_CommonName r), (''uri_sans'', rn_URISAN r), (''ttl'', ''720h''), (''format'', ''pem'')] token)) (\<lambda>issued.
    go_bind (go_some (Plain ''decode issued certificate'') (vr_Data issued)) (\<lambda>data.
    go_bind (go_require (vi_Certificate data \<noteq> [] \<and> vi_PrivateKey data \<noteq> []) (Plain ''Vault returned an incomplete certificate'')) (\<lambda>_.
    go_wrap ''validate issued certificate and key''
      (al_X509KeyPair lib (vi_Certificate data @ [CHR 0x0A] @ concat (map (\<lambda>ca. trim_space ca @ [CHR 0x0A]) (vi_CAChain data)))
         (vi_PrivateKey data))))))))))))"

definition renew_issue :: "agent_lib \<Rightarrow> renewer \<Rightarrow> renew_world \<Rightarrow> tls_pair \<Rightarrow> goerror + tls_pair" where
  "renew_issue lib r w current = (if rn_GatewayURL r \<noteq> [] then issueThroughGateway lib r w current else issueFromVault lib r w)"

record renew_state =
  rs_identity :: "tls_pair option"
  rs_files :: files

definition renew_due :: "agent_lib \<Rightarrow> renew_world \<Rightarrow> renew_state \<Rightarrow> goerror + tls_pair option" where
  "renew_due lib w st =
    go_bind (go_some (Plain ''node mTLS identity is unavailable for renewal'') (rs_identity st)) (\<lambda>cert.
    go_bind (go_require (tp_Chain cert \<noteq> []) (Plain ''node mTLS identity is unavailable for renewal'')) (\<lambda>_.
    go_bind (go_some (Plain ''parse current node certificate'') (ParseCertificate (al_x509 lib) (hd (tp_Chain cert)))) (\<lambda>leaf.
    Inr (if time_sub (cert_NotAfter leaf) (rw_now w) > certificateRenewBefore then None else Some cert))))"

definition renew_check :: "agent_lib \<Rightarrow> renewer \<Rightarrow> renew_world \<Rightarrow> renew_state \<Rightarrow> renew_state \<times> goerror option" where
  "renew_check lib r w st = (case renew_due lib w st of
     Inl e \<Rightarrow> (st, Some e)
   | Inr None \<Rightarrow> (st, None)
   | Inr (Some cert) \<Rightarrow> (case renew_issue lib r w cert of
       Inl e \<Rightarrow> (st, Some (Wrapf ''renew node mTLS certificate'' e))
     | Inr updated \<Rightarrow> (case writeIdentity lib (rw_fault w) (rn_CertFile r) (rn_KeyFile r) updated (rs_files st) of
         (fs, Some e) \<Rightarrow> (st \<lparr>rs_files := fs\<rparr>, Some (Wrapf ''renew node mTLS certificate'' e))
       | (fs, None) \<Rightarrow> (\<lparr>rs_identity = Some updated, rs_files = fs\<rparr>, None))))"

text \<open>\<open>Run\<close>: one check at the start, then one per tick until the context ends.\<close>

fun renew_run :: "agent_lib \<Rightarrow> renewer \<Rightarrow> renew_world list \<Rightarrow> renew_state \<Rightarrow> renew_state \<times> goerror list" where
  "renew_run lib r [] st = (st, [])"
| "renew_run lib r (w # ws) st = (case renew_check lib r w st of (st1, err) \<Rightarrow>
     (case renew_run lib r ws st1 of (st2, errs) \<Rightarrow> (st2, (case err of None \<Rightarrow> errs | Some e \<Rightarrow> e # errs))))"

section \<open>What reaches the disk\<close>

definition on_disk :: "agent_lib \<Rightarrow> string \<Rightarrow> string \<Rightarrow> tls_pair \<Rightarrow> files \<Rightarrow> bool" where
  "on_disk lib certPath keyPath pair fs = (\<exists>der. al_pkcs8 lib (tp_Key pair) = Inr der \<and>
     map_of fs certPath = Some (chain_pem lib pair) \<and> map_of fs keyPath = Some (al_pemEncode lib ''PRIVATE KEY'' der))"

lemma writeIdentity_ok:
  assumes "writeIdentity lib fault certPath keyPath pair fs = (fs', None)"
  shows "tp_Chain pair \<noteq> []" "certPath \<noteq> keyPath \<Longrightarrow> on_disk lib certPath keyPath pair fs'"
    "p \<noteq> certPath \<Longrightarrow> p \<noteq> keyPath \<Longrightarrow> map_of fs' p = map_of fs p"
  using assms by (auto simp: writeIdentity_def writeAtomic_def on_disk_def update_conv' split: if_splits sum.splits option.splits)

text \<open>The certificate file is replaced before the key file: when only the second write fails, the new certificate is
  on disk beside the old key.\<close>

lemma failed_key_write_splits_the_pair:
  assumes "tp_Chain pair \<noteq> []" "hd (tp_Chain pair) \<noteq> []" "tp_Key pair \<noteq> []" "al_pkcs8 lib (tp_Key pair) = Inr der"
    and "fault certPath = None" "fault keyPath = Some e" "certPath \<noteq> keyPath"
  shows "\<exists>fs'. writeIdentity lib fault certPath keyPath pair fs = (fs', Some (Wrapf ''write replacement key'' e)) \<and>
    map_of fs' certPath = Some (chain_pem lib pair) \<and> map_of fs' keyPath = map_of fs keyPath"
  using assms by (simp add: writeIdentity_def writeAtomic_def update_conv')

section \<open>What an agent accepts\<close>

text \<open>\<open>tls.X509KeyPair\<close> collects the certificate blocks in order, so a file that opens with one has it as its leaf.\<close>

definition key_pair_leaf :: "agent_lib \<Rightarrow> bool" where
  "key_pair_leaf lib = (\<forall>cert key pair bytes. al_X509KeyPair lib cert key = Inr pair \<longrightarrow>
     pem_Decode (al_x509 lib) cert = Some (''CERTIFICATE'', bytes) \<longrightarrow> tp_Chain pair \<noteq> [] \<and> hd (tp_Chain pair) = bytes)"

definition leaf_of :: "agent_lib \<Rightarrow> tls_pair \<Rightarrow> certificate option" where
  "leaf_of lib pair = (case tp_Chain pair of [] \<Rightarrow> None | d # _ \<Rightarrow> ParseCertificate (al_x509 lib) d)"

lemma leaf_of_hd: "tp_Chain pair \<noteq> [] \<Longrightarrow> leaf_of lib pair = ParseCertificate (al_x509 lib) (hd (tp_Chain pair))"
  by (simp add: leaf_of_def split: list.splits)

lemma issueThroughGateway_accepts:
  assumes "issueThroughGateway lib r w current = Inr updated" and law: "key_pair_leaf lib"
  obtains roots leaf i newLeaf key where "rn_TLS r = Some roots" "leaf_of lib current = Some leaf" "VMIdentity (Some leaf) = Inr i"
    "leaf_of lib updated = Some newLeaf" "VMIdentity (Some newLeaf) = Inr i" "rw_now w < cert_NotAfter newLeaf" "cert_ClientAuth newLeaf"
    "al_newKey lib = Inr key" "cert_PublicKey newLeaf = al_publicKey lib key" "al_Verify lib roots [] newLeaf = None"
proof -
  from assms(1) obtain roots leaf i key certificate der newLeaf where
    g: "rn_TLS r = Some roots" "tp_Chain current \<noteq> []" "ParseCertificate (al_x509 lib) (hd (tp_Chain current)) = Some leaf"
    "VMIdentity (Some leaf) = Inr i" "al_newKey lib = Inr key"
    "al_X509KeyPair lib certificate (al_pemEncode lib ''PRIVATE KEY'' der) = Inr updated"
    "ParseCertificate (al_x509 lib) (hd (tp_Chain updated)) = Some newLeaf"
    "validateVMCertificate (al_x509 lib) certificate i None (rw_now w) = None" "al_publicKey lib key = cert_PublicKey newLeaf"
    "al_Verify lib roots [] newLeaf = None"
    unfolding issueThroughGateway_def Let_def by (auto simp: go_bind_Inr map_sum_Inr_iff)
  from validateVMCertificate_accepts [OF g(8)] obtain bytes leaf2 where v: "pem_Decode (al_x509 lib) certificate = Some (''CERTIFICATE'', bytes)"
    "ParseCertificate (al_x509 lib) bytes = Some leaf2" "VMIdentity (Some leaf2) = Inr i" "rw_now w < cert_NotAfter leaf2" "cert_ClientAuth leaf2"
    by blast
  have h: "tp_Chain updated \<noteq> []" "hd (tp_Chain updated) = bytes" using law g(6) v(1) unfolding key_pair_leaf_def by blast+
  then have "leaf2 = newLeaf" using g(7) v(2) by simp
  with g v h show thesis using that leaf_of_hd by metis
qed

lemma enroll_obtain_accepts:
  assumes "enroll_obtain lib w a = Inr pair" and law: "key_pair_leaf lib"
  obtains roots leaf ds cs where "ew_roots w = Inr roots" "tp_Chain pair \<noteq> []" "leaf_of lib pair = Some leaf"
    "VMIdentity (Some leaf) = Inr (ea_Instance a)" "ew_now w < cert_NotAfter leaf" "cert_ClientAuth leaf"
    "tp_Chain pair = hd (tp_Chain pair) # ds" "parse_all (al_x509 lib) ds = Some cs" "al_Verify lib roots cs leaf = None"
proof -
  from assms(1) obtain roots certificate der where e: "ew_roots w = Inr roots"
    "al_X509KeyPair lib certificate (al_pemEncode lib ''PRIVATE KEY'' der) = Inr pair"
    "validateVMCertificate (al_x509 lib) certificate (ea_Instance a) None (ew_now w) = None" "verifyIssuedVMChain lib pair roots = None"
    unfolding enroll_obtain_def Let_def by (auto simp: go_bind_Inr)
  from validateVMCertificate_accepts [OF e(3)] obtain bytes leaf where v: "pem_Decode (al_x509 lib) certificate = Some (''CERTIFICATE'', bytes)"
    "ParseCertificate (al_x509 lib) bytes = Some leaf" "VMIdentity (Some leaf) = Inr (ea_Instance a)" "ew_now w < cert_NotAfter leaf"
    "cert_ClientAuth leaf" by blast
  have h: "tp_Chain pair \<noteq> []" "hd (tp_Chain pair) = bytes" using law e(2) v(1) unfolding key_pair_leaf_def by blast+
  then obtain ds where d: "tp_Chain pair = bytes # ds" by (cases "tp_Chain pair") auto
  with e(4) v(2) obtain cs where "parse_all (al_x509 lib) ds = Some cs" "al_Verify lib roots cs leaf = None"
    by (auto simp: verifyIssuedVMChain_def split: option.splits)
  with e(1) v h d show thesis using that by (simp add: leaf_of_hd)
qed

lemma renew_check_cases:
  assumes "renew_check lib r w st = (st', err)"
  obtains (kept) "rs_identity st' = rs_identity st" "err = None" "rs_files st' = rs_files st"
  | (failed) e where "rs_identity st' = rs_identity st" "err = Some e"
  | (renewed) cert leaf updated where "rs_identity st = Some cert" "leaf_of lib cert = Some leaf"
      "time_sub (cert_NotAfter leaf) (rw_now w) \<le> certificateRenewBefore" "renew_issue lib r w cert = Inr updated"
      "writeIdentity lib (rw_fault w) (rn_CertFile r) (rn_KeyFile r) updated (rs_files st) = (rs_files st', None)"
      "rs_identity st' = Some updated" "err = None"
proof (cases "renew_due lib w st")
  case (Inl e)
  with assms failed show thesis by (auto simp: renew_check_def)
next
  case due: (Inr due)
  show thesis
  proof (cases due)
    case None
    with due assms kept show thesis by (auto simp: renew_check_def)
  next
    case (Some cert)
    with due obtain leaf where l: "rs_identity st = Some cert" "leaf_of lib cert = Some leaf"
      "time_sub (cert_NotAfter leaf) (rw_now w) \<le> certificateRenewBefore"
      by (auto simp: renew_due_def go_bind_Inr leaf_of_hd split: if_splits)
    show thesis
    proof (cases "renew_issue lib r w cert")
      case (Inl e)
      with due Some assms failed show thesis by (auto simp: renew_check_def)
    next
      case (Inr updated)
      obtain fs we where w: "writeIdentity lib (rw_fault w) (rn_CertFile r) (rn_KeyFile r) updated (rs_files st) = (fs, we)" by fastforce
      with due Some Inr l assms failed renewed show thesis by (cases we) (auto simp: renew_check_def)
    qed
  qed
qed

text \<open>C23: the renewer replaces the identity in use only when it has to and only by one it has checked and stored. After one
  check either the identity is the old one, or the old certificate had at most ten days left, the new pair is what
  the issuer returned, both of its files are on disk, and no error is reported. Through the gateway the new
  leaf names the same VM, is current, allows client authentication, carries the public key of the key just generated and
  verifies against the configured roots. An unreported check leaves the files alone or renewed them.\<close>

theorem renewal_is_safe:
  assumes "key_pair_leaf lib" "rn_CertFile r \<noteq> rn_KeyFile r" "renew_check lib r w st = (st', err)"
  shows "rs_identity st' = rs_identity st \<and> (err \<noteq> None \<or> rs_files st' = rs_files st) \<or>
    err = None \<and> (\<exists>cert leaf updated. rs_identity st = Some cert \<and> leaf_of lib cert = Some leaf \<and>
      time_sub (cert_NotAfter leaf) (rw_now w) \<le> certificateRenewBefore \<and> renew_issue lib r w cert = Inr updated \<and>
      rs_identity st' = Some updated \<and> on_disk lib (rn_CertFile r) (rn_KeyFile r) updated (rs_files st') \<and>
      (rn_GatewayURL r \<noteq> [] \<longrightarrow> (\<exists>roots i newLeaf key. rn_TLS r = Some roots \<and> VMIdentity (Some leaf) = Inr i \<and>
         leaf_of lib updated = Some newLeaf \<and> VMIdentity (Some newLeaf) = Inr i \<and> rw_now w < cert_NotAfter newLeaf \<and>
         cert_ClientAuth newLeaf \<and> al_newKey lib = Inr key \<and> cert_PublicKey newLeaf = al_publicKey lib key \<and>
         al_Verify lib roots [] newLeaf = None)))"
  using assms(3)
proof (cases rule: renew_check_cases)
  case (renewed cert leaf updated)
  have "\<exists>roots i newLeaf key. rn_TLS r = Some roots \<and> VMIdentity (Some leaf) = Inr i \<and>
         leaf_of lib updated = Some newLeaf \<and> VMIdentity (Some newLeaf) = Inr i \<and> rw_now w < cert_NotAfter newLeaf \<and>
         cert_ClientAuth newLeaf \<and> al_newKey lib = Inr key \<and> cert_PublicKey newLeaf = al_publicKey lib key \<and>
         al_Verify lib roots [] newLeaf = None" if "rn_GatewayURL r \<noteq> []"
  proof -
    have "issueThroughGateway lib r w cert = Inr updated" using renewed(4) that by (simp add: renew_issue_def)
    from issueThroughGateway_accepts [OF this assms(1)] renewed(2) show ?thesis by (metis option.inject)
  qed
  with renewed writeIdentity_ok(2) [OF renewed(5) assms(2)] show ?thesis by blast
qed auto

lemma renew_check_keeps_vm:
  assumes "key_pair_leaf lib" "rn_GatewayURL r \<noteq> []" "renew_check lib r w st = (st', err)" "rs_identity st = Some cert"
    "leaf_of lib cert = Some leaf" "VMIdentity (Some leaf) = Inr i"
  shows "\<exists>cert' leaf'. rs_identity st' = Some cert' \<and> leaf_of lib cert' = Some leaf' \<and> VMIdentity (Some leaf') = Inr i"
  using assms(3)
proof (cases rule: renew_check_cases)
  case (renewed old oldLeaf updated)
  then have g: "issueThroughGateway lib r w old = Inr updated" using assms(2) by (simp add: renew_issue_def)
  obtain newLeaf where "leaf_of lib updated = Some newLeaf" "VMIdentity (Some newLeaf) = Inr i"
    by (rule issueThroughGateway_accepts [OF g assms(1)]) (use renewed assms in auto)
  with renewed show ?thesis by blast
qed (use assms in auto)

text \<open>Whatever answers the agent gets, it never speaks as another VM.\<close>

lemma renew_run_keeps_vm:
  assumes "key_pair_leaf lib" "rn_GatewayURL r \<noteq> []"
  shows "renew_run lib r ws st = (st', errs) \<Longrightarrow> rs_identity st = Some cert \<Longrightarrow> leaf_of lib cert = Some leaf \<Longrightarrow> VMIdentity (Some leaf) = Inr i \<Longrightarrow>
    \<exists>cert' leaf'. rs_identity st' = Some cert' \<and> leaf_of lib cert' = Some leaf' \<and> VMIdentity (Some leaf') = Inr i"
proof (induction ws arbitrary: st st' errs cert leaf)
  case (Cons w ws)
  obtain st1 err where c: "renew_check lib r w st = (st1, err)" by fastforce
  from renew_check_keeps_vm [OF assms this Cons.prems(2-4)] obtain cert1 leaf1 where
    "rs_identity st1 = Some cert1" "leaf_of lib cert1 = Some leaf1" "VMIdentity (Some leaf1) = Inr i" by blast
  moreover have "renew_run lib r ws st1 = (st', snd (renew_run lib r ws st1))" using Cons.prems(1) c by (auto split: prod.splits)
  ultimately show ?case using Cons.IH by blast
qed simp

lemma renew_run_keeps_files:
  assumes "rn_CertFile r \<noteq> rn_KeyFile r"
  shows "renew_run lib r ws st = (st', []) \<Longrightarrow> rs_identity st = Some cert \<Longrightarrow> on_disk lib (rn_CertFile r) (rn_KeyFile r) cert (rs_files st) \<Longrightarrow>
    \<exists>cert'. rs_identity st' = Some cert' \<and> on_disk lib (rn_CertFile r) (rn_KeyFile r) cert' (rs_files st')"
proof (induction ws arbitrary: st st' cert)
  case (Cons w ws)
  obtain st1 err where c: "renew_check lib r w st = (st1, err)" by fastforce
  with Cons.prems(1) have r: "err = None" "renew_run lib r ws st1 = (st', [])" by (auto split: prod.splits option.splits)
  from c have "\<exists>cert1. rs_identity st1 = Some cert1 \<and> on_disk lib (rn_CertFile r) (rn_KeyFile r) cert1 (rs_files st1)"
  proof (cases rule: renew_check_cases)
    case (renewed old leaf updated)
    with writeIdentity_ok(2) [OF renewed(5) assms] show ?thesis by blast
  qed (use Cons.prems r in auto)
  with Cons.IH [OF r(2)] show ?case by blast
qed simp

text \<open>An agent that renews through the gateway keeps its name for ever, and its files keep up with it. Over any sequence of
  checks, whatever the gateway answers and whichever writes fail, the identity in use is still a certificate of the VM it
  started as; and when no check reported an error, the certificate and key files hold the identity in use.\<close>

theorem renewal_keeps_identity:
  assumes "key_pair_leaf lib" "rn_GatewayURL r \<noteq> []" "rn_CertFile r \<noteq> rn_KeyFile r"
    and "rs_identity st = Some cert" "leaf_of lib cert = Some leaf" "VMIdentity (Some leaf) = Inr i"
    and "on_disk lib (rn_CertFile r) (rn_KeyFile r) cert (rs_files st)" "renew_run lib r ws st = (st', errs)"
  shows "\<exists>cert' leaf'. rs_identity st' = Some cert' \<and> leaf_of lib cert' = Some leaf' \<and> VMIdentity (Some leaf') = Inr i \<and>
    (errs = [] \<longrightarrow> on_disk lib (rn_CertFile r) (rn_KeyFile r) cert' (rs_files st'))"
  using renew_run_keeps_vm [OF assms(1,2,8,4,5,6)] renew_run_keeps_files [OF assms(3), of lib ws st st'] assms(4,7,8) by auto

text \<open>C24: an agent enrols with a certificate it has checked, or says that it did not. When \<open>EnrollVM\<close> returns no
  error, both files hold a pair whose leaf names the requested VM, is current, allows client authentication and
  verifies against the configured roots through the intermediates that came with it. When obtaining the certificate
  fails, the error is returned and no file is touched.\<close>

theorem enrollment_is_verified_or_reported:
  assumes "key_pair_leaf lib" "ea_CertFile a \<noteq> ea_KeyFile a"
  shows "(EnrollVM lib w a fs = (fs', None) \<longrightarrow> (\<exists>pair roots leaf cs. enroll_obtain lib w a = Inr pair \<and> ew_roots w = Inr roots \<and>
      on_disk lib (ea_CertFile a) (ea_KeyFile a) pair fs' \<and> leaf_of lib pair = Some leaf \<and> VMIdentity (Some leaf) = Inr (ea_Instance a) \<and>
      ew_now w < cert_NotAfter leaf \<and> cert_ClientAuth leaf \<and> parse_all (al_x509 lib) (tl (tp_Chain pair)) = Some cs \<and>
      al_Verify lib roots cs leaf = None)) \<and>
    (enroll_obtain lib w a = Inl e \<longrightarrow> EnrollVM lib w a fs = (fs, Some e))"
proof (intro conjI impI)
  assume "EnrollVM lib w a fs = (fs', None)"
  then obtain pair where p: "enroll_obtain lib w a = Inr pair"
    "writeIdentity lib (ew_fault w) (ea_CertFile a) (ea_KeyFile a) pair fs = (fs', None)"
    by (auto simp: EnrollVM_def split: sum.splits)
  then show "\<exists>pair roots leaf cs. enroll_obtain lib w a = Inr pair \<and> ew_roots w = Inr roots \<and>
      on_disk lib (ea_CertFile a) (ea_KeyFile a) pair fs' \<and> leaf_of lib pair = Some leaf \<and> VMIdentity (Some leaf) = Inr (ea_Instance a) \<and>
      ew_now w < cert_NotAfter leaf \<and> cert_ClientAuth leaf \<and> parse_all (al_x509 lib) (tl (tp_Chain pair)) = Some cs \<and>
      al_Verify lib roots cs leaf = None"
    using writeIdentity_ok(2) [OF p(2) assms(2)] by (rule_tac enroll_obtain_accepts [OF p(1) assms(1)]) (metis list.sel(3))
qed (simp add: EnrollVM_def)

section \<open>Intermediates\<close>

text \<open>Enrolment passes the intermediates of the chain to the verification, renewal passes none: a leaf that does not verify
  against the roots alone never comes out of a gateway renewal, although enrolment accepts the same chain.\<close>

lemma gateway_renewal_ignores_intermediates:
  assumes "rn_TLS r = Some roots" "\<And>leaf. al_Verify lib roots [] leaf \<noteq> None"
  shows "issueThroughGateway lib r w current \<noteq> Inr updated"
  using assms unfolding issueThroughGateway_def Let_def by (auto simp: go_bind_Inr)

section \<open>Concrete runs\<close>

definition demo_agent :: "(certificate list \<Rightarrow> goerror option) \<Rightarrow> agent_lib" where
  "demo_agent verify = \<lparr>al_x509 = demo_x509, al_url = demo_url, al_newKey = Inr ''key'', al_publicKey = (\<lambda>_. ''pk''),
     al_newCSR = (\<lambda>_ _ _. Inr ''csr''), al_pkcs8 = Inr, al_pemEncode = (\<lambda>ty der. der),
     al_X509KeyPair = (\<lambda>cert key. Inr \<lparr>tp_Chain = [cert, ''int''], tp_Key = key\<rparr>), al_Verify = (\<lambda>_ cs _. verify cs)\<rparr>"

definition demo_roots :: certpool where "demo_roots = [demo_leaf]"

definition demo_renewer :: renewer where
  "demo_renewer = \<lparr>rn_GatewayURL = ''https://gw'', rn_TLS = Some demo_roots, rn_VaultAddr = [], rn_RoleIDFile = [], rn_SecretFile = [], rn_PKIMount = [],
     rn_PKIRole = [], rn_CommonName = [], rn_URISAN = [], rn_CertFile = ''crt'', rn_KeyFile = ''key''\<rparr>"

definition demo_renew_world :: renew_world where
  "demo_renew_world = \<lparr>rw_now = demo_now, rw_read = (\<lambda>_. Inl (Plain [])), rw_client = Inr (), rw_vault = (\<lambda>_ _ _. Inl (Plain [])),
     rw_post = (\<lambda>_ _ _. Inr (200, Some ''new'')), rw_fault = (\<lambda>_. None)\<rparr>"

definition demo_renew_state :: renew_state where
  "demo_renew_state = \<lparr>rs_identity = Some \<lparr>tp_Chain = [''old''], tp_Key = ''k0''\<rparr>, rs_files = [(''crt'', ''old''), (''key'', ''k0'')]\<rparr>"

lemma demo_key_pair_leaf: "key_pair_leaf (demo_agent verify)"
  by (auto simp: key_pair_leaf_def demo_agent_def demo_x509_def)

lemma demo_agent_steps:
  "ParseCertificate (al_x509 (demo_agent v)) d = Some demo_leaf" "VMIdentity (Some demo_leaf) = Inr demo_instance"
  "agentGatewayURL (al_url (demo_agent v)) ''https://gw'' = Inr ''https://gw''"
  "validateVMCertificate (al_x509 (demo_agent v)) cert demo_instance None demo_now = None"
  using demo_certificate
  by (simp add: demo_agent_def demo_x509_def, code_simp, simp add: demo_agent_def agentGatewayURL_def https_origin_def demo_url_def, code_simp,
    simp add: demo_agent_def)

abbreviation demo_new :: tls_pair where "demo_new \<equiv> \<lparr>tp_Chain = [''new'', ''int''], tp_Key = ''key''\<rparr>"

lemma demo_gateway_issue:
  "tp_Chain current \<noteq> [] \<Longrightarrow> issueThroughGateway (demo_agent (\<lambda>_. None)) demo_renewer demo_renew_world current = Inr demo_new"
  unfolding issueThroughGateway_def Let_def
  by (simp add: go_eval demo_agent_steps demo_renewer_def demo_renew_world_def)
    (simp add: demo_certificate demo_agent_def demo_leaf_def)

lemma demo_renew_check:
  "renew_check (demo_agent (\<lambda>_. None)) demo_renewer demo_renew_world demo_renew_state =
     (\<lparr>rs_identity = Some demo_new, rs_files = [(''crt'', ''newint''), (''key'', ''key'')]\<rparr>, None)"
proof -
  have "renew_due (demo_agent (\<lambda>_. None)) demo_renew_world demo_renew_state = Inr (Some \<lparr>tp_Chain = [''old''], tp_Key = ''k0''\<rparr>)"
    by (simp add: renew_due_def go_eval demo_agent_def demo_x509_def demo_renew_state_def demo_leaf_def
        demo_renew_world_def time_sub_def certificateRenewBefore_def min_duration_def max_duration_def)
  moreover have "renew_issue (demo_agent (\<lambda>_. None)) demo_renewer demo_renew_world \<lparr>tp_Chain = [''old''], tp_Key = ''k0''\<rparr> = Inr demo_new"
    using demo_gateway_issue by (simp add: renew_issue_def demo_renewer_def)
  ultimately show ?thesis
    by (simp add: renew_check_def writeIdentity_def writeAtomic_def chain_pem_def demo_agent_def demo_renewer_def demo_renew_world_def demo_renew_state_def)
qed

theorem renewal_is_safe_witness:
  "\<exists>newLeaf. leaf_of (demo_agent (\<lambda>_. None)) demo_new = Some newLeaf \<and> VMIdentity (Some newLeaf) = Inr demo_instance \<and>
     on_disk (demo_agent (\<lambda>_. None)) ''crt'' ''key'' demo_new [(''crt'', ''newint''), (''key'', ''key'')]"
proof -
  have f: "rn_CertFile demo_renewer \<noteq> rn_KeyFile demo_renewer" "rn_CertFile demo_renewer = ''crt''" "rn_KeyFile demo_renewer = ''key''"
    "rs_identity demo_renew_state = Some \<lparr>tp_Chain = [''old''], tp_Key = ''k0''\<rparr>" "rn_GatewayURL demo_renewer \<noteq> []"
    by (simp_all add: demo_renewer_def demo_renew_state_def)
  have "leaf_of (demo_agent (\<lambda>_. None)) \<lparr>tp_Chain = [''old''], tp_Key = ''k0''\<rparr> = Some demo_leaf" by (simp add: leaf_of_def demo_agent_steps)
  with renewal_is_safe [OF demo_key_pair_leaf f(1) demo_renew_check] show ?thesis
    by (auto simp: f(2-5) demo_agent_steps(2))
qed

theorem renewal_keeps_identity_witness:
  "\<exists>leaf'. leaf_of (demo_agent (\<lambda>_. None)) demo_new = Some leaf' \<and> VMIdentity (Some leaf') = Inr demo_instance \<and>
     on_disk (demo_agent (\<lambda>_. None)) ''crt'' ''key'' demo_new [(''crt'', ''newint''), (''key'', ''key'')]"
proof -
  have f: "rn_CertFile demo_renewer \<noteq> rn_KeyFile demo_renewer" "rn_CertFile demo_renewer = ''crt''" "rn_KeyFile demo_renewer = ''key''"
    "rs_identity demo_renew_state = Some \<lparr>tp_Chain = [''old''], tp_Key = ''k0''\<rparr>" "rn_GatewayURL demo_renewer \<noteq> []"
    by (simp_all add: demo_renewer_def demo_renew_state_def)
  have l: "leaf_of (demo_agent (\<lambda>_. None)) \<lparr>tp_Chain = [''old''], tp_Key = ''k0''\<rparr> = Some demo_leaf" by (simp add: leaf_of_def demo_agent_steps)
  have d: "on_disk (demo_agent (\<lambda>_. None)) (rn_CertFile demo_renewer) (rn_KeyFile demo_renewer) \<lparr>tp_Chain = [''old''], tp_Key = ''k0''\<rparr>
    (rs_files demo_renew_state)"
    by (simp add: on_disk_def chain_pem_def demo_agent_def demo_renewer_def demo_renew_state_def)
  have "renew_run (demo_agent (\<lambda>_. None)) demo_renewer [demo_renew_world] demo_renew_state =
    (\<lparr>rs_identity = Some demo_new, rs_files = [(''crt'', ''newint''), (''key'', ''key'')]\<rparr>, [])" by (simp add: demo_renew_check)
  from renewal_keeps_identity [OF demo_key_pair_leaf f(5) f(1) f(4) l demo_agent_steps(2) d this] show ?thesis by (auto simp: f(2-5))
qed

definition demo_enroll_world :: enroll_world where
  "demo_enroll_world = \<lparr>ew_tokenPerm = Inr 384, ew_token = Inr ''grant'', ew_roots = Inr demo_roots, ew_post = (\<lambda>_ _ _. Inr (200, Some ''new'')),
     ew_fault = (\<lambda>_. None), ew_now = demo_now\<rparr>"

definition demo_enroll_args :: enroll_args where
  "demo_enroll_args = \<lparr>ea_GatewayURL = ''https://gw'', ea_Instance = demo_instance, ea_CertFile = ''crt'', ea_KeyFile = ''key''\<rparr>"

text \<open>The roots do not sign the leaf directly: an empty set of intermediates is refused, as it is with a Vault intermediate CA.\<close>

definition demo_intermediate :: "certificate list \<Rightarrow> goerror option" where
  "demo_intermediate cs = (if cs = [] then Some (Plain ''certificate signed by unknown authority'') else None)"

lemma demo_enroll_obtain: "enroll_obtain (demo_agent demo_intermediate) demo_enroll_world demo_enroll_args = Inr demo_new"
proof -
  have t: "trim_space ''grant'' = ''grant''" "VMURI demo_instance = Some (vmPrefix @ demo_instance)" by code_simp+
  show ?thesis unfolding enroll_obtain_def Let_def
    by (simp add: go_eval demo_agent_steps demo_enroll_args_def demo_enroll_world_def t)
      (simp add: go_eval demo_agent_def verifyIssuedVMChain_def demo_x509_def demo_intermediate_def)
qed

theorem enrollment_is_verified_or_reported_witness:
  "\<exists>leaf. leaf_of (demo_agent demo_intermediate) demo_new = Some leaf \<and> VMIdentity (Some leaf) = Inr demo_instance \<and>
     on_disk (demo_agent demo_intermediate) ''crt'' ''key'' demo_new [(''crt'', ''newint''), (''key'', ''key'')]"
proof -
  have f: "ea_CertFile demo_enroll_args \<noteq> ea_KeyFile demo_enroll_args" "ea_CertFile demo_enroll_args = ''crt''"
    "ea_KeyFile demo_enroll_args = ''key''" "ea_Instance demo_enroll_args = demo_instance" by (simp_all add: demo_enroll_args_def)
  have "EnrollVM (demo_agent demo_intermediate) demo_enroll_world demo_enroll_args [] = ([(''crt'', ''newint''), (''key'', ''key'')], None)"
    by (simp add: EnrollVM_def demo_enroll_obtain)
      (simp add: writeIdentity_def writeAtomic_def chain_pem_def demo_agent_def demo_enroll_args_def demo_enroll_world_def)
  with enrollment_is_verified_or_reported [OF demo_key_pair_leaf f(1)] show ?thesis
    using demo_enroll_obtain unfolding f by fastforce
qed

text \<open>The same chain, accepted at enrolment, is refused by every renewal.\<close>

lemma enrolled_chain_is_not_renewed:
  "enroll_obtain (demo_agent demo_intermediate) demo_enroll_world demo_enroll_args = Inr demo_new \<and>
   (\<forall>w current updated. issueThroughGateway (demo_agent demo_intermediate) demo_renewer w current \<noteq> Inr updated)"
proof -
  have "rn_TLS demo_renewer = Some demo_roots" "al_Verify (demo_agent demo_intermediate) demo_roots [] leaf \<noteq> None" for leaf
    by (simp_all add: demo_renewer_def demo_agent_def demo_intermediate_def)
  then show ?thesis using demo_enroll_obtain gateway_renewal_ignores_intermediates by blast
qed

end
