(* ===== verification/Membership.thy ===== *)
theory Membership
  imports Go_Prelude
begin

text \<open>
  Which hosts an OpenStack deployment owns (\<^verbatim>\<open>internal/openstack/membership/membership.go\<close>): \<open>MatchHosts\<close>
  pairs inventory names with the control plane's names for the same machines, \<open>Decide\<close> turns one
  observation into the rows to record. The evidence of a row is a list of named values; the clock
  read for an observation without a time is a parameter.

  The lemmas show that a pairing is one to one and rests on an equal short name or a bounded suffix, that
  every inventory host gets exactly one decision, and that a partial answer confirms but neither demotes nor
  sweeps. Concrete runs show where the result depends on the order of the control plane's list.
\<close>

section \<open>Data\<close>

definition Declared :: string where "Declared = ''declared''"
definition Confirmed :: string where "Confirmed = ''confirmed''"
definition LocalOnly :: string where "LocalOnly = ''local-only''"
definition ControlOnly :: string where "ControlOnly = ''control-only''"
definition Conflict :: string where "Conflict = ''conflict''"

record observation =
  ob_DeploymentID :: string
  ob_DisplayName :: string
  ob_Region :: string
  ob_KeystoneURL :: string
  ob_LocalHosts :: "string list"
  ob_ControlHosts :: "string list"
  ob_Complete :: bool
  ob_At :: gotime

datatype evidence = EvBool bool | EvString string

record hostDecision =
  hd_Hostname :: string
  hd_Confidence :: string
  hd_Evidence :: "(string, evidence) gomap"

definition Holds :: "hostDecision \<Rightarrow> bool" where
  "Holds h = (hd_Confidence h = [])"

record outcome =
  oc_DeploymentID :: string
  oc_Confirmed :: "string list"
  oc_LocalOnly :: "string list"
  oc_ControlOnly :: "string list"
  oc_Ambiguous :: "string list"
  oc_Held :: "string list"
  oc_Complete :: bool

record decision =
  de_DeploymentID :: string
  de_DisplayName :: string
  de_Region :: string
  de_KeystoneURL :: string
  de_Hosts :: "hostDecision list"
  de_SweepStale :: bool
  de_At :: gotime
  de_Outcome :: outcome

section \<open>Names\<close>

definition shortName :: "string \<Rightarrow> string" where
  "shortName h = takeWhile (\<lambda>c. c \<noteq> CHR ''.'') h"

definition suffixMatch :: "string \<Rightarrow> string \<Rightarrow> bool" where
  "suffixMatch inventory control =
    (if control = [] \<or> length inventory \<le> length control then False
     else if \<not> equal_fold (drop (length inventory - length control) inventory) control then False
     else inventory ! (length inventory - length control - 1) \<in> {CHR ''-'', CHR ''_'', CHR ''.''})"

section \<open>Pairing\<close>

definition by_short :: "string list \<Rightarrow> (string, string list) gomap" where
  "by_short locals = foldl (\<lambda>m h. AList.update (shortName h) (slice_of m (shortName h) @ [h]) m) [] locals"

record match_state =
  ms_pairs :: "(string, string) gomap"
  ms_claimed :: "(string, bool) gomap"
  ms_remaining :: "string list"
  ms_ambiguous :: "string list"

definition claim_host :: "string \<Rightarrow> string \<Rightarrow> match_state \<Rightarrow> match_state" where
  "claim_host h c ms = ms \<lparr>ms_pairs := AList.update h c (ms_pairs ms), ms_claimed := AList.update h True (ms_claimed ms)\<rparr>"

definition match_exact :: "(string, string list) gomap \<Rightarrow> match_state \<Rightarrow> string \<Rightarrow> match_state" where
  "match_exact byShort ms c = (case slice_of byShort (shortName c) of
     [h] \<Rightarrow> claim_host h c ms
   | _ \<Rightarrow> ms \<lparr>ms_remaining := ms_remaining ms @ [c]\<rparr>)"

definition match_suffix :: "string list \<Rightarrow> match_state \<Rightarrow> string \<Rightarrow> match_state" where
  "match_suffix locals ms c =
    (case filter (\<lambda>h. \<not> is_true (ms_claimed ms) h \<and> suffixMatch h (shortName c)) locals of
       [] \<Rightarrow> ms
     | [h] \<Rightarrow> claim_host h c ms
     | _ \<Rightarrow> ms \<lparr>ms_ambiguous := ms_ambiguous ms @ [c]\<rparr>)"

definition match_start :: match_state where
  "match_start = \<lparr>ms_pairs = [], ms_claimed = [], ms_remaining = [], ms_ambiguous = []\<rparr>"

definition match_all :: "string list \<Rightarrow> string list \<Rightarrow> match_state" where
  "match_all locals control =
    (let ms = foldl (match_exact (by_short locals)) match_start control in
     foldl (match_suffix locals) ms (ms_remaining ms))"

definition MatchHosts :: "string list \<Rightarrow> string list \<Rightarrow> (string, string) gomap \<times> string list" where
  "MatchHosts locals control = (let ms = match_all locals control in (ms_pairs ms, sort (ms_ambiguous ms)))"

section \<open>Deciding\<close>

type_synonym decide_state = "decision \<times> (string, bool) gomap"

definition decide_local :: "observation \<Rightarrow> (string, string) gomap \<Rightarrow> decide_state \<Rightarrow> string \<Rightarrow> decide_state" where
  "decide_local obs pairs acc host = (case acc of (d, matched) \<Rightarrow> (case map_of pairs host of
     Some novaName \<Rightarrow>
       (d \<lparr>de_Outcome := (de_Outcome d) \<lparr>oc_Confirmed := oc_Confirmed (de_Outcome d) @ [host]\<rparr>,
           de_Hosts := de_Hosts d @ [\<lparr>hd_Hostname = host, hd_Confidence = Confirmed,
             hd_Evidence = [(''local'', EvBool True), (''control'', EvBool True), (''nova_hostname'', EvString novaName)]\<rparr>]\<rparr>,
        AList.update novaName True matched)
   | None \<Rightarrow>
       let o1 = (de_Outcome d) \<lparr>oc_LocalOnly := oc_LocalOnly (de_Outcome d) @ [host]\<rparr> in
       if \<not> ob_Complete obs then
         (d \<lparr>de_Outcome := o1 \<lparr>oc_Held := oc_Held o1 @ [host]\<rparr>,
             de_Hosts := de_Hosts d @ [\<lparr>hd_Hostname = host, hd_Confidence = [], hd_Evidence = []\<rparr>]\<rparr>, matched)
       else
         (d \<lparr>de_Outcome := o1,
             de_Hosts := de_Hosts d @ [\<lparr>hd_Hostname = host, hd_Confidence = LocalOnly,
               hd_Evidence = [(''local'', EvBool True), (''control'', EvBool False)]\<rparr>]\<rparr>, matched)))"

definition blank_decision :: "gotime \<Rightarrow> observation \<Rightarrow> decision" where
  "blank_decision now obs = \<lparr>de_DeploymentID = ob_DeploymentID obs, de_DisplayName = ob_DisplayName obs, de_Region = ob_Region obs,
     de_KeystoneURL = ob_KeystoneURL obs, de_Hosts = [], de_SweepStale = ob_Complete obs,
     de_At = (if time_is_zero (ob_At obs) then now else ob_At obs),
     de_Outcome = \<lparr>oc_DeploymentID = ob_DeploymentID obs, oc_Confirmed = [], oc_LocalOnly = [], oc_ControlOnly = [],
       oc_Ambiguous = [], oc_Held = [], oc_Complete = ob_Complete obs\<rparr>\<rparr>"

definition Decide :: "gotime \<Rightarrow> observation \<Rightarrow> decision" where
  "Decide now obs = (case MatchHosts (ob_LocalHosts obs) (ob_ControlHosts obs) of (pairs, ambiguous) \<Rightarrow>
     (case foldl (decide_local obs pairs) (blank_decision now obs, []) (ob_LocalHosts obs) of (d, matched) \<Rightarrow>
        d \<lparr>de_Outcome := (de_Outcome d) \<lparr>oc_Ambiguous := ambiguous,
             oc_ControlOnly := filter (\<lambda>h. \<not> is_true matched h) (ob_ControlHosts obs)\<rparr>\<rparr>))"

section \<open>The pairing is one to one\<close>

definition linked :: "string list \<Rightarrow> string \<Rightarrow> string \<Rightarrow> bool" where
  "linked locals h c \<longleftrightarrow> filter (\<lambda>l. shortName l = shortName c) locals = [h] \<or> suffixMatch h (shortName c)"

lemma by_short_slice: "slice_of (by_short locals) k = filter (\<lambda>l. shortName l = k) locals"
proof -
  have "slice_of (foldl (\<lambda>m h. AList.update (shortName h) (slice_of m (shortName h) @ [h]) m) m locals) k =
    slice_of m k @ filter (\<lambda>l. shortName l = k) locals" for m by (induction locals arbitrary: m) auto
  then show ?thesis by (simp add: by_short_def)
qed

text \<open>Of the state of the pairing: pairs link hosts to names, one to one; a host is claimed exactly when paired;
  a name paired by its short name is one of those, the others wait.\<close>

definition match_inv :: "string list \<Rightarrow> string list \<Rightarrow> match_state \<Rightarrow> bool" where
  "match_inv locals control ms \<longleftrightarrow> (\<forall>h c. map_of (ms_pairs ms) h = Some c \<longrightarrow> h \<in> set locals \<and> c \<in> set control \<and> linked locals h c) \<and>
     (\<forall>h. is_true (ms_claimed ms) h \<longleftrightarrow> map_of (ms_pairs ms) h \<noteq> None) \<and>
     (\<forall>h h' c. map_of (ms_pairs ms) h = Some c \<longrightarrow> map_of (ms_pairs ms) h' = Some c \<longrightarrow> h = h')"

lemma claim_host_pairs: "map_of (ms_pairs (claim_host h c ms)) = (map_of (ms_pairs ms))(h \<mapsto> c)"
  "is_true (ms_claimed (claim_host h c ms)) k \<longleftrightarrow> k = h \<or> is_true (ms_claimed ms) k"
  by (simp_all add: claim_host_def update_conv')

lemma claim_host_inv:
  assumes "match_inv locals control ms" "h \<in> set locals" "c \<in> set control" "linked locals h c"
    "\<And>h'. map_of (ms_pairs ms) h' = Some c \<Longrightarrow> h' = h"
  shows "match_inv locals control (claim_host h c ms)"
  using assms unfolding match_inv_def claim_host_pairs by (auto split: if_splits)

definition exact_for :: "string list \<Rightarrow> string \<Rightarrow> string option" where
  "exact_for locals c = (case filter (\<lambda>l. shortName l = shortName c) locals of [h] \<Rightarrow> Some h | _ \<Rightarrow> None)"

lemma exact_for_Some: "exact_for locals c = Some h \<longleftrightarrow> filter (\<lambda>l. shortName l = shortName c) locals = [h]"
  by (auto simp: exact_for_def split: list.splits)

lemma exact_for_linked: "exact_for locals c = Some h \<Longrightarrow> h \<in> set locals \<and> linked locals h c"
  by (auto simp: exact_for_Some linked_def dest: filter_eq_ConsD)

lemma match_exact_eq:
  "match_exact (by_short locals) ms c = (case exact_for locals c of Some h \<Rightarrow> claim_host h c ms
     | None \<Rightarrow> ms \<lparr>ms_remaining := ms_remaining ms @ [c]\<rparr>)"
  by (simp add: match_exact_def by_short_slice exact_for_def split: list.splits)

definition exact_inv :: "string list \<Rightarrow> string list \<Rightarrow> match_state \<Rightarrow> bool" where
  "exact_inv locals control ms \<longleftrightarrow> match_inv locals control ms \<and>
     (\<forall>h c. map_of (ms_pairs ms) h = Some c \<longrightarrow> exact_for locals c = Some h) \<and>
     (\<forall>c \<in> set (ms_remaining ms). c \<in> set control \<and> exact_for locals c = None)"

lemma match_inv_frame: "match_inv locals control (ms \<lparr>ms_remaining := r\<rparr>) = match_inv locals control ms"
  "match_inv locals control (ms \<lparr>ms_ambiguous := a\<rparr>) = match_inv locals control ms"
  by (simp_all add: match_inv_def)

lemma match_exact_inv:
  assumes "exact_inv locals control ms" "c \<in> set control"
  shows "exact_inv locals control (match_exact (by_short locals) ms c)"
proof (cases "exact_for locals c")
  case None
  then show ?thesis using assms by (simp add: match_exact_eq exact_inv_def match_inv_frame)
next
  case (Some h)
  have "match_inv locals control (claim_host h c ms)"
    using assms exact_for_linked [OF Some] Some by (intro claim_host_inv) (auto simp: exact_inv_def)
  then show ?thesis using assms Some unfolding match_exact_eq exact_inv_def
    by (simp add: claim_host_pairs) (simp add: claim_host_def)
qed

lemma match_exact_all:
  "exact_inv locals control ms \<Longrightarrow> set cs \<subseteq> set control \<Longrightarrow> exact_inv locals control (foldl (match_exact (by_short locals)) ms cs)"
  by (induction cs arbitrary: ms) (simp_all add: match_exact_inv)

definition suffix_inv :: "string list \<Rightarrow> string list \<Rightarrow> match_state \<Rightarrow> bool" where
  "suffix_inv locals control ms \<longleftrightarrow> match_inv locals control ms \<and>
     (\<forall>h c. map_of (ms_pairs ms) h = Some c \<longrightarrow> exact_for locals c = Some h \<or> exact_for locals c = None \<and>
        (\<forall>l \<in> set locals. suffixMatch l (shortName c) \<longrightarrow> is_true (ms_claimed ms) l))"

lemma match_suffix_inv:
  assumes "suffix_inv locals control ms" "c \<in> set control" "exact_for locals c = None"
  shows "suffix_inv locals control (match_suffix locals ms c)"
proof -
  let ?hits = "filter (\<lambda>h. \<not> is_true (ms_claimed ms) h \<and> suffixMatch h (shortName c)) locals"
  have "match_suffix locals ms c = ms \<or> (\<exists>a. match_suffix locals ms c = ms \<lparr>ms_ambiguous := a\<rparr>) \<or>
    (\<exists>h. ?hits = [h] \<and> match_suffix locals ms c = claim_host h c ms)"
    unfolding match_suffix_def by (cases ?hits; cases "tl ?hits") auto
  then consider "match_suffix locals ms c = ms" | a where "match_suffix locals ms c = ms \<lparr>ms_ambiguous := a\<rparr>"
    | h where "?hits = [h]" "match_suffix locals ms c = claim_host h c ms" by blast
  then show ?thesis
  proof cases
    case (3 h)
    have h: "h \<in> set locals" "suffixMatch h (shortName c)" "\<not> is_true (ms_claimed ms) h" using 3(1) by (auto dest: filter_eq_ConsD)
    have only: "l = h" if "l \<in> set locals" "\<not> is_true (ms_claimed ms) l" "suffixMatch l (shortName c)" for l
    proof -
      have "l \<in> set ?hits" using that by simp
      then show ?thesis unfolding 3(1) by simp
    qed
    have fresh: "map_of (ms_pairs ms) h' \<noteq> Some c" for h' using assms(1,3) h by (fastforce simp: suffix_inv_def)
    have "match_inv locals control (claim_host h c ms)"
      using assms(1,2) h fresh by (intro claim_host_inv) (auto simp: suffix_inv_def linked_def)
    then show ?thesis unfolding 3(2) suffix_inv_def using assms(1,3) only
      by (auto simp: claim_host_pairs suffix_inv_def split: if_splits)
  qed (use assms(1) in \<open>simp_all add: suffix_inv_def match_inv_frame\<close>)
qed

lemma match_suffix_all:
  "suffix_inv locals control ms \<Longrightarrow> \<forall>c \<in> set cs. c \<in> set control \<and> exact_for locals c = None \<Longrightarrow>
   suffix_inv locals control (foldl (match_suffix locals) ms cs)"
  by (induction cs arbitrary: ms) (simp_all add: match_suffix_inv)

lemma match_all_inv: "suffix_inv locals control (match_all locals control)"
proof -
  let ?ms = "foldl (match_exact (by_short locals)) match_start control"
  have "exact_inv locals control match_start" by (simp add: exact_inv_def match_inv_def match_start_def)
  from match_exact_all [OF this subset_refl] have e: "exact_inv locals control ?ms" .
  then have "suffix_inv locals control ?ms" by (auto simp: exact_inv_def suffix_inv_def)
  from match_suffix_all [OF this, of "ms_remaining ?ms"] e show ?thesis
    by (simp add: exact_inv_def match_all_def Let_def)
qed

section \<open>The decision\<close>

definition host_row :: "observation \<Rightarrow> (string, string) gomap \<Rightarrow> string \<Rightarrow> hostDecision" where
  "host_row obs pairs host = (case map_of pairs host of
     Some n \<Rightarrow> \<lparr>hd_Hostname = host, hd_Confidence = Confirmed,
       hd_Evidence = [(''local'', EvBool True), (''control'', EvBool True), (''nova_hostname'', EvString n)]\<rparr>
   | None \<Rightarrow> if ob_Complete obs then \<lparr>hd_Hostname = host, hd_Confidence = LocalOnly,
         hd_Evidence = [(''local'', EvBool True), (''control'', EvBool False)]\<rparr>
       else \<lparr>hd_Hostname = host, hd_Confidence = [], hd_Evidence = []\<rparr>)"

lemma decide_local_step:
  assumes "decide_local obs pairs (d, matched) h = (d', matched')"
  shows "de_Hosts d' = de_Hosts d @ [host_row obs pairs h]" "de_SweepStale d' = de_SweepStale d"
    "oc_Confirmed (de_Outcome d') = oc_Confirmed (de_Outcome d) @ (if map_of pairs h \<noteq> None then [h] else [])"
    "oc_LocalOnly (de_Outcome d') = oc_LocalOnly (de_Outcome d) @ (if map_of pairs h = None then [h] else [])"
    "oc_Held (de_Outcome d') = oc_Held (de_Outcome d) @ (if map_of pairs h = None \<and> \<not> ob_Complete obs then [h] else [])"
    "is_true matched' c \<longleftrightarrow> is_true matched c \<or> map_of pairs h = Some c"
  using assms by (auto simp: decide_local_def host_row_def Let_def split: option.splits if_splits)

lemma decide_foldl:
  assumes "foldl (decide_local obs pairs) (d, matched) hosts = (d', matched')"
  shows "de_Hosts d' = de_Hosts d @ map (host_row obs pairs) hosts \<and> de_SweepStale d' = de_SweepStale d \<and>
    oc_Confirmed (de_Outcome d') = oc_Confirmed (de_Outcome d) @ filter (\<lambda>h. map_of pairs h \<noteq> None) hosts \<and>
    oc_LocalOnly (de_Outcome d') = oc_LocalOnly (de_Outcome d) @ filter (\<lambda>h. map_of pairs h = None) hosts \<and>
    oc_Held (de_Outcome d') = oc_Held (de_Outcome d) @ (if ob_Complete obs then [] else filter (\<lambda>h. map_of pairs h = None) hosts) \<and>
    (\<forall>c. is_true matched' c \<longleftrightarrow> is_true matched c \<or> (\<exists>h \<in> set hosts. map_of pairs h = Some c))"
  using assms
proof (induction hosts arbitrary: d matched)
  case (Cons h hosts)
  obtain d1 m1 where 1: "decide_local obs pairs (d, matched) h = (d1, m1)" by (cases "decide_local obs pairs (d, matched) h")
  with Cons.prems have "foldl (decide_local obs pairs) (d1, m1) hosts = (d', matched')" by simp
  from Cons.IH [OF this] decide_local_step [OF 1] show ?case by auto
qed simp

lemma Decide_shape:
  assumes "MatchHosts (ob_LocalHosts obs) (ob_ControlHosts obs) = (pairs, ambiguous)"
  shows "de_Hosts (Decide now obs) = map (host_row obs pairs) (ob_LocalHosts obs)" "de_SweepStale (Decide now obs) = ob_Complete obs"
    "oc_Confirmed (de_Outcome (Decide now obs)) = filter (\<lambda>h. map_of pairs h \<noteq> None) (ob_LocalHosts obs)"
    "oc_Held (de_Outcome (Decide now obs)) = (if ob_Complete obs then [] else filter (\<lambda>h. map_of pairs h = None) (ob_LocalHosts obs))"
    "oc_ControlOnly (de_Outcome (Decide now obs)) =
       filter (\<lambda>c. \<not> (\<exists>h \<in> set (ob_LocalHosts obs). map_of pairs h = Some c)) (ob_ControlHosts obs)"
proof -
  obtain d matched where f: "foldl (decide_local obs pairs) (blank_decision now obs, []) (ob_LocalHosts obs) = (d, matched)"
    by (cases "foldl (decide_local obs pairs) (blank_decision now obs, []) (ob_LocalHosts obs)")
  note r = decide_foldl [OF f]
  show "de_Hosts (Decide now obs) = map (host_row obs pairs) (ob_LocalHosts obs)" "de_SweepStale (Decide now obs) = ob_Complete obs"
    "oc_Confirmed (de_Outcome (Decide now obs)) = filter (\<lambda>h. map_of pairs h \<noteq> None) (ob_LocalHosts obs)"
    "oc_Held (de_Outcome (Decide now obs)) = (if ob_Complete obs then [] else filter (\<lambda>h. map_of pairs h = None) (ob_LocalHosts obs))"
    "oc_ControlOnly (de_Outcome (Decide now obs)) =
       filter (\<lambda>c. \<not> (\<exists>h \<in> set (ob_LocalHosts obs). map_of pairs h = Some c)) (ob_ControlHosts obs)"
    using r assms f by (simp_all add: Decide_def blank_decision_def)
qed

text \<open>C20: a membership row says what both sides support. There is exactly one row per inventory host, in
  order. A row is confirmed exactly for the hosts paired with a control-plane name, which is the only
  inventory name with that short name or is that name behind a site prefix, and then no other
  host it fits is left unpaired; no name confirms two hosts; every control-plane name confirms a host or is reported as control-only. On a partial
  answer no row is demoted and nothing is swept: the remaining hosts are held as they were.\<close>

theorem Decide_confirms_only_agreement:
  assumes "MatchHosts (ob_LocalHosts obs) (ob_ControlHosts obs) = (pairs, ambiguous)"
  shows "map hd_Hostname (de_Hosts (Decide now obs)) = ob_LocalHosts obs \<and>
    (\<forall>x \<in> set (de_Hosts (Decide now obs)). hd_Confidence x =
       (if map_of pairs (hd_Hostname x) \<noteq> None then Confirmed else if ob_Complete obs then LocalOnly else [])) \<and>
    (\<forall>h c. map_of pairs h = Some c \<longrightarrow> h \<in> set (ob_LocalHosts obs) \<and> c \<in> set (ob_ControlHosts obs) \<and>
       (filter (\<lambda>l. shortName l = shortName c) (ob_LocalHosts obs) = [h] \<or>
        suffixMatch h (shortName c) \<and> (\<forall>l \<in> set (ob_LocalHosts obs). suffixMatch l (shortName c) \<longrightarrow> map_of pairs l \<noteq> None))) \<and>
    (\<forall>h h' c. map_of pairs h = Some c \<longrightarrow> map_of pairs h' = Some c \<longrightarrow> h = h') \<and>
    (\<forall>c \<in> set (ob_ControlHosts obs). c \<in> set (oc_ControlOnly (de_Outcome (Decide now obs))) \<longleftrightarrow> (\<forall>h. map_of pairs h \<noteq> Some c)) \<and>
    de_SweepStale (Decide now obs) = ob_Complete obs \<and>
    (\<not> ob_Complete obs \<longrightarrow> (\<forall>x \<in> set (de_Hosts (Decide now obs)). hd_Confidence x = Confirmed \<or> Holds x))"
proof -
  let ?ms = "match_all (ob_LocalHosts obs) (ob_ControlHosts obs)"
  have p: "pairs = ms_pairs ?ms" using assms by (simp add: MatchHosts_def Let_def)
  have m: "suffix_inv (ob_LocalHosts obs) (ob_ControlHosts obs) ?ms" by (rule match_all_inv)
  then have "match_inv (ob_LocalHosts obs) (ob_ControlHosts obs) ?ms" by (simp add: suffix_inv_def)
  note inv = this [unfolded match_inv_def, folded p] and sh = Decide_shape [OF assms, of now]
  have why: "filter (\<lambda>l. shortName l = shortName c) (ob_LocalHosts obs) = [h] \<or>
      suffixMatch h (shortName c) \<and> (\<forall>l \<in> set (ob_LocalHosts obs). suffixMatch l (shortName c) \<longrightarrow> map_of pairs l \<noteq> None)"
    if "map_of pairs h = Some c" for h c
  proof (cases "exact_for (ob_LocalHosts obs) c")
    case None
    with m that have "\<forall>l \<in> set (ob_LocalHosts obs). suffixMatch l (shortName c) \<longrightarrow> is_true (ms_claimed ?ms) l"
      unfolding suffix_inv_def p by fastforce
    moreover have "suffixMatch h (shortName c)" using inv that None by (fastforce simp: linked_def exact_for_Some [symmetric])
    ultimately show ?thesis using inv by blast
  next
    case (Some x)
    with m that have "x = h" unfolding suffix_inv_def p by fastforce
    with Some show ?thesis by (simp add: exact_for_Some)
  qed
  have h: "hd_Hostname (host_row obs pairs x) = x" "hd_Confidence (host_row obs pairs x) =
    (if map_of pairs x \<noteq> None then Confirmed else if ob_Complete obs then LocalOnly else [])" for x
    by (simp_all add: host_row_def split: option.splits)
  have "c \<in> set (oc_ControlOnly (de_Outcome (Decide now obs))) \<longleftrightarrow> (\<forall>h. map_of pairs h \<noteq> Some c)" if "c \<in> set (ob_ControlHosts obs)" for c
    unfolding sh(5) using that inv by auto
  moreover have "map hd_Hostname (de_Hosts (Decide now obs)) = ob_LocalHosts obs" by (simp add: sh(1) h comp_def)
  moreover have c: "\<forall>x \<in> set (de_Hosts (Decide now obs)). hd_Confidence x =
    (if map_of pairs (hd_Hostname x) \<noteq> None then Confirmed else if ob_Complete obs then LocalOnly else [])" by (simp add: sh(1) h)
  moreover have "\<forall>x \<in> set (de_Hosts (Decide now obs)). hd_Confidence x = Confirmed \<or> Holds x" if "\<not> ob_Complete obs"
    using c that by (simp add: Holds_def)
  moreover have "\<forall>h c. map_of pairs h = Some c \<longrightarrow> h \<in> set (ob_LocalHosts obs) \<and> c \<in> set (ob_ControlHosts obs)" using inv by blast
  moreover have "\<forall>h h' c. map_of pairs h = Some c \<longrightarrow> map_of pairs h' = Some c \<longrightarrow> h = h'" using inv by blast
  ultimately show ?thesis using why sh(2) by simp
qed

section \<open>Concrete runs\<close>

definition demo_observation :: observation where
  "demo_observation = \<lparr>ob_DeploymentID = ''https://keystone:5000'', ob_DisplayName = [], ob_Region = [], ob_KeystoneURL = [],
     ob_LocalHosts = [''incheon-aio01'', ''sre-srv-0059'', ''gpu07''], ob_ControlHosts = [''aio01'', ''sre-srv-0059.internal''],
     ob_Complete = False, ob_At = 0\<rparr>"

theorem Decide_confirms_only_agreement_witness:
  "MatchHosts (ob_LocalHosts demo_observation) (ob_ControlHosts demo_observation) =
     ([(''sre-srv-0059'', ''sre-srv-0059.internal''), (''incheon-aio01'', ''aio01'')], []) \<and>
   map hd_Confidence (de_Hosts (Decide 7 demo_observation)) = [Confirmed, Confirmed, []] \<and>
   \<not> de_SweepStale (Decide 7 demo_observation)"
proof -
  have m: "MatchHosts (ob_LocalHosts demo_observation) (ob_ControlHosts demo_observation) =
    ([(''sre-srv-0059'', ''sre-srv-0059.internal''), (''incheon-aio01'', ''aio01'')], [])" by code_simp
  have "\<not> de_SweepStale (Decide 7 demo_observation)"
    using Decide_confirms_only_agreement [OF m, of 7] by (simp add: demo_observation_def)
  moreover have "map hd_Confidence (de_Hosts (Decide 7 demo_observation)) = [Confirmed, Confirmed, []]" by code_simp
  ultimately show ?thesis using m by blast
qed

text \<open>Ambiguity depends on the order of the control plane's list: a name that fits two hosts is reported, unless
  a longer name was read before it and took one of them.\<close>

lemma ambiguity_depends_on_order:
  "MatchHosts [''a-x-aio01'', ''b-aio01''] [''aio01'', ''x-aio01''] = ([(''a-x-aio01'', ''x-aio01'')], [''aio01'']) \<and>
   MatchHosts [''a-x-aio01'', ''b-aio01''] [''x-aio01'', ''aio01''] = ([(''a-x-aio01'', ''x-aio01''), (''b-aio01'', ''aio01'')], [])"
  by code_simp

text \<open>An inventory name with both a site prefix and a domain is not matched, since only the control plane's name
  is shortened before the suffix is compared.\<close>

lemma prefixed_name_with_domain_is_not_matched:
  "MatchHosts [''incheon-aio01.internal''] [''aio01''] = ([], []) \<and>
   MatchHosts [''incheon-aio01''] [''aio01.internal''] = ([(''incheon-aio01'', ''aio01.internal'')], [])"
  by code_simp

text \<open>Two control-plane names with one short name both take the same host; the first is then reported as
  control-only although it was paired.\<close>

lemma second_name_takes_the_host:
  "MatchHosts [''aio01''] [''aio01.a'', ''aio01.b''] = ([(''aio01'', ''aio01.b'')], [])"
  by code_simp

end
