(* ===== verification/Farm_Fold.thy ===== *)
theory Farm_Fold
  imports Membership
begin

text \<open>
  The assembler of the OpenStack listing (\<^verbatim>\<open>internal/store/openstack_fold.go\<close>, with the data of
  \<^verbatim>\<open>openstack_store.go\<close> and \<^verbatim>\<open>capability_store.go\<close>): one capability row per host and role and one
  membership row per host and deployment in, one record per host out. A Go map is an association list, a
  pointer in the map of hosts is the entry itself, written back after each change.

  The lemmas give a closed form of the fold (every field of a host's record as a function of that host's rows), from
  which the order of the rows turns out not to matter for what is shown as current and as dropped, and the complete
  decision table of the deployment a host is shown under.
\<close>

section \<open>Data\<close>

definition StateActive :: string where "StateActive = ''active''"
definition StateMaintenance :: string where "StateMaintenance = ''maintenance''"
definition StateBroken :: string where "StateBroken = ''broken''"
definition StateRetired :: string where "StateRetired = ''retired''"

definition StateOrActive :: "string \<Rightarrow> string" where
  "StateOrActive s = (if s = [] then StateActive else s)"

definition HostStates :: "string list" where
  "HostStates = [StateActive, StateMaintenance, StateBroken, StateRetired]"

definition ValidState :: "string \<Rightarrow> bool" where
  "ValidState s \<longleftrightarrow> s \<in> set HostStates"

record component =
  cmp_Version :: string
  cmp_Package :: string
  cmp_Active :: bool
  cmp_Service :: bool

record capability =
  cap_Hostname :: string
  cap_Kind :: string
  cap_Role :: string
  cap_Detected :: bool
  cap_Active :: bool
  cap_Components :: "(string, component) gomap"
  cap_Details :: "(string, string) gomap"
  cap_LastError :: string
  cap_ObservedAt :: gotime
  cap_PassID :: int
  cap_UpdatedAt :: gotime

record capabilityRow = capability +
  cr_DC :: string
  cr_HostState :: string
  cr_IP :: string

record droppedRole =
  dr_Role :: string
  dr_LastSeen :: gotime

record osMembership =
  om_DeploymentID :: string
  om_DisplayName :: string
  om_Region :: string
  om_Confidence :: string
  om_ObservedAt :: gotime

record openStackHost =
  oh_Hostname :: string
  oh_IP :: string
  oh_DC :: string
  oh_HostState :: string
  oh_Detected :: bool
  oh_Roles :: "string list"
  oh_ActiveRoles :: "string list"
  oh_Dropped :: "droppedRole list"
  oh_Components :: "(string, component) gomap"
  oh_Details :: "(string, string) gomap"
  oh_LastError :: string
  oh_ObservedAt :: gotime
  oh_Farm :: string
  oh_FarmName :: string
  oh_FarmRegion :: string
  oh_Confidence :: string
  oh_Memberships :: "osMembership list"

record deployment =
  dp_ID :: string
  dp_DisplayName :: string
  dp_Region :: string
  dp_KeystoneURL :: string
  dp_HorizonURL :: string
  dp_KeystoneCAPEM :: string
  dp_KeystoneVerifyURL :: string
  dp_State :: string
  dp_StateNote :: string
  dp_StateChangedAt :: "gotime option"

definition roleNone :: string where "roleNone = ''none''"
definition RoleUnknown :: string where "RoleUnknown = ''unknown''"

definition isPlaceholderRole :: "string \<Rightarrow> bool" where
  "isPlaceholderRole role \<longleftrightarrow> role = roleNone \<or> role = RoleUnknown"

text \<open>A missing key of a map of strings reads as the empty string.\<close>

definition str_of_key :: "(string, string) gomap \<Rightarrow> string \<Rightarrow> string" where
  "str_of_key m k = (case map_of m k of None \<Rightarrow> [] | Some v \<Rightarrow> v)"

section \<open>What is in service\<close>

definition Parked :: "openStackHost \<Rightarrow> bool" where
  "Parked h \<longleftrightarrow> oh_HostState h = StateMaintenance \<or> oh_HostState h = StateRetired"

definition InService :: "openStackHost list \<Rightarrow> deployment list \<Rightarrow> openStackHost list" where
  "InService hosts deployments =
    (let retired = foldl (\<lambda>m d. if dp_State d = StateRetired then AList.update (dp_ID d) True m else m) [] deployments in
     filter (\<lambda>h. \<not> (Parked h \<or> is_true retired (oh_Farm h))) hosts)"

section \<open>The deployment of a host\<close>

record farmClaim =
  fc_ID :: string
  fc_Name :: string
  fc_Region :: string
  fc_Confidence :: string
  fc_fromMembership :: bool

definition confidenceRank :: "string \<Rightarrow> nat" where
  "confidenceRank c = (if c = Confirmed then 0 else if c = Declared then 1 else if c = LocalOnly then 2 else if c = ControlOnly then 3 else 4)"

definition better :: "farmClaim \<Rightarrow> farmClaim \<Rightarrow> bool" where
  "better a b = (let ra = confidenceRank (fc_Confidence a); rb = confidenceRank (fc_Confidence b) in
     if ra \<noteq> rb then ra < rb else fc_fromMembership a \<and> \<not> fc_fromMembership b)"

fun clash :: "(nat, string) gomap \<Rightarrow> farmClaim list \<Rightarrow> bool" where
  "clash byRank [] = False"
| "clash byRank (c # cs) = (let r = confidenceRank (fc_Confidence c) in
     (case map_of byRank r of
        Some seen \<Rightarrow> if seen \<noteq> fc_ID c then True else clash (AList.update r (fc_ID c) byRank) cs
      | None \<Rightarrow> clash (AList.update r (fc_ID c) byRank) cs))"

definition conflicting :: "osMembership list \<Rightarrow> farmClaim list \<Rightarrow> bool" where
  "conflicting ms claims = (if length ms > 1 then True else clash [] claims)"

definition member_claim :: "osMembership \<Rightarrow> farmClaim" where
  "member_claim m = \<lparr>fc_ID = om_DeploymentID m, fc_Name = om_DisplayName m, fc_Region = om_Region m, fc_Confidence = om_Confidence m,
     fc_fromMembership = True\<rparr>"

definition derived_claim :: "string \<Rightarrow> string \<Rightarrow> farmClaim" where
  "derived_claim i c = \<lparr>fc_ID = i, fc_Name = [], fc_Region = [], fc_Confidence = c, fc_fromMembership = False\<rparr>"

definition farm_claims :: "(string, string) gomap \<Rightarrow> osMembership list \<Rightarrow> farmClaim list" where
  "farm_claims details ms =
    (let i = str_of_key details ''deployment''; u = str_of_key details ''keystone_url'' in
     map member_claim ms @
     (if i \<noteq> [] \<and> i \<noteq> ''unknown'' \<and> str_of_key details ''deployment_source'' = ''declared'' then [derived_claim i Declared] else []) @
     (if u \<noteq> [] \<and> ms = [] then [derived_claim u LocalOnly] else []))"

definition attachFarm :: "openStackHost \<Rightarrow> osMembership list \<Rightarrow> openStackHost" where
  "attachFarm h ms = (let h = h \<lparr>oh_Memberships := ms\<rparr> in case farm_claims (oh_Details h) ms of
     [] \<Rightarrow> h
   | c # cs \<Rightarrow> let best = foldl (\<lambda>best c. if better c best then c else best) c cs in
       h \<lparr>oh_Farm := fc_ID best, oh_FarmName := fc_Name best, oh_FarmRegion := fc_Region best,
          oh_Confidence := (if conflicting ms (c # cs) then Conflict else fc_Confidence best)\<rparr>)"

section \<open>The fold\<close>

definition maps_Copy :: "('k, 'v) gomap \<Rightarrow> ('k, 'v) gomap \<Rightarrow> ('k, 'v) gomap" where
  "maps_Copy dst src = foldl (\<lambda>m (k, v). AList.update k v m) dst src"

definition mergeInto :: "(string, component) gomap \<Rightarrow> (string, component) gomap \<Rightarrow> (string, component) gomap" where
  "mergeInto dst src = (if src = [] then dst else maps_Copy dst src)"

definition mergeDetails :: "(string, string) gomap \<Rightarrow> (string, string) gomap \<Rightarrow> (string, string) gomap" where
  "mergeDetails dst src = (if src = [] then dst else maps_Copy dst src)"

definition new_host :: "capabilityRow \<Rightarrow> openStackHost" where
  "new_host r = \<lparr>oh_Hostname = cap_Hostname r, oh_IP = cr_IP r, oh_DC = cr_DC r, oh_HostState = StateOrActive (cr_HostState r),
     oh_Detected = False, oh_Roles = [], oh_ActiveRoles = [], oh_Dropped = [], oh_Components = [], oh_Details = [], oh_LastError = [],
     oh_ObservedAt = 0, oh_Farm = [], oh_FarmName = [], oh_FarmRegion = [], oh_Confidence = [], oh_Memberships = []\<rparr>"

type_synonym seen_hosts = "(string, openStackHost) gomap \<times> string list \<times> (string, int) gomap"

definition int_of_key :: "(string, int) gomap \<Rightarrow> string \<Rightarrow> int" where
  "int_of_key m k = (case map_of m k of None \<Rightarrow> 0 | Some v \<Rightarrow> v)"

definition see_row :: "seen_hosts \<Rightarrow> capabilityRow \<Rightarrow> seen_hosts" where
  "see_row acc r = (case acc of (byHost, order, newest) \<Rightarrow>
     if map_of byHost (cap_Hostname r) = None then
       (AList.update (cap_Hostname r) (new_host r) byHost, order @ [cap_Hostname r], AList.update (cap_Hostname r) (cap_PassID r) newest)
     else if cap_PassID r > int_of_key newest (cap_Hostname r) then (byHost, order, AList.update (cap_Hostname r) (cap_PassID r) newest)
     else (byHost, order, newest))"

definition apply_row :: "int \<Rightarrow> openStackHost \<Rightarrow> capabilityRow \<Rightarrow> openStackHost" where
  "apply_row newest h r =
    (if cap_PassID r \<ge> newest then
       h \<lparr>oh_ObservedAt := cap_ObservedAt r,
          oh_Detected := oh_Detected h \<or> cap_Detected r,
          oh_Roles := (if isPlaceholderRole (cap_Role r) then oh_Roles h else oh_Roles h @ [cap_Role r]),
          oh_ActiveRoles := (if \<not> isPlaceholderRole (cap_Role r) \<and> cap_Active r then oh_ActiveRoles h @ [cap_Role r] else oh_ActiveRoles h),
          oh_Components := mergeInto (oh_Components h) (cap_Components r),
          oh_Details := mergeDetails (oh_Details h) (cap_Details r),
          oh_LastError := (if cap_LastError r \<noteq> [] then cap_LastError r else oh_LastError h)\<rparr>
     else if \<not> isPlaceholderRole (cap_Role r) then
       h \<lparr>oh_Dropped := oh_Dropped h @ [\<lparr>dr_Role = cap_Role r, dr_LastSeen = cap_ObservedAt r\<rparr>]\<rparr>
     else h)"

definition fill_row :: "(string, int) gomap \<Rightarrow> (string, openStackHost) gomap \<Rightarrow> capabilityRow \<Rightarrow> (string, openStackHost) gomap" where
  "fill_row newest byHost r = (case map_of byHost (cap_Hostname r) of
     None \<Rightarrow> byHost
   | Some h \<Rightarrow> AList.update (cap_Hostname r) (apply_row (int_of_key newest (cap_Hostname r)) h r) byHost)"

definition finish_host :: "osMembership list \<Rightarrow> openStackHost \<Rightarrow> openStackHost" where
  "finish_host ms h = attachFarm (h \<lparr>oh_Roles := sort (oh_Roles h), oh_ActiveRoles := sort (oh_ActiveRoles h),
     oh_Dropped := sort_key dr_Role (oh_Dropped h)\<rparr>) ms"

definition foldCapabilityRows :: "capabilityRow list \<Rightarrow> (string, osMembership list) gomap \<Rightarrow> openStackHost list" where
  "foldCapabilityRows rows members = (case foldl see_row ([], [], []) rows of (byHost, order, newest) \<Rightarrow>
     let filled = foldl (fill_row newest) byHost rows in
     map (\<lambda>name. finish_host (slice_of members name) (the (map_of filled name))) (sort order))"

section \<open>A closed form of the fold\<close>

definition host_rows :: "capabilityRow list \<Rightarrow> string \<Rightarrow> capabilityRow list" where
  "host_rows rows n = filter (\<lambda>r. cap_Hostname r = n) rows"

definition newest_pass :: "capabilityRow list \<Rightarrow> int" where
  "newest_pass rs = Max (set (map cap_PassID rs))"

definition current_rows :: "capabilityRow list \<Rightarrow> capabilityRow list" where
  "current_rows rs = filter (\<lambda>r. cap_PassID r \<ge> newest_pass rs) rs"

definition lagging_rows :: "capabilityRow list \<Rightarrow> capabilityRow list" where
  "lagging_rows rs = filter (\<lambda>r. \<not> cap_PassID r \<ge> newest_pass rs) rs"

definition real_roles :: "capabilityRow list \<Rightarrow> capabilityRow list" where
  "real_roles rs = filter (\<lambda>r. \<not> isPlaceholderRole (cap_Role r)) rs"

definition dropped_of :: "capabilityRow \<Rightarrow> droppedRole" where
  "dropped_of r = \<lparr>dr_Role = cap_Role r, dr_LastSeen = cap_ObservedAt r\<rparr>"

definition last_or :: "'a \<Rightarrow> 'a list \<Rightarrow> 'a" where
  "last_or d xs = (if xs = [] then d else last xs)"

definition described :: "openStackHost \<Rightarrow> capabilityRow list \<Rightarrow> capabilityRow list \<Rightarrow> openStackHost" where
  "described h now before = h \<lparr>oh_ObservedAt := last_or (oh_ObservedAt h) (map cap_ObservedAt now),
     oh_Detected := oh_Detected h \<or> (\<exists>r \<in> set now. cap_Detected r),
     oh_Roles := oh_Roles h @ map cap_Role (real_roles now),
     oh_ActiveRoles := oh_ActiveRoles h @ map cap_Role (filter cap_Active (real_roles now)),
     oh_Components := foldl mergeInto (oh_Components h) (map cap_Components now),
     oh_Details := foldl mergeDetails (oh_Details h) (map cap_Details now),
     oh_LastError := last_or (oh_LastError h) (filter (\<lambda>e. e \<noteq> []) (map cap_LastError now)),
     oh_Dropped := oh_Dropped h @ map dropped_of (real_roles before)\<rparr>"

definition host_record :: "(string, osMembership list) gomap \<Rightarrow> capabilityRow list \<Rightarrow> string \<Rightarrow> openStackHost" where
  "host_record members rows n = (let rs = host_rows rows n in
     finish_host (slice_of members n) (described (new_host (hd rs)) (current_rows rs) (lagging_rows rs)))"

lemma host_rows_snoc: "host_rows (rows @ [r]) n = host_rows rows n @ (if cap_Hostname r = n then [r] else [])"
  by (simp add: host_rows_def)

lemma host_rows_Nil_iff: "host_rows rows n = [] \<longleftrightarrow> n \<notin> cap_Hostname ` set rows"
  by (auto simp: host_rows_def filter_empty_conv)

lemma newest_pass_snoc: "newest_pass (rs @ [r]) = (if rs = [] then cap_PassID r else max (newest_pass rs) (cap_PassID r))"
  by (simp add: newest_pass_def max.commute)

lemma newest_pass_ge: "r \<in> set rs \<Longrightarrow> cap_PassID r \<le> newest_pass rs"
  by (simp add: newest_pass_def)

lemma newest_pass_mem: "rs \<noteq> [] \<Longrightarrow> \<exists>r \<in> set rs. cap_PassID r = newest_pass rs"
  using Max_in [of "cap_PassID ` set rs"] unfolding newest_pass_def set_map by fastforce

lemma newest_pass_single [simp]: "newest_pass [r] = cap_PassID r"
  by (simp add: newest_pass_def)

definition seen_ok :: "capabilityRow list \<Rightarrow> seen_hosts \<Rightarrow> bool" where
  "seen_ok rows acc = (case acc of (byHost, order, newest) \<Rightarrow> distinct order \<and> set order = cap_Hostname ` set rows \<and>
     (\<forall>n. map_of byHost n = (if host_rows rows n = [] then None else Some (new_host (hd (host_rows rows n))))) \<and>
     (\<forall>n. map_of newest n = (if host_rows rows n = [] then None else Some (newest_pass (host_rows rows n)))))"

lemma see_row_ok:
  assumes "seen_ok rows acc"
  shows "seen_ok (rows @ [r]) (see_row acc r)"
proof -
  obtain byHost order newest where a: "acc = (byHost, order, newest)" by (cases acc)
  have m: "map_of byHost n = (if host_rows rows n = [] then None else Some (new_host (hd (host_rows rows n))))"
    and k: "map_of newest n = (if host_rows rows n = [] then None else Some (newest_pass (host_rows rows n)))" for n
    using assms by (auto simp: seen_ok_def a)
  have o: "distinct order" "set order = cap_Hostname ` set rows" using assms by (auto simp: seen_ok_def a)
  show ?thesis
  proof (cases "host_rows rows (cap_Hostname r) = []")
    case True
    then have "cap_Hostname r \<notin> set order" by (simp add: o host_rows_Nil_iff)
    with True o show ?thesis by (auto simp: a see_row_def seen_ok_def m k host_rows_snoc newest_pass_snoc)
  next
    case False
    then have "cap_Hostname r \<in> cap_Hostname ` set rows" by (simp add: host_rows_Nil_iff)
    with False o show ?thesis
      by (auto simp: a see_row_def seen_ok_def m k int_of_key_def host_rows_snoc newest_pass_snoc max_def)
  qed
qed

lemma see_rows_ok: "seen_ok rows (foldl see_row ([], [], []) rows)"
  by (induction rows rule: rev_induct) (simp_all add: see_row_ok, simp add: seen_ok_def host_rows_def)

lemma fill_rows:
  "map_of (foldl (fill_row newest) byHost rows) n =
     map_option (\<lambda>h. foldl (apply_row (int_of_key newest n)) h (host_rows rows n)) (map_of byHost n)"
proof (induction rows rule: rev_induct)
  case Nil
  then show ?case by (simp add: host_rows_def option.map_ident)
next
  case (snoc r rows)
  then show ?case by (auto simp: fill_row_def host_rows_snoc split: option.splits)
qed

lemma apply_row_described:
  "apply_row p h r = (if cap_PassID r \<ge> p then described h [r] [] else described h [] [r])"
  by (rule openStackHost.equality) (simp_all add: apply_row_def described_def last_or_def real_roles_def dropped_of_def)

lemma described_append: "described (described h n1 b1) n2 b2 = described h (n1 @ n2) (b1 @ b2)"
  by (rule openStackHost.equality) (auto simp: described_def last_or_def real_roles_def)

lemma described_Nil: "described h [] [] = h"
  by (simp add: described_def last_or_def real_roles_def)

lemma apply_rows:
  "foldl (apply_row p) h rs = described h (filter (\<lambda>r. cap_PassID r \<ge> p) rs) (filter (\<lambda>r. \<not> cap_PassID r \<ge> p) rs)"
  by (induction rs rule: rev_induct) (simp_all add: apply_row_described described_append described_Nil)

lemma foldCapabilityRows_closed:
  "foldCapabilityRows rows members = map (host_record members rows) (sort (remdups (map cap_Hostname rows)))"
proof -
  obtain byHost order newest where s: "foldl see_row ([], [], []) rows = (byHost, order, newest)" by (metis prod_cases3)
  have o: "distinct order" "set order = cap_Hostname ` set rows"
    and m: "map_of byHost n = (if host_rows rows n = [] then None else Some (new_host (hd (host_rows rows n))))"
    and k: "map_of newest n = (if host_rows rows n = [] then None else Some (newest_pass (host_rows rows n)))" for n
    using see_rows_ok [of rows] by (auto simp: s seen_ok_def)
  have "sort order = sort (remdups (map cap_Hostname rows))"
    using o by (intro properties_for_sort) (auto simp: set_eq_iff_mset_eq_distinct [symmetric])
  moreover have "finish_host (slice_of members n) (the (map_of (foldl (fill_row newest) byHost rows) n)) = host_record members rows n"
    if "n \<in> cap_Hostname ` set rows" for n
  proof -
    have "host_rows rows n \<noteq> []" using that by (simp add: host_rows_Nil_iff)
    then show ?thesis by (simp add: fill_rows m k int_of_key_def apply_rows host_record_def Let_def current_rows_def lagging_rows_def)
  qed
  ultimately show ?thesis using o by (auto simp: foldCapabilityRows_def s Let_def intro!: map_cong)
qed

section \<open>The strongest claim\<close>

definition declared_id :: "(string, string) gomap \<Rightarrow> string option" where
  "declared_id details = (let i = str_of_key details ''deployment'' in
     if i \<noteq> [] \<and> i \<noteq> ''unknown'' \<and> str_of_key details ''deployment_source'' = ''declared'' then Some i else None)"

definition claim_key :: "farmClaim \<Rightarrow> nat" where
  "claim_key c = 2 * confidenceRank (fc_Confidence c) + (if fc_fromMembership c then 0 else 1)"

lemma better_iff: "better a b \<longleftrightarrow> claim_key a < claim_key b"
  by (auto simp: better_def claim_key_def Let_def)

lemma confidenceRank_inj: "confidenceRank a = confidenceRank b \<Longrightarrow> confidenceRank a < 4 \<Longrightarrow> a = b"
  by (auto simp: confidenceRank_def split: if_splits)

lemma confidenceRank_derived [simp]: "confidenceRank Declared = 1" "confidenceRank LocalOnly = 2"
  by (simp_all add: confidenceRank_def Declared_def Confirmed_def LocalOnly_def)

lemma best_claim:
  "foldl (\<lambda>best c. if better c best then c else best) c cs \<in> set (c # cs) \<and>
   (\<forall>d \<in> set (c # cs). claim_key (foldl (\<lambda>best c. if better c best then c else best) c cs) \<le> claim_key d)"
proof (induction cs rule: rev_induct)
  case (snoc x cs)
  then show ?case by (auto simp: better_iff)
qed simp

lemma farm_claims_split:
  "farm_claims details ms = map member_claim ms @ (case declared_id details of None \<Rightarrow> [] | Some i \<Rightarrow> [derived_claim i Declared]) @
     (if str_of_key details ''keystone_url'' \<noteq> [] \<and> ms = [] then [derived_claim (str_of_key details ''keystone_url'') LocalOnly] else [])"
  by (simp add: farm_claims_def declared_id_def Let_def)

lemma conflicting_iff:
  "conflicting ms (farm_claims details ms) \<longleftrightarrow>
     length ms > 1 \<or> (\<exists>m i. ms = [m] \<and> declared_id details = Some i \<and> om_Confidence m = Declared \<and> om_DeploymentID m \<noteq> i)"
proof (cases ms)
  case Nil
  then show ?thesis by (auto simp: conflicting_def farm_claims_split derived_claim_def split: option.splits)
next
  case (Cons m rest)
  have "confidenceRank (om_Confidence m) = 1 \<longleftrightarrow> om_Confidence m = Declared"
    using confidenceRank_inj [of "om_Confidence m" Declared] by auto
  then show ?thesis using Cons
    by (cases rest) (auto simp: conflicting_def farm_claims_split derived_claim_def member_claim_def Let_def split: option.splits)
qed

text \<open>A host is shown under the strongest claim on it, and as a conflict exactly when the evidence disagrees. Among its
  memberships, the identifier it declares and, failing any membership, the Keystone it names, the deployment
  shown comes from a claim no other claim outranks, a filed one before a derived one of the same strength. The
  confidence is that claim's, or conflict exactly when two memberships are filed or a declared membership and the
  declared identifier name different deployments. Without a claim the host stays unassigned.\<close>

theorem farm_is_the_strongest_claim:
  "(farm_claims (oh_Details h) ms = [] \<longrightarrow> attachFarm h ms = h \<lparr>oh_Memberships := ms\<rparr>) \<and>
   (farm_claims (oh_Details h) ms \<noteq> [] \<longrightarrow> (\<exists>c \<in> set (farm_claims (oh_Details h) ms).
      (\<forall>d \<in> set (farm_claims (oh_Details h) ms). \<not> better d c) \<and>
      attachFarm h ms = h \<lparr>oh_Memberships := ms, oh_Farm := fc_ID c, oh_FarmName := fc_Name c, oh_FarmRegion := fc_Region c,
        oh_Confidence := (if length ms > 1 \<or> (\<exists>m i. ms = [m] \<and> declared_id (oh_Details h) = Some i \<and> om_Confidence m = Declared \<and>
          om_DeploymentID m \<noteq> i) then Conflict else fc_Confidence c)\<rparr>))"
proof (cases "farm_claims (oh_Details h) ms")
  case Nil
  then show ?thesis by (simp add: attachFarm_def)
next
  case (Cons c cs)
  let ?best = "foldl (\<lambda>best c. if better c best then c else best) c cs"
  have best: "?best \<in> set (c # cs)" "\<forall>d \<in> set (c # cs). \<not> better d ?best" using best_claim [of c cs] by (auto simp: better_iff not_less)
  have "attachFarm h ms = h \<lparr>oh_Memberships := ms, oh_Farm := fc_ID ?best, oh_FarmName := fc_Name ?best, oh_FarmRegion := fc_Region ?best,
      oh_Confidence := (if conflicting ms (farm_claims (oh_Details h) ms) then Conflict else fc_Confidence ?best)\<rparr>"
    by (simp add: attachFarm_def Cons Let_def)
  note shown = this [unfolded conflicting_iff]
  show ?thesis unfolding Cons by (rule conjI, blast, rule impI, rule bexI [of _ ?best], rule conjI, rule best(2), rule shown, rule best(1))
qed

section \<open>The order of the rows\<close>

lemma attachFarm_fields [simp]:
  "oh_Hostname (attachFarm h ms) = oh_Hostname h" "oh_Roles (attachFarm h ms) = oh_Roles h" "oh_ActiveRoles (attachFarm h ms) = oh_ActiveRoles h"
  "oh_Dropped (attachFarm h ms) = oh_Dropped h" "oh_Detected (attachFarm h ms) = oh_Detected h" "oh_ObservedAt (attachFarm h ms) = oh_ObservedAt h"
  "oh_IP (attachFarm h ms) = oh_IP h" "oh_DC (attachFarm h ms) = oh_DC h" "oh_HostState (attachFarm h ms) = oh_HostState h"
  "oh_LastError (attachFarm h ms) = oh_LastError h" "oh_Details (attachFarm h ms) = oh_Details h" "oh_Components (attachFarm h ms) = oh_Components h"
  by (simp_all add: attachFarm_def Let_def split: list.splits)

lemma host_record_fields:
  "oh_Roles (host_record members rows n) = sort (map cap_Role (real_roles (current_rows (host_rows rows n))))"
  "oh_ActiveRoles (host_record members rows n) = sort (map cap_Role (filter cap_Active (real_roles (current_rows (host_rows rows n)))))"
  "oh_Dropped (host_record members rows n) = sort_key dr_Role (map dropped_of (real_roles (lagging_rows (host_rows rows n))))"
  "oh_Detected (host_record members rows n) \<longleftrightarrow> (\<exists>r \<in> set (current_rows (host_rows rows n)). cap_Detected r)"
  "oh_ObservedAt (host_record members rows n) = last_or 0 (map cap_ObservedAt (current_rows (host_rows rows n)))"
  "oh_LastError (host_record members rows n) = last_or [] (filter (\<lambda>e. e \<noteq> []) (map cap_LastError (current_rows (host_rows rows n))))"
  "oh_Details (host_record members rows n) = foldl mergeDetails [] (map cap_Details (current_rows (host_rows rows n)))"
  "oh_Components (host_record members rows n) = foldl mergeInto [] (map cap_Components (current_rows (host_rows rows n)))"
  by (simp_all add: host_record_def finish_host_def described_def new_host_def Let_def)

lemma host_record_Hostname: "n \<in> cap_Hostname ` set rows \<Longrightarrow> oh_Hostname (host_record members rows n) = n"
  using host_rows_Nil_iff [of rows n] hd_in_set [of "host_rows rows n"]
  by (auto simp: host_record_def finish_host_def described_def new_host_def Let_def host_rows_def)

lemma fold_hostnames: "map oh_Hostname (foldCapabilityRows rows members) = sort (remdups (map cap_Hostname rows))"
  by (auto simp: foldCapabilityRows_closed host_record_Hostname intro: map_idI)

lemma rows_mset:
  assumes "mset rows = mset rows'"
  shows "mset (host_rows rows n) = mset (host_rows rows' n)" "newest_pass (host_rows rows n) = newest_pass (host_rows rows' n)"
    "mset (current_rows (host_rows rows n)) = mset (current_rows (host_rows rows' n))"
    "mset (lagging_rows (host_rows rows n)) = mset (lagging_rows (host_rows rows' n))"
proof -
  show m: "mset (host_rows rows n) = mset (host_rows rows' n)" using assms by (simp add: host_rows_def)
  show p: "newest_pass (host_rows rows n) = newest_pass (host_rows rows' n)" using mset_eq_setD [OF m] by (simp add: newest_pass_def)
  show "mset (current_rows (host_rows rows n)) = mset (current_rows (host_rows rows' n))"
    "mset (lagging_rows (host_rows rows n)) = mset (lagging_rows (host_rows rows' n))"
    using m by (simp_all add: current_rows_def lagging_rows_def p)
qed

lemma sort_roles_mset: "mset rs = mset rs' \<Longrightarrow> sort (map cap_Role (filter P (real_roles rs))) = sort (map cap_Role (filter P (real_roles rs')))"
  by (simp add: sort_eq_iff_mset real_roles_def)

definition what_it_does :: "openStackHost \<Rightarrow> string \<times> bool \<times> string list \<times> string list \<times> droppedRole list" where
  "what_it_does h = (oh_Hostname h, oh_Detected h, oh_Roles h, oh_ActiveRoles h, oh_Dropped h)"

text \<open>What the listing says a host does is a matter of its rows, not of the order the database returns them in. With one row
  per host and role, any two orders of the same rows give the same hosts, in the same order, with the same roles,
  active roles, dropped roles and detection.\<close>

theorem listing_ignores_row_order:
  assumes "mset rows = mset rows'" "distinct (map (\<lambda>r. (cap_Hostname r, cap_Role r)) rows)"
  shows "map what_it_does (foldCapabilityRows rows members) = map what_it_does (foldCapabilityRows rows' members)"
proof -
  have names: "sort (remdups (map cap_Hostname rows)) = sort (remdups (map cap_Hostname rows'))"
    using mset_eq_setD [OF assms(1)] by (simp add: sort_eq_iff_mset set_eq_iff_mset_remdups_eq [symmetric])
  have "what_it_does (host_record members rows n) = what_it_does (host_record members rows' n)" if "n \<in> cap_Hostname ` set rows" for n
  proof -
    note m = rows_mset [OF assms(1), of n]
    have "distinct (map dr_Role (map dropped_of (real_roles (lagging_rows (host_rows rows n)))))"
      using assms(2) by (auto simp: distinct_map inj_on_def dropped_of_def real_roles_def lagging_rows_def host_rows_def)
    then have "sort_key dr_Role (map dropped_of (real_roles (lagging_rows (host_rows rows n)))) =
      sort_key dr_Role (map dropped_of (real_roles (lagging_rows (host_rows rows' n))))"
      by (rule sort_key_mset [rotated]) (simp add: real_roles_def m(4))
    moreover have "n \<in> cap_Hostname ` set rows'" using that mset_eq_setD [OF assms(1)] by simp
    ultimately show ?thesis
      using that mset_eq_setD [OF m(3)] sort_roles_mset [OF m(3), of "\<lambda>_. True"] sort_roles_mset [OF m(3), of cap_Active]
      by (simp add: what_it_does_def host_record_fields host_record_Hostname)
  qed
  then show ?thesis unfolding foldCapabilityRows_closed names [symmetric] by simp
qed

section \<open>Concrete runs\<close>

definition sample_row :: "string \<Rightarrow> string \<Rightarrow> int \<Rightarrow> capabilityRow" where
  "sample_row host role pass = \<lparr>cap_Hostname = host, cap_Kind = ''openstack'', cap_Role = role, cap_Detected = True, cap_Active = True,
     cap_Components = [], cap_Details = [(''deployment'', ''farm-b''), (''deployment_source'', ''declared'')], cap_LastError = [],
     cap_ObservedAt = 5, cap_PassID = pass, cap_UpdatedAt = 5, cr_DC = ''dc1'', cr_HostState = [], cr_IP = ''10.0.0.1''\<rparr>"

definition sample_membership :: "string \<Rightarrow> string \<Rightarrow> osMembership" where
  "sample_membership i c = \<lparr>om_DeploymentID = i, om_DisplayName = [], om_Region = [], om_Confidence = c, om_ObservedAt = 5\<rparr>"

definition sample_host :: openStackHost where
  "sample_host = described (new_host (sample_row ''c1'' ''compute'' 3)) [sample_row ''c1'' ''compute'' 3] []"

text \<open>A host whose own declaration outranks the local-only membership of another deployment, and a declared membership that
  contradicts it.\<close>

theorem farm_is_the_strongest_claim_witness:
  "oh_Farm (attachFarm sample_host [sample_membership ''farm-a'' LocalOnly]) = ''farm-b'' \<and>
   oh_Confidence (attachFarm sample_host [sample_membership ''farm-a'' LocalOnly]) = Declared \<and>
   oh_Confidence (attachFarm sample_host [sample_membership ''farm-a'' Declared]) = Conflict"
proof -
  let ?m = "\<lambda>c. [sample_membership ''farm-a'' c]"
  have f: "farm_claims (oh_Details sample_host) (?m c) = [member_claim (sample_membership ''farm-a'' c), derived_claim ''farm-b'' Declared]"
    "declared_id (oh_Details sample_host) = Some ''farm-b''" for c
    by (simp_all add: farm_claims_def declared_id_def sample_host_def described_def sample_row_def new_host_def mergeDetails_def maps_Copy_def
        str_of_key_def Let_def)
  have r: "confidenceRank LocalOnly = 2" "confidenceRank Declared = 1" "LocalOnly \<noteq> Declared" by code_simp+
  have b: "better (derived_claim ''farm-b'' Declared) (member_claim (sample_membership ''farm-a'' LocalOnly))"
    by (simp add: better_def derived_claim_def member_claim_def sample_membership_def r)
  note w = farm_is_the_strongest_claim [of sample_host "?m c" for c, THEN conjunct2, THEN mp, unfolded f, OF list.distinct(2)]
  from w [of LocalOnly] obtain c where
    c: "c \<in> set [member_claim (sample_membership ''farm-a'' LocalOnly), derived_claim ''farm-b'' Declared]"
    "\<forall>d \<in> set [member_claim (sample_membership ''farm-a'' LocalOnly), derived_claim ''farm-b'' Declared]. \<not> better d c"
    and s: "attachFarm sample_host (?m LocalOnly) = sample_host \<lparr>oh_Memberships := ?m LocalOnly, oh_Farm := fc_ID c, oh_FarmName := fc_Name c,
      oh_FarmRegion := fc_Region c, oh_Confidence := (if length (?m LocalOnly) > 1 \<or> (\<exists>m i. ?m LocalOnly = [m] \<and> Some ''farm-b'' = Some i \<and>
        om_Confidence m = Declared \<and> om_DeploymentID m \<noteq> i) then Conflict else fc_Confidence c)\<rparr>"
    by (elim bexE conjE) (rule that)
  have d: "c = derived_claim ''farm-b'' Declared" using c b by auto
  have "oh_Farm (attachFarm sample_host (?m LocalOnly)) = ''farm-b''" "oh_Confidence (attachFarm sample_host (?m LocalOnly)) = Declared"
    unfolding s by (simp_all add: d derived_claim_def sample_membership_def r(3))
  moreover have "oh_Confidence (attachFarm sample_host (?m Declared)) = Conflict"
    by (rule bexE [OF w [of Declared]], erule conjE, erule ssubst) (simp add: sample_membership_def)
  ultimately show ?thesis by simp
qed

theorem listing_ignores_row_order_witness:
  "map what_it_does (foldCapabilityRows [sample_row ''c1'' ''compute'' 3, sample_row ''c1'' ''network'' 2] []) =
   map what_it_does (foldCapabilityRows [sample_row ''c1'' ''network'' 2, sample_row ''c1'' ''compute'' 3] [])"
  by (rule listing_ignores_row_order) (simp_all add: sample_row_def)

end
