(* ===== verification/Farm_Store.thy ===== *)
theory Farm_Store
  imports Farm_Fold Vm_Target Pg_Tx
begin

text \<open>
  The tables of the OpenStack inventory and the operations of the store on them: \<^verbatim>\<open>capability_store.go\<close>,
  \<^verbatim>\<open>openstack_store.go\<close>, \<^verbatim>\<open>openstack_reconcile.go\<close> and \<^verbatim>\<open>openstack_instances.go\<close> of \<^verbatim>\<open>internal/store\<close>. A table
  is an association list from its primary key; a row is written by the column list of its SQL statement, foreign keys
  and column defaults are part of the operations that rely on them. Statements fail as the environment of
  \<^verbatim>\<open>Pg_Tx\<close> decides. A sequence is not transactional: a pass number drawn by a transaction that rolls back is gone.

  Concurrent probe passes are a step relation: a transaction draws its pass number, and later commits or aborts; the row locks
  it takes make its writes one atomic step at commit. The lemmas show that passes that commit in the order of
  their numbers are listed whole, what a reconcile decision does to the membership rows, and that a partial answer
  removes nothing. A concrete run shows two overlapping passes that leave a listing neither of them wrote.
\<close>

section \<open>Tables\<close>

record inv_server =
  is_DC :: string
  is_State :: string
  is_IP :: string

record member_row =
  mr_Confidence :: string
  mr_Evidence :: "(string, evidence) gomap"
  mr_ObservedAt :: gotime

record reconcileRun =
  rr_DeploymentID :: string
  rr_StartedAt :: gotime
  rr_SucceededAt :: "gotime option"
  rr_Complete :: bool
  rr_LastError :: string
  rr_Confirmed :: nat
  rr_LocalOnly :: nat
  rr_ControlOnly :: nat
  rr_Held :: nat
  rr_Ambiguous :: nat

record ghostHost =
  gh_DeploymentID :: string
  gh_NovaHostname :: string
  gh_FirstSeenAt :: gotime
  gh_LastSeenAt :: gotime

record farm_db =
  db_servers :: "(string, inv_server) gomap"
  db_caps :: "(string \<times> string \<times> string, capability) gomap"
  db_pass_seq :: int
  db_members :: "(string \<times> string, member_row) gomap"
  db_deployments :: "(string, deployment) gomap"
  db_runs :: "(string, reconcileRun) gomap"
  db_ghosts :: "(string \<times> string, ghostHost) gomap"
  db_instances :: "(string \<times> string, vm_instance) gomap"
  db_addresses :: "(string \<times> string \<times> string, instanceAddress) gomap"

datatype farm_stmt = SelectServer string | NextPass | UpsertCapability string | UpdateCapErrors | InsertCapError
  | UpsertDeployment string | TouchMember string | UpsertMember string | SweepMembers | UpsertRun | UpsertGhost string | DeleteGhosts
  | UpsertInstance string | DeleteAddresses string | UpsertAddress string string | CloseBatch | MarkMissing | PruneMissing | SelectRows string

type_synonym farm_env = "(farm_stmt, farm_db) tx_env"

definition registered :: "farm_db \<Rightarrow> string \<Rightarrow> bool" where
  "registered db host \<longleftrightarrow> map_of (db_servers db) host \<noteq> None"

section \<open>Capabilities\<close>

definition KindOpenStack :: string where "KindOpenStack = ''openstack''"

text \<open>The row one pass writes for one role: the columns of the upsert, with the pass number and the instant of the pass.\<close>

definition pass_row :: "string \<Rightarrow> string \<Rightarrow> int \<Rightarrow> gotime \<Rightarrow> capability \<Rightarrow> capability" where
  "pass_row host kind pass tm c = \<lparr>cap_Hostname = host, cap_Kind = kind, cap_Role = cap_Role c, cap_Detected = cap_Detected c,
     cap_Active = cap_Active c, cap_Components = cap_Components c, cap_Details = cap_Details c, cap_LastError = cap_LastError c,
     cap_ObservedAt = tm, cap_PassID = pass, cap_UpdatedAt = tm\<rparr>"

definition upsert_cap :: "string \<Rightarrow> string \<Rightarrow> int \<Rightarrow> gotime \<Rightarrow> capability \<Rightarrow> farm_db \<Rightarrow> farm_db" where
  "upsert_cap host kind pass tm c db = db \<lparr>db_caps := AList.update (host, kind, cap_Role c) (pass_row host kind pass tm c) (db_caps db)\<rparr>"

definition write_pass :: "farm_env \<Rightarrow> string \<Rightarrow> string \<Rightarrow> int \<Rightarrow> gotime \<Rightarrow> capability list \<Rightarrow> farm_db \<Rightarrow> goerror + farm_db" where
  "write_pass env host kind pass tm caps db =
     tx_each (\<lambda>c. tx_stmt env (UpsertCapability (cap_Role c)) (upsert_cap host kind pass tm c)) caps db"

definition ReplaceCapabilities :: "farm_env \<Rightarrow> gotime \<Rightarrow> string \<Rightarrow> string \<Rightarrow> capability list \<Rightarrow> farm_db \<Rightarrow> farm_db \<times> (goerror + bool)" where
  "ReplaceCapabilities env now host kind caps db =
    (if caps = [] then (db, Inr False)
     else case te_begin env of Some e \<Rightarrow> (db, Inl e)
     | None \<Rightarrow> (case te_exec env (SelectServer host) db of Some e \<Rightarrow> (db, Inl e)
       | None \<Rightarrow> if \<not> registered db host then (db, Inr False)
         else (case te_exec env NextPass db of Some e \<Rightarrow> (db, Inl e)
           | None \<Rightarrow> let pass = db_pass_seq db + 1; db1 = db \<lparr>db_pass_seq := pass\<rparr> in
             (case write_pass env host kind pass now caps db1 of
                Inl e \<Rightarrow> (db1, Inl e)
              | Inr db2 \<Rightarrow> tx_commit (te_commit env) db1 (db2, True)))))"

definition cap_error_row :: "string \<Rightarrow> string \<Rightarrow> string \<Rightarrow> gotime \<Rightarrow> capability" where
  "cap_error_row host kind message now = \<lparr>cap_Hostname = host, cap_Kind = kind, cap_Role = RoleUnknown, cap_Detected = False, cap_Active = False,
     cap_Components = [], cap_Details = [], cap_LastError = message, cap_ObservedAt = now, cap_PassID = 0, cap_UpdatedAt = now\<rparr>"

definition set_cap_errors :: "string \<Rightarrow> string \<Rightarrow> string \<Rightarrow> gotime \<Rightarrow> farm_db \<Rightarrow> farm_db" where
  "set_cap_errors host kind message now db = db \<lparr>db_caps := map (\<lambda>(k, c).
     (k, if fst k = host \<and> fst (snd k) = kind then c \<lparr>cap_LastError := message, cap_UpdatedAt := now\<rparr> else c)) (db_caps db)\<rparr>"

definition has_caps :: "string \<Rightarrow> string \<Rightarrow> farm_db \<Rightarrow> bool" where
  "has_caps host kind db \<longleftrightarrow> (\<exists>k \<in> fst ` set (db_caps db). fst k = host \<and> fst (snd k) = kind)"

definition insert_cap_error :: "string \<Rightarrow> string \<Rightarrow> string \<Rightarrow> gotime \<Rightarrow> farm_db \<Rightarrow> farm_db" where
  "insert_cap_error host kind message now db = (if \<not> registered db host then db
     else db \<lparr>db_caps := (case map_of (db_caps db) (host, kind, RoleUnknown) of
         Some c \<Rightarrow> AList.update (host, kind, RoleUnknown) (c \<lparr>cap_LastError := message, cap_UpdatedAt := now\<rparr>) (db_caps db)
       | None \<Rightarrow> AList.update (host, kind, RoleUnknown) (cap_error_row host kind message now) (db_caps db))\<rparr>)"

definition RecordCapabilityError :: "farm_env \<Rightarrow> farm_env \<Rightarrow> gotime \<Rightarrow> string \<Rightarrow> string \<Rightarrow> string \<Rightarrow> farm_db \<Rightarrow> farm_db \<times> (goerror + unit)" where
  "RecordCapabilityError env env2 now host kind message db =
    (case pool_Exec env UpdateCapErrors (set_cap_errors host kind message now) db of
       (db1, Inl e) \<Rightarrow> (db1, Inl e)
     | (db1, Inr _) \<Rightarrow> if has_caps host kind db then (db1, Inr ())
         else pool_Exec env2 InsertCapError (insert_cap_error host kind message now) db1)"

definition cap_row :: "farm_db \<Rightarrow> capability \<Rightarrow> capabilityRow" where
  "cap_row db c = (case map_of (db_servers db) (cap_Hostname c) of
     None \<Rightarrow> capability.extend c (capabilityRow.fields [] ''active'' [])
   | Some s \<Rightarrow> capability.extend c (capabilityRow.fields (is_DC s) (is_State s) (is_IP s)))"

definition sorted_rows :: "capability list \<Rightarrow> capability list" where
  "sorted_rows cs = sort_key cap_Hostname (sort_key cap_Role cs)"

definition member_of :: "farm_db \<Rightarrow> string \<times> string \<Rightarrow> member_row \<Rightarrow> osMembership" where
  "member_of db k r = (let d = map_of (db_deployments db) (snd k) in
     \<lparr>om_DeploymentID = snd k, om_DisplayName = (case d of None \<Rightarrow> [] | Some d \<Rightarrow> dp_DisplayName d),
      om_Region = (case d of None \<Rightarrow> [] | Some d \<Rightarrow> dp_Region d), om_Confidence = mr_Confidence r, om_ObservedAt = mr_ObservedAt r\<rparr>)"

definition openStackMembershipsOn :: "farm_db \<Rightarrow> (string, osMembership list) gomap" where
  "openStackMembershipsOn db = foldl (\<lambda>m (k, r). AList.update (fst k) (slice_of m (fst k) @ [member_of db k r]) m) []
     (sort_key (\<lambda>x. fst (fst x)) (sort_key (\<lambda>x. snd (fst x)) (db_members db)))"

definition openStackRows :: "farm_db \<Rightarrow> capabilityRow list" where
  "openStackRows db = map (cap_row db) (sorted_rows (filter (\<lambda>c. cap_Kind c = KindOpenStack) (map snd (db_caps db))))"

definition openStackHostsOn :: "farm_env \<Rightarrow> farm_db \<Rightarrow> goerror + openStackHost list" where
  "openStackHostsOn env db =
    go_bind (go_none (te_exec env (SelectRows ''server_capabilities'') db)) (\<lambda>_.
    go_bind (go_none (te_exec env (SelectRows ''openstack_memberships'') db)) (\<lambda>_.
    Inr (foldCapabilityRows (openStackRows db) (openStackMembershipsOn db))))"

definition LocalOnlyFarms :: "farm_env \<Rightarrow> farm_db \<Rightarrow> goerror + (string, string list) gomap" where
  "LocalOnlyFarms env db = go_bind (openStackHostsOn env db) (\<lambda>hosts.
     Inr (foldl (\<lambda>m h. if oh_Farm h = [] \<or> \<not> oh_Detected h then m
       else AList.update (oh_Farm h) (slice_of m (oh_Farm h) @ [oh_Hostname h]) m) [] hosts))"

section \<open>Deployments and memberships\<close>

definition blank_deployment :: "string \<Rightarrow> deployment" where
  "blank_deployment i = \<lparr>dp_ID = i, dp_DisplayName = [], dp_Region = [], dp_KeystoneURL = [], dp_HorizonURL = [], dp_KeystoneCAPEM = [],
     dp_KeystoneVerifyURL = [], dp_State = ''active'', dp_StateNote = [], dp_StateChangedAt = None\<rparr>"

definition deployment_row :: "farm_db \<Rightarrow> string \<Rightarrow> deployment" where
  "deployment_row db i = (case map_of (db_deployments db) i of None \<Rightarrow> blank_deployment i | Some d \<Rightarrow> d)"

definition known_deployment :: "string \<Rightarrow> farm_db \<Rightarrow> bool" where
  "known_deployment i db \<longleftrightarrow> map_of (db_deployments db) i \<noteq> None"

text \<open>An upsert of one row: the row inserted when there is none, changed when there is one.\<close>

definition put_deployment :: "string \<Rightarrow> (deployment \<Rightarrow> deployment) \<Rightarrow> farm_db \<Rightarrow> farm_db" where
  "put_deployment i f db = db \<lparr>db_deployments := AList.update i (f (deployment_row db i)) (db_deployments db)\<rparr>"

definition keep_empty :: "string \<Rightarrow> string \<Rightarrow> string" where
  "keep_empty new old = (if new = [] then old else new)"

definition upsert_deployment :: "decision \<Rightarrow> farm_db \<Rightarrow> farm_db" where
  "upsert_deployment d = put_deployment (de_DeploymentID d) (\<lambda>r. r \<lparr>dp_DisplayName := keep_empty (de_DisplayName d) (dp_DisplayName r),
     dp_Region := keep_empty (de_Region d) (dp_Region r), dp_KeystoneURL := keep_empty (de_KeystoneURL d) (dp_KeystoneURL r)\<rparr>)"

definition touch_member :: "string \<Rightarrow> string \<Rightarrow> gotime \<Rightarrow> farm_db \<Rightarrow> farm_db" where
  "touch_member host dep tm db = (case map_of (db_members db) (host, dep) of
     None \<Rightarrow> db
   | Some r \<Rightarrow> db \<lparr>db_members := AList.update (host, dep) (r \<lparr>mr_ObservedAt := tm\<rparr>) (db_members db)\<rparr>)"

definition upsert_member :: "string \<Rightarrow> string \<Rightarrow> string \<Rightarrow> (string, evidence) gomap \<Rightarrow> gotime \<Rightarrow> farm_db \<Rightarrow> farm_db" where
  "upsert_member host dep confidence ev tm db = (if \<not> registered db host then db
     else db \<lparr>db_members := AList.update (host, dep) \<lparr>mr_Confidence = confidence, mr_Evidence = ev, mr_ObservedAt = tm\<rparr> (db_members db)\<rparr>)"

definition sweep_members :: "string \<Rightarrow> gotime \<Rightarrow> farm_db \<Rightarrow> farm_db" where
  "sweep_members dep tm db = db \<lparr>db_members := filter (\<lambda>(k, r). \<not> (snd k = dep \<and> mr_ObservedAt r < tm)) (db_members db)\<rparr>"

definition apply_host :: "farm_env \<Rightarrow> string \<Rightarrow> gotime \<Rightarrow> hostDecision \<Rightarrow> farm_db \<Rightarrow> goerror + farm_db" where
  "apply_host env dep tm h = (if Membership.Holds h then tx_stmt env (TouchMember (hd_Hostname h)) (touch_member (hd_Hostname h) dep tm)
     else tx_stmt env (UpsertMember (hd_Hostname h)) (upsert_member (hd_Hostname h) dep (hd_Confidence h) (hd_Evidence h) tm))"

definition ApplyMembership :: "farm_env \<Rightarrow> gotime \<Rightarrow> decision \<Rightarrow> farm_db \<Rightarrow> farm_db \<times> (goerror + unit)" where
  "ApplyMembership env now d db = (let tm = (if time_is_zero (de_At d) then now else de_At d) in in_tx env (\<lambda>db.
     go_bind (tx_stmt env (UpsertDeployment (de_DeploymentID d)) (upsert_deployment d) db) (\<lambda>db.
     go_bind (tx_each (apply_host env (de_DeploymentID d) tm) (de_Hosts d) db) (\<lambda>db.
     go_bind (if de_SweepStale d then tx_stmt env SweepMembers (sweep_members (de_DeploymentID d) tm) db else Inr db) (\<lambda>db.
     Inr (db, ()))))) db)"

definition SetDeploymentState :: "farm_env \<Rightarrow> gotime \<Rightarrow> string \<Rightarrow> string \<Rightarrow> string \<Rightarrow> farm_db \<Rightarrow> farm_db \<times> (goerror + unit)" where
  "SetDeploymentState env now i state note_text db =
    (if \<not> ValidState state then (db, Inl (Plain (state @ '' is not a state; use one of '' @ join_with '', '' HostStates)))
     else pool_Exec env (UpsertDeployment i) (\<lambda>db. put_deployment i (\<lambda>r. r \<lparr>dp_State := state, dp_StateNote := note_text,
       dp_StateChangedAt := (if known_deployment i db \<and> dp_State r = state then dp_StateChangedAt r else Some now)\<rparr>) db) db)"

definition SetDeploymentName :: "farm_env \<Rightarrow> string \<Rightarrow> string \<Rightarrow> string option \<Rightarrow> farm_db \<Rightarrow> farm_db \<times> (goerror + unit)" where
  "SetDeploymentName env i name region = pool_Exec env (UpsertDeployment i) (put_deployment i (\<lambda>r. r \<lparr>dp_DisplayName := name,
     dp_Region := (case region of None \<Rightarrow> dp_Region r | Some x \<Rightarrow> x)\<rparr>))"

definition SetDeploymentHorizonURL :: "farm_env \<Rightarrow> string \<Rightarrow> string \<Rightarrow> farm_db \<Rightarrow> farm_db \<times> (goerror + unit)" where
  "SetDeploymentHorizonURL env i url = pool_Exec env (UpsertDeployment i) (put_deployment i (\<lambda>r. r \<lparr>dp_HorizonURL := url\<rparr>))"

definition clear_or_put :: "string \<Rightarrow> string \<Rightarrow> (deployment \<Rightarrow> deployment) \<Rightarrow> farm_db \<Rightarrow> farm_db" where
  "clear_or_put i v f db = (if v = [] \<and> \<not> known_deployment i db then db else put_deployment i f db)"

definition SetDeploymentKeystoneCA :: "farm_env \<Rightarrow> string \<Rightarrow> string \<Rightarrow> farm_db \<Rightarrow> farm_db \<times> (goerror + unit)" where
  "SetDeploymentKeystoneCA env i pem = pool_Exec env (UpsertDeployment i) (clear_or_put i pem (\<lambda>r. r \<lparr>dp_KeystoneCAPEM := pem\<rparr>))"

definition SetDeploymentKeystoneVerifyURL :: "farm_env \<Rightarrow> string \<Rightarrow> string \<Rightarrow> farm_db \<Rightarrow> farm_db \<times> (goerror + unit)" where
  "SetDeploymentKeystoneVerifyURL env i url = pool_Exec env (UpsertDeployment i) (clear_or_put i url (\<lambda>r. r \<lparr>dp_KeystoneVerifyURL := url\<rparr>))"

definition deploymentsOn :: "farm_env \<Rightarrow> farm_db \<Rightarrow> goerror + deployment list" where
  "deploymentsOn env db = go_bind (go_none (te_exec env (SelectRows ''openstack_deployments'') db)) (\<lambda>_.
     Inr (map snd (sort_key fst (db_deployments db))))"

section \<open>Runs and ghosts\<close>

definition run_row :: "farm_db \<Rightarrow> string \<Rightarrow> reconcileRun" where
  "run_row db i = (case map_of (db_runs db) i of
     None \<Rightarrow> \<lparr>rr_DeploymentID = i, rr_StartedAt = 0, rr_SucceededAt = None, rr_Complete = False, rr_LastError = [], rr_Confirmed = 0,
       rr_LocalOnly = 0, rr_ControlOnly = 0, rr_Held = 0, rr_Ambiguous = 0\<rparr>
   | Some r \<Rightarrow> r)"

definition failed_run :: "string \<Rightarrow> gotime \<Rightarrow> string \<Rightarrow> farm_db \<Rightarrow> farm_db" where
  "failed_run i tm msg db = db \<lparr>db_runs := AList.update i ((run_row db i) \<lparr>rr_StartedAt := tm, rr_Complete := False, rr_LastError := msg\<rparr>) (db_runs db)\<rparr>"

definition finished_run :: "string \<Rightarrow> gotime \<Rightarrow> outcome \<Rightarrow> farm_db \<Rightarrow> farm_db" where
  "finished_run i tm res db = db \<lparr>db_runs := AList.update i \<lparr>rr_DeploymentID = i, rr_StartedAt = tm, rr_SucceededAt = Some tm,
     rr_Complete = oc_Complete res, rr_LastError = [], rr_Confirmed = length (oc_Confirmed res), rr_LocalOnly = length (oc_LocalOnly res),
     rr_ControlOnly = length (oc_ControlOnly res), rr_Held = length (oc_Held res), rr_Ambiguous = length (oc_Ambiguous res)\<rparr> (db_runs db)\<rparr>"

definition RecordReconcileRun ::
  "farm_env \<Rightarrow> gotime \<Rightarrow> string \<Rightarrow> outcome \<Rightarrow> gotime \<Rightarrow> string option \<Rightarrow> farm_db \<Rightarrow> farm_db \<times> (goerror + unit)" where
  "RecordReconcileRun env now i res tm runErr = (let tm = (if time_is_zero tm then now else tm) in
     pool_insert env UpsertRun (known_deployment i) (case runErr of Some msg \<Rightarrow> failed_run i tm msg | None \<Rightarrow> finished_run i tm res))"

definition upsert_ghost :: "string \<Rightarrow> gotime \<Rightarrow> string \<Rightarrow> farm_db \<Rightarrow> farm_db" where
  "upsert_ghost dep tm n db = db \<lparr>db_ghosts := AList.update (dep, n) (case map_of (db_ghosts db) (dep, n) of
     None \<Rightarrow> \<lparr>gh_DeploymentID = dep, gh_NovaHostname = n, gh_FirstSeenAt = tm, gh_LastSeenAt = tm\<rparr>
   | Some g \<Rightarrow> g \<lparr>gh_LastSeenAt := tm\<rparr>) (db_ghosts db)\<rparr>"

definition RecordGhostHosts :: "farm_env \<Rightarrow> gotime \<Rightarrow> string \<Rightarrow> string list \<Rightarrow> gotime \<Rightarrow> farm_db \<Rightarrow> farm_db \<times> (goerror + unit)" where
  "RecordGhostHosts env now dep ns tm = (let tm = (if time_is_zero tm then now else tm) in in_tx env (\<lambda>db.
     go_bind (tx_each (\<lambda>n db. if n = [] then Inr db else tx_insert env (UpsertGhost n) (known_deployment dep) (upsert_ghost dep tm n) db) ns db) (\<lambda>db.
     go_bind (tx_stmt env DeleteGhosts (\<lambda>db. db \<lparr>db_ghosts := filter (\<lambda>(k, g). \<not> (fst k = dep \<and> gh_LastSeenAt g < tm)) (db_ghosts db)\<rparr>) db) (\<lambda>db.
     Inr (db, ())))))"

definition ghostHostsOn :: "farm_env \<Rightarrow> string \<Rightarrow> farm_db \<Rightarrow> goerror + ghostHost list" where
  "ghostHostsOn env dep db = go_bind (go_none (te_exec env (SelectRows ''openstack_ghost_hosts'') db)) (\<lambda>_.
     Inr (map snd (sort_key (\<lambda>x. fst (fst x)) (sort_key (\<lambda>x. snd (fst x)) (filter (\<lambda>(k, g). dep = [] \<or> fst k = dep) (db_ghosts db))))))"

definition reconcileRunsOn :: "farm_env \<Rightarrow> farm_db \<Rightarrow> goerror + (string, reconcileRun) gomap" where
  "reconcileRunsOn env db = go_bind (go_none (te_exec env (SelectRows ''openstack_reconcile_runs'') db)) (\<lambda>_.
     Inr (foldl (\<lambda>m r. AList.update (rr_DeploymentID r) r m) [] (map snd (db_runs db))))"

section \<open>Concurrent probe passes\<close>

record pass_tx =
  pt_host :: string
  pt_kind :: string
  pt_caps :: "capability list"
  pt_pass :: int
  pt_time :: gotime

record cap_state =
  cs_db :: farm_db
  cs_open :: "(nat, pass_tx) gomap"
  cs_log :: "pass_tx list"

definition commit_pass :: "pass_tx \<Rightarrow> farm_db \<Rightarrow> farm_db" where
  "commit_pass t db = foldl (\<lambda>db c. upsert_cap (pt_host t) (pt_kind t) (pt_pass t) (pt_time t) c db) db (pt_caps t)"

definition drawn :: "farm_db \<Rightarrow> string \<Rightarrow> string \<Rightarrow> capability list \<Rightarrow> gotime \<Rightarrow> pass_tx" where
  "drawn db host kind caps tm = \<lparr>pt_host = host, pt_kind = kind, pt_caps = caps, pt_pass = db_pass_seq db + 1, pt_time = tm\<rparr>"

definition next_pass :: "farm_db \<Rightarrow> farm_db" where
  "next_pass db = db \<lparr>db_pass_seq := db_pass_seq db + 1\<rparr>"

inductive cap_step :: "cap_state \<Rightarrow> cap_state \<Rightarrow> bool" where
  draw: "registered (cs_db s) host \<Longrightarrow> caps \<noteq> [] \<Longrightarrow> map_of (cs_open s) i = None \<Longrightarrow>
    cap_step s (s \<lparr>cs_db := next_pass (cs_db s), cs_open := AList.update i (drawn (cs_db s) host kind caps tm) (cs_open s)\<rparr>)"
| commit: "map_of (cs_open s) i = Some t \<Longrightarrow>
    cap_step s (s \<lparr>cs_db := commit_pass t (cs_db s), cs_open := AList.delete i (cs_open s), cs_log := cs_log s @ [t]\<rparr>)"
| abort: "map_of (cs_open s) i = Some t \<Longrightarrow> cap_step s (s \<lparr>cs_open := AList.delete i (cs_open s)\<rparr>)"
| failed: "has_caps host kind (cs_db s) \<Longrightarrow> cap_step s (s \<lparr>cs_db := set_cap_errors host kind message tm (cs_db s)\<rparr>)"
| failed_first: "\<not> has_caps host kind (cs_db s) \<Longrightarrow> cap_step s (s \<lparr>cs_db := insert_cap_error host kind message tm (cs_db s)\<rparr>)"

definition cap_start :: "farm_db \<Rightarrow> bool" where
  "cap_start db \<longleftrightarrow> gomap_wf (db_caps db) \<and> 0 \<le> db_pass_seq db \<and>
     (\<forall>h k r c. map_of (db_caps db) (h, k, r) = Some c \<longrightarrow> cap_Hostname c = h \<and> cap_Kind c = k \<and> cap_Role c = r \<and> cap_PassID c \<le> db_pass_seq db)"

inductive cap_reach :: "farm_db \<Rightarrow> cap_state \<Rightarrow> bool" for db where
  start: "cap_start db \<Longrightarrow> cap_reach db \<lparr>cs_db = db, cs_open = [], cs_log = []\<rparr>"
| step: "cap_reach db s \<Longrightarrow> cap_step s s' \<Longrightarrow> cap_reach db s'"

text \<open>The passes of one host that have committed, in the order of their commits.\<close>

definition passes :: "string \<Rightarrow> string \<Rightarrow> pass_tx list \<Rightarrow> pass_tx list" where
  "passes host kind lg = filter (\<lambda>t. pt_host t = host \<and> pt_kind t = kind) lg"

definition wrote :: "pass_tx \<Rightarrow> capability \<Rightarrow> bool" where
  "wrote t c \<longleftrightarrow> (\<exists>x \<in> set (pt_caps t). cap_Role x = cap_Role c \<and> cap_Detected x = cap_Detected c \<and> cap_Active x = cap_Active c \<and>
     cap_Components x = cap_Components c \<and> cap_Details x = cap_Details c) \<and> cap_PassID c = pt_pass t \<and> cap_ObservedAt c = pt_time t"

definition row_ok :: "int \<Rightarrow> pass_tx list \<Rightarrow> string \<times> string \<times> string \<Rightarrow> capability \<Rightarrow> bool" where
  "row_ok b lg k c \<longleftrightarrow> (cap_Hostname c, cap_Kind c, cap_Role c) = k \<and>
     (cap_PassID c \<le> b \<or> (\<exists>t \<in> set (passes (cap_Hostname c) (cap_Kind c) lg). wrote t c))"

definition last_written :: "farm_db \<Rightarrow> pass_tx list \<Rightarrow> bool" where
  "last_written db lg \<longleftrightarrow> (\<forall>host kind. passes host kind lg \<noteq> [] \<longrightarrow> (\<forall>x \<in> set (pt_caps (last (passes host kind lg))).
     \<exists>c. map_of (db_caps db) (host, kind, cap_Role x) = Some c \<and> cap_PassID c = pt_pass (last (passes host kind lg))))"

definition rows_inv :: "int \<Rightarrow> farm_db \<Rightarrow> pass_tx list \<Rightarrow> bool" where
  "rows_inv b db lg \<longleftrightarrow> gomap_wf (db_caps db) \<and> (\<forall>k c. map_of (db_caps db) k = Some c \<longrightarrow> row_ok b lg k c) \<and> last_written db lg"

definition tx_ok :: "int \<Rightarrow> int \<Rightarrow> pass_tx \<Rightarrow> bool" where
  "tx_ok b seq t \<longleftrightarrow> b < pt_pass t \<and> pt_pass t \<le> seq \<and> pt_caps t \<noteq> []"

definition tx_inv :: "int \<Rightarrow> int \<Rightarrow> (nat, pass_tx) gomap \<Rightarrow> pass_tx list \<Rightarrow> bool" where
  "tx_inv b seq opens lg \<longleftrightarrow> b \<le> seq \<and> (\<forall>t \<in> set lg. tx_ok b seq t) \<and> distinct (map pt_pass lg) \<and>
     (\<forall>i t. map_of opens i = Some t \<longrightarrow> tx_ok b seq t \<and> pt_pass t \<notin> pt_pass ` set lg \<and>
       (\<forall>j u. map_of opens j = Some u \<longrightarrow> pt_pass t = pt_pass u \<longrightarrow> i = j))"

definition cap_inv :: "int \<Rightarrow> cap_state \<Rightarrow> bool" where
  "cap_inv b s \<longleftrightarrow> 0 \<le> b \<and> rows_inv b (cs_db s) (cs_log s) \<and> tx_inv b (db_pass_seq (cs_db s)) (cs_open s) (cs_log s)"

lemma commit_pass_seq [simp]: "db_pass_seq (commit_pass t db) = db_pass_seq db"
proof -
  have "db_pass_seq (foldl (\<lambda>db c. upsert_cap h k p tm c db) db cs) = db_pass_seq db" for h k p tm cs db
    by (induction cs arbitrary: db) (simp_all add: upsert_cap_def)
  then show ?thesis by (simp add: commit_pass_def)
qed

lemma foldl_upsert_caps:
  "map_of (db_caps (foldl (\<lambda>db c. upsert_cap h k p tm c db) db cs)) key =
     (if \<exists>c \<in> set cs. key = (h, k, cap_Role c) then Some (pass_row h k p tm (last (filter (\<lambda>c. key = (h, k, cap_Role c)) cs)))
      else map_of (db_caps db) key)"
  by (induction cs rule: rev_induct) (auto simp: upsert_cap_def)

lemma commit_pass_caps:
  "map_of (db_caps (commit_pass t db)) key =
     (if \<exists>c \<in> set (pt_caps t). key = (pt_host t, pt_kind t, cap_Role c)
      then Some (pass_row (pt_host t) (pt_kind t) (pt_pass t) (pt_time t) (last (filter (\<lambda>c. key = (pt_host t, pt_kind t, cap_Role c)) (pt_caps t))))
      else map_of (db_caps db) key)"
  by (simp add: commit_pass_def foldl_upsert_caps)

lemma commit_pass_wf: "gomap_wf (db_caps db) \<Longrightarrow> gomap_wf (db_caps (commit_pass t db))"
proof -
  have "gomap_wf (db_caps db) \<Longrightarrow> gomap_wf (db_caps (foldl (\<lambda>db c. upsert_cap h k p tm c db) db cs))" for h k p tm cs
    by (induction cs arbitrary: db) (simp_all add: upsert_cap_def)
  then show "gomap_wf (db_caps db) \<Longrightarrow> gomap_wf (db_caps (commit_pass t db))" by (simp add: commit_pass_def)
qed

lemma commit_row_written:
  assumes "\<exists>c \<in> set (pt_caps t). key = (pt_host t, pt_kind t, cap_Role c)" "map_of (db_caps (commit_pass t db)) key = Some c"
  shows "wrote t c" "(cap_Hostname c, cap_Kind c, cap_Role c) = key" "cap_Hostname c = pt_host t" "cap_Kind c = pt_kind t"
proof -
  let ?x = "last (filter (\<lambda>c. key = (pt_host t, pt_kind t, cap_Role c)) (pt_caps t))"
  have "filter (\<lambda>c. key = (pt_host t, pt_kind t, cap_Role c)) (pt_caps t) \<noteq> []" using assms(1) by (auto simp: filter_empty_conv)
  then have x: "?x \<in> set (pt_caps t)" "key = (pt_host t, pt_kind t, cap_Role ?x)" using last_in_set by fastforce+
  have c: "c = pass_row (pt_host t) (pt_kind t) (pt_pass t) (pt_time t) ?x" using assms by (simp add: commit_pass_caps)
  show "wrote t c" using x(1) unfolding wrote_def c by (auto simp: pass_row_def)
  show "(cap_Hostname c, cap_Kind c, cap_Role c) = key" "cap_Hostname c = pt_host t" "cap_Kind c = pt_kind t"
    using x(2) by (simp_all add: c pass_row_def)
qed

lemma passes_snoc: "passes host kind (lg @ [t]) = passes host kind lg @ (if pt_host t = host \<and> pt_kind t = kind then [t] else [])"
  by (simp add: passes_def)

lemma row_ok_grow: "row_ok b lg k c \<Longrightarrow> row_ok b (lg @ [t]) k c"
  by (auto simp: row_ok_def passes_snoc)

lemma last_written_commit:
  assumes "last_written db lg" "\<forall>k c. map_of (db_caps db) k = Some c \<longrightarrow> row_ok b lg k c"
  shows "last_written (commit_pass t db) (lg @ [t])"
  unfolding last_written_def
proof (intro allI impI ballI)
  fix host kind x
  assume ne: "passes host kind (lg @ [t]) \<noteq> []" and x: "x \<in> set (pt_caps (last (passes host kind (lg @ [t]))))"
  show "\<exists>c. map_of (db_caps (commit_pass t db)) (host, kind, cap_Role x) = Some c \<and> cap_PassID c = pt_pass (last (passes host kind (lg @ [t])))"
  proof (cases "pt_host t = host \<and> pt_kind t = kind")
    case True
    with x have "\<exists>c \<in> set (pt_caps t). (host, kind, cap_Role x) = (pt_host t, pt_kind t, cap_Role c)" by (auto simp: passes_snoc)
    moreover then obtain c where "map_of (db_caps (commit_pass t db)) (host, kind, cap_Role x) = Some c" by (simp add: commit_pass_caps)
    ultimately show ?thesis using commit_row_written(1) True by (fastforce simp: passes_snoc wrote_def)
  next
    case False
    with ne x assms(1) have "\<exists>c. map_of (db_caps db) (host, kind, cap_Role x) = Some c \<and> cap_PassID c = pt_pass (last (passes host kind lg))"
      by (auto simp: passes_snoc last_written_def)
    moreover from False have "passes host kind (lg @ [t]) = passes host kind lg" by (simp add: passes_snoc)
    ultimately show ?thesis using False by (auto simp: commit_pass_caps)
  qed
qed

text \<open>A failed probe touches only error texts and update times, or adds the placeholder of a host without rows.\<close>

lemma set_cap_errors_row:
  "map_of (db_caps (set_cap_errors host kind message tm db)) key =
     map_option (\<lambda>c. if fst key = host \<and> fst (snd key) = kind then c \<lparr>cap_LastError := message, cap_UpdatedAt := tm\<rparr> else c) (map_of (db_caps db) key)"
proof -
  have "map_of (map (\<lambda>(k, c). (k, f k c)) m) key = map_option (f key) (map_of m key)" for f :: "string \<times> string \<times> string \<Rightarrow> capability \<Rightarrow> capability" and m
    by (induction m) auto
  then show ?thesis by (simp add: set_cap_errors_def)
qed

lemma set_cap_errors_wf [simp]: "gomap_wf (db_caps (set_cap_errors host kind message tm db)) \<longleftrightarrow> gomap_wf (db_caps db)"
  "db_pass_seq (set_cap_errors host kind message tm db) = db_pass_seq db"
  by (simp_all add: set_cap_errors_def gomap_wf_def comp_def case_prod_beta)

lemma no_caps_row: "\<not> has_caps host kind db \<Longrightarrow> map_of (db_caps db) (host, kind, r) = None"
  by (metis fst_conv has_caps_def map_of_eq_None_iff snd_conv)

lemma insert_cap_error_row:
  assumes "\<not> has_caps host kind db"
  shows "map_of (db_caps (insert_cap_error host kind message tm db)) key =
     (if registered db host \<and> key = (host, kind, RoleUnknown) then Some (cap_error_row host kind message tm) else map_of (db_caps db) key)"
  using no_caps_row [OF assms] by (simp add: insert_cap_error_def)

lemma insert_cap_error_wf [simp]: "gomap_wf (db_caps db) \<Longrightarrow> gomap_wf (db_caps (insert_cap_error host kind message tm db))"
  "db_pass_seq (insert_cap_error host kind message tm db) = db_pass_seq db"
  by (auto simp: insert_cap_error_def split: option.splits)

lemma rows_inv_commit:
  assumes inv: "rows_inv b db lg"
  shows "rows_inv b (commit_pass t db) (lg @ [t])"
proof -
  have old: "\<forall>k c. map_of (db_caps db) k = Some c \<longrightarrow> row_ok b lg k c" "last_written db lg" "gomap_wf (db_caps db)"
    using inv unfolding rows_inv_def by blast+
  have "row_ok b (lg @ [t]) k c" if c: "map_of (db_caps (commit_pass t db)) k = Some c" for k c
  proof (cases "\<exists>c \<in> set (pt_caps t). k = (pt_host t, pt_kind t, cap_Role c)")
    case True
    note w = commit_row_written [OF True c]
    then show ?thesis by (simp add: row_ok_def passes_snoc)
  next
    case False
    then have "map_of (db_caps db) k = Some c" using c by (simp add: commit_pass_caps)
    then show ?thesis using old(1) row_ok_grow by blast
  qed
  with last_written_commit [OF old(2,1)] commit_pass_wf [OF old(3)] show ?thesis unfolding rows_inv_def by blast
qed

lemma tx_inv_commit:
  assumes inv: "tx_inv b seq opens lg" and t: "map_of opens i = Some t"
  shows "tx_inv b seq (AList.delete i opens) (lg @ [t])"
proof -
  have "tx_ok b seq t" "pt_pass t \<notin> pt_pass ` set lg" "\<And>j u. map_of opens j = Some u \<Longrightarrow> pt_pass u = pt_pass t \<Longrightarrow> j = i"
    using inv t unfolding tx_inv_def by metis+
  with inv show ?thesis unfolding tx_inv_def by (auto split: if_splits)
qed

lemma tx_inv_abort: "tx_inv b seq opens lg \<Longrightarrow> tx_inv b seq (AList.delete i opens) lg"
  by (auto simp: tx_inv_def split: if_splits)

lemma tx_inv_draw:
  assumes inv: "tx_inv b seq opens lg" and t: "pt_pass t = seq + 1" "pt_caps t \<noteq> []"
  shows "tx_inv b (seq + 1) (AList.update i t opens) lg"
proof -
  have "tx_ok b seq u \<Longrightarrow> tx_ok b (seq + 1) u \<and> pt_pass u \<noteq> pt_pass t" for u by (auto simp: tx_ok_def t)
  moreover have "tx_ok b (seq + 1) t" "b \<le> seq" using inv t by (auto simp: tx_ok_def tx_inv_def)
  ultimately show ?thesis using inv unfolding tx_inv_def by (auto split: if_splits) metis+
qed

lemma rows_inv_error:
  assumes inv: "rows_inv b db lg"
  shows "rows_inv b (set_cap_errors host kind message tm db) lg"
proof -
  have "row_ok b lg k (c \<lparr>cap_LastError := m, cap_UpdatedAt := n\<rparr>) = row_ok b lg k c" for k c m n by (simp add: row_ok_def wrote_def)
  then have "\<forall>k c. map_of (db_caps (set_cap_errors host kind message tm db)) k = Some c \<longrightarrow> row_ok b lg k c"
    using inv by (auto simp: set_cap_errors_row rows_inv_def)
  moreover have "last_written (set_cap_errors host kind message tm db) lg"
    unfolding last_written_def
  proof (intro allI impI ballI)
    fix h k x
    assume "passes h k lg \<noteq> []" "x \<in> set (pt_caps (last (passes h k lg)))"
    with inv obtain c where "map_of (db_caps db) (h, k, cap_Role x) = Some c" "cap_PassID c = pt_pass (last (passes h k lg))"
      unfolding rows_inv_def last_written_def by blast
    then show "\<exists>c. map_of (db_caps (set_cap_errors host kind message tm db)) (h, k, cap_Role x) = Some c \<and>
        cap_PassID c = pt_pass (last (passes h k lg))" by (simp add: set_cap_errors_row)
  qed
  ultimately show ?thesis using inv by (simp add: rows_inv_def)
qed

lemma rows_inv_first_error:
  assumes inv: "rows_inv b db lg" and n: "\<not> has_caps host kind db" and b: "0 \<le> b" and ne: "\<forall>t \<in> set lg. pt_caps t \<noteq> []"
  shows "rows_inv b (insert_cap_error host kind message tm db) lg"
proof -
  have "\<forall>k c. map_of (db_caps (insert_cap_error host kind message tm db)) k = Some c \<longrightarrow> row_ok b lg k c"
    using inv b by (auto simp: insert_cap_error_row [OF n] rows_inv_def row_ok_def cap_error_row_def split: if_splits)
  moreover have "passes host kind lg = []"
  proof (rule ccontr)
    let ?t = "last (passes host kind lg)"
    assume p: "passes host kind lg \<noteq> []"
    then have "?t \<in> set lg" using last_in_set [OF p] by (auto simp: passes_def)
    then obtain x where "x \<in> set (pt_caps ?t)" using ne by (metis list.set_intros(1) neq_Nil_conv)
    with inv p have "map_of (db_caps db) (host, kind, cap_Role x) \<noteq> None" unfolding rows_inv_def last_written_def by blast
    with no_caps_row [OF n] show False by simp
  qed
  then have "last_written (insert_cap_error host kind message tm db) lg"
    using inv unfolding last_written_def rows_inv_def insert_cap_error_row [OF n] by auto
  ultimately show ?thesis using inv by (simp add: rows_inv_def)
qed

lemma cap_reach_inv: "cap_reach db s \<Longrightarrow> cap_inv (db_pass_seq db) s"
proof (induction rule: cap_reach.induct)
  case start
  then show ?case by (auto simp: cap_inv_def rows_inv_def tx_inv_def cap_start_def row_ok_def last_written_def passes_def)
next
  case (step s s')
  have i: "0 \<le> db_pass_seq db" "rows_inv (db_pass_seq db) (cs_db s) (cs_log s)"
    "tx_inv (db_pass_seq db) (db_pass_seq (cs_db s)) (cs_open s) (cs_log s)"
    using step.IH by (simp_all add: cap_inv_def)
  from step.hyps(2) show ?case
  proof (cases rule: cap_step.cases)
    case (draw host caps i kind tm)
    have "rows_inv b (next_pass d) lg = rows_inv b d lg" for b d lg by (simp add: rows_inv_def last_written_def next_pass_def)
    with draw i tx_inv_draw [OF i(3), of "drawn (cs_db s) host kind caps tm"] show ?thesis
      by (simp add: cap_inv_def drawn_def) (simp add: next_pass_def)
  next
    case (failed_first host kind message tm)
    moreover have "\<forall>t \<in> set (cs_log s). pt_caps t \<noteq> []" using i(3) by (simp add: tx_inv_def tx_ok_def)
    ultimately show ?thesis using i by (simp add: cap_inv_def rows_inv_first_error)
  qed (use i in \<open>simp_all add: cap_inv_def rows_inv_commit tx_inv_commit tx_inv_abort rows_inv_error\<close>)
qed

section \<open>What a pass leaves in the listing\<close>

lemma cap_row_fields [simp]:
  "cap_Hostname (cap_row db c) = cap_Hostname c" "cap_Role (cap_row db c) = cap_Role c" "cap_Detected (cap_row db c) = cap_Detected c"
  "cap_Active (cap_row db c) = cap_Active c" "cap_PassID (cap_row db c) = cap_PassID c" "cap_ObservedAt (cap_row db c) = cap_ObservedAt c"
  "cap_LastError (cap_row db c) = cap_LastError c" "cap_Details (cap_row db c) = cap_Details c"
  by (simp_all add: cap_row_def capability.extend_def capabilityRow.fields_def split: option.splits)

text \<open>The rows of one host, as stored.\<close>

definition stored :: "farm_db \<Rightarrow> string \<Rightarrow> capability set" where
  "stored db host = {c. \<exists>r. map_of (db_caps db) (host, KindOpenStack, r) = Some c}"

lemma stored_host_rows:
  assumes "rows_inv b db lg"
  shows "set (host_rows (openStackRows db) host) = cap_row db ` stored db host"
proof -
  have wf: "gomap_wf (db_caps db)" and ok: "map_of (db_caps db) k = Some c \<Longrightarrow> (cap_Hostname c, cap_Kind c, cap_Role c) = k" for k c
    using assms unfolding rows_inv_def row_ok_def by blast+
  have "c \<in> snd ` set (db_caps db) \<and> cap_Kind c = KindOpenStack \<and> cap_Hostname c = host \<longleftrightarrow> c \<in> stored db host" for c
  proof
    assume "c \<in> snd ` set (db_caps db) \<and> cap_Kind c = KindOpenStack \<and> cap_Hostname c = host"
    then obtain k where "map_of (db_caps db) k = Some c" "cap_Kind c = KindOpenStack" "cap_Hostname c = host" using gomap_mem_iff [OF wf] by force
    with ok show "c \<in> stored db host" by (fastforce simp: stored_def)
  next
    assume "c \<in> stored db host"
    then obtain r where "map_of (db_caps db) (host, KindOpenStack, r) = Some c" by (auto simp: stored_def)
    with ok [OF this] map_of_SomeD show "c \<in> snd ` set (db_caps db) \<and> cap_Kind c = KindOpenStack \<and> cap_Hostname c = host" by force
  qed
  then have "{c \<in> snd ` set (db_caps db). cap_Kind c = KindOpenStack \<and> cap_Hostname c = host} = stored db host" by blast
  from this [symmetric] show ?thesis by (auto simp: host_rows_def openStackRows_def sorted_rows_def)
qed

lemma sorted_map_last: "sorted (map f xs) \<Longrightarrow> x \<in> set xs \<Longrightarrow> f x \<le> f (last xs)"
  by (induction xs rule: rev_induct) (auto simp: sorted_append)

lemma last_pass_rows:
  assumes inv: "cap_inv b s" and ne: "passes host KindOpenStack (cs_log s) \<noteq> []"
    and asc: "sorted (map pt_pass (passes host KindOpenStack (cs_log s)))"
  defines "t \<equiv> last (passes host KindOpenStack (cs_log s))"
  shows "c \<in> stored (cs_db s) host \<Longrightarrow> cap_PassID c \<le> pt_pass t"
    "c \<in> stored (cs_db s) host \<Longrightarrow> cap_PassID c = pt_pass t \<Longrightarrow> wrote t c"
    "x \<in> set (pt_caps t) \<Longrightarrow> \<exists>c \<in> stored (cs_db s) host. cap_Role c = cap_Role x \<and> cap_PassID c = pt_pass t"
    "pt_caps t \<noteq> []"
proof -
  let ?ps = "passes host KindOpenStack (cs_log s)"
  have tin: "t \<in> set ?ps" using ne by (simp add: t_def)
  then have tok: "b < pt_pass t" "pt_caps t \<noteq> []" and dist: "distinct (map pt_pass ?ps)"
    using inv by (auto simp: cap_inv_def tx_inv_def tx_ok_def passes_def distinct_map_filter)
  show "pt_caps t \<noteq> []" by (rule tok(2))
  have le: "pt_pass u \<le> pt_pass t" if "u \<in> set ?ps" for u
    using sorted_map_last [OF asc that] by (simp add: t_def)
  have inj: "u = t" if "u \<in> set ?ps" "pt_pass u = pt_pass t" for u
    using dist that tin by (simp add: distinct_map inj_on_def)
  have row: "row_ok b (cs_log s) (host, KindOpenStack, r) c" if "map_of (db_caps (cs_db s)) (host, KindOpenStack, r) = Some c" for r c
    using inv that by (simp add: cap_inv_def rows_inv_def)
  have cases: "cap_PassID c \<le> b \<or> (\<exists>u \<in> set ?ps. wrote u c)" if st: "c \<in> stored (cs_db s) host" for c
  proof -
    obtain r where "map_of (db_caps (cs_db s)) (host, KindOpenStack, r) = Some c" using st by (auto simp: stored_def)
    from row [OF this] show ?thesis by (auto simp: row_ok_def)
  qed
  show "cap_PassID c \<le> pt_pass t" if "c \<in> stored (cs_db s) host"
    using cases [OF that] tok(1) le by (auto simp: wrote_def)
  show "wrote t c" if "c \<in> stored (cs_db s) host" "cap_PassID c = pt_pass t"
    using cases [OF that(1)] that(2) tok(1) inj by (auto simp: wrote_def)
  show "\<exists>c \<in> stored (cs_db s) host. cap_Role c = cap_Role x \<and> cap_PassID c = pt_pass t" if x: "x \<in> set (pt_caps t)"
  proof -
    have "last_written (cs_db s) (cs_log s)" using inv by (simp add: cap_inv_def rows_inv_def)
    then obtain c where c: "map_of (db_caps (cs_db s)) (host, KindOpenStack, cap_Role x) = Some c" "cap_PassID c = pt_pass t"
      using ne x unfolding last_written_def t_def by blast
    with row [OF c(1)] show ?thesis by (auto simp: stored_def row_ok_def)
  qed
qed

text \<open>The stored rows carry the last pass whole: its roles, which of them run, and nothing else at its number.\<close>

lemma last_pass_stored:
  assumes inv: "cap_inv b s" and ne: "passes host KindOpenStack (cs_log s) \<noteq> []"
    and asc: "sorted (map pt_pass (passes host KindOpenStack (cs_log s)))"
    and dist: "distinct (map cap_Role (pt_caps (last (passes host KindOpenStack (cs_log s)))))"
  defines "t \<equiv> last (passes host KindOpenStack (cs_log s))" and "now \<equiv> {c \<in> stored (cs_db s) host. cap_PassID c = pt_pass (last (passes host KindOpenStack (cs_log s)))}"
  shows "cap_Role ` now = cap_Role ` set (pt_caps t)"
    "cap_Role ` {c \<in> now. cap_Active c} = cap_Role ` {x \<in> set (pt_caps t). cap_Active x}"
    "(\<exists>c \<in> now. cap_Detected c) \<longleftrightarrow> (\<exists>x \<in> set (pt_caps t). cap_Detected x)"
    "cap_Role ` (stored (cs_db s) host - now) = cap_Role ` stored (cs_db s) host - cap_Role ` set (pt_caps t)"
proof -
  note lp = last_pass_rows [OF inv ne asc, folded t_def]
  have same: "\<exists>x \<in> set (pt_caps t). cap_Role x = cap_Role c \<and> cap_Active x = cap_Active c \<and> cap_Detected x = cap_Detected c"
    if "c \<in> now" for c using lp(2) [of c] that by (auto simp: wrote_def now_def t_def)
  have uniq: "x = y" if "x \<in> set (pt_caps t)" "y \<in> set (pt_caps t)" "cap_Role x = cap_Role y" for x y
    using dist that unfolding t_def [symmetric] by (auto simp: distinct_map inj_on_def)
  have conv: "\<exists>c \<in> now. cap_Role c = cap_Role x \<and> cap_Active c = cap_Active x \<and> cap_Detected c = cap_Detected x"
    if x: "x \<in> set (pt_caps t)" for x
  proof -
    from lp(3) [OF x] obtain c where c: "c \<in> now" "cap_Role c = cap_Role x" by (auto simp: now_def t_def)
    from same [OF c(1)] uniq x c(2) show ?thesis using c by metis
  qed
  show roles: "cap_Role ` now = cap_Role ` set (pt_caps t)" using same conv by (auto simp: image_iff) metis+
  show "cap_Role ` {c \<in> now. cap_Active c} = cap_Role ` {x \<in> set (pt_caps t). cap_Active x}" using same conv by (auto simp: image_iff) metis+
  show "(\<exists>c \<in> now. cap_Detected c) \<longleftrightarrow> (\<exists>x \<in> set (pt_caps t). cap_Detected x)" using same conv by metis
  have "map_of (db_caps (cs_db s)) (host, KindOpenStack, cap_Role c) = Some c" if "c \<in> stored (cs_db s) host" for c
    using that inv by (fastforce simp: stored_def cap_inv_def rows_inv_def row_ok_def)
  then have "inj_on cap_Role (stored (cs_db s) host)" by (metis inj_onI option.inject)
  then show "cap_Role ` (stored (cs_db s) host - now) = cap_Role ` stored (cs_db s) host - cap_Role ` set (pt_caps t)"
    unfolding roles [symmetric] by (rule inj_on_image_set_diff) (auto simp: now_def)
qed

lemma last_pass_split:
  assumes inv: "cap_inv b s" and ne: "passes host KindOpenStack (cs_log s) \<noteq> []"
    and asc: "sorted (map pt_pass (passes host KindOpenStack (cs_log s)))"
  defines "rs \<equiv> host_rows (openStackRows (cs_db s)) host" and "now \<equiv> {c \<in> stored (cs_db s) host. cap_PassID c = pt_pass (last (passes host KindOpenStack (cs_log s)))}"
  shows "set (current_rows rs) = cap_row (cs_db s) ` now" "set (lagging_rows rs) = cap_row (cs_db s) ` (stored (cs_db s) host - now)"
    "now \<noteq> {}" "last_or 0 (map cap_ObservedAt (current_rows rs)) = pt_time (last (passes host KindOpenStack (cs_log s)))"
proof -
  let ?t = "last (passes host KindOpenStack (cs_log s))"
  note lp = last_pass_rows [OF inv ne asc]
  have set_rs: "set rs = cap_row (cs_db s) ` stored (cs_db s) host"
    unfolding rs_def using inv by (intro stored_host_rows [of b _ "cs_log s"]) (simp add: cap_inv_def)
  obtain x0 where "x0 \<in> set (pt_caps ?t)" using lp(4) by (cases "pt_caps ?t") auto
  from lp(3) [OF this] obtain c0 where c0: "c0 \<in> stored (cs_db s) host" "cap_PassID c0 = pt_pass ?t" by blast
  then show ne_now: "now \<noteq> {}" by (auto simp: now_def)
  have newest: "newest_pass rs = pt_pass ?t"
  proof -
    have "set (map cap_PassID rs) = cap_PassID ` stored (cs_db s) host" by (simp add: set_rs image_image)
    moreover have "finite (set (map cap_PassID rs))" by simp
    ultimately show ?thesis unfolding newest_pass_def using c0 lp(1) by (intro Max_eqI) (auto simp del: set_map intro: rev_image_eqI)
  qed
  have top: "pt_pass ?t \<le> cap_PassID c \<longleftrightarrow> cap_PassID c = pt_pass ?t" if "c \<in> stored (cs_db s) host" for c using lp(1) [OF that] by auto
  show cur: "set (current_rows rs) = cap_row (cs_db s) ` now" using top by (auto simp: current_rows_def newest set_rs now_def)
  show "set (lagging_rows rs) = cap_row (cs_db s) ` (stored (cs_db s) host - now)"
    using top by (auto simp: lagging_rows_def newest set_rs now_def)
  have "current_rows rs \<noteq> []" using cur ne_now by fastforce
  moreover from this have "last (current_rows rs) \<in> cap_row (cs_db s) ` now" using cur last_in_set by blast
  ultimately show "last_or 0 (map cap_ObservedAt (current_rows rs)) = pt_time ?t"
    using lp(2) by (auto simp: last_or_def last_map now_def wrote_def)
qed

lemma roles_of_rows:
  "set (sort (map cap_Role (filter P (real_roles rs)))) = {r \<in> cap_Role ` {x \<in> set rs. P x}. \<not> isPlaceholderRole r}"
  "set (sort (map cap_Role (real_roles rs))) = {r \<in> cap_Role ` set rs. \<not> isPlaceholderRole r}"
  "dr_Role ` set (sort_key dr_Role (map dropped_of (real_roles rs))) = {r \<in> cap_Role ` set rs. \<not> isPlaceholderRole r}"
  by (auto simp: real_roles_def dropped_of_def image_image)

lemma row_image:
  "{x \<in> cap_row db ` C. cap_Active x} = cap_row db ` {c \<in> C. cap_Active c}"
  "(\<exists>x \<in> cap_row db ` C. cap_Detected x) \<longleftrightarrow> (\<exists>c \<in> C. cap_Detected c)" "cap_Role ` cap_row db ` C = cap_Role ` C"
  by (auto simp: image_image)

definition shows_pass :: "pass_tx \<Rightarrow> string set \<Rightarrow> openStackHost \<Rightarrow> bool" where
  "shows_pass t known h \<longleftrightarrow>
     set (oh_Roles h) = {r \<in> cap_Role ` set (pt_caps t). \<not> isPlaceholderRole r} \<and>
     set (oh_ActiveRoles h) = {r \<in> cap_Role ` {x \<in> set (pt_caps t). cap_Active x}. \<not> isPlaceholderRole r} \<and>
     dr_Role ` set (oh_Dropped h) = {r \<in> known - cap_Role ` set (pt_caps t). \<not> isPlaceholderRole r} \<and>
     (oh_Detected h \<longleftrightarrow> (\<exists>x \<in> set (pt_caps t). cap_Detected x)) \<and> oh_ObservedAt h = pt_time t"

text \<open>C25: the listing shows a probe pass whole. Whatever probe passes, failures and rollbacks have run side by side, when the passes
  committed for a host did so in the order of their numbers, the host is listed with exactly the roles, active roles
  and detection of the last one, observed when it ran; every other role ever recorded for it is listed as dropped.\<close>

theorem committed_pass_is_listed:
  assumes "cap_reach db0 s" and "passes host KindOpenStack (cs_log s) \<noteq> []"
    and "sorted (map pt_pass (passes host KindOpenStack (cs_log s)))"
    and "distinct (map cap_Role (pt_caps (last (passes host KindOpenStack (cs_log s)))))"
  shows "\<exists>h \<in> set (foldCapabilityRows (openStackRows (cs_db s)) members). oh_Hostname h = host \<and>
    shows_pass (last (passes host KindOpenStack (cs_log s))) (cap_Role ` stored (cs_db s) host) h"
proof -
  let ?t = "last (passes host KindOpenStack (cs_log s))" and ?rows = "openStackRows (cs_db s)"
  have inv: "cap_inv (db_pass_seq db0) s" using assms(1) by (rule cap_reach_inv)
  note st = last_pass_stored [OF inv assms(2-4)] and sp = last_pass_split [OF inv assms(2,3)]
  have "set (current_rows (host_rows ?rows host)) \<noteq> {}" using sp(1,3) by simp
  then have host: "host \<in> cap_Hostname ` set ?rows" by (auto simp: current_rows_def host_rows_def)
  then have "host_record members ?rows host \<in> set (foldCapabilityRows ?rows members)" by (auto simp: foldCapabilityRows_closed)
  moreover have "shows_pass ?t (cap_Role ` stored (cs_db s) host) (host_record members ?rows host)"
    unfolding shows_pass_def host_record_fields sp(4) roles_of_rows sp(1,2) row_image st by simp
  ultimately show ?thesis using host_record_Hostname [OF host] by blast
qed

text \<open>One call of \<open>ReplaceCapabilities\<close> is at most a draw followed by a commit or an abort: the relation covers every run of the code,
  with any statement failing.\<close>

lemma write_pass_Inr: "write_pass env host kind pass tm caps db = Inr db' \<Longrightarrow>
    db' = commit_pass \<lparr>pt_host = host, pt_kind = kind, pt_caps = caps, pt_pass = pass, pt_time = tm\<rparr> db"
  unfolding write_pass_def commit_pass_def by (drule tx_each_Inr [rotated]) auto

lemma ReplaceCapabilities_steps:
  assumes i: "map_of (cs_open s) i = None" and r: "ReplaceCapabilities env now host kind caps (cs_db s) = (db', r)"
  shows "\<exists>s'. cap_step\<^sup>*\<^sup>* s s' \<and> cs_db s' = db' \<and> (r = Inr True \<longrightarrow> cs_log s' = cs_log s @ [drawn (cs_db s) host kind caps now]) \<and>
    (r = Inr False \<longrightarrow> db' = cs_db s)"
proof -
  let ?t = "drawn (cs_db s) host kind caps now"
  define s1 where "s1 = s \<lparr>cs_db := next_pass (cs_db s), cs_open := AList.update i ?t (cs_open s)\<rparr>"
  have open1: "map_of (cs_open s1) i = Some ?t" by (simp add: s1_def)
  consider (idle) "db' = cs_db s" "r \<noteq> Inr True"
    | (drawn) "registered (cs_db s) host" "caps \<noteq> []" "db' = next_pass (cs_db s)" "\<exists>e. r = Inl e"
    | (finished) "registered (cs_db s) host" "caps \<noteq> []" "db' = commit_pass ?t (next_pass (cs_db s))" "r \<noteq> Inr False"
    using r write_pass_Inr
    by (auto simp: ReplaceCapabilities_def Let_def tx_commit_def next_pass_def drawn_def
        split: if_splits option.splits sum.splits commit_outcome.splits)
  then show ?thesis
  proof cases
    case idle
    then show ?thesis by blast
  next
    case drawn
    have "cap_step s s1" unfolding s1_def using drawn i by (intro cap_step.draw)
    moreover have "cap_step s1 (s1 \<lparr>cs_open := AList.delete i (cs_open s1)\<rparr>)" using open1 by (rule cap_step.abort)
    ultimately have "cap_step\<^sup>*\<^sup>* s (s1 \<lparr>cs_open := AList.delete i (cs_open s1)\<rparr>)" by auto
    with drawn show ?thesis by (intro exI [of _ "s1 \<lparr>cs_open := AList.delete i (cs_open s1)\<rparr>"]) (auto simp: s1_def)
  next
    case finished
    have "cap_step s s1" unfolding s1_def using finished i by (intro cap_step.draw)
    moreover note cap_step.commit [OF open1]
    ultimately have "cap_step\<^sup>*\<^sup>* s (s1 \<lparr>cs_db := commit_pass ?t (cs_db s1), cs_open := AList.delete i (cs_open s1), cs_log := cs_log s1 @ [?t]\<rparr>)"
      by (meson converse_rtranclp_into_rtranclp r_into_rtranclp)
    with finished show ?thesis
      by (intro exI [of _ "s1 \<lparr>cs_db := commit_pass ?t (cs_db s1), cs_open := AList.delete i (cs_open s1), cs_log := cs_log s1 @ [?t]\<rparr>"])
        (auto simp: s1_def)
  qed
qed

lemma cap_reach_steps: "cap_step\<^sup>*\<^sup>* s s' \<Longrightarrow> cap_reach db s \<Longrightarrow> cap_reach db s'"
  by (induction rule: rtranclp_induct) (auto intro: cap_reach.step)

section \<open>Concrete passes\<close>

definition sample_cap :: "string \<Rightarrow> capability" where
  "sample_cap role = \<lparr>cap_Hostname = [], cap_Kind = [], cap_Role = role, cap_Detected = True, cap_Active = True, cap_Components = [], cap_Details = [],
     cap_LastError = [], cap_ObservedAt = 0, cap_PassID = 0, cap_UpdatedAt = 0\<rparr>"

definition sample_db :: farm_db where
  "sample_db = \<lparr>db_servers = [(''c1'', \<lparr>is_DC = ''dc1'', is_State = ''active'', is_IP = ''10.0.0.1''\<rparr>)], db_caps = [], db_pass_seq = 0,
     db_members = [], db_deployments = [], db_runs = [], db_ghosts = [], db_instances = [], db_addresses = []\<rparr>"

definition fine_env :: farm_env where
  "fine_env = \<lparr>te_begin = None, te_exec = (\<lambda>_ _. None), te_commit = Committed\<rparr>"

definition sample_caps :: "string list \<Rightarrow> capability list" where
  "sample_caps roles = map sample_cap roles"

lemma sample_start: "cap_reach sample_db \<lparr>cs_db = sample_db, cs_open = [], cs_log = []\<rparr>"
  by (rule cap_reach.start) (simp add: cap_start_def sample_db_def)

lemma sample_reach:
  "\<exists>s. cap_reach sample_db s \<and> cs_log s = [drawn sample_db ''c1'' KindOpenStack (sample_caps [''compute'', ''network'']) 7]"
proof -
  let ?s = "\<lparr>cs_db = sample_db, cs_open = [], cs_log = []\<rparr>"
  have "snd (ReplaceCapabilities fine_env 7 ''c1'' KindOpenStack (sample_caps [''compute'', ''network'']) (cs_db ?s)) = Inr True"
    by (simp add: ReplaceCapabilities_def sample_caps_def fine_env_def registered_def sample_db_def write_pass_def tx_stmt_def tx_commit_def go_bind_def Let_def)
  then obtain db' where "ReplaceCapabilities fine_env 7 ''c1'' KindOpenStack (sample_caps [''compute'', ''network'']) (cs_db ?s) = (db', Inr True)"
    by (metis prod.collapse)
  from ReplaceCapabilities_steps [of ?s 0, OF _ this] show ?thesis using cap_reach_steps [OF _ sample_start] by auto
qed

theorem committed_pass_is_listed_witness:
  "\<exists>s h. cap_reach sample_db s \<and> h \<in> set (foldCapabilityRows (openStackRows (cs_db s)) []) \<and> oh_Hostname h = ''c1'' \<and>
     set (oh_Roles h) = {''compute'', ''network''} \<and> oh_ObservedAt h = 7"
proof -
  obtain s where s: "cap_reach sample_db s" "cs_log s = [drawn sample_db ''c1'' KindOpenStack (sample_caps [''compute'', ''network'']) 7]"
    using sample_reach by blast
  let ?t = "drawn sample_db ''c1'' KindOpenStack (sample_caps [''compute'', ''network'']) 7"
  have p: "passes ''c1'' KindOpenStack (cs_log s) = [?t]" by (simp add: s(2) passes_def drawn_def)
  have "distinct (map cap_Role (pt_caps ?t))" by (simp add: drawn_def sample_caps_def sample_cap_def)
  then obtain h where "h \<in> set (foldCapabilityRows (openStackRows (cs_db s)) [])" "oh_Hostname h = ''c1''"
    "shows_pass ?t (cap_Role ` stored (cs_db s) ''c1'') h"
    using committed_pass_is_listed [OF s(1), of "''c1''" "[]"] p by auto
  moreover have "{r \<in> cap_Role ` set (pt_caps ?t). \<not> isPlaceholderRole r} = {''compute'', ''network''}"
    by (auto simp: drawn_def sample_caps_def sample_cap_def isPlaceholderRole_def roleNone_def RoleUnknown_def)
  ultimately show ?thesis using s(1) by (auto simp: shows_pass_def drawn_def)
qed

text \<open>Two passes of one host that overlap: the first draws number 1 and the second number 2, the second commits first. The
  later commit overwrites the role they share with its lower number, and the listing shows what neither found.\<close>

definition first_pass :: pass_tx where
  "first_pass = drawn sample_db ''c1'' KindOpenStack (sample_caps [''compute'', ''network'']) 7"

definition second_pass :: pass_tx where
  "second_pass = drawn (next_pass sample_db) ''c1'' KindOpenStack (sample_caps [''compute'', ''image'']) 8"

definition torn_db :: farm_db where
  "torn_db = commit_pass first_pass (commit_pass second_pass (next_pass (next_pass sample_db)))"

lemma torn_reach: "\<exists>s. cap_reach sample_db s \<and> cs_db s = torn_db \<and> cs_log s = [second_pass, first_pass]"
proof -
  let ?d1 = "next_pass sample_db" and ?d2 = "next_pass (next_pass sample_db)"
  have reg: "registered sample_db ''c1''" "registered ?d1 ''c1''" by (simp_all add: registered_def next_pass_def sample_db_def)
  have "cap_reach sample_db \<lparr>cs_db = ?d1, cs_open = [(1, first_pass)], cs_log = []\<rparr>"
    using cap_reach.step [OF sample_start cap_step.draw [of _ "''c1''" "sample_caps [''compute'', ''network'']" 1 KindOpenStack 7]] reg
    by (simp add: first_pass_def sample_caps_def)
  then have "cap_reach sample_db \<lparr>cs_db = ?d2, cs_open = [(1, first_pass), (2, second_pass)], cs_log = []\<rparr>"
    using cap_reach.step [OF _ cap_step.draw [of _ "''c1''" "sample_caps [''compute'', ''image'']" 2 KindOpenStack 8]] reg
    by (fastforce simp: second_pass_def sample_caps_def)
  then have "cap_reach sample_db \<lparr>cs_db = commit_pass second_pass ?d2, cs_open = [(1, first_pass)], cs_log = [second_pass]\<rparr>"
    using cap_reach.step [OF _ cap_step.commit [of _ 2 second_pass]] by fastforce
  then have "cap_reach sample_db \<lparr>cs_db = torn_db, cs_open = [], cs_log = [second_pass, first_pass]\<rparr>"
    using cap_reach.step [OF _ cap_step.commit [of _ 1 first_pass]] by (fastforce simp: torn_db_def)
  then show ?thesis by fastforce
qed

definition sample_pass_row :: "string \<Rightarrow> int \<Rightarrow> gotime \<Rightarrow> capability" where
  "sample_pass_row role pass tm = pass_row ''c1'' KindOpenStack pass tm (sample_cap role)"

lemma torn_caps: "map snd (db_caps torn_db) = [sample_pass_row ''compute'' 1 7, sample_pass_row ''image'' 2 8, sample_pass_row ''network'' 1 7]"
  by (simp add: torn_db_def commit_pass_def first_pass_def second_pass_def drawn_def sample_caps_def upsert_cap_def next_pass_def sample_db_def
      sample_cap_def sample_pass_row_def)

lemma torn_rows: "openStackRows torn_db = map (cap_row torn_db) [sample_pass_row ''compute'' 1 7, sample_pass_row ''image'' 2 8, sample_pass_row ''network'' 1 7]"
proof -
  have "''compute'' \<le> ''image''" "''image'' \<le> ''network''" "''compute'' \<le> ''network''" by code_simp+
  then show ?thesis
    by (simp add: openStackRows_def torn_caps sorted_rows_def sample_pass_row_def pass_row_def sample_cap_def)
qed

lemma overlapping_passes_tear:
  "map (\<lambda>h. (oh_Roles h, map dr_Role (oh_Dropped h))) (foldCapabilityRows (openStackRows torn_db) []) = [([''image''], [''compute'', ''network''])]"
proof -
  have "''compute'' \<le> ''network''" by code_simp
  moreover have "\<not> isPlaceholderRole ''compute''" "\<not> isPlaceholderRole ''image''" "\<not> isPlaceholderRole ''network''" by code_simp+
  ultimately show ?thesis
    by (simp add: foldCapabilityRows_closed torn_rows host_record_fields host_rows_def current_rows_def lagging_rows_def newest_pass_def real_roles_def
        dropped_of_def sample_pass_row_def pass_row_def sample_cap_def)
qed

end
