(* ===== verification/Farm_Instances.thy ===== *)
theory Farm_Instances
  imports Farm_Store
begin

text \<open>
  The VMs of a deployment (\<^verbatim>\<open>internal/store/openstack_instances.go\<close>) and the read of one farm's picture
  (\<open>FarmSnapshot\<close> of \<^verbatim>\<open>openstack_store.go\<close>). A batch is the list of its statements, each with its foreign key, its
  effect and whether it completes a VM. PostgreSQL's \<^verbatim>\<open>LIKE\<close> and \<^verbatim>\<open>ILIKE\<close> are a parameter of the search.

  The lemmas give what a listing does to every row of the table, show that an incomplete listing marks nothing missing and
  that any failure leaves the table alone or as one whole listing would, and that pruning ends, removing exactly the VMs
  that have been missing since before the cutoff.
\<close>

section \<open>Recording a listing\<close>

definition upsert_instance :: "string \<Rightarrow> gotime \<Rightarrow> vm_instance \<Rightarrow> farm_db \<Rightarrow> farm_db" where
  "upsert_instance dep tm i db = (let old = map_of (db_instances db) (dep, vm_InstanceID i) in
     db \<lparr>db_instances := AList.update (dep, vm_InstanceID i) (i \<lparr>vm_DeploymentID := dep,
       vm_ProjectName := keep_empty (vm_ProjectName i) (case old of None \<Rightarrow> [] | Some o' \<Rightarrow> vm_ProjectName o'),
       vm_ImageName := keep_empty (vm_ImageName i) (case old of None \<Rightarrow> [] | Some o' \<Rightarrow> vm_ImageName o'),
       vm_ObservedAt := tm, vm_MissingSince := None, vm_Addresses := []\<rparr>) (db_instances db)\<rparr>)"

definition delete_addresses :: "string \<Rightarrow> string \<Rightarrow> farm_db \<Rightarrow> farm_db" where
  "delete_addresses dep i db = db \<lparr>db_addresses := filter (\<lambda>(k, a). \<not> (fst k = dep \<and> fst (snd k) = i)) (db_addresses db)\<rparr>"

definition upsert_address :: "string \<Rightarrow> string \<Rightarrow> instanceAddress \<Rightarrow> farm_db \<Rightarrow> farm_db" where
  "upsert_address dep i a db = db \<lparr>db_addresses := AList.update (dep, i, ia_Address a) a (db_addresses db)\<rparr>"

type_synonym batch_entry = "farm_stmt \<times> (farm_db \<Rightarrow> bool) \<times> (farm_db \<Rightarrow> farm_db) \<times> bool"

definition mark_last :: "batch_entry list \<Rightarrow> batch_entry list" where
  "mark_last es = (if es = [] then [] else butlast es @ [(case last es of (s, k, u, _) \<Rightarrow> (s, k, u, True))])"

definition instance_entries :: "string \<Rightarrow> gotime \<Rightarrow> vm_instance \<Rightarrow> batch_entry list" where
  "instance_entries dep tm i = (if vm_InstanceID i = [] then [] else mark_last
     ([(UpsertInstance (vm_InstanceID i), known_deployment dep, upsert_instance dep tm i, False),
       (DeleteAddresses (vm_InstanceID i), \<lambda>_. True, delete_addresses dep (vm_InstanceID i), False)] @
      map (\<lambda>a. (UpsertAddress (vm_InstanceID i) (ia_Address a), \<lambda>_. True, upsert_address dep (vm_InstanceID i) a, False))
        (filter (\<lambda>a. ia_Address a \<noteq> []) (vm_Addresses i))))"

definition instanceBatch :: "string \<Rightarrow> vm_instance list \<Rightarrow> gotime \<Rightarrow> batch_entry list" where
  "instanceBatch dep ins tm = concat (map (instance_entries dep tm) ins)"

fun exec_entries :: "farm_env \<Rightarrow> batch_entry list \<Rightarrow> nat \<Rightarrow> farm_db \<Rightarrow> nat \<times> (goerror + farm_db)" where
  "exec_entries env [] seen db = (case te_exec env CloseBatch db of Some e \<Rightarrow> (seen, Inl e) | None \<Rightarrow> (seen, Inr db))"
| "exec_entries env ((s, key_ok, upd, completes) # es) seen db = (case tx_insert env s key_ok upd db of
     Inl e \<Rightarrow> (seen, Inl e)
   | Inr db' \<Rightarrow> exec_entries env es (if completes then Suc seen else seen) db')"

definition execInstanceBatch :: "farm_env \<Rightarrow> batch_entry list \<Rightarrow> farm_db \<Rightarrow> nat \<times> (goerror + farm_db)" where
  "execInstanceBatch env batch db = (if batch = [] then (0, Inr db) else exec_entries env batch 0 db)"

definition mark_missing :: "string \<Rightarrow> gotime \<Rightarrow> farm_db \<Rightarrow> farm_db" where
  "mark_missing dep tm db = db \<lparr>db_instances := map (\<lambda>(k, v). (k, if fst k = dep \<and> vm_ObservedAt v < tm \<and> vm_MissingSince v = None
     then v \<lparr>vm_MissingSince := Some tm\<rparr> else v)) (db_instances db)\<rparr>"

definition ReplaceInstances ::
  "farm_env \<Rightarrow> gotime \<Rightarrow> string \<Rightarrow> vm_instance list \<Rightarrow> gotime \<Rightarrow> bool \<Rightarrow> farm_db \<Rightarrow> farm_db \<times> nat \<times> goerror option" where
  "ReplaceInstances env now dep ins tm whole db = (let tm = (if time_is_zero tm then now else tm) in
    (case te_begin env of Some e \<Rightarrow> (db, 0, Some e)
     | None \<Rightarrow> (case execInstanceBatch env (instanceBatch dep ins tm) db of
         (seen, Inl e) \<Rightarrow> (db, seen, Some e)
       | (seen, Inr db1) \<Rightarrow> (case (if whole then tx_stmt env MarkMissing (mark_missing dep tm) db1 else Inr db1) of
           Inl e \<Rightarrow> (db, 0, Some e)
         | Inr db2 \<Rightarrow> (case te_commit env of
             Committed \<Rightarrow> (db2, seen, None)
           | CommitFailed e landed \<Rightarrow> (if landed then db2 else db, seen, Some e))))))"

section \<open>Pruning\<close>

definition expired :: "gotime \<Rightarrow> vm_instance \<Rightarrow> bool" where
  "expired before v \<longleftrightarrow> (case vm_MissingSince v of None \<Rightarrow> False | Some m \<Rightarrow> m < before)"

definition doomed :: "gotime \<Rightarrow> nat \<Rightarrow> farm_db \<Rightarrow> ((string \<times> string) \<times> vm_instance) list" where
  "doomed before sz db = take sz (sort_key (\<lambda>(k, v). the (vm_MissingSince v)) (filter (\<lambda>(k, v). expired before v) (db_instances db)))"

definition remove_instances :: "(string \<times> string) set \<Rightarrow> farm_db \<Rightarrow> farm_db" where
  "remove_instances ks db = db \<lparr>db_instances := filter (\<lambda>(k, v). k \<notin> ks) (db_instances db),
     db_addresses := filter (\<lambda>(k, a). (fst k, fst (snd k)) \<notin> ks) (db_addresses db)\<rparr>"

definition prune_step :: "gotime \<Rightarrow> nat \<Rightarrow> farm_db \<Rightarrow> farm_db" where
  "prune_step before sz db = remove_instances (fst ` set (doomed before sz db)) db"

function prune_loop :: "(nat \<Rightarrow> farm_env) \<Rightarrow> gotime \<Rightarrow> nat \<Rightarrow> nat \<Rightarrow> nat \<Rightarrow> farm_db \<Rightarrow> farm_db \<times> nat \<times> goerror option" where
  "prune_loop envs before sz n cnt db = (case pool_Exec (envs n) PruneMissing (prune_step before (Suc sz)) db of
     (db1, Inl e) \<Rightarrow> (db1, cnt, Some e)
   | (db1, Inr u) \<Rightarrow> let m = length (doomed before (Suc sz) db) in
       if m < Suc sz then (db1, cnt + m, None) else prune_loop envs before sz (Suc n) (cnt + m) db1)"
  by pat_completeness auto

lemma doomed_mem: "x \<in> set (doomed before sz db) \<Longrightarrow> x \<in> set (db_instances db) \<and> expired before (snd x)"
  using set_take_subset by (fastforce simp: doomed_def)

lemma prune_step_shrinks:
  assumes "doomed before sz db \<noteq> []"
  shows "length (filter (\<lambda>(k, v). expired before v) (db_instances (prune_step before sz db))) <
    length (filter (\<lambda>(k, v). expired before v) (db_instances db))"
proof -
  obtain k v where d: "(k, v) \<in> set (doomed before sz db)" using assms by (cases "doomed before sz db") auto
  let ?f = "\<lambda>(k, v). expired before v" and ?g = "\<lambda>(k, v). k \<notin> fst ` set (doomed before sz db)"
  have "(k, v) \<in> set (filter ?f (db_instances db))" "\<not> ?g (k, v)" using doomed_mem [OF d] d by force+
  then have "length (filter ?g (filter ?f (db_instances db))) < length (filter ?f (db_instances db))" by (rule length_filter_less)
  moreover have "filter ?f (db_instances (prune_step before sz db)) = filter ?g (filter ?f (db_instances db))"
    by (simp add: prune_step_def remove_instances_def conj_commute case_prod_beta)
  ultimately show ?thesis by simp
qed

termination prune_loop
proof (relation "measure (\<lambda>(envs, before, sz, n, cnt, db). length (filter (\<lambda>(k, v). expired before v) (db_instances db)))")
  fix envs :: "nat \<Rightarrow> farm_env" and before :: gotime and sz n cnt :: nat and db db1 :: farm_db and r u m
  assume a: "(db1, r) = pool_Exec (envs n) PruneMissing (prune_step before (Suc sz)) db" "r = Inr u"
    and m: "m = length (doomed before (Suc sz) db)" "\<not> m < Suc sz"
  from a have "pool_Exec (envs n) PruneMissing (prune_step before (Suc sz)) db = (db1, Inr u)" by simp
  then have "db1 = prune_step before (Suc sz) db" by (rule pool_Exec_ok)
  moreover have "doomed before (Suc sz) db \<noteq> []" using m by force
  ultimately show "((envs, before, sz, Suc n, cnt + m, db1), envs, before, sz, n, cnt, db) \<in>
      measure (\<lambda>(envs, before, sz, n, cnt, db). length (filter (\<lambda>(k, v). expired before v) (db_instances db)))"
    using prune_step_shrinks by simp
qed simp

definition PruneMissingOpenStackInstances :: "(nat \<Rightarrow> farm_env) \<Rightarrow> gotime \<Rightarrow> int \<Rightarrow> farm_db \<Rightarrow> farm_db \<times> nat \<times> goerror option" where
  "PruneMissingOpenStackInstances envs before batchSize db =
    (if time_is_zero before then (db, 0, Some (Plain ''missing-instance cutoff is required''))
     else let sz = (if batchSize \<le> 0 then 5000 else batchSize) in prune_loop envs before (nat sz - 1) 0 0 db)"

section \<open>Reading\<close>

record instanceFilter =
  if_DeploymentID :: string
  if_Hypervisor :: string
  if_ProjectIDs :: "string list"
  if_Address :: string
  if_InstanceID :: string
  if_Search :: string
  if_IncludeMissing :: bool

definition addresses_of :: "farm_db \<Rightarrow> string \<times> string \<Rightarrow> instanceAddress list" where
  "addresses_of db k = map snd (sort_key (\<lambda>x. snd (snd (fst x))) (filter (\<lambda>(j, a). (fst j, fst (snd j)) = k) (db_addresses db)))"

definition matches_filter :: "(bool \<Rightarrow> string \<Rightarrow> string \<Rightarrow> bool) \<Rightarrow> instanceFilter \<Rightarrow> farm_db \<Rightarrow> (string \<times> string) \<times> vm_instance \<Rightarrow> bool" where
  "matches_filter like f db x = (case x of (k, v) \<Rightarrow>
     (if_DeploymentID f \<noteq> [] \<longrightarrow> vm_DeploymentID v = if_DeploymentID f) \<and>
     (if_Hypervisor f \<noteq> [] \<longrightarrow> vm_HypervisorHostname v = if_Hypervisor f) \<and>
     (if_ProjectIDs f \<noteq> [] \<longrightarrow> vm_ProjectID v \<in> set (if_ProjectIDs f)) \<and>
     (if_InstanceID f \<noteq> [] \<longrightarrow> vm_InstanceID v = if_InstanceID f) \<and>
     (if_Address f \<noteq> [] \<longrightarrow> (\<exists>a \<in> set (addresses_of db k). ia_Address a = if_Address f)) \<and>
     (if_Search f \<noteq> [] \<longrightarrow> like True (''%'' @ if_Search f @ ''%'') (vm_Name v) \<or>
        (\<exists>a \<in> set (addresses_of db k). like False (''%'' @ if_Search f @ ''%'') (ia_Address a))) \<and>
     (\<not> if_IncludeMissing f \<longrightarrow> vm_MissingSince v = None))"

definition order_instances :: "((string \<times> string) \<times> vm_instance) list \<Rightarrow> ((string \<times> string) \<times> vm_instance) list" where
  "order_instances xs = sort_key (\<lambda>x. vm_DeploymentID (snd x)) (sort_key (\<lambda>x. vm_Name (snd x)) (sort_key (\<lambda>x. vm_InstanceID (snd x)) xs))"

definition instancesOn :: "(bool \<Rightarrow> string \<Rightarrow> string \<Rightarrow> bool) \<Rightarrow> farm_env \<Rightarrow> instanceFilter \<Rightarrow> farm_db \<Rightarrow> goerror + vm_instance list" where
  "instancesOn like env f db =
    go_bind (go_none (te_exec env (SelectRows ''openstack_instances'') db)) (\<lambda>_.
    let xs = order_instances (filter (matches_filter like f db) (db_instances db)) in
    if xs = [] then Inr []
    else go_bind (go_none (te_exec env (SelectRows ''openstack_instance_addresses'') db)) (\<lambda>_.
      Inr (map (\<lambda>(k, v). v \<lparr>vm_Addresses := addresses_of db (vm_DeploymentID v, vm_InstanceID v)\<rparr>) xs)))"

record farmSnapshot =
  sn_Deployment :: "deployment option"
  sn_Hosts :: "openStackHost list"
  sn_Instances :: "vm_instance list"
  sn_Ghosts :: "ghostHost list"
  sn_Run :: "reconcileRun option"

definition farm_filter :: "string \<Rightarrow> instanceFilter" where
  "farm_filter i = \<lparr>if_DeploymentID = i, if_Hypervisor = [], if_ProjectIDs = [], if_Address = [], if_InstanceID = [], if_Search = [], if_IncludeMissing = True\<rparr>"

definition FarmSnapshot :: "(bool \<Rightarrow> string \<Rightarrow> string \<Rightarrow> bool) \<Rightarrow> farm_env \<Rightarrow> string \<Rightarrow> farm_db \<Rightarrow> goerror + farmSnapshot" where
  "FarmSnapshot like env i db =
    go_bind (go_none (te_begin env)) (\<lambda>_.
    go_bind (openStackHostsOn env db) (\<lambda>hosts.
    go_bind (instancesOn like env (farm_filter i) db) (\<lambda>ins.
    go_bind (ghostHostsOn env i db) (\<lambda>ghosts.
    go_bind (reconcileRunsOn env db) (\<lambda>runs.
    go_bind (deploymentsOn env db) (\<lambda>ds.
    Inr \<lparr>sn_Deployment = find (\<lambda>d. dp_ID d = i) ds, sn_Hosts = filter (\<lambda>h. oh_Farm h = i \<and> oh_Detected h) hosts, sn_Instances = ins,
      sn_Ghosts = ghosts, sn_Run = map_of runs i\<rparr>))))))"

section \<open>What a listing does to every row\<close>

definition run_entries :: "batch_entry list \<Rightarrow> farm_db \<Rightarrow> farm_db" where
  "run_entries es db = foldl (\<lambda>db (s, key_ok, upd, completes). upd db) db es"

lemma exec_entries_Inr:
  "exec_entries env es seen db = (n, Inr db') \<Longrightarrow>
     db' = run_entries es db \<and> n = seen + length (filter (\<lambda>(s, key_ok, upd, completes). completes) es)"
proof (induction env es seen db rule: exec_entries.induct)
  case (2 env s key_ok upd completes es seen db)
  then show ?case by (auto simp: run_entries_def split: sum.splits)
qed (auto simp: run_entries_def split: option.splits)

lemma execInstanceBatch_Inr:
  "execInstanceBatch env es db = (n, Inr db') \<Longrightarrow> db' = run_entries es db \<and> n = length (filter (\<lambda>(s, key_ok, upd, completes). completes) es)"
  by (auto simp: execInstanceBatch_def run_entries_def dest: exec_entries_Inr split: if_splits)

lemma run_entries_append: "run_entries (es @ fs) db = run_entries fs (run_entries es db)"
  by (simp add: run_entries_def)

lemma mark_last_run: "run_entries (mark_last es) db = run_entries es db"
proof (cases es rule: rev_cases)
  case (snoc ys y)
  then show ?thesis by (cases y) (simp add: mark_last_def run_entries_def)
qed (simp add: mark_last_def run_entries_def)

lemma run_addresses: "db_instances (run_entries (map (\<lambda>a. (s a, k a, upsert_address dep i a, c a)) as) db) = db_instances db"
  by (induction as arbitrary: db) (simp_all add: run_entries_def upsert_address_def)

lemma run_instance:
  "db_instances (run_entries (instance_entries dep tm i) db) =
     (if vm_InstanceID i = [] then db_instances db else db_instances (upsert_instance dep tm i db))"
proof -
  have "db_instances (run_entries (e1 # (s, k, delete_addresses dep j, c) # map (\<lambda>a. (sa a, ka a, upsert_address dep j a, ca a)) as) db) =
      db_instances (run_entries [e1] db)" for e1 s k j c sa ka ca as
    using run_addresses [of sa ka dep j ca as "run_entries [e1, (s, k, delete_addresses dep j, c)] db"]
    by (cases e1) (simp add: run_entries_def delete_addresses_def)
  from this [of "(UpsertInstance (vm_InstanceID i), known_deployment dep, upsert_instance dep tm i, False)" "DeleteAddresses (vm_InstanceID i)"
      "\<lambda>_. True" "vm_InstanceID i" False "\<lambda>a. UpsertAddress (vm_InstanceID i) (ia_Address a)" "\<lambda>_ _. True" "\<lambda>_. False"]
  show ?thesis by (simp add: instance_entries_def mark_last_run) (simp add: run_entries_def)
qed

text \<open>The row of a listed VM: what the listing says, observed now and not missing. Names it could not resolve are kept.\<close>

definition fresh_row :: "string \<Rightarrow> gotime \<Rightarrow> vm_instance \<Rightarrow> vm_instance \<Rightarrow> bool" where
  "fresh_row dep tm v r \<longleftrightarrow> r \<lparr>vm_ProjectName := [], vm_ImageName := []\<rparr> = v \<lparr>vm_DeploymentID := dep, vm_ProjectName := [], vm_ImageName := [],
     vm_ObservedAt := tm, vm_MissingSince := None, vm_Addresses := []\<rparr> \<and>
     (vm_ProjectName v \<noteq> [] \<longrightarrow> vm_ProjectName r = vm_ProjectName v) \<and> (vm_ImageName v \<noteq> [] \<longrightarrow> vm_ImageName r = vm_ImageName v)"

lemma fresh_row_fields: "fresh_row dep tm v r \<Longrightarrow> vm_ObservedAt r = tm" "fresh_row dep tm v r \<Longrightarrow> vm_MissingSince r = None"
  unfolding fresh_row_def by (auto dest: arg_cong [of _ _ vm_ObservedAt] arg_cong [of _ _ vm_MissingSince])

lemma upsert_instance_row:
  "map_of (db_instances (upsert_instance dep tm i db)) k =
     (if k = (dep, vm_InstanceID i) then Some (i \<lparr>vm_DeploymentID := dep,
       vm_ProjectName := keep_empty (vm_ProjectName i) (case map_of (db_instances db) k of None \<Rightarrow> [] | Some o' \<Rightarrow> vm_ProjectName o'),
       vm_ImageName := keep_empty (vm_ImageName i) (case map_of (db_instances db) k of None \<Rightarrow> [] | Some o' \<Rightarrow> vm_ImageName o'),
       vm_ObservedAt := tm, vm_MissingSince := None, vm_Addresses := []\<rparr>)
      else map_of (db_instances db) k)"
  by (simp add: upsert_instance_def Let_def)

definition listed :: "vm_instance list \<Rightarrow> string \<Rightarrow> bool" where
  "listed ins i \<longleftrightarrow> i \<noteq> [] \<and> i \<in> vm_InstanceID ` set ins"

lemma instanceBatch_rows:
  "(if fst k = dep \<and> listed ins (snd k)
    then \<exists>v \<in> set ins. \<exists>r. vm_InstanceID v = snd k \<and> map_of (db_instances (run_entries (instanceBatch dep ins tm) db)) k = Some r \<and> fresh_row dep tm v r
    else map_of (db_instances (run_entries (instanceBatch dep ins tm) db)) k = map_of (db_instances db) k)"
proof (induction ins rule: rev_induct)
  case (snoc i ins)
  let ?d = "run_entries (instanceBatch dep ins tm) db"
  have run: "db_instances (run_entries (instanceBatch dep (ins @ [i]) tm) db) =
      (if vm_InstanceID i = [] then db_instances ?d else db_instances (upsert_instance dep tm i ?d))"
    by (simp add: instanceBatch_def run_entries_append run_instance)
  show ?case
  proof (cases "vm_InstanceID i \<noteq> [] \<and> k = (dep, vm_InstanceID i)")
    case True
    then show ?thesis unfolding run by (auto simp: upsert_instance_row listed_def fresh_row_def keep_empty_def)
  next
    case False
    then have "fst k = dep \<and> listed (ins @ [i]) (snd k) \<longleftrightarrow> fst k = dep \<and> listed ins (snd k)"
      by (cases k) (auto simp: listed_def)
    moreover have "map_of (db_instances (run_entries (instanceBatch dep (ins @ [i]) tm) db)) k = map_of (db_instances ?d) k"
      using False unfolding run by (auto simp: upsert_instance_row)
    ultimately show ?thesis using snoc.IH by (auto split: if_splits)
  qed
qed (simp add: listed_def instanceBatch_def run_entries_def)

lemma mark_missing_row:
  "map_of (db_instances (mark_missing dep tm db)) k = map_option (\<lambda>v. if fst k = dep \<and> vm_ObservedAt v < tm \<and> vm_MissingSince v = None
     then v \<lparr>vm_MissingSince := Some tm\<rparr> else v) (map_of (db_instances db) k)"
proof -
  have "map_of (map (\<lambda>(k, c). (k, f k c)) m) k = map_option (f k) (map_of m k)" for f :: "string \<times> string \<Rightarrow> vm_instance \<Rightarrow> vm_instance" and m
    by (induction m) auto
  then show ?thesis by (simp add: mark_missing_def)
qed

definition listing_effect :: "string \<Rightarrow> vm_instance list \<Rightarrow> gotime \<Rightarrow> bool \<Rightarrow> farm_db \<Rightarrow> farm_db" where
  "listing_effect dep ins tm whole db = (let db1 = run_entries (instanceBatch dep ins tm) db in if whole then mark_missing dep tm db1 else db1)"

lemma ReplaceInstances_outcome:
  assumes "ReplaceInstances env now dep ins tm whole db = (db', seen, err)"
  shows "db' = db \<and> err \<noteq> None \<or> db' = listing_effect dep ins (if time_is_zero tm then now else tm) whole db"
proof (cases "te_begin env")
  case None
  with assms show ?thesis
    by (auto simp: ReplaceInstances_def listing_effect_def Let_def dest!: execInstanceBatch_Inr
        split: prod.splits sum.splits if_splits commit_outcome.splits)
next
  case (Some e)
  with assms have "db' = db" "err = Some e" by (simp_all add: ReplaceInstances_def Let_def)
  then show ?thesis by simp
qed

text \<open>C26: a VM listing never loses a VM. Whatever fails, the table is as it was or as the whole listing leaves it: a VM of another
  deployment is untouched; a listed one is current; one that was not listed keeps its row, and is marked missing
  only by a complete listing, only once and only if it was last seen before this listing.\<close>

theorem listing_marks_only_the_unlisted:
  assumes "ReplaceInstances env now dep ins tm whole db = (db', seen, err)" "tm \<noteq> 0"
  shows "db_instances db' = db_instances db \<and> err \<noteq> None \<or>
    (\<forall>d i. (d \<noteq> dep \<longrightarrow> map_of (db_instances db') (d, i) = map_of (db_instances db) (d, i)) \<and>
      (listed ins i \<longrightarrow> (\<exists>v \<in> set ins. \<exists>r. vm_InstanceID v = i \<and> map_of (db_instances db') (dep, i) = Some r \<and> fresh_row dep tm v r)) \<and>
      (\<not> listed ins i \<longrightarrow> map_of (db_instances db') (dep, i) = map_option (\<lambda>r. if whole \<and> vm_ObservedAt r < tm \<and> vm_MissingSince r = None
         then r \<lparr>vm_MissingSince := Some tm\<rparr> else r) (map_of (db_instances db) (dep, i))))"
proof -
  note fresh = fresh_row_fields(1)
  have "map_of (db_instances (listing_effect dep ins tm whole db)) (d, i) = map_of (db_instances db) (d, i)" if "d \<noteq> dep" for d i
    using instanceBatch_rows [of "(d, i)" dep ins tm db] that
    by (cases "map_of (db_instances db) (d, i)") (auto simp: listing_effect_def mark_missing_row Let_def)
  moreover have "\<exists>v \<in> set ins. \<exists>r. vm_InstanceID v = i \<and> map_of (db_instances (listing_effect dep ins tm whole db)) (dep, i) = Some r \<and> fresh_row dep tm v r"
    if "listed ins i" for i
    using instanceBatch_rows [of "(dep, i)" dep ins tm db] that fresh by (fastforce simp: listing_effect_def mark_missing_row Let_def)
  moreover have "map_of (db_instances (listing_effect dep ins tm whole db)) (dep, i) = map_option (\<lambda>r. if whole \<and> vm_ObservedAt r < tm \<and> vm_MissingSince r = None
         then r \<lparr>vm_MissingSince := Some tm\<rparr> else r) (map_of (db_instances db) (dep, i))" if "\<not> listed ins i" for i
    using instanceBatch_rows [of "(dep, i)" dep ins tm db] that by (simp add: listing_effect_def mark_missing_row Let_def option.map_ident)
  ultimately show ?thesis using ReplaceInstances_outcome [OF assms(1)] assms(2) unfolding time_is_zero_def by auto
qed

section \<open>Pruning is exact\<close>

lemma doomed_all:
  assumes "length (doomed before n db) < n"
  shows "set (doomed before n db) = {x \<in> set (db_instances db). expired before (snd x)}"
  using assms by (auto simp: doomed_def case_prod_beta min_def split: if_splits)

lemma doomed_keys:
  assumes "gomap_wf (db_instances db)"
  shows "length (doomed before n db) = length (filter (\<lambda>(k, v). k \<in> fst ` set (doomed before n db)) (db_instances db))"
proof -
  let ?D = "doomed before n db"
  have d: "distinct (db_instances db)" and inj: "inj_on fst (set (db_instances db))" using assms by (auto simp: gomap_wf_def distinct_map)
  have "distinct ?D" using d by (simp add: doomed_def)
  moreover have "set ?D = set (filter (\<lambda>(k, v). k \<in> fst ` set ?D) (db_instances db))"
  proof -
    have "x \<in> set ?D" if "x \<in> set (db_instances db)" "fst x \<in> fst ` set ?D" for x
    proof -
      from that(2) obtain y where y: "y \<in> set ?D" "fst y = fst x" by force
      with doomed_mem [OF y(1)] that(1) inj have "y = x" by (auto dest: inj_onD)
      with y show ?thesis by simp
    qed
    moreover have "x \<in> set (db_instances db)" if "x \<in> set ?D" for x using doomed_mem [OF that] by simp
    ultimately show ?thesis by (auto simp: case_prod_unfold)
  qed
  moreover have "distinct (filter (\<lambda>(k, v). k \<in> fst ` set ?D) (db_instances db))" using d by simp
  ultimately show ?thesis using distinct_card [of ?D] distinct_card [of "filter (\<lambda>(k, v). k \<in> fst ` set ?D) (db_instances db)"] by argo
qed

lemma prune_step_rows:
  "db_instances (prune_step before n db) = filter (\<lambda>(k, v). k \<notin> fst ` set (doomed before n db)) (db_instances db)"
  by (simp add: prune_step_def remove_instances_def)

lemma prune_step_keeps:
  assumes "gomap_wf (db_instances db)"
  shows "filter (\<lambda>(k, v). \<not> expired before v) (db_instances (prune_step before n db)) = filter (\<lambda>(k, v). \<not> expired before v) (db_instances db)"
    "gomap_wf (db_instances (prune_step before n db))" "length (db_instances db) = length (db_instances (prune_step before n db)) + length (doomed before n db)"
proof -
  have "k \<notin> fst ` set (doomed before n db)" if "(k, v) \<in> set (db_instances db)" "\<not> expired before v" for k v
    using that doomed_mem assms by (fastforce simp: gomap_wf_def dest: eq_key_imp_eq_value)
  then show "filter (\<lambda>(k, v). \<not> expired before v) (db_instances (prune_step before n db)) = filter (\<lambda>(k, v). \<not> expired before v) (db_instances db)"
    by (auto simp: prune_step_rows intro!: filter_cong)
  show "gomap_wf (db_instances (prune_step before n db))" using assms by (simp add: prune_step_rows gomap_wf_def distinct_map_filter)
  show "length (db_instances db) = length (db_instances (prune_step before n db)) + length (doomed before n db)"
    unfolding doomed_keys [OF assms] prune_step_rows
    using sum_length_filter_compl [of "\<lambda>(k, v). k \<in> fst ` set (doomed before n db)" "db_instances db"] by (simp add: case_prod_unfold add.commute)
qed

lemma prune_loop_rows:
  assumes "gomap_wf (db_instances db)" "prune_loop envs before sz n cnt db = (db', c, err)"
  shows "filter (\<lambda>(k, v). \<not> expired before v) (db_instances db') = filter (\<lambda>(k, v). \<not> expired before v) (db_instances db) \<and>
    set (db_instances db') \<subseteq> set (db_instances db) \<and>
    (err = None \<longrightarrow> (\<forall>(k, v) \<in> set (db_instances db'). \<not> expired before v) \<and> c + length (db_instances db') = cnt + length (db_instances db))"
  using assms
proof (induction envs before sz n cnt db rule: prune_loop.induct)
  case (1 envs before sz n cnt db)
  note keep = prune_step_keeps [OF 1(2), of before "Suc sz"]
  obtain db1 r where p: "pool_Exec (envs n) PruneMissing (prune_step before (Suc sz)) db = (db1, r)" by fastforce
  have sub: "set (db_instances (prune_step before (Suc sz) db)) \<subseteq> set (db_instances db)" by (auto simp: prune_step_rows)
  show ?case
  proof (cases r)
    case (Inl e)
    with p 1(3) have "db' = db1" "err = Some e" by auto
    with pool_Exec_outcome [OF p] keep sub show ?thesis by auto
  next
    case (Inr u)
    with p have db1: "db1 = prune_step before (Suc sz) db" by (auto dest: pool_Exec_ok)
    show ?thesis
    proof (cases "length (doomed before (Suc sz) db) < Suc sz")
      case True
      then have e: "db' = db1" "err = None" "c = cnt + length (doomed before (Suc sz) db)" using 1(3) p Inr by (auto simp: Let_def)
      have none: "\<forall>(k, v) \<in> set (db_instances db1). \<not> expired before v"
      proof -
        have "k \<in> fst ` set (doomed before (Suc sz) db)" if "(k, v) \<in> set (db_instances db)" "expired before v" for k v
          using that by (force simp: doomed_all [OF True])
        then show ?thesis by (auto simp: db1 prune_step_rows)
      qed
      show ?thesis unfolding e(1,3)
      proof (intro conjI impI)
        show "cnt + length (doomed before (Suc sz) db) + length (db_instances db1) = cnt + length (db_instances db)"
          using keep(3) unfolding db1 by linarith
      qed (use none keep(1) sub in \<open>simp_all only: db1\<close>)
    next
      case False
      then have "prune_loop envs before sz (Suc n) (cnt + length (doomed before (Suc sz) db)) db1 = (db', c, err)" using 1(3) p Inr by (simp add: Let_def)
      from 1(1) [OF p [symmetric] Inr refl False _ this] keep sub show ?thesis by (auto simp: db1)
    qed
  qed
qed

lemma prune_loop_ok:
  assumes "\<And>m d. te_exec (envs m) PruneMissing d = None" "\<And>m. te_commit (envs m) = Committed"
  shows "snd (snd (prune_loop envs before sz n cnt db)) = None"
  using assms
proof (induction envs before sz n cnt db rule: prune_loop.induct)
  case (1 envs before sz n cnt db)
  have p: "pool_Exec (envs n) PruneMissing (prune_step before (Suc sz)) db = (prune_step before (Suc sz) db, Inr ())"
    using 1(2,3) by (simp add: pool_Exec_def pool_insert_def tx_insert_def tx_commit_def)
  show ?case
  proof (cases "length (doomed before (Suc sz) db) < Suc sz")
    case True
    with p show ?thesis by (simp add: Let_def)
  next
    case False
    with 1(1) [OF p [symmetric] refl refl False 1(2,3)] p show ?thesis by (simp add: Let_def)
  qed
qed

text \<open>Pruning ends, and removes exactly the VMs missing since before the cutoff. Whatever fails in whichever batch, every VM that is
  present or went missing later keeps its row and no row appears; without an error no expired row is left and the
  count is the number of rows removed; and when the database answers, it returns without an error.\<close>

theorem pruning_is_exact:
  assumes "gomap_wf (db_instances db)" "before \<noteq> 0" "PruneMissingOpenStackInstances envs before batchSize db = (db', c, err)"
  shows "filter (\<lambda>(k, v). \<not> expired before v) (db_instances db') = filter (\<lambda>(k, v). \<not> expired before v) (db_instances db) \<and>
    set (db_instances db') \<subseteq> set (db_instances db) \<and>
    (err = None \<longrightarrow> db_instances db' = filter (\<lambda>(k, v). \<not> expired before v) (db_instances db) \<and>
       c = length (filter (\<lambda>(k, v). expired before v) (db_instances db))) \<and>
    ((\<forall>n d. te_exec (envs n) PruneMissing d = None) \<and> (\<forall>n. te_commit (envs n) = Committed) \<longrightarrow> err = None)"
proof -
  let ?keep = "filter (\<lambda>(k, v). \<not> expired before v)"
  obtain sz where p: "prune_loop envs before sz 0 0 db = (db', c, err)"
    using assms(2,3) by (auto simp: PruneMissingOpenStackInstances_def time_is_zero_def Let_def simp del: prune_loop.simps split: if_splits)
  note r = prune_loop_rows [OF assms(1) p]
  have "db_instances db' = ?keep (db_instances db) \<and> c = length (filter (\<lambda>(k, v). expired before v) (db_instances db))" if "err = None"
  proof -
    have "\<forall>(k, v) \<in> set (db_instances db'). \<not> expired before v" using r that by blast
    then have "?keep (db_instances db') = db_instances db'" by (rule filter_True)
    then have d: "db_instances db' = ?keep (db_instances db)" using r by simp
    have "length (filter (\<lambda>(k, v). expired before v) (db_instances db)) + length (?keep (db_instances db)) = length (db_instances db)"
      using sum_length_filter_compl [of "\<lambda>(k, v). expired before v" "db_instances db"] by (simp add: case_prod_unfold)
    with d r that show ?thesis by simp
  qed
  moreover have "err = None" if "\<forall>n d. te_exec (envs n) PruneMissing d = None" "\<forall>n. te_commit (envs n) = Committed"
    using prune_loop_ok [of envs before sz 0 0 db] that p by (simp del: prune_loop.simps)
  ultimately show ?thesis using r by blast
qed

section \<open>Concrete runs\<close>

definition sample_vm :: "string \<Rightarrow> gotime option \<Rightarrow> vm_instance" where
  "sample_vm i missing = \<lparr>vm_DeploymentID = ''f'', vm_InstanceID = i, vm_ProjectID = ''p'', vm_ProjectName = [], vm_Name = ''vm'', vm_Status = ''ACTIVE'',
     vm_PowerState = [], vm_TaskState = [], vm_AvailabilityZone = [], vm_HypervisorHostname = ''c1'', vm_FlavorID = [], vm_ImageID = [], vm_ImageName = [],
     vm_CreatedAt = None, vm_UpdatedAt = None, vm_ObservedAt = 3, vm_MissingSince = missing, vm_Addresses = []\<rparr>"

definition sample_farm :: farm_db where
  "sample_farm = sample_db \<lparr>db_deployments := [(''f'', blank_deployment ''f'')],
     db_instances := [((''f'', ''a''), sample_vm ''a'' None), ((''f'', ''b''), sample_vm ''b'' None)]\<rparr>"

theorem listing_marks_only_the_unlisted_witness:
  "\<exists>db' r. fst (ReplaceInstances fine_env 9 ''f'' [sample_vm ''a'' None] 9 True sample_farm) = db' \<and>
     map_of (db_instances db') (''f'', ''a'') = Some r \<and> vm_MissingSince r = None \<and>
     map_of (db_instances db') (''f'', ''b'') = Some (sample_vm ''b'' (Some 9))"
proof -
  obtain db' seen err where r: "ReplaceInstances fine_env 9 ''f'' [sample_vm ''a'' None] 9 True sample_farm = (db', seen, err)" by (metis prod_cases3)
  have "snd (snd (ReplaceInstances fine_env 9 ''f'' [sample_vm ''a'' None] 9 True sample_farm)) = None"
    by (simp add: ReplaceInstances_def time_is_zero_def fine_env_def execInstanceBatch_def instanceBatch_def instance_entries_def mark_last_def sample_vm_def
        tx_insert_def tx_stmt_def known_deployment_def sample_farm_def upsert_instance_def Let_def)
  then have "err = None" using r by simp
  with listing_marks_only_the_unlisted [OF r] obtain v where
    a: "v \<in> set [sample_vm ''a'' None]" "\<exists>r. map_of (db_instances db') (''f'', ''a'') = Some r \<and> fresh_row ''f'' 9 v r"
    and b: "map_of (db_instances db') (''f'', ''b'') = map_option (\<lambda>r. if vm_ObservedAt r < 9 \<and> vm_MissingSince r = None
      then r \<lparr>vm_MissingSince := Some 9\<rparr> else r) (map_of (db_instances sample_farm) (''f'', ''b''))"
    by (auto simp: listed_def sample_vm_def)
  with fresh_row_fields a b r show ?thesis by (auto simp: sample_farm_def sample_vm_def)
qed

theorem pruning_is_exact_witness:
  "snd (snd (PruneMissingOpenStackInstances (\<lambda>_. fine_env) 5 1 (sample_farm \<lparr>db_instances := [((''f'', ''a''), sample_vm ''a'' (Some 4)),
     ((''f'', ''b''), sample_vm ''b'' None)]\<rparr>))) = None"
proof -
  let ?db = "sample_farm \<lparr>db_instances := [((''f'', ''a''), sample_vm ''a'' (Some 4)), ((''f'', ''b''), sample_vm ''b'' None)]\<rparr>"
  obtain db' c err where p: "PruneMissingOpenStackInstances (\<lambda>_. fine_env) 5 1 ?db = (db', c, err)" by (metis prod_cases3)
  have "gomap_wf (db_instances ?db)" by (simp add: gomap_wf_def)
  from pruning_is_exact [OF this _ p] have "err = None" by (simp add: fine_env_def)
  with p show ?thesis by simp
qed

end
