(* ===== verification/Farm_Reconcile.thy ===== *)
theory Farm_Reconcile
  imports Farm_Instances
begin

text \<open>
  The reconcile service (\<^verbatim>\<open>internal/openstack/reconcile/reconcile.go\<close>) over the modelled store: for each farm it asks the control
  plane, lets \<open>Decide\<close> judge the answer, and writes memberships, the run record, the VM listing and the ghosts. Credentials, the
  control plane's answers, the clock and what the database does with each write are a world indexed by the position of the farm.

  The lemmas give what one decision does to every membership row, show that a partial answer takes nothing away, that a
  dry run writes nothing and reports what the real run decides, and that one farm's failure leaves the rows of the
  others alone. Two lemmas record what the foreign keys of the tables do to a farm seen for the first time.
\<close>

section \<open>Data\<close>

record hostList =
  hl_Hosts :: "string list"
  hl_Complete :: bool
  hl_HypervisorError :: string
  hl_ServiceError :: string

record nova_instance =
  ni_ID :: string
  ni_Name :: string
  ni_ProjectID :: string
  ni_Status :: string
  ni_PowerState :: string
  ni_TaskState :: string
  ni_AvailabilityZone :: string
  ni_HypervisorHostname :: string
  ni_FlavorID :: string
  ni_ImageID :: string
  ni_Created :: gotime
  ni_Updated :: gotime
  ni_Addresses :: "instanceAddress list"

record vm_listing =
  li_Instances :: "nova_instance list"
  li_ProjectNames :: "(string, string) gomap"
  li_ImageNames :: "(string, string) gomap"
  li_Warnings :: "goerror list"
  li_Complete :: bool

record rec_farm =
  fa_ID :: string
  fa_LocalHosts :: "string list"

record rec_outcome =
  ro_ID :: string
  ro_NoCredentials :: "goerror option"
  ro_Unreachable :: "goerror option"
  ro_Partial :: string
  ro_Result :: outcome
  ro_Instances :: nat
  ro_Warnings :: "goerror list"

record rec_report =
  rp_Outcomes :: "rec_outcome list"
  rp_Reached :: nat

datatype rec_op = OpDecide | OpInstances | OpApply | OpRun | OpGhosts

record rec_world =
  wd_creds :: "nat \<Rightarrow> goerror + string"
  wd_hosts :: "nat \<Rightarrow> string \<Rightarrow> goerror + hostList"
  wd_list :: "nat \<Rightarrow> string \<Rightarrow> vm_listing \<times> goerror option"
  wd_env :: "nat \<Rightarrow> rec_op \<Rightarrow> farm_env"
  wd_now :: "nat \<Rightarrow> rec_op \<Rightarrow> gotime"

definition zero_outcome :: outcome where
  "zero_outcome = \<lparr>oc_DeploymentID = [], oc_Confirmed = [], oc_LocalOnly = [], oc_ControlOnly = [], oc_Ambiguous = [], oc_Held = [], oc_Complete = False\<rparr>"

definition new_outcome :: "string \<Rightarrow> rec_outcome" where
  "new_outcome i = \<lparr>ro_ID = i, ro_NoCredentials = None, ro_Unreachable = None, ro_Partial = [], ro_Result = zero_outcome, ro_Instances = 0, ro_Warnings = []\<rparr>"

definition Reconciled :: "rec_outcome \<Rightarrow> bool" where
  "Reconciled out \<longleftrightarrow> ro_NoCredentials out = None \<and> ro_Unreachable out = None"

definition ErrNothingReached :: goerror where
  "ErrNothingReached = Sentinel ''no deployment could be reached; nothing was confirmed''"

section \<open>One farm\<close>

definition PartialReason :: "hostList \<Rightarrow> string" where
  "PartialReason l = (if hl_HypervisorError l \<noteq> [] \<and> hl_ServiceError l \<noteq> [] then ''neither endpoint answered''
     else if hl_ServiceError l \<noteq> [] then ''os-services: '' @ hl_ServiceError l @ '' (controllers are not listed)''
     else if hl_HypervisorError l \<noteq> [] then ''os-hypervisors: '' @ hl_HypervisorError l @ '' (stopped compute nodes are not listed)''
     else ''incomplete'')"

definition ToStoreInstance :: "string \<Rightarrow> nova_instance \<Rightarrow> vm_instance" where
  "ToStoreInstance dep i = \<lparr>vm_DeploymentID = dep, vm_InstanceID = ni_ID i, vm_ProjectID = ni_ProjectID i, vm_ProjectName = [], vm_Name = ni_Name i,
     vm_Status = ni_Status i, vm_PowerState = ni_PowerState i, vm_TaskState = ni_TaskState i, vm_AvailabilityZone = ni_AvailabilityZone i,
     vm_HypervisorHostname = ni_HypervisorHostname i, vm_FlavorID = ni_FlavorID i, vm_ImageID = ni_ImageID i, vm_ImageName = [],
     vm_CreatedAt = (if time_is_zero (ni_Created i) then None else Some (ni_Created i)),
     vm_UpdatedAt = (if time_is_zero (ni_Updated i) then None else Some (ni_Updated i)), vm_ObservedAt = 0, vm_MissingSince = None,
     vm_Addresses = ni_Addresses i\<rparr>"

definition listing_rows :: "string \<Rightarrow> vm_listing \<Rightarrow> vm_instance list" where
  "listing_rows dep l = map (\<lambda>i. (ToStoreInstance dep i) \<lparr>vm_ProjectName := str_of_key (li_ProjectNames l) (ni_ProjectID i),
     vm_ImageName := str_of_key (li_ImageNames l) (ni_ImageID i)\<rparr>) (li_Instances l)"

definition collectInstances :: "rec_world \<Rightarrow> nat \<Rightarrow> string \<Rightarrow> string \<Rightarrow> goerror list \<Rightarrow> farm_db \<Rightarrow> farm_db \<times> nat \<times> goerror list" where
  "collectInstances w n dep creds ws0 db = (case wd_list w n creds of (l, err) \<Rightarrow>
     let ws = ws0 @ li_Warnings l in
     (case err of
        Some e \<Rightarrow> (db, 0, ws @ [Wrapf ''instances'' e])
      | None \<Rightarrow> (case ReplaceInstances (wd_env w n OpInstances) (wd_now w n OpInstances) dep (listing_rows dep l) (wd_now w n OpInstances) (li_Complete l) db of
          (db', k, None) \<Rightarrow> (db', k, ws)
        | (db', k, Some e) \<Rightarrow> (db', 0, ws @ [Wrapf ''instances'' e]))))"

definition farm_observation :: "rec_world \<Rightarrow> nat \<Rightarrow> rec_farm \<Rightarrow> hostList \<Rightarrow> observation" where
  "farm_observation w n f l = \<lparr>ob_DeploymentID = fa_ID f, ob_DisplayName = [], ob_Region = [], ob_KeystoneURL = fa_ID f, ob_LocalHosts = fa_LocalHosts f,
     ob_ControlHosts = hl_Hosts l, ob_Complete = hl_Complete l, ob_At = wd_now w n OpDecide\<rparr>"

definition add_warning :: "string \<Rightarrow> goerror + unit \<Rightarrow> rec_outcome \<Rightarrow> rec_outcome" where
  "add_warning msg r out = (case r of Inr _ \<Rightarrow> out | Inl e \<Rightarrow> out \<lparr>ro_Warnings := ro_Warnings out @ [Wrapf msg e]\<rparr>)"

text \<open>The writes of a farm that answered. The result is the database and the outcome, or the error that ends the whole run.\<close>

definition write_farm :: "rec_world \<Rightarrow> nat \<Rightarrow> rec_farm \<Rightarrow> string \<Rightarrow> hostList \<Rightarrow> decision \<Rightarrow> rec_outcome \<Rightarrow> farm_db \<Rightarrow> farm_db \<times> (goerror + rec_outcome)" where
  "write_farm w n f creds l d out db = (case collectInstances w n (fa_ID f) creds (ro_Warnings out) db of (db1, k, ws) \<Rightarrow>
     let out1 = out \<lparr>ro_Instances := k, ro_Warnings := ws\<rparr> in
     (case ApplyMembership (wd_env w n OpApply) (wd_now w n OpApply) d db1 of
        (db2, Inl e) \<Rightarrow> (db2, Inl (Wrapf (fa_ID f) e))
      | (db2, Inr _) \<Rightarrow> let out2 = out1 \<lparr>ro_Result := de_Outcome d\<rparr> in
          (case RecordReconcileRun (wd_env w n OpRun) (wd_now w n OpRun) (fa_ID f) (de_Outcome d) (wd_now w n OpRun) None db2 of (db3, r3) \<Rightarrow>
             let out3 = add_warning ''recording the run'' r3 out2 in
             if hl_Complete l then
               (case RecordGhostHosts (wd_env w n OpGhosts) (wd_now w n OpGhosts) (fa_ID f) (oc_ControlOnly (de_Outcome d)) (wd_now w n OpGhosts) db3 of
                  (db4, r4) \<Rightarrow> (db4, Inr (add_warning ''recording control-only hosts'' r4 out3)))
             else (db3, Inr out3))))"

definition run_farm :: "rec_world \<Rightarrow> bool \<Rightarrow> nat \<Rightarrow> rec_farm \<Rightarrow> farm_db \<Rightarrow> farm_db \<times> bool \<times> (goerror + rec_outcome)" where
  "run_farm w dryRun n f db = (let out = new_outcome (fa_ID f) in
    (case wd_creds w n of
       Inl e \<Rightarrow> (db, False, Inr (out \<lparr>ro_NoCredentials := Some e\<rparr>))
     | Inr creds \<Rightarrow> (case wd_hosts w n creds of
         Inl e \<Rightarrow> let out = out \<lparr>ro_Unreachable := Some e\<rparr> in
           if dryRun then (db, False, Inr out)
           else (case RecordReconcileRun (wd_env w n OpRun) (wd_now w n OpRun) (fa_ID f) zero_outcome (wd_now w n OpRun) (Some (err_text e)) db of
             (db', r) \<Rightarrow> (db', False, Inr (add_warning ''recording the failure'' r out)))
       | Inr l \<Rightarrow> let out = (if hl_Complete l then out else out \<lparr>ro_Partial := PartialReason l\<rparr>);
             d = Decide (wd_now w n OpDecide) (farm_observation w n f l) in
           if dryRun then (db, True, Inr (out \<lparr>ro_Result := de_Outcome d\<rparr>))
           else (case write_farm w n f creds l d out db of (db', r) \<Rightarrow> (db', True, r)))))"

section \<open>The run\<close>

fun run_farms :: "rec_world \<Rightarrow> bool \<Rightarrow> nat \<Rightarrow> rec_farm list \<Rightarrow> rec_report \<Rightarrow> farm_db \<Rightarrow> farm_db \<times> rec_report \<times> goerror option" where
  "run_farms w dryRun n [] rep db = (db, rep, if rp_Reached rep = 0 then Some ErrNothingReached else None)"
| "run_farms w dryRun n (f # fs) rep db = (case run_farm w dryRun n f db of (db', reached, r) \<Rightarrow>
     let rep1 = (if reached then rep \<lparr>rp_Reached := Suc (rp_Reached rep)\<rparr> else rep) in
     (case r of
        Inl e \<Rightarrow> (db', rep1, Some e)
      | Inr out \<Rightarrow> run_farms w dryRun (Suc n) fs (rep1 \<lparr>rp_Outcomes := rp_Outcomes rep1 @ [out]\<rparr>) db'))"

definition Service_Run :: "rec_world \<Rightarrow> bool \<Rightarrow> rec_farm list \<Rightarrow> farm_db \<Rightarrow> farm_db \<times> rec_report \<times> goerror option" where
  "Service_Run w dryRun farms db = run_farms w dryRun 0 farms \<lparr>rp_Outcomes = [], rp_Reached = 0\<rparr> db"

definition Preview :: "gotime \<Rightarrow> string list \<Rightarrow> string list \<Rightarrow> outcome" where
  "Preview now local_hosts control = de_Outcome (Decide now \<lparr>ob_DeploymentID = [], ob_DisplayName = [], ob_Region = [], ob_KeystoneURL = [],
     ob_LocalHosts = local_hosts, ob_ControlHosts = control, ob_Complete = True, ob_At = 0\<rparr>)"

section \<open>What a caller may fail over\<close>

datatype problem = ProblemUnreachable | ProblemNoCredentials | ProblemPartial | ProblemWarning

definition problem_count :: "rec_report \<Rightarrow> problem \<Rightarrow> nat" where
  "problem_count rep p = length (filter (\<lambda>out. case p of
     ProblemUnreachable \<Rightarrow> ro_Unreachable out \<noteq> None
   | ProblemNoCredentials \<Rightarrow> ro_NoCredentials out \<noteq> None
   | ProblemPartial \<Rightarrow> ro_Partial out \<noteq> []
   | ProblemWarning \<Rightarrow> ro_Warnings out \<noteq> []) (rp_Outcomes rep))"

definition FailOn :: "rec_report \<Rightarrow> problem list \<Rightarrow> problem list" where
  "FailOn rep problems = filter (\<lambda>p. problem_count rep p > 0) problems"

section \<open>What a decision does to the membership rows\<close>

definition host_effect :: "string \<Rightarrow> gotime \<Rightarrow> hostDecision \<Rightarrow> farm_db \<Rightarrow> farm_db" where
  "host_effect dep tm h = (if Membership.Holds h then touch_member (hd_Hostname h) dep tm
     else upsert_member (hd_Hostname h) dep (hd_Confidence h) (hd_Evidence h) tm)"

definition apply_effect :: "decision \<Rightarrow> gotime \<Rightarrow> farm_db \<Rightarrow> farm_db" where
  "apply_effect d tm db = (let db1 = foldl (\<lambda>db h. host_effect (de_DeploymentID d) tm h db) (upsert_deployment d db) (de_Hosts d) in
     if de_SweepStale d then sweep_members (de_DeploymentID d) tm db1 else db1)"

lemma apply_host_Inr: "apply_host env dep tm h db = Inr db' \<Longrightarrow> db' = host_effect dep tm h db"
  by (auto simp: apply_host_def host_effect_def split: if_splits)

lemma ApplyMembership_outcome:
  assumes "ApplyMembership env now d db = (db', r)"
  shows "db' = db \<and> (\<exists>e. r = Inl e) \<or> db' = apply_effect d (if time_is_zero (de_At d) then now else de_At d) db"
proof -
  define tm where "tm = (if time_is_zero (de_At d) then now else de_At d)"
  let ?body = "\<lambda>db. go_bind (tx_stmt env (UpsertDeployment (de_DeploymentID d)) (upsert_deployment d) db) (\<lambda>db.
     go_bind (tx_each (apply_host env (de_DeploymentID d) tm) (de_Hosts d) db) (\<lambda>db.
     go_bind (if de_SweepStale d then tx_stmt env SweepMembers (sweep_members (de_DeploymentID d) tm) db else Inr db) (\<lambda>db.
     Inr (db, ()))))"
  have tx: "in_tx env ?body db = (db', r)" using assms unfolding ApplyMembership_def Let_def tm_def .
  have body: "db1 = apply_effect d tm db" if fine: "?body db = Inr (db1, u)" for db1 u
  proof -
    obtain db2 where "tx_each (apply_host env (de_DeploymentID d) tm) (de_Hosts d) (upsert_deployment d db) = Inr db2"
      and db1: "db1 = (if de_SweepStale d then sweep_members (de_DeploymentID d) tm db2 else db2)"
      using fine by (cases "de_SweepStale d") (auto simp: go_bind_Inr)
    from tx_each_Inr [OF apply_host_Inr this(1)] show ?thesis by (simp add: db1 apply_effect_def Let_def)
  qed
  from in_tx_outcome [OF tx] consider "db' = db" "\<exists>e. r = Inl e" | x where "?body db = Inr (db', x)" by (elim disjE exE conjE) simp_all
  then show ?thesis
  proof cases
    case 2
    from body [OF this] show ?thesis unfolding tm_def by (rule disjI2)
  qed simp
qed

lemma upsert_deployment_frame [simp]:
  "db_members (upsert_deployment d db) = db_members db" "db_servers (upsert_deployment d db) = db_servers db"
  "db_ghosts (upsert_deployment d db) = db_ghosts db" "db_instances (upsert_deployment d db) = db_instances db"
  "db_runs (upsert_deployment d db) = db_runs db" "db_caps (upsert_deployment d db) = db_caps db"
  by (simp_all add: upsert_deployment_def put_deployment_def)

lemma host_effect_frame [simp]:
  "db_servers (host_effect dep tm h db) = db_servers db" "db_ghosts (host_effect dep tm h db) = db_ghosts db"
  "db_instances (host_effect dep tm h db) = db_instances db" "db_runs (host_effect dep tm h db) = db_runs db"
  "db_deployments (host_effect dep tm h db) = db_deployments db" "db_caps (host_effect dep tm h db) = db_caps db"
  "registered (host_effect dep tm h db) = registered db"
  by (auto simp: host_effect_def touch_member_def upsert_member_def registered_def fun_eq_iff split: option.splits)

lemma hosts_effect_frame [simp]:
  "db_servers (foldl (\<lambda>db h. host_effect dep tm h db) db hs) = db_servers db" "db_ghosts (foldl (\<lambda>db h. host_effect dep tm h db) db hs) = db_ghosts db"
  "db_instances (foldl (\<lambda>db h. host_effect dep tm h db) db hs) = db_instances db" "db_runs (foldl (\<lambda>db h. host_effect dep tm h db) db hs) = db_runs db"
  "db_deployments (foldl (\<lambda>db h. host_effect dep tm h db) db hs) = db_deployments db"
  "registered (foldl (\<lambda>db h. host_effect dep tm h db) db hs) = registered db"
  by (induction hs arbitrary: db) simp_all

text \<open>What one decision makes of a row: a held host's row is only touched, a judged host's row says so from now on.\<close>

definition decided_row :: "bool \<Rightarrow> hostDecision \<Rightarrow> gotime \<Rightarrow> member_row option \<Rightarrow> member_row option" where
  "decided_row known h tm old = (if Membership.Holds h then map_option (\<lambda>r. r \<lparr>mr_ObservedAt := tm\<rparr>) old
     else if known then Some \<lparr>mr_Confidence = hd_Confidence h, mr_Evidence = hd_Evidence h, mr_ObservedAt = tm\<rparr> else old)"

lemma host_effect_row:
  "map_of (db_members (host_effect dep tm h db)) k =
     (if k = (hd_Hostname h, dep) then decided_row (registered db (hd_Hostname h)) h tm (map_of (db_members db) k) else map_of (db_members db) k)"
  by (auto simp: host_effect_def touch_member_def upsert_member_def decided_row_def split: option.splits)

lemma decided_row_twice: "decided_row known h tm (decided_row known h tm old) = decided_row known h tm old"
  by (cases old) (auto simp: decided_row_def)

lemma hosts_effect_rows:
  assumes "\<And>host. hd_Hostname (g host) = host"
  shows "map_of (db_members (foldl (\<lambda>db h. host_effect dep tm h db) db (map g hosts))) k =
     (if snd k = dep \<and> fst k \<in> set hosts then decided_row (registered db (fst k)) (g (fst k)) tm (map_of (db_members db) k) else map_of (db_members db) k)"
proof (induction hosts rule: rev_induct)
  case (snoc h hosts)
  then show ?case by (cases k) (auto simp: host_effect_row assms decided_row_twice)
qed simp

lemma map_of_filter_rows: "gomap_wf m \<Longrightarrow> map_of (filter P m) k = (case map_of m k of None \<Rightarrow> None | Some v \<Rightarrow> if P (k, v) then Some v else None)"
proof (induction m)
  case (Cons x m)
  moreover have "map_of (filter P m) k = None" if "map_of m k = None" for m
    using that by (auto simp: map_of_eq_None_iff)
  ultimately show ?case by (cases x) (auto simp: gomap_wf_def map_of_eq_None_iff image_iff split: option.splits)
qed simp

lemma host_effect_wf: "gomap_wf (db_members db) \<Longrightarrow> gomap_wf (db_members (host_effect dep tm h db))"
  by (auto simp: host_effect_def touch_member_def upsert_member_def split: option.splits)

lemma hosts_effect_wf: "gomap_wf (db_members db) \<Longrightarrow> gomap_wf (db_members (foldl (\<lambda>db h. host_effect dep tm h db) db hs))"
  by (induction hs arbitrary: db) (simp_all add: host_effect_wf)

lemma Decide_meta:
  "de_DeploymentID (Decide now obs) = ob_DeploymentID obs" "ob_At obs \<noteq> 0 \<Longrightarrow> de_At (Decide now obs) = ob_At obs"
proof -
  have "de_DeploymentID (fst (decide_local obs pairs acc h)) = de_DeploymentID (fst acc) \<and> de_At (fst (decide_local obs pairs acc h)) = de_At (fst acc)"
    for pairs acc h by (cases acc) (simp add: decide_local_def Let_def split: option.splits)
  then have "de_DeploymentID (fst (foldl (decide_local obs pairs) acc hs)) = de_DeploymentID (fst acc) \<and>
      de_At (fst (foldl (decide_local obs pairs) acc hs)) = de_At (fst acc)" for pairs acc hs
    by (induction hs arbitrary: acc) simp_all
  from this [of _ "(blank_decision now obs, [])" "ob_LocalHosts obs"]
  show "de_DeploymentID (Decide now obs) = ob_DeploymentID obs" "ob_At obs \<noteq> 0 \<Longrightarrow> de_At (Decide now obs) = ob_At obs"
    by (auto simp: Decide_def blank_decision_def time_is_zero_def split: prod.splits) (metis decision.select_convs(1,7) fst_conv)+
qed

text \<open>What a sweep makes of a row, and what a decision and the sweep after it make of one.\<close>

definition swept :: "observation \<Rightarrow> member_row option \<Rightarrow> member_row option" where
  "swept obs old = (case old of Some r \<Rightarrow> if ob_Complete obs \<and> mr_ObservedAt r < ob_At obs then None else old | None \<Rightarrow> None)"

lemma apply_effect_row:
  assumes "MatchHosts (ob_LocalHosts obs) (ob_ControlHosts obs) = (pairs, ambiguous)" "ob_At obs \<noteq> 0" "gomap_wf (db_members db)"
  shows "map_of (db_members (apply_effect (Decide now obs) (ob_At obs) db)) (h, dep) =
    (let old = map_of (db_members db) (h, dep) in
     if dep \<noteq> ob_DeploymentID obs then old
     else swept obs (if h \<in> set (ob_LocalHosts obs) then decided_row (registered db h) (host_row obs pairs h) (ob_At obs) old else old))"
proof -
  let ?d = "Decide now obs"
  let ?db = "foldl (\<lambda>db h. host_effect (ob_DeploymentID obs) (ob_At obs) h db) (upsert_deployment ?d db) (map (host_row obs pairs) (ob_LocalHosts obs))"
  have name: "hd_Hostname (host_row obs pairs host) = host" for host by (simp add: host_row_def split: option.splits)
  have "registered (upsert_deployment ?d db) = registered db" by (simp add: registered_def fun_eq_iff)
  then have row: "map_of (db_members ?db) (h, dep) = (if dep = ob_DeploymentID obs \<and> h \<in> set (ob_LocalHosts obs)
      then decided_row (registered db h) (host_row obs pairs h) (ob_At obs) (map_of (db_members db) (h, dep)) else map_of (db_members db) (h, dep))"
    by (simp add: hosts_effect_rows [OF name])
  have wf: "gomap_wf (db_members ?db)" by (rule hosts_effect_wf) (simp add: assms(3))
  have eff: "db_members (apply_effect ?d (ob_At obs) db) = (if ob_Complete obs then db_members (sweep_members (ob_DeploymentID obs) (ob_At obs) ?db) else db_members ?db)"
    by (simp add: apply_effect_def Let_def Decide_meta Decide_shape [OF assms(1)])
  have last: "map_of (if ob_Complete obs then db_members (sweep_members (ob_DeploymentID obs) (ob_At obs) ?db) else db_members ?db) (h, dep) =
      (if dep = ob_DeploymentID obs then swept obs (map_of (db_members ?db) (h, dep)) else map_of (db_members ?db) (h, dep))"
    by (simp add: sweep_members_def map_of_filter_rows [OF wf] swept_def split: option.split)
  show ?thesis
    unfolding eff Let_def last row by simp
qed

text \<open>C27: a reconcile records exactly what it decided. Whatever fails, the membership rows are as they were or as the decision says: rows
  of other deployments are untouched; a registered inventory host paired with a control-plane name is confirmed with that name
  as evidence; an unpaired one becomes local-only on a complete answer and keeps its row on a partial one; a host the farm
  no longer names loses its row only on a complete answer, and only if the row is older than the observation.\<close>

theorem reconcile_records_the_decision:
  assumes "ApplyMembership env now (Decide now obs) db = (db', r)" "MatchHosts (ob_LocalHosts obs) (ob_ControlHosts obs) = (pairs, ambiguous)"
    and "ob_At obs \<noteq> 0" "gomap_wf (db_members db)"
  shows "(db_members db' = db_members db \<and> (\<exists>e. r = Inl e)) \<or> (\<forall>h dep. map_of (db_members db') (h, dep) =
    (let old = map_of (db_members db) (h, dep) in
     if dep \<noteq> ob_DeploymentID obs then old
     else if h \<in> set (ob_LocalHosts obs) then
       (case map_of pairs h of
          Some nova \<Rightarrow> if registered db h then Some \<lparr>mr_Confidence = Confirmed, mr_Evidence = [(''local'', EvBool True), (''control'', EvBool True),
            (''nova_hostname'', EvString nova)], mr_ObservedAt = ob_At obs\<rparr> else swept obs old
        | None \<Rightarrow> if \<not> ob_Complete obs then map_option (\<lambda>r. r \<lparr>mr_ObservedAt := ob_At obs\<rparr>) old
            else if registered db h then Some \<lparr>mr_Confidence = LocalOnly, mr_Evidence = [(''local'', EvBool True), (''control'', EvBool False)],
              mr_ObservedAt = ob_At obs\<rparr> else swept obs old)
     else swept obs old))"
proof -
  have at_d: "de_At (Decide now obs) = ob_At obs" using assms(3) by (rule Decide_meta)
  from ApplyMembership_outcome [OF assms(1)] consider "db' = db" "\<exists>e. r = Inl e" | "db' = apply_effect (Decide now obs) (ob_At obs) db"
    unfolding at_d using assms(3) by (auto simp: time_is_zero_def)
  then show ?thesis
  proof cases
    case 2
    have "Confirmed \<noteq> []" "LocalOnly \<noteq> []" by code_simp+
    then have judged: "decided_row known (host_row obs pairs h) (ob_At obs) old = (case map_of pairs h of
        Some nova \<Rightarrow> if known then Some \<lparr>mr_Confidence = Confirmed, mr_Evidence = [(''local'', EvBool True), (''control'', EvBool True),
          (''nova_hostname'', EvString nova)], mr_ObservedAt = ob_At obs\<rparr> else old
      | None \<Rightarrow> if \<not> ob_Complete obs then map_option (\<lambda>r. r \<lparr>mr_ObservedAt := ob_At obs\<rparr>) old
          else if known then Some \<lparr>mr_Confidence = LocalOnly, mr_Evidence = [(''local'', EvBool True), (''control'', EvBool False)],
            mr_ObservedAt = ob_At obs\<rparr> else old)" for known h old
      by (cases "map_of pairs h") (simp_all add: decided_row_def host_row_def Membership.Holds_def)
    have fresh: "swept obs (Some r) = Some r" if "mr_ObservedAt r = ob_At obs" for r using that by (simp add: swept_def)
    have held: "swept obs old = old" if "\<not> ob_Complete obs" for old using that by (simp add: swept_def split: option.split)
    have "map_of (db_members db') (h, dep) =
    (let old = map_of (db_members db) (h, dep) in
     if dep \<noteq> ob_DeploymentID obs then old
     else if h \<in> set (ob_LocalHosts obs) then
       (case map_of pairs h of
          Some nova \<Rightarrow> if registered db h then Some \<lparr>mr_Confidence = Confirmed, mr_Evidence = [(''local'', EvBool True), (''control'', EvBool True),
            (''nova_hostname'', EvString nova)], mr_ObservedAt = ob_At obs\<rparr> else swept obs old
        | None \<Rightarrow> if \<not> ob_Complete obs then map_option (\<lambda>r. r \<lparr>mr_ObservedAt := ob_At obs\<rparr>) old
            else if registered db h then Some \<lparr>mr_Confidence = LocalOnly, mr_Evidence = [(''local'', EvBool True), (''control'', EvBool False)],
              mr_ObservedAt = ob_At obs\<rparr> else swept obs old)
     else swept obs old)" for h dep
      unfolding 2 apply_effect_row [OF assms(2-4)] Let_def judged by (cases "map_of pairs h") (simp_all add: fresh held)
    then show ?thesis by blast
  qed simp
qed

section \<open>What a run keeps\<close>

text \<open>A relation between databases that every statement of a farm's pass keeps is kept by the whole pass. The two flags say whether
  the control plane and the VM listing may have answered fully, which is when rows are demoted, swept or marked.\<close>

locale farm_pass = kept_relation keeps for keeps :: "farm_db \<Rightarrow> farm_db \<Rightarrow> bool" +
  fixes dep :: string and hosts_whole vms_whole :: bool
  assumes keeps_deployment: "de_DeploymentID d = dep \<Longrightarrow> keeps db (upsert_deployment d db)"
    and keeps_touch: "keeps db (touch_member h dep tm db)"
    and keeps_member: "hosts_whole \<or> c = Confirmed \<Longrightarrow> keeps db (upsert_member h dep c ev tm db)"
    and keeps_sweep: "hosts_whole \<Longrightarrow> keeps db (sweep_members dep tm db)"
    and keeps_failed_run: "keeps db (failed_run dep tm msg db)"
    and keeps_finished_run: "keeps db (finished_run dep tm res db)"
    and keeps_ghost: "hosts_whole \<Longrightarrow> keeps db (upsert_ghost dep tm n db)"
    and keeps_ghost_sweep: "hosts_whole \<Longrightarrow> keeps db (db \<lparr>db_ghosts := filter (\<lambda>(k, g). \<not> (fst k = dep \<and> gh_LastSeenAt g < tm)) (db_ghosts db)\<rparr>)"
    and keeps_instance: "keeps db (upsert_instance dep tm i db)"
    and keeps_no_address: "keeps db (delete_addresses dep j db)"
    and keeps_address: "keeps db (upsert_address dep j a db)"
    and keeps_missing: "vms_whole \<Longrightarrow> keeps db (mark_missing dep tm db)"
begin

lemma entries_keep: "\<forall>e \<in> set es. \<forall>db. keeps db (fst (snd (snd e)) db) \<Longrightarrow> keeps db (run_entries es db)"
proof (induction es arbitrary: db)
  case (Cons e es)
  then have "keeps db (fst (snd (snd e)) db)" "keeps (fst (snd (snd e)) db) (run_entries es (fst (snd (snd e)) db))" by simp_all
  from keeps_trans [OF this] show ?case by (cases e) (simp add: run_entries_def)
qed (simp add: run_entries_def keeps_refl)

lemma batch_keeps: "keeps db (run_entries (instanceBatch dep ins tm) db)"
proof (induction ins arbitrary: db)
  case (Cons i ins)
  have "keeps db (run_entries (instance_entries dep tm i) db)"
  proof (cases "vm_InstanceID i = []")
    case False
    then show ?thesis unfolding instance_entries_def if_not_P [OF False] mark_last_run
      by (intro entries_keep) (auto intro: keeps_instance keeps_no_address keeps_address)
  qed (simp add: instance_entries_def run_entries_def keeps_refl)
  from keeps_trans [OF this Cons.IH] show ?case by (simp add: instanceBatch_def run_entries_append)
qed (simp add: instanceBatch_def run_entries_def keeps_refl)

lemma ReplaceInstances_keeps:
  assumes "whole \<Longrightarrow> vms_whole" "ReplaceInstances env now dep ins tm whole db = (db', seen, err)"
  shows "keeps db db'"
proof -
  have "keeps db (listing_effect dep ins t whole db)" for t
    using batch_keeps keeps_trans [OF batch_keeps keeps_missing] assms(1) by (simp add: listing_effect_def Let_def)
  then show ?thesis using ReplaceInstances_outcome [OF assms(2)] keeps_refl by metis
qed

lemma collectInstances_keeps:
  assumes "collectInstances w n dep creds ws db = (db', k, ws')" "li_Complete (fst (wd_list w n creds)) \<Longrightarrow> vms_whole"
  shows "keeps db db'"
proof (cases "snd (wd_list w n creds)")
  case None
  let ?l = "fst (wd_list w n creds)"
  obtain db1 seen err where r: "ReplaceInstances (wd_env w n OpInstances) (wd_now w n OpInstances) dep (listing_rows dep ?l) (wd_now w n OpInstances)
      (li_Complete ?l) db = (db1, seen, err)" by (rule prod_cases3)
  with assms(1) None have "db' = db1" by (cases "wd_list w n creds") (auto simp: collectInstances_def Let_def split: option.splits)
  with ReplaceInstances_keeps [OF assms(2) r] show ?thesis by simp
next
  case (Some e)
  with assms(1) show ?thesis by (cases "wd_list w n creds") (auto simp: collectInstances_def Let_def keeps_refl)
qed

lemma ApplyMembership_keeps:
  assumes "ApplyMembership env now d db = (db', r)" "de_DeploymentID d = dep" "de_SweepStale d \<Longrightarrow> hosts_whole"
    and "\<And>h. h \<in> set (de_Hosts d) \<Longrightarrow> hosts_whole \<or> hd_Confidence h = Confirmed \<or> Membership.Holds h"
  shows "keeps db db'"
proof -
  have "keeps db (host_effect dep tm h db)" if "h \<in> set (de_Hosts d)" for tm h db
    using assms(4) [OF that] by (auto simp: host_effect_def intro: keeps_touch keeps_member)
  then have "keeps db (foldl (\<lambda>db h. host_effect dep tm h db) db (de_Hosts d))" for tm db by (rule foldl_keeps)
  then have rows: "keeps db (foldl (\<lambda>db h. host_effect dep tm h db) (upsert_deployment d db) (de_Hosts d))" for tm
    using keeps_deployment [OF assms(2)] by (rule keeps_trans [rotated])
  have "keeps db (apply_effect d tm db)" for tm
    using rows keeps_trans [OF rows keeps_sweep] assms(3) by (simp add: apply_effect_def assms(2) Let_def)
  then show ?thesis using ApplyMembership_outcome [OF assms(1)] keeps_refl by metis
qed

lemma RecordReconcileRun_keeps: "keeps db (fst (RecordReconcileRun env now dep res tm e db))"
  by (cases e) (auto simp: RecordReconcileRun_def Let_def intro!: pool_insert_keeps keeps_failed_run keeps_finished_run)

lemma RecordGhostHosts_keeps:
  assumes "hosts_whole"
  shows "keeps db (fst (RecordGhostHosts env now dep ns tm db))"
proof -
  let ?f = "\<lambda>tm n db. if n = [] then Inr db else tx_insert env (UpsertGhost n) (known_deployment dep) (upsert_ghost dep tm n) db"
  have "keeps db1 db2" if "?f tm n db1 = Inr db2" for tm n db1 db2
    using that assms by (auto intro: keeps_refl keeps_ghost split: if_splits)
  then have "keeps db1 db2" if "tx_each (?f tm) ns db1 = Inr db2" for tm db1 db2 using that by (rule tx_each_keeps)
  note rows = this and swept = keeps_ghost_sweep [OF assms]
  show ?thesis unfolding RecordGhostHosts_def Let_def
  proof (intro in_tx_keeps, unfold go_bind_Inr tx_stmt_Inr, elim exE conjE)
    fix db' db1 db2 and u v :: unit
    assume "tx_each (?f (if time_is_zero tm then now else tm)) ns db = Inr db1"
    then have "keeps db db1" by (rule rows)
    moreover assume db2: "db2 = db1 \<lparr>db_ghosts := filter (\<lambda>(k, g). \<not> (fst k = dep \<and> gh_LastSeenAt g < (if time_is_zero tm then now else tm))) (db_ghosts db1)\<rparr>"
      and "Inr (db2, u) = Inr (db', v)"
    moreover from db2 have "keeps db1 db2" using swept by simp
    ultimately show "keeps db db'" using keeps_trans by simp
  qed
qed

end

lemma Decide_hosts:
  "h \<in> set (de_Hosts (Decide now obs)) \<Longrightarrow> ob_Complete obs \<or> hd_Confidence h = Confirmed \<or> Membership.Holds h"
  by (cases "MatchHosts (ob_LocalHosts obs) (ob_ControlHosts obs)")
    (auto simp: Decide_shape host_row_def Membership.Holds_def split: option.splits)

lemma Decide_sweep: "de_SweepStale (Decide now obs) = ob_Complete obs"
  by (cases "MatchHosts (ob_LocalHosts obs) (ob_ControlHosts obs)") (simp add: Decide_shape)

text \<open>What the control plane of the farm at a position answered.\<close>

definition hosts_answered :: "rec_world \<Rightarrow> nat \<Rightarrow> bool" where
  "hosts_answered w n \<longleftrightarrow> (case wd_creds w n of Inl _ \<Rightarrow> False | Inr creds \<Rightarrow> (case wd_hosts w n creds of Inl _ \<Rightarrow> False | Inr l \<Rightarrow> hl_Complete l))"

definition vms_answered :: "rec_world \<Rightarrow> nat \<Rightarrow> bool" where
  "vms_answered w n \<longleftrightarrow> (case wd_creds w n of Inl _ \<Rightarrow> False | Inr creds \<Rightarrow> li_Complete (fst (wd_list w n creds)))"

context farm_pass
begin

lemma write_farm_keeps:
  assumes w: "write_farm w n f creds l d out db = (db', r)" and id: "fa_ID f = dep" "de_DeploymentID d = dep"
    and part: "hl_Complete l \<Longrightarrow> hosts_whole" "li_Complete (fst (wd_list w n creds)) \<Longrightarrow> vms_whole" "de_SweepStale d \<Longrightarrow> hosts_whole"
    and hosts: "\<And>h. h \<in> set (de_Hosts d) \<Longrightarrow> hosts_whole \<or> hd_Confidence h = Confirmed \<or> Membership.Holds h"
  shows "keeps db db'"
proof -
  obtain db1 k ws where 1: "collectInstances w n dep creds (ro_Warnings out) db = (db1, k, ws)" by (rule prod_cases3)
  obtain db2 r2 where 2: "ApplyMembership (wd_env w n OpApply) (wd_now w n OpApply) d db1 = (db2, r2)" by fastforce
  have k2: "keeps db db2"
    using collectInstances_keeps [OF 1 part(2)] ApplyMembership_keeps [OF 2 id(2) part(3) hosts] by (rule keeps_trans)
  show ?thesis
  proof (cases r2)
    case (Inl e)
    with w 1 2 id have "db' = db2" by (simp add: write_farm_def Let_def)
    with k2 show ?thesis by simp
  next
    case (Inr u)
    obtain db3 r3 where 3: "RecordReconcileRun (wd_env w n OpRun) (wd_now w n OpRun) dep (de_Outcome d) (wd_now w n OpRun) None db2 = (db3, r3)" by fastforce
    have k3: "keeps db db3"
      using keeps_trans [OF k2 RecordReconcileRun_keeps [of db2 "wd_env w n OpRun" "wd_now w n OpRun" "de_Outcome d" "wd_now w n OpRun" None]] by (simp add: 3)
    show ?thesis
    proof (cases "hl_Complete l")
      case True
      with w 1 2 3 id Inr have "db' = fst (RecordGhostHosts (wd_env w n OpGhosts) (wd_now w n OpGhosts) dep (oc_ControlOnly (de_Outcome d)) (wd_now w n OpGhosts) db3)"
        by (simp add: write_farm_def Let_def split: prod.splits)
      with keeps_trans [OF k3 RecordGhostHosts_keeps [OF part(1)]] True show ?thesis by simp
    next
      case False
      with w 1 2 3 id Inr have "db' = db3" by (simp add: write_farm_def Let_def)
      with k3 show ?thesis by simp
    qed
  qed
qed

lemma run_farm_keeps:
  assumes "run_farm w dryRun n f db = (db', reached, r)" "fa_ID f = dep" "hosts_answered w n \<Longrightarrow> hosts_whole" "vms_answered w n \<Longrightarrow> vms_whole"
  shows "keeps db db'"
proof (cases "wd_creds w n")
  case (Inr creds)
  show ?thesis
  proof (cases "wd_hosts w n creds")
    case (Inl e)
    have "keeps db (fst (RecordReconcileRun env now dep zero_outcome tm msg db))" for env now tm msg by (rule RecordReconcileRun_keeps)
    moreover have "db' = (if dryRun then db else fst (RecordReconcileRun (wd_env w n OpRun) (wd_now w n OpRun) dep zero_outcome (wd_now w n OpRun) (Some (err_text e)) db))"
      using assms(1,2) Inr Inl by (auto simp: run_farm_def Let_def split: if_splits prod.splits)
    ultimately show ?thesis using keeps_refl by simp
  next
    case l: (Inr l)
    let ?d = "Decide (wd_now w n OpDecide) (farm_observation w n f l)" and ?out = "if hl_Complete l then new_outcome dep else (new_outcome dep) \<lparr>ro_Partial := PartialReason l\<rparr>"
    have obs: "ob_Complete (farm_observation w n f l) = hl_Complete l" "ob_DeploymentID (farm_observation w n f l) = dep"
      by (simp_all add: farm_observation_def assms(2))
    have whole: "hl_Complete l \<Longrightarrow> hosts_whole" "li_Complete (fst (wd_list w n creds)) \<Longrightarrow> vms_whole"
      using assms(3,4) by (simp_all add: hosts_answered_def vms_answered_def Inr l)
    show ?thesis
    proof (cases dryRun)
      case False
      then have "write_farm w n f creds l ?d ?out db = (db', r)"
        using assms(1,2) Inr l by (cases "hl_Complete l") (simp_all add: run_farm_def Let_def split: prod.splits)
      then show ?thesis
      proof (rule write_farm_keeps)
        show "de_DeploymentID ?d = dep" by (simp add: Decide_meta obs)
        show "de_SweepStale ?d \<Longrightarrow> hosts_whole" using whole(1) by (simp add: Decide_sweep obs)
        show "hosts_whole \<or> hd_Confidence h = Confirmed \<or> Membership.Holds h" if "h \<in> set (de_Hosts ?d)" for h
          using Decide_hosts [OF that] whole(1) by (auto simp: obs)
      qed (use assms(2) whole in auto)
    qed (use assms(1) Inr l in \<open>simp add: run_farm_def Let_def keeps_refl\<close>)
  qed
qed (use assms(1) in \<open>simp add: run_farm_def Let_def keeps_refl\<close>)

end

subsection \<open>A farm's pass writes only that farm's rows\<close>

definition same_rows :: "string \<Rightarrow> farm_db \<Rightarrow> farm_db \<Rightarrow> bool" where
  "same_rows dep db db' \<longleftrightarrow> map_of (db_deployments db') dep = map_of (db_deployments db) dep \<and> map_of (db_runs db') dep = map_of (db_runs db) dep \<and>
     (\<forall>x. map_of (db_members db') (x, dep) = map_of (db_members db) (x, dep)) \<and> (\<forall>x. map_of (db_ghosts db') (dep, x) = map_of (db_ghosts db) (dep, x)) \<and>
     (\<forall>x. map_of (db_instances db') (dep, x) = map_of (db_instances db) (dep, x)) \<and> (\<forall>x. map_of (db_addresses db') (dep, x) = map_of (db_addresses db) (dep, x))"

definition same_elsewhere :: "string \<Rightarrow> farm_db \<Rightarrow> farm_db \<Rightarrow> bool" where
  "same_elsewhere dep db db' \<longleftrightarrow> db_servers db' = db_servers db \<and> db_caps db' = db_caps db \<and> db_pass_seq db' = db_pass_seq db \<and>
     (\<forall>other. other \<noteq> dep \<longrightarrow> same_rows other db db')"

lemma map_of_filter_keep: "(\<And>v. P (k, v)) \<Longrightarrow> map_of (filter P m) k = map_of m k"
  by (induction m) auto

lemma map_of_map_same: "(\<And>v. f k v = v) \<Longrightarrow> map_of (map (\<lambda>(k, v). (k, f k v)) m) k = map_of m k"
  by (induction m) auto

lemmas row_updates = upsert_deployment_def put_deployment_def touch_member_def upsert_member_def sweep_members_def failed_run_def finished_run_def
  upsert_ghost_def upsert_instance_def delete_addresses_def upsert_address_def mark_missing_def Let_def

interpretation confined: farm_pass "same_elsewhere dep" dep True True for dep
  by unfold_locales
    (auto simp: same_elsewhere_def same_rows_def row_updates map_of_filter_keep map_of_map_same split: option.splits)

subsection \<open>A partial answer takes nothing away\<close>

definition nothing_taken :: "string \<Rightarrow> farm_db \<Rightarrow> farm_db \<Rightarrow> bool" where
  "nothing_taken dep db db' \<longleftrightarrow>
     (\<forall>h r. map_of (db_members db) (h, dep) = Some r \<longrightarrow> (\<exists>r'. map_of (db_members db') (h, dep) = Some r' \<and>
        (mr_Confidence r' = Confirmed \<or> mr_Confidence r' = mr_Confidence r \<and> mr_Evidence r' = mr_Evidence r))) \<and>
     (\<forall>n. map_of (db_ghosts db') (dep, n) = map_of (db_ghosts db) (dep, n)) \<and>
     (\<forall>i v. map_of (db_instances db) (dep, i) = Some v \<longrightarrow> (\<exists>v'. map_of (db_instances db') (dep, i) = Some v' \<and>
        (vm_MissingSince v' = None \<or> vm_MissingSince v' = vm_MissingSince v))) \<and>
     (\<forall>d. map_of (db_deployments db) dep = Some d \<longrightarrow> (\<exists>d'. map_of (db_deployments db') dep = Some d' \<and>
        dp_State d' = dp_State d \<and> dp_StateNote d' = dp_StateNote d))"

lemma nothing_taken_trans: "nothing_taken dep db1 db2 \<Longrightarrow> nothing_taken dep db2 db3 \<Longrightarrow> nothing_taken dep db1 db3"
  unfolding nothing_taken_def by (elim conjE, intro conjI allI impI) (metis | simp)+

lemma same_rows_taken: "same_rows dep db db' \<Longrightarrow> nothing_taken dep db db'"
  by (simp add: same_rows_def nothing_taken_def)

interpretation partial: farm_pass "nothing_taken dep" dep False False for dep
proof unfold_locales
  show "nothing_taken dep db db" for db by (simp add: nothing_taken_def)
  show "nothing_taken dep db1 db2 \<Longrightarrow> nothing_taken dep db2 db3 \<Longrightarrow> nothing_taken dep db1 db3" for db1 db2 db3 by (rule nothing_taken_trans)
qed (auto simp: nothing_taken_def row_updates deployment_row_def split: option.splits)

text \<open>The rows of a deployment through a whole run: other farms leave them alone, and its own passes take nothing away while
  the answers are partial.\<close>

lemma run_farms_taken:
  assumes "run_farms w dryRun n farms rep db = (db', rep', err)"
    and "\<And>i. i < length farms \<Longrightarrow> fa_ID (farms ! i) = dep \<Longrightarrow> \<not> hosts_answered w (n + i) \<and> \<not> vms_answered w (n + i)"
  shows "nothing_taken dep db db'"
  using assms
proof (induction farms arbitrary: n rep db)
  case (Cons f farms)
  obtain db1 reached r where 1: "run_farm w dryRun n f db = (db1, reached, r)" by (rule prod_cases3)
  have "nothing_taken dep db db1"
  proof (cases "fa_ID f = dep")
    case True
    with Cons.prems(2) [of 0] show ?thesis by (intro partial.run_farm_keeps [OF 1]) auto
  next
    case False
    have "same_elsewhere (fa_ID f) db db1" by (rule confined.run_farm_keeps [OF 1]) auto
    with False show ?thesis by (auto simp: same_elsewhere_def intro: same_rows_taken)
  qed
  moreover have "nothing_taken dep db1 db'"
  proof (cases r)
    case (Inl e)
    with 1 Cons.prems(1) have "db' = db1" by simp
    then show ?thesis by (simp add: partial.keeps_refl)
  next
    case (Inr out)
    have later: "\<not> hosts_answered w (Suc n + i) \<and> \<not> vms_answered w (Suc n + i)" if "i < length farms" "fa_ID (farms ! i) = dep" for i
      using Cons.prems(2) [of "Suc i"] that by simp
    from Inr 1 Cons.prems(1) obtain rep1 where "run_farms w dryRun (Suc n) farms rep1 db1 = (db', rep', err)" by (auto simp: Let_def)
    from Cons.IH [OF this later] show ?thesis .
  qed
  ultimately show ?case by (rule nothing_taken_trans)
qed (simp add: partial.keeps_refl)

lemma run_farms_confined:
  assumes "run_farms w dryRun n farms rep db = (db', rep', err)" "dep \<notin> fa_ID ` set farms"
  shows "same_rows dep db db'"
  using assms
proof (induction farms arbitrary: n rep db)
  case (Cons f farms)
  obtain db1 reached r where 1: "run_farm w dryRun n f db = (db1, reached, r)" by (rule prod_cases3)
  have "same_elsewhere (fa_ID f) db db1" by (rule confined.run_farm_keeps [OF 1]) auto
  then have "same_rows dep db db1" using Cons.prems(2) by (auto simp: same_elsewhere_def)
  moreover have "same_rows dep db1 db'"
  proof (cases r)
    case (Inl e)
    with 1 Cons.prems(1) show ?thesis by (simp add: same_rows_def)
  next
    case (Inr out)
    with 1 Cons.prems(1) obtain rep1 where "run_farms w dryRun (Suc n) farms rep1 db1 = (db', rep', err)" by (auto simp: Let_def)
    from Cons.IH [OF this] Cons.prems(2) show ?thesis by simp
  qed
  ultimately show ?case by (simp add: same_rows_def)
qed (simp add: same_rows_def)

text \<open>C28: a run takes away only what a complete answer denies. Whatever fails, a deployment the run was not asked about keeps every row; and
  a deployment whose control plane gave no complete answer, because it had no credentials, could not be reached or answered in part, keeps
  every membership at its confidence or better, every control-only host, every VM without a new missing mark, and its declared state.\<close>

theorem partial_answers_take_nothing_away:
  assumes "Service_Run w dryRun farms db = (db', rep, err)"
  shows "(dep \<notin> fa_ID ` set farms \<longrightarrow> same_rows dep db db') \<and>
    ((\<forall>i < length farms. fa_ID (farms ! i) = dep \<longrightarrow> \<not> hosts_answered w i \<and> \<not> vms_answered w i) \<longrightarrow> nothing_taken dep db db')"
  using run_farms_confined [OF assms [unfolded Service_Run_def]] run_farms_taken [OF assms [unfolded Service_Run_def]] by simp

section \<open>A dry run\<close>

text \<open>What a real run adds to an outcome: how many VMs were recorded, and the warnings of the writes.\<close>

definition decided_part :: "rec_outcome \<Rightarrow> rec_outcome" where
  "decided_part out = out \<lparr>ro_Instances := 0, ro_Warnings := []\<rparr>"

lemma add_warning_decided [simp]: "decided_part (add_warning msg r out) = decided_part out"
  by (auto simp: add_warning_def decided_part_def split: sum.splits)

lemma write_farm_decided:
  assumes "write_farm w n f creds l d out db = (db', r)"
  shows "(\<exists>e. r = Inl (Wrapf (fa_ID f) e)) \<or> (\<exists>out'. r = Inr out' \<and> decided_part out' = decided_part (out \<lparr>ro_Result := de_Outcome d\<rparr>))"
proof -
  obtain db1 k ws where 1: "collectInstances w n (fa_ID f) creds (ro_Warnings out) db = (db1, k, ws)" by (rule prod_cases3)
  obtain db2 r2 where 2: "ApplyMembership (wd_env w n OpApply) (wd_now w n OpApply) d db1 = (db2, r2)" by fastforce
  show ?thesis
  proof (cases r2)
    case (Inr u)
    let ?out = "out \<lparr>ro_Instances := k, ro_Warnings := ws, ro_Result := de_Outcome d\<rparr>"
    from assms 1 2 Inr obtain r3 r4 where "r = Inr (add_warning ''recording control-only hosts'' r4 (add_warning ''recording the run'' r3 ?out)) \<or>
        r = Inr (add_warning ''recording the run'' r3 ?out)"
      by (cases "hl_Complete l") (auto simp: write_farm_def Let_def split: prod.splits)
    moreover have "decided_part ?out = decided_part (out \<lparr>ro_Result := de_Outcome d\<rparr>)" by (simp add: decided_part_def)
    ultimately show ?thesis by (metis add_warning_decided)
  qed (use assms 1 2 in \<open>auto simp: write_farm_def Let_def\<close>)
qed

lemma run_farm_decided:
  assumes "run_farm w False n f db = (db', reached, r)"
  shows "\<exists>out. run_farm w True n f db0 = (db0, reached, Inr out) \<and> decided_part out = out \<and>
    ((\<exists>e. r = Inl (Wrapf (fa_ID f) e)) \<or> (\<exists>out'. r = Inr out' \<and> decided_part out' = out))"
proof -
  have new: "decided_part (new_outcome i) = new_outcome i" for i by (simp add: decided_part_def new_outcome_def)
  show ?thesis
  proof (cases "wd_creds w n")
    case (Inl e)
    with assms show ?thesis by (auto simp: run_farm_def Let_def decided_part_def new_outcome_def)
  next
    case creds: (Inr creds)
    show ?thesis
    proof (cases "wd_hosts w n creds")
      case (Inl e)
      with assms creds new show ?thesis by (auto simp: run_farm_def Let_def split: prod.splits) (auto simp: decided_part_def new_outcome_def)
    next
      case (Inr l)
      let ?d = "Decide (wd_now w n OpDecide) (farm_observation w n f l)"
        and ?out = "if hl_Complete l then new_outcome (fa_ID f) else (new_outcome (fa_ID f)) \<lparr>ro_Partial := PartialReason l\<rparr>"
      have "write_farm w n f creds l ?d ?out db = (db', r)" "reached"
        using assms creds Inr by (cases "hl_Complete l"; simp add: run_farm_def Let_def split: prod.splits)+
      from write_farm_decided [OF this(1)] this(2) creds Inr show ?thesis
        by (cases "hl_Complete l") (auto simp: run_farm_def Let_def decided_part_def new_outcome_def)
    qed
  qed
qed

lemma dry_run_grows:
  "fst (run_farms w True m fs rep db) = db \<and> prefix (rp_Outcomes rep) (rp_Outcomes (fst (snd (run_farms w True m fs rep db))))"
proof (induction fs arbitrary: m rep)
  case (Cons g fs)
  obtain db2 reached r where "run_farm w False m g db = (db2, reached, r)" by (rule prod_cases3)
  from run_farm_decided [OF this, of db] obtain out where "run_farm w True m g db = (db, reached, Inr out)" by blast
  with Cons [of "Suc m" "(if reached then rep \<lparr>rp_Reached := Suc (rp_Reached rep)\<rparr> else rep) \<lparr>rp_Outcomes := rp_Outcomes rep @ [out]\<rparr>"]
  show ?case by (auto simp: Let_def intro: prefix_order.trans prefixI split: if_splits)
qed simp

lemma run_farms_decided:
  assumes "run_farms w False n farms rep db = (db', rep', err')" "map decided_part (rp_Outcomes rep) = rp_Outcomes rep0" "rp_Reached rep = rp_Reached rep0"
  shows "\<exists>rep1 err1. run_farms w True n farms rep0 db0 = (db0, rep1, err1) \<and>
    (map decided_part (rp_Outcomes rep') = rp_Outcomes rep1 \<and> rp_Reached rep' = rp_Reached rep1 \<and> err' = err1 \<or>
     (\<exists>f \<in> set farms. \<exists>e. err' = Some (Wrapf (fa_ID f) e)) \<and> strict_prefix (map decided_part (rp_Outcomes rep')) (rp_Outcomes rep1))"
  using assms
proof (induction farms arbitrary: n rep rep0 db)
  case (Cons f farms)
  obtain db1 reached r where 1: "run_farm w False n f db = (db1, reached, r)" by (rule prod_cases3)
  from run_farm_decided [OF 1, of db0] obtain out where 2: "run_farm w True n f db0 = (db0, reached, Inr out)" "decided_part out = out"
    and r: "(\<exists>e. r = Inl (Wrapf (fa_ID f) e)) \<or> (\<exists>out'. r = Inr out' \<and> decided_part out' = out)" by blast
  let ?count = "\<lambda>rep. if reached then rep \<lparr>rp_Reached := Suc (rp_Reached rep)\<rparr> else rep"
  let ?rep0 = "(?count rep0) \<lparr>rp_Outcomes := rp_Outcomes (?count rep0) @ [out]\<rparr>"
  have dry: "run_farms w True n (f # farms) rep0 db0 = run_farms w True (Suc n) farms ?rep0 db0" by (simp add: 2(1) Let_def)
  show ?case
  proof (cases r)
    case (Inl x)
    with r obtain e where e: "r = Inl (Wrapf (fa_ID f) e)" by auto
    with Cons.prems(1) 1 have err: "err' = Some (Wrapf (fa_ID f) e)" "rep' = ?count rep" by (auto simp: Let_def)
    obtain d rep1 err1 where run: "run_farms w True (Suc n) farms ?rep0 db0 = (d, rep1, err1)" by (rule prod_cases3)
    from dry_run_grows [of w "Suc n" farms ?rep0 db0] have "d = db0" "prefix (rp_Outcomes rep0 @ [out]) (rp_Outcomes rep1)"
      unfolding run by (auto split: if_splits)
    moreover have "strict_prefix (rp_Outcomes rep0) (rp_Outcomes rep0 @ [out])" by (simp add: strict_prefix_def)
    moreover have "map decided_part (rp_Outcomes rep') = rp_Outcomes rep0" using Cons.prems(2) by (simp add: err(2))
    ultimately show ?thesis unfolding dry run using err(1) prefix_order.less_le_trans by auto
  next
    case (Inr out')
    with r have "decided_part out' = out" by simp
    moreover from Inr Cons.prems(1) 1 have "run_farms w False (Suc n) farms ((?count rep) \<lparr>rp_Outcomes := rp_Outcomes (?count rep) @ [out']\<rparr>) db1 = (db', rep', err')"
      by (simp add: Let_def)
    moreover have "map decided_part (rp_Outcomes ((?count rep) \<lparr>rp_Outcomes := rp_Outcomes (?count rep) @ [out']\<rparr>)) = rp_Outcomes ?rep0"
      "rp_Reached ((?count rep) \<lparr>rp_Outcomes := rp_Outcomes (?count rep) @ [out']\<rparr>) = rp_Reached ?rep0"
      using Cons.prems(2,3) calculation(1) by auto
    ultimately obtain rep1 err1 where "run_farms w True (Suc n) farms ?rep0 db0 = (db0, rep1, err1)"
      "map decided_part (rp_Outcomes rep') = rp_Outcomes rep1 \<and> rp_Reached rep' = rp_Reached rep1 \<and> err' = err1 \<or>
       (\<exists>f \<in> set farms. \<exists>e. err' = Some (Wrapf (fa_ID f) e)) \<and> strict_prefix (map decided_part (rp_Outcomes rep')) (rp_Outcomes rep1)"
      using Cons.IH by blast
    then show ?thesis unfolding dry by auto
  qed
qed auto

text \<open>C29: a dry run writes nothing and foretells the run. On the same answers it reports for every deployment what the real run decides for
  it, with the same number reached and the same error; only the number of VMs recorded and the warnings of the writes are the
  real run's own. The run departs from it in one way: a database that refuses the memberships of a farm ends it there, and what it reported until
  then is what the dry run reported.\<close>

theorem dry_run_foretells_the_run:
  assumes "Service_Run w False farms db = (db', rep', err')"
  shows "\<exists>rep err. Service_Run w True farms db = (db, rep, err) \<and>
    (map decided_part (rp_Outcomes rep') = rp_Outcomes rep \<and> rp_Reached rep' = rp_Reached rep \<and> err' = err \<or>
     (\<exists>f \<in> set farms. \<exists>e. err' = Some (Wrapf (fa_ID f) e)) \<and> strict_prefix (map decided_part (rp_Outcomes rep')) (rp_Outcomes rep))"
  using run_farms_decided [OF assms [unfolded Service_Run_def]] unfolding Service_Run_def by simp

section \<open>Farms the database does not know yet\<close>

lemma listed_batch:
  assumes "listed ins i" "i \<noteq> []"
  shows "\<exists>s upd c es. instanceBatch dep ins tm = (s, known_deployment dep, upd, c) # es"
  using assms(1)
proof (induction ins)
  case (Cons v ins)
  show ?case
  proof (cases "vm_InstanceID v = []")
    case True
    with Cons assms(2) show ?thesis by (auto simp: instanceBatch_def instance_entries_def listed_def)
  next
    case False
    then show ?thesis by (auto simp: instanceBatch_def instance_entries_def mark_last_def)
  qed
qed (simp add: listed_def)

lemma first_listing_is_refused:
  assumes "\<not> known_deployment dep db" "listed ins i" "i \<noteq> []" "ReplaceInstances env now dep ins tm whole db = (db', seen, err)"
  shows "db' = db \<and> err \<noteq> None"
proof -
  obtain s upd c es where b: "instanceBatch dep ins (if time_is_zero tm then now else tm) = (s, known_deployment dep, upd, c) # es"
    using listed_batch [OF assms(2,3)] by blast
  have "\<exists>e. tx_insert env s (known_deployment dep) upd db = Inl e" using assms(1) by (auto simp: tx_insert_def split: option.splits)
  then obtain e where e: "tx_insert env s (known_deployment dep) upd db = Inl e" by blast
  then have "execInstanceBatch env (instanceBatch dep ins (if time_is_zero tm then now else tm)) db = (0, Inl e)"
    unfolding b by (simp add: execInstanceBatch_def)
  with assms(4) show ?thesis unfolding ReplaceInstances_def Let_def by (cases "te_begin env") (auto simp: eq_commute [of "Some _"])
qed

text \<open>The VMs of a farm the database does not know yet are not recorded, although the same pass goes on to record the farm: the
  listing is written before the deployment its rows refer to. The pass counts no VMs and says so in a warning.\<close>

lemma first_pass_loses_the_vms:
  assumes "\<not> known_deployment (fa_ID f) db" "wd_list w n creds = (l, None)" "listed (listing_rows (fa_ID f) l) i" "i \<noteq> []"
    and "collectInstances w n (fa_ID f) creds ws db = (db', k, ws')"
  shows "db' = db \<and> k = 0 \<and> (\<exists>e. ws' = ws @ li_Warnings l @ [Wrapf ''instances'' e])"
proof -
  obtain db1 seen err where r: "ReplaceInstances (wd_env w n OpInstances) (wd_now w n OpInstances) (fa_ID f) (listing_rows (fa_ID f) l)
      (wd_now w n OpInstances) (li_Complete l) db = (db1, seen, err)" by (rule prod_cases3)
  from first_listing_is_refused [OF assms(1,3,4) r] obtain e where "db1 = db" "err = Some e" by auto
  with r assms(2,5) show ?thesis by (auto simp: collectInstances_def Let_def)
qed

text \<open>A farm that cannot be reached before its first successful pass leaves no record of the failure: the run refers to a deployment
  nothing has inserted. The failure is then told from a farm nobody configured only by the warning of the run itself.\<close>

lemma unreachable_new_farm_leaves_no_trace:
  assumes "\<not> known_deployment (fa_ID f) db" "wd_creds w n = Inr creds" "wd_hosts w n creds = Inl e"
    and "run_farm w False n f db = (db', reached, r)"
  shows "db' = db \<and> (\<exists>out e'. r = Inr out \<and> ro_Warnings out = [Wrapf ''recording the failure'' e'])"
proof -
  have "\<exists>e'. RecordReconcileRun (wd_env w n OpRun) (wd_now w n OpRun) (fa_ID f) zero_outcome (wd_now w n OpRun) (Some (err_text e)) db = (db, Inl e')"
    unfolding RecordReconcileRun_def Let_def using assms(1) by (rule pool_insert_refused)
  with assms(2-4) show ?thesis by (auto simp: run_farm_def Let_def add_warning_def new_outcome_def)
qed

section \<open>Concrete runs\<close>

definition known_farm :: farm_db where
  "known_farm = sample_db \<lparr>db_deployments := [(''f1'', blank_deployment ''f1'')],
     db_members := [((''c1'', ''f1''), \<lparr>mr_Confidence = LocalOnly, mr_Evidence = [], mr_ObservedAt = 3\<rparr>)]\<rparr>"

definition sample_obs :: observation where
  "sample_obs = \<lparr>ob_DeploymentID = ''f1'', ob_DisplayName = [], ob_Region = [], ob_KeystoneURL = ''f1'', ob_LocalHosts = [''c1''], ob_ControlHosts = [''c1''],
     ob_Complete = True, ob_At = 5\<rparr>"

definition sample_world :: rec_world where
  "sample_world = \<lparr>wd_creds = (\<lambda>_. Inr ''c''), wd_hosts = (\<lambda>_ _. Inr \<lparr>hl_Hosts = [], hl_Complete = False, hl_HypervisorError = [], hl_ServiceError = ''403''\<rparr>),
     wd_list = (\<lambda>_ _. (\<lparr>li_Instances = [], li_ProjectNames = [], li_ImageNames = [], li_Warnings = [], li_Complete = False\<rparr>, None)),
     wd_env = (\<lambda>_ _. fine_env), wd_now = (\<lambda>_ _. 5)\<rparr>"

theorem reconcile_records_the_decision_witness:
  "\<exists>db' r. ApplyMembership fine_env 5 (Decide 5 sample_obs) known_farm = (db', r) \<and>
     map_of (db_members db') (''c1'', ''f1'') = Some \<lparr>mr_Confidence = Confirmed, mr_Evidence = [(''local'', EvBool True), (''control'', EvBool True),
       (''nova_hostname'', EvString ''c1'')], mr_ObservedAt = 5\<rparr>"
proof -
  obtain db' r where a: "ApplyMembership fine_env 5 (Decide 5 sample_obs) known_farm = (db', r)" by fastforce
  have "snd (ApplyMembership fine_env 5 (Decide 5 sample_obs) known_farm) = Inr ()" by code_simp
  with a have r: "r = Inr ()" by simp
  have m: "MatchHosts (ob_LocalHosts sample_obs) (ob_ControlHosts sample_obs) = ([(''c1'', ''c1'')], [])" by code_simp
  have "registered known_farm ''c1''" by code_simp
  with reconcile_records_the_decision [OF a m] r have "map_of (db_members db') (''c1'', ''f1'') = Some \<lparr>mr_Confidence = Confirmed,
      mr_Evidence = [(''local'', EvBool True), (''control'', EvBool True), (''nova_hostname'', EvString ''c1'')], mr_ObservedAt = 5\<rparr>"
    by (simp add: sample_obs_def known_farm_def gomap_wf_def)
  with a show ?thesis by blast
qed

theorem partial_answers_take_nothing_away_witness:
  "\<exists>db' rep err r. Service_Run sample_world False [\<lparr>fa_ID = ''f1'', fa_LocalHosts = [''c1'']\<rparr>] known_farm = (db', rep, err) \<and>
     map_of (db_members db') (''c1'', ''f1'') = Some r \<and> (mr_Confidence r = Confirmed \<or> mr_Confidence r = LocalOnly)"
proof -
  obtain db' rep err where s: "Service_Run sample_world False [\<lparr>fa_ID = ''f1'', fa_LocalHosts = [''c1'']\<rparr>] known_farm = (db', rep, err)"
    by (rule prod_cases3)
  have "\<not> hosts_answered sample_world i" "\<not> vms_answered sample_world i" for i
    by (simp_all add: sample_world_def hosts_answered_def vms_answered_def)
  with partial_answers_take_nothing_away [OF s, of "''f1''"] have "nothing_taken ''f1'' known_farm db'" by simp
  then have "\<exists>r. map_of (db_members db') (''c1'', ''f1'') = Some r \<and> (mr_Confidence r = Confirmed \<or> mr_Confidence r = LocalOnly)"
    unfolding nothing_taken_def by (elim conjE allE [where x = "''c1''"]) (auto simp: known_farm_def)
  with s show ?thesis by blast
qed

theorem dry_run_foretells_the_run_witness:
  "\<exists>rep' rep. rp_Reached rep' = rp_Reached rep \<and> map decided_part (rp_Outcomes rep') = rp_Outcomes rep \<and>
     snd (Service_Run sample_world False [\<lparr>fa_ID = ''f1'', fa_LocalHosts = [''c1'']\<rparr>] known_farm) = (rep', None) \<and>
     Service_Run sample_world True [\<lparr>fa_ID = ''f1'', fa_LocalHosts = [''c1'']\<rparr>] known_farm = (known_farm, rep, None)"
proof -
  obtain db' rep' err' where s: "Service_Run sample_world False [\<lparr>fa_ID = ''f1'', fa_LocalHosts = [''c1'']\<rparr>] known_farm = (db', rep', err')"
    by (rule prod_cases3)
  have "snd (snd (Service_Run sample_world False [\<lparr>fa_ID = ''f1'', fa_LocalHosts = [''c1'']\<rparr>] known_farm)) = None" by code_simp
  with s have "err' = None" by simp
  with dry_run_foretells_the_run [OF s] s show ?thesis by auto
qed

end
