(* ===== verification/Farm_Assess.thy ===== *)
theory Farm_Assess
  imports Farm_Reconcile
begin

text \<open>
  The judgement of one farm (\<^verbatim>\<open>internal/openstack/assessment.go\<close>) from the rows of its snapshot: what it is built of,
  how well its roster is established, what is down, how fresh all of it is, and the anomalies. The sections
  \<^verbatim>\<open>Architecture\<close>, \<^verbatim>\<open>Membership\<close>, \<^verbatim>\<open>Health\<close> and \<^verbatim>\<open>Versions\<close> of the Go struct are fields of one record here. The zone a date is written in
  is a parameter, the offset in seconds at an instant.

  The lemmas show that the counts agree with the rows and with each other, that every role and every host is
  described exactly once, that a declared state hides no anomaly and marks exactly those it accounts for, and that
  the judgement of freshness reads the run the store recorded last.
\<close>

section \<open>Dates\<close>

definition pad :: "nat \<Rightarrow> int \<Rightarrow> string" where
  "pad w n = (let d = Itoa \<bar>n\<bar> in (if n < 0 then ''-'' else []) @ replicate (w - length d) (CHR ''0'') @ d)"

text \<open>Year, month and day of a number of days after the first of January of year one.\<close>

definition civil_of_days :: "int \<Rightarrow> int \<times> int \<times> int" where
  "civil_of_days n = (let z = n + 306; era = z div 146097; doe = z mod 146097;
     yoe = (doe - doe div 1460 + doe div 36524 - doe div 146096) div 365;
     doy = doe - (365 * yoe + yoe div 4 - yoe div 100);
     mp = (5 * doy + 2) div 153; d = doy - (153 * mp + 2) div 5 + 1;
     m = (if mp < 10 then mp + 3 else mp - 9) in
     (yoe + era * 400 + (if m \<le> 2 then 1 else 0), m, d))"

definition format_date :: "(gotime \<Rightarrow> int) \<Rightarrow> gotime \<Rightarrow> string" where
  "format_date loc t = (case civil_of_days ((t + loc t * second) div (24 * hour)) of (y, m, d) \<Rightarrow> pad 4 y @ ''-'' @ pad 2 m @ ''-'' @ pad 2 d)"

lemma format_date_samples:
  "format_date (\<lambda>_. 0) 0 = ''0001-01-01''" "format_date (\<lambda>_. 0) (719162 * 24 * hour) = ''1970-01-01''"
  "format_date (\<lambda>_. 0) (738944 * 24 * hour) = ''2024-02-29''" "format_date (\<lambda>_. 32400) (719162 * 24 * hour - hour) = ''1970-01-01''"
  by code_simp+

definition em_dash :: string where "em_dash = [CHR 0xE2, CHR 0x80, CHR 0x94]"

section \<open>Data\<close>

record role_member =
  rm_Hostname :: string
  rm_Release :: string
  rm_Roles :: nat
  rm_Down :: bool
  rm_AlsoIn :: string
  rm_VMs :: nat

record role_section =
  rs_Role :: string
  rs_Hosts :: "role_member list"
  rs_Down :: nat

record freshness =
  fr_LastSuccess :: "gotime option"
  fr_LastAttempt :: "gotime option"
  fr_Complete :: bool
  fr_Error :: string
  fr_Stale :: bool

record caTrust =
  ct_State :: string
  ct_Hosts :: "(string, string) gomap"

record anomaly =
  an_Kind :: string
  an_Subject :: string
  an_Detail :: string
  an_Severity :: string
  an_Expected :: bool

record assessment =
  as_ID :: string
  as_Name :: string
  as_Region :: string
  as_State :: string
  as_StateNote :: string
  as_StateSince :: "gotime option"
  as_Sections :: "role_section list"
  as_Hosts :: nat
  as_VMs :: nat
  as_Confirmed :: nat
  as_Total :: nat
  as_Unsettled :: "string list"
  as_RolesDown :: nat
  as_HostsDown :: nat
  as_VMsMissing :: nat
  as_Freshness :: freshness
  as_ByRelease :: "(string, nat) gomap"
  as_Drifting :: bool
  as_CATrust :: caTrust
  as_Dashboard :: "string list"
  as_Anomalies :: "anomaly list"

record assess_input =
  ai_ID :: string
  ai_Name :: string
  ai_Region :: string
  ai_Dashboard :: "string list"
  ai_State :: string
  ai_StateNote :: string
  ai_StateSince :: "gotime option"
  ai_Hosts :: "openStackHost list"
  ai_Instances :: "vm_instance list"
  ai_Run :: "reconcileRun option"
  ai_Ghosts :: "ghostHost list"
  ai_StaleAfter :: duration
  ai_Now :: gotime

definition AnomalyGhost :: string where "AnomalyGhost = ''ghost-host''"
definition AnomalyUnsettled :: string where "AnomalyUnsettled = ''unsettled''"
definition AnomalyConflict :: string where "AnomalyConflict = ''conflict''"
definition AnomalyRoleDown :: string where "AnomalyRoleDown = ''role-down''"
definition AnomalyDrift :: string where "AnomalyDrift = ''release-drift''"
definition AnomalyStale :: string where "AnomalyStale = ''stale''"
definition AnomalyNeverRun :: string where "AnomalyNeverRun = ''never-reconciled''"
definition AnomalyReconcileNG :: string where "AnomalyReconcileNG = ''reconcile-failing''"
definition AnomalyVMMissing :: string where "AnomalyVMMissing = ''vm-missing''"
definition AnomalyCATrust :: string where "AnomalyCATrust = ''ca-trust-half''"

definition SeverityWarn :: string where "SeverityWarn = ''warn''"
definition SeverityError :: string where "SeverityError = ''error''"

lemmas anomaly_kinds = AnomalyGhost_def AnomalyUnsettled_def AnomalyConflict_def AnomalyRoleDown_def AnomalyDrift_def AnomalyStale_def
  AnomalyNeverRun_def AnomalyReconcileNG_def AnomalyVMMissing_def AnomalyCATrust_def

definition new_anomaly :: "string \<Rightarrow> string \<Rightarrow> string \<Rightarrow> string \<Rightarrow> anomaly" where
  "new_anomaly kind subject sev detail = \<lparr>an_Kind = kind, an_Subject = subject, an_Detail = detail, an_Severity = sev, an_Expected = False\<rparr>"

definition raise_anomaly :: "anomaly \<Rightarrow> assessment \<Rightarrow> assessment" where
  "raise_anomaly an a = a \<lparr>as_Anomalies := as_Anomalies a @ [an]\<rparr>"

definition roleOrder :: "string list" where
  "roleOrder = [''controller'', ''compute'', ''network'', ''block-storage'', ''image'', ''identity'', ''dashboard'', ''orchestration'', ''load-balancer'']"

section \<open>Releases and roles\<close>

fun release_loop :: "(string, component) gomap \<Rightarrow> string \<Rightarrow> string list \<Rightarrow> string" where
  "release_loop comps fallback [] = (if fallback \<noteq> [] then fallback else ''-'')"
| "release_loop comps fallback (name # names) = (case map_of comps name of
     None \<Rightarrow> release_loop comps fallback names
   | Some c \<Rightarrow> if cmp_Version c = [] then release_loop comps fallback names
       else if cmp_Active c \<or> \<not> cmp_Service c then cmp_Version c
       else release_loop comps (if fallback = [] then cmp_Version c else fallback) names)"

definition nova_version :: "(string, component) gomap \<Rightarrow> string" where
  "nova_version comps = (case map_of comps ''nova-compute'' of None \<Rightarrow> [] | Some c \<Rightarrow> cmp_Version c)"

definition ReleaseOf :: "openStackHost \<Rightarrow> string" where
  "ReleaseOf h = (if nova_version (oh_Components h) \<noteq> [] then nova_version (oh_Components h)
     else release_loop (oh_Components h) [] (sort (map fst (oh_Components h))))"

definition role_rank :: "string \<Rightarrow> nat" where
  "role_rank r = length (takeWhile (\<lambda>x. x \<noteq> r) roleOrder)"

text \<open>The comparison ranks a known role by its place, puts it before an unknown one, and orders unknown ones by name. Ranks
  of known roles differ and unknown roles share one, so sorting by rank what is sorted by name is that order.\<close>

definition orderedRoles :: "(string, openStackHost list) gomap \<Rightarrow> string list" where
  "orderedRoles byRole = sort_key role_rank (sort (map fst byRole))"

definition nat_of_key :: "(string, nat) gomap \<Rightarrow> string \<Rightarrow> nat" where
  "nat_of_key m k = (case map_of m k of None \<Rightarrow> 0 | Some v \<Rightarrow> v)"

definition bump :: "string \<Rightarrow> (string, nat) gomap \<Rightarrow> (string, nat) gomap" where
  "bump k m = AList.update k (Suc (nat_of_key m k)) m"

definition releaseSummary :: "(string, nat) gomap \<Rightarrow> string" where
  "releaseSummary byRelease = join_with '', '' (sort_key (\<lambda>k. - int (nat_of_key byRelease k)) (sort (map fst byRelease)))"

section \<open>Trust and freshness\<close>

definition VendordataOn :: string where "VendordataOn = ''on''"
definition VendordataOff :: string where "VendordataOff = ''off''"
definition VendordataNoFile :: string where "VendordataNoFile = ''config-without-file''"
definition VendordataNoConfig :: string where "VendordataNoConfig = ''file-without-config''"

definition caTrustRank :: "string \<Rightarrow> nat" where
  "caTrustRank state = (if state = VendordataOn then 1 else if state = VendordataOff then 2 else if state = VendordataNoConfig then 3
     else if state = VendordataNoFile then 4 else 0)"

definition caTrustAnomaly :: "caTrust \<Rightarrow> string" where
  "caTrustAnomaly c = (if ct_State c = VendordataNoFile then
       ''the metadata service is configured for vendordata but the file is not there '' @ em_dash @
       '' the mount is not optional, so it will fail to start when anything restarts it''
     else if ct_State c = VendordataNoConfig then
       ''the vendordata file is in place and the service that answers instance metadata does not read it '' @ em_dash @
       '' new VMs get an empty vendor_data.json and will not trust the SSH CA''
     else [])"

definition expectedUnder :: "string \<Rightarrow> string \<Rightarrow> bool" where
  "expectedUnder state kind =
    (if kind \<in> {AnomalyReconcileNG, AnomalyStale, AnomalyRoleDown, AnomalyVMMissing, AnomalyCATrust}
     then state = StateBroken \<or> state = StateMaintenance \<or> state = StateRetired
     else if kind \<in> {AnomalyNeverRun, AnomalyUnsettled} then state = StateRetired
     else False)"

definition no_freshness :: freshness where
  "no_freshness = \<lparr>fr_LastSuccess = None, fr_LastAttempt = None, fr_Complete = False, fr_Error = [], fr_Stale = False\<rparr>"

definition assessFreshness :: "reconcileRun option \<Rightarrow> duration \<Rightarrow> gotime \<Rightarrow> freshness" where
  "assessFreshness run staleAfter now = (case run of None \<Rightarrow> no_freshness
   | Some r \<Rightarrow> \<lparr>fr_LastSuccess = rr_SucceededAt r, fr_LastAttempt = Some (rr_StartedAt r), fr_Complete = rr_Complete r,
       fr_Error = (if rr_LastError r \<noteq> [] \<and> (case rr_SucceededAt r of None \<Rightarrow> True | Some s \<Rightarrow> s < rr_StartedAt r) then rr_LastError r else []),
       fr_Stale = (staleAfter > 0 \<and> (case rr_SucceededAt r of None \<Rightarrow> False | Some s \<Rightarrow> time_sub now s > staleAfter))\<rparr>)"

section \<open>The judgement\<close>

definition assessVMs :: "vm_instance list \<Rightarrow> assessment \<Rightarrow> assessment \<times> (string, nat) gomap" where
  "assessVMs ins a = (case foldl (\<lambda>(missing, tally) v. if vm_MissingSince v \<noteq> None then (Suc missing, tally)
       else (missing, bump (vm_HypervisorHostname v) tally)) (as_VMsMissing a, []) ins of
     (missing, tally) \<Rightarrow> (a \<lparr>as_VMsMissing := missing, as_VMs := length ins - missing\<rparr>, tally))"

definition judge_confidence :: "openStackHost \<Rightarrow> assessment \<Rightarrow> assessment" where
  "judge_confidence h a = (let a = a \<lparr>as_Total := Suc (as_Total a)\<rparr>;
       weak = a \<lparr>as_Unsettled := as_Unsettled a @ [oh_Hostname h @ '' ('' @ oh_Confidence h @ '')'']\<rparr> in
     if oh_Confidence h = Confirmed then a \<lparr>as_Confirmed := Suc (as_Confirmed a)\<rparr>
     else if oh_Confidence h = Conflict then
       raise_anomaly (new_anomaly AnomalyConflict (oh_Hostname h) SeverityError
         ''the evidence disagrees about which deployment this host belongs to'') weak
     else weak)"

definition judge_host :: "openStackHost \<Rightarrow> assessment \<Rightarrow> assessment" where
  "judge_host h a = (if oh_Roles h \<noteq> [] \<and> oh_ActiveRoles h = [] then a \<lparr>as_HostsDown := Suc (as_HostsDown a)\<rparr> else a)
     \<lparr>as_ByRelease := bump (ReleaseOf h) (as_ByRelease a)\<rparr>"

definition find_dashboard :: "openStackHost \<Rightarrow> assessment \<Rightarrow> assessment" where
  "find_dashboard h a = (let v = str_of_key (oh_Details h) ''horizon_url''; alt = str_of_key (oh_Details h) ''horizon_alt'' in
     if v \<noteq> [] \<and> as_Dashboard a = [] then a \<lparr>as_Dashboard := as_Dashboard a @ [v] @ (if alt \<noteq> [] then Go_Prelude.fields alt else [])\<rparr> else a)"

definition judge_trust :: "openStackHost \<Rightarrow> assessment \<Rightarrow> assessment" where
  "judge_trust h a = (let v = str_of_key (oh_Details h) ''vendordata''; c = as_CATrust a in
     if v = [] then a
     else a \<lparr>as_CATrust := \<lparr>ct_State = (if caTrustRank v > caTrustRank (ct_State c) then v else ct_State c),
       ct_Hosts = AList.update (oh_Hostname h) v (ct_Hosts c)\<rparr>\<rparr>)"

definition file_roles :: "openStackHost \<Rightarrow> (string, openStackHost list) gomap \<Rightarrow> (string, openStackHost list) gomap" where
  "file_roles h byRole = foldl (\<lambda>m r. AList.update r (slice_of m r @ [h]) m) byRole (oh_Roles h)"

definition host_judged :: "openStackHost \<Rightarrow> assessment \<Rightarrow> assessment" where
  "host_judged h a = judge_trust h (find_dashboard h (judge_host h (judge_confidence h a)))"

definition assessHosts :: "assess_input \<Rightarrow> assessment \<Rightarrow> assessment \<times> (string, openStackHost list) gomap" where
  "assessHosts inp a =
    (case foldl (\<lambda>(a, byRole) h. (host_judged h a, file_roles h byRole)) (a, []) (ai_Hosts inp) of
       (a, byRole) \<Rightarrow> let d = caTrustAnomaly (as_CATrust a);
         a = (if d \<noteq> [] then raise_anomaly (new_anomaly AnomalyCATrust (ai_ID inp) SeverityError d) a else a) in
         (a \<lparr>as_Hosts := as_Total a\<rparr>, byRole))"

definition role_down :: "string \<Rightarrow> openStackHost \<Rightarrow> bool" where
  "role_down role h \<longleftrightarrow> \<not> (\<exists>r \<in> set (oh_ActiveRoles h). equal_fold r role)"

definition describe_member :: "string \<Rightarrow> (string, nat) gomap \<Rightarrow> (string, string) gomap \<Rightarrow> openStackHost \<Rightarrow> role_member" where
  "describe_member role vms firstSeen h = \<lparr>rm_Hostname = oh_Hostname h, rm_Release = ReleaseOf h, rm_Roles = length (oh_Roles h),
     rm_Down = role_down role h, rm_AlsoIn = str_of_key firstSeen (oh_Hostname h), rm_VMs = nat_of_key vms (oh_Hostname h)\<rparr>"

definition add_member :: "string \<Rightarrow> (string, nat) gomap \<Rightarrow> role_section \<times> assessment \<times> (string, string) gomap \<Rightarrow> openStackHost \<Rightarrow>
    role_section \<times> assessment \<times> (string, string) gomap" where
  "add_member role vms acc h = (case acc of (sec, a, firstSeen) \<Rightarrow>
    (sec \<lparr>rs_Hosts := rs_Hosts sec @ [describe_member role vms firstSeen h], rs_Down := rs_Down sec + (if role_down role h then 1 else 0)\<rparr>,
     (if role_down role h then raise_anomaly (new_anomaly AnomalyRoleDown (oh_Hostname h) SeverityWarn
         (''holds '' @ role @ '' with nothing running behind it'')) (a \<lparr>as_RolesDown := Suc (as_RolesDown a)\<rparr>) else a),
     (case map_of firstSeen (oh_Hostname h) of None \<Rightarrow> AList.update (oh_Hostname h) role firstSeen | Some _ \<Rightarrow> firstSeen)))"

definition add_section :: "(string, openStackHost list) gomap \<Rightarrow> (string, nat) gomap \<Rightarrow> assessment \<times> (string, string) gomap \<Rightarrow> string \<Rightarrow>
    assessment \<times> (string, string) gomap" where
  "add_section byRole vms acc role = (case acc of (a, firstSeen) \<Rightarrow>
    (case foldl (add_member role vms) (\<lparr>rs_Role = role, rs_Hosts = [], rs_Down = 0\<rparr>, a, firstSeen) (sort_key oh_Hostname (slice_of byRole role)) of
       (sec, a, firstSeen) \<Rightarrow> (a \<lparr>as_Sections := as_Sections a @ [sec]\<rparr>, firstSeen)))"

definition assessRoles :: "(string, openStackHost list) gomap \<Rightarrow> (string, nat) gomap \<Rightarrow> assessment \<Rightarrow> assessment" where
  "assessRoles byRole vms a = fst (foldl (add_section byRole vms) (a, []) (orderedRoles byRole))"

definition run_anomalies :: "assess_input \<Rightarrow> freshness \<Rightarrow> anomaly list" where
  "run_anomalies inp f = (if ai_Run inp = None then [new_anomaly AnomalyNeverRun (ai_ID inp) SeverityWarn
         ''no reconcile has been recorded, so membership rests on local evidence alone'']
     else if fr_Error f \<noteq> [] then [new_anomaly AnomalyReconcileNG (ai_ID inp) SeverityError (''the last reconcile failed: '' @ fr_Error f)]
     else if fr_Stale f then [new_anomaly AnomalyStale (ai_ID inp) SeverityWarn ''nothing has reconciled this deployment recently'']
     else [])"

definition ghost_anomaly :: "(gotime \<Rightarrow> int) \<Rightarrow> ghostHost \<Rightarrow> anomaly" where
  "ghost_anomaly loc g = new_anomaly AnomalyGhost (gh_NovaHostname g) SeverityWarn
     (''the control plane has known this host since '' @ format_date loc (gh_FirstSeenAt g) @ '' and the inventory does not have it'')"

definition aggregateAnomalies :: "(gotime \<Rightarrow> int) \<Rightarrow> assess_input \<Rightarrow> gotime \<Rightarrow> assessment \<Rightarrow> assessment" where
  "aggregateAnomalies loc inp now a = (let drift = 1 < length (as_ByRelease a); f = assessFreshness (ai_Run inp) (ai_StaleAfter inp) now in
     a \<lparr>as_Drifting := drift, as_Freshness := f, as_Anomalies := as_Anomalies a @
       (if drift then [new_anomaly AnomalyDrift (ai_ID inp) SeverityWarn
          (''more than one release in one deployment: '' @ releaseSummary (as_ByRelease a))] else []) @
       run_anomalies inp f @ map (ghost_anomaly loc) (ai_Ghosts inp) @
       (if as_VMsMissing a > 0 then [new_anomaly AnomalyVMMissing (ai_ID inp) SeverityWarn
          ''the control plane no longer lists VMs it listed before''] else [])\<rparr>)"

definition mark_expected :: "string \<Rightarrow> anomaly list \<Rightarrow> anomaly list" where
  "mark_expected state ans = (if state \<noteq> StateActive
     then map (\<lambda>an. if expectedUnder state (an_Kind an) then an \<lparr>an_Expected := True\<rparr> else an) ans else ans)"

definition severity_rank :: "anomaly \<Rightarrow> nat" where
  "severity_rank an = (if an_Severity an = SeverityError then 0 else 1)"

definition order_anomalies :: "anomaly list \<Rightarrow> anomaly list" where
  "order_anomalies ans = sort_key severity_rank (sort_key an_Kind (sort_key an_Subject ans))"

definition finalizeAnomalies :: "assessment \<Rightarrow> assessment" where
  "finalizeAnomalies a = a \<lparr>as_Anomalies := order_anomalies (mark_expected (as_State a) (as_Anomalies a))\<rparr>"

definition blank_assessment :: "assess_input \<Rightarrow> assessment" where
  "blank_assessment inp = \<lparr>as_ID = ai_ID inp, as_Name = ai_Name inp, as_Region = ai_Region inp,
     as_State = (if ai_State inp = [] then StateActive else ai_State inp), as_StateNote = ai_StateNote inp, as_StateSince = ai_StateSince inp,
     as_Sections = [], as_Hosts = 0, as_VMs = 0, as_Confirmed = 0, as_Total = 0, as_Unsettled = [], as_RolesDown = 0, as_HostsDown = 0, as_VMsMissing = 0,
     as_Freshness = no_freshness, as_ByRelease = [], as_Drifting = False, as_CATrust = \<lparr>ct_State = [], ct_Hosts = []\<rparr>,
     as_Dashboard = ai_Dashboard inp, as_Anomalies = []\<rparr>"

definition judged :: "assess_input \<Rightarrow> assessment" where
  "judged inp = (case assessVMs (ai_Instances inp) (blank_assessment inp) of (a, vms) \<Rightarrow>
     (case assessHosts inp a of (a, byRole) \<Rightarrow> let a = assessRoles byRole vms a in a \<lparr>as_Unsettled := sort (as_Unsettled a)\<rparr>))"

definition Assess :: "(gotime \<Rightarrow> int) \<Rightarrow> gotime \<Rightarrow> assess_input \<Rightarrow> assessment" where
  "Assess loc clock inp = finalizeAnomalies (aggregateAnomalies loc inp (if time_is_zero (ai_Now inp) then clock else ai_Now inp) (judged inp))"

section \<open>What the folds count\<close>

lemma nat_of_key_bump [simp]: "nat_of_key (bump k m) j = nat_of_key m j + (if j = k then 1 else 0)"
  by (simp add: nat_of_key_def bump_def)

lemma nat_of_key_Nil [simp]: "nat_of_key [] k = 0"
  by (simp add: nat_of_key_def)

lemma bump_wf: "gomap_wf m \<Longrightarrow> gomap_wf (bump k m)"
  by (simp add: bump_def)

lemma bump_sum: "gomap_wf m \<Longrightarrow> gomap_sum id (bump k m) = Suc (gomap_sum id m)"
  using gomap_sum_update [of m id k "Suc (nat_of_key m k)"] by (auto simp: bump_def nat_of_key_def split: option.splits)

lemma foldl_pair: "foldl (\<lambda>(a, b) x. (f x a, g x b)) (a, b) xs = (foldl (\<lambda>a x. f x a) a xs, foldl (\<lambda>b x. g x b) b xs)"
  by (induction xs arbitrary: a b) simp_all

definition gone :: "vm_instance list \<Rightarrow> nat" where
  "gone ins = length (filter (\<lambda>v. vm_MissingSince v \<noteq> None) ins)"

lemma vm_tally:
  "foldl (\<lambda>(missing, tally) v. if vm_MissingSince v \<noteq> None then (Suc missing, tally) else (missing, bump (vm_HypervisorHostname v) tally)) (m, t) ins = (m', t') \<Longrightarrow>
     m' = m + gone ins \<and> nat_of_key t' h = nat_of_key t h + length (filter (\<lambda>v. vm_MissingSince v = None \<and> vm_HypervisorHostname v = h) ins)"
proof (induction ins arbitrary: m t)
  case (Cons v ins)
  note IH = Cons.IH [of "if vm_MissingSince v \<noteq> None then Suc m else m" "if vm_MissingSince v \<noteq> None then t else bump (vm_HypervisorHostname v) t"]
  show ?case by (rule conjI; use IH Cons.prems in \<open>cases "vm_MissingSince v"\<close>) (simp_all add: gone_def)
qed (simp add: gone_def)

lemma assessVMs_counts:
  assumes "assessVMs ins a = (a', vms)" "as_VMsMissing a = 0"
  shows "a' = a \<lparr>as_VMsMissing := gone ins, as_VMs := length ins - gone ins\<rparr>"
    "nat_of_key vms h = length (filter (\<lambda>v. vm_MissingSince v = None \<and> vm_HypervisorHostname v = h) ins)"
proof -
  obtain m t where f: "foldl (\<lambda>(missing, tally) v. if vm_MissingSince v \<noteq> None then (Suc missing, tally) else (missing, bump (vm_HypervisorHostname v) tally))
      (0, []) ins = (m, t)" by fastforce
  from vm_tally [OF f, of h] assms f
  show "a' = a \<lparr>as_VMsMissing := gone ins, as_VMs := length ins - gone ins\<rparr>"
    "nat_of_key vms h = length (filter (\<lambda>v. vm_MissingSince v = None \<and> vm_HypervisorHostname v = h) ins)"
    by (auto simp: assessVMs_def nat_of_key_def)
qed

lemmas host_judged_defs = host_judged_def judge_trust_def find_dashboard_def judge_host_def judge_confidence_def raise_anomaly_def Let_def

definition conflict_of :: "openStackHost \<Rightarrow> anomaly list" where
  "conflict_of h = (if oh_Confidence h = Conflict then [new_anomaly AnomalyConflict (oh_Hostname h) SeverityError
     ''the evidence disagrees about which deployment this host belongs to''] else [])"

lemma confidences: "Conflict \<noteq> Confirmed" by code_simp

lemma host_judged_fields [simp]:
  "as_Total (host_judged h a) = Suc (as_Total a)"
  "as_Confirmed (host_judged h a) = as_Confirmed a + (if oh_Confidence h = Confirmed then 1 else 0)"
  "as_Unsettled (host_judged h a) = as_Unsettled a @ (if oh_Confidence h = Confirmed then [] else [oh_Hostname h @ '' ('' @ oh_Confidence h @ '')''])"
  "as_ByRelease (host_judged h a) = bump (ReleaseOf h) (as_ByRelease a)"
  "as_Anomalies (host_judged h a) = as_Anomalies a @ conflict_of h"
  "as_HostsDown (host_judged h a) = as_HostsDown a + (if oh_Roles h \<noteq> [] \<and> oh_ActiveRoles h = [] then 1 else 0)"
  "as_RolesDown (host_judged h a) = as_RolesDown a" "as_Sections (host_judged h a) = as_Sections a" "as_State (host_judged h a) = as_State a"
  "as_VMs (host_judged h a) = as_VMs a" "as_VMsMissing (host_judged h a) = as_VMsMissing a"
  using confidences by (auto simp: host_judged_defs conflict_of_def)

lemma hosts_judged_fields:
  "as_Total (foldl (\<lambda>a h. host_judged h a) a hs) = as_Total a + length hs"
  "as_Confirmed (foldl (\<lambda>a h. host_judged h a) a hs) + length (as_Unsettled (foldl (\<lambda>a h. host_judged h a) a hs)) =
     as_Confirmed a + length (as_Unsettled a) + length hs"
  "as_Confirmed (foldl (\<lambda>a h. host_judged h a) a hs) = as_Confirmed a + length (filter (\<lambda>h. oh_Confidence h = Confirmed) hs)"
  "as_HostsDown (foldl (\<lambda>a h. host_judged h a) a hs) = as_HostsDown a + length (filter (\<lambda>h. oh_Roles h \<noteq> [] \<and> oh_ActiveRoles h = []) hs)"
  "gomap_wf (as_ByRelease a) \<Longrightarrow> gomap_wf (as_ByRelease (foldl (\<lambda>a h. host_judged h a) a hs)) \<and>
     gomap_sum id (as_ByRelease (foldl (\<lambda>a h. host_judged h a) a hs)) = gomap_sum id (as_ByRelease a) + length hs"
  "nat_of_key (as_ByRelease (foldl (\<lambda>a h. host_judged h a) a hs)) r = nat_of_key (as_ByRelease a) r + length (filter (\<lambda>h. ReleaseOf h = r) hs)"
  "as_Anomalies (foldl (\<lambda>a h. host_judged h a) a hs) = as_Anomalies a @ concat (map conflict_of hs)"
  "as_RolesDown (foldl (\<lambda>a h. host_judged h a) a hs) = as_RolesDown a" "as_Sections (foldl (\<lambda>a h. host_judged h a) a hs) = as_Sections a"
  "as_State (foldl (\<lambda>a h. host_judged h a) a hs) = as_State a"
  "as_VMs (foldl (\<lambda>a h. host_judged h a) a hs) = as_VMs a" "as_VMsMissing (foldl (\<lambda>a h. host_judged h a) a hs) = as_VMsMissing a"
  by (induction hs arbitrary: a) (auto simp: bump_wf bump_sum)

lemma file_roles_slice: "slice_of (file_roles h m) r = slice_of m r @ replicate (count_list (oh_Roles h) r) h"
proof -
  have "slice_of (foldl (\<lambda>m r. AList.update r (slice_of m r @ [h]) m) m rs) r = slice_of m r @ replicate (count_list rs r) h" for m rs
    by (induction rs arbitrary: m) (auto simp: replicate_append_same)
  then show ?thesis by (simp add: file_roles_def)
qed

lemma file_roles_keys: "fst ` set (file_roles h m) = fst ` set m \<union> set (oh_Roles h)" "gomap_wf m \<Longrightarrow> gomap_wf (file_roles h m)"
proof -
  have "fst ` set (foldl (\<lambda>m r. AList.update r (slice_of m r @ [h]) m) m rs) = fst ` set m \<union> set rs" for m rs
    by (induction rs arbitrary: m) (auto simp: dom_update)
  then show "fst ` set (file_roles h m) = fst ` set m \<union> set (oh_Roles h)" by (simp add: file_roles_def)
  have "gomap_wf m \<Longrightarrow> gomap_wf (foldl (\<lambda>m r. AList.update r (slice_of m r @ [h]) m) m rs)" for m rs by (induction rs arbitrary: m) simp_all
  then show "gomap_wf m \<Longrightarrow> gomap_wf (file_roles h m)" by (simp add: file_roles_def)
qed

lemma roles_filed:
  assumes "\<forall>h \<in> set hs. distinct (oh_Roles h)"
  shows "slice_of (foldl (\<lambda>m h. file_roles h m) m hs) r = slice_of m r @ filter (\<lambda>h. r \<in> set (oh_Roles h)) hs"
    "fst ` set (foldl (\<lambda>m h. file_roles h m) m hs) = fst ` set m \<union> (\<Union>h \<in> set hs. set (oh_Roles h))"
    "gomap_wf m \<Longrightarrow> gomap_wf (foldl (\<lambda>m h. file_roles h m) m hs)"
  using assms
proof (induction hs arbitrary: m)
  case (Cons h hs)
  {
    case 1
    have "distinct rs \<Longrightarrow> count_list rs r = (if r \<in> set rs then 1 else 0)" for rs by (induction rs) auto
    with 1 have "count_list (oh_Roles h) r = (if r \<in> set (oh_Roles h) then 1 else 0)" by simp
    with Cons 1 show ?case by (simp add: file_roles_slice)
  next
    case 2
    with Cons show ?case by (auto simp: file_roles_keys)
  next
    case 3
    with Cons show ?case by (simp add: file_roles_keys)
  }
qed simp_all

section \<open>The role sections\<close>

definition role_downs :: "anomaly list \<Rightarrow> bool" where
  "role_downs ans \<longleftrightarrow> (\<forall>an \<in> set ans. an_Kind an = AnomalyRoleDown \<and> an_Severity an = SeverityWarn \<and> \<not> an_Expected an)"

text \<open>The host names of the entries that describe their host, over some sections.\<close>

definition described_hosts :: "role_section list \<Rightarrow> string list" where
  "described_hosts secs = map rm_Hostname (filter (\<lambda>m. rm_AlsoIn m = []) (concat (map rs_Hosts secs)))"

text \<open>The hosts already described are those the map of first sections knows, each described once.\<close>

definition seen_inv :: "(string, string) gomap \<Rightarrow> role_section list \<Rightarrow> bool" where
  "seen_inv firstSeen secs \<longleftrightarrow> (\<forall>h. map_of firstSeen h \<noteq> Some []) \<and> distinct (described_hosts secs) \<and> set (described_hosts secs) = dom (map_of firstSeen)"

lemma described_hosts_snoc:
  "described_hosts (secs @ [sec \<lparr>rs_Hosts := rs_Hosts sec @ [m], rs_Down := n\<rparr>]) =
     described_hosts (secs @ [sec]) @ (if rm_AlsoIn m = [] then [rm_Hostname m] else [])"
  by (simp add: described_hosts_def)

lemma add_member_step:
  assumes "add_member role vms (sec, a, firstSeen) h = (sec', a', firstSeen')"
  shows "\<exists>m ans. sec' = sec \<lparr>rs_Hosts := rs_Hosts sec @ [m], rs_Down := rs_Down sec + length ans\<rparr> \<and> rm_Hostname m = oh_Hostname h \<and>
      a' = a \<lparr>as_RolesDown := as_RolesDown a + length ans, as_Anomalies := as_Anomalies a @ ans\<rparr> \<and> role_downs ans \<and>
      length ans = (if rm_Down m then 1 else 0)"
    "role \<noteq> [] \<Longrightarrow> seen_inv firstSeen (secs @ [sec]) \<Longrightarrow> seen_inv firstSeen' (secs @ [sec'])"
    "dom (map_of firstSeen') = insert (oh_Hostname h) (dom (map_of firstSeen))"
proof -
  let ?m = "describe_member role vms firstSeen h" and ?an = "new_anomaly AnomalyRoleDown (oh_Hostname h) SeverityWarn (''holds '' @ role @ '' with nothing running behind it'')"
  have sec': "sec' = sec \<lparr>rs_Hosts := rs_Hosts sec @ [?m], rs_Down := rs_Down sec + (if role_down role h then 1 else 0)\<rparr>"
    and a': "a' = (if role_down role h then raise_anomaly ?an (a \<lparr>as_RolesDown := Suc (as_RolesDown a)\<rparr>) else a)"
    and fs': "firstSeen' = (case map_of firstSeen (oh_Hostname h) of None \<Rightarrow> AList.update (oh_Hostname h) role firstSeen | Some _ \<Rightarrow> firstSeen)"
    using assms by (simp_all add: add_member_def)
  show "\<exists>m ans. sec' = sec \<lparr>rs_Hosts := rs_Hosts sec @ [m], rs_Down := rs_Down sec + length ans\<rparr> \<and> rm_Hostname m = oh_Hostname h \<and>
      a' = a \<lparr>as_RolesDown := as_RolesDown a + length ans, as_Anomalies := as_Anomalies a @ ans\<rparr> \<and> role_downs ans \<and>
      length ans = (if rm_Down m then 1 else 0)"
    by (rule exI [of _ ?m], rule exI [of _ "if role_down role h then [?an] else []"])
      (simp add: sec' a' describe_member_def raise_anomaly_def role_downs_def new_anomaly_def)
  show "dom (map_of firstSeen') = insert (oh_Hostname h) (dom (map_of firstSeen))" by (auto simp: fs' split: option.splits)
  assume role: "role \<noteq> []" and inv: "seen_inv firstSeen (secs @ [sec])"
  then have "rm_AlsoIn ?m = [] \<longleftrightarrow> map_of firstSeen (oh_Hostname h) = None" "rm_Hostname ?m = oh_Hostname h"
    by (auto simp: describe_member_def str_of_key_def seen_inv_def split: option.splits)
  then have d: "described_hosts (secs @ [sec']) = described_hosts (secs @ [sec]) @ (if map_of firstSeen (oh_Hostname h) = None then [oh_Hostname h] else [])"
    unfolding sec' described_hosts_snoc by simp
  show "seen_inv firstSeen' (secs @ [sec'])"
  proof (cases "map_of firstSeen (oh_Hostname h)")
    case None
    with inv role show ?thesis unfolding seen_inv_def d fs' by (auto simp: domIff)
  qed (use inv in \<open>simp add: seen_inv_def d fs'\<close>)
qed

lemma add_members:
  assumes "foldl (add_member role vms) (sec, a, firstSeen) hs = (sec', a', firstSeen')" "rs_Down sec = length (filter rm_Down (rs_Hosts sec))"
  shows "(\<exists>ms ans. sec' = sec \<lparr>rs_Hosts := rs_Hosts sec @ ms, rs_Down := rs_Down sec + length ans\<rparr> \<and> map rm_Hostname ms = map oh_Hostname hs \<and>
      a' = a \<lparr>as_RolesDown := as_RolesDown a + length ans, as_Anomalies := as_Anomalies a @ ans\<rparr> \<and> role_downs ans \<and>
      length ans = length (filter rm_Down ms)) \<and>
    (role \<noteq> [] \<longrightarrow> seen_inv firstSeen (secs @ [sec]) \<longrightarrow> seen_inv firstSeen' (secs @ [sec'])) \<and>
    dom (map_of firstSeen') = oh_Hostname ` set hs \<union> dom (map_of firstSeen)"
  using assms
proof (induction hs arbitrary: sec a firstSeen)
  case (Cons h hs)
  obtain sec1 a1 fs1 where one: "add_member role vms (sec, a, firstSeen) h = (sec1, a1, fs1)" by (rule prod_cases3)
  note step = add_member_step [OF one]
  obtain m ans where m: "sec1 = sec \<lparr>rs_Hosts := rs_Hosts sec @ [m], rs_Down := rs_Down sec + length ans\<rparr>" "rm_Hostname m = oh_Hostname h"
    "a1 = a \<lparr>as_RolesDown := as_RolesDown a + length ans, as_Anomalies := as_Anomalies a @ ans\<rparr>" "role_downs ans" "length ans = (if rm_Down m then 1 else 0)"
    using step(1) by blast
  have rest: "foldl (add_member role vms) (sec1, a1, fs1) hs = (sec', a', firstSeen')" using Cons.prems(1) by (simp only: foldl_Cons one)
  have down: "rs_Down sec1 = length (filter rm_Down (rs_Hosts sec1))" using Cons.prems(2) by (simp add: m(1,5))
  note IH = Cons.IH [OF rest down]
  from IH obtain ms ans' where r: "sec' = sec1 \<lparr>rs_Hosts := rs_Hosts sec1 @ ms, rs_Down := rs_Down sec1 + length ans'\<rparr>"
    "map rm_Hostname ms = map oh_Hostname hs" "a' = a1 \<lparr>as_RolesDown := as_RolesDown a1 + length ans', as_Anomalies := as_Anomalies a1 @ ans'\<rparr>"
    "role_downs ans'" "length ans' = length (filter rm_Down ms)" by blast
  have "sec' = sec \<lparr>rs_Hosts := rs_Hosts sec @ (m # ms), rs_Down := rs_Down sec + length (ans @ ans')\<rparr>" by (simp add: r m(1) add.assoc)
  moreover have "a' = a \<lparr>as_RolesDown := as_RolesDown a + length (ans @ ans'), as_Anomalies := as_Anomalies a @ (ans @ ans')\<rparr>" by (simp add: r m(3) add.assoc)
  moreover have "map rm_Hostname (m # ms) = map oh_Hostname (h # hs)" "role_downs (ans @ ans')" "length (ans @ ans') = length (filter rm_Down (m # ms))"
    using r m by (auto simp: role_downs_def)
  moreover have "seen_inv firstSeen' (secs @ [sec'])" if "role \<noteq> []" "seen_inv firstSeen (secs @ [sec])" using IH step(2) [OF that] that(1) by blast
  moreover have "dom (map_of firstSeen') = oh_Hostname ` set (h # hs) \<union> dom (map_of firstSeen)" using IH step(3) by auto
  ultimately show ?case by blast
qed (auto simp: role_downs_def)

definition section_ok :: "(string, openStackHost list) gomap \<Rightarrow> role_section \<Rightarrow> bool" where
  "section_ok byRole sec \<longleftrightarrow> map rm_Hostname (rs_Hosts sec) = sort (map oh_Hostname (slice_of byRole (rs_Role sec))) \<and>
     rs_Down sec = length (filter rm_Down (rs_Hosts sec))"

lemma add_section_step:
  assumes "add_section byRole vms (a, firstSeen) role = (a', firstSeen')"
  shows "\<exists>sec ans. a' = a \<lparr>as_RolesDown := as_RolesDown a + length ans, as_Anomalies := as_Anomalies a @ ans, as_Sections := as_Sections a @ [sec]\<rparr> \<and>
      rs_Role sec = role \<and> section_ok byRole sec \<and> role_downs ans \<and> length ans = rs_Down sec \<and>
      (role \<noteq> [] \<longrightarrow> seen_inv firstSeen secs \<longrightarrow> seen_inv firstSeen' (secs @ [sec]))"
    "dom (map_of firstSeen') = oh_Hostname ` set (slice_of byRole role) \<union> dom (map_of firstSeen)"
proof -
  let ?sec = "\<lparr>rs_Role = role, rs_Hosts = [], rs_Down = 0\<rparr>" and ?hs = "sort_key oh_Hostname (slice_of byRole role)"
  obtain sec1 a1 fs1 where f: "foldl (add_member role vms) (?sec, a, firstSeen) ?hs = (sec1, a1, fs1)" by (rule prod_cases3)
  have a': "a' = a1 \<lparr>as_Sections := as_Sections a1 @ [sec1]\<rparr>" "firstSeen' = fs1" using assms f by (simp_all add: add_section_def)
  have "rs_Down ?sec = length (filter rm_Down (rs_Hosts ?sec))" by simp
  note mem = add_members [OF f this, of secs]
  from mem obtain ms ans where m: "sec1 = ?sec \<lparr>rs_Hosts := rs_Hosts ?sec @ ms, rs_Down := rs_Down ?sec + length ans\<rparr>" "map rm_Hostname ms = map oh_Hostname ?hs"
    "a1 = a \<lparr>as_RolesDown := as_RolesDown a + length ans, as_Anomalies := as_Anomalies a @ ans\<rparr>" "role_downs ans" "length ans = length (filter rm_Down ms)"
    by blast
  have "section_ok byRole sec1" using m(2,5) by (simp add: section_ok_def m(1) map_sort_key)
  moreover have "seen_inv firstSeen' (secs @ [sec1])" if "role \<noteq> []" "seen_inv firstSeen secs"
  proof -
    have "seen_inv firstSeen (secs @ [?sec])" using that(2) by (simp add: seen_inv_def described_hosts_def)
    with mem that(1) show ?thesis unfolding a'(2) by blast
  qed
  ultimately show "\<exists>sec ans. a' = a \<lparr>as_RolesDown := as_RolesDown a + length ans, as_Anomalies := as_Anomalies a @ ans, as_Sections := as_Sections a @ [sec]\<rparr> \<and>
      rs_Role sec = role \<and> section_ok byRole sec \<and> role_downs ans \<and> length ans = rs_Down sec \<and>
      (role \<noteq> [] \<longrightarrow> seen_inv firstSeen secs \<longrightarrow> seen_inv firstSeen' (secs @ [sec]))"
    by (intro exI [of _ sec1] exI [of _ ans]) (simp add: a'(1) m(1,3,4))
  show "dom (map_of firstSeen') = oh_Hostname ` set (slice_of byRole role) \<union> dom (map_of firstSeen)" using mem unfolding a'(2) by simp
qed

lemma add_sections:
  assumes "foldl (add_section byRole vms) (a, firstSeen) roles = (a', firstSeen')" "[] \<notin> set roles" "seen_inv firstSeen secs"
  shows "\<exists>new ans. a' = a \<lparr>as_RolesDown := as_RolesDown a + length ans, as_Anomalies := as_Anomalies a @ ans, as_Sections := as_Sections a @ new\<rparr> \<and>
      map rs_Role new = roles \<and> (\<forall>sec \<in> set new. section_ok byRole sec) \<and> role_downs ans \<and> length ans = sum_list (map rs_Down new) \<and>
      seen_inv firstSeen' (secs @ new) \<and> dom (map_of firstSeen') = (\<Union>r \<in> set roles. oh_Hostname ` set (slice_of byRole r)) \<union> dom (map_of firstSeen)"
  using assms
proof (induction roles arbitrary: a firstSeen secs)
  case (Cons role roles)
  obtain a1 fs1 where one: "add_section byRole vms (a, firstSeen) role = (a1, fs1)" by fastforce
  note step = add_section_step [OF one]
  from step(1) [of secs] obtain sec ans where s: "a1 = a \<lparr>as_RolesDown := as_RolesDown a + length ans, as_Anomalies := as_Anomalies a @ ans,
      as_Sections := as_Sections a @ [sec]\<rparr>" "rs_Role sec = role" "section_ok byRole sec" "role_downs ans" "length ans = rs_Down sec"
      "role \<noteq> [] \<longrightarrow> seen_inv firstSeen secs \<longrightarrow> seen_inv fs1 (secs @ [sec])"
    by (elim exE conjE)
  have role: "role \<noteq> []" "[] \<notin> set roles" using Cons.prems(2) by auto
  have inv: "seen_inv fs1 (secs @ [sec])" using s(6) role(1) Cons.prems(3) by simp
  have "foldl (add_section byRole vms) (a1, fs1) roles = (a', firstSeen')" using Cons.prems(1) by (simp only: foldl_Cons one)
  from Cons.IH [OF this role(2) inv] obtain new ans' where r: "a' = a1 \<lparr>as_RolesDown := as_RolesDown a1 + length ans', as_Anomalies := as_Anomalies a1 @ ans',
      as_Sections := as_Sections a1 @ new\<rparr>" "map rs_Role new = roles" "\<forall>sec \<in> set new. section_ok byRole sec" "role_downs ans'"
      "length ans' = sum_list (map rs_Down new)" "seen_inv firstSeen' ((secs @ [sec]) @ new)"
      "dom (map_of firstSeen') = (\<Union>r \<in> set roles. oh_Hostname ` set (slice_of byRole r)) \<union> dom (map_of fs1)" by (elim exE conjE)
  have "a' = a \<lparr>as_RolesDown := as_RolesDown a + length (ans @ ans'), as_Anomalies := as_Anomalies a @ (ans @ ans'), as_Sections := as_Sections a @ (sec # new)\<rparr>"
    by (simp add: r(1) s(1) add.assoc)
  moreover have "role_downs (ans @ ans')" "map rs_Role (sec # new) = role # roles" "\<forall>sec \<in> set (sec # new). section_ok byRole sec"
    "length (ans @ ans') = sum_list (map rs_Down (sec # new))" using r s by (auto simp: role_downs_def)
  moreover have "seen_inv firstSeen' (secs @ sec # new)" using r(6) by simp
  moreover have "dom (map_of firstSeen') = (\<Union>r \<in> set (role # roles). oh_Hostname ` set (slice_of byRole r)) \<union> dom (map_of firstSeen)"
    using r(7) step(2) by auto
  ultimately show ?case by (intro exI [of _ "sec # new"] exI [of _ "ans @ ans'"] conjI)
next
  case Nil
  then show ?case by (intro exI [of _ "[]"]) (simp add: role_downs_def)
qed

lemma assessRoles_shape:
  assumes "[] \<notin> fst ` set byRole"
  shows "\<exists>new ans. assessRoles byRole vms a = a \<lparr>as_RolesDown := as_RolesDown a + length ans, as_Anomalies := as_Anomalies a @ ans, as_Sections := as_Sections a @ new\<rparr> \<and>
      map rs_Role new = orderedRoles byRole \<and> (\<forall>sec \<in> set new. section_ok byRole sec) \<and> role_downs ans \<and> length ans = sum_list (map rs_Down new) \<and>
      distinct (described_hosts new) \<and> set (described_hosts new) = (\<Union>r \<in> fst ` set byRole. oh_Hostname ` set (slice_of byRole r))"
proof -
  obtain a' fs where f: "foldl (add_section byRole vms) (a, []) (orderedRoles byRole) = (a', fs)" by fastforce
  have ne: "[] \<notin> set (orderedRoles byRole)" using assms by (simp add: orderedRoles_def)
  have start: "seen_inv [] []" by (simp add: seen_inv_def described_hosts_def)
  from add_sections [OF f ne start] obtain new ans where n: "a' = a \<lparr>as_RolesDown := as_RolesDown a + length ans, as_Anomalies := as_Anomalies a @ ans, as_Sections := as_Sections a @ new\<rparr>"
      "map rs_Role new = orderedRoles byRole" "\<forall>sec \<in> set new. section_ok byRole sec" "role_downs ans" "length ans = sum_list (map rs_Down new)"
      "seen_inv fs ([] @ new)" "dom (map_of fs) = (\<Union>r \<in> set (orderedRoles byRole). oh_Hostname ` set (slice_of byRole r)) \<union> dom (map_of ([] :: (string, string) gomap))"
    by (elim exE conjE)
  have "assessRoles byRole vms a = a \<lparr>as_RolesDown := as_RolesDown a + length ans, as_Anomalies := as_Anomalies a @ ans, as_Sections := as_Sections a @ new\<rparr>"
    by (simp only: assessRoles_def f fst_conv n(1))
  moreover have "distinct (described_hosts new)" "set (described_hosts new) = (\<Union>r \<in> fst ` set byRole. oh_Hostname ` set (slice_of byRole r))"
    using n(6,7) by (simp_all add: seen_inv_def orderedRoles_def)
  ultimately show ?thesis using n(2-5) by (intro exI [of _ new] exI [of _ ans] conjI)
qed

section \<open>The counts\<close>

definition hosts_ok :: "openStackHost list \<Rightarrow> bool" where
  "hosts_ok hs \<longleftrightarrow> (\<forall>h \<in> set hs. distinct (oh_Roles h) \<and> [] \<notin> set (oh_Roles h))"

definition judged_counts :: "assess_input \<Rightarrow> assessment \<Rightarrow> bool" where
  "judged_counts inp a \<longleftrightarrow> as_Total a = length (ai_Hosts inp) \<and> as_Hosts a = length (ai_Hosts inp) \<and>
     as_Confirmed a = length (filter (\<lambda>h. oh_Confidence h = Confirmed) (ai_Hosts inp)) \<and> as_Confirmed a + length (as_Unsettled a) = length (ai_Hosts inp) \<and>
     as_HostsDown a = length (filter (\<lambda>h. oh_Roles h \<noteq> [] \<and> oh_ActiveRoles h = []) (ai_Hosts inp)) \<and>
     as_VMsMissing a = gone (ai_Instances inp) \<and> as_VMs a + as_VMsMissing a = length (ai_Instances inp) \<and>
     (\<forall>r. nat_of_key (as_ByRelease a) r = length (filter (\<lambda>h. ReleaseOf h = r) (ai_Hosts inp))) \<and> gomap_sum id (as_ByRelease a) = length (ai_Hosts inp)"

text \<open>Everything that is judged before the anomalies of the farm as a whole, in one closed form.\<close>

lemma judged_shape:
  assumes "hosts_ok (ai_Hosts inp)"
  shows "\<exists>secs early downs. as_Anomalies (judged inp) = early @ downs \<and> role_downs downs \<and> (\<forall>an \<in> set early. an_Kind an \<noteq> AnomalyRoleDown) \<and>
    as_Sections (judged inp) = secs \<and> as_RolesDown (judged inp) = length downs \<and> length downs = sum_list (map rs_Down secs) \<and>
    distinct (map rs_Role secs) \<and> set (map rs_Role secs) = (\<Union>h \<in> set (ai_Hosts inp). set (oh_Roles h)) \<and>
    (\<forall>sec \<in> set secs. map rm_Hostname (rs_Hosts sec) = sort (map oh_Hostname (filter (\<lambda>h. rs_Role sec \<in> set (oh_Roles h)) (ai_Hosts inp))) \<and>
      rs_Down sec = length (filter rm_Down (rs_Hosts sec))) \<and>
    distinct (described_hosts secs) \<and> set (described_hosts secs) = {oh_Hostname h | h. h \<in> set (ai_Hosts inp) \<and> oh_Roles h \<noteq> []} \<and>
    judged_counts inp (judged inp)"
proof -
  let ?hs = "ai_Hosts inp"
  obtain a1 vms where 1: "assessVMs (ai_Instances inp) (blank_assessment inp) = (a1, vms)" by fastforce
  define a2 where "a2 = foldl (\<lambda>a h. host_judged h a) a1 ?hs"
  define byRole where "byRole = foldl (\<lambda>m h. file_roles h m) [] ?hs"
  define d where "d = caTrustAnomaly (as_CATrust a2)"
  define a3 where "a3 = (if d \<noteq> [] then raise_anomaly (new_anomaly AnomalyCATrust (ai_ID inp) SeverityError d) a2 else a2) \<lparr>as_Hosts := as_Total
    (if d \<noteq> [] then raise_anomaly (new_anomaly AnomalyCATrust (ai_ID inp) SeverityError d) a2 else a2)\<rparr>"
  have 2: "assessHosts inp a1 = (a3, byRole)" by (simp add: assessHosts_def foldl_pair a2_def byRole_def d_def a3_def Let_def)
  have blank: "as_VMsMissing (blank_assessment inp) = 0" by (simp add: blank_assessment_def)
  note a1 = assessVMs_counts(1) [OF 1 blank]
  have filed: "slice_of byRole r = filter (\<lambda>h. r \<in> set (oh_Roles h)) ?hs" "fst ` set byRole = (\<Union>h \<in> set ?hs. set (oh_Roles h))" "gomap_wf byRole" for r
    using assms roles_filed [of ?hs "[]"] by (simp_all add: byRole_def hosts_ok_def)
  have "[] \<notin> fst ` set byRole" using assms by (auto simp: filed(2) hosts_ok_def)
  from assessRoles_shape [OF this, of vms a3] obtain new ans where r: "assessRoles byRole vms a3 = a3 \<lparr>as_RolesDown := as_RolesDown a3 + length ans,
      as_Anomalies := as_Anomalies a3 @ ans, as_Sections := as_Sections a3 @ new\<rparr>" "map rs_Role new = orderedRoles byRole" "\<forall>sec \<in> set new. section_ok byRole sec"
      "role_downs ans" "length ans = sum_list (map rs_Down new)" "distinct (described_hosts new)"
      "set (described_hosts new) = (\<Union>r \<in> fst ` set byRole. oh_Hostname ` set (slice_of byRole r))" by blast
  have a3: "as_RolesDown a3 = 0" "as_Sections a3 = []" "as_Anomalies a3 = concat (map conflict_of ?hs) @
      (if d \<noteq> [] then [new_anomaly AnomalyCATrust (ai_ID inp) SeverityError d] else [])"
    by (simp_all add: a3_def a2_def raise_anomaly_def hosts_judged_fields a1 blank_assessment_def)
  have sums: "gomap_sum id (as_ByRelease a2) = length ?hs" "gone (ai_Instances inp) \<le> length (ai_Instances inp)"
    "as_Confirmed a2 + length (as_Unsettled a2) = length ?hs"
    using hosts_judged_fields(5) [of a1 ?hs] hosts_judged_fields(2) [of a1 ?hs] by (simp_all add: a2_def a1 blank_assessment_def gone_def)
  have counts: "judged_counts inp a3"
    using sums by (simp add: judged_counts_def a3_def raise_anomaly_def) (simp add: a2_def hosts_judged_fields a1 blank_assessment_def)
  have early: "\<forall>an \<in> set (as_Anomalies a3). an_Kind an \<noteq> AnomalyRoleDown"
    by (auto simp: a3(3) conflict_of_def new_anomaly_def anomaly_kinds split: if_splits)
  have j: "judged inp = (assessRoles byRole vms a3) \<lparr>as_Unsettled := sort (as_Unsettled (assessRoles byRole vms a3))\<rparr>"
    by (simp add: judged_def 1 2 Let_def)
  have roles: "distinct (map rs_Role new)" "set (map rs_Role new) = (\<Union>h \<in> set ?hs. set (oh_Roles h))"
    using filed(2,3) by (simp_all add: r(2) orderedRoles_def gomap_wf_def)
  have secs: "\<forall>sec \<in> set new. map rm_Hostname (rs_Hosts sec) = sort (map oh_Hostname (filter (\<lambda>h. rs_Role sec \<in> set (oh_Roles h)) ?hs)) \<and>
      rs_Down sec = length (filter rm_Down (rs_Hosts sec))" using r(3) by (simp add: section_ok_def filed(1))
  have "set (described_hosts new) = {oh_Hostname h | h. h \<in> set ?hs \<and> oh_Roles h \<noteq> []}"
  proof (intro set_eqI iffI)
    fix x assume "x \<in> {oh_Hostname h | h. h \<in> set ?hs \<and> oh_Roles h \<noteq> []}"
    then obtain h where "x = oh_Hostname h" "h \<in> set ?hs" "hd (oh_Roles h) \<in> set (oh_Roles h)" by auto
    then show "x \<in> set (described_hosts new)" unfolding r(7) filed by auto
  qed (auto simp: r(7) filed)
  moreover have "as_Anomalies (judged inp) = as_Anomalies a3 @ ans" "as_Sections (judged inp) = new" "as_RolesDown (judged inp) = length ans"
    by (simp_all add: j r(1) a3(1,2))
  moreover have "judged_counts inp (judged inp)" using counts by (simp add: judged_counts_def j r(1))
  ultimately show ?thesis using r(4-6) roles secs early
    by - (rule exI [of _ new], rule exI [of _ "as_Anomalies a3"], rule exI [of _ ans], intro conjI)
qed

lemma order_anomalies_set [simp]: "set (order_anomalies ans) = set ans" "mset (order_anomalies ans) = mset ans"
  by (simp_all add: order_anomalies_def)

lemma mark_expected_kind:
  "length (filter (\<lambda>an. P (an_Kind an)) (mark_expected state ans)) = length (filter (\<lambda>an. P (an_Kind an)) ans)"
  by (induction ans) (auto simp: mark_expected_def)

lemma anomaly_count:
  "length (filter (\<lambda>an. P (an_Kind an)) (order_anomalies (mark_expected state ans))) = length (filter (\<lambda>an. P (an_Kind an)) ans)"
proof -
  have "mset (filter Q (order_anomalies xs)) = mset (filter Q xs)" for Q xs by simp
  then have "length (filter Q (order_anomalies xs)) = length (filter Q xs)" for Q xs by (metis size_mset)
  then show ?thesis by (simp add: mark_expected_kind)
qed

definition farm_anomalies :: "(gotime \<Rightarrow> int) \<Rightarrow> assess_input \<Rightarrow> gotime \<Rightarrow> anomaly list" where
  "farm_anomalies loc inp now =
     (if 1 < length (as_ByRelease (judged inp)) then [new_anomaly AnomalyDrift (ai_ID inp) SeverityWarn
        (''more than one release in one deployment: '' @ releaseSummary (as_ByRelease (judged inp)))] else []) @
     run_anomalies inp (assessFreshness (ai_Run inp) (ai_StaleAfter inp) now) @ map (ghost_anomaly loc) (ai_Ghosts inp) @
     (if as_VMsMissing (judged inp) > 0 then [new_anomaly AnomalyVMMissing (ai_ID inp) SeverityWarn
        ''the control plane no longer lists VMs it listed before''] else [])"

lemma farm_anomalies_kind: "an \<in> set (farm_anomalies loc inp now) \<Longrightarrow> an_Kind an \<noteq> AnomalyRoleDown"
  by (auto simp: farm_anomalies_def run_anomalies_def ghost_anomaly_def new_anomaly_def anomaly_kinds split: if_splits)

lemma Assess_fields:
  fixes loc clock inp
  defines "a \<equiv> Assess loc clock inp" and "now \<equiv> if time_is_zero (ai_Now inp) then clock else ai_Now inp"
  shows "as_Anomalies a = order_anomalies (mark_expected (as_State (judged inp)) (as_Anomalies (judged inp) @ farm_anomalies loc inp now))"
    "judged_counts inp a = judged_counts inp (judged inp)" "as_Sections a = as_Sections (judged inp)" "as_RolesDown a = as_RolesDown (judged inp)"
    "as_Freshness a = assessFreshness (ai_Run inp) (ai_StaleAfter inp) now" "as_State a = as_State (judged inp)"
  unfolding a_def now_def
  by (simp_all add: Assess_def finalizeAnomalies_def aggregateAnomalies_def farm_anomalies_def judged_counts_def Let_def)

text \<open>C30: the numbers of an assessment agree with the rows it judges and with each other. Every host is counted once and is confirmed or
  named as unsettled, every VM is counted as live or missing, every host under exactly one release. There is one section per role
  held, listing exactly the hosts that hold it; the roles reported down are the entries marked down and the anomalies raised for
  them; and each host with a role is described in exactly one section, the others refer to it.\<close>

theorem assessment_counts_agree:
  fixes loc clock inp
  defines "a \<equiv> Assess loc clock inp" and "secs \<equiv> as_Sections (Assess loc clock inp)" and "hs \<equiv> ai_Hosts inp"
  assumes "hosts_ok hs"
  shows "as_Total a = length hs \<and> as_Hosts a = length hs \<and> as_Confirmed a + length (as_Unsettled a) = length hs \<and>
    as_VMs a + as_VMsMissing a = length (ai_Instances inp) \<and> as_VMsMissing a = length (filter (\<lambda>v. vm_MissingSince v \<noteq> None) (ai_Instances inp)) \<and>
    (\<forall>r. nat_of_key (as_ByRelease a) r = length (filter (\<lambda>h. ReleaseOf h = r) hs)) \<and> gomap_sum id (as_ByRelease a) = length hs \<and>
    distinct (map rs_Role secs) \<and> set (map rs_Role secs) = (\<Union>h \<in> set hs. set (oh_Roles h)) \<and>
    (\<forall>sec \<in> set secs. map rm_Hostname (rs_Hosts sec) = sort (map oh_Hostname (filter (\<lambda>h. rs_Role sec \<in> set (oh_Roles h)) hs)) \<and>
      rs_Down sec = length (filter rm_Down (rs_Hosts sec))) \<and>
    as_RolesDown a = sum_list (map rs_Down secs) \<and> as_RolesDown a = length (filter (\<lambda>an. an_Kind an = AnomalyRoleDown) (as_Anomalies a)) \<and>
    distinct (described_hosts secs) \<and> set (described_hosts secs) = {oh_Hostname h | h. h \<in> set hs \<and> oh_Roles h \<noteq> []}"
proof -
  note f = Assess_fields [where loc = loc and clock = clock and inp = inp, folded a_def]
  from judged_shape [OF assms(4) [unfolded hs_def]] obtain early downs where j: "as_Anomalies (judged inp) = early @ downs" "role_downs downs"
      "\<forall>an \<in> set early. an_Kind an \<noteq> AnomalyRoleDown" "as_RolesDown (judged inp) = length downs" "length downs = sum_list (map rs_Down secs)"
      "distinct (map rs_Role secs)" "set (map rs_Role secs) = (\<Union>h \<in> set hs. set (oh_Roles h))"
      "\<forall>sec \<in> set secs. map rm_Hostname (rs_Hosts sec) = sort (map oh_Hostname (filter (\<lambda>h. rs_Role sec \<in> set (oh_Roles h)) hs)) \<and>
        rs_Down sec = length (filter rm_Down (rs_Hosts sec))"
      "distinct (described_hosts secs)" "set (described_hosts secs) = {oh_Hostname h | h. h \<in> set hs \<and> oh_Roles h \<noteq> []}" "judged_counts inp (judged inp)"
    unfolding secs_def hs_def Assess_fields(3) by (elim exE conjE) simp
  have counts: "judged_counts inp a" using j(11) f(2) by simp
  have down: "filter (\<lambda>an. an_Kind an = AnomalyRoleDown) early = []" "filter (\<lambda>an. an_Kind an = AnomalyRoleDown) downs = downs"
    "filter (\<lambda>an. an_Kind an = AnomalyRoleDown) (farm_anomalies loc inp now) = []" for now
    using j(2,3) farm_anomalies_kind by (auto simp: filter_empty_conv filter_id_conv role_downs_def)
  have "as_RolesDown a = length (filter (\<lambda>an. an_Kind an = AnomalyRoleDown) (as_Anomalies a))"
    unfolding f(1,4) j(1,4) by (simp add: anomaly_count [where P = "\<lambda>k. k = AnomalyRoleDown"] down)
  moreover have "as_RolesDown a = sum_list (map rs_Down secs)" using f(4) j(4,5) by simp
  ultimately show ?thesis using counts j(6-10) unfolding judged_counts_def hs_def gone_def by (intro conjI) (elim conjE, assumption)+
qed

section \<open>A declared state hides nothing\<close>

text \<open>An anomaly as it is raised, before the declared state is looked at.\<close>

definition raised :: "anomaly \<Rightarrow> bool" where
  "raised an \<longleftrightarrow> \<not> an_Expected an \<and> an_Kind an \<noteq> AnomalyUnsettled"

lemma raised_simps [simp]:
  "raised (new_anomaly kind subject sev detail) \<longleftrightarrow> kind \<noteq> AnomalyUnsettled"
  by (simp add: raised_def new_anomaly_def)

lemma role_downs_raised: "role_downs ans \<Longrightarrow> an \<in> set ans \<Longrightarrow> raised an"
  by (auto simp: role_downs_def raised_def anomaly_kinds)

lemma sections_keep:
  assumes "foldl (add_section byRole vms) (a, firstSeen) roles = (a', firstSeen')" "\<forall>an \<in> set (as_Anomalies a). P an"
    and "\<And>ans an. role_downs ans \<Longrightarrow> an \<in> set ans \<Longrightarrow> P an"
  shows "\<forall>an \<in> set (as_Anomalies a'). P an"
  using assms(1,2)
proof (induction roles arbitrary: a firstSeen)
  case (Cons role roles)
  obtain a1 fs1 where one: "add_section byRole vms (a, firstSeen) role = (a1, fs1)" by fastforce
  from add_section_step(1) [OF one, of "[]"] obtain sec ans where "a1 = a \<lparr>as_RolesDown := as_RolesDown a + length ans, as_Anomalies := as_Anomalies a @ ans,
      as_Sections := as_Sections a @ [sec]\<rparr>" "role_downs ans" by (elim exE conjE)
  then have "\<forall>an \<in> set (as_Anomalies a1). P an" using Cons.prems(2) by (auto intro: assms(3))
  moreover have "foldl (add_section byRole vms) (a1, fs1) roles = (a', firstSeen')" using Cons.prems(1) by (simp only: foldl_Cons one)
  ultimately show ?case by (rule Cons.IH [rotated])
qed simp

lemma judged_anomalies:
  assumes "an \<in> set (as_Anomalies (judged inp))" "\<And>ans an. role_downs ans \<Longrightarrow> an \<in> set ans \<Longrightarrow> P an"
    and "\<And>subject sev detail. P (new_anomaly AnomalyConflict subject sev detail)" "\<And>subject sev detail. P (new_anomaly AnomalyCATrust subject sev detail)"
  shows "P an"
proof -
  obtain a1 vms where 1: "assessVMs (ai_Instances inp) (blank_assessment inp) = (a1, vms)" by fastforce
  obtain a2 byRole where 2: "assessHosts inp a1 = (a2, byRole)" by fastforce
  obtain a3 fs where 3: "foldl (add_section byRole vms) (a2, []) (orderedRoles byRole) = (a3, fs)" by fastforce
  have "as_VMsMissing (blank_assessment inp) = 0" by (simp add: blank_assessment_def)
  from assessVMs_counts(1) [OF 1 this] have "as_Anomalies a1 = []" by (simp add: blank_assessment_def)
  then have "\<forall>an \<in> set (as_Anomalies a2). P an"
    using 2 assms(3,4) by (auto simp: assessHosts_def foldl_pair Let_def raise_anomaly_def hosts_judged_fields conflict_of_def split: if_splits)
  from sections_keep [OF 3 this assms(2)] assms(1) show ?thesis by (simp add: judged_def 1 2 assessRoles_def 3 Let_def)
qed

lemma judged_raised: "an \<in> set (as_Anomalies (judged inp)) \<Longrightarrow> raised an"
  by (erule judged_anomalies) (auto simp: anomaly_kinds intro: role_downs_raised)

lemma judged_run_free: "an \<in> set (as_Anomalies (judged inp)) \<Longrightarrow> an_Kind an \<noteq> AnomalyNeverRun \<and> an_Kind an \<noteq> AnomalyReconcileNG"
  by (erule judged_anomalies) (auto simp: anomaly_kinds role_downs_def new_anomaly_def)

lemma farm_raised: "an \<in> set (farm_anomalies loc inp now) \<Longrightarrow> raised an"
  by (auto simp: farm_anomalies_def run_anomalies_def ghost_anomaly_def anomaly_kinds split: if_splits)

text \<open>The declared state is carried along and read by nothing before the anomalies are marked.\<close>

lemma judge_confidence_State: "judge_confidence h (a \<lparr>as_State := s\<rparr>) = (judge_confidence h a) \<lparr>as_State := s\<rparr>"
  by (simp add: judge_confidence_def raise_anomaly_def Let_def)

lemma judge_host_State: "judge_host h (a \<lparr>as_State := s\<rparr>) = (judge_host h a) \<lparr>as_State := s\<rparr>"
  by (simp add: judge_host_def)

lemma find_dashboard_State: "find_dashboard h (a \<lparr>as_State := s\<rparr>) = (find_dashboard h a) \<lparr>as_State := s\<rparr>"
  by (simp add: find_dashboard_def Let_def)

lemma judge_trust_State: "judge_trust h (a \<lparr>as_State := s\<rparr>) = (judge_trust h a) \<lparr>as_State := s\<rparr>"
  by (simp add: judge_trust_def Let_def)

lemma host_judged_State: "host_judged h (a \<lparr>as_State := s\<rparr>) = (host_judged h a) \<lparr>as_State := s\<rparr>"
  by (simp only: host_judged_def judge_confidence_State judge_host_State find_dashboard_State judge_trust_State)

lemma hosts_judged_State: "foldl (\<lambda>a h. host_judged h a) (a \<lparr>as_State := s\<rparr>) hs = (foldl (\<lambda>a h. host_judged h a) a hs) \<lparr>as_State := s\<rparr>"
  by (induction hs arbitrary: a) (simp_all add: host_judged_State)

lemma add_members_State:
  "foldl (add_member role vms) (sec, a, fs) hs = (sec', a', fs') \<Longrightarrow> foldl (add_member role vms) (sec, a \<lparr>as_State := s\<rparr>, fs) hs = (sec', a' \<lparr>as_State := s\<rparr>, fs')"
proof (induction hs arbitrary: sec a fs)
  case (Cons h hs)
  obtain sec1 a1 fs1 where one: "add_member role vms (sec, a, fs) h = (sec1, a1, fs1)" by (rule prod_cases3)
  then have "add_member role vms (sec, a \<lparr>as_State := s\<rparr>, fs) h = (sec1, a1 \<lparr>as_State := s\<rparr>, fs1)" by (auto simp: add_member_def raise_anomaly_def)
  with Cons one show ?case by (simp only: foldl_Cons)
qed simp

lemma add_sections_State:
  "foldl (add_section byRole vms) (a, fs) roles = (a', fs') \<Longrightarrow> foldl (add_section byRole vms) (a \<lparr>as_State := s\<rparr>, fs) roles = (a' \<lparr>as_State := s\<rparr>, fs')"
proof (induction roles arbitrary: a fs)
  case (Cons r roles)
  let ?sec = "\<lparr>rs_Role = r, rs_Hosts = [], rs_Down = 0\<rparr>"
  obtain sec1 a1 fs1 where one: "foldl (add_member r vms) (?sec, a, fs) (sort_key oh_Hostname (slice_of byRole r)) = (sec1, a1, fs1)" by (rule prod_cases3)
  have "add_section byRole vms (a, fs) r = (a1 \<lparr>as_Sections := as_Sections a1 @ [sec1]\<rparr>, fs1)" by (simp add: add_section_def one)
  moreover have "add_section byRole vms (a \<lparr>as_State := s\<rparr>, fs) r = ((a1 \<lparr>as_Sections := as_Sections a1 @ [sec1]\<rparr>) \<lparr>as_State := s\<rparr>, fs1)"
    by (simp add: add_section_def add_members_State [OF one])
  ultimately show ?case using Cons by (simp only: foldl_Cons)
qed simp

lemma judged_State: "judged (inp \<lparr>ai_State := s\<rparr>) = (judged inp) \<lparr>as_State := if s = [] then StateActive else s\<rparr>"
proof -
  let ?s = "if s = [] then StateActive else s"
  obtain a1 vms where 1: "assessVMs (ai_Instances inp) (blank_assessment inp) = (a1, vms)" by fastforce
  obtain a2 byRole where 2: "assessHosts inp a1 = (a2, byRole)" by fastforce
  obtain a3 fs where 3: "foldl (add_section byRole vms) (a2, []) (orderedRoles byRole) = (a3, fs)" by fastforce
  have "blank_assessment (inp \<lparr>ai_State := s\<rparr>) = (blank_assessment inp) \<lparr>as_State := ?s\<rparr>" by (simp add: blank_assessment_def)
  then have "assessVMs (ai_Instances inp) (blank_assessment (inp \<lparr>ai_State := s\<rparr>)) = (a1 \<lparr>as_State := ?s\<rparr>, vms)"
    using 1 by (auto simp: assessVMs_def split: prod.splits)
  moreover have "assessHosts (inp \<lparr>ai_State := s\<rparr>) (a1 \<lparr>as_State := ?s\<rparr>) = (a2 \<lparr>as_State := ?s\<rparr>, byRole)"
    using 2 by (auto simp: assessHosts_def foldl_pair hosts_judged_State raise_anomaly_def Let_def split: if_splits)
  ultimately show ?thesis using 1 2 3 add_sections_State [OF 3] by (simp add: judged_def assessRoles_def Let_def)
qed

definition as_news :: "anomaly \<Rightarrow> anomaly" where
  "as_news an = an \<lparr>an_Expected := False\<rparr>"

lemma map_sort_key_same: "(\<And>x. f (g x) = f x) \<Longrightarrow> map g (sort_key f xs) = sort_key f (map g xs)"
proof -
  assume f: "\<And>x. f (g x) = f x"
  have "map g (insort_key f x xs) = insort_key f (g x) (map g xs)" for x xs by (induction xs) (simp_all add: f)
  then show ?thesis by (induction xs) simp_all
qed

lemma as_news_order: "map as_news (order_anomalies ans) = order_anomalies (map as_news ans)"
  by (simp add: order_anomalies_def map_sort_key_same as_news_def severity_rank_def)

lemma as_news_marked: "\<forall>an \<in> set ans. raised an \<Longrightarrow> map as_news (mark_expected s ans) = ans"
  by (induction ans) (auto simp: mark_expected_def as_news_def raised_def)

lemma as_news_fields: "as_news x = as_news y \<Longrightarrow> an_Kind x = an_Kind y \<and> an_Subject x = an_Subject y \<and> an_Severity x = an_Severity y \<and> an_Detail x = an_Detail y"
  by (cases x; cases y) (simp add: as_news_def)

lemma mark_expected_keeps: "an \<in> set ans \<Longrightarrow> \<exists>an' \<in> set (mark_expected s ans). as_news an' = as_news an"
  by (induction ans) (auto simp: mark_expected_def as_news_def)

text \<open>What an operator declares about a farm never changes which anomalies are reported, nor their order: errors come first. An anomaly
  is marked as expected exactly when the declared state accounts for its kind, and an active farm expects none.\<close>

theorem declared_state_hides_nothing:
  "map as_news (as_Anomalies (Assess loc clock (inp \<lparr>ai_State := s\<rparr>))) = map as_news (as_Anomalies (Assess loc clock inp)) \<and>
   sorted (map severity_rank (as_Anomalies (Assess loc clock inp))) \<and>
   (\<forall>an \<in> set (as_Anomalies (Assess loc clock inp)). an_Expected an \<longleftrightarrow> expectedUnder (as_State (Assess loc clock inp)) (an_Kind an)) \<and>
   (as_State (Assess loc clock inp) = StateActive \<longrightarrow> (\<forall>an \<in> set (as_Anomalies (Assess loc clock inp)). \<not> an_Expected an))"
proof -
  define now where "now = (if time_is_zero (ai_Now inp) then clock else ai_Now inp)"
  let ?raw = "as_Anomalies (judged inp) @ farm_anomalies loc inp now"
  have raw: "\<forall>an \<in> set ?raw. raised an" using judged_raised farm_raised by auto
  have a: "as_Anomalies (Assess loc clock inp) = order_anomalies (mark_expected (as_State (judged inp)) ?raw)" "as_State (Assess loc clock inp) = as_State (judged inp)"
    by (simp_all add: Assess_fields now_def)
  have farm: "farm_anomalies loc (inp \<lparr>ai_State := s\<rparr>) t = farm_anomalies loc inp t" for t
    by (simp add: farm_anomalies_def judged_State run_anomalies_def)
  have "as_Anomalies (Assess loc clock (inp \<lparr>ai_State := s\<rparr>)) = order_anomalies (mark_expected (if s = [] then StateActive else s) ?raw)"
    unfolding Assess_fields(1) judged_State by (simp add: farm now_def)
  then have "map as_news (as_Anomalies (Assess loc clock (inp \<lparr>ai_State := s\<rparr>))) = order_anomalies ?raw"
    using as_news_marked [OF raw] by (simp only: as_news_order)
  moreover have "map as_news (as_Anomalies (Assess loc clock inp)) = order_anomalies ?raw" using raw by (simp add: a as_news_order as_news_marked)
  moreover have "sorted (map severity_rank (as_Anomalies (Assess loc clock inp)))" by (simp add: a order_anomalies_def)
  moreover have idle: "\<not> expectedUnder StateActive k" for k
    by (simp add: expectedUnder_def StateActive_def StateBroken_def StateMaintenance_def StateRetired_def)
  moreover have "an_Expected an \<longleftrightarrow> expectedUnder (as_State (judged inp)) (an_Kind an)" if "an \<in> set (mark_expected (as_State (judged inp)) ?raw)" for an
    using that raw idle by (auto simp: mark_expected_def raised_def split: if_splits)
  ultimately show ?thesis by (simp add: a)
qed

text \<open>The anomaly of an unsettled membership is declared, and listed among those a retired farm expects, but never raised.\<close>

lemma unsettled_is_never_raised: "an \<in> set (as_Anomalies (Assess loc clock inp)) \<Longrightarrow> an_Kind an \<noteq> AnomalyUnsettled"
proof -
  assume an: "an \<in> set (as_Anomalies (Assess loc clock inp))"
  define raw where "raw = as_Anomalies (judged inp) @ farm_anomalies loc inp (if time_is_zero (ai_Now inp) then clock else ai_Now inp)"
  have "\<forall>an \<in> set raw. raised an" unfolding raw_def using judged_raised farm_raised by (metis Un_iff set_append)
  moreover have "an \<in> set (mark_expected (as_State (judged inp)) raw)" using an by (simp add: Assess_fields raw_def)
  ultimately show ?thesis by (auto simp: mark_expected_def raised_def split: if_splits)
qed

section \<open>Freshness reads the recorded run\<close>

text \<open>The assessment tells the truth about the last reconcile the store recorded. After a success it is fresh, complete as the answer was, and
  neither never-run nor failing is reported; it turns stale exactly when the window a caller passes has gone by. After a failure
  later than the last success, the error is reported as an error with its text, the last success stays what it was,
  and nothing is called complete.\<close>

theorem assessment_reads_the_last_run:
  fixes loc clock inp
  defines "a \<equiv> Assess loc clock inp" and "f \<equiv> as_Freshness (Assess loc clock inp)" and "now \<equiv> if time_is_zero (ai_Now inp) then clock else ai_Now inp"
  assumes "RecordReconcileRun env t0 i res tm runErr db = (db', Inr u)" "tm \<noteq> 0" "ai_Run inp = map_of (db_runs db') i"
  shows "(runErr = None \<longrightarrow> fr_LastSuccess f = Some tm \<and> fr_LastAttempt f = Some tm \<and> fr_Complete f = oc_Complete res \<and> fr_Error f = [] \<and>
      (fr_Stale f \<longleftrightarrow> ai_StaleAfter inp > 0 \<and> time_sub now tm > ai_StaleAfter inp) \<and>
      (\<forall>an \<in> set (as_Anomalies a). an_Kind an \<noteq> AnomalyNeverRun \<and> an_Kind an \<noteq> AnomalyReconcileNG)) \<and>
    (\<forall>msg. runErr = Some msg \<longrightarrow> msg \<noteq> [] \<longrightarrow> (\<forall>s. rr_SucceededAt (run_row db i) = Some s \<longrightarrow> s < tm) \<longrightarrow>
      fr_LastSuccess f = rr_SucceededAt (run_row db i) \<and> fr_LastAttempt f = Some tm \<and> \<not> fr_Complete f \<and> fr_Error f = msg \<and>
      (\<exists>an \<in> set (as_Anomalies a). an_Kind an = AnomalyReconcileNG \<and> an_Subject an = ai_ID inp \<and> an_Severity an = SeverityError \<and>
         an_Detail an = ''the last reconcile failed: '' @ msg))"
proof -
  let ?raw = "as_Anomalies (judged inp) @ farm_anomalies loc inp now"
  have anomalies: "as_Anomalies a = order_anomalies (mark_expected (as_State (judged inp)) ?raw)" by (simp add: a_def Assess_fields now_def)
  have f: "f = assessFreshness (ai_Run inp) (ai_StaleAfter inp) now" by (simp add: f_def Assess_fields now_def)
  have db': "db' = (case runErr of Some msg \<Rightarrow> failed_run i tm msg | None \<Rightarrow> finished_run i tm res) db"
    using assms(4,5) pool_insert_ok by (fastforce simp: RecordReconcileRun_def time_is_zero_def)
  have kept: "\<exists>an' \<in> set (as_Anomalies a). as_news an' = as_news an" if "an \<in> set ?raw" for an
    using mark_expected_keeps [OF that] by (simp add: anomalies)
  have kinds: "\<exists>an' \<in> set ?raw. an_Kind an' = an_Kind an" if "an \<in> set (as_Anomalies a)" for an
    using that by (auto simp: anomalies mark_expected_def split: if_splits)
  show ?thesis
  proof (intro conjI impI allI)
    assume none: "runErr = None"
    then have run: "ai_Run inp = Some \<lparr>rr_DeploymentID = i, rr_StartedAt = tm, rr_SucceededAt = Some tm, rr_Complete = oc_Complete res, rr_LastError = [],
        rr_Confirmed = length (oc_Confirmed res), rr_LocalOnly = length (oc_LocalOnly res), rr_ControlOnly = length (oc_ControlOnly res),
        rr_Held = length (oc_Held res), rr_Ambiguous = length (oc_Ambiguous res)\<rparr>" by (simp add: assms(6) db' finished_run_def)
    show "fr_LastSuccess f = Some tm" "fr_LastAttempt f = Some tm" "fr_Complete f = oc_Complete res" "fr_Error f = []"
      "fr_Stale f \<longleftrightarrow> ai_StaleAfter inp > 0 \<and> time_sub now tm > ai_StaleAfter inp" by (simp_all add: f run assessFreshness_def)
    have "an_Kind an \<noteq> AnomalyNeverRun \<and> an_Kind an \<noteq> AnomalyReconcileNG" if "an \<in> set ?raw" for an
      using that judged_run_free [of an inp] by (auto simp: farm_anomalies_def run_anomalies_def ghost_anomaly_def new_anomaly_def run assessFreshness_def anomaly_kinds
          split: if_splits)
    then show "\<forall>an \<in> set (as_Anomalies a). an_Kind an \<noteq> AnomalyNeverRun \<and> an_Kind an \<noteq> AnomalyReconcileNG" using kinds by metis
  next
    fix msg assume some: "runErr = Some msg" "msg \<noteq> []" "\<forall>s. rr_SucceededAt (run_row db i) = Some s \<longrightarrow> s < tm"
    then have run: "ai_Run inp = Some ((run_row db i) \<lparr>rr_StartedAt := tm, rr_Complete := False, rr_LastError := msg\<rparr>)" by (simp add: assms(6) db' failed_run_def)
    show fr: "fr_LastSuccess f = rr_SucceededAt (run_row db i)" "fr_LastAttempt f = Some tm" "\<not> fr_Complete f" "fr_Error f = msg"
      using some by (simp_all add: f run assessFreshness_def split: option.split)
    then have "new_anomaly AnomalyReconcileNG (ai_ID inp) SeverityError (''the last reconcile failed: '' @ msg) \<in> set ?raw"
      using some(2) by (simp add: farm_anomalies_def run_anomalies_def run flip: f) (simp add: f run)
    from kept [OF this] obtain an where "an \<in> set (as_Anomalies a)"
      "as_news an = as_news (new_anomaly AnomalyReconcileNG (ai_ID inp) SeverityError (''the last reconcile failed: '' @ msg))" by blast
    with as_news_fields [OF this(2)] show "\<exists>an \<in> set (as_Anomalies a). an_Kind an = AnomalyReconcileNG \<and> an_Subject an = ai_ID inp \<and>
        an_Severity an = SeverityError \<and> an_Detail an = ''the last reconcile failed: '' @ msg"
      by (intro bexI [of _ an]) (simp_all add: new_anomaly_def)
  qed
qed

section \<open>Concrete farms\<close>

definition farm_host :: "string \<Rightarrow> string list \<Rightarrow> (string, component) gomap \<Rightarrow> openStackHost" where
  "farm_host n roles comps = \<lparr>oh_Hostname = n, oh_IP = [], oh_DC = [], oh_HostState = StateActive, oh_Detected = True, oh_Roles = roles, oh_ActiveRoles = [''compute''],
     oh_Dropped = [], oh_Components = comps, oh_Details = [], oh_LastError = [], oh_ObservedAt = 1, oh_Farm = ''f1'', oh_FarmName = [], oh_FarmRegion = [],
     oh_Confidence = Confirmed, oh_Memberships = []\<rparr>"

definition farm_input :: "openStackHost list \<Rightarrow> vm_instance list \<Rightarrow> reconcileRun option \<Rightarrow> string \<Rightarrow> assess_input" where
  "farm_input hs ins run state = \<lparr>ai_ID = ''f1'', ai_Name = [], ai_Region = [], ai_Dashboard = [], ai_State = state, ai_StateNote = [], ai_StateSince = None,
     ai_Hosts = hs, ai_Instances = ins, ai_Run = run, ai_Ghosts = [], ai_StaleAfter = 0, ai_Now = 9\<rparr>"

definition aio_host :: openStackHost where
  "aio_host = farm_host ''aio01'' [''compute'', ''network''] [(''nova-compute'', \<lparr>cmp_Version = ''29.2'', cmp_Package = [], cmp_Active = True, cmp_Service = True\<rparr>)]"

theorem assessment_counts_agree_witness:
  "hosts_ok [aio_host] \<and> as_Total (Assess (\<lambda>_. 0) 9 (farm_input [aio_host] [] None [])) = 1 \<and>
   map rm_Hostname (filter (\<lambda>m. rm_AlsoIn m = []) (concat (map rs_Hosts (as_Sections (Assess (\<lambda>_. 0) 9 (farm_input [aio_host] [] None [])))))) = [''aio01'']"
proof -
  have ok: "hosts_ok (ai_Hosts (farm_input [aio_host] [] None []))" by (simp add: hosts_ok_def farm_input_def aio_host_def farm_host_def)
  note t = assessment_counts_agree [OF ok, of "\<lambda>_. 0" 9]
  from t have "distinct (described_hosts (as_Sections (Assess (\<lambda>_. 0) 9 (farm_input [aio_host] [] None []))))"
    "set (described_hosts (as_Sections (Assess (\<lambda>_. 0) 9 (farm_input [aio_host] [] None [])))) = {''aio01''}"
    by (auto simp: farm_input_def aio_host_def farm_host_def)
  then have "described_hosts (as_Sections (Assess (\<lambda>_. 0) 9 (farm_input [aio_host] [] None []))) = [''aio01'']"
    by (cases "described_hosts (as_Sections (Assess (\<lambda>_. 0) 9 (farm_input [aio_host] [] None [])))") (auto simp: subset_singleton_iff)
  with t ok show ?thesis by (simp add: described_hosts_def farm_input_def)
qed

theorem declared_state_hides_nothing_witness:
  "\<exists>an \<in> set (as_Anomalies (Assess (\<lambda>_. 0) 9 (farm_input [aio_host] [] None ''retired''))). an_Kind an = AnomalyNeverRun \<and> an_Expected an"
proof -
  let ?a = "Assess (\<lambda>_. 0) 9 (farm_input [aio_host] [] None ''retired'')"
  have state: "as_State ?a = ''retired''" by code_simp
  have "AnomalyNeverRun \<in> set (map an_Kind (as_Anomalies ?a))" by code_simp
  then obtain an where an: "an \<in> set (as_Anomalies ?a)" "an_Kind an = AnomalyNeverRun" by auto
  moreover have "expectedUnder ''retired'' AnomalyNeverRun" by code_simp
  ultimately have "an_Expected an" using declared_state_hides_nothing [where loc = "\<lambda>_. 0" and clock = 9 and inp = "farm_input [aio_host] [] None ''retired''"] state by simp
  with an show ?thesis by blast
qed

theorem assessment_reads_the_last_run_witness:
  "\<exists>db' inp. RecordReconcileRun fine_env 7 ''f1'' zero_outcome 7 (Some ''timeout'') known_farm = (db', Inr ()) \<and> ai_Run inp = map_of (db_runs db') ''f1'' \<and>
     fr_Error (as_Freshness (Assess (\<lambda>_. 0) 9 inp)) = ''timeout''"
proof -
  let ?r = "RecordReconcileRun fine_env 7 ''f1'' zero_outcome 7 (Some ''timeout'') known_farm"
  let ?inp = "farm_input [aio_host] [] (map_of (db_runs (fst ?r)) ''f1'') []"
  have "snd ?r = Inr ()" by code_simp
  then have r: "?r = (fst ?r, Inr ())" by (simp add: prod_eq_iff)
  have run: "ai_Run ?inp = map_of (db_runs (fst ?r)) ''f1''" by (simp add: farm_input_def)
  have "rr_SucceededAt (run_row known_farm ''f1'') = None" by code_simp
  with assessment_reads_the_last_run [OF r _ run, of "\<lambda>_. 0" 9] have "fr_Error (as_Freshness (Assess (\<lambda>_. 0) 9 ?inp)) = ''timeout''" by simp
  with r run show ?thesis by blast
qed

text \<open>A host whose components carry no version counts as a release of its own, so one release in a farm is reported as drift.\<close>

lemma unknown_release_is_drift:
  "map fst (as_ByRelease (Assess (\<lambda>_. 0) 9 (farm_input [aio_host, farm_host ''c2'' [''compute''] []] [] None []))) = [''29.2'', ''-''] \<and>
   as_Drifting (Assess (\<lambda>_. 0) 9 (farm_input [aio_host, farm_host ''c2'' [''compute''] []] [] None []))"
  by code_simp

text \<open>VMs are attributed by comparing the hypervisor name of Nova with the inventory name. A host the reconciler confirms under a shorter
  name, because the inventory adds a site prefix, is listed with no VMs.\<close>

lemma prefixed_host_shows_no_vms:
  "fst (MatchHosts [''icn-aio01''] [''aio01'']) = [(''icn-aio01'', ''aio01'')] \<and>
   as_VMs (Assess (\<lambda>_. 0) 9 (farm_input [aio_host \<lparr>oh_Hostname := ''icn-aio01''\<rparr>] [sample_vm ''v1'' None \<lparr>vm_HypervisorHostname := ''aio01''\<rparr>] None [])) = 1 \<and>
   map rm_VMs (concat (map rs_Hosts (as_Sections (Assess (\<lambda>_. 0) 9 (farm_input [aio_host \<lparr>oh_Hostname := ''icn-aio01''\<rparr>]
     [sample_vm ''v1'' None \<lparr>vm_HypervisorHostname := ''aio01''\<rparr>] None []))))) = [0, 0]"
  by code_simp

end
