(* ===== verification/List_Picker.thy ===== *)
theory List_Picker
  imports Vm_Target
begin

text \<open>
  \<^verbatim>\<open>internal/cli/internal/cmdkit/selectlist.go\<close>: the one list picker every selection of the tool runs on. The terminal
  program is a state machine driven by messages: \<open>Update\<close> is one step of it, \<open>View\<close> what it draws after a step, and
  \<open>RunListPicker\<close> the whole interaction, with the numbered fallback when standard input is no terminal.

  Indexing is where such code breaks, so an index out of range is a value here: \<^const>\<open>None\<close> stands for the run-time
  panic of Go, and the lemmas show it never happens. The library that feeds the messages (bubbletea) is a list of them; a
  list that ends before the program quits is a program still waiting. Query text is typed as ASCII, where a rune is a byte.
\<close>

section \<open>The model\<close>

definition go_index :: "'a list \<Rightarrow> int \<Rightarrow> 'a option" where
  "go_index xs i = (if 0 \<le> i \<and> i < int (length xs) then Some (xs ! nat i) else None)"

record listGroups =
  lg_name :: string
  lg_of :: "string list"

definition NewListGroups :: "string \<Rightarrow> string list \<Rightarrow> listGroups" where
  "NewListGroups name gs = \<lparr>lg_name = name, lg_of = gs\<rparr>"

record listModel =
  lm_cands :: "string list"
  lm_groups :: "listGroups option"
  lm_match :: "(nat \<Rightarrow> string \<Rightarrow> bool) option"
  lm_tabs :: "string list"
  lm_tabIdx :: int
  lm_filtered :: "nat list"
  lm_query :: string
  lm_cursor :: int
  lm_offset :: int
  lm_height :: int
  lm_width :: int
  lm_multi :: bool
  lm_selected :: "(nat, bool) gomap"
  lm_chosen :: int
  lm_cancelled :: bool

definition pickerViewport :: int where "pickerViewport = 10"

definition distinctGroups :: "listGroups option \<Rightarrow> string list" where
  "distinctGroups g = (case g of None \<Rightarrow> [''''] | Some g' \<Rightarrow> '''' # sort (remdups (filter (\<lambda>v. v \<noteq> '''') (lg_of g'))))"

definition groupOf :: "listModel \<Rightarrow> nat \<Rightarrow> string" where
  "groupOf m i = (case lm_groups m of None \<Rightarrow> ''''
     | Some g \<Rightarrow> if length (lg_of g) \<le> i then '''' else lg_of g ! i)"

definition groupName :: "listModel \<Rightarrow> string" where
  "groupName m = (case lm_groups m of None \<Rightarrow> ''group'' | Some g \<Rightarrow> if lg_name g = '''' then ''group'' else lg_name g)"

definition row_matches :: "listModel \<Rightarrow> nat \<Rightarrow> string \<Rightarrow> bool" where
  "row_matches m i q = (case lm_match m of Some f \<Rightarrow> f i q | None \<Rightarrow> str_contains (to_lower (lm_cands m ! i)) q)"

definition filter_rows :: "listModel \<Rightarrow> string \<Rightarrow> nat list" where
  "filter_rows m tab = (let q = to_lower (trim_space (lm_query m)) in
     filter (\<lambda>i. \<not> (tab \<noteq> '''' \<and> groupOf m i \<noteq> tab) \<and> (q = '''' \<or> row_matches m i q)) [0..<length (lm_cands m)])"

definition refilter :: "listModel \<Rightarrow> listModel option" where
  "refilter m = (case go_index (lm_tabs m) (lm_tabIdx m) of None \<Rightarrow> None
     | Some tab \<Rightarrow> Some (m \<lparr>lm_filtered := filter_rows m tab, lm_cursor := 0, lm_offset := 0\<rparr>))"

definition newListModel ::
  "int \<Rightarrow> string list \<Rightarrow> listGroups option \<Rightarrow> (nat \<Rightarrow> string \<Rightarrow> bool) option \<Rightarrow> bool \<Rightarrow> listModel option" where
  \<comment> \<open>the first argument is the width the terminal reports, zero when it reports none\<close>
  "newListModel w items g match multi = refilter \<lparr>lm_cands = items, lm_groups = g, lm_match = match,
     lm_tabs = distinctGroups g, lm_tabIdx = 0, lm_filtered = [], lm_query = '''', lm_cursor = 0, lm_offset = 0,
     lm_height = pickerViewport, lm_width = (if 0 < w then w else 100), lm_multi = multi, lm_selected = [],
     lm_chosen = - 1, lm_cancelled = False\<rparr>"

definition clampScroll :: "listModel \<Rightarrow> listModel" where
  "clampScroll m =
    (let c0 = (if lm_cursor m < 0 then 0 else lm_cursor m);
         n = int (length (lm_filtered m));
         c = (if n \<le> c0 then n - 1 else c0);
         o1 = (if c < lm_offset m then c else lm_offset m);
         o2 = (if o1 + lm_height m \<le> c then c - lm_height m + 1 else o1);
         o3 = (if o2 < 0 then 0 else o2)
     in m \<lparr>lm_cursor := c, lm_offset := o3\<rparr>)"

section \<open>Messages\<close>

datatype tea_msg = WindowSize int | KeyCtrlC | KeyEsc | KeyEnter | KeyUp | KeyCtrlP | KeyDown | KeyCtrlN | KeyLeft | KeyRight
  | KeySpace | KeyBackspace | KeyRunes string | OtherMsg

definition move_tab :: "int \<Rightarrow> listModel \<Rightarrow> listModel option" where
  "move_tab k m = (if 1 < length (lm_tabs m) then refilter (m \<lparr>lm_tabIdx := k mod int (length (lm_tabs m))\<rparr>) else Some m)"

definition toggle :: "nat \<Rightarrow> listModel \<Rightarrow> listModel" where
  "toggle i m = m \<lparr>lm_selected := AList.update i (\<not> is_true (lm_selected m) i) (lm_selected m)\<rparr>"

text \<open>One message: the new model, and whether the program quits; \<^const>\<open>None\<close> when an index is out of range.\<close>

definition Update :: "listModel \<Rightarrow> tea_msg \<Rightarrow> (listModel \<times> bool) option" where
  "Update m msg =
    (let going = map_option (\<lambda>m'. (m', False)) in
     case msg of
       WindowSize w \<Rightarrow> Some (if 0 < w then m \<lparr>lm_width := w\<rparr> else m, False)
     | KeyCtrlC \<Rightarrow> Some (m \<lparr>lm_cancelled := True\<rparr>, True)
     | KeyEsc \<Rightarrow> Some (m \<lparr>lm_cancelled := True\<rparr>, True)
     | KeyEnter \<Rightarrow>
         if \<not> lm_multi m \<and> lm_filtered m \<noteq> []
         then map_option (\<lambda>i. (m \<lparr>lm_chosen := int i\<rparr>, True)) (go_index (lm_filtered m) (lm_cursor m))
         else Some (m, True)
     | KeyUp \<Rightarrow> Some (clampScroll (m \<lparr>lm_cursor := lm_cursor m - 1\<rparr>), False)
     | KeyCtrlP \<Rightarrow> Some (clampScroll (m \<lparr>lm_cursor := lm_cursor m - 1\<rparr>), False)
     | KeyDown \<Rightarrow> Some (clampScroll (m \<lparr>lm_cursor := lm_cursor m + 1\<rparr>), False)
     | KeyCtrlN \<Rightarrow> Some (clampScroll (m \<lparr>lm_cursor := lm_cursor m + 1\<rparr>), False)
     | KeyLeft \<Rightarrow> going (move_tab (lm_tabIdx m - 1 + int (length (lm_tabs m))) m)
     | KeyRight \<Rightarrow> going (move_tab (lm_tabIdx m + 1) m)
     | KeySpace \<Rightarrow>
         if lm_multi m \<and> lm_filtered m \<noteq> []
         then map_option (\<lambda>i. (toggle i m, False)) (go_index (lm_filtered m) (lm_cursor m))
         else going (refilter (m \<lparr>lm_query := lm_query m @ '' ''\<rparr>))
     | KeyBackspace \<Rightarrow> if lm_query m \<noteq> '''' then going (refilter (m \<lparr>lm_query := butlast (lm_query m)\<rparr>)) else Some (m, False)
     | KeyRunes r \<Rightarrow> going (refilter (m \<lparr>lm_query := lm_query m @ r\<rparr>))
     | OtherMsg \<Rightarrow> Some (m, False))"

section \<open>What is drawn\<close>

text \<open>The text and the colours are left out: a row is its label, its mark, and whether it is highlighted.\<close>

datatype mark = Radio bool | Checkbox bool

record picker_row =
  row_label :: string
  row_mark :: mark
  row_highlighted :: bool

record picker_view =
  pv_rows :: "picker_row list"
  pv_above :: int
  pv_below :: int
  pv_selected :: nat
  pv_tab :: "(string \<times> int \<times> nat) option"

definition renderRow :: "listModel \<Rightarrow> int \<Rightarrow> picker_row option" where
  "renderRow m i = (case go_index (lm_filtered m) i of None \<Rightarrow> None
     | Some ci \<Rightarrow> (case go_index (lm_cands m) (int ci) of None \<Rightarrow> None
       | Some label \<Rightarrow> Some \<lparr>row_label = label,
           row_mark = (if lm_multi m then Checkbox (is_true (lm_selected m) ci) else Radio (i = lm_cursor m)),
           row_highlighted = (i = lm_cursor m)\<rparr>))"

fun all_some :: "'a option list \<Rightarrow> 'a list option" where
  "all_some [] = Some []"
| "all_some (x # xs) = (case x of None \<Rightarrow> None | Some y \<Rightarrow> map_option (Cons y) (all_some xs))"

definition view_tab :: "listModel \<Rightarrow> (string \<times> int \<times> nat) option option" where
  \<comment> \<open>the tab row: only for more than one group beside the entry for all of them\<close>
  "view_tab m = (if 2 < length (lm_tabs m)
     then map_option (\<lambda>label. Some (if label = '''' then ''all '' @ groupName m @ ''s'' else label, lm_tabIdx m + 1, length (lm_tabs m)))
            (go_index (lm_tabs m) (lm_tabIdx m))
     else Some None)"

definition View :: "listModel \<Rightarrow> picker_view option" where
  "View m = (case view_tab m of None \<Rightarrow> None | Some tab \<Rightarrow>
     (let n = int (length (lm_filtered m)); stop = min (lm_offset m + lm_height m) n in
      if n = 0 then Some \<lparr>pv_rows = [], pv_above = 0, pv_below = 0, pv_selected = length (lm_selected m), pv_tab = tab\<rparr>
      else map_option (\<lambda>rows. \<lparr>pv_rows = rows, pv_above = lm_offset m, pv_below = n - stop,
               pv_selected = length (lm_selected m), pv_tab = tab\<rparr>)
             (all_some (map (renderRow m) [lm_offset m..stop - 1]))))"

section \<open>The interaction\<close>

datatype 'a outcome = Panic | Waiting | Done 'a

text \<open>The program draws after every message and ends when \<open>Update\<close> quits.\<close>

fun tea_run :: "listModel \<Rightarrow> tea_msg list \<Rightarrow> listModel outcome" where
  "tea_run m [] = (if View m = None then Panic else Waiting)"
| "tea_run m (msg # msgs) = (if View m = None then Panic else
     case Update m msg of None \<Rightarrow> Panic
     | Some (m', quit) \<Rightarrow> if quit then (if View m' = None then Panic else Done m') else tea_run m' msgs)"

fun fields_func :: "(char \<Rightarrow> bool) \<Rightarrow> string \<Rightarrow> string \<Rightarrow> string list" where
  \<comment> \<open>\<^verbatim>\<open>strings.FieldsFunc\<close>, the second argument holding the field being read\<close>
  "fields_func P w [] = (if w = [] then [] else [w])"
| "fields_func P w (c # cs) = (if P c then (if w = [] then [] else [w]) @ fields_func P [] cs else fields_func P (w @ [c]) cs)"

fun parse_picks :: "nat \<Rightarrow> bool \<Rightarrow> string list \<Rightarrow> goerror + nat list" where
  "parse_picks n multi [] = Inr []"
| "parse_picks n multi (f # fs) = (case Atoi (trim_space f) of
     None \<Rightarrow> Inl (Plain (''invalid selection '' @ f))
   | Some k \<Rightarrow> if k < 1 \<or> int n < k then Inl (Plain (''invalid selection '' @ f))
       else if \<not> multi then Inr [nat (k - 1)]
       else map_sum id (Cons (nat (k - 1))) (parse_picks n multi fs))"

definition numberListPick :: "string \<Rightarrow> string list \<Rightarrow> bool \<Rightarrow> goerror + nat list \<times> bool" where
  "numberListPick line items multi =
    (let l = trim_space line in
     if l = '''' then Inr ([], \<not> multi)
     else map_sum id (\<lambda>out. (out, False))
            (parse_picks (length items) multi (fields_func (\<lambda>c. c = CHR '','' \<or> c = CHR '' '') [] l)))"

datatype picker_input = Terminal int "tea_msg list" | TerminalFailed goerror | Line string

definition RunListPicker ::
  "picker_input \<Rightarrow> string list \<Rightarrow> listGroups option \<Rightarrow> (nat \<Rightarrow> string \<Rightarrow> bool) option \<Rightarrow> bool \<Rightarrow> (goerror + int list \<times> bool) outcome"
where
  "RunListPicker inp items g match multi =
    (if items = [] then Done (Inl (Plain ''nothing to choose from''))
     else case inp of
       Line l \<Rightarrow> Done (map_sum id (map_prod (map int) id) (numberListPick l items multi))
     | TerminalFailed e \<Rightarrow> Done (Inl (Wrapf ''selection failed'' e))
     | Terminal w msgs \<Rightarrow>
         (case newListModel w items g match multi of None \<Rightarrow> Panic
          | Some m \<Rightarrow> (case tea_run m msgs of Panic \<Rightarrow> Panic | Waiting \<Rightarrow> Waiting
            | Done lm \<Rightarrow> Done (Inr
                (if lm_cancelled lm then ([], True)
                 else if multi then (map int (filter (is_true (lm_selected lm)) [0..<length (lm_cands lm)]), False)
                 else if lm_chosen lm < 0 then ([], True)
                 else ([lm_chosen lm], False))))))"

definition cancelled_selection :: goerror where
  "cancelled_selection = Plain ''selection cancelled''"

text \<open>The four entry points, on what \<open>RunListPicker\<close> answered; reading an item at an index may panic.\<close>

definition PickOne :: "picker_input \<Rightarrow> string list \<Rightarrow> (goerror + string) outcome" where
  "PickOne inp items = (case RunListPicker inp items None None False of Panic \<Rightarrow> Panic | Waiting \<Rightarrow> Waiting
     | Done (Inl e) \<Rightarrow> Done (Inl e)
     | Done (Inr (idx, _)) \<Rightarrow> (case idx of [] \<Rightarrow> Done (Inl cancelled_selection)
         | i # _ \<Rightarrow> (case go_index items i of None \<Rightarrow> Panic | Some s \<Rightarrow> Done (Inr s))))"

definition PickIndexMatch ::
  "picker_input \<Rightarrow> string list \<Rightarrow> listGroups option \<Rightarrow> (nat \<Rightarrow> string \<Rightarrow> bool) option \<Rightarrow> (goerror + int) outcome" where
  "PickIndexMatch inp items g match = (case RunListPicker inp items g match False of Panic \<Rightarrow> Panic | Waiting \<Rightarrow> Waiting
     | Done (Inl e) \<Rightarrow> Done (Inl e)
     | Done (Inr (idx, cancelled)) \<Rightarrow> (case idx of [] \<Rightarrow> Done (Inl cancelled_selection)
         | i # _ \<Rightarrow> if cancelled then Done (Inl cancelled_selection) else Done (Inr i)))"

definition PickIndex :: "picker_input \<Rightarrow> string list \<Rightarrow> listGroups option \<Rightarrow> (goerror + int) outcome" where
  "PickIndex inp items g = PickIndexMatch inp items g None"

definition PickMany :: "picker_input \<Rightarrow> string list \<Rightarrow> (goerror + string list) outcome" where
  "PickMany inp items = (case RunListPicker inp items None None True of Panic \<Rightarrow> Panic | Waiting \<Rightarrow> Waiting
     | Done (Inl e) \<Rightarrow> Done (Inl e)
     | Done (Inr (idxs, cancelled)) \<Rightarrow> if cancelled then Done (Inl cancelled_selection)
         else (case all_some (map (go_index items) idxs) of None \<Rightarrow> Panic | Some out \<Rightarrow> Done (Inr out)))"

section \<open>The invariant\<close>

definition current_rows :: "listModel \<Rightarrow> nat list" where
  "current_rows m = filter_rows m (lm_tabs m ! nat (lm_tabIdx m))"

text \<open>The tab is one of the tabs, the rows are the candidates that the tab and the query leave, and when there is a row the
  cursor is on one and inside the window drawn.\<close>

definition picker_ok :: "listModel \<Rightarrow> bool" where
  "picker_ok m \<longleftrightarrow>
     0 \<le> lm_tabIdx m \<and> lm_tabIdx m < int (length (lm_tabs m)) \<and> 0 < lm_height m \<and> lm_filtered m = current_rows m \<and> 0 \<le> lm_offset m \<and>
     (lm_filtered m \<noteq> [] \<longrightarrow> lm_offset m \<le> lm_cursor m \<and> lm_cursor m < lm_offset m + lm_height m \<and>
        lm_cursor m < int (length (lm_filtered m)))"

definition same_list :: "listModel \<Rightarrow> listModel \<Rightarrow> bool" where
  "same_list m m' \<longleftrightarrow> lm_cands m' = lm_cands m \<and> lm_multi m' = lm_multi m"

lemma go_index_in [simp]: "0 \<le> i \<Longrightarrow> i < int (length xs) \<Longrightarrow> go_index xs i = Some (xs ! nat i)"
  by (simp add: go_index_def)

lemma current_rows_keep [simp]:
  "current_rows (m \<lparr>lm_cursor := c\<rparr>) = current_rows m" "current_rows (m \<lparr>lm_offset := o'\<rparr>) = current_rows m"
  "current_rows (m \<lparr>lm_filtered := f\<rparr>) = current_rows m" "current_rows (m \<lparr>lm_selected := s\<rparr>) = current_rows m"
  "current_rows (m \<lparr>lm_chosen := k\<rparr>) = current_rows m" "current_rows (m \<lparr>lm_cancelled := b\<rparr>) = current_rows m"
  "current_rows (m \<lparr>lm_width := w\<rparr>) = current_rows m"
  by (simp_all add: current_rows_def filter_rows_def groupOf_def row_matches_def Let_def cong: option.case_cong)

lemma current_rows_in: "i \<in> set (current_rows m) \<Longrightarrow> i < length (lm_cands m)"
  by (simp add: current_rows_def filter_rows_def Let_def)

lemma current_rows_distinct: "distinct (current_rows m)"
  by (simp add: current_rows_def filter_rows_def Let_def)

lemma same_list_refl [simp]: "same_list m m"
  by (simp add: same_list_def)

lemma refilter_ok:
  assumes "0 \<le> lm_tabIdx m" "lm_tabIdx m < int (length (lm_tabs m))" "0 < lm_height m"
  shows "\<exists>m'. refilter m = Some m' \<and> picker_ok m' \<and> same_list m m' \<and> lm_chosen m' = lm_chosen m \<and> lm_cancelled m' = lm_cancelled m"
proof -
  let ?m = "m \<lparr>lm_filtered := current_rows m, lm_cursor := 0, lm_offset := 0\<rparr>"
  have "refilter m = Some ?m" using assms by (simp add: refilter_def current_rows_def)
  moreover have "picker_ok ?m" using assms by (simp add: picker_ok_def)
  ultimately show ?thesis by (simp add: same_list_def)
qed

lemma clampScroll_ok: "picker_ok m \<Longrightarrow> picker_ok (clampScroll (m \<lparr>lm_cursor := c\<rparr>))"
  by (auto simp: picker_ok_def clampScroll_def Let_def)

lemma clampScroll_keeps [simp]: "same_list m (clampScroll (m \<lparr>lm_cursor := c\<rparr>))" "lm_chosen (clampScroll m) = lm_chosen m"
  "lm_cancelled (clampScroll m) = lm_cancelled m"
  by (simp_all add: clampScroll_def Let_def same_list_def)

lemma move_tab_ok:
  assumes "picker_ok m"
  shows "\<exists>m'. move_tab k m = Some m' \<and> picker_ok m' \<and> same_list m m' \<and> lm_chosen m' = lm_chosen m \<and> lm_cancelled m' = lm_cancelled m"
proof (cases "1 < length (lm_tabs m)")
  case True
  let ?m = "m \<lparr>lm_tabIdx := k mod int (length (lm_tabs m))\<rparr>"
  have pos: "0 < int (length (lm_tabs m))" using True by auto
  show ?thesis using refilter_ok [of ?m] True assms pos_mod_sign [OF pos, of k] pos_mod_bound [OF pos, of k]
    by (simp add: move_tab_def picker_ok_def same_list_def)
qed (use assms in \<open>simp add: move_tab_def\<close>)

lemma query_ok:
  "picker_ok m \<Longrightarrow> \<exists>m'. refilter (m \<lparr>lm_query := q\<rparr>) = Some m' \<and> picker_ok m' \<and> same_list m m' \<and> lm_chosen m' = lm_chosen m \<and>
     lm_cancelled m' = lm_cancelled m"
  using refilter_ok [of "m \<lparr>lm_query := q\<rparr>"] by (simp add: picker_ok_def same_list_def)

lemma newListModel_ok:
  "\<exists>m. newListModel w items g match multi = Some m \<and> picker_ok m \<and> lm_cands m = items \<and> lm_multi m = multi \<and>
     lm_chosen m = - 1 \<and> \<not> lm_cancelled m"
proof -
  let ?m = "\<lparr>lm_cands = items, lm_groups = g, lm_match = match,
     lm_tabs = distinctGroups g, lm_tabIdx = 0, lm_filtered = [], lm_query = '''', lm_cursor = 0, lm_offset = 0,
     lm_height = pickerViewport, lm_width = (if 0 < w then w else 100), lm_multi = multi, lm_selected = [],
     lm_chosen = - 1, lm_cancelled = False\<rparr>"
  have "distinctGroups g \<noteq> []" by (simp add: distinctGroups_def split: option.splits)
  then show ?thesis
    using refilter_ok [of ?m] by (simp add: newListModel_def pickerViewport_def same_list_def)
qed

definition under_cursor :: "listModel \<Rightarrow> nat" where
  "under_cursor m = lm_filtered m ! nat (lm_cursor m)"

lemma under_cursor_ok:
  assumes "picker_ok m" "lm_filtered m \<noteq> []"
  shows "go_index (lm_filtered m) (lm_cursor m) = Some (under_cursor m)" "under_cursor m < length (lm_cands m)"
proof -
  from assms have c: "0 \<le> lm_cursor m" "lm_cursor m < int (length (lm_filtered m))" by (auto simp: picker_ok_def)
  then show "go_index (lm_filtered m) (lm_cursor m) = Some (under_cursor m)" by (simp add: under_cursor_def)
  from c have "under_cursor m \<in> set (lm_filtered m)" by (simp add: under_cursor_def nat_less_iff)
  then show "under_cursor m < length (lm_cands m)" using assms by (auto simp: picker_ok_def dest: current_rows_in)
qed

lemma Update_Enter:
  assumes "picker_ok m"
  shows "Update m KeyEnter = Some (if \<not> lm_multi m \<and> lm_filtered m \<noteq> [] then m \<lparr>lm_chosen := int (under_cursor m)\<rparr> else m, True)"
  using under_cursor_ok(1) [OF assms] by (simp add: Update_def Let_def)

lemma Update_Space:
  assumes "picker_ok m" "lm_multi m" "lm_filtered m \<noteq> []"
  shows "Update m KeySpace = Some (toggle (under_cursor m) m, False)"
  using under_cursor_ok(1) [OF assms(1,3)] assms by (simp add: Update_def Let_def)

definition stepped :: "listModel \<Rightarrow> listModel \<Rightarrow> bool \<Rightarrow> bool" where
  "stepped m m' quit \<longleftrightarrow> picker_ok m' \<and> same_list m m' \<and>
     (quit \<or> lm_cancelled m' = lm_cancelled m) \<and>
     (lm_chosen m' = lm_chosen m \<or> quit \<and> 0 \<le> lm_chosen m' \<and> lm_chosen m' < int (length (lm_cands m')))"

lemma stepped_kinds:
  assumes "picker_ok m"
  shows "stepped m (clampScroll (m \<lparr>lm_cursor := c\<rparr>)) False" "stepped m (m \<lparr>lm_cancelled := True\<rparr>) True" "stepped m m False"
  using assms clampScroll_ok [OF assms, of c] by (simp_all add: stepped_def, simp add: picker_ok_def same_list_def)

lemma Update_ok:
  assumes ok: "picker_ok m"
  shows "\<exists>m' q. Update m msg = Some (m', q) \<and> stepped m m' q"
proof (cases msg)
  case KeyEnter
  have "stepped m (if \<not> lm_multi m \<and> lm_filtered m \<noteq> [] then m \<lparr>lm_chosen := int (under_cursor m)\<rparr> else m) True"
    using ok under_cursor_ok(2) [OF ok] by (auto simp: stepped_def picker_ok_def same_list_def)
  with Update_Enter [OF ok] KeyEnter show ?thesis by blast
next
  case KeySpace
  show ?thesis
  proof (cases "lm_multi m \<and> lm_filtered m \<noteq> []")
    case True
    then have "stepped m (toggle (under_cursor m) m) False"
      using ok by (auto simp: stepped_def picker_ok_def toggle_def same_list_def)
    with Update_Space [OF ok] True KeySpace show ?thesis by blast
  next
    case False
    then show ?thesis using KeySpace query_ok [OF ok, of "lm_query m @ '' ''"] by (auto simp: Update_def Let_def stepped_def)
  qed
next
  case KeyBackspace
  then show ?thesis using query_ok [OF ok, of "butlast (lm_query m)"] ok by (auto simp: Update_def Let_def stepped_def)
next
  case (KeyRunes r)
  then show ?thesis using query_ok [OF ok, of "lm_query m @ r"] by (auto simp: Update_def Let_def stepped_def)
next
  case KeyLeft
  then show ?thesis using move_tab_ok [OF ok, of "lm_tabIdx m - 1 + int (length (lm_tabs m))"] by (auto simp: Update_def Let_def stepped_def)
next
  case KeyRight
  then show ?thesis using move_tab_ok [OF ok, of "lm_tabIdx m + 1"] by (auto simp: Update_def Let_def stepped_def)
next
  case (WindowSize w)
  then show ?thesis using ok by (auto simp: Update_def Let_def picker_ok_def stepped_def same_list_def)
qed (use stepped_kinds [OF ok] in \<open>simp_all add: Update_def Let_def ex_bool_eq\<close>)

section \<open>Drawing and running\<close>

lemma all_some_map: "(\<And>x. x \<in> set xs \<Longrightarrow> f x = Some (h x)) \<Longrightarrow> all_some (map f xs) = Some (map h xs)"
  by (induction xs) simp_all

text \<open>The row a candidate is drawn as.\<close>

definition drawn_row :: "listModel \<Rightarrow> nat \<Rightarrow> picker_row" where
  "drawn_row m i = \<lparr>row_label = lm_cands m ! i,
     row_mark = (if lm_multi m then Checkbox (is_true (lm_selected m) i) else Radio (i = under_cursor m)),
     row_highlighted = (i = under_cursor m)\<rparr>"

lemma renderRow_ok:
  assumes "picker_ok m" "i < length (lm_filtered m)"
  shows "renderRow m (int i) = Some (drawn_row m (lm_filtered m ! i))"
proof -
  have "lm_filtered m ! i \<in> set (lm_filtered m)" using assms(2) by simp
  then have "lm_filtered m ! i < length (lm_cands m)" using assms(1) by (auto simp: picker_ok_def dest: current_rows_in)
  moreover have "lm_filtered m ! i = under_cursor m \<longleftrightarrow> int i = lm_cursor m"
  proof -
    have d: "distinct (lm_filtered m)" using assms(1) current_rows_distinct by (simp add: picker_ok_def)
    have c: "0 \<le> lm_cursor m" "nat (lm_cursor m) < length (lm_filtered m)" using assms by (auto simp: picker_ok_def)
    from nth_eq_iff_index_eq [OF d assms(2) c(2)] c(1) show ?thesis by (auto simp: under_cursor_def)
  qed
  ultimately show ?thesis using assms(2) by (simp add: renderRow_def drawn_row_def)
qed

definition window_end :: "listModel \<Rightarrow> nat" where
  "window_end m = nat (min (lm_offset m + lm_height m) (int (length (lm_filtered m))))"

lemma window_rows:
  assumes "picker_ok m" "lm_filtered m \<noteq> []"
  defines "a \<equiv> nat (lm_offset m)" and "b \<equiv> window_end m"
  shows "all_some (map (renderRow m) [lm_offset m..int b - 1]) = Some (map (drawn_row m) (take (b - a) (drop a (lm_filtered m))))"
    and "int a = lm_offset m" "a \<le> nat (lm_cursor m)" "nat (lm_cursor m) < b" "b \<le> length (lm_filtered m)"
    and "int b = min (lm_offset m + lm_height m) (int (length (lm_filtered m)))"
proof -
  show b: "int a = lm_offset m" "a \<le> nat (lm_cursor m)" "nat (lm_cursor m) < b" "b \<le> length (lm_filtered m)"
    "int b = min (lm_offset m + lm_height m) (int (length (lm_filtered m)))"
    using assms by (auto simp: picker_ok_def window_end_def)
  have e: "[lm_offset m..int b - 1] = map int [a..<b]" unfolding b(1) [symmetric]
    by (rule nth_equalityI) (use b(2,3) in auto)
  have t: "take (b - a) (drop a (lm_filtered m)) = map (\<lambda>i. lm_filtered m ! i) [a..<b]"
    by (rule nth_equalityI) (use b(4) in auto)
  have "all_some (map (\<lambda>i. renderRow m (int i)) [a..<b]) = Some (map (\<lambda>i. drawn_row m (lm_filtered m ! i)) [a..<b])"
    by (rule all_some_map) (use renderRow_ok [OF assms(1)] b(4) in auto)
  then show "all_some (map (renderRow m) [lm_offset m..int b - 1]) = Some (map (drawn_row m) (take (b - a) (drop a (lm_filtered m))))"
    unfolding e t by (simp add: comp_def)
qed

lemma View_ok:
  assumes ok: "picker_ok m"
  shows "\<exists>v a rows b. View m = Some v \<and> current_rows m = a @ rows @ b \<and> pv_rows v = map (drawn_row m) rows \<and>
    pv_above v = int (length a) \<and> pv_below v = int (length b) \<and> (current_rows m \<noteq> [] \<longrightarrow> under_cursor m \<in> set rows)"
proof -
  have "0 \<le> lm_tabIdx m" "lm_tabIdx m < int (length (lm_tabs m))" using ok by (simp_all add: picker_ok_def)
  then obtain tab where tab: "view_tab m = Some tab" by (cases "2 < length (lm_tabs m)") (simp_all add: view_tab_def)
  have rows: "current_rows m = lm_filtered m" using ok by (simp add: picker_ok_def)
  show ?thesis
  proof (cases "lm_filtered m = []")
    case True
    with tab rows show ?thesis by (simp add: View_def)
  next
    case False
    let ?f = "lm_filtered m" and ?a = "nat (lm_offset m)" and ?b = "window_end m" and ?c = "nat (lm_cursor m)"
    note w = window_rows [OF ok False]
    let ?rows = "take (?b - ?a) (drop ?a ?f)"
    have split: "?f = take ?a ?f @ ?rows @ drop ?b ?f"
    proof -
      have "drop ?a ?f = ?rows @ drop (?b - ?a) (drop ?a ?f)" by (rule append_take_drop_id [symmetric])
      moreover have "drop (?b - ?a) (drop ?a ?f) = drop ?b ?f" using w(3,4) by simp
      ultimately show ?thesis by (metis append_take_drop_id)
    qed
    have cursor: "under_cursor m \<in> set ?rows"
    proof -
      have "?rows ! (?c - ?a) = ?f ! ?c" "?c - ?a < length ?rows" using w(3,4,5) by auto
      then show ?thesis by (metis nth_mem under_cursor_def)
    qed
    have "View m = Some \<lparr>pv_rows = map (drawn_row m) ?rows, pv_above = lm_offset m, pv_below = int (length ?f) - int ?b,
        pv_selected = length (lm_selected m), pv_tab = tab\<rparr>"
      using tab False w(1) unfolding View_def by (simp add: w(6) [symmetric] Let_def)
    with split cursor rows w(2,3,4,5) show ?thesis
      by (intro exI [of _ "\<lparr>pv_rows = map (drawn_row m) ?rows, pv_above = lm_offset m, pv_below = int (length ?f) - int ?b,
        pv_selected = length (lm_selected m), pv_tab = tab\<rparr>"] exI [of _ "take ?a ?f"] exI [of _ ?rows] exI [of _ "drop ?b ?f"]) auto
  qed
qed

text \<open>The states the program passes through on the messages it has read without quitting.\<close>

inductive picker_reach :: "listModel \<Rightarrow> tea_msg list \<Rightarrow> listModel \<Rightarrow> bool" where
  start: "picker_reach m [] m"
| step: "Update m msg = Some (m', False) \<Longrightarrow> picker_reach m' msgs m'' \<Longrightarrow> picker_reach m (msg # msgs) m''"

inductive_cases picker_reach_Cons: "picker_reach m (msg # msgs) m'"

lemma picker_reach_ok:
  "picker_reach m msgs m' \<Longrightarrow> picker_ok m \<Longrightarrow>
     picker_ok m' \<and> same_list m m' \<and> lm_chosen m' = lm_chosen m \<and> lm_cancelled m' = lm_cancelled m"
proof (induction rule: picker_reach.induct)
  case (step m msg m' msgs m'')
  from Update_ok [OF step.prems, of msg] step.hyps have "stepped m m' False" by auto
  with step.IH show ?case by (auto simp: stepped_def same_list_def)
qed simp

lemma tea_run_reach:
  "picker_reach m msgs m' \<Longrightarrow> picker_ok m \<Longrightarrow> tea_run m (msgs @ rest) = tea_run m' rest"
proof (induction rule: picker_reach.induct)
  case (step m msg m' msgs m'')
  from Update_ok [OF step.prems, of msg] step.hyps have "picker_ok m'" by (auto simp: stepped_def)
  moreover obtain v where "View m = Some v" using View_ok [OF step.prems] by blast
  ultimately show ?case using step by simp
qed simp

lemma tea_run_ok:
  "picker_ok m \<Longrightarrow> (lm_chosen m = - 1 \<or> 0 \<le> lm_chosen m \<and> lm_chosen m < int (length (lm_cands m))) \<Longrightarrow>
     tea_run m msgs \<noteq> Panic \<and>
     (\<forall>m'. tea_run m msgs = Done m' \<longrightarrow> lm_cands m' = lm_cands m \<and>
        (lm_chosen m' = - 1 \<or> 0 \<le> lm_chosen m' \<and> lm_chosen m' < int (length (lm_cands m))))"
proof (induction msgs arbitrary: m)
  case Nil
  then show ?case using View_ok [of m] by auto
next
  case (Cons msg msgs)
  obtain v where v: "View m = Some v" using View_ok [OF Cons.prems(1)] by blast
  obtain m1 q where u: "Update m msg = Some (m1, q)" "stepped m m1 q" using Update_ok [OF Cons.prems(1)] by blast
  obtain v1 where v1: "View m1 = Some v1" using View_ok [of m1] u(2) by (auto simp: stepped_def)
  have ok1: "picker_ok m1" "lm_cands m1 = lm_cands m"
    "lm_chosen m1 = - 1 \<or> 0 \<le> lm_chosen m1 \<and> lm_chosen m1 < int (length (lm_cands m1))"
    using u(2) Cons.prems(2) by (auto simp: stepped_def same_list_def)
  show ?case
  proof (cases q)
    case True
    with v v1 u(1) have "tea_run m (msg # msgs) = Done m1" by simp
    with ok1(2,3) show ?thesis by simp
  next
    case False
    with v u(1) have run: "tea_run m (msg # msgs) = tea_run m1 msgs" by simp
    show ?thesis using Cons.IH [OF ok1(1,3)] unfolding run ok1(2) .
  qed
qed

lemma parse_picks_ok:
  "parse_picks n multi fs = Inr out \<Longrightarrow> (\<forall>i \<in> set out. i < n) \<and> (\<not> multi \<longrightarrow> length out \<le> 1)"
proof (induction fs arbitrary: out)
  case (Cons f fs)
  show ?case
  proof (cases "parse_picks n multi fs")
    case (Inr out')
    with Cons show ?thesis by (auto split: option.splits if_splits)
  qed (use Cons.prems in \<open>auto split: option.splits if_splits\<close>)
qed simp

lemma RunListPicker_ok:
  "RunListPicker inp items g match multi \<noteq> Panic \<and>
   (\<forall>idxs c. RunListPicker inp items g match multi = Done (Inr (idxs, c)) \<longrightarrow>
      (\<forall>i \<in> set idxs. 0 \<le> i \<and> i < int (length items)) \<and> (\<not> multi \<longrightarrow> length idxs \<le> 1) \<and> (c \<longrightarrow> idxs = []))"
proof (cases inp)
  case (Line l)
  then show ?thesis
    by (auto simp: RunListPicker_def numberListPick_def Let_def map_sum_def split: sum.splits if_splits dest: parse_picks_ok)
next
  case (Terminal w msgs)
  obtain m where m: "newListModel w items g match multi = Some m" "picker_ok m" "lm_cands m = items" "lm_chosen m = - 1"
    using newListModel_ok by blast
  have run: "tea_run m msgs \<noteq> Panic" "tea_run m msgs = Done lm \<Longrightarrow> lm_cands lm = items \<and>
      (lm_chosen lm = - 1 \<or> 0 \<le> lm_chosen lm \<and> lm_chosen lm < int (length items))" for lm
    using tea_run_ok [OF m(2)] m(3,4) by simp_all
  show ?thesis
  proof (cases "tea_run m msgs")
    case (Done lm)
    with run(2) [OF Done] Terminal m(1) show ?thesis by (auto simp: RunListPicker_def)
  qed (use run(1) Terminal m(1) in \<open>simp_all add: RunListPicker_def\<close>)
qed (simp add: RunListPicker_def)

lemmas RunListPicker_no_panic = RunListPicker_ok [THEN conjunct1]
lemmas RunListPicker_range = RunListPicker_ok [THEN conjunct2, rule_format]

lemma PickOne_mem: "PickOne inp items \<noteq> Panic \<and> (PickOne inp items = Done (Inr s) \<longrightarrow> s \<in> set items)"
proof -
  have e: "go_index items i = Some (items ! nat i) \<and> items ! nat i \<in> set items"
    if "RunListPicker inp items None None False = Done (Inr (i # is, c))" for i "is" c
    using RunListPicker_range [OF that] by (simp add: nat_less_iff)
  show ?thesis using RunListPicker_no_panic [of inp items None None False]
    by (auto simp: PickOne_def dest: e split: outcome.splits sum.splits list.splits)
qed

lemma PickMany_mem: "PickMany inp items \<noteq> Panic \<and> (PickMany inp items = Done (Inr out) \<longrightarrow> set out \<subseteq> set items)"
proof -
  have e: "all_some (map (go_index items) idxs) = Some (map (\<lambda>i. items ! nat i) idxs) \<and> (\<lambda>i. items ! nat i) ` set idxs \<subseteq> set items"
    if "RunListPicker inp items None None True = Done (Inr (idxs, c))" for idxs c
    using RunListPicker_range [OF that] by (auto intro!: all_some_map simp: nat_less_iff)
  show ?thesis
  proof (cases "\<exists>idxs. RunListPicker inp items None None True = Done (Inr (idxs, False))")
    case True
    then obtain idxs where "RunListPicker inp items None None True = Done (Inr (idxs, False))" ..
    with e [OF this] show ?thesis by (auto simp: PickMany_def)
  next
    case False
    with RunListPicker_no_panic [of inp items None None True] show ?thesis
      by (auto simp: PickMany_def split: outcome.splits sum.splits)
  qed
qed

lemma PickIndexMatch_range:
  assumes "PickIndexMatch inp items g match = Done (Inr k)"
  shows "0 \<le> k \<and> k < int (length items)"
proof -
  obtain ks c where "RunListPicker inp items g match False = Done (Inr (k # ks, c))"
    using assms by (auto simp: PickIndexMatch_def split: outcome.splits sum.splits list.splits if_splits)
  from RunListPicker_range [OF this] show ?thesis by simp
qed

section \<open>Properties\<close>

text \<open>C40: the picker never reads outside a list. Whatever the list, the grouping, the matcher, the terminal size and the keys
  typed, or the line read when there is no terminal, no index the program uses is out of range, in a step or in
  drawing; every position it returns is one of the list, at most one when one was asked for and none when the
  selection was cancelled; and what \<^verbatim>\<open>PickOne\<close> and \<^verbatim>\<open>PickMany\<close> return was among the items offered.\<close>

theorem picker_stays_in_range:
  "RunListPicker inp items g match multi \<noteq> Panic \<and>
   (RunListPicker inp items g match multi = Done (Inr (idxs, c)) \<longrightarrow>
      (\<forall>i \<in> set idxs. 0 \<le> i \<and> i < int (length items)) \<and> (\<not> multi \<longrightarrow> length idxs \<le> 1) \<and> (c \<longrightarrow> idxs = [])) \<and>
   PickOne inp items \<noteq> Panic \<and> (PickOne inp items = Done (Inr s) \<longrightarrow> s \<in> set items) \<and>
   PickMany inp items \<noteq> Panic \<and> (PickMany inp items = Done (Inr out) \<longrightarrow> set out \<subseteq> set items) \<and>
   (PickIndexMatch inp items g match = Done (Inr k) \<longrightarrow> 0 \<le> k \<and> k < int (length items))"
  using RunListPicker_no_panic [of inp items g match multi] RunListPicker_range [of inp items g match multi idxs c]
    PickOne_mem [of inp items s] PickMany_mem [of inp items out] PickIndexMatch_range [of inp items g match k]
  by (intro conjI impI) simp_all

definition demo_groups :: listGroups where
  "demo_groups = NewListGroups ''DC'' [''icn'', ''sel'', ''icn'']"

theorem picker_stays_in_range_witness:
  "RunListPicker (Terminal 80 [KeyRight, KeyDown, KeyEnter]) [''a1'', ''b1'', ''a2''] (Some demo_groups) None False = Done (Inr ([2], False)) \<and>
   PickOne (Line ''2'') [''x'', ''y''] = Done (Inr ''y'') \<and>
   PickMany (Line ''2, 1'') [''x'', ''y''] = Done (Inr [''y'', ''x'']) \<and> (0::int) \<le> 2 \<and> ''y'' \<in> set [''x'', ''y'']"
proof -
  have a: "RunListPicker (Terminal 80 [KeyRight, KeyDown, KeyEnter]) [''a1'', ''b1'', ''a2''] (Some demo_groups) None False = Done (Inr ([2], False))"
    by code_simp
  have b: "PickOne (Line ''2'') [''x'', ''y''] = Done (Inr ''y'')" by code_simp
  have c: "PickMany (Line ''2, 1'') [''x'', ''y''] = Done (Inr [''y'', ''x''])" by code_simp
  show ?thesis using a b c picker_stays_in_range [of "Terminal 80 [KeyRight, KeyDown, KeyEnter]" "[''a1'', ''b1'', ''a2'']" "Some demo_groups" None False "[2]" False]
      picker_stays_in_range [of "Line ''2''" "[''x'', ''y'']" None None False "[]" False "''y''"] by simp
qed

definition passes :: "listModel \<Rightarrow> nat \<Rightarrow> bool" where
  "passes m i \<longleftrightarrow> (let tab = lm_tabs m ! nat (lm_tabIdx m); q = to_lower (trim_space (lm_query m)) in
     (tab = '''' \<or> groupOf m i = tab) \<and> (q = '''' \<or> row_matches m i q))"

lemma current_rows_passes: "i \<in> set (current_rows m) \<longleftrightarrow> i < length (lm_cands m) \<and> passes m i"
  by (auto simp: current_rows_def filter_rows_def passes_def Let_def)

lemma current_rows_sorted: "sorted_wrt (<) (current_rows m)"
  unfolding current_rows_def filter_rows_def Let_def by (rule sorted_wrt_filter) simp

text \<open>What Enter answers after the screen was drawn.\<close>

lemma Enter_answer:
  assumes new: "newListModel w items g match multi = Some m0" and reach: "picker_reach m0 msgs m" and items: "items \<noteq> []"
    and v: "View m = Some v" "current_rows m = a @ shown @ b" "pv_rows v = map (drawn_row m) shown" "current_rows m \<noteq> [] \<longrightarrow> under_cursor m \<in> set shown"
  shows "lm_cands m = items \<and> (let answer = RunListPicker (Terminal w (msgs @ [KeyEnter])) items g match multi in
     if multi then \<exists>idxs. answer = Done (Inr (idxs, False)) \<and> map row_mark (pv_rows v) = map (\<lambda>i. Checkbox (int i \<in> set idxs)) shown
     else if shown = [] then answer = Done (Inr ([], True))
     else \<exists>i \<in> set shown. answer = Done (Inr ([int i], False)) \<and>
       map row_highlighted (pv_rows v) = map (\<lambda>j. j = i) shown \<and> map row_mark (pv_rows v) = map (\<lambda>j. Radio (j = i)) shown)"
proof -
  obtain ok0: "picker_ok m0" "lm_cands m0 = items" "lm_multi m0 = multi" "lm_chosen m0 = - 1" "\<not> lm_cancelled m0"
    using newListModel_ok [of w items g match multi] new by auto
  have ok: "picker_ok m" "lm_cands m = items" "lm_multi m = multi" "lm_chosen m = - 1" "\<not> lm_cancelled m"
    using picker_reach_ok [OF reach ok0(1)] ok0 by (auto simp: same_list_def)
  have rows: "lm_filtered m = current_rows m" using ok(1) by (simp add: picker_ok_def)
  let ?fin = "if \<not> lm_multi m \<and> lm_filtered m \<noteq> [] then m \<lparr>lm_chosen := int (under_cursor m)\<rparr> else m"
  have "picker_ok ?fin" using ok(1) by (auto simp: picker_ok_def)
  then obtain v' where "View ?fin = Some v'" using View_ok by blast
  then have "tea_run m [KeyEnter] = Done ?fin" using v(1) Update_Enter [OF ok(1)] by simp
  then have run: "tea_run m0 (msgs @ [KeyEnter]) = Done ?fin" using tea_run_reach [OF reach ok0(1), of "[KeyEnter]"] by simp
  let ?answer = "RunListPicker (Terminal w (msgs @ [KeyEnter])) items g match multi"
  show ?thesis
  proof (cases multi)
    case True
    let ?idxs = "map int (filter (is_true (lm_selected m)) [0..<length items])"
    have "?answer = Done (Inr (?idxs, False))" using True run ok items new by (simp add: RunListPicker_def)
    moreover have "int i \<in> set ?idxs \<longleftrightarrow> is_true (lm_selected m) i" if "i \<in> set shown" for i
      using current_rows_passes [of i m] v(2) ok(2) that by auto
    ultimately show ?thesis using True v(3) ok(2,3) by (simp add: Let_def drawn_row_def)
  next
    case False
    show ?thesis
    proof (cases "shown = []")
      case True
      then have "lm_filtered m = []" using v(2,4) rows by auto
      with False True show ?thesis using run ok items new by (simp add: RunListPicker_def Let_def)
    next
      case some: False
      then have "lm_filtered m \<noteq> []" "under_cursor m \<in> set shown" using v(2,4) rows by auto
      moreover from this have "?answer = Done (Inr ([int (under_cursor m)], False))"
        using False run ok items new by (simp add: RunListPicker_def)
      ultimately show ?thesis using False some v(3) ok(2,3)
        by (auto simp: Let_def drawn_row_def intro!: bexI [of _ "under_cursor m"])
    qed
  qed
qed

text \<open>C39: what the picker shows is what it returns. After any keys that did not end it, let the screen be drawn and Enter
  pressed. The candidates that the tab and the query leave, in the order of the list, are those above, those drawn and those
  below: as many above and below as the counts say, and every row drawn carries the label of its candidate; no row is drawn only when
  no candidate is left. With one to pick, the answer is the candidate of the one row that is highlighted and marked,
  and the selection is cancelled when no row is shown. With many to pick, a row drawn has its box ticked
  exactly when its candidate is in the answer, whatever filters were typed in between.\<close>

theorem picker_returns_what_it_shows:
  assumes new: "newListModel w items g match multi = Some m0" and reach: "picker_reach m0 msgs m" and items: "items \<noteq> []"
  shows "\<exists>v above rows below. View m = Some v \<and>
    sorted_wrt (<) (above @ rows @ below) \<and> (\<forall>i. i \<in> set (above @ rows @ below) \<longleftrightarrow> i < length items \<and> passes m i) \<and>
    pv_above v = int (length above) \<and> pv_below v = int (length below) \<and> (rows = [] \<longrightarrow> above = [] \<and> below = []) \<and>
    map row_label (pv_rows v) = map ((!) items) rows \<and>
    (let answer = RunListPicker (Terminal w (msgs @ [KeyEnter])) items g match multi in
     if multi then \<exists>idxs. answer = Done (Inr (idxs, False)) \<and> map row_mark (pv_rows v) = map (\<lambda>i. Checkbox (int i \<in> set idxs)) rows
     else if rows = [] then answer = Done (Inr ([], True))
     else \<exists>i \<in> set rows. answer = Done (Inr ([int i], False)) \<and>
       map row_highlighted (pv_rows v) = map (\<lambda>j. j = i) rows \<and> map row_mark (pv_rows v) = map (\<lambda>j. Radio (j = i)) rows)"
proof -
  have ok: "picker_ok m" using newListModel_ok [of w items g match multi] new picker_reach_ok [OF reach] by auto
  obtain v a shown b where v: "View m = Some v" "current_rows m = a @ shown @ b" "pv_rows v = map (drawn_row m) shown"
      "pv_above v = int (length a)" "pv_below v = int (length b)" "current_rows m \<noteq> [] \<longrightarrow> under_cursor m \<in> set shown"
    using View_ok [OF ok] by blast
  note ans = Enter_answer [OF new reach items v(1-3,6)]
  have sorted: "sorted_wrt (<) (a @ shown @ b)" using current_rows_sorted [of m] v(2) by simp
  have mem: "i \<in> set (a @ shown @ b) \<longleftrightarrow> i < length items \<and> passes m i" for i using current_rows_passes [of i m] v(2) ans by simp
  have none: "shown = [] \<longrightarrow> a = [] \<and> b = []" using v(2,6) by auto
  have labels: "map row_label (pv_rows v) = map ((!) items) shown" using v(3) ans by (simp add: drawn_row_def)
  show ?thesis
    by (rule exI [of _ v], rule exI [of _ a], rule exI [of _ shown], rule exI [of _ b])
      (intro conjI allI sorted mem none labels conjunct2 [OF ans] v(1,4,5))
qed

definition demo_picker :: listModel where
  "demo_picker = the (newListModel 80 [''a1'', ''b1'', ''a2''] (Some demo_groups) None False)"

definition demo_moved :: listModel where
  "demo_moved = fst (the (Update (fst (the (Update demo_picker (KeyRunes ''a'')))) KeyDown))"

lemma demo_reach: "picker_reach demo_picker [KeyRunes ''a'', KeyDown] demo_moved"
proof -
  have s: "Update m msg = Some (m', False)" if "Update m msg \<noteq> None" "\<not> snd (the (Update m msg))" "m' = fst (the (Update m msg))" for m msg m'
    using that by (cases "Update m msg") auto
  show ?thesis unfolding demo_moved_def
    by (rule picker_reach.step [OF s], code_simp, code_simp, rule refl, rule picker_reach.step [OF s], code_simp, code_simp, rule refl, rule picker_reach.start)
qed

theorem picker_returns_what_it_shows_witness:
  "map row_label (pv_rows (the (View demo_moved))) = [''a1'', ''a2''] \<and>
   RunListPicker (Terminal 80 ([KeyRunes ''a'', KeyDown] @ [KeyEnter])) [''a1'', ''b1'', ''a2''] (Some demo_groups) None False = Done (Inr ([2], False)) \<and>
   (\<exists>v above rows below. View demo_moved = Some v \<and> sorted_wrt (<) (above @ rows @ below) \<and>
      (\<forall>i. i \<in> set (above @ rows @ below) \<longleftrightarrow> i < 3 \<and> passes demo_moved i) \<and> map row_label (pv_rows v) = map ((!) [''a1'', ''b1'', ''a2'']) rows)"
proof -
  have "newListModel 80 [''a1'', ''b1'', ''a2''] (Some demo_groups) None False = Some demo_picker"
    using newListModel_ok [of 80 "[''a1'', ''b1'', ''a2'']" "Some demo_groups" None False] by (auto simp: demo_picker_def)
  from picker_returns_what_it_shows [OF this demo_reach] obtain v a r b where
    "View demo_moved = Some v" "sorted_wrt (<) (a @ r @ b)" "\<forall>i. i \<in> set (a @ r @ b) \<longleftrightarrow> i < length [''a1'', ''b1'', ''a2''] \<and> passes demo_moved i"
    "map row_label (pv_rows v) = map ((!) [''a1'', ''b1'', ''a2'']) r" by blast
  then have "\<exists>v above rows below. View demo_moved = Some v \<and> sorted_wrt (<) (above @ rows @ below) \<and>
      (\<forall>i. i \<in> set (above @ rows @ below) \<longleftrightarrow> i < 3 \<and> passes demo_moved i) \<and> map row_label (pv_rows v) = map ((!) [''a1'', ''b1'', ''a2'']) rows"
    by - (rule exI [of _ v], rule exI [of _ a], rule exI [of _ r], rule exI [of _ b], simp add: numeral_3_eq_3)
  moreover have "map row_label (pv_rows (the (View demo_moved))) = [''a1'', ''a2'']" by code_simp
  moreover have "RunListPicker (Terminal 80 ([KeyRunes ''a'', KeyDown] @ [KeyEnter])) [''a1'', ''b1'', ''a2''] (Some demo_groups) None False = Done (Inr ([2], False))"
    by code_simp
  ultimately show ?thesis by blast
qed

text \<open>The count of selected rows in the header counts the rows ever toggled: after ticking a row and unticking it the
  header says one is selected, and the answer is empty.\<close>

lemma unticked_row_still_counted:
  "(let m = the (newListModel 80 [''a'', ''b''] None None True);
        m2 = fst (the (Update (fst (the (Update m KeySpace))) KeySpace))
    in pv_selected (the (View m2))) = 1"
  "RunListPicker (Terminal 80 [KeySpace, KeySpace, KeyEnter]) [''a'', ''b''] None None True = Done (Inr ([], False))"
  by code_simp+

end
