(* ===== verification/Rbac_Store.thy ===== *)
theory Rbac_Store
  imports Access_Gate Pg_Tx List_Picker
begin

text \<open>
  The rows the command gate decides by: \<^verbatim>\<open>internal/store/rbac.go\<close> on the tables of the migrations 006 to 008, and the
  commands of \<^verbatim>\<open>internal/cli/rbac.go\<close> that read and write them. A table is an association list from its primary
  key; the foreign keys of members and grants, with their cascade, are part of the statements. Which of the three
  migrations have run is part of the state, since a missing table is an answer the readers classify.

  Every statement is a transaction of its own, so processes interleave at statements: \<open>rbac_step\<close> is one statement by
  anyone, with any answer of the server. The lemmas show that the rows stay well-formed whatever the order, that the
  statements refine operations on two relations, and that \<open>Check\<close> of the authorization package decides by those relations.
\<close>

section \<open>Tables\<close>

record group_row =
  gr_description :: string
  gr_created_at :: gotime

record seen_row =
  su_first_seen :: gotime
  su_last_seen :: gotime
  su_version :: "string option"

record rbac_db =
  rb_migrated :: bool
  rb_seen_migrated :: bool
  rb_version_migrated :: bool
  rb_groups :: "(string, group_row) gomap"
  rb_members :: "(string \<times> string, gotime) gomap"
  rb_grants :: "(string \<times> string, gotime) gomap"
  rb_seen :: "(string, seen_row) gomap"

datatype rbac_stmt = UpsertGroup string | DeleteGroup string | InsertMember string string | DeleteMember string string
  | InsertGrant string string | DeleteGrant string string | UpsertSeen string
  | SelectGroups | SelectGroupExists string | SelectGroupMembers string | SelectGroupCommands string
  | SelectGroupsForUser string | SelectCommandsForUser string | SelectSeen | SelectMemberNames | SelectSeenNames

type_synonym rbac_env = "(rbac_stmt, rbac_db) tx_env"

definition ErrUndefinedTable :: goerror where "ErrUndefinedTable = Sentinel ''42P01''"
definition ErrUndefinedColumn :: goerror where "ErrUndefinedColumn = Sentinel ''42703''"

definition isUndefinedTable :: "goerror \<Rightarrow> bool" where
  "isUndefinedTable err = errors_is err ErrUndefinedTable"

definition rbacReadErr :: "goerror \<Rightarrow> goerror" where
  "rbacReadErr err = (if isUndefinedTable err then Wrapf ''undefined table'' ErrUninitialized else err)"

text \<open>A statement on a table that is not there fails so, whatever else may go wrong.\<close>

definition rbac_exec :: "rbac_env \<Rightarrow> rbac_stmt \<Rightarrow> (rbac_db \<Rightarrow> bool) \<Rightarrow> (rbac_db \<Rightarrow> rbac_db) \<Rightarrow> rbac_db \<Rightarrow> rbac_db \<times> (goerror + unit)" where
  "rbac_exec env s key_ok upd db =
     (if rb_migrated db then pool_insert env s key_ok upd db
      else (db, Inl (case te_exec env s db of Some e \<Rightarrow> e | None \<Rightarrow> ErrUndefinedTable)))"

definition rbac_query :: "rbac_env \<Rightarrow> rbac_stmt \<Rightarrow> (rbac_db \<Rightarrow> goerror option) \<Rightarrow> (rbac_db \<Rightarrow> 'a) \<Rightarrow> rbac_db \<Rightarrow> goerror + 'a" where
  "rbac_query env s missing rd db = (case te_exec env s db of Some e \<Rightarrow> Inl e
     | None \<Rightarrow> (case missing db of Some e \<Rightarrow> Inl e | None \<Rightarrow> Inr (rd db)))"

definition no_rbac :: "rbac_db \<Rightarrow> goerror option" where
  "no_rbac db = (if rb_migrated db then None else Some ErrUndefinedTable)"

definition no_seen :: "rbac_db \<Rightarrow> goerror option" where
  "no_seen db = (if rb_seen_migrated db then None else Some ErrUndefinedTable)"

definition no_version :: "rbac_db \<Rightarrow> goerror option" where
  "no_version db = (if \<not> rb_seen_migrated db then Some ErrUndefinedTable
     else if rb_version_migrated db then None else Some ErrUndefinedColumn)"

section \<open>Writing\<close>

definition upsert_group :: "gotime \<Rightarrow> string \<Rightarrow> string \<Rightarrow> rbac_db \<Rightarrow> rbac_db" where
  "upsert_group now name desc db = db \<lparr>rb_groups := AList.update name
     (case map_of (rb_groups db) name of None \<Rightarrow> \<lparr>gr_description = desc, gr_created_at = now\<rparr>
      | Some g \<Rightarrow> g \<lparr>gr_description := desc\<rparr>) (rb_groups db)\<rparr>"

definition RBACGroupUpsert :: "rbac_env \<Rightarrow> gotime \<Rightarrow> string \<Rightarrow> string \<Rightarrow> rbac_db \<Rightarrow> rbac_db \<times> (goerror + unit)" where
  "RBACGroupUpsert env now name desc = rbac_exec env (UpsertGroup name) (\<lambda>_. True) (upsert_group now name desc)"

definition cascade :: "string \<Rightarrow> (string \<times> string, 'v) gomap \<Rightarrow> (string \<times> string, 'v) gomap" where
  "cascade name rows = filter (\<lambda>((g, _), _). g \<noteq> name) rows"

definition delete_group :: "string \<Rightarrow> rbac_db \<Rightarrow> rbac_db" where
  "delete_group name db = db \<lparr>rb_groups := AList.delete name (rb_groups db),
     rb_members := cascade name (rb_members db), rb_grants := cascade name (rb_grants db)\<rparr>"

definition RBACGroupDelete :: "rbac_env \<Rightarrow> string \<Rightarrow> rbac_db \<Rightarrow> rbac_db \<times> (goerror + unit)" where
  "RBACGroupDelete env name = rbac_exec env (DeleteGroup name) (\<lambda>_. True) (delete_group name)"

definition group_exists :: "rbac_db \<Rightarrow> string \<Rightarrow> bool" where
  "group_exists db name \<longleftrightarrow> map_of (rb_groups db) name \<noteq> None"

definition insert_new :: "'k \<Rightarrow> 'v \<Rightarrow> ('k, 'v) gomap \<Rightarrow> ('k, 'v) gomap" where
  \<comment> \<open>\<^verbatim>\<open>INSERT ... ON CONFLICT DO NOTHING\<close>\<close>
  "insert_new k v rows = (if map_of rows k = None then AList.update k v rows else rows)"

definition RBACMemberAdd :: "rbac_env \<Rightarrow> gotime \<Rightarrow> string \<Rightarrow> string \<Rightarrow> rbac_db \<Rightarrow> rbac_db \<times> (goerror + unit)" where
  "RBACMemberAdd env now grp user = rbac_exec env (InsertMember grp user) (\<lambda>db. group_exists db grp)
     (\<lambda>db. db \<lparr>rb_members := insert_new (grp, user) now (rb_members db)\<rparr>)"

definition RBACMemberRemove :: "rbac_env \<Rightarrow> string \<Rightarrow> string \<Rightarrow> rbac_db \<Rightarrow> rbac_db \<times> (goerror + unit)" where
  "RBACMemberRemove env grp user = rbac_exec env (DeleteMember grp user) (\<lambda>_. True)
     (\<lambda>db. db \<lparr>rb_members := AList.delete (grp, user) (rb_members db)\<rparr>)"

definition RBACGrant :: "rbac_env \<Rightarrow> gotime \<Rightarrow> string \<Rightarrow> string \<Rightarrow> rbac_db \<Rightarrow> rbac_db \<times> (goerror + unit)" where
  "RBACGrant env now grp command = rbac_exec env (InsertGrant grp command) (\<lambda>db. group_exists db grp)
     (\<lambda>db. db \<lparr>rb_grants := insert_new (grp, command) now (rb_grants db)\<rparr>)"

definition RBACRevoke :: "rbac_env \<Rightarrow> string \<Rightarrow> string \<Rightarrow> rbac_db \<Rightarrow> rbac_db \<times> (goerror + unit)" where
  "RBACRevoke env grp command = rbac_exec env (DeleteGrant grp command) (\<lambda>_. True)
     (\<lambda>db. db \<lparr>rb_grants := AList.delete (grp, command) (rb_grants db)\<rparr>)"

definition nullif_empty :: "string \<Rightarrow> string option" where
  "nullif_empty s = (if s = '''' then None else Some s)"

definition upsert_seen :: "gotime \<Rightarrow> string \<Rightarrow> string \<Rightarrow> rbac_db \<Rightarrow> rbac_db" where
  "upsert_seen now user version db = db \<lparr>rb_seen := AList.update user
     (case map_of (rb_seen db) user of None \<Rightarrow> \<lparr>su_first_seen = now, su_last_seen = now, su_version = nullif_empty version\<rparr>
      | Some r \<Rightarrow> r \<lparr>su_last_seen := now, su_version := nullif_empty version\<rparr>) (rb_seen db)\<rparr>"

definition RecordSeenUser :: "rbac_env \<Rightarrow> gotime \<Rightarrow> string \<Rightarrow> string \<Rightarrow> rbac_db \<Rightarrow> rbac_db \<times> (goerror + unit)" where
  "RecordSeenUser env now user version db =
     (if user = '''' then (db, Inr ())
      else case no_version db of None \<Rightarrow> pool_Exec env (UpsertSeen user) (upsert_seen now user version) db
      | Some missing \<Rightarrow> (db, Inl (case te_exec env (UpsertSeen user) db of Some e \<Rightarrow> e | None \<Rightarrow> missing)))"

section \<open>Reading\<close>

record rbac_group =
  rg_Name :: string
  rg_Description :: string
  rg_Members :: nat
  rg_Commands :: nat

definition keys_of_group :: "string \<Rightarrow> (string \<times> string, 'v) gomap \<Rightarrow> string list" where
  "keys_of_group g rows = map snd (filter (\<lambda>k. fst k = g) (map fst rows))"

text \<open>An \<^verbatim>\<open>ORDER BY\<close> follows the collation of the database: the order is an argument of the readers that ask for one.\<close>

definition RBACGroups :: "(string \<Rightarrow> string) \<Rightarrow> rbac_env \<Rightarrow> rbac_db \<Rightarrow> goerror + rbac_group list" where
  "RBACGroups collate env = rbac_query env SelectGroups no_rbac (\<lambda>db. sort_key (collate \<circ> rg_Name)
     (map (\<lambda>(name, g). \<lparr>rg_Name = name, rg_Description = gr_description g,
        rg_Members = length (keys_of_group name (rb_members db)), rg_Commands = length (keys_of_group name (rb_grants db))\<rparr>)
       (rb_groups db)))"

definition RBACGroupExists :: "rbac_env \<Rightarrow> string \<Rightarrow> rbac_db \<Rightarrow> goerror + bool" where
  "RBACGroupExists env name = rbac_query env (SelectGroupExists name) no_rbac (\<lambda>db. group_exists db name)"

definition rbacStrings :: "rbac_env \<Rightarrow> rbac_stmt \<Rightarrow> (rbac_db \<Rightarrow> string list) \<Rightarrow> rbac_db \<Rightarrow> goerror + string list" where
  "rbacStrings env s rd db = map_sum rbacReadErr id (rbac_query env s no_rbac rd db)"

definition RBACGroupMembers :: "(string \<Rightarrow> string) \<Rightarrow> rbac_env \<Rightarrow> string \<Rightarrow> rbac_db \<Rightarrow> goerror + string list" where
  "RBACGroupMembers collate env grp = rbacStrings env (SelectGroupMembers grp)
     (\<lambda>db. sort_key collate (keys_of_group grp (rb_members db)))"

definition RBACGroupCommands :: "(string \<Rightarrow> string) \<Rightarrow> rbac_env \<Rightarrow> string \<Rightarrow> rbac_db \<Rightarrow> goerror + string list" where
  "RBACGroupCommands collate env grp = rbacStrings env (SelectGroupCommands grp)
     (\<lambda>db. sort_key collate (keys_of_group grp (rb_grants db)))"

definition groups_of_user :: "string \<Rightarrow> rbac_db \<Rightarrow> string list" where
  "groups_of_user user db = map fst (filter (\<lambda>k. snd k = user) (map fst (rb_members db)))"

definition RBACGroupsForUser :: "(string \<Rightarrow> string) \<Rightarrow> rbac_env \<Rightarrow> string \<Rightarrow> rbac_db \<Rightarrow> goerror + string list" where
  "RBACGroupsForUser collate env user = rbacStrings env (SelectGroupsForUser user)
     (\<lambda>db. sort_key collate (groups_of_user user db))"

text \<open>\<^verbatim>\<open>SELECT DISTINCT r.command FROM rbac_grants r JOIN rbac_members m ON m.group_name = r.group_name\<close>\<close>

definition commands_of_user :: "string \<Rightarrow> rbac_db \<Rightarrow> string list" where
  "commands_of_user user db = remdups (concat (map (\<lambda>r. map (\<lambda>_. snd r)
     (filter (\<lambda>m. fst m = fst r \<and> snd m = user) (map fst (rb_members db)))) (map fst (rb_grants db))))"

definition RBACCommandsForUser :: "rbac_env \<Rightarrow> rbac_db \<Rightarrow> string \<Rightarrow> goerror + (string, bool) gomap" where
  "RBACCommandsForUser env db user =
     (case rbac_query env (SelectCommandsForUser user) no_rbac (commands_of_user user) db of
        Inl e \<Rightarrow> Inl (rbacReadErr e) | Inr cmds \<Rightarrow> Inr (foldl (\<lambda>out c. AList.update c True out) [] cmds))"

record seen_user =
  seen_Username :: string
  seen_Version :: string
  seen_LastSeen :: gotime

definition SeenUsers :: "(string \<Rightarrow> string) \<Rightarrow> rbac_env \<Rightarrow> rbac_db \<Rightarrow> goerror + seen_user list" where
  "SeenUsers collate env db = map_sum rbacReadErr id (rbac_query env SelectSeen no_version (\<lambda>db. sort_key (collate \<circ> seen_Username)
     (map (\<lambda>(u, r). \<lparr>seen_Username = u, seen_Version = (case su_version r of None \<Rightarrow> '''' | Some v \<Rightarrow> v),
        seen_LastSeen = su_last_seen r\<rparr>) (rb_seen db))) db)"

fun candidate_sources :: "(goerror + string list) list \<Rightarrow> (string, bool) gomap \<Rightarrow> goerror + (string, bool) gomap" where
  "candidate_sources [] found = Inr found"
| "candidate_sources (Inl e # qs) found = (if isUndefinedTable e then candidate_sources qs found else Inl e)"
| "candidate_sources (Inr users # qs) found =
     candidate_sources qs (foldl (\<lambda>m v. if v \<noteq> '''' then AList.update v True m else m) found users)"

definition RBACCandidateUsers :: "rbac_env \<Rightarrow> rbac_db \<Rightarrow> goerror + string list" where
  "RBACCandidateUsers env db = map_sum id (\<lambda>found. sort (map fst found))
     (candidate_sources [rbac_query env SelectMemberNames no_rbac (\<lambda>db. remdups (map (snd \<circ> fst) (rb_members db))) db,
        rbac_query env SelectSeenNames no_seen (\<lambda>db. remdups (map fst (rb_seen db))) db] [])"

section \<open>The commands\<close>

text \<open>The terminal and the lists it offers are those of the picker; a command that is still waiting for its user has written nothing.\<close>

definition named_group :: "rbac_env \<Rightarrow> string \<Rightarrow> rbac_db \<Rightarrow> (goerror + string) outcome" where
  "named_group env g db = Done (case RBACGroupExists env g db of Inl e \<Rightarrow> Inl e
     | Inr ok \<Rightarrow> if ok then Inr g else Inl (Plain (''group '' @ g @ '' not found - create it first'')))"

definition resolveRBACGroup ::
  "(string \<Rightarrow> string) \<Rightarrow> rbac_env \<Rightarrow> picker_input \<Rightarrow> string list \<Rightarrow> rbac_db \<Rightarrow> (goerror + string) outcome" where
  "resolveRBACGroup collate env inp args db =
    (case args of g # _ \<Rightarrow> named_group env g db
     | [] \<Rightarrow> (case RBACGroups collate env db of Inl e \<Rightarrow> Done (Inl e)
       | Inr groups \<Rightarrow> if groups = [] then Done (Inl (Plain ''no groups yet - create one: vctl rbac group create <name>''))
           else (case PickOne inp (map rg_Name groups) of Panic \<Rightarrow> Panic | Waiting \<Rightarrow> Waiting
             | Done (Inl e) \<Rightarrow> Done (Inl e) | Done (Inr g) \<Rightarrow> named_group env g db)))"

fun each_write :: "string \<Rightarrow> (string \<Rightarrow> rbac_db \<Rightarrow> rbac_db \<times> (goerror + unit)) \<Rightarrow> string list \<Rightarrow> rbac_db \<Rightarrow> rbac_db \<times> (goerror + unit)" where
  "each_write verb w [] db = (db, Inr ())"
| "each_write verb w (x # xs) db = (case w x db of (db', Inl e) \<Rightarrow> (db', Inl (Wrapf (verb @ x) e))
     | (db', Inr _) \<Rightarrow> each_write verb w xs db')"

definition avail_users :: "string list \<Rightarrow> string list \<Rightarrow> string list" where
  "avail_users cands members = filter (\<lambda>u. \<not> is_true (foldl (\<lambda>m x. AList.update x True m) [] members) u) cands"

definition runRBACAssign ::
  "(string \<Rightarrow> string) \<Rightarrow> rbac_env \<Rightarrow> (string \<Rightarrow> rbac_env) \<Rightarrow> picker_input \<Rightarrow> picker_input \<Rightarrow> gotime \<Rightarrow> string list \<Rightarrow> rbac_db \<Rightarrow>
     (rbac_db \<times> (goerror + unit)) outcome" where
  "runRBACAssign collate env wenv inp inp2 now args db =
    (case resolveRBACGroup collate env inp args db of Panic \<Rightarrow> Panic | Waiting \<Rightarrow> Waiting
     | Done (Inl e) \<Rightarrow> Done (db, Inl e)
     | Done (Inr grp) \<Rightarrow> (case RBACCandidateUsers env db of Inl e \<Rightarrow> Done (db, Inl e)
       | Inr cands \<Rightarrow> (case RBACGroupMembers collate env grp db of Inl e \<Rightarrow> Done (db, Inl e)
         | Inr members \<Rightarrow> let avail = avail_users cands members in
             if avail = [] then Done (db, Inl (Plain ''no candidate users to add''))
             else (case PickMany inp2 avail of Panic \<Rightarrow> Panic | Waiting \<Rightarrow> Waiting
               | Done (Inl e) \<Rightarrow> Done (db, Inl e)
               | Done (Inr picked) \<Rightarrow> Done (each_write ''add '' (\<lambda>u. RBACMemberAdd (wenv u) now grp u) picked db)))))"

definition rbacMemberAdd :: "rbac_env \<Rightarrow> rbac_env \<Rightarrow> gotime \<Rightarrow> string \<Rightarrow> string \<Rightarrow> rbac_db \<Rightarrow> rbac_db \<times> (goerror + unit)" where
  \<comment> \<open>the body of \<^verbatim>\<open>rbac member add\<close>\<close>
  "rbacMemberAdd env wenv now g user db = (case RBACGroupExists env g db of Inl e \<Rightarrow> (db, Inl e)
     | Inr ok \<Rightarrow> if ok then RBACMemberAdd wenv now g user db
         else (db, Inl (Plain (''group '' @ g @ '' not found - create it first''))))"

definition runRBACGrant ::
  "(string \<Rightarrow> string) \<Rightarrow> rbac_env \<Rightarrow> (string \<Rightarrow> rbac_env) \<Rightarrow> picker_input \<Rightarrow> picker_input \<Rightarrow> gotime \<Rightarrow> string list \<Rightarrow> rbac_db \<Rightarrow>
     (rbac_db \<times> (goerror + unit)) outcome" where
  "runRBACGrant collate env wenv inp inp2 now args db =
    (case resolveRBACGroup collate env inp args db of Panic \<Rightarrow> Panic | Waiting \<Rightarrow> Waiting
     | Done (Inl e) \<Rightarrow> Done (db, Inl e)
     | Done (Inr grp) \<Rightarrow>
         let write = (\<lambda>commands. Done (each_write ''grant '' (\<lambda>c. RBACGrant (wenv c) now grp c) commands db)) in
         if length args = 2
         then (let c = args ! 1 in
           if c \<noteq> ''*'' \<and> ClassOf c \<noteq> Some ClassMutate
           then Done (db, Inl (Plain (''cannot grant '' @ c @ ''. Grantable: '' @ join_with '', '' GrantableCommands @ '', or *'')))
           else write [c])
         else (case PickMany inp2 Grantable of Panic \<Rightarrow> Panic | Waiting \<Rightarrow> Waiting
           | Done (Inl e) \<Rightarrow> Done (db, Inl e)
           | Done (Inr picked) \<Rightarrow> if picked = [] then Done (db, Inr ()) else write picked))"

datatype rbac_verdict = AllowAdmin | AllowUngated | AllowRead | DenyAdminOnly | AllowGranted | DenyNoGrant

definition verdict_allows :: "rbac_verdict \<Rightarrow> bool" where
  "verdict_allows v \<longleftrightarrow> v \<in> {AllowAdmin, AllowUngated, AllowRead, AllowGranted}"

definition runRBACCheck :: "goerror + (string \<times> string list) \<Rightarrow> string list \<Rightarrow> rbac_env \<Rightarrow> string \<Rightarrow> rbac_db \<Rightarrow> goerror + rbac_verdict" where
  "runRBACCheck token admins env want db =
    (case token of Inl e \<Rightarrow> Inl e
     | Inr (identity, pols) \<Rightarrow>
         if HasAdminPolicy pols admins then Inr AllowAdmin
         else (case ClassOf want of None \<Rightarrow> Inr AllowUngated
           | Some class \<Rightarrow>
               if class = ClassRead then Inr AllowRead
               else if class = ClassAdmin then Inr DenyAdminOnly
               else (case RBACCommandsForUser env db identity of Inl e \<Rightarrow> Inl e
                 | Inr cmds \<Rightarrow> Inr (if granted (Some cmds) ''*'' \<or> granted (Some cmds) want then AllowGranted else DenyNoGrant))))"

record whoami =
  who_identity :: string
  who_admin :: bool
  who_groups :: "string list"
  who_granted :: "string list"

definition unless_uninitialized :: "'a \<Rightarrow> goerror + 'a \<Rightarrow> goerror + 'a" where
  \<comment> \<open>an error that says the schema is not there leaves the zero value\<close>
  "unless_uninitialized z r = (case r of Inl e \<Rightarrow> if IsUninitializedRBAC e then Inr z else Inl e | Inr x \<Rightarrow> Inr x)"

definition runRBACWhoami :: "(string \<Rightarrow> string) \<Rightarrow> goerror + (string \<times> string list) \<Rightarrow> string list \<Rightarrow> rbac_env \<Rightarrow> rbac_db \<Rightarrow> goerror + whoami" where
  "runRBACWhoami collate token admins env db =
     go_bind token (\<lambda>(user, pols).
     go_bind (unless_uninitialized [] (RBACGroupsForUser collate env user db)) (\<lambda>groups.
     go_bind (unless_uninitialized [] (RBACCommandsForUser env db user)) (\<lambda>cmds.
       Inr \<lparr>who_identity = user, who_admin = HasAdminPolicy pols admins, who_groups = groups, who_granted = sort (map fst cmds)\<rparr>)))"

text \<open>\<^verbatim>\<open>vctl login\<close> records the person, for the methods that name one, and only warns when that fails.\<close>

definition login_records :: "string \<Rightarrow> goerror + string \<Rightarrow> goerror + rbac_env \<Rightarrow> gotime \<Rightarrow> string \<Rightarrow> rbac_db \<Rightarrow> rbac_db \<times> goerror option" where
  "login_records meth identity store now version db =
    (if meth = ''approle'' \<or> meth = ''kubernetes'' then (db, None)
     else case identity of Inl _ \<Rightarrow> (db, None)
     | Inr who \<Rightarrow> if who = '''' then (db, None)
       else (case store of Inl _ \<Rightarrow> (db, None)
         | Inr env \<Rightarrow> (case RecordSeenUser env now who version db of (db', Inl e) \<Rightarrow> (db', Some e) | (db', Inr _) \<Rightarrow> (db', None))))"

section \<open>The rows stay well-formed\<close>

text \<open>Primary keys are unique, a member or a grant belongs to a group that exists, only what the catalogue lets a group be
  granted is granted, nobody without a name was seen, and tables that were not created hold nothing.\<close>

definition keys :: "('k, 'v) gomap \<Rightarrow> 'k set" where
  "keys m = fst ` set m"

definition rbac_wf :: "rbac_db \<Rightarrow> bool" where
  "rbac_wf db \<longleftrightarrow>
     gomap_wf (rb_groups db) \<and> gomap_wf (rb_members db) \<and> gomap_wf (rb_grants db) \<and> gomap_wf (rb_seen db) \<and>
     fst ` keys (rb_members db) \<subseteq> keys (rb_groups db) \<and> fst ` keys (rb_grants db) \<subseteq> keys (rb_groups db) \<and>
     snd ` keys (rb_grants db) \<subseteq> set Grantable \<and> '''' \<notin> keys (rb_seen db) \<and>
     (\<not> rb_migrated db \<longrightarrow> rb_groups db = [] \<and> rb_members db = [] \<and> rb_grants db = []) \<and>
     (\<not> rb_seen_migrated db \<longrightarrow> rb_seen db = [] \<and> \<not> rb_version_migrated db)"

definition fresh_rbac :: rbac_db where
  "fresh_rbac = \<lparr>rb_migrated = False, rb_seen_migrated = False, rb_version_migrated = False,
     rb_groups = [], rb_members = [], rb_grants = [], rb_seen = []\<rparr>"

text \<open>One statement by anyone: a migration, or an operation of the store with whatever the server answers. The commands grant
  only what the catalogue lets them.\<close>

inductive rbac_step :: "rbac_db \<Rightarrow> rbac_db \<Rightarrow> bool" where
  migration_006: "rbac_step db (db \<lparr>rb_migrated := True\<rparr>)"
| migration_007: "rbac_step db (db \<lparr>rb_seen_migrated := True\<rparr>)"
| migration_008: "rb_seen_migrated db \<Longrightarrow> rbac_step db (db \<lparr>rb_version_migrated := True\<rparr>)"
| group_upsert: "rbac_step db (fst (RBACGroupUpsert env now name desc db))"
| group_delete: "rbac_step db (fst (RBACGroupDelete env name db))"
| member_add: "rbac_step db (fst (RBACMemberAdd env now g user db))"
| member_remove: "rbac_step db (fst (RBACMemberRemove env g user db))"
| grant: "c \<in> set Grantable \<Longrightarrow> rbac_step db (fst (RBACGrant env now g c db))"
| revoke: "rbac_step db (fst (RBACRevoke env g c db))"
| seen: "rbac_step db (fst (RecordSeenUser env now user version db))"

lemma rbac_exec_outcome:
  "fst (rbac_exec env s key_ok upd db) = db \<or> rb_migrated db \<and> key_ok db \<and> fst (rbac_exec env s key_ok upd db) = upd db"
proof (cases "rb_migrated db")
  case True
  obtain db' r where p: "pool_insert env s key_ok upd db = (db', r)" by (cases "pool_insert env s key_ok upd db")
  with pool_insert_outcome [OF p] True show ?thesis by (auto simp: rbac_exec_def)
qed (simp add: rbac_exec_def)

lemma rbac_exec_ok: "rbac_exec env s key_ok upd db = (db', Inr u) \<Longrightarrow> rb_migrated db \<and> key_ok db \<and> db' = upd db"
  by (auto simp: rbac_exec_def dest: pool_insert_ok split: if_splits)

lemma rbac_exec_refused: "\<not> (rb_migrated db \<and> key_ok db) \<Longrightarrow> \<exists>e. rbac_exec env s key_ok upd db = (db, Inl e)"
  using pool_insert_refused [of key_ok db env s upd] by (auto simp: rbac_exec_def)

lemma gomap_wf_filter: "gomap_wf m \<Longrightarrow> gomap_wf (filter P m)"
  unfolding gomap_wf_def by (induction m) auto

lemma keys_Nil [simp]: "keys [] = {}"
  by (simp add: keys_def)

lemma map_of_keys: "(\<exists>v. map_of m k = Some v) \<longleftrightarrow> k \<in> keys m"
  using map_of_eq_None_iff [of m k] by (auto simp: keys_def)

lemma keys_update [simp]: "keys (AList.update k v rows) = insert k (keys rows)"
  by (simp add: keys_def dom_update)

lemma keys_delete [simp]: "keys (AList.delete k rows) = keys rows - {k}"
  by (auto simp: keys_def AList.delete_eq image_iff)

lemma keys_cascade [simp]: "keys (cascade name rows) = {k \<in> keys rows. fst k \<noteq> name}"
  by (auto simp: keys_def cascade_def image_iff)

lemma keys_insert_new [simp]: "keys (insert_new k v rows) = insert k (keys rows)"
  using map_of_keys [of rows k] by (auto simp: insert_new_def)

lemma insert_new_wf [simp]: "gomap_wf rows \<Longrightarrow> gomap_wf (insert_new k v rows)"
  by (simp add: insert_new_def)

lemma cascade_wf [simp]: "gomap_wf rows \<Longrightarrow> gomap_wf (cascade name rows)"
  by (simp add: cascade_def gomap_wf_filter)

lemma group_exists_iff: "group_exists db g \<longleftrightarrow> g \<in> keys (rb_groups db)"
  by (simp add: group_exists_def map_of_keys)

text \<open>The changes of the statements.\<close>

lemma upsert_group_wf: "rbac_wf db \<Longrightarrow> rb_migrated db \<Longrightarrow> rbac_wf (upsert_group now name desc db)"
  by (auto simp: rbac_wf_def upsert_group_def group_exists_iff)

lemma delete_group_wf: "rbac_wf db \<Longrightarrow> rb_migrated db \<Longrightarrow> rbac_wf (delete_group name db)"
  by (auto simp: rbac_wf_def delete_group_def group_exists_iff)

lemma upsert_seen_wf: "rbac_wf db \<Longrightarrow> user \<noteq> '''' \<Longrightarrow> no_version db = None \<Longrightarrow> rbac_wf (upsert_seen now user version db)"
  by (auto simp: rbac_wf_def upsert_seen_def group_exists_iff no_version_def split: if_splits)

lemma insert_member_wf:
  "rbac_wf db \<Longrightarrow> rb_migrated db \<Longrightarrow> group_exists db g \<Longrightarrow> rbac_wf (db \<lparr>rb_members := insert_new (g, u) now (rb_members db)\<rparr>)"
  by (auto simp: rbac_wf_def group_exists_iff)

lemma insert_grant_wf:
  "rbac_wf db \<Longrightarrow> rb_migrated db \<Longrightarrow> group_exists db g \<Longrightarrow> c \<in> set Grantable \<Longrightarrow>
     rbac_wf (db \<lparr>rb_grants := insert_new (g, c) now (rb_grants db)\<rparr>)"
  by (auto simp: rbac_wf_def group_exists_iff)

lemma delete_member_wf: "rbac_wf db \<Longrightarrow> rbac_wf (db \<lparr>rb_members := AList.delete k (rb_members db)\<rparr>)"
  by (auto simp: rbac_wf_def group_exists_iff)

lemma delete_grant_wf: "rbac_wf db \<Longrightarrow> rbac_wf (db \<lparr>rb_grants := AList.delete k (rb_grants db)\<rparr>)"
  by (auto simp: rbac_wf_def group_exists_iff)

lemmas rbac_changes_wf = upsert_group_wf delete_group_wf upsert_seen_wf insert_member_wf insert_grant_wf delete_member_wf delete_grant_wf

lemma rbac_exec_wf:
  "rbac_wf db \<Longrightarrow> (rb_migrated db \<Longrightarrow> key_ok db \<Longrightarrow> rbac_wf (upd db)) \<Longrightarrow> rbac_wf (fst (rbac_exec env s key_ok upd db))"
  using rbac_exec_outcome [of env s key_ok upd db] by auto

lemma RecordSeenUser_outcome:
  "fst (RecordSeenUser env now user version db) = db \<or>
   user \<noteq> [] \<and> no_version db = None \<and> fst (RecordSeenUser env now user version db) = upsert_seen now user version db"
proof (cases "user = [] \<or> no_version db \<noteq> None")
  case False
  obtain db' r where p: "pool_Exec env (UpsertSeen user) (upsert_seen now user version) db = (db', r)"
    by (cases "pool_Exec env (UpsertSeen user) (upsert_seen now user version) db")
  with pool_Exec_outcome [OF p] False show ?thesis by (auto simp: RecordSeenUser_def)
qed (auto simp: RecordSeenUser_def)

lemma rbac_step_wf: "rbac_step db db' \<Longrightarrow> rbac_wf db \<Longrightarrow> rbac_wf db'"
proof (induction rule: rbac_step.induct)
  case (migration_006 db)
  then show ?case by (simp add: rbac_wf_def group_exists_def)
next
  case (migration_007 db)
  then show ?case by (simp add: rbac_wf_def group_exists_def)
next
  case (migration_008 db)
  then show ?case by (simp add: rbac_wf_def group_exists_def)
next
  case (seen db env now user version)
  then show ?case using RecordSeenUser_outcome [of env now user version db] upsert_seen_wf [of db user now version] by auto
qed (simp_all add: RBACGroupUpsert_def RBACGroupDelete_def RBACMemberAdd_def RBACMemberRemove_def RBACGrant_def RBACRevoke_def
    rbac_exec_wf rbac_changes_wf)

lemma fresh_rbac_wf: "rbac_wf fresh_rbac"
  by (simp add: rbac_wf_def fresh_rbac_def)

lemma rbac_steps_wf: "rbac_step\<^sup>*\<^sup>* db db' \<Longrightarrow> rbac_wf db \<Longrightarrow> rbac_wf db'"
  by (induction rule: rtranclp_induct) (auto intro: rbac_step_wf)

section \<open>The relations behind the rows\<close>

text \<open>What a user may run by the rows: a group has the user as a member and the command, by name, as a grant.\<close>

definition may :: "rbac_db \<Rightarrow> string \<Rightarrow> string \<Rightarrow> bool" where
  "may db user c \<longleftrightarrow> (\<exists>k \<in> keys (rb_members db). snd k = user \<and> (fst k, c) \<in> keys (rb_grants db))"

lemma commands_of_user_mem: "c \<in> set (commands_of_user user db) \<longleftrightarrow> may db user c"
  by (force simp: commands_of_user_def may_def keys_def)

lemma granted_fold: "granted (Some (foldl (\<lambda>out c. AList.update c True out) acc cs)) c \<longleftrightarrow> c \<in> set cs \<or> granted (Some acc) c"
  by (induction cs arbitrary: acc) (auto simp: granted_def)

lemma gomap_wf_fold: "gomap_wf acc \<Longrightarrow> gomap_wf (foldl (\<lambda>out c. AList.update c True out) acc cs)"
  by (induction cs arbitrary: acc) simp_all

text \<open>A server that answers.\<close>

definition answers :: "rbac_env \<Rightarrow> rbac_stmt \<Rightarrow> rbac_db \<Rightarrow> bool" where
  "answers env s db \<longleftrightarrow> te_exec env s db = None"

definition answering :: rbac_env where
  "answering = \<lparr>te_begin = None, te_exec = (\<lambda>_ _. None), te_commit = Committed\<rparr>"

lemma RBACCommandsForUser_answers:
  "answers env (SelectCommandsForUser user) db \<Longrightarrow> RBACCommandsForUser env db user = RBACCommandsForUser answering db user"
  by (simp add: RBACCommandsForUser_def rbac_query_def answers_def answering_def)

text \<open>The interface the authorization package reads grants through: a source that is ready answers the commands a user
  holds, one that was never set up says so.\<close>

locale grant_source =
  fixes commands :: "'db \<Rightarrow> string \<Rightarrow> goerror + (string, bool) gomap"
    and holds :: "'db \<Rightarrow> string \<Rightarrow> string \<Rightarrow> bool"
    and ready :: "'db \<Rightarrow> bool"
  assumes commands_ready: "ready db \<Longrightarrow> \<exists>m. commands db user = Inr m \<and> (\<forall>c. granted (Some m) c \<longleftrightarrow> holds db user c)"
    and commands_unready: "\<not> ready db \<Longrightarrow> \<exists>e. commands db user = Inl e \<and> IsUninitializedRBAC e"
begin

lemma online_allows_iff:
  assumes "env_open env = Inr h" "env_commands env identity = commands db identity"
  shows "online_allows env identity c \<longleftrightarrow> ready db \<and> (holds db identity ''*'' \<or> holds db identity c)"
proof (cases "ready db")
  case True
  then obtain m where "commands db identity = Inr m" "\<forall>c. granted (Some m) c \<longleftrightarrow> holds db identity c" using commands_ready by blast
  with True assms show ?thesis by (simp add: online_allows_def)
next
  case False
  then obtain e where "commands db identity = Inl e" "IsUninitializedRBAC e" using commands_unready by blast
  with False assms show ?thesis by (simp add: online_allows_def)
qed

lemma never_unreachable:
  assumes "env_open env = Inr h" "env_commands env identity = commands db identity"
  shows "\<not> source_unreachable env identity"
proof (cases "ready db")
  case True
  then obtain m where "commands db identity = Inr m" "\<forall>c. granted (Some m) c \<longleftrightarrow> holds db identity c" using commands_ready by blast
  with True assms show ?thesis by (simp add: source_unreachable_def)
next
  case False
  then obtain e where "commands db identity = Inl e" "IsUninitializedRBAC e" using commands_unready by blast
  with False assms show ?thesis by (simp add: source_unreachable_def)
qed

lemma Check_by_rows:
  assumes "env_open env = Inr h" "env_commands env identity = commands db identity"
    and "env_token env = Inr (identity, pols)" "cmd_Name cmd \<noteq> ''''" "\<not> HasAdminPolicy pols (a_admins a)"
    and "cmd_Class cmd \<noteq> ClassRead" "cmd_Class cmd \<noteq> ClassAdmin" "identity \<noteq> ''''"
  shows "snd (Check a env cmd) = None \<longleftrightarrow> ready db \<and> (holds db identity ''*'' \<or> holds db identity (cmd_Name cmd))"
  using Check_grant_branch [OF assms(4,3,5-8)] online_allows_iff [OF assms(1,2)] never_unreachable [OF assms(1,2)] by simp

end

interpretation rows: grant_source "RBACCommandsForUser answering" may rb_migrated
proof
  show "\<exists>m. RBACCommandsForUser answering db user = Inr m \<and> (\<forall>c. granted (Some m) c \<longleftrightarrow> may db user c)" if "rb_migrated db" for db user
    using that by (simp add: RBACCommandsForUser_def rbac_query_def answering_def no_rbac_def granted_fold commands_of_user_mem)
      (simp add: granted_def)
  show "\<exists>e. RBACCommandsForUser answering db user = Inl e \<and> IsUninitializedRBAC e" if "\<not> rb_migrated db" for db user
    using that by (simp add: RBACCommandsForUser_def rbac_query_def answering_def no_rbac_def rbacReadErr_def isUndefinedTable_def
        IsUninitializedRBAC_def)
qed

text \<open>The specification: groups, and the two relations.\<close>

record rbac_rel =
  rel_groups :: "string set"
  rel_member :: "(string \<times> string) set"
  rel_grant :: "(string \<times> string) set"

definition rel_of :: "rbac_db \<Rightarrow> rbac_rel" where
  "rel_of db = \<lparr>rel_groups = keys (rb_groups db), rel_member = keys (rb_members db), rel_grant = keys (rb_grants db)\<rparr>"

datatype rbac_op = OpUpsert string string | OpDelete string | OpMember string string | OpUnmember string string
  | OpGrant string string | OpRevoke string string

fun run_op :: "rbac_env \<Rightarrow> gotime \<Rightarrow> rbac_op \<Rightarrow> rbac_db \<Rightarrow> rbac_db \<times> (goerror + unit)" where
  "run_op env now (OpUpsert name desc) db = RBACGroupUpsert env now name desc db"
| "run_op env now (OpDelete name) db = RBACGroupDelete env name db"
| "run_op env now (OpMember g u) db = RBACMemberAdd env now g u db"
| "run_op env now (OpUnmember g u) db = RBACMemberRemove env g u db"
| "run_op env now (OpGrant g c) db = RBACGrant env now g c db"
| "run_op env now (OpRevoke g c) db = RBACRevoke env g c db"

fun spec_op :: "rbac_op \<Rightarrow> rbac_rel \<Rightarrow> rbac_rel" where
  "spec_op (OpUpsert name desc) r = r \<lparr>rel_groups := insert name (rel_groups r)\<rparr>"
| "spec_op (OpDelete name) r = \<lparr>rel_groups = rel_groups r - {name}, rel_member = {k \<in> rel_member r. fst k \<noteq> name},
     rel_grant = {k \<in> rel_grant r. fst k \<noteq> name}\<rparr>"
| "spec_op (OpMember g u) r = r \<lparr>rel_member := insert (g, u) (rel_member r)\<rparr>"
| "spec_op (OpUnmember g u) r = r \<lparr>rel_member := rel_member r - {(g, u)}\<rparr>"
| "spec_op (OpGrant g c) r = r \<lparr>rel_grant := insert (g, c) (rel_grant r)\<rparr>"
| "spec_op (OpRevoke g c) r = r \<lparr>rel_grant := rel_grant r - {(g, c)}\<rparr>"

fun op_pre :: "rbac_op \<Rightarrow> rbac_rel \<Rightarrow> bool" where
  "op_pre (OpMember g u) r \<longleftrightarrow> g \<in> rel_groups r"
| "op_pre (OpGrant g c) r \<longleftrightarrow> g \<in> rel_groups r"
| "op_pre _ r \<longleftrightarrow> True"

definition rel_allows :: "rbac_rel \<Rightarrow> string \<Rightarrow> string \<Rightarrow> bool" where
  "rel_allows r user c \<longleftrightarrow> (\<exists>g. (g, user) \<in> rel_member r \<and> ((g, ''*'') \<in> rel_grant r \<or> (g, c) \<in> rel_grant r))"

lemma may_rel: "may db user ''*'' \<or> may db user c \<longleftrightarrow> rel_allows (rel_of db) user c"
  by (force simp: may_def rel_allows_def rel_of_def)

text \<open>Each operation is one statement with the change and the foreign key of its specification.\<close>

lemma run_op_shape:
  "\<exists>s key_ok upd. run_op env now op db = rbac_exec env s key_ok upd db \<and>
     (key_ok db \<longleftrightarrow> op_pre op (rel_of db)) \<and> rel_of (upd db) = spec_op op (rel_of db) \<and> rb_migrated (upd db) = rb_migrated db"
  by (cases op; simp add: RBACGroupUpsert_def RBACGroupDelete_def RBACMemberAdd_def RBACMemberRemove_def RBACGrant_def RBACRevoke_def,
      (rule exI)+, (rule conjI, rule refl))
    (simp_all add: rel_of_def group_exists_iff upsert_group_def delete_group_def)

lemma run_op_outcome:
  assumes "run_op env now op db = (db', r)"
  shows "r = Inr () \<Longrightarrow> rb_migrated db \<and> op_pre op (rel_of db) \<and> rel_of db' = spec_op op (rel_of db) \<and> rb_migrated db'"
    and "db' = db \<or> rb_migrated db \<and> op_pre op (rel_of db) \<and> rel_of db' = spec_op op (rel_of db)"
    and "\<not> (rb_migrated db \<and> op_pre op (rel_of db)) \<Longrightarrow> db' = db \<and> (\<exists>e. r = Inl e)"
proof -
  obtain s key_ok upd where x: "run_op env now op db = rbac_exec env s key_ok upd db" "key_ok db \<longleftrightarrow> op_pre op (rel_of db)"
      "rel_of (upd db) = spec_op op (rel_of db)" "rb_migrated (upd db) = rb_migrated db"
    using run_op_shape by blast
  note run = assms [unfolded x(1)]
  show "rb_migrated db \<and> op_pre op (rel_of db) \<and> rel_of db' = spec_op op (rel_of db) \<and> rb_migrated db'" if "r = Inr ()"
    using rbac_exec_ok [of env s key_ok upd db db' "()"] run that x(2-4) by auto
  show "db' = db \<or> rb_migrated db \<and> op_pre op (rel_of db) \<and> rel_of db' = spec_op op (rel_of db)"
    using rbac_exec_outcome [of env s key_ok upd db] run x(2,3) by auto
  show "db' = db \<and> (\<exists>e. r = Inl e)" if "\<not> (rb_migrated db \<and> op_pre op (rel_of db))"
    using rbac_exec_refused [of db key_ok env s upd] that x(2) run by auto
qed

text \<open>A history of operations, one after the other; an operation that reports an error leaves the rest undone.\<close>

fun run_ops :: "(rbac_env \<times> gotime \<times> rbac_op) list \<Rightarrow> rbac_db \<Rightarrow> rbac_db \<times> (goerror + unit)" where
  "run_ops [] db = (db, Inr ())"
| "run_ops ((env, now, op) # hs) db = (case run_op env now op db of (db', Inl e) \<Rightarrow> (db', Inl e) | (db', Inr _) \<Rightarrow> run_ops hs db')"

definition ops_of :: "(rbac_env \<times> gotime \<times> rbac_op) list \<Rightarrow> rbac_op list" where
  "ops_of hs = map (snd \<circ> snd) hs"

lemma run_ops_ok:
  "run_ops hs db = (db', Inr ()) \<Longrightarrow> rb_migrated db \<Longrightarrow> rel_of db' = fold spec_op (ops_of hs) (rel_of db) \<and> rb_migrated db'"
proof (induction hs db rule: run_ops.induct)
  case (2 env now op hs db)
  obtain db1 r1 where one: "run_op env now op db = (db1, r1)" by (cases "run_op env now op db")
  with "2.prems" have "r1 = Inr ()" "run_ops hs db1 = (db', Inr ())" by (auto split: sum.splits)
  with "2.IH" one run_op_outcome(1) [OF one] show ?case by (simp add: ops_of_def)
qed (simp add: ops_of_def)

section \<open>The commands keep to the steps\<close>

lemma each_write_steps:
  "(\<And>x db. x \<in> set xs \<Longrightarrow> rbac_step db (fst (w x db))) \<Longrightarrow> rbac_step\<^sup>*\<^sup>* db (fst (each_write verb w xs db))"
proof (induction xs arbitrary: db)
  case (Cons x xs)
  obtain db1 r1 where one: "w x db = (db1, r1)" by (cases "w x db")
  have first: "rbac_step db db1" using Cons.prems [of x db] one by simp
  show ?case
  proof (cases r1)
    case (Inl e)
    with one first show ?thesis by auto
  next
    case (Inr u)
    have "rbac_step\<^sup>*\<^sup>* db1 (fst (each_write verb w xs db1))" using Cons by simp
    with one first Inr show ?thesis by (simp add: converse_rtranclp_into_rtranclp)
  qed
qed simp

lemma Grantable_iff: "c \<in> set Grantable \<longleftrightarrow> c = ''*'' \<or> ClassOf c = Some ClassMutate"
  using gated_wf by (auto simp: Grantable_def GrantableCommands_def ClassOf_def gomap_mem_iff [symmetric] image_iff)

lemma runRBACGrant_steps:
  assumes "runRBACGrant collate env wenv inp inp2 now args db = Done (db', r)"
  shows "rbac_step\<^sup>*\<^sup>* db db'"
proof -
  have w: "rbac_step\<^sup>*\<^sup>* db db'"
    if "set cs \<subseteq> set Grantable" "each_write ''grant '' (\<lambda>c. RBACGrant (wenv c) now g c) cs db = (db', r)" for g cs
    using each_write_steps [of cs "\<lambda>c. RBACGrant (wenv c) now g c" db "''grant ''"] that by (auto intro: rbac_step.grant)
  have picked: "PickMany inp2 Grantable = Done (Inr cs) \<Longrightarrow> set cs \<subseteq> set Grantable" for cs
    using PickMany_mem [of inp2 Grantable cs] by simp
  show ?thesis using assms
    by (auto simp: runRBACGrant_def Let_def Grantable_iff split: outcome.splits sum.splits if_splits intro: w [OF picked] w [of "[_]"])
qed

lemma runRBACAssign_steps:
  assumes "runRBACAssign collate env wenv inp inp2 now args db = Done (db', r)"
  shows "rbac_step\<^sup>*\<^sup>* db db'"
proof -
  have w: "rbac_step\<^sup>*\<^sup>* db db'" if "each_write ''add '' (\<lambda>u. RBACMemberAdd (wenv u) now g u) us db = (db', r)" for g us
    using each_write_steps [of us "\<lambda>u. RBACMemberAdd (wenv u) now g u" db "''add ''"] that by (auto intro: rbac_step.member_add)
  show ?thesis using assms
    by (auto simp: runRBACAssign_def Let_def split: outcome.splits sum.splits if_splits intro: w)
qed

lemma rbacMemberAdd_step: "rbac_step\<^sup>*\<^sup>* db (fst (rbacMemberAdd env wenv now g u db))"
  by (auto simp: rbacMemberAdd_def rbac_step.member_add split: sum.splits)

lemma login_records_step: "rbac_step\<^sup>*\<^sup>* db (fst (login_records meth identity store now version db))"
proof -
  have w: "rbac_step\<^sup>*\<^sup>* db db'" if "RecordSeenUser env now who version db = (db', r)" for env who db' r
    using rbac_step.seen [of db env now who version] that by auto
  show ?thesis by (auto simp: login_records_def split: sum.splits prod.splits intro: w)
qed

section \<open>Properties\<close>

text \<open>C31: the rows the gate decides by stay well-formed. From a database without the schema, whatever statements of any
  number of processes run in whatever order, migrations among them, and whatever each of them reports, the primary keys are
  unique, every member and every grant belongs to a group that exists, only the wildcard and mutating commands of
  the catalogue are granted, and no one without a name is recorded as seen. The interactive commands are such statements:
  the picker can only hand them what the lists offered.\<close>

theorem rbac_rows_stay_well_formed:
  assumes "rbac_step\<^sup>*\<^sup>* fresh_rbac db"
  shows "rbac_wf db \<and>
    (runRBACGrant collate env wenv inp inp2 now args db = Done (db1, r1) \<longrightarrow> rbac_wf db1) \<and>
    (runRBACAssign collate env wenv inp inp2 now args db = Done (db2, r2) \<longrightarrow> rbac_wf db2) \<and>
    rbac_wf (fst (rbacMemberAdd env env' now g u db)) \<and> rbac_wf (fst (login_records meth identity store now version db))"
proof -
  have wf: "rbac_wf db" by (rule rbac_steps_wf [OF assms fresh_rbac_wf])
  show ?thesis
    by (intro conjI impI) (rule wf | rule rbac_steps_wf [OF rbacMemberAdd_step wf] rbac_steps_wf [OF login_records_step wf]
      | erule rbac_steps_wf [OF runRBACGrant_steps wf] rbac_steps_wf [OF runRBACAssign_steps wf])+
qed

definition demo_rbac :: rbac_db where
  "demo_rbac = fst (run_ops [(answering, 1, OpUpsert ''ops'' ''on call''), (answering, 2, OpMember ''ops'' ''kim''), (answering, 3, OpGrant ''ops'' ''ssh'')]
     (fresh_rbac \<lparr>rb_migrated := True\<rparr>))"

lemma demo_rbac_reached: "rbac_step\<^sup>*\<^sup>* fresh_rbac demo_rbac"
proof -
  let ?d0 = "fresh_rbac \<lparr>rb_migrated := True\<rparr>"
  let ?d1 = "fst (RBACGroupUpsert answering 1 ''ops'' ''on call'' ?d0)"
  let ?d2 = "fst (RBACMemberAdd answering 2 ''ops'' ''kim'' ?d1)"
  let ?d3 = "fst (RBACGrant answering 3 ''ops'' ''ssh'' ?d2)"
  have "demo_rbac = ?d3" by code_simp
  moreover have "rbac_step fresh_rbac ?d0" "rbac_step ?d0 ?d1" "rbac_step ?d1 ?d2" by (rule rbac_step.intros)+
  moreover have "rbac_step ?d2 ?d3" by (rule rbac_step.grant) (simp add: Grantable_iff ClassOf_def gated_def)
  ultimately show ?thesis by simp
qed

definition demo_granted :: rbac_db where
  "demo_granted = fst (each_write ''grant '' (\<lambda>c. RBACGrant answering 9 ''ops'' c) [''add'', ''delete''] demo_rbac)"

theorem rbac_rows_stay_well_formed_witness:
  "runRBACGrant id answering (\<lambda>_. answering) (Line '''') (Line ''2 3'') 9 [''ops''] demo_rbac = Done (demo_granted, Inr ()) \<and>
   keys (rb_grants demo_granted) = {(''ops'', ''ssh''), (''ops'', ''add''), (''ops'', ''delete'')} \<and> rbac_wf demo_rbac \<and> rbac_wf demo_granted"
proof -
  have g: "runRBACGrant id answering (\<lambda>_. answering) (Line '''') (Line ''2 3'') 9 [''ops''] demo_rbac = Done (demo_granted, Inr ())"
    by code_simp
  have k: "keys (rb_grants demo_granted) = {(''ops'', ''ssh''), (''ops'', ''add''), (''ops'', ''delete'')}" by code_simp
  have "rbac_wf demo_rbac" by (rule rbac_rows_stay_well_formed [OF demo_rbac_reached, THEN conjunct1])
  moreover have "rbac_wf demo_granted"
    by (rule rbac_rows_stay_well_formed [OF demo_rbac_reached, THEN conjunct2, THEN conjunct1, THEN mp, OF g])
  ultimately show ?thesis using g k by simp
qed

text \<open>C32: access follows the history of the operations. After operations on groups, members and grants that all reported
  success, a caller without an admin policy may run a mutating command exactly when the relations those operations
  specify, applied one after the other to the relations of the rows before, have a group with the caller as a member and
  the command or the wildcard as a grant: deleting a group takes its members and grants with it, and what is added to a
  group of the same name later starts from nothing.\<close>

theorem access_follows_the_history:
  assumes "run_ops hs db = (db', Inr ())" "rb_migrated db"
    and "answers renv (SelectCommandsForUser identity) db'" "env_open env = Inr h"
    and "env_commands env identity = RBACCommandsForUser renv db' identity" "env_token env = Inr (identity, pols)" "identity \<noteq> ''''"
    and "\<not> HasAdminPolicy pols (a_admins a)" "cmd_Name cmd \<noteq> ''''" "cmd_Class cmd \<noteq> ClassRead" "cmd_Class cmd \<noteq> ClassAdmin"
  shows "snd (Check a env cmd) = None \<longleftrightarrow> rel_allows (fold spec_op (ops_of hs) (rel_of db)) identity (cmd_Name cmd)"
proof -
  have "env_commands env identity = RBACCommandsForUser answering db' identity"
    using assms(5) RBACCommandsForUser_answers [OF assms(3)] by simp
  from rows.Check_by_rows [OF assms(4) this assms(6,9,8,10,11,7)] run_ops_ok [OF assms(1,2)] show ?thesis
    by (simp add: may_rel)
qed

definition demo_caller :: "rbac_db \<Rightarrow> authz_env" where
  "demo_caller db = \<lparr>env_token = Inr (''kim'', [''default'']), env_open = Inr True, env_commands = RBACCommandsForUser answering db, env_clock = 100\<rparr>"

text \<open>The member of a deleted group is refused, also after the group is created and granted again.\<close>

theorem access_follows_the_history_witness:
  "snd (Check New (demo_caller demo_rbac) \<lparr>cmd_Name = ''ssh'', cmd_Class = ClassMutate\<rparr>) = None \<and>
   (let again = [(answering, 5, OpDelete ''ops''), (answering, 6, OpUpsert ''ops'' ''''), (answering, 7, OpGrant ''ops'' ''ssh'')];
        db' = fst (run_ops again demo_rbac)
    in snd (Check New (demo_caller db') \<lparr>cmd_Name = ''ssh'', cmd_Class = ClassMutate\<rparr>) \<noteq> None)"
proof -
  let ?again = "[(answering, 5, OpDelete ''ops''), (answering, 6, OpUpsert ''ops'' ''''), (answering, 7, OpGrant ''ops'' ''ssh'')]"
  let ?cmd = "\<lparr>cmd_Name = ''ssh'', cmd_Class = ClassMutate\<rparr>"
  have mig: "rb_migrated demo_rbac" by code_simp
  have run: "run_ops ?again demo_rbac = (fst (run_ops ?again demo_rbac), Inr ())" by code_simp
  have rel: "rel_of demo_rbac = \<lparr>rel_groups = {''ops''}, rel_member = {(''ops'', ''kim'')}, rel_grant = {(''ops'', ''ssh'')}\<rparr>" by code_simp
  have env: "env_open (demo_caller db) = Inr True" "env_commands (demo_caller db) ''kim'' = RBACCommandsForUser answering db ''kim''"
    "env_token (demo_caller db) = Inr (''kim'', [''default''])" "answers answering (SelectCommandsForUser ''kim'') db" for db
    by (simp_all add: demo_caller_def answers_def answering_def)
  have no_admin: "\<not> HasAdminPolicy [''default''] (a_admins New)" by (simp add: New_def)
  show ?thesis
    using access_follows_the_history [OF run mig env(4,1,2,3) _ no_admin, of ?cmd]
      access_follows_the_history [of "[]" demo_rbac demo_rbac, OF _ mig env(4,1,2,3) _ no_admin, of ?cmd] rel
    by (simp add: ops_of_def rel_allows_def Let_def)
qed

section \<open>The gate on a command\<close>

lemma catalogue_names: "ClassOf '''' = None"
  by (simp add: ClassOf_def gated_def)

lemma tags: "str_of (tagRBAC ann name class) ''rbac.command'' = name" "str_of (tagRBAC ann name class) ''rbac.class'' = class"
  by (simp_all add: str_of_def tagRBAC_def update_conv')

text \<open>The gate of a caller who is logged in, on a command that carries a name.\<close>

lemma EnforceRBAC_logged_in:
  assumes "want \<noteq> ''''"
  shows "snd (EnforceRBAC cfg None None env io (tagRBAC ann want cl) f) = Inr None \<longleftrightarrow>
    snd (Check (NewAuthorizer cfg f) env \<lparr>cmd_Name = want, cmd_Class = cl\<rparr>) = None"
  using assms by (simp add: EnforceRBAC_def tags split: prod.splits)

lemma NewAuthorizer_admins [simp]: "a_admins (NewAuthorizer cfg f) = AdminPolicies cfg"
  by (simp add: NewAuthorizer_def WithAdminPolicies_def)

lemma read_view_passes:
  assumes "GateReadView ann want = Some ann'" "env_token env = Inr t"
  shows "snd (EnforceRBAC cfg None None env io ann' f) = Inr None"
proof -
  have a: "ann' = tagRBAC ann want ClassRead" "want \<noteq> ''''"
    using assms(1) catalogue_names by (auto simp: GateReadView_def split: option.splits)
  show ?thesis unfolding a(1) EnforceRBAC_logged_in [OF a(2)] using assms(2) a(2) by (cases t) (simp add: Check_def)
qed

lemma check_foretells_gate:
  assumes "answers renv (SelectCommandsForUser identity) db" "rb_migrated db" "env_open env = Inr h"
    and "env_commands env identity = RBACCommandsForUser renv db identity" "env_token env = Inr (identity, pols)" "identity \<noteq> ''''"
  shows "\<exists>v. runRBACCheck (env_token env) (a_admins a) renv want db = Inr v \<and>
     (\<forall>cl. ClassOf want = Some cl \<longrightarrow> (verdict_allows v \<longleftrightarrow> snd (Check a env \<lparr>cmd_Name = want, cmd_Class = cl\<rparr>) = None)) \<and>
     (ClassOf want = None \<longrightarrow> verdict_allows v)"
proof -
  have cmds: "env_commands env identity = RBACCommandsForUser answering db identity"
    using assms(4) RBACCommandsForUser_answers [OF assms(1)] by simp
  obtain m where m: "RBACCommandsForUser renv db identity = Inr m" "\<forall>c. granted (Some m) c \<longleftrightarrow> may db identity c"
    using rows.commands_ready [OF assms(2), of identity] cmds assms(4) by auto
  consider "HasAdminPolicy pols (a_admins a)" | "ClassOf want = None" "\<not> HasAdminPolicy pols (a_admins a)"
    | cl where "ClassOf want = Some cl" "\<not> HasAdminPolicy pols (a_admins a)" by (cases "ClassOf want") auto
  then show ?thesis
  proof cases
    case 3
    have named: "want \<noteq> ''''" using 3(1) catalogue_names by auto
    consider "cl = ClassRead" | "cl = ClassAdmin" | "cl \<noteq> ClassRead" "cl \<noteq> ClassAdmin" by blast
    then show ?thesis
    proof cases
      case gate: 3
      have "snd (Check a env \<lparr>cmd_Name = want, cmd_Class = cl\<rparr>) = None \<longleftrightarrow> may db identity ''*'' \<or> may db identity want"
        using rows.Check_by_rows [OF assms(3) cmds assms(5) _ 3(2) _ _ assms(6), of "\<lparr>cmd_Name = want, cmd_Class = cl\<rparr>"] named gate assms(2)
        by simp
      then show ?thesis using 3 gate m assms(5) by (simp add: runRBACCheck_def verdict_allows_def)
    qed (use 3 assms(5) named in \<open>simp_all add: runRBACCheck_def Check_def verdict_allows_def\<close>)
  qed (use assms(5) in \<open>simp_all add: runRBACCheck_def Check_def verdict_allows_def\<close>)
qed

text \<open>C33: \<^verbatim>\<open>rbac check\<close> foretells the gate. For a caller with a name who is logged in, with the tables migrated and readable, what
  the command reports for a name of the catalogue is what the gate decides for a command that \<^verbatim>\<open>Gate\<close> registered under it:
  allowed exactly when it runs. A listing that \<^verbatim>\<open>GateReadView\<close> registered under the name runs whatever is reported. A name
  outside the catalogue is reported as allowed and can be on no gated command.\<close>

theorem rbac_check_foretells_the_gate:
  assumes "answers renv (SelectCommandsForUser identity) db" "rb_migrated db" "env_open env = Inr h"
    and "env_commands env identity = RBACCommandsForUser renv db identity" "env_token env = Inr (identity, pols)" "identity \<noteq> ''''"
  shows "\<exists>v. runRBACCheck (env_token env) (AdminPolicies cfg) renv want db = Inr v \<and>
     (\<forall>ann ann'. Gate ann want = Some ann' \<longrightarrow> (verdict_allows v \<longleftrightarrow> snd (EnforceRBAC cfg None None env io ann' f) = Inr None)) \<and>
     (\<forall>ann ann'. GateReadView ann want = Some ann' \<longrightarrow> snd (EnforceRBAC cfg None None env io ann' f) = Inr None) \<and>
     (ClassOf want = None \<longrightarrow> verdict_allows v \<and> (\<forall>ann. Gate ann want = None \<and> GateReadView ann want = None))"
proof -
  let ?a = "NewAuthorizer cfg f"
  from check_foretells_gate [OF assms, of ?a want] obtain v where
    r: "runRBACCheck (env_token env) (a_admins ?a) renv want db = Inr v \<and>
     (\<forall>cl. ClassOf want = Some cl \<longrightarrow> (verdict_allows v \<longleftrightarrow> snd (Check ?a env \<lparr>cmd_Name = want, cmd_Class = cl\<rparr>) = None)) \<and>
     (ClassOf want = None \<longrightarrow> verdict_allows v)" by (rule exE)
  note v = conjunct1 [OF r] conjunct1 [OF conjunct2 [OF r], rule_format] conjunct2 [OF conjunct2 [OF r], rule_format]
  have "verdict_allows v \<longleftrightarrow> snd (EnforceRBAC cfg None None env io ann' f) = Inr None" if g: "Gate ann want = Some ann'" for ann ann'
  proof -
    obtain cl where cl: "ClassOf want = Some cl" "ann' = tagRBAC ann want cl" using g by (auto simp: Gate_def split: option.splits)
    then have "want \<noteq> ''''" using catalogue_names by auto
    from EnforceRBAC_logged_in [OF this] v(2) [OF cl(1)] cl(2) show ?thesis by simp
  qed
  moreover have "Gate ann want = None \<and> GateReadView ann want = None" if "ClassOf want = None" for ann
    using that by (simp add: Gate_def GateReadView_def)
  ultimately show ?thesis using v(1,3) read_view_passes [OF _ assms(5)] by (intro exI [of _ v] conjI allI impI) simp_all
qed

definition demo_cfg :: app_cfg where
  "demo_cfg = \<lparr>CacheDisabled = True, cache_path = None, OfflineWindow = 0, RefreshInterval = 0, StaleLimit = 0, AdminPolicies = []\<rparr>"

theorem rbac_check_foretells_the_gate_witness:
  "runRBACCheck (env_token (demo_caller demo_rbac)) [] answering ''exec'' demo_rbac = Inr DenyNoGrant \<and>
   (\<exists>ann. Gate [] ''exec'' = Some ann \<and> snd (EnforceRBAC demo_cfg None None (demo_caller demo_rbac) save_ok ann Missing) \<noteq> Inr None)"
proof -
  have r: "runRBACCheck (env_token (demo_caller demo_rbac)) [] answering ''exec'' demo_rbac = Inr DenyNoGrant" by code_simp
  have "ClassOf ''exec'' \<noteq> None" by code_simp
  then have g: "\<exists>ann. Gate [] ''exec'' = Some ann" by (auto simp: Gate_def)
  have "rb_migrated demo_rbac" by code_simp
  from rbac_check_foretells_the_gate [of answering "''kim''" demo_rbac "demo_caller demo_rbac" True "[''default'']" demo_cfg "''exec''" save_ok Missing, OF _ this]
  show ?thesis using r g by (auto simp: demo_caller_def demo_cfg_def answers_def answering_def verdict_allows_def)
qed

text \<open>The name of a listing is also the name of the writes beside it, and \<^verbatim>\<open>rbac check\<close> answers for the writes alone: it denies \<open>dns\<close> to
  a caller whose \<^verbatim>\<open>vctl dns\<close> runs.\<close>

lemma read_view_runs_though_denied:
  "runRBACCheck (env_token (demo_caller demo_rbac)) [] answering ''dns'' demo_rbac = Inr DenyNoGrant \<and>
   (\<exists>ann. GateReadView [] ''dns'' = Some ann \<and> snd (EnforceRBAC demo_cfg None None (demo_caller demo_rbac) save_ok ann Missing) = Inr None)"
proof -
  have "runRBACCheck (env_token (demo_caller demo_rbac)) [] answering ''dns'' demo_rbac = Inr DenyNoGrant" by code_simp
  moreover have "ClassOf ''dns'' \<noteq> None" by code_simp
  then have "\<exists>ann. GateReadView [] ''dns'' = Some ann" by (auto simp: GateReadView_def)
  ultimately show ?thesis using read_view_passes [of "[]" "''dns''"] by (auto simp: demo_caller_def)
qed

text \<open>Without a name the two differ: a row for the empty user name, which \<^verbatim>\<open>rbac member add\<close> accepts, makes \<^verbatim>\<open>rbac check\<close> report
  a command as granted that the gate refuses.\<close>

lemma nameless_check_differs:
  "let db = fst (rbacMemberAdd answering answering 4 ''ops'' '''' demo_rbac);
       env = (demo_caller db) \<lparr>env_token := Inr ('''', [])\<rparr>
   in runRBACCheck (env_token env) [] answering ''ssh'' db = Inr AllowGranted \<and>
      map_option (\<lambda>ann. snd (EnforceRBAC demo_cfg None None env save_ok ann Missing)) (Gate [] ''ssh'') = Some (Inr (Some NoIdentity))"
  by code_simp

text \<open>Between the migrations 007 and 008 the readers of the seen users fail with a missing column, which is not classified
  as a schema that is not set up.\<close>

lemma seen_users_between_migrations:
  assumes "answers env SelectSeen db" "rb_seen_migrated db" "\<not> rb_version_migrated db"
  shows "SeenUsers collate env db = Inl ErrUndefinedColumn \<and> \<not> IsUninitializedRBAC ErrUndefinedColumn"
  using assms by (simp add: SeenUsers_def rbac_query_def answers_def no_version_def rbacReadErr_def isUndefinedTable_def
      ErrUndefinedColumn_def ErrUndefinedTable_def IsUninitializedRBAC_def ErrUninitialized_def)

end
