(* ===== verification/Gateway_Adapters.thy ===== *)
theory Gateway_Adapters
  imports Rbac_Store Farm_Instances Node_Enroll Gateway_Safety
begin

text \<open>
  What the gateway of the node access channel is connected to: \<^verbatim>\<open>vctl_adapters.go\<close> and \<^verbatim>\<open>keystone_ca.go\<close> of
  \<^verbatim>\<open>internal/nodeaccess\<close>, and \<^verbatim>\<open>internal/store/node_access_audit.go\<close> on the table of the migrations 032 and 033. An
  operator is authorized by the rows of the command gate, a node by the host and the VM inventory, Nova by the Keystone of
  the registered farm, and every session is recorded in an append-only table.

  Vault, the HTTP client, URLs, PEM and X.509 are parameters. The gateway with these hooks and its audit table is the relation
  \<open>deployed_step\<close>: a step of the gateway whose records were acknowledged inserts them, and a record may land although
  its acknowledgement was lost. The lemmas read the guarantees of the gateway down to the rows.
\<close>

section \<open>Operators and nodes\<close>

record adapter_world =
  aw_NewWithToken :: "string \<Rightarrow> goerror option"
  aw_LookupToken :: "string \<Rightarrow> goerror + (string \<times> string list)"
  aw_admins :: "string list"
  aw_OpenStore :: "goerror option"
  aw_rbac_env :: rbac_env
  aw_rbac :: rbac_db
  aw_farm_env :: farm_env
  aw_farm :: farm_db
  aw_like :: "bool \<Rightarrow> string \<Rightarrow> string \<Rightarrow> bool"
  aw_now :: gotime

definition access_grant :: "operation \<Rightarrow> string" where
  "access_grant opn = (if opn = OperationShellSession then ''node-access-shell'' else ''node-access'')"

definition authorize_operator :: "adapter_world \<Rightarrow> string \<Rightarrow> string \<Rightarrow> operation \<Rightarrow> goerror + string" where
  \<comment> \<open>\<^verbatim>\<open>VCTLAdapters.AuthorizeNodeAccess\<close>; the host name is not looked at\<close>
  "authorize_operator w credential hostname opn =
     go_bind (go_none (aw_NewWithToken w credential)) (\<lambda>_.
     go_bind (go_wrap ''validate operator token'' (aw_LookupToken w credential)) (\<lambda>(identity, pols).
     if identity = '''' then Inl (Plain ''operator token has no stable identity'')
     else if HasAdminPolicy pols (aw_admins w) then Inr identity
     else go_bind (go_none (aw_OpenStore w)) (\<lambda>_.
       go_bind (go_wrap ''read operator access grant'' (RBACCommandsForUser (aw_rbac_env w) (aw_rbac w) identity)) (\<lambda>commands.
       if \<not> Authz.granted (Some commands) ''*'' \<and> \<not> Authz.granted (Some commands) (access_grant opn)
       then Inl (Plain (''operator lacks '' @ access_grant opn @ '' grant'')) else Inr identity))))"

definition Get :: "farm_env \<Rightarrow> string \<Rightarrow> farm_db \<Rightarrow> goerror + inv_server" where
  "Get env hostname db = go_bind (go_none (te_exec env (SelectServer hostname) db)) (\<lambda>_.
     go_some (Sentinel ''no rows in result set'') (map_of (db_servers db) hostname))"

definition vm_filter :: "string \<Rightarrow> instanceFilter" where
  "vm_filter i = \<lparr>if_DeploymentID = '''', if_Hypervisor = '''', if_ProjectIDs = [], if_Address = '''', if_InstanceID = i, if_Search = '''',
     if_IncludeMissing = True\<rparr>"

definition authorize_vm :: "gotime \<Rightarrow> vm_instance list \<Rightarrow> goerror option" where
  "authorize_vm now vms = (case vms of
     [] \<Rightarrow> Some (Plain ''node does not exist in host or OpenStack VM inventory'')
   | [vm] \<Rightarrow>
       if vm_MissingSince vm \<noteq> None \<or> vm_Status vm \<noteq> ''ACTIVE'' then Some (Plain ''VM is not active in OpenStack inventory'')
       else if time_is_zero (vm_ObservedAt vm) \<or> 3 * hour < time_sub now (vm_ObservedAt vm) then Some (Plain ''VM inventory record is stale'')
       else None
   | _ \<Rightarrow> Some (Plain ''VM identity is ambiguous across deployments''))"

definition authorize_node :: "adapter_world \<Rightarrow> string \<Rightarrow> goerror option" where
  \<comment> \<open>\<^verbatim>\<open>VCTLAdapters.AuthorizeNode\<close>\<close>
  "authorize_node w hostname =
    (case aw_OpenStore w of Some e \<Rightarrow> Some e
     | None \<Rightarrow> (case Get (aw_farm_env w) hostname (aw_farm w) of
         Inr host \<Rightarrow> if StateOrActive (is_State host) \<noteq> StateActive then Some (Plain ''node is not active'') else None
       | Inl _ \<Rightarrow> (case instancesOn (aw_like w) (aw_farm_env w) (vm_filter hostname) (aw_farm w) of
           Inl e \<Rightarrow> Some (Wrapf ''look up VM identity'' e)
         | Inr vms \<Rightarrow> authorize_vm (aw_now w) vms)))"

definition adapter_hooks :: "adapter_world \<Rightarrow> hooks" where
  "adapter_hooks w = \<lparr>AuthorizeNodeAccess = (\<lambda>credential node opn. case authorize_operator w credential node opn of Inl _ \<Rightarrow> None | Inr who \<Rightarrow> Some who),
     AuthorizeNode = (\<lambda>node. authorize_node w node = None)\<rparr>"

section \<open>The Keystone of a farm\<close>

record ca_cert =
  ca_Subject :: string
  ca_BasicConstraintsValid :: bool
  ca_IsCA :: bool
  ca_Raw :: string

record pem_lib =
  pl_Decode :: "string \<Rightarrow> ((string \<times> string) \<times> string) option"
  pl_ParseCertificate :: "string \<Rightarrow> goerror + ca_cert"
  pl_AppendCertsFromPEM :: "string \<Rightarrow> ca_cert list"

partial_function (option) ca_blocks :: "pem_lib \<Rightarrow> string \<Rightarrow> ca_cert list \<Rightarrow> (goerror + ca_cert list) option" where
  "ca_blocks lib rest certs = (case pl_Decode lib rest of None \<Rightarrow> Some (Inr certs)
     | Some (blk, rest') \<Rightarrow>
         if fst blk \<noteq> ''CERTIFICATE'' then Some (Inl (Plain (''only CERTIFICATE blocks are accepted, found '' @ fst blk)))
         else (case pl_ParseCertificate lib (snd blk) of Inl e \<Rightarrow> Some (Inl (Wrapf ''parse certificate'' e))
           | Inr cert \<Rightarrow> if \<not> ca_BasicConstraintsValid cert \<or> \<not> ca_IsCA cert then Some (Inl (Plain (ca_Subject cert @ '' is not a CA certificate'')))
               else ca_blocks lib rest' (certs @ [cert])))"

definition ParseKeystoneCA :: "pem_lib \<Rightarrow> string \<Rightarrow> (goerror + ca_cert list) option" where
  "ParseKeystoneCA lib data = map_option (\<lambda>r. case r of Inl e \<Rightarrow> Inl e
     | Inr certs \<Rightarrow> if certs = [] then Inl (Plain ''no PEM certificate found'') else Inr certs) (ca_blocks lib data [])"

definition keystoneRoots :: "pem_lib \<Rightarrow> (goerror + ca_cert list option) \<Rightarrow> string \<Rightarrow> string \<Rightarrow> (goerror + ca_cert list) option" where
  \<comment> \<open>the second argument is what \<^verbatim>\<open>x509.SystemCertPool\<close> answers, the third the embedded SRE root\<close>
  "keystoneRoots lib sys sre farmCA =
    (let roots = (case sys of Inr (Some pool) \<Rightarrow> pool | _ \<Rightarrow> []); own = pl_AppendCertsFromPEM lib sre in
     if own = [] \<and> sre \<noteq> '''' then Some (Inl (Plain ''embedded SRE certificate authority is invalid''))
     else if farmCA = '''' then Some (Inr (roots @ own))
     else (case ParseKeystoneCA lib farmCA of None \<Rightarrow> None
       | Some (Inl e) \<Rightarrow> Some (Inl (Wrapf ''registered Keystone CA'' e))
       | Some (Inr certs) \<Rightarrow> Some (Inr (roots @ own @ certs))))"

definition KeystoneTokensURL :: "url_lib \<Rightarrow> string \<Rightarrow> string \<Rightarrow> goerror + string" where
  "KeystoneTokensURL ul deploymentID verifyURL =
    (let base = (if verifyURL \<noteq> '''' then verifyURL else ''https://'' @ deploymentID);
         bad = Plain (''keystone endpoint '' @ base @ '' must be an https origin without credentials, query or fragment'') in
     case url_Parse ul base of None \<Rightarrow> Inl bad
     | Some u \<Rightarrow>
         if pu_Scheme u \<noteq> ''https'' \<or> pu_Host u = '''' \<or> pu_User u \<or> pu_RawQuery u \<noteq> '''' \<or> pu_Fragment u \<noteq> '''' \<or> pu_Opaque u \<noteq> '''' then Inl bad
         else if verifyURL = '''' \<and> pu_Host u \<noteq> deploymentID then Inl (Plain ''registered farm has an invalid Keystone endpoint'')
         else Inr (url_String ul (u \<lparr>pu_Path := trim_suffix (trim_suffix (pu_Path u) ''/'') ''/v3'' @ ''/v3/auth/tokens''\<rparr>)))"

record keystone_token =
  kt_ExpiresAt :: string
  kt_User :: string
  kt_Project :: string
  kt_Roles :: "string list"

record token_request =
  tr_URL :: string
  tr_Roots :: "ca_cert list"
  tr_AuthToken :: string
  tr_SubjectToken :: string

record nova_world =
  nw_OpenStore :: "goerror option"
  nw_farm_env :: farm_env
  nw_farm :: farm_db
  nw_SystemCertPool :: "goerror + ca_cert list option"
  nw_SRERootCA :: string
  nw_Do :: "token_request \<Rightarrow> goerror + (nat \<times> keystone_token option)" \<comment> \<open>the status, and the token when the body decodes\<close>
  nw_username :: string \<comment> \<open>\<^verbatim>\<open>VCTL_NOVA_SERVICE_USERNAME\<close>\<close>
  nw_ParseTime :: "string \<Rightarrow> gotime option"
  nw_now :: gotime

definition nova_identity :: "nova_world \<Rightarrow> keystone_token \<Rightarrow> bool" where
  "nova_identity w t \<longleftrightarrow> (let username = (if trim_space (nw_username w) = '''' then ''nova'' else trim_space (nw_username w)) in
     (case nw_ParseTime w (kt_ExpiresAt t) of None \<Rightarrow> False | Some expires \<Rightarrow> nw_now w < expires) \<and>
     kt_User t = username \<and> kt_Project t \<noteq> '''' \<and> ''admin'' \<in> set (kt_Roles t))"

definition check_token :: "nova_world \<Rightarrow> token_request \<Rightarrow> goerror option" where
  "check_token w q = (case nw_Do w q of Inl e \<Rightarrow> Some (Wrapf ''validate Nova service token with farm Keystone'' e)
     | Inr (status, body) \<Rightarrow> if status \<noteq> 200 then Some (Plain ''farm Keystone rejected Nova service token'')
         else (case body of None \<Rightarrow> Some (Plain ''decode Keystone token validation response'')
           | Some t \<Rightarrow> if nova_identity w t then None else Some (Plain ''Keystone token is not an active Nova service identity'')))"

definition registered_farm :: "deployment list \<Rightarrow> string \<Rightarrow> deployment option" where
  "registered_farm ds i = find (\<lambda>d. dp_ID d = i \<and> dp_State d = ''active'') ds"

definition tokens_endpoint :: "url_lib \<Rightarrow> string \<Rightarrow> string \<Rightarrow> goerror + string" where
  \<comment> \<open>the URL, parsed again for the request and once more by the request\<close>
  "tokens_endpoint ul i verifyURL =
     go_bind (KeystoneTokensURL ul i verifyURL) (\<lambda>tokensURL.
     go_bind (go_some (Plain ''registered farm has an invalid Keystone endpoint'') (url_Parse ul tokensURL)) (\<lambda>endpoint.
       Inr (url_String ul endpoint)))"

text \<open>What was sent, and the error returned; \<^const>\<open>None\<close> when reading the registered CA does not end.\<close>

definition AuthenticateNova :: "url_lib \<Rightarrow> pem_lib \<Rightarrow> nova_world \<Rightarrow> string \<Rightarrow> string \<Rightarrow> (token_request list \<times> goerror option) option" where
  "AuthenticateNova ul lib w deploymentID serviceToken =
    (if trim_space serviceToken = '''' \<or> CHR 0x0D \<in> set serviceToken \<or> CHR 0x0A \<in> set serviceToken
     then Some ([], Some (Plain ''Nova service token is missing or malformed''))
     else case nw_OpenStore w of Some e \<Rightarrow> Some ([], Some e)
     | None \<Rightarrow> (case deploymentsOn (nw_farm_env w) (nw_farm w) of
         Inl e \<Rightarrow> Some ([], Some (Wrapf ''list registered OpenStack farms'' e))
       | Inr ds \<Rightarrow> (case registered_farm ds deploymentID of
           None \<Rightarrow> Some ([], Some (Plain ''farm is not registered and active''))
         | Some d \<Rightarrow> (case tokens_endpoint ul deploymentID (dp_KeystoneVerifyURL d) of
             Inl e \<Rightarrow> Some ([], Some e)
           | Inr url \<Rightarrow> (case keystoneRoots lib (nw_SystemCertPool w) (nw_SRERootCA w) (dp_KeystoneCAPEM d) of
               None \<Rightarrow> None
             | Some (Inl e) \<Rightarrow> Some ([], Some e)
             | Some (Inr roots) \<Rightarrow>
                 if url_Parse ul url = None then Some ([], Some (Plain ''build Keystone token validation request''))
                 else let q = \<lparr>tr_URL = url, tr_Roots = roots, tr_AuthToken = serviceToken, tr_SubjectToken = serviceToken\<rparr> in
                   Some ([q], check_token w q))))))"

section \<open>The audit table\<close>

record audit_row =
  ar_RequestID :: string
  ar_Phase :: string
  ar_Operator :: string
  ar_Hostname :: string
  ar_TargetKind :: string
  ar_Operation :: string
  ar_StartedAt :: gotime
  ar_EndedAt :: "gotime option"
  ar_Outcome :: string

datatype audit_stmt = InsertAudit

definition ErrUniqueViolation :: goerror where "ErrUniqueViolation = Sentinel ''23505''"

definition audit_key :: "audit_row \<Rightarrow> string \<times> string" where
  "audit_key r = (ar_RequestID r, ar_Phase r)"

definition insert_audit :: "(audit_stmt, audit_row list) tx_env \<Rightarrow> audit_row \<Rightarrow> audit_row list \<Rightarrow> audit_row list \<times> (goerror + unit)" where
  "insert_audit env r t = (case te_exec env InsertAudit t of Some e \<Rightarrow> (t, Inl e)
     | None \<Rightarrow> if audit_key r \<in> audit_key ` set t then (t, Inl ErrUniqueViolation)
         else tx_commit (te_commit env) t (t @ [r], ()))"

definition default_kind :: "audit_row \<Rightarrow> audit_row" where
  "default_kind r = (if ar_TargetKind r = '''' then r \<lparr>ar_TargetKind := ''host''\<rparr> else r)"

definition InsertNodeAccessAudit :: "(audit_stmt, audit_row list) tx_env \<Rightarrow> audit_row \<Rightarrow> audit_row list \<Rightarrow> audit_row list \<times> (goerror + unit)" where
  "InsertNodeAccessAudit env event t =
    (if ar_RequestID event = '''' \<or> ar_Operator event = '''' \<or> ar_Hostname event = '''' \<or> ar_Operation event = ''''
     then (t, Inl (Plain ''node access audit requires request, operator, host, and operation''))
     else if ar_Phase event \<noteq> ''started'' \<and> ar_Phase event \<noteq> ''finished''
     then (t, Inl (Plain (''invalid node access audit phase '' @ ar_Phase event)))
     else let r = default_kind event in
       if ar_TargetKind r \<noteq> ''host'' \<and> ar_TargetKind r \<noteq> ''vm'' then (t, Inl (Plain (''invalid node access target kind '' @ ar_TargetKind r)))
       else insert_audit env r t)"

definition audit_row_of :: "auditEvent \<Rightarrow> audit_row" where
  "audit_row_of e = \<lparr>ar_RequestID = ev_RequestID e, ar_Phase = (if ev_Outcome e = ''started'' then ''started'' else ''finished''),
     ar_Operator = ev_Operator e, ar_Hostname = ev_Node e, ar_TargetKind = ev_TargetKind e, ar_Operation = ev_Operation e,
     ar_StartedAt = ev_StartedAt e, ar_EndedAt = (if time_is_zero (ev_EndedAt e) then None else Some (ev_EndedAt e)), ar_Outcome = ev_Outcome e\<rparr>"

definition RecordNodeAccess ::
  "goerror option \<Rightarrow> (audit_stmt, audit_row list) tx_env \<Rightarrow> auditEvent \<Rightarrow> audit_row list \<Rightarrow> audit_row list \<times> (goerror + unit)" where
  "RecordNodeAccess openErr env event t = (case openErr of Some e \<Rightarrow> (t, Inl e)
     | None \<Rightarrow> InsertNodeAccessAudit env (audit_row_of event) t)"

section \<open>Facts about the adapters\<close>

text \<open>What authorizes an operator, read off the rows.\<close>

definition operator_ok :: "adapter_world \<Rightarrow> string \<Rightarrow> string \<Rightarrow> operation \<Rightarrow> bool" where
  "operator_ok w credential who opn \<longleftrightarrow> aw_NewWithToken w credential = None \<and> who \<noteq> '''' \<and>
     (\<exists>pols. aw_LookupToken w credential = Inr (who, pols) \<and>
        (HasAdminPolicy pols (aw_admins w) \<or>
         aw_OpenStore w = None \<and> rb_migrated (aw_rbac w) \<and> rel_allows (rel_of (aw_rbac w)) who (access_grant opn)))"

lemma commands_by_rows:
  assumes "RBACCommandsForUser env db who = Inr m"
  shows "rb_migrated db \<and> (Authz.granted (Some m) ''*'' \<or> Authz.granted (Some m) c \<longleftrightarrow> rel_allows (rel_of db) who c)"
proof -
  have a: "answers env (SelectCommandsForUser who) db" and mig: "rb_migrated db"
    using assms by (auto simp: RBACCommandsForUser_def rbac_query_def answers_def no_rbac_def split: option.splits if_splits)
  obtain m' where "RBACCommandsForUser answering db who = Inr m'" "\<forall>c. Authz.granted (Some m') c \<longleftrightarrow> may db who c"
    using rows.commands_ready [OF mig] by blast
  with assms RBACCommandsForUser_answers [OF a] mig show ?thesis by (simp add: may_rel)
qed

lemma authorize_operator_sound:
  "authorize_operator w credential node opn = Inr who \<Longrightarrow> operator_ok w credential who opn"
  by (auto simp: authorize_operator_def go_bind_Inr operator_ok_def split: if_splits dest: commands_by_rows)

lemma authorize_operator_complete:
  assumes "operator_ok w credential who opn" "answers (aw_rbac_env w) (SelectCommandsForUser who) (aw_rbac w)"
  shows "authorize_operator w credential node opn = Inr who"
proof -
  obtain pols where p: "aw_NewWithToken w credential = None" "who \<noteq> ''''" "aw_LookupToken w credential = Inr (who, pols)"
    "HasAdminPolicy pols (aw_admins w) \<or> aw_OpenStore w = None \<and> rb_migrated (aw_rbac w) \<and> rel_allows (rel_of (aw_rbac w)) who (access_grant opn)"
    using assms(1) by (auto simp: operator_ok_def)
  show ?thesis
  proof (cases "HasAdminPolicy pols (aw_admins w)")
    case True
    with p(1-3) show ?thesis by (simp add: authorize_operator_def go_eval)
  next
    case False
    then have r: "aw_OpenStore w = None" "rb_migrated (aw_rbac w)" "rel_allows (rel_of (aw_rbac w)) who (access_grant opn)" using p(4) by auto
    then obtain m where m: "RBACCommandsForUser (aw_rbac_env w) (aw_rbac w) who = Inr m"
      using rows.commands_ready [OF r(2), of who] RBACCommandsForUser_answers [OF assms(2)] by auto
    with commands_by_rows [OF m, of "access_grant opn"] r p(1-3) False show ?thesis
      by (auto simp: authorize_operator_def go_eval)
  qed
qed

text \<open>What a node must be in the inventory.\<close>

definition node_ok :: "adapter_world \<Rightarrow> string \<Rightarrow> bool" where
  "node_ok w n \<longleftrightarrow>
     (\<exists>sv. map_of (db_servers (aw_farm w)) n = Some sv \<and> StateOrActive (is_State sv) = StateActive) \<or>
     (\<exists>k vm. (k, vm) \<in> set (db_instances (aw_farm w)) \<and> (n \<noteq> '''' \<longrightarrow> vm_InstanceID vm = n) \<and> vm_MissingSince vm = None \<and> vm_Status vm = ''ACTIVE'' \<and>
        vm_ObservedAt vm \<noteq> 0 \<and> time_sub (aw_now w) (vm_ObservedAt vm) \<le> 3 * hour \<and>
        (n \<noteq> '''' \<longrightarrow> (\<forall>k' vm'. (k', vm') \<in> set (db_instances (aw_farm w)) \<longrightarrow> vm_InstanceID vm' = n \<longrightarrow> (k', vm') = (k, vm))))"

lemma vm_filter_matches: "matches_filter like (vm_filter n) db (k, v) \<longleftrightarrow> (n \<noteq> '''' \<longrightarrow> vm_InstanceID v = n)"
  by (simp add: matches_filter_def vm_filter_def)

lemma authorize_vm_None: "authorize_vm now vms = None \<longleftrightarrow> (\<exists>vm. vms = [vm] \<and> vm_MissingSince vm = None \<and> vm_Status vm = ''ACTIVE'' \<and>
    vm_ObservedAt vm \<noteq> 0 \<and> time_sub now (vm_ObservedAt vm) \<le> 3 * hour)"
  by (auto simp: authorize_vm_def time_is_zero_def split: list.splits)

lemma instancesOn_single:
  assumes "instancesOn like env f db = Inr [vm]"
  shows "\<exists>k v. filter (matches_filter like f db) (db_instances db) = [(k, v)] \<and>
    vm_MissingSince vm = vm_MissingSince v \<and> vm_Status vm = vm_Status v \<and> vm_ObservedAt vm = vm_ObservedAt v"
proof -
  let ?xs = "order_instances (filter (matches_filter like f db) (db_instances db))"
  have m: "mset ?xs = mset (filter (matches_filter like f db) (db_instances db))" by (simp add: order_instances_def)
  from assms have "map (\<lambda>(k, v). v \<lparr>vm_Addresses := addresses_of db (vm_DeploymentID v, vm_InstanceID v)\<rparr>) ?xs = [vm]"
    by (auto simp: instancesOn_def go_bind_Inr Let_def split: if_splits)
  then obtain x where x: "?xs = [x]" "vm = (\<lambda>(k, v). v \<lparr>vm_Addresses := addresses_of db (vm_DeploymentID v, vm_InstanceID v)\<rparr>) x" by auto
  from x(1) m have "mset (filter (matches_filter like f db) (db_instances db)) = {#x#}" by simp
  then have "filter (matches_filter like f db) (db_instances db) = [x]" by (metis mset_single_iff_right)
  with x(2) show ?thesis by (cases x) auto
qed

lemma authorize_node_sound:
  assumes "authorize_node w n = None"
  shows "node_ok w n"
proof (cases "Get (aw_farm_env w) n (aw_farm w)")
  case (Inr host)
  then have "map_of (db_servers (aw_farm w)) n = Some host" by (simp add: Get_def go_bind_Inr)
  moreover have "StateOrActive (is_State host) = StateActive"
    using assms Inr by (simp add: authorize_node_def split: option.splits if_splits)
  ultimately show ?thesis by (simp add: node_ok_def)
next
  case (Inl e)
  with assms obtain vms where vms: "instancesOn (aw_like w) (aw_farm_env w) (vm_filter n) (aw_farm w) = Inr vms" "authorize_vm (aw_now w) vms = None"
    by (auto simp: authorize_node_def split: option.splits sum.splits)
  then obtain vm where vm: "vms = [vm]" "vm_MissingSince vm = None" "vm_Status vm = ''ACTIVE''" "vm_ObservedAt vm \<noteq> 0"
    "time_sub (aw_now w) (vm_ObservedAt vm) \<le> 3 * hour" by (auto simp: authorize_vm_None)
  obtain k v where kv: "filter (matches_filter (aw_like w) (vm_filter n) (aw_farm w)) (db_instances (aw_farm w)) = [(k, v)]"
      and eq: "vm_MissingSince vm = vm_MissingSince v" "vm_Status vm = vm_Status v" "vm_ObservedAt vm = vm_ObservedAt v"
    using instancesOn_single [OF vms(1) [unfolded vm(1)]] by blast
  have mem: "(k', v') \<in> set (db_instances (aw_farm w)) \<and> (n \<noteq> '''' \<longrightarrow> vm_InstanceID v' = n) \<longleftrightarrow> (k', v') = (k, v)" for k' v'
    using arg_cong [OF kv, of set] vm_filter_matches [of "aw_like w" n "aw_farm w" k' v'] by auto
  have one: "(k, v) \<in> set (db_instances (aw_farm w)) \<and> (n \<noteq> '''' \<longrightarrow> vm_InstanceID v = n)" using mem [of k v] by simp
  show ?thesis unfolding node_ok_def
  proof (rule disjI2, rule exI [of _ k], rule exI [of _ v], intro conjI)
    show "(k, v) \<in> set (db_instances (aw_farm w))" "n \<noteq> '''' \<longrightarrow> vm_InstanceID v = n" using one by blast+
    show "n \<noteq> '''' \<longrightarrow> (\<forall>k' vm'. (k', vm') \<in> set (db_instances (aw_farm w)) \<longrightarrow> vm_InstanceID vm' = n \<longrightarrow> (k', vm') = (k, v))"
      using mem by blast
  qed (use vm eq in simp_all)
qed

section \<open>The gateway with its adapters\<close>

text \<open>The audit calls of a step are acknowledged when each of them inserted its row; a call the step reports as failed leaves no
  event, and its row may have landed all the same.\<close>

fun acknowledged :: "gw_event list \<Rightarrow> audit_row list \<Rightarrow> audit_row list \<Rightarrow> bool" where
  "acknowledged [] t t' \<longleftrightarrow> t' = t"
| "acknowledged (e # es) t t' \<longleftrightarrow> (case e of T_Audit ev \<Rightarrow> \<exists>openErr env t1. RecordNodeAccess openErr env ev t = (t1, Inr ()) \<and> acknowledged es t1 t'
     | _ \<Rightarrow> acknowledged es t t')"

inductive deployed_step :: "hooks set \<Rightarrow> gw_state \<times> audit_row list \<Rightarrow> gw_state \<times> audit_row list \<Rightarrow> bool" for HS where
  handled: "gw_step HS s s' \<Longrightarrow> trace s' = trace s @ es \<Longrightarrow> acknowledged es t t' \<Longrightarrow> deployed_step HS (s, t) (s', t')"
| unreported: "deployed_step HS (s, t) (s, fst (RecordNodeAccess openErr env ev t))"

inductive deployed :: "adapter_world set \<Rightarrow> gw_state \<times> audit_row list \<Rightarrow> bool" for W where
  deployed_init: "gw_initial s \<Longrightarrow> deployed W (s, [])"
| deployed_next: "deployed W st \<Longrightarrow> deployed_step (adapter_hooks ` W) st st' \<Longrightarrow> deployed W st'"

inductive_cases deployed_stepE: "deployed_step HS st st'"

lemma deployed_reachable: "deployed W st \<Longrightarrow> gw_reachable (adapter_hooks ` W) (fst st)"
proof (induction rule: deployed.induct)
  case (deployed_next st st')
  from deployed_next.hyps(2) show ?case
    by cases (use deployed_next.IH in \<open>auto intro: reach_step\<close>)
qed (simp add: reach_init)

definition stored :: "auditEvent \<Rightarrow> audit_row" where
  "stored e = default_kind (audit_row_of e)"

lemma audit_key_stored: "audit_key (stored e) = (ev_RequestID e, if ev_Outcome e = ''started'' then ''started'' else ''finished'')"
  by (simp add: audit_key_def stored_def default_kind_def audit_row_of_def)

lemma RecordNodeAccess_outcome:
  "fst (RecordNodeAccess openErr env e t) = t \<or> audit_key (stored e) \<notin> audit_key ` set t \<and> fst (RecordNodeAccess openErr env e t) = t @ [stored e]"
  by (auto simp: RecordNodeAccess_def InsertNodeAccessAudit_def insert_audit_def stored_def tx_commit_def Let_def
      split: option.splits commit_outcome.splits)

lemma RecordNodeAccess_ok:
  assumes "RecordNodeAccess openErr env e t = (t', Inr ())"
  shows "audit_key (stored e) \<notin> audit_key ` set t \<and> t' = t @ [stored e]"
proof -
  have "t' \<noteq> t" using assms
    by (auto simp: RecordNodeAccess_def InsertNodeAccessAudit_def insert_audit_def tx_commit_def Let_def
        split: option.splits commit_outcome.splits if_splits)
  with RecordNodeAccess_outcome [of openErr env e t] assms show ?thesis by simp
qed

fun audits :: "gw_event list \<Rightarrow> auditEvent list" where
  "audits [] = []"
| "audits (e # es) = (case e of T_Audit ev \<Rightarrow> ev # audits es | _ \<Rightarrow> audits es)"

lemma audits_append [simp]: "audits (xs @ ys) = audits xs @ audits ys"
  by (induction xs) (auto split: gw_event.splits)

lemma audits_mem: "ev \<in> set (audits es) \<longleftrightarrow> T_Audit ev \<in> set es"
  by (induction es) (auto split: gw_event.splits)

text \<open>The table holds at most one row per request and phase, every acknowledged record among them, and so no two
  acknowledged records agree on request and phase.\<close>

definition audited :: "auditEvent list \<Rightarrow> audit_row list \<Rightarrow> bool" where
  "audited as t \<longleftrightarrow> distinct (map audit_key t) \<and> stored ` set as \<subseteq> set t \<and> distinct (map (audit_key \<circ> stored) as)"

lemma audited_insert:
  assumes "audited as t" "audit_key (stored e) \<notin> audit_key ` set t"
  shows "audited (as @ [e]) (t @ [stored e])" "audited as (t @ [stored e])"
proof -
  have "(audit_key \<circ> stored) ` set as \<subseteq> audit_key ` set t" using assms(1) by (auto simp: audited_def)
  with assms show "audited (as @ [e]) (t @ [stored e])" "audited as (t @ [stored e])" by (auto simp: audited_def)
qed

lemma audited_acknowledged: "acknowledged es t t' \<Longrightarrow> audited as t \<Longrightarrow> audited (as @ audits es) t'"
proof (induction es arbitrary: t as)
  case (Cons e es)
  show ?case
  proof (cases "\<exists>ev. e = T_Audit ev")
    case True
    then obtain ev where e: "e = T_Audit ev" ..
    with Cons.prems(1) obtain openErr env t1 where one: "RecordNodeAccess openErr env ev t = (t1, Inr ())" "acknowledged es t1 t'" by auto
    from RecordNodeAccess_ok [OF one(1)] audited_insert(1) [OF Cons.prems(2), of ev] have "audited (as @ [ev]) t1" by simp
    from Cons.IH [OF one(2) this] show ?thesis by (simp add: e)
  next
    case False
    then have "acknowledged es t t'" "audits (e # es) = audits es" using Cons.prems(1) by (auto split: gw_event.splits)
    with Cons.IH [OF _ Cons.prems(2)] show ?thesis by simp
  qed
qed simp

lemma deployed_audited: "deployed W st \<Longrightarrow> audited (audits (trace (fst st))) (snd st)"
proof (induction rule: deployed.induct)
  case (deployed_init s)
  then show ?case by (simp add: gw_initial_def audited_def)
next
  case (deployed_next st st')
  from deployed_next.hyps(2) show ?case
  proof cases
    case (handled s s' es t t')
    with audited_acknowledged [of es t t' "audits (trace s)"] deployed_next.IH show ?thesis by simp
  next
    case (unreported s t openErr env ev)
    with RecordNodeAccess_outcome [of openErr env ev t] deployed_next.IH audited_insert(2) [of "audits (trace s)" t ev] show ?thesis by auto
  qed
qed

lemma distinct_constant:
  assumes "distinct (map f xs)" "\<And>x. x \<in> set xs \<Longrightarrow> f x = c"
  shows "length xs \<le> 1"
  using assms by (cases xs; cases "tl xs") auto

lemma hooks_operator:
  "AuthorizeNodeAccess (adapter_hooks w) credential n opn = Some who \<Longrightarrow> operator_ok w credential who opn"
  by (auto simp: adapter_hooks_def split: sum.splits intro: authorize_operator_sound)

lemma hooks_node: "AuthorizeNode (adapter_hooks w) n \<Longrightarrow> node_ok w n"
  by (simp add: adapter_hooks_def authorize_node_sound)

section \<open>Reading a registered CA\<close>

text \<open>What is documented of \<^verbatim>\<open>pem.Decode\<close>: a block found is taken off the input.\<close>

definition decode_consumes :: "pem_lib \<Rightarrow> bool" where
  "decode_consumes lib \<longleftrightarrow> (\<forall>x b y. pl_Decode lib x = Some (b, y) \<longrightarrow> length y < length x)"

definition is_ca :: "ca_cert \<Rightarrow> bool" where
  "is_ca c \<longleftrightarrow> ca_BasicConstraintsValid c \<and> ca_IsCA c"

lemma ca_blocks_ends:
  assumes "decode_consumes lib" "\<forall>c \<in> set certs. is_ca c"
  shows "\<exists>r. ca_blocks lib rest certs = Some r \<and> (\<forall>cs. r = Inr cs \<longrightarrow> (\<forall>c \<in> set cs. is_ca c))"
  using assms(2)
proof (induction rest arbitrary: certs rule: measure_induct_rule [where f = length])
  case (less rest)
  show ?case
  proof (cases "pl_Decode lib rest")
    case None
    with less.prems show ?thesis by (simp add: ca_blocks.simps)
  next
    case (Some p)
    obtain b y where p: "p = (b, y)" by (cases p)
    show ?thesis
    proof (cases "fst b = ''CERTIFICATE'' \<and> (\<exists>c. pl_ParseCertificate lib (snd b) = Inr c \<and> is_ca c)")
      case True
      then obtain c where c: "fst b = ''CERTIFICATE''" "pl_ParseCertificate lib (snd b) = Inr c" "is_ca c" by blast
      have "length y < length rest" using assms(1) Some [unfolded p] unfolding decode_consumes_def by blast
      from less.IH [OF this, of "certs @ [c]"] less.prems c(3)
      obtain r where r: "ca_blocks lib y (certs @ [c]) = Some r" "\<forall>cs. r = Inr cs \<longrightarrow> (\<forall>c \<in> set cs. is_ca c)" by auto
      have "ca_blocks lib rest certs = ca_blocks lib y (certs @ [c])"
        using Some p c by (subst ca_blocks.simps) (simp add: is_ca_def)
      with r show ?thesis by simp
    next
      case False
      have "\<exists>e. ca_blocks lib rest certs = Some (Inl e)"
        using Some p False by (subst ca_blocks.simps) (auto simp: is_ca_def split: sum.splits)
      then show ?thesis by auto
    qed
  qed
qed

lemma keystoneRoots_ends:
  assumes "decode_consumes lib"
  shows "\<exists>r. keystoneRoots lib sys sre farmCA = Some r \<and> (\<forall>roots. r = Inr roots \<longrightarrow> (\<forall>c \<in> set roots.
    (\<exists>pool. sys = Inr (Some pool) \<and> c \<in> set pool) \<or> c \<in> set (pl_AppendCertsFromPEM lib sre) \<or> farmCA \<noteq> '''' \<and> is_ca c))"
proof -
  obtain r where r: "ca_blocks lib farmCA [] = Some r" "\<forall>cs. r = Inr cs \<longrightarrow> (\<forall>c \<in> set cs. is_ca c)"
    using ca_blocks_ends [OF assms, of "[]" farmCA] by auto
  have pool: "c \<in> set (case sys of Inr (Some pool) \<Rightarrow> pool | _ \<Rightarrow> []) \<Longrightarrow> \<exists>pool. sys = Inr (Some pool) \<and> c \<in> set pool" for c
    by (auto split: sum.splits option.splits)
  show ?thesis
    by (cases r) (use r in \<open>auto simp: keystoneRoots_def ParseKeystoneCA_def Let_def dest: pool\<close>)
qed

lemma registered_farm_Some:
  "registered_farm ds i = Some d \<Longrightarrow> d \<in> set ds \<and> dp_ID d = i \<and> dp_State d = ''active''"
  by (auto simp: registered_farm_def find_Some_iff)

lemma deploymentsOn_rows: "deploymentsOn env db = Inr ds \<Longrightarrow> set ds = snd ` set (db_deployments db)"
  by (force simp: deploymentsOn_def go_bind_Inr)

definition keystone_origin :: "url_lib \<Rightarrow> deployment \<Rightarrow> bool" where
  "keystone_origin ul d \<longleftrightarrow> (\<exists>u. url_Parse ul (if dp_KeystoneVerifyURL d \<noteq> '''' then dp_KeystoneVerifyURL d else ''https://'' @ dp_ID d) = Some u \<and>
     pu_Scheme u = ''https'' \<and> \<not> pu_User u \<and> pu_RawQuery u = '''' \<and> pu_Fragment u = '''' \<and>
     (dp_KeystoneVerifyURL d = '''' \<longrightarrow> pu_Host u = dp_ID d))"

lemma tokens_endpoint_origin: "tokens_endpoint ul (dp_ID d) (dp_KeystoneVerifyURL d) = Inr url \<Longrightarrow> keystone_origin ul d"
  by (auto simp: tokens_endpoint_def KeystoneTokensURL_def keystone_origin_def go_bind_Inr Let_def split: option.splits if_splits)

definition request_ok :: "url_lib \<Rightarrow> pem_lib \<Rightarrow> nova_world \<Rightarrow> string \<Rightarrow> string \<Rightarrow> token_request \<Rightarrow> bool" where
  "request_ok ul lib w i tok q \<longleftrightarrow> tr_AuthToken q = tok \<and> tr_SubjectToken q = tok \<and>
     (\<exists>d \<in> snd ` set (db_deployments (nw_farm w)). dp_ID d = i \<and> dp_State d = ''active'' \<and> keystone_origin ul d \<and>
        tokens_endpoint ul i (dp_KeystoneVerifyURL d) = Inr (tr_URL q) \<and>
        (\<forall>c \<in> set (tr_Roots q). (\<exists>pool. nw_SystemCertPool w = Inr (Some pool) \<and> c \<in> set pool) \<or>
           c \<in> set (pl_AppendCertsFromPEM lib (nw_SRERootCA w)) \<or> dp_KeystoneCAPEM d \<noteq> '''' \<and> is_ca c))"

lemma AuthenticateNova_cases:
  assumes "decode_consumes lib"
  shows "(\<exists>e. AuthenticateNova ul lib w i tok = Some ([], Some e)) \<or>
    (\<exists>q. request_ok ul lib w i tok q \<and> AuthenticateNova ul lib w i tok = Some ([q], check_token w q))"
proof -
  let ?early = "\<exists>e. AuthenticateNova ul lib w i tok = Some ([], Some e)"
  show ?thesis
  proof (rule disjCI)
    assume none: "\<not> (\<exists>q. request_ok ul lib w i tok q \<and> AuthenticateNova ul lib w i tok = Some ([q], check_token w q))"
    show ?early
    proof (rule ccontr)
      assume late: "\<not> ?early"
      then have good: "\<not> (trim_space tok = '''' \<or> CHR 0x0D \<in> set tok \<or> CHR 0x0A \<in> set tok)"
        by (auto simp: AuthenticateNova_def)
      have "nw_OpenStore w = None" using late good by (cases "nw_OpenStore w") (simp_all add: AuthenticateNova_def)
      note ok = good this
      obtain ds where ds: "deploymentsOn (nw_farm_env w) (nw_farm w) = Inr ds"
        using late ok by (cases "deploymentsOn (nw_farm_env w) (nw_farm w)") (simp_all add: AuthenticateNova_def)
      obtain d where d: "registered_farm ds i = Some d"
        using late ok ds by (cases "registered_farm ds i") (simp_all add: AuthenticateNova_def)
      obtain url where url: "tokens_endpoint ul i (dp_KeystoneVerifyURL d) = Inr url"
        using late ok ds d by (cases "tokens_endpoint ul i (dp_KeystoneVerifyURL d)") (simp_all add: AuthenticateNova_def)
      obtain rr where rr: "keystoneRoots lib (nw_SystemCertPool w) (nw_SRERootCA w) (dp_KeystoneCAPEM d) = Some rr"
        using keystoneRoots_ends [OF assms] by blast
      obtain roots where roots: "rr = Inr roots"
        using late ok ds d url rr by (cases rr) (simp_all add: AuthenticateNova_def)
      let ?q = "\<lparr>tr_URL = url, tr_Roots = roots, tr_AuthToken = tok, tr_SubjectToken = tok\<rparr>"
      have "AuthenticateNova ul lib w i tok = Some ([?q], check_token w ?q)"
        using late ok ds d url rr roots by (simp add: AuthenticateNova_def Let_def split: if_splits)
      moreover have "request_ok ul lib w i tok ?q"
        using registered_farm_Some [OF d] deploymentsOn_rows [OF ds] url tokens_endpoint_origin [of ul d url]
          keystoneRoots_ends [OF assms, of "nw_SystemCertPool w" "nw_SRERootCA w" "dp_KeystoneCAPEM d"] rr roots
        by (auto simp: request_ok_def)
      ultimately show False using none by blast
    qed
  qed
qed

section \<open>Properties\<close>

text \<open>C34: a request that reaches an agent is backed by rows. Whatever the inventory, the grants, Vault and the clock were at each
  call of the deployed gateway, and whichever audit writes were lost, a dispatch of a request to a node means: the
  audit table has one row, and no other, that says the request was started, naming the node, the operation and the operator;
  the operator presented a token of that identity that carried an admin policy, or the identity was in a group granted
  node access (for a shell: node shells) or everything; the node was an active host of the inventory, or the one VM of its
  identity, active, not missing and seen in the last three hours; and the gateway holds one acknowledged start record of
  the request in all its run, so no second request under the same identifier was started.\<close>

theorem deployed_dispatch_is_backed_by_rows:
  assumes st: "deployed W (s, t)" and tr: "trace s = xs @ T_Dispatch n r # ys"
  shows "\<exists>row \<in> set t. audit_key row = (rq_ID r, ''started'') \<and> ar_Hostname row = n \<and> ar_Operation row = rq_Operation r \<and>
      (\<forall>row' \<in> set t. audit_key row' = audit_key row \<longrightarrow> row' = row) \<and>
      (\<exists>w \<in> W. \<exists>credential. operator_ok w credential (ar_Operator row) (rq_Operation r)) \<and> (\<exists>w \<in> W. node_ok w n) \<and>
      length (filter (\<lambda>a. ev_RequestID a = rq_ID r \<and> ev_Outcome a = ''started'') (audits (trace s))) = 1"
proof -
  have reach: "gw_reachable (adapter_hooks ` W) s" using deployed_reachable [OF st] by simp
  have aud: "audited (audits (trace s)) t" using deployed_audited [OF st] by simp
  from reachable_just [OF reach tr] obtain a where a: "T_Audit a \<in> set xs" "ev_Outcome a = ''started''" "ev_Node a = n"
      "ev_RequestID a = rq_ID r" "ev_Operation a = rq_Operation r" "T_Operator (ev_Operator a) n (rq_Operation r) \<in> set xs"
    and node: "\<exists>H \<in> adapter_hooks ` W. AuthorizeNode H n"
    by (auto simp: dispatchable_def)
  from reachable_just_past [OF reach tr a(6)] obtain w credential where
    "w \<in> W" "AuthorizeNodeAccess (adapter_hooks w) credential n (rq_Operation r) = Some (ev_Operator a)" by auto
  then have op: "\<exists>w \<in> W. \<exists>credential. operator_ok w credential (ev_Operator a) (rq_Operation r)" using hooks_operator by blast
  have mem: "a \<in> set (audits (trace s))" using a(1) tr by (simp add: audits_mem)
  then have row: "stored a \<in> set t" using aud by (auto simp: audited_def)
  have f: "ar_Operator (stored a) = ev_Operator a" "ar_Hostname (stored a) = ev_Node a" "ar_Operation (stored a) = ev_Operation a"
    by (simp_all add: stored_def default_kind_def audit_row_of_def)
  have uniq: "\<forall>row' \<in> set t. audit_key row' = audit_key (stored a) \<longrightarrow> row' = stored a"
    using aud row by (auto simp: audited_def distinct_map inj_on_def)
  let ?P = "\<lambda>a. ev_RequestID a = rq_ID r \<and> ev_Outcome a = ''started''"
  have "distinct (map (audit_key \<circ> stored) (filter ?P (audits (trace s))))"
    using aud by (simp add: audited_def distinct_map_filter)
  moreover have "(audit_key \<circ> stored) b = (rq_ID r, ''started'')" if "b \<in> set (filter ?P (audits (trace s)))" for b
    using that by (simp add: audit_key_stored)
  ultimately have "length (filter ?P (audits (trace s))) \<le> 1" by (rule distinct_constant)
  moreover have "filter ?P (audits (trace s)) \<noteq> []" using mem a(2,4) by (auto simp: filter_empty_conv)
  ultimately have "length (filter ?P (audits (trace s))) = 1" by (cases "filter ?P (audits (trace s))") auto
  moreover have "\<exists>w \<in> W. node_ok w n" using node hooks_node by blast
  moreover have "audit_key (stored a) = (rq_ID r, ''started'')" using a(2,4) by (simp add: audit_key_stored)
  ultimately show ?thesis
    by (intro bexI [OF _ row] conjI uniq) (use op f a(3,5) in simp_all)
qed

definition demo_servers_db :: farm_db where
  "demo_servers_db = \<lparr>db_servers = [(''n1'', \<lparr>is_DC = ''icn'', is_State = '''', is_IP = ''10.0.0.1''\<rparr>)], db_caps = [], db_pass_seq = 0, db_members = [],
     db_deployments = [(''k.example:5000'', \<lparr>dp_ID = ''k.example:5000'', dp_DisplayName = ''k'', dp_Region = '''', dp_KeystoneURL = '''', dp_HorizonURL = '''',
        dp_KeystoneCAPEM = ''c'', dp_KeystoneVerifyURL = '''', dp_State = ''active'', dp_StateNote = '''', dp_StateChangedAt = None\<rparr>)],
     db_runs = [], db_ghosts = [], db_instances = [], db_addresses = []\<rparr>"

definition quiet_farm :: farm_env where
  "quiet_farm = \<lparr>te_begin = None, te_exec = (\<lambda>_ _. None), te_commit = Committed\<rparr>"

definition node_group_db :: rbac_db where
  "node_group_db = fst (run_ops [(answering, 1, OpUpsert ''nodes'' ''''), (answering, 2, OpMember ''nodes'' ''alice''), (answering, 3, OpGrant ''nodes'' ''node-access'')]
     (fresh_rbac \<lparr>rb_migrated := True\<rparr>))"

definition demo_adapters :: adapter_world where
  "demo_adapters = \<lparr>aw_NewWithToken = (\<lambda>_. None), aw_LookupToken = (\<lambda>_. Inr (''alice'', [''default''])), aw_admins = [''vctl-admin''], aw_OpenStore = None,
     aw_rbac_env = answering, aw_rbac = node_group_db, aw_farm_env = quiet_farm, aw_farm = demo_servers_db, aw_like = (\<lambda>_ _ _. False), aw_now = 10\<rparr>"

lemma demo_operator: "AuthorizeNodeAccess (adapter_hooks demo_adapters) c n ''containers.list'' = Some ''alice''"
proof -
  have "operator_ok demo_adapters c ''alice'' ''containers.list''"
  proof -
    have "rb_migrated node_group_db" "(''nodes'', ''alice'') \<in> rel_member (rel_of node_group_db)" "(''nodes'', ''node-access'') \<in> rel_grant (rel_of node_group_db)"
      by code_simp+
    then show ?thesis by (auto simp: operator_ok_def demo_adapters_def rel_allows_def access_grant_def OperationShellSession_def)
  qed
  then show ?thesis
    by (simp add: adapter_hooks_def authorize_operator_complete) (simp add: authorize_operator_complete answers_def demo_adapters_def answering_def)
qed

lemma demo_node: "AuthorizeNode (adapter_hooks demo_adapters) ''n1''"
  by code_simp

text \<open>A session of the gateway with these adapters: registered, recorded, queued and handed to the agent of the node.\<close>

definition demo_dispatched :: gw_state where
  "demo_dispatched = fst (the (poll_take (queued empty_state) ''n1''))"

lemma demo_admitted:
  "startSession_admit (adapter_hooks demo_adapters) (Some (''n1'', listing_request)) sample_hr 10 = Inr (''n1'', listing_request, ''alice'')"
proof -
  have "rq_Operation listing_request = ''containers.list''" by (simp add: listing_request_def)
  then show ?thesis
    using listing_request_valid demo_operator demo_node
    by (simp add: startSession_admit_def n1_uri sample_hr_def bearer_def has_prefix_def trim_prefix_def trim_space_def
        trim_right_def is_space_def)
qed

lemma demo_poll: "poll_admit (adapter_hooks demo_adapters) no_lib None sample_hr = Inr ''n1''"
  using demo_node by (simp add: poll_admit_def sample_identity)

definition demo_start :: auditEvent where
  "demo_start = start_event ''request-1'' ''alice'' ''n1'' ''containers.list'' 10"

lemma demo_recorded: "\<exists>env. RecordNodeAccess None env demo_start [] = ([stored demo_start], Inr ())"
  by (rule exI [of _ "\<lparr>te_begin = None, te_exec = (\<lambda>_ _. None), te_commit = Committed\<rparr>"]) code_simp

lemma demo_deployed: "deployed {demo_adapters} (demo_dispatched, [stored demo_start])"
proof -
  let ?HS = "adapter_hooks ` {demo_adapters}"
  let ?s1 = "case startSession_register empty_state ''n1'' listing_request ''alice'' 10 of Inr s \<Rightarrow> s | Inl _ \<Rightarrow> empty_state"
  let ?s2 = "record_start ?s1 0 True"
  let ?s3 = "enqueue ?s2 0"
  note defs = startSession_register_def maxInFlight_def record_start_def run_defs
  have st: "?s1 \<noteq> empty_state" "trace ?s1 = trace empty_state @ [T_Operator ''alice'' ''n1'' ''containers.list'', T_Node ''n1'']"
    "trace ?s2 = trace ?s1 @ [T_Audit demo_start]" "trace ?s3 = trace ?s2 @ []" "?s3 = queued empty_state"
    "trace demo_dispatched = trace ?s3 @ [T_Dispatch ''n1'' listing_request]"
    "poll_take ?s3 ''n1'' = Some (demo_dispatched, listing_request)"
    by (simp_all add: defs demo_start_def demo_dispatched_def)
  have d0: "deployed {demo_adapters} (empty_state, [])"
    by (rule deployed_init) (simp add: gw_initial_def empty_state_def NewGateway_def)
  have reg: "startSession_register empty_state ''n1'' listing_request ''alice'' 10 = Inr ?s1" by (simp add: defs)
  have d1: "deployed {demo_adapters} (?s1, [])"
    by (rule deployed_next [OF d0 handled [OF step_start [OF _ demo_admitted reg] st(2)]]) simp_all
  have d2: "deployed {demo_adapters} (?s2, [stored demo_start])"
    by (rule deployed_next [OF d1 handled [OF step_record st(3)]]) (use demo_recorded in \<open>auto simp: defs\<close>)
  have d3: "deployed {demo_adapters} (?s3, [stored demo_start])"
    by (rule deployed_next [OF d2 handled [OF step_enqueue st(4)]]) (simp_all add: defs enqueue_ready_def)
  show ?thesis
    by (rule deployed_next [OF d3 handled [OF step_dispatch [OF _ demo_poll st(7)] st(6)]]) simp_all
qed

theorem deployed_dispatch_is_backed_by_rows_witness:
  "T_Dispatch ''n1'' listing_request \<in> set (trace demo_dispatched) \<and> operator_ok demo_adapters ''t'' ''alice'' ''containers.list'' \<and>
   (\<exists>row \<in> set [stored demo_start]. audit_key row = (''request-1'', ''started'') \<and> (\<exists>w \<in> {demo_adapters}. node_ok w ''n1''))"
proof -
  have tr: "trace demo_dispatched = [T_Operator ''alice'' ''n1'' ''containers.list'', T_Node ''n1'', T_Audit demo_start] @ T_Dispatch ''n1'' listing_request # []"
    by (simp add: demo_dispatched_def run_defs demo_start_def)
  have "rq_ID listing_request = ''request-1''" by (simp add: listing_request_def)
  with deployed_dispatch_is_backed_by_rows [OF demo_deployed tr] hooks_operator [OF demo_operator, of "''t''"] tr show ?thesis by auto
qed

text \<open>C35: Nova's service token goes to the Keystone of the farm and nowhere else. With a PEM decoder that consumes what it
  decodes, validating a token always ends; it sends at most one request, and only for a farm that is registered and
  active, to the token endpoint of an https origin without credentials, query or fragment, which is the address the farm is registered
  under unless the operator registered another; the connection is verified against the system pool, the embedded
  root and CA certificates registered for that farm only; and the token is accepted only when that Keystone answered 200
  with a token that has not expired, of the Nova service user, in a project, with the admin role.\<close>

theorem service_token_goes_to_the_farm:
  assumes "decode_consumes lib"
  shows "\<exists>sent err. AuthenticateNova ul lib w i tok = Some (sent, err) \<and> length sent \<le> 1 \<and>
    (\<forall>q \<in> set sent. request_ok ul lib w i tok q) \<and>
    (err = None \<longrightarrow> (\<exists>q t. sent = [q] \<and> nw_Do w q = Inr (200, Some t) \<and> nova_identity w t))"
  using AuthenticateNova_cases [OF assms, of ul w i tok]
proof (elim disjE exE conjE)
  fix q assume q: "request_ok ul lib w i tok q" "AuthenticateNova ul lib w i tok = Some ([q], check_token w q)"
  have "\<exists>t. nw_Do w q = Inr (200, Some t) \<and> nova_identity w t" if "check_token w q = None"
    using that by (auto simp: check_token_def split: sum.splits if_splits option.splits)
  with q show ?thesis by auto
qed auto

definition demo_pem :: pem_lib where
  "demo_pem = \<lparr>pl_Decode = (\<lambda>x. case x of [] \<Rightarrow> None | c # cs \<Rightarrow> Some ((''CERTIFICATE'', [c]), cs)),
     pl_ParseCertificate = (\<lambda>b. Inr \<lparr>ca_Subject = b, ca_BasicConstraintsValid = True, ca_IsCA = True, ca_Raw = b\<rparr>), pl_AppendCertsFromPEM = (\<lambda>_. [])\<rparr>"

definition demo_url_lib :: url_lib where
  "demo_url_lib = \<lparr>url_Parse = (\<lambda>s. Some \<lparr>pu_Scheme = ''https'', pu_Opaque = '''', pu_User = False, pu_Host = take 14 (drop 8 s), pu_Hostname = '''',
     pu_Path = drop 22 s, pu_RawQuery = '''', pu_Fragment = ''''\<rparr>), url_String = (\<lambda>u. ''https://'' @ pu_Host u @ pu_Path u), ip_String = (\<lambda>_. '''')\<rparr>"

definition demo_nova :: nova_world where
  "demo_nova = \<lparr>nw_OpenStore = None, nw_farm_env = quiet_farm, nw_farm = demo_servers_db, nw_SystemCertPool = Inr None, nw_SRERootCA = '''',
     nw_Do = (\<lambda>q. Inr (200, Some \<lparr>kt_ExpiresAt = '''', kt_User = ''nova'', kt_Project = ''service'', kt_Roles = [''admin'']\<rparr>)),
     nw_username = '''', nw_ParseTime = (\<lambda>_. Some 100), nw_now = 10\<rparr>"

theorem service_token_goes_to_the_farm_witness:
  "\<exists>q. AuthenticateNova demo_url_lib demo_pem demo_nova ''k.example:5000'' ''tok'' = Some ([q], None) \<and>
     tr_URL q = ''https://k.example:5000/v3/auth/tokens'' \<and> map ca_Raw (tr_Roots q) = [''c''] \<and>
     request_ok demo_url_lib demo_pem demo_nova ''k.example:5000'' ''tok'' q"
proof -
  let ?c = "\<lparr>ca_Subject = ''c'', ca_BasicConstraintsValid = True, ca_IsCA = True, ca_Raw = ''c''\<rparr>"
  let ?q = "\<lparr>tr_URL = ''https://k.example:5000/v3/auth/tokens'', tr_Roots = [?c], tr_AuthToken = ''tok'', tr_SubjectToken = ''tok''\<rparr>"
  have consumes: "decode_consumes demo_pem" by (simp add: decode_consumes_def demo_pem_def split: list.splits)
  let ?d = "snd (hd (db_deployments demo_servers_db))"
  have roots: "keystoneRoots demo_pem (Inr None) '''' ''c'' = Some (Inr [?c])"
    by (simp add: keystoneRoots_def ParseKeystoneCA_def ca_blocks.simps demo_pem_def)
  have world: "nw_OpenStore demo_nova = None" "nw_farm_env demo_nova = quiet_farm" "nw_farm demo_nova = demo_servers_db"
    "nw_SystemCertPool demo_nova = Inr None" "nw_SRERootCA demo_nova = ''''" by (simp_all add: demo_nova_def)
  have farm: "deploymentsOn quiet_farm demo_servers_db = Inr [?d]" by code_simp
  have reg: "registered_farm [?d] ''k.example:5000'' = Some ?d" by code_simp
  have d: "dp_KeystoneVerifyURL ?d = ''''" "dp_KeystoneCAPEM ?d = ''c''" by code_simp+
  have url: "tokens_endpoint demo_url_lib ''k.example:5000'' '''' = Inr (tr_URL ?q)" by code_simp
  have parses: "url_Parse demo_url_lib (tr_URL ?q) \<noteq> None" by code_simp
  have tok: "\<not> (trim_space ''tok'' = '''' \<or> CHR 0x0D \<in> set ''tok'' \<or> CHR 0x0A \<in> set ''tok'')" by code_simp
  have ans: "check_token demo_nova ?q = None" by code_simp
  have run: "AuthenticateNova demo_url_lib demo_pem demo_nova ''k.example:5000'' ''tok'' = Some ([?q], None)"
    unfolding AuthenticateNova_def world if_not_P [OF tok] using farm reg d url roots parses ans by (simp add: Let_def)
  with service_token_goes_to_the_farm [OF consumes, of demo_url_lib demo_nova "''k.example:5000''" "''tok''"]
  show ?thesis by auto
qed

end
