(* ===== verification/Dns_Hosts.thy ===== *)
theory Dns_Hosts
  imports Go_Prelude
begin

text \<open>
  \<^verbatim>\<open>internal/dnshosts/dnshosts.go\<close>: the hosts-file dialect of the fleet's DNS records, the zones the Corefile binds to
  files, and the repository file that carries them. Text is bytes, with the white space of Unicode; padding counts the bytes of an
  address, which are its characters when it is ASCII.

  What \<^verbatim>\<open>netip.ParseAddr\<close> and \<^verbatim>\<open>Addr.String\<close> make of an address is a parameter, the canonical spelling of what parses; the
  YAML decoder is one too. The lemmas relate every edit of a file to the records read from it: adding appends one record,
  removing takes a name out of every record and leaves the rest in place, and a zone is the longest that fits in any map order.
\<close>

definition nl :: char where "nl = CHR 0x0A"

section \<open>White space\<close>

text \<open>\<^verbatim>\<open>strings.Fields\<close> and \<^verbatim>\<open>strings.TrimSpace\<close> go by \<^verbatim>\<open>unicode.IsSpace\<close>: beside the six ASCII characters the code points
  \<^verbatim>\<open>U+0085\<close>, \<^verbatim>\<open>U+00A0\<close>, \<^verbatim>\<open>U+1680\<close>, \<^verbatim>\<open>U+2000\<close> to \<^verbatim>\<open>U+200A\<close>, \<^verbatim>\<open>U+2028\<close>, \<^verbatim>\<open>U+2029\<close>, \<^verbatim>\<open>U+202F\<close>, \<^verbatim>\<open>U+205F\<close> and \<^verbatim>\<open>U+3000\<close>. Text is
  bytes, so one of those is an encoding of two or three bytes. Its first byte opens an encoding wherever it stands, so decoding from
  the left meets exactly the occurrences, in malformed text as well.\<close>

definition space2 :: "char \<Rightarrow> char \<Rightarrow> bool" where
  "space2 a b \<longleftrightarrow> a = CHR 0xC2 \<and> b \<in> {CHR 0x85, CHR 0xA0}"

definition space3 :: "char \<Rightarrow> char \<Rightarrow> char \<Rightarrow> bool" where
  "space3 a b c \<longleftrightarrow> a = CHR 0xE1 \<and> b = CHR 0x9A \<and> c = CHR 0x80 \<or>
     a = CHR 0xE2 \<and> b = CHR 0x80 \<and> c \<in> {CHR 0x80, CHR 0x81, CHR 0x82, CHR 0x83, CHR 0x84, CHR 0x85, CHR 0x86, CHR 0x87,
       CHR 0x88, CHR 0x89, CHR 0x8A, CHR 0xA8, CHR 0xA9, CHR 0xAF} \<or>
     a = CHR 0xE2 \<and> b = CHR 0x81 \<and> c = CHR 0x9F \<or> a = CHR 0xE3 \<and> b = CHR 0x80 \<and> c = CHR 0x80"

fun wide_space :: "string \<Rightarrow> nat" where
  \<comment> \<open>how many bytes of space beyond ASCII the text begins with\<close>
  "wide_space (a # b # c # s) = (if space2 a b then 2 else if space3 a b c then 3 else 0)"
| "wide_space [a, b] = (if space2 a b then 2 else 0)"
| "wide_space _ = 0"

fun ascii_spaces :: "string \<Rightarrow> string" where
  "ascii_spaces [] = []"
| "ascii_spaces (c # s) = (case wide_space (c # s) of 0 \<Rightarrow> c # ascii_spaces s | Suc n \<Rightarrow> CHR '' '' # ascii_spaces (drop n s))"

definition Fields :: "string \<Rightarrow> string list" where
  "Fields s = Go_Prelude.fields (ascii_spaces s)"

fun trim_left_space :: "string \<Rightarrow> string" where
  "trim_left_space [] = []"
| "trim_left_space (c # s) = (if is_space c then trim_left_space s
     else case wide_space (c # s) of 0 \<Rightarrow> c # s | Suc n \<Rightarrow> trim_left_space (drop n s))"

definition ends_in_wide :: "string \<Rightarrow> nat \<Rightarrow> bool" where
  "ends_in_wide r n = (length r \<ge> n \<and> wide_space (rev (take n r)) = n)"

fun trim_right_space :: "string \<Rightarrow> string" where
  \<comment> \<open>of the text reversed\<close>
  "trim_right_space [] = []"
| "trim_right_space (c # r) = (if is_space c then trim_right_space r
     else if ends_in_wide (c # r) 2 then trim_right_space (drop 1 r)
     else if ends_in_wide (c # r) 3 then trim_right_space (drop 2 r)
     else c # r)"

definition TrimSpace :: "string \<Rightarrow> string" where
  "TrimSpace s = rev (trim_right_space (rev (trim_left_space s)))"

section \<open>Records\<close>

type_synonym netip = "string \<Rightarrow> string option" \<comment> \<open>the canonical spelling of an address\<close>

record host_record =
  hr_IP :: string
  hr_Hostnames :: "string list"

definition Namespace :: string where "Namespace = ''dns-system''"
definition ConfigMapName :: string where "ConfigMapName = ''coredns-hosts''"

definition parse_line :: "netip \<Rightarrow> string \<Rightarrow> host_record list" where
  "parse_line na line = (case Fields line of
     f # g # gs \<Rightarrow> if has_prefix f ''#'' \<or> na f = None then [] else [\<lparr>hr_IP = f, hr_Hostnames = g # gs\<rparr>]
   | _ \<Rightarrow> [])"

definition hosts_Parse :: "netip \<Rightarrow> string \<Rightarrow> host_record list" where
  "hosts_Parse na txt = concat (map (parse_line na) (split_on nl txt))"

fun lookup_record :: "host_record list \<Rightarrow> string \<Rightarrow> string option" where
  "lookup_record [] h = None"
| "lookup_record (r # rs) h = (if h \<in> set (hr_Hostnames r) then Some (hr_IP r) else lookup_record rs h)"

definition hosts_Lookup :: "netip \<Rightarrow> string \<Rightarrow> string \<Rightarrow> string option" where
  "hosts_Lookup na txt h = lookup_record (hosts_Parse na txt) h"

definition RecordCount :: "netip \<Rightarrow> (string, string) gomap \<Rightarrow> nat" where
  "RecordCount na data = sum_list (map (\<lambda>(k, txt). length (hosts_Parse na txt)) data)"

definition pad20 :: "string \<Rightarrow> string" where
  \<comment> \<open>\<^verbatim>\<open>%-20s\<close>\<close>
  "pad20 s = s @ replicate (20 - length s) CHR '' ''"

definition record_line :: "string \<Rightarrow> string list \<Rightarrow> string" where
  "record_line ip names = pad20 ip @ '' '' @ join_with '' '' names"

definition bad_host_char :: "char \<Rightarrow> bool" where
  "bad_host_char c = (c \<in> {CHR '' '', CHR 0x09, CHR 0x0A, CHR 0x0D, CHR 0x0B, CHR 0x0C, CHR ''#''})"

definition hosts_Add :: "netip \<Rightarrow> string \<Rightarrow> string \<Rightarrow> string \<Rightarrow> goerror + string" where
  "hosts_Add na txt ip hostname = (case na ip of None \<Rightarrow> Inl (Plain (ip @ '' is not an IP address''))
     | Some addr \<Rightarrow>
         if hostname = '''' \<or> list_ex bad_host_char hostname then Inl (Plain (hostname @ '' is not a hostname''))
         else (case hosts_Lookup na txt hostname of Some have' \<Rightarrow> Inl (Plain (hostname @ '' already answers with '' @ have'))
           | None \<Rightarrow> let line = record_line addr [hostname]; out = trim_right (\<lambda>c. c = nl) txt in
               Inr (if out = '''' then line @ [nl] else out @ [nl] @ line @ [nl])))"

text \<open>One line of \<open>Remove\<close>: what replaces it, and whether the name was on it.\<close>

definition remove_line :: "string \<Rightarrow> string \<Rightarrow> string list \<times> bool" where
  "remove_line hostname line = (case Fields line of
     f # g # gs \<Rightarrow>
       if has_prefix f ''#'' then ([line], False)
       else (let keep = filter (\<lambda>h. h \<noteq> hostname) (g # gs) in
         if length keep = length (g # gs) then ([line], False)
         else if keep \<noteq> [] then ([record_line f keep], True)
         else ([], True))
   | _ \<Rightarrow> ([line], False))"

definition hosts_Remove :: "string \<Rightarrow> string \<Rightarrow> string \<times> bool" where
  "hosts_Remove txt hostname =
    (let rs = map (remove_line hostname) (split_on nl (trim_right (\<lambda>c. c = nl) txt)) in
     if \<not> list_ex snd rs then (txt, False)
     else let out = join_with [nl] (concat (map fst rs)) in (if out \<noteq> '''' then out @ [nl] else out, True))"

section \<open>Zones\<close>

definition cut_suffix :: "string \<Rightarrow> string \<Rightarrow> string option" where
  "cut_suffix s p = (if length p \<le> length s \<and> drop (length s - length p) s = p then Some (take (length s - length p) s) else None)"

definition has_suffix :: "string \<Rightarrow> string \<Rightarrow> bool" where
  "has_suffix s p = (cut_suffix s p \<noteq> None)"

definition bind_line :: "string \<times> (string, string) gomap \<Rightarrow> string \<Rightarrow> string \<times> (string, string) gomap" where
  "bind_line zo line = (case zo of (zone, out) \<Rightarrow>
     let t = TrimSpace line in
     if \<not> has_suffix t ''{'' then (zone, out)
     else let head = TrimSpace (trim_suffix t ''{'') in
       (case cut_suffix head '':53'' of Some z \<Rightarrow> (z, out)
        | None \<Rightarrow>
            if has_prefix head ''hosts '' \<and> zone \<noteq> ''''
            then (case Fields head of _ # p # _ \<Rightarrow> (case last_index (CHR ''/'') p of
                    Some i \<Rightarrow> (zone, AList.update zone (drop (Suc i) p) out) | None \<Rightarrow> (zone, out))
                  | _ \<Rightarrow> (zone, out))
            else (zone, out)))"

definition ZoneBindings :: "string \<Rightarrow> (string, string) gomap" where
  "ZoneBindings corefile = snd (foldl bind_line ('''', []) (split_on nl corefile))"

definition zone_fits :: "string \<Rightarrow> string \<Rightarrow> bool" where
  "zone_fits hostname z \<longleftrightarrow> hostname = z \<or> has_suffix hostname (''.'' @ z)"

definition better_zone :: "string \<Rightarrow> string \<Rightarrow> string \<Rightarrow> string" where
  "better_zone hostname best z = (if z = ''.'' then best else if zone_fits hostname z \<and> length best < length z then z else best)"

definition bound :: "(string, string) gomap \<Rightarrow> string \<Rightarrow> string" where
  "bound m z = (case map_of m z of None \<Rightarrow> '''' | Some k \<Rightarrow> k)"

definition ZoneKeyFor :: "string \<Rightarrow> (string, string) gomap \<Rightarrow> string \<times> string" where
  "ZoneKeyFor hostname bindings = (let best = foldl (better_zone hostname) '''' (map fst bindings) in
     if best \<noteq> '''' then (best, bound bindings best) else (''.'', bound bindings ''.''))"

section \<open>The repository file\<close>

definition canonicalKeyOrder :: "string list" where
  "canonicalKeyOrder = [''innogrid.hosts'', ''sre.hosts'', ''misc.hosts'']"

definition OrderedKeys :: "(string, string) gomap \<Rightarrow> string list" where
  "OrderedKeys data = filter (\<lambda>k. map_of data k \<noteq> None) canonicalKeyOrder @ sort (filter (\<lambda>k. k \<notin> set canonicalKeyOrder) (map fst data))"

record configMapDoc =
  cd_Kind :: string
  cd_Name :: string
  cd_Namespace :: string
  cd_Data :: "(string, string) gomap"

definition normal_zone :: "string \<Rightarrow> string" where
  "normal_zone v = (if TrimSpace v = '''' then '''' else trim_right (\<lambda>c. c = nl) v @ [nl])"

definition ParseConfigMapYAML :: "(string \<Rightarrow> goerror + configMapDoc) \<Rightarrow> string \<Rightarrow> goerror + (string, string) gomap" where
  "ParseConfigMapYAML yaml y = (case yaml y of Inl e \<Rightarrow> Inl (Wrapf ''not valid YAML'' e)
     | Inr doc \<Rightarrow>
         if cd_Kind doc \<noteq> ''ConfigMap'' \<or> cd_Name doc \<noteq> ConfigMapName \<or> cd_Namespace doc \<noteq> Namespace
         then Inl (Plain (''not the '' @ Namespace @ ''/'' @ ConfigMapName @ '' ConfigMap (got kind '' @ cd_Kind doc @
           '', '' @ cd_Namespace doc @ ''/'' @ cd_Name doc @ '')''))
         else Inr (map (\<lambda>(k, v). (k, normal_zone v)) (cd_Data doc)))"

definition comment_target :: string where
  "comment_target =
    [CHR 0x23, CHR 0x20, CHR 0x41, CHR 0x50, CHR 0x49, CHR 0xEA, CHR 0xB0, CHR 0x80, CHR 0x20, CHR 0xEC, CHR 0x88, CHR 0x98,
     CHR 0xEC, CHR 0xA0, CHR 0x95, CHR 0xED, CHR 0x95, CHR 0x98, CHR 0xEB, CHR 0x8A, CHR 0x94, CHR 0x20, CHR 0xEB, CHR 0x8C,
     CHR 0x80, CHR 0xEC, CHR 0x83, CHR 0x81, CHR 0x20, CHR 0xE2, CHR 0x80, CHR 0x94, CHR 0x20, CHR 0xEB, CHR 0xA0, CHR 0x88,
     CHR 0xEC, CHR 0xBD, CHR 0x94, CHR 0xEB, CHR 0x93, CHR 0x9C, CHR 0x20, CHR 0xEC, CHR 0xB6, CHR 0x94, CHR 0xEA, CHR 0xB0,
     CHR 0x80, CHR 0x2F, CHR 0xEC, CHR 0x82, CHR 0xAD, CHR 0xEC, CHR 0xA0, CHR 0x9C, CHR 0x2F, CHR 0xEC, CHR 0xA1, CHR 0xB0,
     CHR 0xED, CHR 0x9A, CHR 0x8C]"

definition comment_mount :: string where
  "comment_mount =
    [CHR 0x23, CHR 0x20, CHR 0xED, CHR 0x82, CHR 0xA4, CHR 0x20, CHR 0xEC, CHR 0x9D, CHR 0xB4, CHR 0xEB, CHR 0xA6, CHR 0x84,
     CHR 0x20, CHR 0x3D, CHR 0x20, CHR 0xED, CHR 0x8C, CHR 0x8C, CHR 0xEC, CHR 0x9D, CHR 0xBC, CHR 0xEB, CHR 0xAA, CHR 0x85,
     CHR 0xEC, CHR 0x9C, CHR 0xBC, CHR 0xEB, CHR 0xA1, CHR 0x9C, CHR 0x20, CHR 0x2F, CHR 0x65, CHR 0x74, CHR 0x63, CHR 0x2F,
     CHR 0x63, CHR 0x6F, CHR 0x72, CHR 0x65, CHR 0x64, CHR 0x6E, CHR 0x73, CHR 0x2F, CHR 0x68, CHR 0x6F, CHR 0x73, CHR 0x74,
     CHR 0x73, CHR 0x2F, CHR 0x20, CHR 0xEC, CHR 0x97, CHR 0x90, CHR 0x20, CHR 0xEB, CHR 0xA7, CHR 0x88, CHR 0xEC, CHR 0x9A,
     CHR 0xB4, CHR 0xED, CHR 0x8A, CHR 0xB8, CHR 0xEB, CHR 0x90, CHR 0xA8]"

definition render_header :: "string list" where
  "render_header =
    [''# ============================================================'', ''# ConfigMap: '' @ ConfigMapName, comment_target, comment_mount,
     ''# ============================================================'', ''apiVersion: v1'', ''kind: ConfigMap'', ''metadata:'',
     ''  name: '' @ ConfigMapName, ''  namespace: '' @ Namespace, ''  labels:'', ''    app.kubernetes.io/name: coredns'',
     ''    app.kubernetes.io/component: dns-records'', ''data:'']"

definition render_zone :: "(string, string) gomap \<Rightarrow> string \<Rightarrow> string" where
  "render_zone data k = ''  '' @ k @ '': |'' @ [nl] @ concat (map (\<lambda>line. if line = '''' then [nl] else ''    '' @ line @ [nl])
     (split_on nl (trim_right (\<lambda>c. c = nl) (bound data k))))"

definition RenderConfigMapYAML :: "(string, string) gomap \<Rightarrow> string" where
  "RenderConfigMapYAML data = concat (map (\<lambda>l. l @ [nl]) render_header) @ join_with [nl] (map (render_zone data) (OrderedKeys data))"

section \<open>Lines and fields\<close>

fun no_wide :: "string \<Rightarrow> bool" where
  "no_wide [] = True"
| "no_wide (c # s) \<longleftrightarrow> wide_space (c # s) = 0 \<and> no_wide s"

definition word :: "string \<Rightarrow> bool" where
  "word w \<longleftrightarrow> w \<noteq> [] \<and> (\<forall>c \<in> set w. \<not> is_space c) \<and> no_wide w"

lemma nl_space [simp]: "is_space nl" "is_space (CHR '' '')"
  by (simp_all add: is_space_def nl_def)

lemma space2_ascii: "is_space a \<or> is_space b \<Longrightarrow> \<not> space2 a b"
  by (auto simp: space2_def is_space_def)

lemma space3_ascii: "is_space a \<or> is_space b \<or> is_space c \<Longrightarrow> \<not> space3 a b c"
  unfolding space3_def is_space_def by (elim disjE insertE emptyE) simp_all

lemma blank_opens_none [simp]: "\<not> space2 (CHR '' '') b" "\<not> space2 a (CHR '' '')" "\<not> space3 (CHR '' '') b c" "\<not> space3 a (CHR '' '') c" "\<not> space3 a b (CHR '' '')"
  by (simp_all add: space2_ascii space3_ascii)

lemma wide_space_cons: "wide_space (a # s) = (case s of [] \<Rightarrow> 0 | b # t \<Rightarrow> if space2 a b then 2 else case t of [] \<Rightarrow> 0 | c # _ \<Rightarrow> if space3 a b c then 3 else 0)"
  by (auto split: list.splits)

lemma wide_prefix: "wide_space (a @ b) = 0 \<Longrightarrow> wide_space a = 0"
  by (cases a; cases "tl a") (auto simp: wide_space_cons split: list.splits if_splits)

lemma wide_blank: "wide_space (c # a @ CHR '' '' # s) = wide_space (c # a)"
  by (cases a; cases "tl a") (auto simp: wide_space_cons split: list.splits)

declare wide_space.simps [simp del]

lemma no_wide_ascii: "no_wide (ascii_spaces s)"
proof (induction s rule: ascii_spaces.induct)
  case (2 c s)
  show ?case
  proof (cases "wide_space (c # s)")
    case 0
    obtain s' where s': "s' = ascii_spaces s" by simp
    have "s' = [] \<and> s = [] \<or> (\<exists>t. s' = CHR '' '' # t) \<or> (\<exists>d t u. s = d # t \<and> s' = d # u \<and> u = ascii_spaces t)"
      unfolding s' by (cases s) (auto split: nat.splits)
    moreover have "wide_space (c # d # ascii_spaces t) = 0" if "s = d # t" for d t
      using 0 that by (cases t) (auto simp: wide_space_cons [of c] split: if_splits nat.splits list.splits)
    moreover have "wide_space (c # CHR '' '' # t) = 0" for t using wide_blank [of c "[]" t] by (simp add: wide_space_cons)
    moreover have "wide_space [c] = 0" by (simp add: wide_space_cons)
    ultimately have "wide_space (c # s') = 0" by metis
    with 0 2(1) s' show ?thesis by simp
  next
    case (Suc n)
    then show ?thesis using 2(2) by (simp add: wide_space_cons [of "CHR '' ''"] split: list.splits)
  qed
qed simp

lemma ascii_spaces_id: "no_wide s \<Longrightarrow> ascii_spaces s = s"
  by (induction s) simp_all

lemma ascii_spaces_blank: "no_wide a \<Longrightarrow> ascii_spaces (a @ CHR '' '' # s) = a @ CHR '' '' # ascii_spaces s"
proof (induction a)
  case Nil
  show ?case by (simp add: wide_space_cons split: list.splits)
next
  case (Cons c a)
  then show ?case using wide_blank [of c a s] by (simp del: wide_space.simps)
qed

lemma split_on_first: "\<exists>t. s = hd (split_on sep s) @ t"
proof (induction s)
  case (Cons c s)
  then show ?case by (cases "split_on sep s") auto
qed simp

lemma no_wide_split: "no_wide s \<Longrightarrow> \<forall>w \<in> set (split_on sep s). no_wide w"
proof (induction s)
  case (Cons c s)
  obtain p ps where p: "split_on sep s = p # ps" using split_on_nonempty [of sep s] by (cases "split_on sep s") auto
  then obtain t where "s = p @ t" using split_on_first [of s sep] by auto
  then have "wide_space (c # p) = 0" using Cons.prems wide_prefix [of "c # p" t] by simp
  with Cons p show ?case by auto
qed simp

lemma no_wide_blanks: "no_wide s \<Longrightarrow> no_wide (map (\<lambda>c. if is_space c then CHR '' '' else c) s)"
proof (induction s)
  case (Cons c s)
  have "wide_space (map (\<lambda>c. if is_space c then CHR '' '' else c) (c # s)) = wide_space (c # s)"
    by (simp add: wide_space_cons space2_ascii space3_ascii split: list.splits)
  with Cons show ?case by simp
qed simp

lemma fields_word: "w \<in> set (Fields s) \<Longrightarrow> word w"
proof -
  assume w: "w \<in> set (Fields s)"
  have "no_wide w" using w no_wide_split [OF no_wide_blanks [OF no_wide_ascii [of s]]] by (auto simp: Fields_def Go_Prelude.fields_def)
  with w show ?thesis by (simp add: word_def Fields_def fields_no_space)
qed

lemma word_no_nl: "word w \<Longrightarrow> nl \<notin> set w"
  by (auto simp: word_def)

lemma spaces_word: "word w \<Longrightarrow> map (\<lambda>c. if is_space c then CHR '' '' else c) w = w"
  by (auto simp: word_def intro: map_idI)

lemma word_no_blank: "word w \<Longrightarrow> CHR '' '' \<notin> set w"
  by (auto simp: word_def)

lemma fields_cons: "word w \<Longrightarrow> Fields (w @ CHR '' '' # s) = w # Fields s"
proof -
  assume w: "word w"
  then have "ascii_spaces (w @ CHR '' '' # s) = w @ CHR '' '' # ascii_spaces s" by (simp add: word_def ascii_spaces_blank)
  with w show ?thesis by (simp add: Fields_def Go_Prelude.fields_def spaces_word split_on_append word_no_blank) (simp add: word_def)
qed

lemma fields_blank [simp]: "Fields (CHR '' '' # s) = Fields s"
  using ascii_spaces_blank [of "[]" s] by (simp add: Fields_def Go_Prelude.fields_def)

lemma fields_Nil [simp]: "Fields [] = []"
  by (simp add: Fields_def Go_Prelude.fields_def)

lemma fields_one: "word w \<Longrightarrow> Fields w = [w]"
proof -
  assume w: "word w"
  then have "ascii_spaces w = w" by (simp add: word_def ascii_spaces_id)
  with w show ?thesis by (simp add: Fields_def Go_Prelude.fields_def spaces_word split_on_single word_no_blank) (simp add: word_def)
qed

lemma fields_blanks [simp]: "Fields (replicate n (CHR '' '') @ s) = Fields s"
  by (induction n) simp_all

lemma fields_join: "\<forall>w \<in> set ws. word w \<Longrightarrow> Fields (join_with '' '' ws) = ws"
  by (induction ws rule: induct_list012) (simp_all add: fields_one fields_cons)

lemma one_field: "Fields h = [h] \<longleftrightarrow> word h"
  using fields_word [of h h] fields_one [of h] by auto

lemma ascii_opens_none: "\<not> digit7 a \<Longrightarrow> wide_space (a # s) = 0"
proof -
  assume a: "\<not> digit7 a"
  have "\<not> space2 a b" for b using a unfolding space2_def by (elim contrapos_nn conjE) simp
  moreover have "\<not> space3 a b c" for b c using a unfolding space3_def by (elim contrapos_nn disjE conjE) simp_all
  ultimately show ?thesis by (simp add: wide_space_cons split: list.splits)
qed

lemma ascii_word: "w \<noteq> [] \<Longrightarrow> \<forall>c \<in> set w. \<not> is_space c \<and> \<not> digit7 c \<Longrightarrow> word w"
proof -
  have "no_wide w" if "\<forall>c \<in> set w. \<not> digit7 c" for w using that by (induction w) (simp_all add: ascii_opens_none)
  then show "w \<noteq> [] \<Longrightarrow> \<forall>c \<in> set w. \<not> is_space c \<and> \<not> digit7 c \<Longrightarrow> word w" by (simp add: word_def)
qed

lemma record_line_shape: "record_line ip names = ip @ CHR '' '' # replicate (20 - length ip) (CHR '' '') @ join_with '' '' names"
proof -
  have "replicate n (CHR '' '') @ CHR '' '' # s = CHR '' '' # replicate n (CHR '' '') @ s" for n s
    by (induction n) simp_all
  then show ?thesis by (simp add: record_line_def pad20_def)
qed

lemma fields_record_line: "word ip \<Longrightarrow> \<forall>w \<in> set names. word w \<Longrightarrow> Fields (record_line ip names) = ip # names"
  by (simp add: record_line_shape fields_cons fields_join)

lemma join_chars: "set (join_with sep ws) \<subseteq> set sep \<union> \<Union> (set ` set ws)"
  by (induction ws rule: induct_list012) auto

lemma record_line_no_nl: "word ip \<Longrightarrow> \<forall>w \<in> set names. word w \<Longrightarrow> nl \<notin> set (record_line ip names)"
  using join_chars [of "'' ''" names] word_no_nl by (fastforce simp: record_line_shape nl_def)

lemma split_on_join2: "split_on sep (a @ sep # b) = split_on sep a @ split_on sep b"
proof (induction a)
  case (Cons c a)
  obtain p ps where "split_on sep a = p # ps" using split_on_nonempty [of sep a] by (cases "split_on sep a") auto
  with Cons show ?case by simp
qed simp

lemma Parse_append: "hosts_Parse na (a @ nl # b) = hosts_Parse na a @ hosts_Parse na b"
  by (simp add: hosts_Parse_def split_on_join2)

lemma Parse_line: "nl \<notin> set l \<Longrightarrow> hosts_Parse na l = parse_line na l"
  by (simp add: hosts_Parse_def split_on_single)

lemma Parse_Nil [simp]: "hosts_Parse na [] = []"
  by (simp add: hosts_Parse_def parse_line_def)

lemma Parse_trailing: "hosts_Parse na (s @ replicate k nl) = hosts_Parse na s"
proof (induction k)
  case (Suc k)
  have "s @ replicate (Suc k) nl = (s @ replicate k nl) @ nl # []" by (simp add: replicate_app_Cons_same)
  with Suc show ?case by (simp only: Parse_append Parse_Nil append_Nil2)
qed simp

lemma trim_right_split: "\<exists>k. s = trim_right (\<lambda>c. c = x) s @ replicate k x"
proof -
  have "rev s = takeWhile (\<lambda>c. c = x) (rev s) @ dropWhile (\<lambda>c. c = x) (rev s)" by simp
  moreover have "takeWhile (\<lambda>c. c = x) (rev s) = replicate (length (takeWhile (\<lambda>c. c = x) (rev s))) x"
    by (metis (mono_tags, lifting) replicate_length_same set_takeWhileD)
  ultimately have "s = rev (dropWhile (\<lambda>c. c = x) (rev s)) @ replicate (length (takeWhile (\<lambda>c. c = x) (rev s))) x"
    by (metis rev_append rev_replicate rev_rev_ident)
  then show ?thesis by (auto simp: trim_right_def)
qed

lemma Parse_trim: "hosts_Parse na (trim_right (\<lambda>c. c = nl) s) = hosts_Parse na s"
  using trim_right_split [of s nl] Parse_trailing [of na "trim_right (\<lambda>c. c = nl) s"] by metis

lemma Parse_join: "\<forall>l \<in> set ls. nl \<notin> set l \<Longrightarrow> hosts_Parse na (join_with [nl] ls) = concat (map (parse_line na) ls)"
  by (induction ls rule: induct_list012) (simp_all add: Parse_line Parse_append)

lemma parse_line_names: "r \<in> set (parse_line na l) \<Longrightarrow> hr_Hostnames r \<noteq> []"
  by (auto simp: parse_line_def split: list.splits if_splits)

lemma Parse_names: "r \<in> set (hosts_Parse na t) \<Longrightarrow> hr_Hostnames r \<noteq> []"
  by (auto simp: hosts_Parse_def dest: parse_line_names)

section \<open>What the edits do to the records\<close>

definition without :: "string \<Rightarrow> host_record list \<Rightarrow> host_record list" where
  "without h rs = filter (\<lambda>r. hr_Hostnames r \<noteq> []) (map (\<lambda>r. r \<lparr>hr_Hostnames := filter (\<lambda>n. n \<noteq> h) (hr_Hostnames r)\<rparr>) rs)"

lemma without_append [simp]: "without h (a @ b) = without h a @ without h b"
  by (simp add: without_def)

lemma without_concat: "without h (concat xss) = concat (map (without h) xss)"
  by (induction xss) (simp_all add: without_def)

lemma without_absent: "\<forall>r \<in> set rs. h \<notin> set (hr_Hostnames r) \<and> hr_Hostnames r \<noteq> [] \<Longrightarrow> without h rs = rs"
proof (induction rs)
  case (Cons r rs)
  then have "filter (\<lambda>n. n \<noteq> h) (hr_Hostnames r) = hr_Hostnames r" by (auto simp: filter_id_conv)
  with Cons show ?case by (simp add: without_def)
qed (simp add: without_def)

lemma remove_line_parse:
  "concat (map (parse_line na) (fst (remove_line h l))) = without h (parse_line na l)"
proof (cases "Fields l")
  case (Cons f names)
  show ?thesis
  proof (cases names)
    case (Cons g gs)
    let ?keep = "filter (\<lambda>x. x \<noteq> h) (g # gs)"
    have fs: "Fields l = f # g # gs" using \<open>Fields l = f # names\<close> Cons by simp
    have words: "word f" "\<forall>w \<in> set (g # gs). word w" using fields_word [of _ l] by (auto simp: fs)
    have line: "parse_line na l = (if has_prefix f ''#'' \<or> na f = None then [] else [\<lparr>hr_IP = f, hr_Hostnames = g # gs\<rparr>])"
      by (simp add: parse_line_def fs)
    consider "has_prefix f ''#''" | "\<not> has_prefix f ''#''" "length ?keep = length (g # gs)"
      | "\<not> has_prefix f ''#''" "length ?keep \<noteq> length (g # gs)" "?keep \<noteq> []" | "\<not> has_prefix f ''#''" "?keep = []" by blast
    then show ?thesis
    proof cases
      case 1
      then show ?thesis by (simp add: remove_line_def fs line without_def)
    next
      case 2
      then have "?keep = g # gs" by (metis filter_cong length_filter_less less_irrefl filter_True)
      then show ?thesis using 2 by (simp add: remove_line_def fs line without_def del: filter.simps)
    next
      case 3
      have "Fields (record_line f ?keep) = f # ?keep" by (rule fields_record_line) (use words in auto)
      then have "parse_line na (record_line f ?keep) = (if na f = None then [] else [\<lparr>hr_IP = f, hr_Hostnames = ?keep\<rparr>])"
        using 3(1,3) by (cases ?keep) (auto simp: parse_line_def)
      then show ?thesis using 3 by (simp add: remove_line_def fs line without_def Let_def del: filter.simps)
    next
      case 4
      then show ?thesis by (simp add: remove_line_def fs line without_def Let_def del: filter.simps)
    qed
  qed (use Cons in \<open>simp add: remove_line_def parse_line_def without_def\<close>)
qed (simp add: remove_line_def parse_line_def without_def)

lemma split_lines_no_nl: "l \<in> set (split_on nl t) \<Longrightarrow> nl \<notin> set l"
  by (rule split_on_no_sep)

lemma remove_line_no_nl: "nl \<notin> set l \<Longrightarrow> l' \<in> set (fst (remove_line h l)) \<Longrightarrow> nl \<notin> set l'"
proof -
  assume l: "nl \<notin> set l" and l': "l' \<in> set (fst (remove_line h l))"
  show "nl \<notin> set l'"
  proof (cases "l' = l")
    case False
    with l' obtain f g gs where fs: "Fields l = f # g # gs" "l' = record_line f (filter (\<lambda>n. n \<noteq> h) (g # gs))"
      by (auto simp: remove_line_def Let_def simp del: filter.simps split: list.splits if_splits)
    have "word f" "\<forall>w \<in> set (filter (\<lambda>n. n \<noteq> h) (g # gs)). word w" using fields_word [of _ l] by (auto simp: fs(1))
    then show ?thesis unfolding fs(2) by (rule record_line_no_nl)
  qed (use l in simp)
qed

lemma remove_line_unmoved: "\<not> snd (remove_line h l) \<Longrightarrow> fst (remove_line h l) = [l]"
  by (auto simp: remove_line_def Let_def simp del: filter.simps split: list.splits if_splits)

lemma Remove_Parse: "hosts_Parse na (fst (hosts_Remove t h)) = without h (hosts_Parse na t)"
proof -
  let ?ls = "split_on nl (trim_right (\<lambda>c. c = nl) t)"
  let ?rs = "map (remove_line h) ?ls"
  have lines: "concat (map (parse_line na) (concat (map fst ?rs))) = without h (hosts_Parse na t)"
  proof -
    have "concat (map (parse_line na) (concat (map (\<lambda>l. fst (remove_line h l)) ls))) = without h (concat (map (parse_line na) ls))" for ls
      by (induction ls) (simp_all add: remove_line_parse, simp add: without_def)
    then show ?thesis unfolding Parse_trim [of na t, symmetric] by (simp add: hosts_Parse_def comp_def)
  qed
  show ?thesis
  proof (cases "list_ex snd ?rs")
    case True
    have "\<forall>l \<in> set (concat (map fst ?rs)). nl \<notin> set l" by (auto dest: remove_line_no_nl [rotated] split_lines_no_nl)
    from Parse_join [OF this, of na] lines have
      j: "hosts_Parse na (join_with [nl] (concat (map fst ?rs))) = without h (hosts_Parse na t)" by simp
    then have "hosts_Parse na (join_with [nl] (concat (map fst ?rs)) @ [nl]) = without h (hosts_Parse na t)"
      using Parse_append [of na _ "[]"] by simp
    with j True show ?thesis by (cases "join_with [nl] (concat (map fst ?rs)) = []") (simp_all add: hosts_Remove_def Let_def)
  next
    case False
    then have "map fst ?rs = map (\<lambda>l. [l]) ?ls" by (auto simp: list_ex_iff intro: remove_line_unmoved)
    then have "concat (map fst ?rs) = ?ls" by (simp only: concat_map_singleton map_ident)
    with lines have "hosts_Parse na (trim_right (\<lambda>c. c = nl) t) = without h (hosts_Parse na t)" by (simp add: hosts_Parse_def)
    with False show ?thesis by (simp add: hosts_Remove_def Let_def Parse_trim)
  qed
qed

lemma lookup_append: "lookup_record (a @ b) h = (case lookup_record a h of None \<Rightarrow> lookup_record b h | Some ip \<Rightarrow> Some ip)"
  by (induction a) simp_all

lemma lookup_None: "lookup_record rs h = None \<longleftrightarrow> (\<forall>r \<in> set rs. h \<notin> set (hr_Hostnames r))"
  by (induction rs) auto

lemma lookup_without: "lookup_record (without h rs) g = (if g = h then None else lookup_record rs g)"
  by (induction rs) (auto simp: without_def filter_empty_conv)

text \<open>What is documented of addresses: the canonical spelling parses to itself and is one word, and no comment.\<close>

definition netip_ok :: "netip \<Rightarrow> bool" where
  "netip_ok na \<longleftrightarrow> (\<forall>s a. na s = Some a \<longrightarrow> na a = Some a \<and> word a \<and> \<not> has_prefix a ''#'')"

lemma Add_Parse:
  assumes "netip_ok na" "hosts_Add na t ip h = Inr t'" "Fields h = [h]"
  shows "\<exists>a. na ip = Some a \<and> hosts_Lookup na t h = None \<and> hosts_Parse na t' = hosts_Parse na t @ [\<lparr>hr_IP = a, hr_Hostnames = [h]\<rparr>]"
proof -
  obtain a where a: "na ip = Some a" "h \<noteq> []" "\<not> list_ex bad_host_char h" "hosts_Lookup na t h = None"
      "t' = (if trim_right (\<lambda>c. c = nl) t = [] then record_line a [h] @ [nl] else trim_right (\<lambda>c. c = nl) t @ [nl] @ record_line a [h] @ [nl])"
    using assms(2) by (auto simp: hosts_Add_def Let_def split: option.splits if_splits)
  have w: "word a" "\<not> has_prefix a ''#''" "na a = Some a" "word h" using assms(1,3) a(1) by (auto simp: netip_ok_def one_field)
  have "hosts_Parse na (record_line a [h]) = [\<lparr>hr_IP = a, hr_Hostnames = [h]\<rparr>]"
    using w by (simp add: Parse_line record_line_no_nl) (simp add: parse_line_def fields_record_line)
  then have line: "hosts_Parse na (record_line a [h] @ [nl]) = [\<lparr>hr_IP = a, hr_Hostnames = [h]\<rparr>]"
    using Parse_append [of na "record_line a [h]" "[]"] by simp
  have "hosts_Parse na t' = hosts_Parse na (trim_right (\<lambda>c. c = nl) t) @ [\<lparr>hr_IP = a, hr_Hostnames = [h]\<rparr>]"
    using a(5) line Parse_append [of na "trim_right (\<lambda>c. c = nl) t" "record_line a [h] @ [nl]"] by (simp split: if_splits)
  with a(1,4) show ?thesis by (simp add: Parse_trim)
qed

section \<open>Zones, in any order\<close>

lemma has_suffix_append: "has_suffix s p \<longleftrightarrow> (\<exists>q. s = q @ p)"
proof
  assume "has_suffix s p"
  then have "drop (length s - length p) s = p" by (auto simp: has_suffix_def cut_suffix_def split: if_splits)
  then have "s = take (length s - length p) s @ p" by (metis append_take_drop_id)
  then show "\<exists>q. s = q @ p" ..
qed (auto simp: has_suffix_def cut_suffix_def)

lemma zone_fits_suffix: "zone_fits h z \<Longrightarrow> \<exists>p. h = p @ z"
proof -
  assume "zone_fits h z"
  then consider "h = z" | q where "h = q @ ''.'' @ z" by (auto simp: zone_fits_def has_suffix_append)
  then show ?thesis
  proof cases
    case 1
    then show ?thesis by (intro exI [of _ "[]"]) simp
  next
    case 2
    then show ?thesis by (intro exI [of _ "q @ ''.''"]) simp
  qed
qed

lemma zone_fits_same_length: "zone_fits h z \<Longrightarrow> zone_fits h z' \<Longrightarrow> length z = length z' \<Longrightarrow> z = z'"
  using zone_fits_suffix [of h z] zone_fits_suffix [of h z'] by (metis append_eq_append_conv)

definition longest_zone :: "string \<Rightarrow> string set \<Rightarrow> string \<Rightarrow> bool" where
  "longest_zone h zs best \<longleftrightarrow> (best = '''' \<or> best \<in> zs \<and> best \<noteq> ''.'' \<and> zone_fits h best) \<and>
     (\<forall>z \<in> zs. z \<noteq> ''.'' \<longrightarrow> zone_fits h z \<longrightarrow> length z \<le> length best)"

lemma fold_longest: "longest_zone h seen best \<Longrightarrow> longest_zone h (seen \<union> set zs) (foldl (better_zone h) best zs)"
proof (induction zs arbitrary: seen best)
  case (Cons z zs)
  from Cons.prems have "longest_zone h (insert z seen) (better_zone h best z)"
    by (auto simp: longest_zone_def better_zone_def)
  from Cons.IH [OF this] show ?case by simp
qed simp

lemma best_zone: "longest_zone h (set zs) (foldl (better_zone h) '''' zs)"
  using fold_longest [of h "{}" "''''" zs] by (simp add: longest_zone_def)

lemma longest_zone_unique:
  assumes "longest_zone h zs a" "longest_zone h zs b"
  shows "a = b"
proof -
  have "length b \<le> length a" if "b \<noteq> ''''" using assms that by (auto simp: longest_zone_def)
  moreover have "length a \<le> length b" if "a \<noteq> ''''" using assms that by (auto simp: longest_zone_def)
  ultimately have len: "length a = length b" by (metis le_antisym le_zero_eq list.size(3))
  show ?thesis
  proof (cases "a = ''''")
    case False
    with len assms zone_fits_same_length [of h a b] show ?thesis by (auto simp: longest_zone_def)
  qed (use len in simp)
qed

lemma map_of_mset: "gomap_wf m \<Longrightarrow> mset m' = mset m \<Longrightarrow> map_of m' k = map_of m k"
proof -
  assume wf: "gomap_wf m" and eq: "mset m' = mset m"
  have "mset (map fst m') = mset (map fst m)" using eq by simp
  then have wf': "gomap_wf m'" using wf unfolding gomap_wf_def by (metis mset_eq_imp_distinct_iff)
  have "set m' = set m" using eq by (metis set_mset_mset)
  then have "map_of m' k = Some v \<longleftrightarrow> map_of m k = Some v" for v
    using gomap_mem_iff [OF wf, of k v] gomap_mem_iff [OF wf', of k v] by simp
  then show ?thesis by (metis option.exhaust)
qed

section \<open>Properties\<close>

text \<open>Editing a hosts file edits its records and nothing else. With addresses spelled canonically, a name added that is one field answers
  with the canonical address, as one record after all the others; every other name answers as before; and removing the
  name again gives the records there were. Removing a name from any file takes it out of every record, drops the
  records left without a name and leaves the others in their order, so that the name no longer answers and every other name
  answers as before.\<close>

theorem hosts_edits_are_exact:
  assumes "netip_ok na"
  shows "(hosts_Add na t ip h = Inr t' \<longrightarrow> Fields h = [h] \<longrightarrow>
      (\<exists>a. na ip = Some a \<and> hosts_Parse na t' = hosts_Parse na t @ [\<lparr>hr_IP = a, hr_Hostnames = [h]\<rparr>] \<and>
         hosts_Lookup na t' h = Some a) \<and> (\<forall>g. g \<noteq> h \<longrightarrow> hosts_Lookup na t' g = hosts_Lookup na t g) \<and>
      snd (hosts_Remove t' h) \<and> hosts_Parse na (fst (hosts_Remove t' h)) = hosts_Parse na t) \<and>
    hosts_Parse na (fst (hosts_Remove t h)) = without h (hosts_Parse na t) \<and>
    (\<forall>g. hosts_Lookup na (fst (hosts_Remove t h)) g = (if g = h then None else hosts_Lookup na t g))"
proof -
  have rm: "hosts_Lookup na (fst (hosts_Remove s h)) g = (if g = h then None else hosts_Lookup na s g)" for s g
    by (simp add: hosts_Lookup_def Remove_Parse lookup_without)
  have add: "(\<exists>a. na ip = Some a \<and> hosts_Parse na t' = hosts_Parse na t @ [\<lparr>hr_IP = a, hr_Hostnames = [h]\<rparr>] \<and>
      hosts_Lookup na t' h = Some a) \<and> (\<forall>g. g \<noteq> h \<longrightarrow> hosts_Lookup na t' g = hosts_Lookup na t g) \<and>
      snd (hosts_Remove t' h) \<and> hosts_Parse na (fst (hosts_Remove t' h)) = hosts_Parse na t" if ok: "hosts_Add na t ip h = Inr t'" "Fields h = [h]"
  proof -
    obtain a where a: "na ip = Some a" "hosts_Lookup na t h = None" "hosts_Parse na t' = hosts_Parse na t @ [\<lparr>hr_IP = a, hr_Hostnames = [h]\<rparr>]"
      using Add_Parse [OF assms ok] by blast
    have look: "hosts_Lookup na t' h = Some a" using a by (simp add: hosts_Lookup_def lookup_append)
    have "\<forall>g. g \<noteq> h \<longrightarrow> hosts_Lookup na t' g = hosts_Lookup na t g"
      using a(3) by (simp add: hosts_Lookup_def lookup_append split: option.splits)
    moreover have "without h (hosts_Parse na t) = hosts_Parse na t"
      by (rule without_absent) (use a(2) Parse_names in \<open>auto simp: hosts_Lookup_def lookup_None\<close>)
    then have "hosts_Parse na (fst (hosts_Remove t' h)) = hosts_Parse na t" using a(3) by (simp add: Remove_Parse) (simp add: without_def)
    moreover have "snd (hosts_Remove t' h)"
    proof (rule ccontr)
      assume "\<not> snd (hosts_Remove t' h)"
      then have "fst (hosts_Remove t' h) = t'" by (simp add: hosts_Remove_def Let_def split: if_splits)
      with rm [of t' h] look show False by simp
    qed
    ultimately show ?thesis using a look by blast
  qed
  then show ?thesis using rm Remove_Parse by blast
qed

definition demo_netip :: netip where
  "demo_netip s = (if s \<in> {''10.0.0.1'', ''10.0.0.2''} then Some s else None)"

theorem hosts_edits_are_exact_witness:
  "hosts_Add demo_netip ''10.0.0.1 a b'' ''10.0.0.2'' ''c'' = Inr (''10.0.0.1 a b'' @ [nl] @ ''10.0.0.2             c'' @ [nl]) \<and>
   hosts_Lookup demo_netip (''10.0.0.1 a b'' @ [nl] @ ''10.0.0.2             c'' @ [nl]) ''c'' = Some ''10.0.0.2'' \<and>
   hosts_Lookup demo_netip (fst (hosts_Remove ''10.0.0.1 a b'' ''c'')) ''a'' = hosts_Lookup demo_netip ''10.0.0.1 a b'' ''a''"
proof -
  let ?t' = "''10.0.0.1 a b'' @ [nl] @ ''10.0.0.2             c'' @ [nl]"
  have ok: "netip_ok demo_netip" using ascii_word [of "''10.0.0.1''"] ascii_word [of "''10.0.0.2''"]
    by (auto simp: netip_ok_def demo_netip_def is_space_def has_prefix_def)
  have one: "Fields ''c'' = [''c'']" by (simp add: one_field ascii_word is_space_def)
  have add: "hosts_Add demo_netip ''10.0.0.1 a b'' ''10.0.0.2'' ''c'' = Inr ?t'" by code_simp
  have "demo_netip ''10.0.0.2'' = Some ''10.0.0.2''" by (simp add: demo_netip_def)
  then show ?thesis
    using hosts_edits_are_exact [OF ok, of "''10.0.0.1 a b''" "''10.0.0.2''" "''c''" ?t'] add one by auto
qed

text \<open>A record is filed under the longest zone that fits, whatever order the map of zones is iterated in: a zone that is the
  name itself or ends it after a dot, longer than every other such zone, or the catch-all zone when there is none.\<close>

theorem zone_is_the_longest_match:
  assumes "gomap_wf bindings" "mset bindings' = mset bindings" "ZoneKeyFor h bindings = (z, k)"
  shows "ZoneKeyFor h bindings' = (z, k) \<and> k = bound bindings z \<and>
    (z \<in> fst ` set bindings \<and> z \<noteq> ''.'' \<and> zone_fits h z \<and>
       (\<forall>z' \<in> fst ` set bindings. z' \<noteq> ''.'' \<longrightarrow> zone_fits h z' \<longrightarrow> z' \<noteq> z \<longrightarrow> length z' < length z)
     \<or> z = ''.'' \<and> (\<forall>z' \<in> fst ` set bindings. z' \<noteq> ''.'' \<longrightarrow> z' \<noteq> '''' \<longrightarrow> \<not> zone_fits h z'))"
proof -
  let ?best = "\<lambda>m. foldl (better_zone h) '''' (map fst m)"
  have keys: "set (map fst bindings') = set (map fst bindings)" using assms(2) by (metis mset_map set_mset_mset)
  have l: "longest_zone h (set (map fst bindings)) (?best bindings)" by (rule best_zone)
  have "longest_zone h (set (map fst bindings)) (?best bindings')" using best_zone [of h "map fst bindings'"] keys by simp
  then have same: "?best bindings' = ?best bindings" using l by (rule longest_zone_unique)
  have "bound bindings' x = bound bindings x" for x using map_of_mset [OF assms(1,2)] by (simp add: bound_def)
  then have "ZoneKeyFor h bindings' = (z, k)" using assms(3) same by (auto simp: ZoneKeyFor_def Let_def split: if_splits)
  moreover have "k = bound bindings z" using assms(3) by (auto simp: ZoneKeyFor_def Let_def split: if_splits)
  moreover have "z \<in> fst ` set bindings \<and> z \<noteq> ''.'' \<and> zone_fits h z \<and>
       (\<forall>z' \<in> fst ` set bindings. z' \<noteq> ''.'' \<longrightarrow> zone_fits h z' \<longrightarrow> z' \<noteq> z \<longrightarrow> length z' < length z)" if "?best bindings \<noteq> ''''"
  proof -
    have "z = ?best bindings" using assms(3) that by (simp add: ZoneKeyFor_def Let_def)
    with l that show ?thesis by (auto simp: longest_zone_def dest: zone_fits_same_length intro: le_neq_implies_less)
  qed
  moreover have "z = ''.'' \<and> (\<forall>z' \<in> fst ` set bindings. z' \<noteq> ''.'' \<longrightarrow> z' \<noteq> '''' \<longrightarrow> \<not> zone_fits h z')" if "?best bindings = ''''"
    using assms(3) that l by (auto simp: ZoneKeyFor_def Let_def longest_zone_def)
  ultimately show ?thesis by blast
qed

theorem zone_is_the_longest_match_witness:
  "ZoneKeyFor ''git.sre.local'' [(''sre.local'', ''sre.hosts''), (''.'', ''misc.hosts''), (''local'', ''l.hosts'')] = (''sre.local'', ''sre.hosts'') \<and>
   ZoneKeyFor ''git.sre.local'' [(''local'', ''l.hosts''), (''sre.local'', ''sre.hosts''), (''.'', ''misc.hosts'')] = (''sre.local'', ''sre.hosts'')"
proof -
  let ?m = "[(''sre.local'', ''sre.hosts''), (''.'', ''misc.hosts''), (''local'', ''l.hosts'')]"
  have z: "ZoneKeyFor ''git.sre.local'' ?m = (''sre.local'', ''sre.hosts'')" by code_simp
  have "gomap_wf ?m" by (simp add: gomap_wf_def)
  with zone_is_the_longest_match [of ?m "[(''local'', ''l.hosts''), (''sre.local'', ''sre.hosts''), (''.'', ''misc.hosts'')]"] z show ?thesis by simp
qed

text \<open>Adding refuses the white space of ASCII only. A name with a no-break space inside is taken, and its line read back holds two names,
  neither the one that was added.\<close>

lemma no_break_space_splits_a_name:
  "case hosts_Add demo_netip [] ''10.0.0.1'' [CHR ''a'', CHR 0xC2, CHR 0xA0, CHR ''b''] of Inl e \<Rightarrow> False
   | Inr t \<Rightarrow> hosts_Parse demo_netip t = [\<lparr>hr_IP = ''10.0.0.1'', hr_Hostnames = [''a'', ''b'']\<rparr>] \<and>
       hosts_Lookup demo_netip t [CHR ''a'', CHR 0xC2, CHR 0xA0, CHR ''b''] = None"
  by code_simp

text \<open>A line whose first word is no address is no record, and is edited all the same: removing a name from it reports a
  removal although nothing answered.\<close>

lemma stray_line_is_edited:
  "hosts_Lookup demo_netip ''todo: move git'' ''git'' = None \<and> hosts_Remove ''todo: move git'' ''git'' = (''todo:                move'' @ [nl], True)"
  by code_simp

end
