(* ===== verification/Dns_Write.thy ===== *)
theory Dns_Write
  imports Dns_Hosts
begin

text \<open>
  \<^verbatim>\<open>internal/cli/dns.go\<close>: the write path of the fleet's DNS records. An edit is applied to what the repository holds, committed
  under the precondition that the file has not moved, and the repository's newest version is then projected onto the
  cluster under the precondition that the ConfigMap has not moved; each side is tried three times.

  The two services are the world several commands share: the versions of the file, newest last, and the ConfigMap with its
  resource version. Between any two calls of a command other commands, hand edits and synchronisations take their own steps, any call
  may fail, and a write may land although its reply is lost. A command is the place it has reached in the code, and what it does with
  each reply is one function per call. Messages end before the advice to the operator; the commit message and the stamp annotation are left out.
\<close>

section \<open>The edits\<close>

definition errDNSNoChange :: goerror where "errDNSNoChange = Sentinel ''no change''"
definition git_ErrConflict :: goerror where "git_ErrConflict = Sentinel ''the file changed since it was read''"
definition kube_ErrConflict :: goerror where "kube_ErrConflict = Sentinel ''the object changed since it was read''"
definition dnsWriteAttempts :: nat where "dnsWriteAttempts = 3"
definition dnsVerifyStreak :: nat where "dnsVerifyStreak = 3"


definition zoneBindings :: "goerror + (string, string) gomap \<Rightarrow> goerror + (string, string) gomap" where
  "zoneBindings core = (case core of Inl e \<Rightarrow> Inl (Wrapf ''read the Corefile from dns-system/coredns-corefile'' e)
     | Inr data \<Rightarrow> let bindings = ZoneBindings (bound data ''Corefile'') in
         if bindings = [] then Inl (Plain ''the Corefile in dns-system/coredns-corefile declares no hosts-file zones'') else Inr bindings)"

definition dnsZoneKey :: "(string, string) gomap \<Rightarrow> (string, string) gomap \<Rightarrow> string \<Rightarrow> string \<Rightarrow> goerror + string \<times> string" where
  "dnsZoneKey bindings data hostname zoneFlag =
    go_bind
      (if zoneFlag \<noteq> '''' then
         (case map_of bindings zoneFlag of None \<Rightarrow> Inl (Plain (''no zone '' @ zoneFlag @ '' in the Corefile (have: '' @ join_with '', '' (sort (map fst bindings)) @ '')''))
          | Some k \<Rightarrow> Inr (k, zoneFlag))
       else (case ZoneKeyFor hostname bindings of (zone, key) \<Rightarrow>
         if key = '''' then Inl (Plain (''the Corefile has no hosts file for zone '' @ zone)) else Inr (key, zone)))
      (\<lambda>(key, zone). if map_of data key = None
         then Inl (Plain (''the Corefile serves zone '' @ zone @ '' from '' @ key @ '', but the IaC repo file has no such key''))
         else Inr (key, zone))"

text \<open>The loop over every zone file: the last file that answers as asked, or the first conflict.\<close>

fun match_key :: "netip \<Rightarrow> (string, string) gomap \<Rightarrow> string \<Rightarrow> string \<Rightarrow> string \<Rightarrow> string list \<Rightarrow> goerror + string" where
  "match_key na data hostname ip mk [] = Inr mk"
| "match_key na data hostname ip mk (k # ks) = (case hosts_Lookup na (bound data k) hostname of
     Some have' \<Rightarrow> if have' \<noteq> ip then Inl (Plain (hostname @ '' already answers with '' @ have' @ '' (in '' @ k @ ''); remove it first''))
       else match_key na data hostname ip k ks
   | None \<Rightarrow> match_key na data hostname ip mk ks)"

type_synonym dns_edit = "(string, string) gomap \<Rightarrow> goerror + (string, string) gomap"

definition dnsAdd_edit :: "netip \<Rightarrow> (string, string) gomap \<Rightarrow> string \<Rightarrow> string \<Rightarrow> string \<Rightarrow> dns_edit" where
  "dnsAdd_edit na bindings hostname ip zoneFlag data =
    go_bind (dnsZoneKey bindings data hostname zoneFlag) (\<lambda>(key, zone).
    go_bind (match_key na data hostname ip '''' (sort (map fst data))) (\<lambda>mk.
    if mk \<noteq> '''' then Inl errDNSNoChange
    else go_bind (hosts_Add na (bound data key) ip hostname) (\<lambda>next. Inr (AList.update key next data))))"



section \<open>One command, call by call\<close>

type_synonym yaml_dec = "string \<Rightarrow> goerror + configMapDoc"

record dns_file =
  df_Content :: string
  df_LastCommitID :: nat \<comment> \<open>the version's position in the history: an identifier never used twice\<close>

text \<open>Where a command stands: about to read the Corefile, which only an addition does, to read the file, to commit, to read the file again, to read the ConfigMap, to patch it.
  After the commit it carries whether it committed, the attempt, and \<open>wantRecords\<close>; and, for the statements only, the version
  it left the repository at.\<close>

datatype dns_pc =
    DCorefile
  | DCommit nat
  | DUpdate nat dns_file "(string, string) gomap" string
  | DRead bool nat nat nat
  | DVersion bool nat nat nat dns_file "(string, string) gomap"
  | DPatch bool nat nat nat dns_file "(string, string) gomap" nat
  | DDone bool nat
  | DFailed goerror

definition corefile_read :: "goerror + (string, string) gomap \<Rightarrow> dns_pc" where
  "corefile_read got = (case zoneBindings got of Inl e \<Rightarrow> DFailed e | Inr b \<Rightarrow> DCommit 1)"

definition commit_returns :: "netip \<Rightarrow> bool \<Rightarrow> (string, string) gomap \<Rightarrow> nat \<Rightarrow> dns_pc" where
  "commit_returns na committed data own = DRead committed own 1 (RecordCount na data)"

definition commit_read :: "yaml_dec \<Rightarrow> netip \<Rightarrow> dns_edit \<Rightarrow> nat \<Rightarrow> goerror + dns_file \<Rightarrow> dns_pc" where
  "commit_read yaml na edit attempt got = (case got of
     Inl e \<Rightarrow> DFailed (Wrapf ''read configmap-hosts.yaml from the IaC repo'' e)
   | Inr file \<Rightarrow> (case ParseConfigMapYAML yaml (df_Content file) of
       Inl e \<Rightarrow> DFailed (Wrapf ''the IaC repo's configmap-hosts.yaml is not the hosts ConfigMap vctl edits'' e)
     | Inr data \<Rightarrow> (case edit data of
         Inl e \<Rightarrow> if errors_is e errDNSNoChange then commit_returns na False data (df_LastCommitID file) else DFailed e
       | Inr data' \<Rightarrow> let rendered = RenderConfigMapYAML data' in
           if rendered = df_Content file then commit_returns na False data' (df_LastCommitID file)
           else DUpdate attempt file data' rendered)))"

definition commit_written :: "netip \<Rightarrow> nat \<Rightarrow> (string, string) gomap \<Rightarrow> goerror + nat \<Rightarrow> dns_pc" where
  \<comment> \<open>the reply to the commit: an error, or the version that holds it\<close>
  "commit_written na attempt data reply = (case reply of
     Inr v \<Rightarrow> commit_returns na True data v
   | Inl e \<Rightarrow> if errors_is e git_ErrConflict \<and> attempt < dnsWriteAttempts then DCommit (attempt + 1)
       else DFailed (Wrapf ''commit to the IaC repo'' e))"

definition project_read :: "yaml_dec \<Rightarrow> bool \<Rightarrow> nat \<Rightarrow> nat \<Rightarrow> nat \<Rightarrow> goerror + dns_file \<Rightarrow> dns_pc" where
  "project_read yaml c own attempt want got = (case got of
     Inl e \<Rightarrow> DFailed (Wrapf ''the IaC repo holds the change, but re-reading it for the cluster failed'' e)
   | Inr file \<Rightarrow> (case ParseConfigMapYAML yaml (df_Content file) of
       Inl e \<Rightarrow> DFailed (Wrapf ''the IaC repo holds the change, but its configmap-hosts.yaml no longer reads as the hosts ConfigMap'' e)
     | Inr data \<Rightarrow> DVersion c own attempt want file data))"

definition project_version :: "netip \<Rightarrow> bool \<Rightarrow> nat \<Rightarrow> nat \<Rightarrow> nat \<Rightarrow> dns_file \<Rightarrow> (string, string) gomap \<Rightarrow> goerror + nat \<Rightarrow> dns_pc" where
  "project_version na c own attempt want file data got = (case got of
     Inl e \<Rightarrow> DFailed (Wrapf ''the IaC repo holds the change, but reading the live ConfigMap failed'' e)
   | Inr rv \<Rightarrow> if RecordCount na data = 0 \<and> 0 < want
       then DFailed (Plain (''refusing to project the IaC repo onto the cluster: configmap-hosts.yaml held '' @ Itoa (int want) @
         '' records when this change was committed and has none now''))
       else DPatch c own attempt want file data rv)"

definition project_patched :: "bool \<Rightarrow> nat \<Rightarrow> nat \<Rightarrow> nat \<Rightarrow> goerror option \<Rightarrow> dns_pc" where
  "project_patched c own attempt want reply = (case reply of
     None \<Rightarrow> DDone c own
   | Some e \<Rightarrow> if errors_is e kube_ErrConflict \<and> attempt < dnsWriteAttempts then DRead c own (attempt + 1) want
       else DFailed (Wrapf ''the IaC repo holds the change, but the live ConfigMap patch failed'' e))"

section \<open>The commands and the services together\<close>

record dns_world =
  dw_repo :: "string list"
  dw_cm :: "(string, string) gomap"
  dw_rv :: nat
  dw_pc :: "nat \<Rightarrow> dns_pc"
  dw_bind :: "nat \<Rightarrow> (string, string) gomap" \<comment> \<open>the bindings a command has read, the same on every attempt\<close>
  dw_patches :: "(nat \<times> dns_file \<times> (string, string) gomap) list" \<comment> \<open>what was patched, by whom and from which version, newest last\<close>

definition head_file :: "dns_world \<Rightarrow> dns_file" where
  "head_file w = \<lparr>df_Content = last (dw_repo w), df_LastCommitID = length (dw_repo w) - 1\<rparr>"

definition goes :: "dns_world \<Rightarrow> nat \<Rightarrow> dns_pc \<Rightarrow> dns_world" where
  "goes w p pc = w \<lparr>dw_pc := (dw_pc w)(p := pc)\<rparr>"

definition binds :: "dns_world \<Rightarrow> nat \<Rightarrow> goerror + (string, string) gomap \<Rightarrow> dns_world" where
  "binds w p got = (case zoneBindings got of Inl e \<Rightarrow> w | Inr b \<Rightarrow> w \<lparr>dw_bind := (dw_bind w)(p := b)\<rparr>)"

definition commits :: "dns_world \<Rightarrow> string \<Rightarrow> dns_world" where
  "commits w content = w \<lparr>dw_repo := dw_repo w @ [content]\<rparr>"

definition merge_patch :: "(string, string) gomap \<Rightarrow> (string, string) gomap \<Rightarrow> (string, string) gomap" where
  \<comment> \<open>a JSON merge patch replaces the keys it names and leaves the others\<close>
  "merge_patch old data = foldl (\<lambda>m (k, v). AList.update k v m) old data"

definition patches :: "dns_world \<Rightarrow> nat \<Rightarrow> dns_file \<Rightarrow> (string, string) gomap \<Rightarrow> dns_world" where
  "patches w p file data = w \<lparr>dw_cm := merge_patch (dw_cm w) data, dw_rv := Suc (dw_rv w), dw_patches := dw_patches w @ [(p, file, data)]\<rparr>"

text \<open>A step is taken by a command (\<open>Some p\<close>) or by somebody else: a hand edit of the repository, any change of the ConfigMap.\<close>

inductive dns_step :: "yaml_dec \<Rightarrow> netip \<Rightarrow> (nat \<Rightarrow> (string, string) gomap \<Rightarrow> dns_edit) \<Rightarrow> nat option \<Rightarrow> dns_world \<Rightarrow> dns_world \<Rightarrow> bool"
  for yaml na edits where
  corefile_answered: "dw_pc w p = DCorefile \<Longrightarrow> dns_step yaml na edits (Some p) w (goes (binds w p got) p (corefile_read got))"
| commit_got: "dw_pc w p = DCommit a \<Longrightarrow> dns_step yaml na edits (Some p) w (goes w p (commit_read yaml na (edits p (dw_bind w p)) a (Inr (head_file w))))"
| commit_not_got: "dw_pc w p = DCommit a \<Longrightarrow> dns_step yaml na edits (Some p) w (goes w p (commit_read yaml na (edits p (dw_bind w p)) a (Inl e)))"
| update_done: "dw_pc w p = DUpdate a file data r \<Longrightarrow> df_LastCommitID file = df_LastCommitID (head_file w) \<Longrightarrow>
    dns_step yaml na edits (Some p) w (goes (commits w r) p (commit_written na a data (Inr (length (dw_repo w)))))"
| update_lost: "dw_pc w p = DUpdate a file data r \<Longrightarrow> df_LastCommitID file = df_LastCommitID (head_file w) \<Longrightarrow>
    \<not> errors_is e git_ErrConflict \<Longrightarrow> dns_step yaml na edits (Some p) w (goes (commits w r) p (commit_written na a data (Inl e)))"
| update_refused: "dw_pc w p = DUpdate a file data r \<Longrightarrow> dns_step yaml na edits (Some p) w (goes w p (commit_written na a data (Inl e)))"
| project_got: "dw_pc w p = DRead c own a want \<Longrightarrow> dns_step yaml na edits (Some p) w (goes w p (project_read yaml c own a want (Inr (head_file w))))"
| project_not_got: "dw_pc w p = DRead c own a want \<Longrightarrow> dns_step yaml na edits (Some p) w (goes w p (project_read yaml c own a want (Inl e)))"
| version_got: "dw_pc w p = DVersion c own a want file data \<Longrightarrow>
    dns_step yaml na edits (Some p) w (goes w p (project_version na c own a want file data (Inr (dw_rv w))))"
| version_not_got: "dw_pc w p = DVersion c own a want file data \<Longrightarrow>
    dns_step yaml na edits (Some p) w (goes w p (project_version na c own a want file data (Inl e)))"
| patch_done: "dw_pc w p = DPatch c own a want file data rv \<Longrightarrow> rv = dw_rv w \<Longrightarrow>
    dns_step yaml na edits (Some p) w (goes (patches w p file data) p (project_patched c own a want None))"
| patch_lost: "dw_pc w p = DPatch c own a want file data rv \<Longrightarrow> rv = dw_rv w \<Longrightarrow> \<not> errors_is e kube_ErrConflict \<Longrightarrow>
    dns_step yaml na edits (Some p) w (goes (patches w p file data) p (project_patched c own a want (Some e)))"
| patch_refused: "dw_pc w p = DPatch c own a want file data rv \<Longrightarrow>
    dns_step yaml na edits (Some p) w (goes w p (project_patched c own a want (Some e)))"
| hand_edit: "dns_step yaml na edits None w (commits w content)"
| cluster_edit: "dns_step yaml na edits None w (w \<lparr>dw_cm := cm, dw_rv := Suc (dw_rv w)\<rparr>)"

definition dns_start :: "dns_world \<Rightarrow> bool" where
  "dns_start w \<longleftrightarrow> dw_repo w \<noteq> [] \<and> dw_patches w = [] \<and> (\<forall>p. dw_pc w p \<in> {DCorefile, DCommit 1})"

text \<open>A zone file the repository no longer has stays on the cluster, whatever is projected.\<close>

lemma merge_patch_keeps: "k \<notin> fst ` set data \<Longrightarrow> map_of (merge_patch old data) k = map_of old k"
  unfolding merge_patch_def by (induction data arbitrary: old) (auto simp: update_conv')

section \<open>What the edits do\<close>





lemma bound_update [simp]: "bound (AList.update k v m) j = (if j = k then v else bound m j)"
  by (simp add: bound_def update_conv')


lemma Lookup_Nil [simp]: "hosts_Lookup na [] h = None"
  by (simp add: hosts_Lookup_def)












definition demo_bindings :: "(string, string) gomap" where "demo_bindings = [(''sre.local'', ''sre.hosts'')]"
definition demo_zones :: "(string, string) gomap" where "demo_zones = [(''sre.hosts'', ''10.0.0.1 a.sre.local'' @ [nl])]"
definition demo_added :: "(string, string) gomap" where
  "demo_added = [(''sre.hosts'', ''10.0.0.1 a.sre.local'' @ [nl] @ ''10.0.0.2             b.sre.local'' @ [nl])]"



section \<open>Runs\<close>

text \<open>How much a command can still do: the read of the Corefile, two calls for each attempt to commit, three for each attempt to project.\<close>

fun dns_rank :: "dns_pc \<Rightarrow> nat" where
  "dns_rank DCorefile = 5 * dnsWriteAttempts + 1"
| "dns_rank (DCommit a) = 2 * (dnsWriteAttempts - a) + 3 * dnsWriteAttempts + 2"
| "dns_rank (DUpdate a f d r) = 2 * (dnsWriteAttempts - a) + 3 * dnsWriteAttempts + 1"
| "dns_rank (DRead c v a w) = 3 * (dnsWriteAttempts - a) + 3"
| "dns_rank (DVersion c v a w f d) = 3 * (dnsWriteAttempts - a) + 2"
| "dns_rank (DPatch c v a w f d rv) = 3 * (dnsWriteAttempts - a) + 1"
| "dns_rank (DDone c v) = 0"
| "dns_rank (DFailed e) = 0"

lemmas dns_call_defs = corefile_read_def commit_read_def commit_written_def commit_returns_def project_read_def project_version_def project_patched_def Let_def
lemmas dns_world_defs = goes_def commits_def patches_def binds_def

lemma dns_step_rank: "dns_step yaml na edits l w w' \<Longrightarrow> l = Some p \<Longrightarrow> dns_rank (dw_pc w' p) < dns_rank (dw_pc w p)"
  by (induction rule: dns_step.induct) (auto simp: dns_world_defs dns_call_defs dnsWriteAttempts_def split: sum.splits option.splits if_splits)

lemma dns_step_others: "dns_step yaml na edits l w w' \<Longrightarrow> l \<noteq> Some p \<Longrightarrow> dw_pc w' p = dw_pc w p"
  by (induction rule: dns_step.induct) (auto simp: dns_world_defs split: sum.splits)

lemma dns_step_grows: "dns_step yaml na edits l w w' \<Longrightarrow> \<exists>xs ys. dw_repo w' = dw_repo w @ xs \<and> dw_patches w' = dw_patches w @ ys"
  by (induction rule: dns_step.induct) (auto simp: dns_world_defs split: sum.splits)

text \<open>The version a command leaves the repository at, and what it holds there: its own commit, made from the version before, or what
  it read, which needed no change.\<close>

definition left_at :: "yaml_dec \<Rightarrow> dns_edit \<Rightarrow> string list \<Rightarrow> bool \<Rightarrow> nat \<Rightarrow> (string, string) gomap \<Rightarrow> bool" where
  "left_at yaml edit repo c own data \<longleftrightarrow> own < length repo \<and>
    (if c then 0 < own \<and> repo ! own = RenderConfigMapYAML data \<and> (\<exists>d. ParseConfigMapYAML yaml (repo ! (own - 1)) = Inr d \<and> edit d = Inr data)
     else (\<exists>d. ParseConfigMapYAML yaml (repo ! own) = Inr d \<and>
       (data = d \<and> (\<exists>e. edit d = Inl e \<and> errors_is e errDNSNoChange) \<or> edit d = Inr data \<and> repo ! own = RenderConfigMapYAML data)))"

definition is_version :: "string list \<Rightarrow> dns_file \<Rightarrow> bool" where
  "is_version repo f \<longleftrightarrow> df_LastCommitID f < length repo \<and> repo ! df_LastCommitID f = df_Content f"

definition projects :: "yaml_dec \<Rightarrow> netip \<Rightarrow> dns_edit \<Rightarrow> string list \<Rightarrow> bool \<Rightarrow> nat \<Rightarrow> nat \<Rightarrow> dns_file \<Rightarrow> (string, string) gomap \<Rightarrow> bool" where
  "projects yaml na edit repo c own want file data \<longleftrightarrow> is_version repo file \<and> own \<le> df_LastCommitID file \<and>
    ParseConfigMapYAML yaml (df_Content file) = Inr data \<and> (\<exists>mine. left_at yaml edit repo c own mine \<and> want = RecordCount na mine)"

fun pc_ok :: "yaml_dec \<Rightarrow> netip \<Rightarrow> dns_edit \<Rightarrow> string list \<Rightarrow> (dns_file \<times> (string, string) gomap) set \<Rightarrow> dns_pc \<Rightarrow> bool" where
  "pc_ok yaml na edit repo seen (DUpdate a f d r) \<longleftrightarrow> is_version repo f \<and> r = RenderConfigMapYAML d \<and> r \<noteq> df_Content f \<and>
     (\<exists>d0. ParseConfigMapYAML yaml (df_Content f) = Inr d0 \<and> edit d0 = Inr d)"
| "pc_ok yaml na edit repo seen (DRead c own a want) \<longleftrightarrow> (\<exists>mine. left_at yaml edit repo c own mine \<and> want = RecordCount na mine)"
| "pc_ok yaml na edit repo seen (DVersion c own a want f d) \<longleftrightarrow> projects yaml na edit repo c own want f d"
| "pc_ok yaml na edit repo seen (DPatch c own a want f d rv) \<longleftrightarrow> projects yaml na edit repo c own want f d \<and> (RecordCount na d = 0 \<longrightarrow> want = 0)"
| "pc_ok yaml na edit repo seen (DDone c own) \<longleftrightarrow> (\<exists>want f d. (f, d) \<in> seen \<and> projects yaml na edit repo c own want f d \<and> (RecordCount na d = 0 \<longrightarrow> want = 0))"
| "pc_ok yaml na edit repo seen _ \<longleftrightarrow> True"

definition dns_inv :: "yaml_dec \<Rightarrow> netip \<Rightarrow> (nat \<Rightarrow> (string, string) gomap \<Rightarrow> dns_edit) \<Rightarrow> dns_world \<Rightarrow> bool" where
  "dns_inv yaml na edits w \<longleftrightarrow> dw_repo w \<noteq> [] \<and>
    (\<forall>p. pc_ok yaml na (edits p (dw_bind w p)) (dw_repo w) {(f, d). (p, f, d) \<in> set (dw_patches w)} (dw_pc w p)) \<and>
    (\<forall>(p, f, d) \<in> set (dw_patches w). is_version (dw_repo w) f \<and> ParseConfigMapYAML yaml (df_Content f) = Inr d)"

lemma left_at_append: "left_at yaml edit repo c own d \<Longrightarrow> left_at yaml edit (repo @ xs) c own d"
  by (auto simp: left_at_def nth_append split: if_splits)

lemma is_version_append: "is_version repo f \<Longrightarrow> is_version (repo @ xs) f"
  by (auto simp: is_version_def nth_append)

lemma projects_append: "projects yaml na edit repo c own want f d \<Longrightarrow> projects yaml na edit (repo @ xs) c own want f d"
  by (auto simp: projects_def is_version_append dest: left_at_append)

lemma pc_ok_grows: "pc_ok yaml na edit repo seen pc \<Longrightarrow> seen \<subseteq> seen' \<Longrightarrow> pc_ok yaml na edit (repo @ xs) seen' pc"
proof (cases pc)
  case (DDone c own)
  assume "pc_ok yaml na edit repo seen pc" and sub: "seen \<subseteq> seen'"
  with DDone obtain want f d where "(f, d) \<in> seen" "projects yaml na edit repo c own want f d" "RecordCount na d = 0 \<longrightarrow> want = 0" by auto
  with sub projects_append have "(f, d) \<in> seen'" "projects yaml na edit (repo @ xs) c own want f d" "RecordCount na d = 0 \<longrightarrow> want = 0" by blast+
  then show ?thesis unfolding DDone pc_ok.simps by (intro exI conjI)
qed (auto simp: is_version_append projects_append dest: left_at_append)

lemma head_version: "dw_repo w \<noteq> [] \<Longrightarrow> is_version (dw_repo w) (head_file w)"
  by (simp add: is_version_def head_file_def last_conv_nth)

lemma commit_read_ok:
  "is_version repo f \<Longrightarrow> pc_ok yaml na edit repo seen (commit_read yaml na edit a (Inr f))"
  "pc_ok yaml na edit repo seen (commit_read yaml na edit a (Inl e))"
  by (auto simp: dns_call_defs left_at_def is_version_def split: sum.splits)

lemma commit_written_ok:
  "left_at yaml edit repo True v d \<Longrightarrow> pc_ok yaml na edit repo seen (commit_written na a d (Inr v))"
  "pc_ok yaml na edit repo seen (commit_written na a d (Inl e))"
  by (auto simp: dns_call_defs)

lemma project_read_ok:
  "is_version repo f \<Longrightarrow> own \<le> df_LastCommitID f \<Longrightarrow> left_at yaml edit repo c own mine \<Longrightarrow> want = RecordCount na mine \<Longrightarrow>
    pc_ok yaml na edit repo seen (project_read yaml c own a want (Inr f))"
  "pc_ok yaml na edit repo seen (project_read yaml c own a want (Inl e))"
  by (auto simp: dns_call_defs projects_def split: sum.splits)

lemma project_version_ok:
  "projects yaml na edit repo c own want f d \<Longrightarrow> pc_ok yaml na edit repo seen (project_version na c own a want f d got)"
  by (auto simp: dns_call_defs split: sum.splits)

lemma project_patched_ok:
  "projects yaml na edit repo c own want f d \<Longrightarrow> (RecordCount na d = 0 \<longrightarrow> want = 0) \<Longrightarrow> (f, d) \<in> seen \<Longrightarrow>
    pc_ok yaml na edit repo seen (project_patched c own a want None)"
  unfolding project_patched_def option.case pc_ok.simps by (intro exI conjI)

lemma project_retried_ok:
  "projects yaml na edit repo c own want f d \<Longrightarrow> pc_ok yaml na edit repo seen (project_patched c own a want (Some e))"
  by (auto simp: dns_call_defs projects_def)

lemma left_at_commit:
  assumes "is_version repo f" "df_LastCommitID f = length repo - 1" "ParseConfigMapYAML yaml (df_Content f) = Inr d0" "edit d0 = Inr d"
  shows "left_at yaml edit (repo @ [RenderConfigMapYAML d]) True (length repo) d"
  using assms by (auto simp: left_at_def is_version_def nth_append)

lemma dns_inv_start: "dns_start w \<Longrightarrow> dns_inv yaml na edits w"
proof -
  assume s: "dns_start w"
  have "pc_ok yaml na edit repo seen (dw_pc w p)" for edit repo seen p
  proof -
    have "dw_pc w p = DCorefile \<or> dw_pc w p = DCommit 1" using s by (simp add: dns_start_def)
    then show ?thesis by auto
  qed
  with s show ?thesis by (simp add: dns_start_def dns_inv_def)
qed

text \<open>A step that puts a command in its next place, with the history and the patches grown: what is left to show is the new place.\<close>

lemma dns_inv_next:
  assumes inv: "dns_inv yaml na edits w" and grow: "dw_repo w' = dw_repo w @ xs" "dw_patches w' = dw_patches w @ ys"
    and others: "\<And>q. q \<noteq> p \<Longrightarrow> dw_pc w' q = dw_pc w q \<and> dw_bind w' q = dw_bind w q"
    and new: "\<And>q f d. (q, f, d) \<in> set ys \<Longrightarrow> is_version (dw_repo w') f \<and> ParseConfigMapYAML yaml (df_Content f) = Inr d"
    and here: "pc_ok yaml na (edits p (dw_bind w' p)) (dw_repo w') {(f, d). (p, f, d) \<in> set (dw_patches w')} (dw_pc w' p)"
  shows "dns_inv yaml na edits w'"
  unfolding dns_inv_def
proof (intro conjI allI)
  show "dw_repo w' \<noteq> []" using inv grow(1) by (simp add: dns_inv_def)
next
  fix q
  have "pc_ok yaml na (edits q (dw_bind w q)) (dw_repo w @ xs) {(f, d). (q, f, d) \<in> set (dw_patches w')} (dw_pc w q)"
    by (rule pc_ok_grows [where seen = "{(f, d). (q, f, d) \<in> set (dw_patches w)}"]) (use inv grow(2) in \<open>auto simp: dns_inv_def\<close>)
  then show "pc_ok yaml na (edits q (dw_bind w' q)) (dw_repo w') {(f, d). (q, f, d) \<in> set (dw_patches w')} (dw_pc w' q)"
    using here others grow(1) by (cases "q = p") simp_all
next
  show "\<forall>(p, f, d) \<in> set (dw_patches w'). is_version (dw_repo w') f \<and> ParseConfigMapYAML yaml (df_Content f) = Inr d"
    using inv grow new by (auto simp: dns_inv_def is_version_append)
qed

lemma dns_inv_pc: "dns_inv yaml na edits w \<Longrightarrow> dw_pc w p = pc \<Longrightarrow>
    pc_ok yaml na (edits p (dw_bind w p)) (dw_repo w) {(f, d). (p, f, d) \<in> set (dw_patches w)} pc"
  by (auto simp: dns_inv_def)

lemma dns_inv_goes:
  assumes "dns_inv yaml na edits w" "pc_ok yaml na (edits p (dw_bind w p)) (dw_repo w) {(f, d). (p, f, d) \<in> set (dw_patches w)} pc"
  shows "dns_inv yaml na edits (goes w p pc)"
  by (rule dns_inv_next [OF assms(1), where xs = "[]" and ys = "[]" and p = p]) (use assms(2) in \<open>simp_all add: goes_def\<close>)

lemma dns_inv_commit:
  assumes "dns_inv yaml na edits w" "pc_ok yaml na (edits p (dw_bind w p)) (dw_repo w @ [r]) {(f, d). (p, f, d) \<in> set (dw_patches w)} pc"
  shows "dns_inv yaml na edits (goes (commits w r) p pc)"
  by (rule dns_inv_next [OF assms(1), where xs = "[r]" and ys = "[]" and p = p]) (use assms(2) in \<open>simp_all add: dns_world_defs\<close>)

lemma dns_inv_patch:
  assumes inv: "dns_inv yaml na edits w" and pr: "projects yaml na (edits p (dw_bind w p)) (dw_repo w) c own want f d"
    and pc: "\<And>seen. (f, d) \<in> seen \<Longrightarrow> pc_ok yaml na (edits p (dw_bind w p)) (dw_repo w) seen pc"
  shows "dns_inv yaml na edits (goes (patches w p f d) p pc)"
proof (rule dns_inv_next [OF inv, where xs = "[]" and ys = "[(p, f, d)]" and p = p])
  show "pc_ok yaml na (edits p (dw_bind (goes (patches w p f d) p pc) p)) (dw_repo (goes (patches w p f d) p pc)) {(g, e). (p, g, e) \<in> set (dw_patches (goes (patches w p f d) p pc))} (dw_pc (goes (patches w p f d) p pc) p)"
    using pc by (simp add: dns_world_defs)
qed (use pr in \<open>auto simp: dns_world_defs projects_def\<close>)

lemma dns_step_inv: "dns_step yaml na edits l w w' \<Longrightarrow> dns_inv yaml na edits w \<Longrightarrow> dns_inv yaml na edits w'"
proof (induction rule: dns_step.induct)
  case (corefile_answered w p got)
  show ?case
    by (rule dns_inv_next [OF corefile_answered.prems, where xs = "[]" and ys = "[]" and p = p])
      (simp_all add: dns_world_defs corefile_read_def split: sum.splits)
next
  case (commit_got w p a)
  then show ?case by (intro dns_inv_goes commit_read_ok head_version) (auto simp: dns_inv_def)
next
  case (commit_not_got w p a e)
  then show ?case by (intro dns_inv_goes commit_read_ok)
next
  case (update_done w p a f data r)
  from dns_inv_pc [OF update_done.prems update_done.hyps(1)] update_done.hyps(2) have
    "left_at yaml (edits p (dw_bind w p)) (dw_repo w @ [r]) True (length (dw_repo w)) data" by (auto simp: head_file_def intro: left_at_commit)
  then show ?case by (intro dns_inv_commit commit_written_ok update_done.prems)
next
  case (update_lost w p a f data r e)
  then show ?case by (intro dns_inv_commit commit_written_ok)
next
  case (update_refused w p a f data r e)
  then show ?case by (intro dns_inv_goes commit_written_ok)
next
  case (project_got w p c own a want)
  from dns_inv_pc [OF project_got.prems project_got.hyps] obtain mine where
    m: "left_at yaml (edits p (dw_bind w p)) (dw_repo w) c own mine" "want = RecordCount na mine" by auto
  then have "own \<le> df_LastCommitID (head_file w)" by (auto simp: left_at_def head_file_def)
  with m project_got.prems show ?case by (intro dns_inv_goes project_read_ok head_version) (auto simp: dns_inv_def)
next
  case (project_not_got w p c own a want e)
  then show ?case by (intro dns_inv_goes project_read_ok)
next
  case (version_got w p c own a want f data)
  from dns_inv_pc [OF version_got.prems version_got.hyps] version_got.prems show ?case by (auto intro: dns_inv_goes project_version_ok)
next
  case (version_not_got w p c own a want f data e)
  from dns_inv_pc [OF version_not_got.prems version_not_got.hyps] version_not_got.prems show ?case by (auto intro: dns_inv_goes project_version_ok)
next
  case (patch_done w p c own a want f data rv)
  from dns_inv_pc [OF patch_done.prems patch_done.hyps(1)] have
    pr: "projects yaml na (edits p (dw_bind w p)) (dw_repo w) c own want f data" "RecordCount na data = 0 \<longrightarrow> want = 0" by simp_all
  show ?case by (rule dns_inv_patch [OF patch_done.prems pr(1)]) (rule project_patched_ok [OF pr])
next
  case (patch_lost w p c own a want f data rv e)
  from dns_inv_pc [OF patch_lost.prems patch_lost.hyps(1)] patch_lost.prems show ?case
    by (auto intro: dns_inv_patch project_retried_ok)
next
  case (patch_refused w p c own a want f data rv e)
  from dns_inv_pc [OF patch_refused.prems patch_refused.hyps] patch_refused.prems show ?case
    by (auto intro: dns_inv_goes project_retried_ok)
next
  case (hand_edit w content)
  show ?case by (rule dns_inv_next [OF hand_edit, where xs = "[content]" and ys = "[]" and p = 0])
    (use pc_ok_grows [OF dns_inv_pc [OF hand_edit refl] subset_refl] in \<open>simp_all add: commits_def\<close>)
next
  case (cluster_edit w cm)
  then show ?case by (simp add: dns_inv_def)
qed

inductive dns_run :: "yaml_dec \<Rightarrow> netip \<Rightarrow> (nat \<Rightarrow> (string, string) gomap \<Rightarrow> dns_edit) \<Rightarrow> dns_world \<Rightarrow> nat option list \<Rightarrow> dns_world \<Rightarrow> bool" for yaml na edits w0 where
  here: "dns_run yaml na edits w0 [] w0"
| more: "dns_run yaml na edits w0 ls w \<Longrightarrow> dns_step yaml na edits l w w' \<Longrightarrow> dns_run yaml na edits w0 (ls @ [l]) w'"

lemma dns_run_inv: "dns_run yaml na edits w0 ls w \<Longrightarrow> dns_start w0 \<Longrightarrow> dns_inv yaml na edits w"
  by (induction rule: dns_run.induct) (auto intro: dns_inv_start dns_step_inv)

lemma dns_run_rank:
  "dns_run yaml na edits w0 ls w \<Longrightarrow> dns_rank (dw_pc w p) + length (filter (\<lambda>l. l = Some p) ls) \<le> dns_rank (dw_pc w0 p)"
proof (induction rule: dns_run.induct)
  case (more ls w l w')
  then show ?case
    using dns_step_rank [OF more.hyps(2), of p] dns_step_others [OF more.hyps(2), of p] by (cases "l = Some p") auto
qed simp

lemma dns_step_repo:
  "dns_step yaml na edits l w w' \<Longrightarrow> l = Some p \<Longrightarrow> dw_repo w' = dw_repo w \<or>
    (\<exists>a f d r. dw_pc w p = DUpdate a f d r \<and> df_LastCommitID f = df_LastCommitID (head_file w) \<and> dw_repo w' = dw_repo w @ [r])"
  by (induction rule: dns_step.induct) (auto simp: dns_world_defs split: sum.splits)

lemma dns_step_enabled:
  "(\<exists>w'. dns_step yaml na edits (Some p) w w') \<longleftrightarrow> dns_rank (dw_pc w p) \<noteq> 0"
proof
  assume "\<exists>w'. dns_step yaml na edits (Some p) w w'"
  then show "dns_rank (dw_pc w p) \<noteq> 0" using dns_step_rank by fastforce
next
  assume "dns_rank (dw_pc w p) \<noteq> 0"
  then show "\<exists>w'. dns_step yaml na edits (Some p) w w'"
    by (cases "dw_pc w p") (auto intro: dns_step.intros)
qed

text \<open>C36: no DNS change is lost in the repository. In every interleaving of any number of commands with hand edits and failing calls, whatever a command adds
  to the history is its edit of the version it replaces: the newest version read as the hosts file, edited, and rendered, and different from it. So a
  command never overwrites a commit it has not seen, however often it retries, and a command that has nothing to change commits nothing.\<close>

theorem dns_commits_edit_the_head:
  assumes "dns_start w0" "dns_run yaml na edits w0 ls w" "dns_step yaml na edits (Some p) w w'" "dw_repo w' \<noteq> dw_repo w"
  shows "\<exists>data data'. ParseConfigMapYAML yaml (last (dw_repo w)) = Inr data \<and> edits p (dw_bind w p) data = Inr data' \<and>
    dw_repo w' = dw_repo w @ [RenderConfigMapYAML data'] \<and> RenderConfigMapYAML data' \<noteq> last (dw_repo w)"
proof -
  have inv: "dns_inv yaml na edits w" using assms(1,2) by (rule dns_run_inv [rotated])
  obtain a f d r where u: "dw_pc w p = DUpdate a f d r" "df_LastCommitID f = df_LastCommitID (head_file w)" "dw_repo w' = dw_repo w @ [r]"
    using dns_step_repo [OF assms(3) refl] assms(4) by auto
  have "df_Content f = last (dw_repo w)"
    using dns_inv_pc [OF inv u(1)] u(2) inv by (auto simp: is_version_def head_file_def last_conv_nth dns_inv_def)
  with dns_inv_pc [OF inv u(1)] u(3) show ?thesis by auto
qed

text \<open>C37: a DNS command that reports the change as made has put the records of a version of the repository onto the cluster, and one no older than the
  version its own change is in: that version is its commit, made by its edit of the version before, or one that already held what was asked. A repository that
  has gone empty is not projected by a command that left records in it. Whatever is ever patched is the content of some version of the repository. And the change
  of every command ends: with one read of the Corefile for an addition, and three attempts on each side, of two calls and of three, it has succeeded or failed after
  sixteen calls to the services, fifteen for a removal. The polls of the resolver that follow a successful addition are not among them.\<close>

theorem dns_success_is_projected:
  assumes "dns_start w0" "dns_run yaml na edits w0 ls w"
  shows "(\<forall>c own. dw_pc w p = DDone c own \<longrightarrow> (\<exists>file data mine. (p, file, data) \<in> set (dw_patches w) \<and> own \<le> df_LastCommitID file \<and>
      ParseConfigMapYAML yaml (df_Content file) = Inr data \<and> left_at yaml (edits p (dw_bind w p)) (dw_repo w) c own mine \<and> (RecordCount na data = 0 \<longrightarrow> RecordCount na mine = 0))) \<and>
    (\<forall>(q, file, data) \<in> set (dw_patches w). is_version (dw_repo w) file \<and> ParseConfigMapYAML yaml (df_Content file) = Inr data) \<and>
    length (filter (\<lambda>l. l = Some p) ls) \<le> (if dw_pc w0 p = DCorefile then 16 else 15) \<and>
    ((\<exists>w'. dns_step yaml na edits (Some p) w w') \<or> (\<exists>c own. dw_pc w p = DDone c own) \<or> (\<exists>e. dw_pc w p = DFailed e))"
proof (intro conjI allI impI)
  have inv: "dns_inv yaml na edits w" using assms by (rule dns_run_inv [rotated])
  {
    fix c own
    assume "dw_pc w p = DDone c own"
    from dns_inv_pc [OF inv this] obtain want f d where
      "(p, f, d) \<in> set (dw_patches w)" "projects yaml na (edits p (dw_bind w p)) (dw_repo w) c own want f d" "RecordCount na d = 0 \<longrightarrow> want = 0" by auto
    then show "\<exists>file data mine. (p, file, data) \<in> set (dw_patches w) \<and> own \<le> df_LastCommitID file \<and>
      ParseConfigMapYAML yaml (df_Content file) = Inr data \<and> left_at yaml (edits p (dw_bind w p)) (dw_repo w) c own mine \<and> (RecordCount na data = 0 \<longrightarrow> RecordCount na mine = 0)"
      unfolding projects_def by metis
  }
  show "\<forall>(q, file, data) \<in> set (dw_patches w). is_version (dw_repo w) file \<and> ParseConfigMapYAML yaml (df_Content file) = Inr data"
    using inv by (simp add: dns_inv_def)
  have "dw_pc w0 p \<in> {DCorefile, DCommit 1}" using assms(1) by (simp add: dns_start_def)
  then have "dns_rank (dw_pc w0 p) = (if dw_pc w0 p = DCorefile then 16 else 15)" by (auto simp: dnsWriteAttempts_def)
  then show "length (filter (\<lambda>l. l = Some p) ls) \<le> (if dw_pc w0 p = DCorefile then 16 else 15)" using dns_run_rank [OF assms(2), of p] by simp
  show "(\<exists>w'. dns_step yaml na edits (Some p) w w') \<or> (\<exists>c own. dw_pc w p = DDone c own) \<or> (\<exists>e. dw_pc w p = DFailed e)"
    unfolding dns_step_enabled by (cases "dw_pc w p") simp_all
qed

section \<open>Two commands at once\<close>

definition demo_both :: "(string, string) gomap" where
  "demo_both = [(''sre.hosts'', ''10.0.0.1 a.sre.local'' @ [nl] @ ''10.0.0.2             b.sre.local'' @ [nl] @ ''10.0.0.1             c.sre.local'' @ [nl])]"

definition demo_doc :: "(string, string) gomap \<Rightarrow> configMapDoc" where
  "demo_doc d = \<lparr>cd_Kind = ''ConfigMap'', cd_Name = ConfigMapName, cd_Namespace = Namespace, cd_Data = d\<rparr>"

definition demo_yaml :: yaml_dec where
  \<comment> \<open>a decoder for these three files, which differ in their lines\<close>
  "demo_yaml s = Inr (demo_doc (case length (filter (\<lambda>c. c = nl) s) of 0 \<Rightarrow> [] | Suc n \<Rightarrow>
     if n = 15 then demo_zones else if n = 16 then demo_added else demo_both))"

definition demo_edits :: "nat \<Rightarrow> (string, string) gomap \<Rightarrow> dns_edit" where
  "demo_edits p b = (if p = 0 then dnsAdd_edit demo_netip b ''b.sre.local'' ''10.0.0.2'' ''''
     else dnsAdd_edit demo_netip b ''c.sre.local'' ''10.0.0.1'' '''')"

definition demo_file :: "nat \<Rightarrow> dns_file" where
  "demo_file v = \<lparr>df_Content = RenderConfigMapYAML ([demo_zones, demo_added, demo_both] ! v), df_LastCommitID = v\<rparr>"

definition demo_world :: "nat \<Rightarrow> (string, string) gomap \<Rightarrow> nat \<Rightarrow> dns_pc \<Rightarrow> dns_pc \<Rightarrow> (nat \<times> dns_file \<times> (string, string) gomap) list \<Rightarrow> dns_world" where
  "demo_world v cm rv a b ps = \<lparr>dw_repo = map RenderConfigMapYAML (take (Suc v) [demo_zones, demo_added, demo_both]), dw_cm = cm, dw_rv = rv,
     dw_pc = (\<lambda>p. if p = 0 then a else if p = 1 then b else DCommit 1),
     dw_bind = (\<lambda>p. demo_bindings), dw_patches = ps\<rparr>"

definition demo_corefile :: "(string, string) gomap" where
  "demo_corefile = [(''Corefile'', ''sre.local:53 {'' @ [nl] @ ''hosts /etc/coredns/hosts/sre.hosts {'')]"

lemma demo_corefile: "zoneBindings (Inr demo_corefile) = Inr demo_bindings"
  by code_simp

lemma demo_calls:
  "commit_read demo_yaml demo_netip (demo_edits 0 demo_bindings) 1 (Inr (demo_file 0)) = DUpdate 1 (demo_file 0) demo_added (RenderConfigMapYAML demo_added)"
  "commit_written demo_netip 1 demo_added (Inr 1) = DRead True 1 1 2"
  "project_read demo_yaml True 1 1 2 (Inr (demo_file 1)) = DVersion True 1 1 2 (demo_file 1) demo_added"
  "project_version demo_netip True 1 1 2 (demo_file 1) demo_added (Inr rv) = DPatch True 1 1 2 (demo_file 1) demo_added rv"
  "commit_read demo_yaml demo_netip (demo_edits 1 demo_bindings) 1 (Inr (demo_file 1)) = DUpdate 1 (demo_file 1) demo_both (RenderConfigMapYAML demo_both)"
  "commit_written demo_netip 1 demo_both (Inr 2) = DRead True 2 1 3"
  "project_read demo_yaml True 2 1 3 (Inr (demo_file 2)) = DVersion True 2 1 3 (demo_file 2) demo_both"
  "project_version demo_netip True 2 1 3 (demo_file 2) demo_both (Inr rv) = DPatch True 2 1 3 (demo_file 2) demo_both rv"
  "merge_patch demo_zones demo_both = demo_both" "merge_patch demo_both demo_added = demo_added"
  by code_simp+

abbreviation demo_step :: "nat \<Rightarrow> dns_world \<Rightarrow> dns_world \<Rightarrow> bool" where
  "demo_step p \<equiv> dns_step demo_yaml demo_netip demo_edits (Some p)"

lemma demo_world_sel [simp]:
  "dw_rv (demo_world v cm rv a b ps) = rv" "dw_bind (demo_world v cm rv a b ps) p = demo_bindings" "binds (demo_world v cm rv a b ps) p (Inr demo_corefile) = demo_world v cm rv a b ps"
  "dw_pc (demo_world v cm rv a b ps) 0 = a" "dw_pc (demo_world v cm rv a b ps) 1 = b"
  "goes (demo_world v cm rv a b ps) 0 a' = demo_world v cm rv a' b ps" "goes (demo_world v cm rv a b ps) 1 b' = demo_world v cm rv a b' ps"
  by (auto simp: demo_world_def goes_def binds_def demo_corefile fun_eq_iff)

lemma demo_world_repo [simp]:
  "head_file (demo_world 0 cm rv a b ps) = demo_file 0" "head_file (demo_world 1 cm rv a b ps) = demo_file 1" "head_file (demo_world 2 cm rv a b ps) = demo_file 2"
  "length (dw_repo (demo_world 0 cm rv a b ps)) = 1" "length (dw_repo (demo_world 1 cm rv a b ps)) = 2"
  "commits (demo_world 0 cm rv a b ps) (RenderConfigMapYAML demo_added) = demo_world 1 cm rv a b ps"
  "commits (demo_world 1 cm rv a b ps) (RenderConfigMapYAML demo_both) = demo_world 2 cm rv a b ps"
  "patches (demo_world 2 cm rv a b ps) p f d = demo_world 2 (merge_patch cm d) (Suc rv) a b (ps @ [(p, f, d)])"
  by (simp_all add: demo_world_def head_file_def demo_file_def commits_def patches_def numeral_2_eq_2)

lemma demo_file_id [simp]: "df_LastCommitID (demo_file v) = v"
  by (simp add: demo_file_def)

text \<open>One command commits and reads its own version to project; the other then commits, reads, and patches; the first reads the ConfigMap's
  version only now.\<close>

abbreviation demo_w0 :: dns_world where "demo_w0 \<equiv> demo_world 0 demo_zones 7 DCorefile DCorefile []"
abbreviation demo_w1 :: dns_world where "demo_w1 \<equiv> demo_world 0 demo_zones 7 (DCommit 1) (DCommit 1) []"

lemma demo_reading:
  "demo_step 0 demo_w0 (demo_world 0 demo_zones 7 (DCommit 1) DCorefile [])"
  "demo_step 1 (demo_world 0 demo_zones 7 (DCommit 1) DCorefile []) demo_w1"
  using corefile_answered [of demo_w0 0 demo_yaml demo_netip demo_edits "Inr demo_corefile"]
    corefile_answered [of "demo_world 0 demo_zones 7 (DCommit 1) DCorefile []" 1 demo_yaml demo_netip demo_edits "Inr demo_corefile"]
  by (simp_all add: corefile_read_def demo_corefile del: One_nat_def)

lemma demo_committing:
  "demo_step 0 demo_w1 (demo_world 0 demo_zones 7 (DUpdate 1 (demo_file 0) demo_added (RenderConfigMapYAML demo_added)) (DCommit 1) [])"
  "demo_step 0 (demo_world 0 demo_zones 7 (DUpdate 1 (demo_file 0) demo_added (RenderConfigMapYAML demo_added)) (DCommit 1) [])
    (demo_world 1 demo_zones 7 (DRead True 1 1 2) (DCommit 1) [])"
  "demo_step 0 (demo_world 1 demo_zones 7 (DRead True 1 1 2) (DCommit 1) []) (demo_world 1 demo_zones 7 (DVersion True 1 1 2 (demo_file 1) demo_added) (DCommit 1) [])"
  using commit_got [of demo_w1 0 1 demo_yaml demo_netip demo_edits]
    update_done [of "demo_world 0 demo_zones 7 (DUpdate 1 (demo_file 0) demo_added (RenderConfigMapYAML demo_added)) (DCommit 1) []" 0 1 "demo_file 0" demo_added
      "RenderConfigMapYAML demo_added" demo_yaml demo_netip demo_edits]
    project_got [of "demo_world 1 demo_zones 7 (DRead True 1 1 2) (DCommit 1) []" 0 True 1 1 2 demo_yaml demo_netip demo_edits]
  by (simp_all add: demo_calls del: One_nat_def)

lemma demo_overtaking:
  "demo_step 1 (demo_world 1 demo_zones 7 a (DCommit 1) []) (demo_world 1 demo_zones 7 a (DUpdate 1 (demo_file 1) demo_both (RenderConfigMapYAML demo_both)) [])"
  "demo_step 1 (demo_world 1 demo_zones 7 a (DUpdate 1 (demo_file 1) demo_both (RenderConfigMapYAML demo_both)) []) (demo_world 2 demo_zones 7 a (DRead True 2 1 3) [])"
  "demo_step 1 (demo_world 2 demo_zones 7 a (DRead True 2 1 3) []) (demo_world 2 demo_zones 7 a (DVersion True 2 1 3 (demo_file 2) demo_both) [])"
  "demo_step 1 (demo_world 2 demo_zones 7 a (DVersion True 2 1 3 (demo_file 2) demo_both) []) (demo_world 2 demo_zones 7 a (DPatch True 2 1 3 (demo_file 2) demo_both 7) [])"
  "demo_step 1 (demo_world 2 demo_zones 7 a (DPatch True 2 1 3 (demo_file 2) demo_both 7) []) (demo_world 2 demo_both 8 a (DDone True 2) [(1, demo_file 2, demo_both)])"
  using commit_got [of "demo_world 1 demo_zones 7 a (DCommit 1) []" 1 1 demo_yaml demo_netip demo_edits]
    update_done [of "demo_world 1 demo_zones 7 a (DUpdate 1 (demo_file 1) demo_both (RenderConfigMapYAML demo_both)) []" 1 1 "demo_file 1" demo_both
      "RenderConfigMapYAML demo_both" demo_yaml demo_netip demo_edits]
    project_got [of "demo_world 2 demo_zones 7 a (DRead True 2 1 3) []" 1 True 2 1 3 demo_yaml demo_netip demo_edits]
    version_got [of "demo_world 2 demo_zones 7 a (DVersion True 2 1 3 (demo_file 2) demo_both) []" 1 True 2 1 3 "demo_file 2" demo_both demo_yaml demo_netip demo_edits]
    patch_done [of "demo_world 2 demo_zones 7 a (DPatch True 2 1 3 (demo_file 2) demo_both 7) []" 1 True 2 1 3 "demo_file 2" demo_both 7 demo_yaml demo_netip demo_edits]
  by (simp_all add: demo_calls project_patched_def del: One_nat_def)

lemma demo_reverting:
  "demo_step 0 (demo_world 2 demo_both 8 (DVersion True 1 1 2 (demo_file 1) demo_added) b ps) (demo_world 2 demo_both 8 (DPatch True 1 1 2 (demo_file 1) demo_added 8) b ps)"
  "demo_step 0 (demo_world 2 demo_both 8 (DPatch True 1 1 2 (demo_file 1) demo_added 8) b ps) (demo_world 2 demo_added 9 (DDone True 1) b (ps @ [(0, demo_file 1, demo_added)]))"
  using version_got [of "demo_world 2 demo_both 8 (DVersion True 1 1 2 (demo_file 1) demo_added) b ps" 0 True 1 1 2 "demo_file 1" demo_added demo_yaml demo_netip demo_edits]
    patch_done [of "demo_world 2 demo_both 8 (DPatch True 1 1 2 (demo_file 1) demo_added 8) b ps" 0 True 1 1 2 "demo_file 1" demo_added 8 demo_yaml demo_netip demo_edits]
  by (simp_all add: demo_calls project_patched_def del: One_nat_def)

lemma demo_start: "dns_start demo_w0"
  by (simp add: dns_start_def demo_world_def)

lemmas demo_steps = demo_reading demo_committing demo_overtaking demo_reverting

definition demo_end :: dns_world where
  "demo_end = demo_world 2 demo_added 9 (DDone True 1) (DDone True 2) [(1, demo_file 2, demo_both), (0, demo_file 1, demo_added)]"

lemma demo_run: "\<exists>ls. dns_run demo_yaml demo_netip demo_edits demo_w0 ls demo_end"
proof -
  note more = dns_run.more [of demo_yaml demo_netip demo_edits demo_w0]
  note run = more [OF more [OF more [OF more [OF more [OF more [OF more [OF more [OF more [OF more [OF more [OF more [OF dns_run.here demo_steps(1)] demo_steps(2)] demo_steps(3)] demo_steps(4)]
    demo_steps(5)] demo_steps(6)] demo_steps(7)] demo_steps(8)] demo_steps(9)] demo_steps(10)]
    demo_steps(11)] demo_steps(12)]
  from run show ?thesis unfolding demo_end_def append.simps by (intro exI)
qed

text \<open>The repository's newest version is read before the ConfigMap's resource version, so the patch of a command that is overtaken between the two carries
  an old version under a fresh precondition: both commands report success, the repository holds both records, and the cluster has lost the later one.\<close>

theorem stale_projection_reverts_a_record:
  "\<exists>ls w. dns_start demo_w0 \<and> dns_run demo_yaml demo_netip demo_edits demo_w0 ls w \<and> dw_pc w 0 = DDone True 1 \<and> dw_pc w 1 = DDone True 2 \<and>
    ParseConfigMapYAML demo_yaml (last (dw_repo w)) = Inr demo_both \<and> hosts_Lookup demo_netip (bound demo_both ''sre.hosts'') ''c.sre.local'' = Some ''10.0.0.1'' \<and>
    hosts_Lookup demo_netip (bound (dw_cm w) ''sre.hosts'') ''c.sre.local'' = None"
proof -
  obtain ls where "dns_run demo_yaml demo_netip demo_edits demo_w0 ls demo_end" using demo_run ..
  moreover have "ParseConfigMapYAML demo_yaml (last (dw_repo demo_end)) = Inr demo_both" unfolding demo_end_def demo_world_def by code_simp
  moreover have "hosts_Lookup demo_netip (bound demo_both ''sre.hosts'') ''c.sre.local'' = Some ''10.0.0.1''"
    "hosts_Lookup demo_netip (bound demo_added ''sre.hosts'') ''c.sre.local'' = None" by code_simp+
  moreover have "dw_pc demo_end 0 = DDone True 1" "dw_pc demo_end 1 = DDone True 2" "dw_cm demo_end = demo_added"
    by (simp_all add: demo_end_def demo_world_def)
  ultimately show ?thesis using demo_start by (intro exI [of _ ls] exI [of _ demo_end]) simp
qed

theorem dns_commits_edit_the_head_witness:
  "\<exists>data data'. ParseConfigMapYAML demo_yaml (RenderConfigMapYAML demo_zones) = Inr data \<and> demo_edits 0 demo_bindings data = Inr data' \<and>
    [RenderConfigMapYAML demo_zones, RenderConfigMapYAML demo_added] = [RenderConfigMapYAML demo_zones] @ [RenderConfigMapYAML data'] \<and>
    RenderConfigMapYAML data' \<noteq> RenderConfigMapYAML demo_zones"
  using dns_commits_edit_the_head [OF demo_start dns_run.more [OF dns_run.more [OF dns_run.more [OF dns_run.here demo_steps(1)] demo_steps(2)] demo_steps(3)] demo_steps(4)]
  by (simp add: demo_world_def)

theorem dns_success_is_projected_witness:
  "\<exists>file data mine. (0, file, data) \<in> set [(1::nat, demo_file 2, demo_both), (0, demo_file 1, demo_added)] \<and> 1 \<le> df_LastCommitID file \<and>
    ParseConfigMapYAML demo_yaml (df_Content file) = Inr data \<and>
    left_at demo_yaml (demo_edits 0 demo_bindings) (map RenderConfigMapYAML [demo_zones, demo_added, demo_both]) True 1 mine"
proof -
  obtain ls where run: "dns_run demo_yaml demo_netip demo_edits demo_w0 ls demo_end" using demo_run ..
  have pc: "dw_pc demo_end 0 = DDone True 1" "dw_patches demo_end = [(1, demo_file 2, demo_both), (0, demo_file 1, demo_added)]"
    "dw_repo demo_end = map RenderConfigMapYAML [demo_zones, demo_added, demo_both]" by (simp_all add: demo_end_def demo_world_def numeral_2_eq_2)
  have b: "dw_bind demo_end 0 = demo_bindings" by (simp add: demo_end_def)
  from dns_success_is_projected [OF demo_start run, of 0, THEN conjunct1, rule_format, OF pc(1)] obtain f data mine where
    "(0, f, data) \<in> set (dw_patches demo_end)" "1 \<le> df_LastCommitID f" "ParseConfigMapYAML demo_yaml (df_Content f) = Inr data"
    "left_at demo_yaml (demo_edits 0 demo_bindings) (dw_repo demo_end) True 1 mine" unfolding b by blast
  then show ?thesis unfolding pc by blast
qed

section \<open>Waiting for the resolver\<close>

record dns_poll =
  dp_answer :: "goerror + string list"
  dp_late :: bool \<comment> \<open>past the deadline, as the clock stands after the query\<close>
  dp_cancelled :: "goerror option" \<comment> \<open>the context, during the pause\<close>

text \<open>The loop over the polls, one after the other: None while it would still be polling.\<close>

fun dnsVerifyAnswers :: "string \<Rightarrow> string \<Rightarrow> nat \<Rightarrow> dns_poll list \<Rightarrow> (goerror + unit) option" where
  "dnsVerifyAnswers hostname ip streak [] = None"
| "dnsVerifyAnswers hostname ip streak (p # ps) =
    (let hit = (case dp_answer p of Inl e \<Rightarrow> False | Inr addrs \<Rightarrow> ip \<in> set addrs); streak' = (if hit then Suc streak else 0) in
     if hit \<and> dnsVerifyStreak \<le> streak' then Some (Inr ())
     else if dp_late p then Some (Inl (Plain (''registered, but '' @ hostname @ '' still answers '' @
       (let got = join_with '', '' (case dp_answer p of Inl e \<Rightarrow> [] | Inr addrs \<Rightarrow> addrs) in if got = '''' then ''no answer'' else got) @ '' after 2m'')))
     else (case dp_cancelled p of Some e \<Rightarrow> Some (Inl e) | None \<Rightarrow> dnsVerifyAnswers hostname ip streak' ps))"

abbreviation answers :: "string \<Rightarrow> dns_poll \<Rightarrow> bool" where
  "answers ip p \<equiv> (case dp_answer p of Inl e \<Rightarrow> False | Inr addrs \<Rightarrow> ip \<in> set addrs)"

lemma dnsVerifyAnswers_streak:
  "dnsVerifyAnswers h ip n ps = Some (Inr ()) \<Longrightarrow> n < dnsVerifyStreak \<Longrightarrow>
   \<exists>a b c. ps = a @ b @ c \<and> (\<forall>p \<in> set b. answers ip p) \<and> (length b = dnsVerifyStreak \<or> a = [] \<and> length b + n = dnsVerifyStreak)"
proof (induction ps arbitrary: n)
  case (Cons p ps)
  show ?case
  proof (cases "answers ip p \<and> dnsVerifyStreak \<le> Suc n")
    case True
    with Cons.prems(2) have "p # ps = [] @ [p] @ ps \<and> (\<forall>q \<in> set [p]. answers ip q) \<and> length [p] + n = dnsVerifyStreak" by simp
    then show ?thesis by blast
  next
    case False
    let ?n = "if answers ip p then Suc n else 0"
    have "dnsVerifyAnswers h ip ?n ps = Some (Inr ())" using Cons.prems(1) False by (auto simp: Let_def split: if_splits option.splits sum.splits)
    moreover have "?n < dnsVerifyStreak" using False by (auto simp: dnsVerifyStreak_def)
    ultimately obtain a b c where s: "ps = a @ b @ c" "\<forall>q \<in> set b. answers ip q" "length b = dnsVerifyStreak \<or> a = [] \<and> length b + ?n = dnsVerifyStreak"
      using Cons.IH by blast
    show ?thesis
    proof (cases "answers ip p \<and> length b \<noteq> dnsVerifyStreak")
      case True
      with s have "p # ps = [] @ (p # b) @ c \<and> (\<forall>q \<in> set (p # b). answers ip q) \<and> length (p # b) + n = dnsVerifyStreak" by simp
      then show ?thesis by blast
    next
      case False
      with s have "p # ps = (p # a) @ b @ c \<and> (\<forall>q \<in> set b. answers ip q) \<and> length b = dnsVerifyStreak" by (auto split: if_splits)
      then show ?thesis by blast
    qed
  qed
qed simp

text \<open>The polling ends with the first poll past its deadline, if not before.\<close>

lemma verification_ends: "p \<in> set ps \<Longrightarrow> dp_late p \<Longrightarrow> dnsVerifyAnswers h ip n ps \<noteq> None"
  by (induction ps arbitrary: n) (auto simp: Let_def split: option.splits)

lemma verified_answers_three_times:
  "dnsVerifyAnswers h ip 0 ps = Some (Inr ()) \<Longrightarrow> \<exists>a b c. ps = a @ b @ c \<and> length b = 3 \<and> (\<forall>p \<in> set b. answers ip p)"
  using dnsVerifyAnswers_streak [of h ip 0 ps] by (auto simp: dnsVerifyStreak_def)

end
