(* ===== verification/Spec2Isabelle.thy ===== *)
theory Spec2Isabelle
  imports Access_Gate Spool_Steps Gateway_Runs Wg_Topology Vm_Target Migrate_Ledger Node_Renew Farm_Assess Gateway_Adapters Dns_Write
begin

text \<open>
  \<^bold>\<open>A verification of vctl\<close>

  vctl is a command-line tool for operating a fleet: it authorises commands against Vault policies and
  database grants, keeps an inventory (live in PostgreSQL, cached on disk), opens SSH sessions with
  certificates signed by Vault and audits each of them, brokers sessions to nodes behind an access
  gateway, and collects and draws the WireGuard and OpenStack topology. The sources are under
  \<^verbatim>\<open>src/\<close>; the paths below are relative to \<^verbatim>\<open>src/internal/\<close>.

  \<^bold>\<open>The parts and the theories\<close>

  \<^item> \<open>Go_Prelude\<close>, \<open>Go_Net\<close>: what the sources use of Go and its library. Instants are integers of
    nanoseconds, differences saturate as \<^verbatim>\<open>Time.Sub\<close> does; a Go map is an association list whose
    order stands for the iteration order; errors are a datatype with wrapping; strings are byte lists;
    \<^verbatim>\<open>net.ParseIP\<close>, \<^verbatim>\<open>SplitHostPort\<close>, \<^verbatim>\<open>Atoi\<close> and the trimming functions are written out.
    Shared lemmas on maps, folds and strings are here.

  \<^item> \<open>Authz\<close> (\<^verbatim>\<open>authz/authz.go\<close>): the command catalogue, grants, the degraded mode with cached grants,
    \<open>Snapshot\<close> and \<open>Check\<close>. The token lookup and the grant source are an environment; effects are a list.
    The lemmas give the complete decision table of \<open>Check\<close> and that it opens and releases the grant source once.

  \<^item> \<open>Inv_Cache\<close> (\<^verbatim>\<open>invcache/\<close>): the snapshot, its in-memory reader and the cache file. The lemmas show
    that what is captured is served back, that a query never resolves to one of several hosts, and that the
    regular expression built for a query is the ILIKE of the live store.

  \<^item> \<open>Access_Gate\<close> (\<^verbatim>\<open>app/inventory.go\<close>, \<^verbatim>\<open>cli/internal/cmdkit/rbac.go\<close>): when the cache is served
    instead of the store, and the command gate. The history of a machine is a step relation over
    commands, refreshes, captures and clears; offline admission never exceeds a recorded grant in it.

  \<^item> \<open>Audit_Spool\<close> (\<^verbatim>\<open>auditspool/auditspool.go\<close>, \<^verbatim>\<open>app/app.go\<close>, the access log of \<^verbatim>\<open>store/store.go\<close>): the
    write-behind audit queue on the file system, with every call free to fail. Draining loses and doubles nothing, and draining a
    healthy backlog is shown to finish and to land each record once. \<open>Spool_Steps\<close> cuts the same calls at each system call and each
    round trip to the database, over inodes, for any number of processes: an acknowledged record is never lost under a discipline of the
    interleaving that is stated there and that the code does not enforce, and two runs outside it lose one.

  \<^item> \<open>Node_Protocol\<close> (\<^verbatim>\<open>nodeaccess/protocol.go\<close>, \<^verbatim>\<open>execute.go\<close>, \<^verbatim>\<open>agent.go\<close>): requests and their
    validation, node identities in certificates, the four commands of the agent. \<open>Node_Gateway\<close>
    (\<^verbatim>\<open>gateway.go\<close>, \<^verbatim>\<open>shell.go\<close>): the broker as a step relation over sessions, polls, results, shells and
    streams, one step per handler section between waits. \<open>Gateway_Safety\<close> proves its invariants (dispatch
    only when granted and audited, answers only from the target, shells confined, sizes bounded),
    \<open>Gateway_Runs\<close> holds concrete runs. \<open>Node_Enroll\<close> (\<^verbatim>\<open>vendordata.go\<close>, \<^verbatim>\<open>enroll.go\<close> and the certificate handlers of
    \<^verbatim>\<open>gateway.go\<close>): the grants Nova hands to a new VM and the certificates they earn. \<open>Node_Renew\<close>
    (\<^verbatim>\<open>cert_renewal.go\<close>): enrolment and renewal on the agent, with the two files of its identity. HMAC, encodings, X.509 and
    HTTP are parameters. \<open>Gateway_Adapters\<close> (\<^verbatim>\<open>vctl_adapters.go\<close>, \<^verbatim>\<open>keystone_ca.go\<close>, \<^verbatim>\<open>store/node_access_audit.go\<close>): what the hooks of
    the broker are connected to, and the broker with its audit table as one step relation, in which a dispatch is traced down
    to the rows of grants, inventory and audit.

  \<^item> \<open>Rbac_Store\<close> (\<^verbatim>\<open>store/rbac.go\<close>, \<^verbatim>\<open>cli/rbac.go\<close>, the registration of \<^verbatim>\<open>cli/login.go\<close>): the tables of groups, members, grants and
    known users, the operations on them and the commands that call them. Statements of any number of processes are a step
    relation that keeps the tables well-formed; the operations refine two relations, and \<open>Check\<close> and \<^verbatim>\<open>rbac check\<close> decide by
    them, for commands registered with the catalogue's class; a read view runs whatever \<^verbatim>\<open>rbac check\<close> answers. \<open>List_Picker\<close> (\<^verbatim>\<open>cli/internal/cmdkit/selectlist.go\<close>): the picker those commands ask with, as a state machine over keys;
    it never indexes outside a list and returns what it shows.

  \<^item> \<open>Wg_Live\<close>, \<open>Wg_Parse\<close>, \<open>Wg_Derive\<close>, \<open>Wg_Topology\<close> (\<^verbatim>\<open>wireguard/\<close>): gateway identities and the live
    state of tunnels, the parser of collected output, derived paths and failure domains, and the builder of
    the topology. The lemmas show independence of polling, row and map order, that no secret enters the
    collected rows, and that the graph has unique nodes, one edge per tunnel and no dangling tunnel.

  \<^item> \<open>Ssh_Sync\<close> (\<^verbatim>\<open>syncx/sync.go\<close>): reading an SSH configuration into the inventory, with the closure under
    jump hosts. \<open>Ssh_Access\<close> (\<^verbatim>\<open>access/access.go\<close>, \<^verbatim>\<open>access/monitor.go\<close>, \<^verbatim>\<open>sshc/\<close>): targets, jump chains,
    host-key policies, signing, dialling and the audited connector, over an environment whose every answer
    may depend on the trace so far. \<open>Vm_Target\<close> (\<^verbatim>\<open>openstack/address.go\<close>, \<^verbatim>\<open>openstack/loginuser.go\<close>,
    \<^verbatim>\<open>access/vmtarget.go\<close>, the VM path of \<^verbatim>\<open>cli/ssh.go\<close>): which addresses and hops may be dialled, and
    the login walk on top of the connector.

  \<^item> \<open>Pg_Tx\<close>: transactions and single statements against PostgreSQL, with every statement free to fail, and what an operation
    keeps when its statements keep it. \<open>Migrate_Ledger\<close> (\<^verbatim>\<open>store/migrate.go\<close>): the migration runner, the abstract
    ledger it refines, and runs at once under the advisory lock.

  \<^item> \<open>Membership\<close> (\<^verbatim>\<open>openstack/membership/membership.go\<close>): which hosts a deployment owns. \<open>Farm_Fold\<close>
    (\<^verbatim>\<open>store/openstack_fold.go\<close>): the listing folded from capability rows, and the deployment a host is shown under.
    \<open>Farm_Store\<close> (\<^verbatim>\<open>capability_store.go\<close>, \<^verbatim>\<open>openstack_store.go\<close>, \<^verbatim>\<open>openstack_reconcile.go\<close> of \<^verbatim>\<open>store/\<close>) and
    \<open>Farm_Instances\<close> (\<^verbatim>\<open>openstack_instances.go\<close>): the tables of the OpenStack inventory and every operation on them.
    \<open>Farm_Reconcile\<close> (\<^verbatim>\<open>openstack/reconcile/reconcile.go\<close>): the reconcile service over that store. \<open>Farm_Assess\<close>
    (\<^verbatim>\<open>openstack/assessment.go\<close>): the judgement of a farm from its rows. Concurrent probe passes are a
    step relation; the lemmas show what is listed after them, that VM listings and pruning lose nothing they should keep, that
    a run records its decision, that partial answers take nothing away and that a dry run foretells the run; of an assessment,
    that its numbers agree, that a declared state hides nothing and that it reports the last recorded run.

  \<^item> \<open>Dns_Hosts\<close> (\<^verbatim>\<open>dnshosts/dnshosts.go\<close>): the hosts files of the fleet's DNS, the zones the Corefile binds to them and the
    repository file that carries them, with the white space of Unicode; edits are related to the records read. \<open>Dns_Write\<close> (\<^verbatim>\<open>cli/dns.go\<close>): the commands that edit
    them, as a step relation of any number of commands over the repository and the live ConfigMap: no commit is overwritten
    unseen, success means a version with the change was projected, every change ends after a bounded number of calls; and a run in which a stale projection reverts a record.

  The parts meet in the access path: the gate (\<open>Access_Gate\<close>) admits \<^verbatim>\<open>ssh\<close>, the inventory (\<open>Inv_Cache\<close>)
  answers for the target and its jump hosts (\<open>BuildTarget\<close> is instantiated with the cached reader), the
  connector (\<open>Ssh_Access\<close>) signs, dials and hands one row to the audit sink, which is the queue of
  \<open>Audit_Spool\<close> when the database is away; a row the sink refuses is a warning. They meet again in the farm: probes write capabilities, \<open>Decide\<close> of \<open>Membership\<close> judges
  what the control plane answers, \<open>Farm_Reconcile\<close> writes the judgement through \<open>Farm_Store\<close> and \<open>Farm_Instances\<close>, and the rows
  that \<open>Vm_Target\<close> dials from are those. And they meet in the gateway: its adapters admit an operator by the rows of \<open>Rbac_Store\<close>
  and a node by the rows of \<open>Farm_Store\<close>.

  \<^bold>\<open>Interfaces\<close>

  Contracts between components are locales, interpreted on the definitions of the component that provides
  them: a lookup with finitely many answers for jump chains (\<open>jump_inventory\<close>, on the cached reader), a journal that
  only grows by what ran (\<open>once_ledger\<close>, on the migration runner), a relation between databases that every statement of a farm's
  pass keeps (\<open>kept_relation\<close> and \<open>farm_pass\<close>, on confinement and on taking nothing away), the grants a user holds
  (\<open>grant_source\<close>, on the RBAC tables, used by the gate, by \<^verbatim>\<open>rbac check\<close> and by the gateway), and the locales of the
  earlier theories.

  \<^bold>\<open>Bounds and termination\<close>

  Loops are structural recursion or folds, with measures where they are not (IPv6 parsing, the chunks of a drain,
  the closure under jump hosts, whose measure counts the aliases not yet selected, pruning, whose measure counts the rows
  that are due). \<open>buildTargetSeen\<close> and \<open>ca_blocks\<close> are
  partial functions whose value is \<^const>\<open>None\<close> when they do not return; over an inventory, and with a PEM decoder that
  consumes what it decodes, they are shown to return always. No fuel is used. Sizes the code fixes (256 pending requests, 32 shells, the error text of 500 bytes, the
  queue limits) are the code's constants.

  \<^bold>\<open>Conventions\<close>

  Error values keep the wording of the messages and their wrapping; the quotes added by \<^verbatim>\<open>%q\<close> and the position of a
  wrapped error inside a sentence are not kept, nor, in \<open>Dns_Write\<close>, the advice that follows a dash. Strings are bytes; case folding is ASCII. Concurrency is the
  interleaving of steps where the code runs concurrently (gateway, spool, migrations, probe passes, RBAC statements, DNS commands) and sequence elsewhere.

  \<^bold>\<open>Not modelled\<close>

  Network and process I/O without logic of its own (Vault, OpenStack, Kubernetes and GitLab clients, the WireGuard
  device, the PTY, the collectors reading procfs), SQL queries other than those of the access log, the migration ledger, the RBAC,
  audit and OpenStack tables, flag wiring and the terminal views other than the list picker. Pure parts that remain: the fleet
  and doctor logic, the SOCKS5 handshake and the parsers of the collectors, in this order.
\<close>

end
